(* ===== verification/Prelude_ME.thy ===== *)
theory Prelude_ME
  imports Complex_Main "HOL-Library.AList" "HOL-Library.Multiset"
begin

text \<open>
  Shared vocabulary of the development: fallible results, hash maps as association lists,
  breadth-first search, list lemmas, and the fact collections the component proofs use.

  \<^item> A Rust \<open>Result<T, E>\<close> is \<open>'e + 't\<close>, \<open>Inl\<close> for \<open>Err\<close>; the \<open>?\<close> operator is \<open>and_then\<close>.
  \<^item> A Rust \<open>HashMap\<close> is an association list with distinct keys, read by \<open>map_of\<close>,
    written by \<open>AList.update\<close> and \<open>AList.delete\<close>. Its order stands for the unspecified
    iteration order of the hash map, so no property depends on it.
  \<^item> A \<open>HashSet\<close> that is only tested for membership is a set.
\<close>

named_theorems res_simps \<open>equations and eliminations for fallible results\<close>

subsection \<open>Fallible results\<close>

definition and_then :: "'e + 'a \<Rightarrow> ('a \<Rightarrow> 'e + 'b) \<Rightarrow> 'e + 'b" where
  "and_then r f = (case r of Inl e \<Rightarrow> Inl e | Inr x \<Rightarrow> f x)"

lemma and_then_simps [simp, res_simps]:
  "and_then (Inl e) f = Inl e"
  "and_then (Inr x) f = f x"
  by (simp_all add: and_then_def)

lemma and_then_eq_Inr [res_simps]:
  "and_then r f = Inr y \<longleftrightarrow> (\<exists>x. r = Inr x \<and> f x = Inr y)"
  by (cases r) auto

lemma and_then_eq_Inl:
  "and_then r f = Inl e \<longleftrightarrow> r = Inl e \<or> (\<exists>x. r = Inr x \<and> f x = Inl e)"
  by (cases r) auto

lemma and_then_split:
  "P (and_then r f) \<longleftrightarrow> (\<forall>e. r = Inl e \<longrightarrow> P (Inl e)) \<and> (\<forall>x. r = Inr x \<longrightarrow> P (f x))"
  by (cases r) auto

definition is_ok :: "'e + 'a \<Rightarrow> bool" where
  "is_ok r = (case r of Inl _ \<Rightarrow> False | Inr _ \<Rightarrow> True)"

lemma is_ok_simps [simp]: "is_ok (Inr x)" "\<not> is_ok (Inl e)"
  by (simp_all add: is_ok_def)

lemma is_ok_iff: "is_ok r \<longleftrightarrow> (\<exists>x. r = Inr x)"
  by (cases r) auto

text \<open>Running a fallible check over a list stops at the first error.\<close>

fun check_all :: "('a \<Rightarrow> 'e + unit) \<Rightarrow> 'a list \<Rightarrow> 'e + unit" where
  "check_all f [] = Inr ()"
| "check_all f (x # xs) = and_then (f x) (\<lambda>_. check_all f xs)"

lemma check_all_ok: "check_all f xs = Inr () \<longleftrightarrow> (\<forall>x \<in> set xs. f x = Inr ())"
  by (induction xs) (auto simp: and_then_eq_Inr)

fun map_res :: "('a \<Rightarrow> 'e + 'b) \<Rightarrow> 'a list \<Rightarrow> 'e + 'b list" where
  "map_res f [] = Inr []"
| "map_res f (x # xs) = and_then (f x) (\<lambda>y. and_then (map_res f xs) (\<lambda>ys. Inr (y # ys)))"

lemma map_res_length: "map_res f xs = Inr ys \<Longrightarrow> length ys = length xs"
  by (induction xs arbitrary: ys) (auto simp: and_then_eq_Inr)

subsection \<open>Hash maps as association lists\<close>

definition assoc_nbrs :: "('a \<times> 'b list) list \<Rightarrow> 'a \<Rightarrow> 'b list" where
  "assoc_nbrs m k = (case map_of m k of None \<Rightarrow> [] | Some xs \<Rightarrow> xs)"

definition push_at :: "'a \<Rightarrow> 'b \<Rightarrow> ('a \<times> 'b list) list \<Rightarrow> ('a \<times> 'b list) list" where
  \<comment> \<open>\<open>m.entry(k).or_default().push(x)\<close>\<close>
  "push_at k x m = AList.update k (assoc_nbrs m k @ [x]) m"

lemma assoc_nbrs_Nil [simp]: "assoc_nbrs [] k = []"
  by (simp add: assoc_nbrs_def)

lemma assoc_nbrs_push_at:
  "assoc_nbrs (push_at k x m) j = assoc_nbrs m j @ (if j = k then [x] else [])"
  by (simp add: assoc_nbrs_def push_at_def update_conv')

lemma assoc_nbrs_not_key: "k \<notin> fst ` set m \<Longrightarrow> assoc_nbrs m k = []"
  by (simp add: assoc_nbrs_def map_of_eq_None_iff[THEN iffD2])

lemma keys_push_at: "fst ` set (push_at k x m) = insert k (fst ` set m)"
  by (simp add: push_at_def dom_update)

lemma update_fresh: "k \<notin> fst ` set al \<Longrightarrow> AList.update k v al = al @ [(k, v)]"
  by (induction al) auto

lemma not_key_map_of: "k \<notin> fst ` set al \<longleftrightarrow> map_of al k = None"
  by (simp add: map_of_eq_None_iff)

lemma map_of_snoc_fresh:
  "k \<notin> fst ` set al \<Longrightarrow> map_of (al @ [(k, v)]) = (map_of al)(k \<mapsto> v)"
  by (metis update_fresh update_conv')

subsection \<open>Breadth-first search with a visited set\<close>

text \<open>
  The loop shape used by the scope tree: pop the front of the queue, skip it when it was
  visited, otherwise mark it, emit it and enqueue its successors. It ends on every graph,
  cyclic ones included: the unvisited keys shrink, or the queue does.
\<close>

lemma bfs_measure_decreases:
  assumes "x \<in> fst ` set adj" "x \<notin> visited"
  shows "card (fst ` set adj - insert x visited) < card (fst ` set adj - visited)"
  using assms by (intro psubset_card_mono) auto

function bfs_loop ::
  "('a \<times> 'a list) list \<Rightarrow> 'a list \<Rightarrow> 'a set \<Rightarrow> 'a list \<Rightarrow> 'a list" where
  "bfs_loop adj [] visited result = result"
| "bfs_loop adj (x # queue) visited result =
     (if x \<in> visited then bfs_loop adj queue visited result
      else bfs_loop adj (queue @ assoc_nbrs adj x) (insert x visited) (result @ [x]))"
  by pat_completeness auto

termination
proof (relation "measures [\<lambda>(adj, q, v, r). card (fst ` set adj - v), \<lambda>(adj, q, v, r). length q]",
    goal_cases)
  case 1
  then show ?case by simp
next
  case (2 adj x queue visited result)
  then show ?case by simp
next
  case (3 adj x queue visited result)
  show ?case
  proof (cases "x \<in> fst ` set adj")
    case True
    with 3 have "card (fst ` set adj - insert x visited) < card (fst ` set adj - visited)"
      by (intro bfs_measure_decreases)
    then show ?thesis by simp
  next
    case False
    then have "fst ` set adj - insert x visited = fst ` set adj - visited" by auto
    with False show ?thesis by (simp add: assoc_nbrs_not_key)
  qed
qed

definition assoc_rel :: "('a \<times> 'a list) list \<Rightarrow> ('a \<times> 'a) set" where
  "assoc_rel adj = {(x, y). y \<in> set (assoc_nbrs adj x)}"

lemma bfs_loop_mono: "set result \<subseteq> set (bfs_loop adj queue visited result)"
  by (induction adj queue visited result rule: bfs_loop.induct) auto

lemma bfs_loop_prefix: "\<exists>zs. bfs_loop adj queue visited result = result @ zs"
proof (induction adj queue visited result rule: bfs_loop.induct)
  case (2 adj x queue visited result)
  then show ?case by (cases "x \<in> visited") fastforce+
qed simp

lemma bfs_loop_distinct:
  "distinct result \<Longrightarrow> set result = visited \<Longrightarrow> distinct (bfs_loop adj queue visited result)"
  by (induction adj queue visited result rule: bfs_loop.induct) auto

lemma bfs_loop_sound:
  assumes "set result = visited" "z \<in> set (bfs_loop adj queue visited result)"
  shows "z \<in> visited \<or> (\<exists>x \<in> set queue. (x, z) \<in> (assoc_rel adj)\<^sup>*)"
  using assms
proof (induction adj queue visited result rule: bfs_loop.induct)
  case (2 adj x queue visited result)
  show ?case
  proof (cases "x \<in> visited")
    case True
    with 2 show ?thesis by auto
  next
    case False
    with 2 have "z \<in> insert x visited \<or>
        (\<exists>y \<in> set (queue @ assoc_nbrs adj x). (y, z) \<in> (assoc_rel adj)\<^sup>*)"
      by simp
    moreover have "(x, z) \<in> (assoc_rel adj)\<^sup>*"
      if "y \<in> set (assoc_nbrs adj x)" "(y, z) \<in> (assoc_rel adj)\<^sup>*" for y
      using that by (intro converse_rtrancl_into_rtrancl [of x y]) (auto simp: assoc_rel_def)
    ultimately show ?thesis by auto
  qed
qed simp

lemma bfs_loop_closed:
  assumes "set result = visited"
    and "\<forall>x \<in> visited. set (assoc_nbrs adj x) \<subseteq> visited \<union> set queue"
  shows "set queue \<subseteq> set (bfs_loop adj queue visited result) \<and>
    (\<forall>x \<in> set (bfs_loop adj queue visited result).
       set (assoc_nbrs adj x) \<subseteq> set (bfs_loop adj queue visited result))"
  using assms
proof (induction adj queue visited result rule: bfs_loop.induct)
  case (2 adj x queue visited result)
  show ?case
  proof (cases "x \<in> visited")
    case True
    then have "\<forall>y \<in> visited. set (assoc_nbrs adj y) \<subseteq> visited \<union> set queue"
      using "2.prems"(2) by auto
    with 2 True bfs_loop_mono [of result adj queue visited] show ?thesis by auto
  next
    case False
    then have "\<forall>y \<in> insert x visited. set (assoc_nbrs adj y)
        \<subseteq> insert x visited \<union> set (queue @ assoc_nbrs adj x)"
      using "2.prems"(2) by auto
    with 2 False bfs_loop_mono [of "result @ [x]" adj "queue @ assoc_nbrs adj x" "insert x visited"]
    show ?thesis by auto
  qed
qed simp

theorem bfs_loop_reachable:
  "set (bfs_loop adj [s] {} []) = {z. (s, z) \<in> (assoc_rel adj)\<^sup>*}"
proof (intro equalityI subsetI)
  fix z assume "z \<in> set (bfs_loop adj [s] {} [])"
  then show "z \<in> {z. (s, z) \<in> (assoc_rel adj)\<^sup>*}"
    using bfs_loop_sound [of "[]" "{}" z adj "[s]"] by auto
next
  fix z assume "z \<in> {z. (s, z) \<in> (assoc_rel adj)\<^sup>*}"
  then have "(s, z) \<in> (assoc_rel adj)\<^sup>*" by simp
  then show "z \<in> set (bfs_loop adj [s] {} [])"
  proof (induction rule: rtrancl_induct)
    case base
    then show ?case using bfs_loop_closed [of "[]" "{}" adj "[s]"] by simp
  next
    case (step y z)
    then show ?case
      using bfs_loop_closed [of "[]" "{}" adj "[s]"] unfolding assoc_rel_def by auto
  qed
qed

subsection \<open>Lists\<close>

lemma find_eq_Some_in: "List.find P xs = Some x \<Longrightarrow> x \<in> set xs \<and> P x"
  by (induction xs) (auto split: if_splits)

lemma find_unique:
  assumes "x \<in> set xs" "P x" "\<And>y. y \<in> set xs \<Longrightarrow> P y \<Longrightarrow> y = x"
  shows "List.find P xs = Some x"
  using assms
proof (induction xs)
  case (Cons a xs)
  show ?case
  proof (cases "P a")
    case True
    then have "a = x" by (rule Cons.prems(3) [OF list.set_intros(1)])
    with True show ?thesis by simp
  next
    case False
    with Cons.prems(1,2) have "x \<in> set xs" by auto
    then have "List.find P xs = Some x"
      using Cons.prems(2,3) by (intro Cons.IH) (blast intro: list.set_intros)+
    with False show ?thesis by simp
  qed
qed simp

lemma find_append:
  "List.find P (xs @ ys) = (case List.find P xs of None \<Rightarrow> List.find P ys | Some x \<Rightarrow> Some x)"
  by (induction xs) auto

lemma sum_list_nonneg_map: "(\<And>x. x \<in> set xs \<Longrightarrow> (0::real) \<le> f x) \<Longrightarrow> 0 \<le> sum_list (map f xs)"
  by (induction xs) auto

text \<open>Saturating arithmetic on \<open>usize\<close> and \<open>u32\<close>, both unsigned.\<close>

definition usize_max :: nat where "usize_max = 18446744073709551615"
definition u32_max :: nat where "u32_max = 4294967295"

definition sat_mul_usize :: "nat \<Rightarrow> nat \<Rightarrow> nat" where
  "sat_mul_usize a b = min (a * b) usize_max"

definition sat_add_u32 :: "nat \<Rightarrow> nat \<Rightarrow> nat" where
  "sat_add_u32 a b = min (a + b) u32_max"

end
