(* ===== verification/Float_Model.thy ===== *)
theory Float_Model
  imports Prelude_ME
begin

text \<open>
  The floating-point values of the code (\<open>f32\<close> and \<open>f64\<close>), as far as its guards see them:
  a finite number, the two infinities and NaN. Every guard of the code (\<open>is_finite\<close>, range
  tests, \<open>partial_cmp\<close>, NaN-ignoring \<open>min\<close> and \<open>max\<close>) is kept on these values. Arithmetic
  on finite numbers is exact real arithmetic: rounding, overflow to infinity and the sign
  of zero are not modelled. Also here: the stable sort of the standard library,
  \<open>sort_by\<close>, for the comparators the code uses.
\<close>

datatype fl = Fin real | PInf | NInf | NaN

subsection \<open>Classification and comparison\<close>

fun fl_is_finite :: "fl \<Rightarrow> bool" where
  "fl_is_finite (Fin _) = True"
| "fl_is_finite _ = False"

fun fl_val :: "fl \<Rightarrow> real" where
  "fl_val (Fin x) = x"
| "fl_val _ = 0"

fun fl_lt :: "fl \<Rightarrow> fl \<Rightarrow> bool" where
  "fl_lt NaN _ = False"
| "fl_lt _ NaN = False"
| "fl_lt (Fin x) (Fin y) = (x < y)"
| "fl_lt NInf NInf = False"
| "fl_lt NInf _ = True"
| "fl_lt _ NInf = False"
| "fl_lt PInf _ = False"
| "fl_lt _ PInf = True"

fun fl_eq :: "fl \<Rightarrow> fl \<Rightarrow> bool" where
  "fl_eq NaN _ = False"
| "fl_eq x y = (x = y)"

definition fl_le :: "fl \<Rightarrow> fl \<Rightarrow> bool" where
  "fl_le x y \<longleftrightarrow> fl_lt x y \<or> fl_eq x y"

lemma fl_le_Fin [simp]: "fl_le (Fin x) (Fin y) \<longleftrightarrow> x \<le> y"
  by (auto simp: fl_le_def)

lemma fl_le_NaN [simp]: "\<not> fl_le NaN y" "\<not> fl_le x NaN"
  by (cases x; simp add: fl_le_def)+

text \<open>\<open>(lo..=hi).contains(&v)\<close>\<close>

definition fl_in_range :: "fl \<Rightarrow> fl \<Rightarrow> fl \<Rightarrow> bool" where
  "fl_in_range lo hi v \<longleftrightarrow> fl_le lo v \<and> fl_le v hi"

lemma fl_in_range_Fin:
  "fl_in_range (Fin a) (Fin b) v \<longleftrightarrow> (\<exists>x. v = Fin x \<and> a \<le> x \<and> x \<le> b)"
  by (cases v) (auto simp: fl_in_range_def fl_le_def)

datatype ord3 = OLess | OEqual | OGreater

definition fl_partial_cmp :: "fl \<Rightarrow> fl \<Rightarrow> ord3 option" where
  "fl_partial_cmp x y =
     (if fl_lt x y then Some OLess else if fl_eq x y then Some OEqual
      else if fl_lt y x then Some OGreater else None)"

definition fl_cmp_or_equal :: "fl \<Rightarrow> fl \<Rightarrow> ord3" where
  \<comment> \<open>\<open>a.partial_cmp(&b).unwrap_or(Ordering::Equal)\<close>\<close>
  "fl_cmp_or_equal x y = (case fl_partial_cmp x y of Some c \<Rightarrow> c | None \<Rightarrow> OEqual)"

lemma fl_cmp_or_equal_Fin [simp]:
  "fl_cmp_or_equal (Fin x) (Fin y) = (if x < y then OLess else if x = y then OEqual else OGreater)"
  by (simp add: fl_cmp_or_equal_def fl_partial_cmp_def)

definition ord_cmp :: "'a::linorder \<Rightarrow> 'a \<Rightarrow> ord3" where
  \<comment> \<open>\<open>Ord::cmp\<close>\<close>
  "ord_cmp x y = (if x < y then OLess else if x = y then OEqual else OGreater)"

fun max_by :: "('a \<Rightarrow> 'a \<Rightarrow> ord3) \<Rightarrow> 'a list \<Rightarrow> 'a option" where
  \<comment> \<open>\<open>Iterator::max_by\<close>: the last of several greatest elements\<close>
  "max_by cmp [] = None"
| "max_by cmp (x # xs) = Some (fold (\<lambda>y best. if cmp best y = OGreater then best else y) xs x)"

text \<open>On values that are not NaN the comparison is a linear order.\<close>

lemma fl_lt_le: "x \<noteq> NaN \<Longrightarrow> y \<noteq> NaN \<Longrightarrow> \<not> fl_lt x y \<longleftrightarrow> fl_le y x"
  by (cases x; cases y; auto simp: fl_le_def)

lemma fl_le_trans: "fl_le x y \<Longrightarrow> fl_le y z \<Longrightarrow> fl_le x z"
  by (cases x; cases y; cases z; auto simp: fl_le_def)

lemma fl_le_refl: "x \<noteq> NaN \<Longrightarrow> fl_le x x"
  by (cases x) (simp_all add: fl_le_def)

lemma fl_lt_imp_le: "fl_lt x y \<Longrightarrow> fl_le x y"
  by (simp add: fl_le_def)

lemma fl_lt_asym: "fl_lt x y \<Longrightarrow> \<not> fl_lt y x"
  by (cases x; cases y; auto)

subsection \<open>Arithmetic\<close>

fun fl_neg :: "fl \<Rightarrow> fl" where
  "fl_neg (Fin x) = Fin (- x)"
| "fl_neg PInf = NInf"
| "fl_neg NInf = PInf"
| "fl_neg NaN = NaN"

fun fl_add :: "fl \<Rightarrow> fl \<Rightarrow> fl" where
  "fl_add (Fin x) (Fin y) = Fin (x + y)"
| "fl_add NaN _ = NaN"
| "fl_add _ NaN = NaN"
| "fl_add PInf NInf = NaN"
| "fl_add NInf PInf = NaN"
| "fl_add (Fin _) y = y"
| "fl_add x _ = x"

definition fl_sub :: "fl \<Rightarrow> fl \<Rightarrow> fl" where
  "fl_sub x y = fl_add x (fl_neg y)"

definition inf_of_sign :: "real \<Rightarrow> fl" where
  "inf_of_sign s = (if s > 0 then PInf else if s < 0 then NInf else NaN)"

fun fl_sign :: "fl \<Rightarrow> real" where
  "fl_sign (Fin x) = sgn x"
| "fl_sign PInf = 1"
| "fl_sign NInf = -1"
| "fl_sign NaN = 0"

fun fl_mul :: "fl \<Rightarrow> fl \<Rightarrow> fl" where
  "fl_mul (Fin x) (Fin y) = Fin (x * y)"
| "fl_mul NaN _ = NaN"
| "fl_mul _ NaN = NaN"
| "fl_mul x y = inf_of_sign (fl_sign x * fl_sign y)"

fun fl_div :: "fl \<Rightarrow> fl \<Rightarrow> fl" where
  "fl_div NaN _ = NaN"
| "fl_div _ NaN = NaN"
| "fl_div (Fin x) (Fin y) = (if y = 0 then inf_of_sign x else Fin (x / y))"
| "fl_div (Fin _) _ = Fin 0"
| "fl_div x (Fin y) = inf_of_sign (fl_sign x * (if y < 0 then -1 else 1))"
| "fl_div _ _ = NaN"

definition fl_mul_add :: "fl \<Rightarrow> fl \<Rightarrow> fl \<Rightarrow> fl" where
  \<comment> \<open>\<open>a.mul_add(b, c)\<close> is \<open>a * b + c\<close>\<close>
  "fl_mul_add a b c = fl_add (fl_mul a b) c"

text \<open>\<open>f64::max\<close> and \<open>f64::min\<close> return the other argument when one is NaN.\<close>

definition fl_max :: "fl \<Rightarrow> fl \<Rightarrow> fl" where
  "fl_max x y = (if x = NaN then y else if y = NaN then x else if fl_lt x y then y else x)"

definition fl_min :: "fl \<Rightarrow> fl \<Rightarrow> fl" where
  "fl_min x y = (if x = NaN then y else if y = NaN then x else if fl_lt y x then y else x)"

lemma fl_max_Fin [simp]: "fl_max (Fin x) (Fin y) = Fin (max x y)"
  by (simp add: fl_max_def max_def)

lemma fl_min_Fin [simp]: "fl_min (Fin x) (Fin y) = Fin (min x y)"
  by (simp add: fl_min_def min_def)

fun fl_sqrt :: "fl \<Rightarrow> fl" where
  "fl_sqrt (Fin x) = (if x < 0 then NaN else Fin (sqrt x))"
| "fl_sqrt PInf = PInf"
| "fl_sqrt NInf = NaN"
| "fl_sqrt NaN = NaN"

fun fl_exp2 :: "fl \<Rightarrow> fl" where
  "fl_exp2 (Fin x) = Fin (2 powr x)"
| "fl_exp2 PInf = PInf"
| "fl_exp2 NInf = Fin 0"
| "fl_exp2 NaN = NaN"

fun fl_ln :: "fl \<Rightarrow> fl" where
  "fl_ln (Fin x) = (if x < 0 then NaN else if x = 0 then NInf else Fin (ln x))"
| "fl_ln PInf = PInf"
| "fl_ln NInf = NaN"
| "fl_ln NaN = NaN"

definition fl_ln_1p :: "fl \<Rightarrow> fl" where
  "fl_ln_1p x = fl_ln (fl_add (Fin 1) x)"

subsection \<open>The stable sort of the standard library\<close>

fun insort_by :: "('a \<Rightarrow> 'a \<Rightarrow> ord3) \<Rightarrow> 'a \<Rightarrow> 'a list \<Rightarrow> 'a list" where
  "insort_by cmp x [] = [x]"
| "insort_by cmp x (y # ys) =
     (if cmp x y = OGreater then y # insort_by cmp x ys else x # y # ys)"

definition sort_by :: "('a \<Rightarrow> 'a \<Rightarrow> ord3) \<Rightarrow> 'a list \<Rightarrow> 'a list" where
  "sort_by cmp xs = foldr (insort_by cmp) xs []"

lemma mset_insort_by [simp]: "mset (insort_by cmp x ys) = add_mset x (mset ys)"
  by (induction ys) auto

lemma mset_sort_by [simp]: "mset (sort_by cmp xs) = mset xs"
  by (induction xs) (auto simp: sort_by_def)

lemma set_sort_by [simp]: "set (sort_by cmp xs) = set xs"
  by (metis mset_sort_by set_mset_mset)

lemma length_sort_by [simp]: "length (sort_by cmp xs) = length xs"
  by (metis mset_sort_by size_mset)

lemma sort_by_Cons: "sort_by cmp (x # xs) = insort_by cmp x (sort_by cmp xs)"
  by (simp add: sort_by_def)

text \<open>Descending by a float key, as the code writes it for scores.\<close>

definition desc_by :: "('a \<Rightarrow> fl) \<Rightarrow> 'a \<Rightarrow> 'a \<Rightarrow> ord3" where
  "desc_by key a b = fl_cmp_or_equal (key b) (key a)"

definition fin_key :: "('a \<Rightarrow> fl) \<Rightarrow> 'a list \<Rightarrow> bool" where
  "fin_key key xs \<longleftrightarrow> (\<forall>x \<in> set xs. fl_is_finite (key x))"

lemma desc_by_finite:
  assumes "fl_is_finite (key a)" "fl_is_finite (key b)"
  shows "desc_by key a b = OGreater \<longleftrightarrow> fl_val (key a) < fl_val (key b)"
  using assms by (cases "key a"; cases "key b") (auto simp: desc_by_def)

lemma insort_by_sorted:
  assumes "fin_key key (x # ys)"
    and "sorted_wrt (\<lambda>a b. fl_val (key a) \<ge> fl_val (key b)) ys"
  shows "sorted_wrt (\<lambda>a b. fl_val (key a) \<ge> fl_val (key b)) (insort_by (desc_by key) x ys)"
  using assms
proof (induction ys)
  case (Cons y ys)
  have fx: "fl_is_finite (key x)" "fl_is_finite (key y)" and fys: "fin_key key (x # ys)"
    using Cons.prems(1) by (auto simp: fin_key_def)
  have mem: "set (insort_by (desc_by key) x ys) = insert x (set ys)"
    by (metis mset_insort_by set_mset_add_mset_insert set_mset_mset)
  show ?case
    using Cons.IH [OF fys] Cons.prems(2) fx
    by (fastforce simp: desc_by_finite mem)
qed simp

lemma sort_by_desc_sorted:
  "fin_key key xs \<Longrightarrow>
   sorted_wrt (\<lambda>a b. fl_val (key a) \<ge> fl_val (key b)) (sort_by (desc_by key) xs)"
proof (induction xs)
  case (Cons x xs)
  then show ?case
    by (auto simp: sort_by_Cons fin_key_def intro!: insort_by_sorted)
qed (simp add: sort_by_def)

end
