(* ===== verification/Domain_Types.thy ===== *)
theory Domain_Types
  imports Float_Model
begin

text \<open>
  The vocabulary crate \<open>me-types\<close>: error enums (\<open>error.rs\<close>), facts, edges and summaries
  (\<open>types/facts.rs\<close>), relation labels (\<open>types/relation.rs\<close>), scopes (\<open>types/scope.rs\<close>),
  queries (\<open>types/search.rs\<close>, \<open>types/memory_query.rs\<close>), the forgetting policy
  (\<open>types/forgetting.rs\<close>) and the ingest limits (\<open>limits.rs\<close>).

  A string is its UTF-8 bytes. A timestamp is the number of nanoseconds since the epoch.
  A formatted error message keeps its template and its arguments. JSON values are those
  of the code's JSON library; the byte length of their serialisation is a parameter.
\<close>

type_synonym time = int
type_synonym fact_id = int

datatype fact_type = Episodic | Semantic | Procedural

datatype consolidation_level = LocalLevel | ClusterLevel | GlobalLevel

datatype json = JNull | JBool bool | JNum fl | JStr string | JArr "json list"
  | JObj "(string \<times> json) list"

subsection \<open>Errors\<close>

datatype fmt_arg = ANat nat | AInt int | AStr string | AFl fl | AType fact_type

datatype message = Fmt string "fmt_arg list"

abbreviation Lit :: "string \<Rightarrow> message" where "Lit s \<equiv> Fmt s []"

record fingerprint =
  fp_model :: string
  fp_provider :: string
  fp_dim :: nat
  fp_matryoshka_base_dim :: "nat option"
  fp_element_type :: string

datatype conflict_error =
    QueryValidation message
  | PolicyParameter message
  | ScopeLabel message
  | TargetExists
  | TargetNotEmpty
  | DumpTargetIsLiveDatabase
  | DumpTargetIsDirectory
  | Arbitration message
  | PayloadTooLarge string nat nat

datatype reranker_error =
    Provider message
  | OutputTooLong nat nat
  | OutOfBoundsIndex nat nat
  | DuplicateIndex nat
  | NonFiniteScore fl nat

datatype archive_error =
    PakVersionUnsupported nat nat
  | ArchiveSchemaVersionUnsupported nat nat
  | NotFileBacked message
  | Codec message
  | PakTooLarge nat
  | ArchiveIo message
  | Transaction message

datatype migration_error =
    SchemaVersionUnsupported nat nat
  | SchemaVersionNeedsMigration nat nat
  | EmbedDimMismatch nat nat
  | Backup message
  | MissingUpcaster message
  | Incompatible message

datatype cycle_error =
    UnknownFact fact_id
  | ScoreOutOfBounds fact_id fl
  | AdjustmentOutOfRange fact_id int
  | SupersedeMissing fact_id
  | AlreadyExpired fact_id
  | SynthesizeNoSources
  | MalformedReport nat
  | UnsupportedDelta

datatype storage_error =
    Backend message
  | CapabilityUnavailable string string

datatype memory_error =
    NotFound message
  | Serialization message
  | EmbeddingDimension nat nat
  | EmbeddingModelMismatch fingerprint fingerprint
  | EmbeddingReopenRequired nat
  | Conflict conflict_error
  | Migration migration_error
  | NotImplemented message
  | Pool message
  | UnsupportedEpoch nat nat
  | SnapshotTooLarge nat
  | Internal message
  | IndexInconsistent fact_id message
  | Io message
  | Reranker reranker_error
  | Archive archive_error
  | ReadOnly
  | Lineage message
  | Cycle cycle_error
  | Storage storage_error

type_synonym 'a result = "memory_error + 'a"

subsection \<open>Fact types and their textual form\<close>

fun fact_type_to_string :: "fact_type \<Rightarrow> string" where
  "fact_type_to_string Episodic = ''episodic''"
| "fact_type_to_string Semantic = ''semantic''"
| "fact_type_to_string Procedural = ''procedural''"

definition ascii_lower :: "char \<Rightarrow> char" where
  \<comment> \<open>\<open>u8::to_ascii_lowercase\<close>\<close>
  "ascii_lower c =
     (let n = of_char c :: nat in if 65 \<le> n \<and> n \<le> 90 then char_of (n + 32) else c)"

definition eq_ignore_ascii_case :: "string \<Rightarrow> string \<Rightarrow> bool" where
  "eq_ignore_ascii_case s t \<longleftrightarrow> map ascii_lower s = map ascii_lower t"

definition fact_type_from_str :: "string \<Rightarrow> string + fact_type" where
  \<comment> \<open>the error carries the offending token (\<open>ParseFactTypeError\<close>)\<close>
  "fact_type_from_str s =
     (if eq_ignore_ascii_case s ''episodic'' then Inr Episodic
      else if eq_ignore_ascii_case s ''semantic'' then Inr Semantic
      else if eq_ignore_ascii_case s ''procedural'' then Inr Procedural
      else Inl s)"

fun level_to_string :: "consolidation_level \<Rightarrow> string" where
  "level_to_string LocalLevel = ''local''"
| "level_to_string ClusterLevel = ''cluster''"
| "level_to_string GlobalLevel = ''global''"

subsection \<open>Relation labels\<close>

datatype relation_type = CoSession | Supplements | Contradicts | Supersedes | Custom string

fun as_str :: "relation_type \<Rightarrow> string" where
  "as_str CoSession = ''co_session''"
| "as_str Supplements = ''supplements''"
| "as_str Contradicts = ''contradicts''"
| "as_str Supersedes = ''supersedes''"
| "as_str (Custom s) = s"

definition relation_from :: "string \<Rightarrow> relation_type" where
  "relation_from s =
     (if s = ''co_session'' then CoSession
      else if s = ''supplements'' then Supplements
      else if s = ''contradicts'' then Contradicts
      else if s = ''supersedes'' then Supersedes
      else Custom s)"

definition relation_eq :: "relation_type \<Rightarrow> relation_type \<Rightarrow> bool" where
  \<comment> \<open>the hand-written \<open>PartialEq\<close>: equality of the wire strings\<close>
  "relation_eq a b \<longleftrightarrow> as_str a = as_str b"

lemma as_str_relation_from [simp]: "as_str (relation_from s) = s"
  by (simp add: relation_from_def)

subsection \<open>Facts, edges, summaries\<close>

record fact =
  f_id :: fact_id
  f_content :: string
  f_content_hash :: string
  f_embedding :: "fl list"
  f_fact_type :: fact_type
  f_t_created :: time
  f_t_expired :: "time option"
  f_t_valid :: "time option"
  f_t_invalid :: "time option"
  f_source_event_id :: "int option"
  f_base_importance :: fl
  f_access_count :: int
  f_last_accessed :: time
  f_metadata :: json
  f_scope_id :: int
  f_is_pinned :: bool
  f_importance_score :: fl
  f_surfaced_at :: "time option"

record new_fact =
  nf_content :: string
  nf_content_hash :: string
  nf_embedding :: "fl list"
  nf_fact_type :: fact_type
  nf_t_created :: time
  nf_t_expired :: "time option"
  nf_t_valid :: "time option"
  nf_t_invalid :: "time option"
  nf_source_event_id :: "int option"
  nf_base_importance :: fl
  nf_access_count :: int
  nf_last_accessed :: time
  nf_metadata :: json
  nf_scope_id :: int
  nf_is_pinned :: bool

record edge =
  e_id :: int
  e_source_fact_id :: fact_id
  e_target_fact_id :: fact_id
  e_relation_type :: relation_type
  e_weight :: fl
  e_t_created :: time
  e_t_expired :: "time option"
  e_scope_id :: int

record summary =
  s_id :: int
  s_content :: string
  s_embedding :: "fl list"
  s_level :: consolidation_level
  s_source_fact_ids :: "fact_id list"
  s_created_at :: time
  s_scope_id :: int

record new_summary =
  ns_content :: string
  ns_embedding :: "fl list"
  ns_level :: consolidation_level
  ns_source_fact_ids :: "fact_id list"
  ns_created_at :: time
  ns_scope_id :: int

record fact_scoring_row =
  r_id :: fact_id
  r_fact_type :: fact_type
  r_last_accessed :: time
  r_access_count :: int
  r_base_importance :: fl
  r_is_pinned :: bool

record add_fact_options =
  o_base_importance :: "fl option"
  o_metadata :: "json option"
  o_t_valid :: "time option"
  o_t_invalid :: "time option"
  o_pinned :: "bool option"
  o_t_created :: "time option"
  o_last_accessed :: "time option"

definition default_add_fact_options :: add_fact_options where
  "default_add_fact_options =
     \<lparr>o_base_importance = None, o_metadata = None, o_t_valid = None, o_t_invalid = None,
      o_pinned = None, o_t_created = None, o_last_accessed = None\<rparr>"

record add_fact_request =
  q_content :: string
  q_fact_type :: fact_type
  q_source_event_id :: "int option"
  q_scope :: "string option"
  q_opts :: "add_fact_options option"

record classifier_input =
  ci_content :: string
  ci_fact_type :: fact_type
  ci_base_importance :: fl
  ci_metadata :: json

definition unscored_importance :: fl where "unscored_importance = Fin (1/2)"

definition default_root_scope_id :: int where "default_root_scope_id = 1"

definition from_new_for_arbiter :: "new_fact \<Rightarrow> fact" where
  "from_new_for_arbiter nf =
     \<lparr>f_id = 0, f_content = nf_content nf, f_content_hash = nf_content_hash nf,
      f_embedding = nf_embedding nf, f_fact_type = nf_fact_type nf,
      f_t_created = nf_t_created nf, f_t_expired = nf_t_expired nf,
      f_t_valid = nf_t_valid nf, f_t_invalid = nf_t_invalid nf,
      f_source_event_id = nf_source_event_id nf, f_base_importance = nf_base_importance nf,
      f_access_count = nf_access_count nf, f_last_accessed = nf_last_accessed nf,
      f_metadata = nf_metadata nf, f_scope_id = nf_scope_id nf,
      f_is_pinned = nf_is_pinned nf, f_importance_score = unscored_importance,
      f_surfaced_at = None\<rparr>"

definition is_temporally_due :: "fact \<Rightarrow> time \<Rightarrow> bool" where
  "is_temporally_due f now \<longleftrightarrow>
     (case f_t_valid f of None \<Rightarrow> False | Some tv \<Rightarrow> tv \<le> now) \<and>
     (case f_t_invalid f of None \<Rightarrow> True | Some ti \<Rightarrow> now < ti)"

subsection \<open>The builder of new facts\<close>

record new_fact_builder =
  b_content :: string
  b_content_hash :: string
  b_embedding :: "fl list"
  b_fact_type :: fact_type
  b_t_created :: "time option"
  b_t_expired :: "time option"
  b_t_valid :: "time option"
  b_t_invalid :: "time option"
  b_source_event_id :: "int option"
  b_base_importance :: fl
  b_access_count :: int
  b_last_accessed :: "time option"
  b_metadata :: json
  b_scope_id :: int
  b_is_pinned :: bool

definition builder_new :: "string \<Rightarrow> fl list \<Rightarrow> fact_type \<Rightarrow> new_fact_builder" where
  "builder_new content embedding ft =
     \<lparr>b_content = content, b_content_hash = [], b_embedding = embedding, b_fact_type = ft,
      b_t_created = None, b_t_expired = None, b_t_valid = None, b_t_invalid = None,
      b_source_event_id = None, b_base_importance = Fin (1/2), b_access_count = 0,
      b_last_accessed = None, b_metadata = JObj [], b_scope_id = default_root_scope_id,
      b_is_pinned = False\<rparr>"

definition builder_build :: "time \<Rightarrow> new_fact_builder \<Rightarrow> new_fact" where
  \<comment> \<open>the first argument is the single reading of the clock\<close>
  "builder_build now b =
     (let t_created = (case b_t_created b of Some t \<Rightarrow> t | None \<Rightarrow> now) in
     \<lparr>nf_content = b_content b, nf_content_hash = b_content_hash b,
      nf_embedding = b_embedding b, nf_fact_type = b_fact_type b, nf_t_created = t_created,
      nf_t_expired = b_t_expired b, nf_t_valid = b_t_valid b, nf_t_invalid = b_t_invalid b,
      nf_source_event_id = b_source_event_id b, nf_base_importance = b_base_importance b,
      nf_access_count = b_access_count b,
      nf_last_accessed = (case b_last_accessed b of Some t \<Rightarrow> t | None \<Rightarrow> t_created),
      nf_metadata = b_metadata b, nf_scope_id = b_scope_id b, nf_is_pinned = b_is_pinned b\<rparr>)"

subsection \<open>Scopes\<close>

record scope_node =
  sn_id :: int
  sn_parent_id :: "int option"
  sn_label :: string
  sn_depth :: int

datatype scope_query = Exact string | Subtree string | Ancestors string | Inherited string

definition max_segment_len :: nat where "max_segment_len = 256"

definition validate_segment :: "string \<Rightarrow> string + unit" where
  "validate_segment segment =
     (if segment = [] then Inl ''scope label must not be empty''
      else if CHR ''/'' \<in> set segment then Inl (''scope label must not contain '' @ [CHR 0x27, CHR ''/'', CHR 0x27])
      else if length segment > max_segment_len
        then Inl ''scope label must be at most 256 bytes''
      else Inr ())"

lemma validate_segment_ok:
  "validate_segment s = Inr () \<longleftrightarrow>
     s \<noteq> [] \<and> CHR ''/'' \<notin> set s \<and> length s \<le> max_segment_len"
  by (simp add: validate_segment_def)

subsection \<open>Ingest limits\<close>

definition max_payload_bytes :: nat where "max_payload_bytes = 1024 * 1024"
definition max_facts_for_dedup :: nat where "max_facts_for_dedup = 50000"
definition max_facts_for_clustering :: nat where "max_facts_for_clustering = 50000"

definition check_str_size :: "string \<Rightarrow> string \<Rightarrow> unit result" where
  "check_str_size s kind =
     (if length s > max_payload_bytes
      then Inl (Conflict (PayloadTooLarge kind (length s) max_payload_bytes))
      else Inr ())"

fun serialized_len :: "nat list \<Rightarrow> nat \<Rightarrow> nat \<Rightarrow> nat + nat" where
  \<comment> \<open>the counting sink: chunks of these sizes are written until the running
      total passes the limit, which aborts with the total reached\<close>
  "serialized_len [] written limit = Inr written"
| "serialized_len (n # ns) written limit =
     (if written + n > limit then Inl (written + n) else serialized_len ns (written + n) limit)"

definition check_json_size :: "(json \<Rightarrow> nat list) \<Rightarrow> json \<Rightarrow> string \<Rightarrow> unit result" where
  \<comment> \<open>\<open>chunks\<close> is the JSON library's serialiser, seen as the sizes of its writes\<close>
  "check_json_size chunks value kind =
     (case serialized_len (chunks value) 0 max_payload_bytes of
        Inr _ \<Rightarrow> Inr ()
      | Inl n \<Rightarrow> Inl (Conflict (PayloadTooLarge kind n max_payload_bytes)))"

definition check_new_fact :: "(json \<Rightarrow> nat list) \<Rightarrow> new_fact \<Rightarrow> unit result" where
  "check_new_fact chunks nf =
     and_then (check_str_size (nf_content nf) ''fact content'')
       (\<lambda>_. check_json_size chunks (nf_metadata nf) ''fact metadata'')"

lemma serialized_len_Inr: "serialized_len ns c l = Inr t \<Longrightarrow> t = c + sum_list ns"
  by (induction ns c l rule: serialized_len.induct) (auto split: if_splits)

lemma serialized_len_ok:
  "c \<le> l \<Longrightarrow> (\<exists>t. serialized_len ns c l = Inr t) \<longleftrightarrow> c + sum_list ns \<le> l"
proof (induction ns c l rule: serialized_len.induct)
  case (2 n ns written limit)
  then show ?case by (cases "written + n > limit") auto
qed simp

subsection \<open>The forgetting policy\<close>

record forget_policy =
  p_half_life_days :: fl
  p_half_life_overrides :: "(fact_type \<times> fl) list"
  p_decay_exempt_types :: "fact_type set"
  p_min_importance :: fl
  p_recency_weight :: fl
  p_frequency_weight :: fl
  p_graph_degree_weight :: fl
  p_base_importance_weight :: fl

definition default_forget_policy :: forget_policy where
  "default_forget_policy =
     \<lparr>p_half_life_days = Fin 69, p_half_life_overrides = [],
      p_decay_exempt_types = {Semantic, Procedural}, p_min_importance = Fin (1/10),
      p_recency_weight = Fin (3/10), p_frequency_weight = Fin (2/10),
      p_graph_degree_weight = Fin (3/10), p_base_importance_weight = Fin (2/10)\<rparr>"

definition is_decay_exempt :: "forget_policy \<Rightarrow> fact_type \<Rightarrow> bool" where
  "is_decay_exempt p ft \<longleftrightarrow>
     ft \<in> p_decay_exempt_types p \<and> ft \<notin> fst ` set (p_half_life_overrides p)"

definition bad_half_life :: "fl \<Rightarrow> bool" where
  "bad_half_life hl \<longleftrightarrow> \<not> fl_is_finite hl \<or> fl_le hl (Fin 0)"

definition policy_error :: "message \<Rightarrow> memory_error" where
  "policy_error m = Conflict (PolicyParameter m)"

definition validate_policy :: "forget_policy \<Rightarrow> unit result" where
  "validate_policy p =
     (if bad_half_life (p_half_life_days p)
      then Inl (policy_error (Lit ''half_life_days must be > 0''))
      else and_then
        (check_all (\<lambda>(ft, hl). if bad_half_life hl
            then Inl (policy_error (Fmt ''half_life for {} must be > 0'' [AType ft]))
            else Inr ()) (p_half_life_overrides p))
        (\<lambda>_.
          if \<not> fl_in_range (Fin 0) (Fin 1) (p_min_importance p)
          then Inl (policy_error (Lit ''min_importance must be in [0, 1]''))
          else if \<not> fl_is_finite (p_recency_weight p)
            \<or> \<not> fl_is_finite (p_frequency_weight p)
            \<or> \<not> fl_is_finite (p_graph_degree_weight p)
            \<or> \<not> fl_is_finite (p_base_importance_weight p)
            \<or> fl_lt (p_recency_weight p) (Fin 0)
            \<or> fl_lt (p_frequency_weight p) (Fin 0)
            \<or> fl_lt (p_graph_degree_weight p) (Fin 0)
            \<or> fl_lt (p_base_importance_weight p) (Fin 0)
          then Inl (policy_error (Lit ''weights must be >= 0''))
          else Inr ()))"

lemma bad_half_life_iff: "\<not> bad_half_life hl \<longleftrightarrow> (\<exists>h. hl = Fin h \<and> 0 < h)"
  by (cases hl) (auto simp: bad_half_life_def)

lemma finite_nonneg_iff:
  "fl_is_finite w \<and> \<not> fl_lt w (Fin 0) \<longleftrightarrow> (\<exists>x. w = Fin x \<and> 0 \<le> x)"
  by (cases w) auto

definition nonneg_weight :: "fl \<Rightarrow> bool" where
  "nonneg_weight w \<longleftrightarrow> (\<exists>x. w = Fin x \<and> 0 \<le> x)"

lemma validate_policy_ok:
  assumes "validate_policy p = Inr ()"
  shows "\<exists>h. p_half_life_days p = Fin h \<and> 0 < h"
    and "map_of (p_half_life_overrides p) ft = Some hl \<Longrightarrow> \<exists>h. hl = Fin h \<and> 0 < h"
    and "\<exists>m. p_min_importance p = Fin m \<and> 0 \<le> m \<and> m \<le> 1"
    and "nonneg_weight (p_recency_weight p)" "nonneg_weight (p_frequency_weight p)"
    and "nonneg_weight (p_graph_degree_weight p)" "nonneg_weight (p_base_importance_weight p)"
proof -
  note v = assms [unfolded validate_policy_def and_then_def, simplified]
  have hl: "\<not> bad_half_life (p_half_life_days p)"
    using v by (auto split: if_splits)
  then show "\<exists>h. p_half_life_days p = Fin h \<and> 0 < h" by (simp add: bad_half_life_iff)
  have ov: "check_all (\<lambda>(ft, hl). if bad_half_life hl
            then Inl (policy_error (Fmt ''half_life for {} must be > 0'' [AType ft]))
            else Inr ()) (p_half_life_overrides p) = Inr ()"
    using v hl by (auto split: sum.splits if_splits)
  then show "map_of (p_half_life_overrides p) ft = Some hl \<Longrightarrow> \<exists>h. hl = Fin h \<and> 0 < h"
    unfolding check_all_ok bad_half_life_iff [symmetric] by (auto dest!: map_of_SomeD split: if_splits)
  have rest: "fl_in_range (Fin 0) (Fin 1) (p_min_importance p)"
    "fl_is_finite (p_recency_weight p) \<and> \<not> fl_lt (p_recency_weight p) (Fin 0)"
    "fl_is_finite (p_frequency_weight p) \<and> \<not> fl_lt (p_frequency_weight p) (Fin 0)"
    "fl_is_finite (p_graph_degree_weight p) \<and> \<not> fl_lt (p_graph_degree_weight p) (Fin 0)"
    "fl_is_finite (p_base_importance_weight p) \<and> \<not> fl_lt (p_base_importance_weight p) (Fin 0)"
    using v hl ov by (auto split: if_splits)
  from rest(1) show "\<exists>m. p_min_importance p = Fin m \<and> 0 \<le> m \<and> m \<le> 1"
    by (auto simp: fl_in_range_Fin)
  from rest(2-) show "nonneg_weight (p_recency_weight p)" "nonneg_weight (p_frequency_weight p)"
    "nonneg_weight (p_graph_degree_weight p)" "nonneg_weight (p_base_importance_weight p)"
    by (simp_all add: nonneg_weight_def finite_nonneg_iff)
qed

end
