(* ===== verification/Store_Monad.thy ===== *)
theory Store_Monad
  imports Domain_Types
begin

text \<open>
  Operations on a store: an operation takes the state and returns its result and the state it
  leaves, so that what a failing operation has already written is visible. \<open>transaction\<close> is a
  database transaction that is rolled back when its body fails. \<open>keeps I op\<close> says that \<open>op\<close>
  preserves the invariant \<open>I\<close> on every outcome; the rules for it compose along the code.
\<close>

type_synonym ('s, 'a) op = "'s \<Rightarrow> 'a result \<times> 's"

named_theorems keeps_intros

definition op_return :: "'a \<Rightarrow> ('s, 'a) op" where
  "op_return x = (\<lambda>s. (Inr x, s))"

definition op_fail :: "memory_error \<Rightarrow> ('s, 'a) op" where
  "op_fail e = (\<lambda>s. (Inl e, s))"

definition op_of :: "'a result \<Rightarrow> ('s, 'a) op" where
  "op_of r = (\<lambda>s. (r, s))"

definition op_reads :: "('s \<Rightarrow> 'a result) \<Rightarrow> ('s, 'a) op" where
  "op_reads f = (\<lambda>s. (f s, s))"

definition op_bind :: "('s, 'a) op \<Rightarrow> ('a \<Rightarrow> ('s, 'b) op) \<Rightarrow> ('s, 'b) op" where
  \<comment> \<open>the operator \<open>?\<close>: an error ends the operation, with what was written so far\<close>
  "op_bind m k = (\<lambda>s. case m s of (Inl e, s') \<Rightarrow> (Inl e, s') | (Inr x, s') \<Rightarrow> k x s')"

definition transaction :: "('s, 'a) op \<Rightarrow> ('s, 'a) op" where
  "transaction m = (\<lambda>s. case m s of (Inl e, _) \<Rightarrow> (Inl e, s) | (Inr x, s') \<Rightarrow> (Inr x, s'))"

fun op_map :: "('a \<Rightarrow> ('s, 'b) op) \<Rightarrow> 'a list \<Rightarrow> ('s, 'b list) op" where
  \<comment> \<open>a loop that pushes one result per element\<close>
  "op_map f [] = op_return []"
| "op_map f (x # xs) = op_bind (f x) (\<lambda>y. op_bind (op_map f xs) (\<lambda>ys. op_return (y # ys)))"

fun op_each :: "('a \<Rightarrow> ('s, unit) op) \<Rightarrow> 'a list \<Rightarrow> ('s, unit) op" where
  "op_each f [] = op_return ()"
| "op_each f (x # xs) = op_bind (f x) (\<lambda>_. op_each f xs)"

fun op_fold :: "('a \<Rightarrow> 'b \<Rightarrow> ('s, 'b) op) \<Rightarrow> 'a list \<Rightarrow> 'b \<Rightarrow> ('s, 'b) op" where
  \<comment> \<open>a loop with an accumulator\<close>
  "op_fold f [] acc = op_return acc"
| "op_fold f (x # xs) acc = op_bind (f x acc) (op_fold f xs)"

lemma op_simps [simp]:
  "op_return x s = (Inr x, s)" "op_fail e s = (Inl e, s)" "op_of r s = (r, s)"
  "op_reads f s = (f s, s)"
  by (simp_all add: op_return_def op_fail_def op_of_def op_reads_def)

lemma op_bind_Inr:
  "op_bind m k s = (Inr y, s'') \<longleftrightarrow> (\<exists>x s'. m s = (Inr x, s') \<and> k x s' = (Inr y, s''))"
  by (auto simp: op_bind_def split: prod.splits sum.splits)

lemma op_bind_Inl:
  "op_bind m k s = (Inl e, s'') \<longleftrightarrow>
     m s = (Inl e, s'') \<or> (\<exists>x s'. m s = (Inr x, s') \<and> k x s' = (Inl e, s''))"
  by (auto simp: op_bind_def split: prod.splits sum.splits)

lemma op_bind_simps [simp]:
  "op_bind (op_return x) k s = k x s" "op_bind (op_fail e) k s = (Inl e, s)"
  by (simp_all add: op_bind_def)

lemma op_bind_step: "m s = (Inr x, s') \<Longrightarrow> op_bind m k s = k x s'"
  by (simp add: op_bind_def)

lemma op_bind_stop: "m s = (Inl e, s') \<Longrightarrow> op_bind m k s = (Inl e, s')"
  by (simp add: op_bind_def)

lemma transaction_Inr [simp]: "transaction m s = (Inr x, s') \<longleftrightarrow> m s = (Inr x, s')"
  by (auto simp: transaction_def split: prod.splits sum.splits)

lemma transaction_Inl: "transaction m s = (Inl e, s') \<longleftrightarrow> s' = s \<and> (\<exists>t. m s = (Inl e, t))"
  by (auto simp: transaction_def split: prod.splits sum.splits)

lemma transaction_rolled_back: "transaction m s = (Inl e, s') \<Longrightarrow> s' = s"
  by (simp add: transaction_Inl)

subsection \<open>Invariants\<close>

definition keeps :: "('s \<Rightarrow> bool) \<Rightarrow> ('s, 'a) op \<Rightarrow> bool" where
  "keeps I m \<longleftrightarrow> (\<forall>s. I s \<longrightarrow> I (snd (m s)))"

lemma keepsD: "keeps I m \<Longrightarrow> I s \<Longrightarrow> m s = (r, s') \<Longrightarrow> I s'"
  unfolding keeps_def by (metis snd_conv)

lemma keepsI: "(\<And>s r s'. I s \<Longrightarrow> m s = (r, s') \<Longrightarrow> I s') \<Longrightarrow> keeps I m"
  unfolding keeps_def by (metis surjective_pairing)

lemma keeps_return [keeps_intros]: "keeps I (op_return x)"
  and keeps_fail [keeps_intros]: "keeps I (op_fail e)"
  and keeps_of [keeps_intros]: "keeps I (op_of r)"
  and keeps_reads [keeps_intros]: "keeps I (op_reads f)"
  by (simp_all add: keeps_def)

lemma keeps_Pair [keeps_intros]: "keeps I (Pair r)"
  by (simp add: keeps_def)

lemma keeps_dep: "(\<And>t. keeps I (m t)) \<Longrightarrow> keeps I (\<lambda>s. m s s)"
  by (simp add: keeps_def)

lemma keeps_bind [keeps_intros]: "keeps I m \<Longrightarrow> (\<And>x. keeps I (k x)) \<Longrightarrow> keeps I (op_bind m k)"
  by (rule keepsI) (auto simp: op_bind_def dest: keepsD split: prod.splits sum.splits)

lemma keeps_bind_reads:
  \<comment> \<open>what was read comes from a state that satisfies the invariant\<close>
  assumes "\<And>s x. I s \<Longrightarrow> f s = Inr x \<Longrightarrow> keeps I (k x)"
  shows "keeps I (op_bind (op_reads f) k)"
  by (rule keepsI) (use assms in \<open>auto simp: op_bind_def dest: keepsD split: sum.splits\<close>)

lemma keeps_transaction [keeps_intros]: "keeps I m \<Longrightarrow> keeps I (transaction m)"
  by (rule keepsI) (auto simp: transaction_def dest: keepsD split: prod.splits sum.splits)

lemma keeps_map [keeps_intros]: "(\<And>x. x \<in> set xs \<Longrightarrow> keeps I (f x)) \<Longrightarrow> keeps I (op_map f xs)"
  by (induction xs) (auto intro!: keeps_intros)

lemma keeps_each [keeps_intros]: "(\<And>x. x \<in> set xs \<Longrightarrow> keeps I (f x)) \<Longrightarrow> keeps I (op_each f xs)"
  by (induction xs) (auto intro!: keeps_intros)

lemma keeps_fold [keeps_intros]:
  "(\<And>x acc. x \<in> set xs \<Longrightarrow> keeps I (f x acc)) \<Longrightarrow> keeps I (op_fold f xs acc)"
  by (induction xs arbitrary: acc) (auto intro!: keeps_intros)

lemma keeps_if [keeps_intros]: "keeps I m \<Longrightarrow> keeps I n \<Longrightarrow> keeps I (if b then m else n)"
  by simp

lemma keeps_option [keeps_intros]:
  "keeps I m \<Longrightarrow> (\<And>x. keeps I (k x)) \<Longrightarrow> keeps I (case v of None \<Rightarrow> m | Some x \<Rightarrow> k x)"
  by (cases v) simp_all

text \<open>\<open>only m\<close>: an operation that changes nothing when it fails.\<close>

definition all_or_nothing :: "('s, 'a) op \<Rightarrow> bool" where
  "all_or_nothing m \<longleftrightarrow> (\<forall>s e s'. m s = (Inl e, s') \<longrightarrow> s' = s)"

lemma all_or_nothing_transaction: "all_or_nothing (transaction m)"
  by (simp add: all_or_nothing_def transaction_Inl)

lemma op_map_Inr_length: "op_map f xs s = (Inr ys, s') \<Longrightarrow> length ys = length xs"
  by (induction xs arbitrary: s ys) (auto simp: op_bind_Inr)

end
