(* ===== verification/Scope_Tree.thy ===== *)
theory Scope_Tree
  imports Domain_Types
begin

text \<open>
  The scope hierarchy cache, \<open>me-index/src/scope/tree.rs\<close> and \<open>scope/mod.rs\<close>:
  \<open>ScopeTree\<close> is the record \<open>scope_tree\<close>, its two hash maps are association lists, and
  every public operation is a function of the tree. Paths are byte strings; \<open>str::trim\<close>
  removes the UTF-8 encodings of the Unicode white space.

  The lemmas show that the traversals end on every tree, even with a parent cycle, and
  return exactly the ids on the parent chain (\<open>ancestors\<close>) or below a scope (\<open>subtree\<close>);
  that on a well-formed tree a path resolves back to the id it was rendered from; and
  that inserting keeps a tree well formed.
\<close>

subsection \<open>Path strings\<close>

fun split_on :: "char \<Rightarrow> string \<Rightarrow> string list" where
  \<comment> \<open>\<open>str::split\<close> on one character: the empty string has one empty segment\<close>
  "split_on c [] = [[]]"
| "split_on c (x # xs) =
     (if x = c then [] # split_on c xs
      else (case split_on c xs of [] \<Rightarrow> [[x]] | s # ss \<Rightarrow> (x # s) # ss))"

fun join_with :: "string \<Rightarrow> string list \<Rightarrow> string" where
  "join_with sep [] = []"
| "join_with sep [x] = x"
| "join_with sep (x # y # ys) = x @ sep @ join_with sep (y # ys)"

definition unicode_ws :: "string list" where
  \<comment> \<open>the characters with the Unicode property White\_Space, in UTF-8\<close>
  "unicode_ws =
     [[CHR 0x09], [CHR 0x0A], [CHR 0x0B], [CHR 0x0C], [CHR 0x0D], [CHR 0x20],
      [CHR 0xC2, CHR 0x85], [CHR 0xC2, CHR 0xA0], [CHR 0xE1, CHR 0x9A, CHR 0x80],
      [CHR 0xE2, CHR 0x80, CHR 0x80], [CHR 0xE2, CHR 0x80, CHR 0x81],
      [CHR 0xE2, CHR 0x80, CHR 0x82], [CHR 0xE2, CHR 0x80, CHR 0x83],
      [CHR 0xE2, CHR 0x80, CHR 0x84], [CHR 0xE2, CHR 0x80, CHR 0x85],
      [CHR 0xE2, CHR 0x80, CHR 0x86], [CHR 0xE2, CHR 0x80, CHR 0x87],
      [CHR 0xE2, CHR 0x80, CHR 0x88], [CHR 0xE2, CHR 0x80, CHR 0x89],
      [CHR 0xE2, CHR 0x80, CHR 0x8A], [CHR 0xE2, CHR 0x80, CHR 0xA8],
      [CHR 0xE2, CHR 0x80, CHR 0xA9], [CHR 0xE2, CHR 0x80, CHR 0xAF],
      [CHR 0xE2, CHR 0x81, CHR 0x9F], [CHR 0xE3, CHR 0x80, CHR 0x80]]"

definition is_lead :: "string \<Rightarrow> string \<Rightarrow> bool" where
  "is_lead s w \<longleftrightarrow> w \<noteq> [] \<and> take (length w) s = w"

function strip_lead :: "string list \<Rightarrow> string \<Rightarrow> string" where
  "strip_lead ws s =
     (case List.find (is_lead s) ws of None \<Rightarrow> s | Some w \<Rightarrow> strip_lead ws (drop (length w) s))"
  by pat_completeness auto
termination
proof (relation "measure (\<lambda>(ws, s). length s)", goal_cases)
  case (2 ws s w)
  then have "is_lead s w" using find_eq_Some_in by metis
  then have "0 < length w" "length w \<le> length s"
    by (auto simp: is_lead_def) (metis length_take min.cobounded1 min.commute)
  then show ?case by (simp del: length_greater_0_conv)
qed simp

declare strip_lead.simps [simp del]

definition trim :: "string \<Rightarrow> string" where
  "trim s = rev (strip_lead (map rev unicode_ws) (rev (strip_lead unicode_ws s)))"

lemma split_on_nonempty [simp]: "split_on c s \<noteq> []"
  by (induction s) (auto split: list.splits)

lemma split_on_no_sep: "c \<notin> set s \<Longrightarrow> split_on c s = [s]"
  by (induction s) auto

lemma split_on_append:
  "c \<notin> set s \<Longrightarrow> split_on c (s @ c # t) = s # split_on c t"
  by (induction s) auto

lemma split_on_join:
  assumes "xs \<noteq> []" "\<forall>x \<in> set xs. c \<notin> set x"
  shows "split_on c (join_with [c] xs) = xs"
  using assms
proof (induction "[c]" xs rule: join_with.induct)
  case (3 x y ys)
  then show ?case by (simp add: split_on_append)
qed (auto simp: split_on_no_sep)

lemma join_split_on: "join_with [c] (split_on c s) = s"
proof (induction s)
  case (Cons x s)
  then show ?case by (cases "split_on c s"; cases "tl (split_on c s)") auto
qed simp

lemma split_on_no_sep_mem: "x \<in> set (split_on c s) \<Longrightarrow> c \<notin> set x"
proof (induction s arbitrary: x)
  case (Cons a s)
  then show ?case by (cases "split_on c s") (auto split: if_splits)
qed simp

subsection \<open>The tree\<close>

record scope_tree =
  st_nodes :: "(int \<times> scope_node) list"
  st_children :: "(int \<times> int list) list"

definition root_id :: int where "root_id = 1"

definition index_node :: "scope_node \<Rightarrow>
    (int \<times> scope_node) list \<times> (int \<times> int list) list \<Rightarrow>
    (int \<times> scope_node) list \<times> (int \<times> int list) list" where
  "index_node n = (\<lambda>(nodes, children).
     (AList.update (sn_id n) n nodes,
      case sn_parent_id n of None \<Rightarrow> children | Some pid \<Rightarrow> push_at pid (sn_id n) children))"

definition build_index :: "scope_node list \<Rightarrow>
    (int \<times> scope_node) list \<times> (int \<times> int list) list" where
  "build_index ns = fold index_node ns ([], [])"

definition from_nodes :: "scope_node list \<Rightarrow> scope_tree" where
  "from_nodes ns =
     (case build_index ns of (nodes, children) \<Rightarrow> \<lparr>st_nodes = nodes, st_children = children\<rparr>)"

definition has_label :: "scope_tree \<Rightarrow> string \<Rightarrow> int \<Rightarrow> bool" where
  "has_label t l i = (case map_of (st_nodes t) i of None \<Rightarrow> False | Some n \<Rightarrow> sn_label n = l)"

fun resolve_segments :: "scope_tree \<Rightarrow> string list \<Rightarrow> int \<Rightarrow> int option" where
  "resolve_segments t [] current = Some current"
| "resolve_segments t (seg # segs) current =
     (let segment = trim seg in
      if \<not> is_ok (validate_segment segment) then None
      else case map_of (st_children t) current of None \<Rightarrow> None
      | Some child_ids \<Rightarrow> (case List.find (has_label t segment) child_ids of
          None \<Rightarrow> None
        | Some found \<Rightarrow> resolve_segments t segs found))"

definition resolve_path :: "scope_tree \<Rightarrow> string \<Rightarrow> int option" where
  "resolve_path t path =
     (if path = ''/'' then Some root_id
      else resolve_segments t (split_on (CHR ''/'') path) root_id)"

definition parent_of :: "scope_tree \<Rightarrow> int \<Rightarrow> int option" where
  "parent_of t i = Option.bind (map_of (st_nodes t) i) sn_parent_id"

function ancestors_loop :: "scope_tree \<Rightarrow> int option \<Rightarrow> int list \<Rightarrow> int list" where
  "ancestors_loop t None result = result"
| "ancestors_loop t (Some i) result =
     (if i \<in> set result then result
      else ancestors_loop t (parent_of t i) (result @ [i]))"
  by pat_completeness auto
termination
proof (relation "measures [\<lambda>(t, c, r). card (fst ` set (st_nodes t) - set r),
    \<lambda>(t, c, r). case c of None \<Rightarrow> 0 | Some _ \<Rightarrow> 1]", goal_cases)
  case (2 t i result)
  show ?case
  proof (cases "i \<in> fst ` set (st_nodes t)")
    case True
    with 2 have "card (fst ` set (st_nodes t) - insert i (set result))
        < card (fst ` set (st_nodes t) - set result)"
      by (intro bfs_measure_decreases)
    then show ?thesis by simp
  next
    case False
    then have "parent_of t i = None"
      by (simp add: parent_of_def map_of_eq_None_iff [THEN iffD2])
    moreover from False have "fst ` set (st_nodes t) - insert i (set result)
        = fst ` set (st_nodes t) - set result" by auto
    ultimately show ?thesis by simp
  qed
qed simp

definition ancestors :: "scope_tree \<Rightarrow> int \<Rightarrow> int list" where
  "ancestors t scope_id = ancestors_loop t (Some scope_id) []"

definition subtree :: "scope_tree \<Rightarrow> int \<Rightarrow> int list" where
  "subtree t scope_id = bfs_loop (st_children t) [scope_id] {} []"

definition inherited :: "scope_tree \<Rightarrow> int \<Rightarrow> int list" where
  "inherited t scope_id =
     ancestors t scope_id @ filter (\<lambda>i. i \<noteq> scope_id) (subtree t scope_id)"

fun resolve_query :: "scope_tree \<Rightarrow> scope_query \<Rightarrow> int list option" where
  "resolve_query t (Exact path) = map_option (\<lambda>i. [i]) (resolve_path t path)"
| "resolve_query t (Subtree path) = map_option (subtree t) (resolve_path t path)"
| "resolve_query t (Ancestors path) = map_option (ancestors t) (resolve_path t path)"
| "resolve_query t (Inherited path) = map_option (inherited t) (resolve_path t path)"

definition insert_scope :: "scope_node \<Rightarrow> scope_tree \<Rightarrow> scope_tree" where
  "insert_scope n t =
     (if sn_id n \<in> fst ` set (st_nodes t) then t
      else case index_node n (st_nodes t, st_children t) of
        (nodes, children) \<Rightarrow> \<lparr>st_nodes = nodes, st_children = children\<rparr>)"

function path_loop ::
    "scope_tree \<Rightarrow> int option \<Rightarrow> int set \<Rightarrow> string list \<Rightarrow> string list option" where
  "path_loop t None seen segments = Some segments"
| "path_loop t (Some i) seen segments =
     (if i = root_id then Some segments
      else if i \<in> seen then Some segments
      else case map_of (st_nodes t) i of None \<Rightarrow> None
      | Some n \<Rightarrow> path_loop t (sn_parent_id n) (insert i seen) (segments @ [sn_label n]))"
  by pat_completeness auto
termination
proof (relation "measure (\<lambda>(t, c, seen, s). card (fst ` set (st_nodes t) - seen))", goal_cases)
  case (2 t i seen segments n)
  then have "i \<in> fst ` set (st_nodes t)" by (force dest: map_of_SomeD)
  with 2 have "card (fst ` set (st_nodes t) - insert i seen) < card (fst ` set (st_nodes t) - seen)"
    by (intro bfs_measure_decreases)
  then show ?case by simp
qed simp

definition path_for_id :: "scope_tree \<Rightarrow> int \<Rightarrow> string option" where
  "path_for_id t scope_id =
     (if scope_id \<notin> fst ` set (st_nodes t) then None
      else if scope_id = root_id then Some ''/''
      else map_option (\<lambda>segments. join_with ''/'' (rev segments))
             (path_loop t (Some scope_id) {} []))"

definition tree_to_snapshot :: "scope_tree \<Rightarrow> scope_node list" where
  "tree_to_snapshot t = map snd (st_nodes t)"

definition tree_from_snapshot :: "scope_node list \<Rightarrow> scope_tree" where
  "tree_from_snapshot ns =
     (case build_index ns of (nodes, children) \<Rightarrow> \<lparr>st_nodes = nodes, st_children = children\<rparr>)"

subsection \<open>Hydrating a chain from the store\<close>

text \<open>
  \<open>get_scope\<close> is the read of the persistence port. The walk ends because no id is visited
  twice; over a port that answers for infinitely many ids it might not, so the loop is an
  option, and \<open>None\<close> is not returning.
\<close>

partial_function (option) chain_loop ::
    "(int \<Rightarrow> scope_node result) \<Rightarrow> int option \<Rightarrow> int set \<Rightarrow> scope_node list
      \<Rightarrow> scope_node list result option" where
  "chain_loop get_scope current seen nodes =
     (case current of None \<Rightarrow> Some (Inr nodes)
      | Some i \<Rightarrow>
          if i = root_id \<or> i \<in> seen then Some (Inr nodes)
          else (case get_scope i of Inl e \<Rightarrow> Some (Inl e)
                | Inr n \<Rightarrow> chain_loop get_scope (sn_parent_id n) (insert i seen) (nodes @ [n])))"

definition cache_scope_chain ::
    "(int \<Rightarrow> scope_node result) \<Rightarrow> scope_tree \<Rightarrow> int \<Rightarrow> scope_tree result option" where
  "cache_scope_chain get_scope t leaf_id =
     (case chain_loop get_scope (Some leaf_id) {} [] of None \<Rightarrow> None
      | Some (Inl e) \<Rightarrow> Some (Inl e)
      | Some (Inr nodes) \<Rightarrow> Some (Inr (fold insert_scope nodes t)))"

subsection \<open>Traversals\<close>

definition parent_rel :: "scope_tree \<Rightarrow> (int \<times> int) set" where
  "parent_rel t = {(i, p). parent_of t i = Some p}"

lemma ancestors_loop_distinct: "distinct result \<Longrightarrow> distinct (ancestors_loop t current result)"
  by (induction t current result rule: ancestors_loop.induct) auto

lemma ancestors_loop_mono: "set result \<subseteq> set (ancestors_loop t current result)"
  by (induction t current result rule: ancestors_loop.induct) auto

lemma ancestors_loop_sound:
  "z \<in> set (ancestors_loop t current result) \<Longrightarrow>
   z \<in> set result \<or> (\<exists>i. current = Some i \<and> (i, z) \<in> (parent_rel t)\<^sup>*)"
proof (induction t current result rule: ancestors_loop.induct)
  case (2 t i result)
  show ?case
  proof (cases "i \<in> set result")
    case True
    with 2 show ?thesis by simp
  next
    case False
    with 2 have "z \<in> set (result @ [i]) \<or>
        (\<exists>j. parent_of t i = Some j \<and> (j, z) \<in> (parent_rel t)\<^sup>*)"
      by simp
    then show ?thesis
      by (auto simp: parent_rel_def intro: converse_rtrancl_into_rtrancl)
  qed
qed simp

lemma ancestors_loop_closed:
  assumes "\<forall>x \<in> set result. \<forall>p. parent_of t x = Some p \<longrightarrow> p \<in> set result \<or> current = Some p"
  shows "(\<forall>i. current = Some i \<longrightarrow> i \<in> set (ancestors_loop t current result)) \<and>
    (\<forall>x \<in> set (ancestors_loop t current result). \<forall>p. parent_of t x = Some p \<longrightarrow>
       p \<in> set (ancestors_loop t current result))"
  using assms
proof (induction t current result rule: ancestors_loop.induct)
  case (2 t i result)
  show ?case
  proof (cases "i \<in> set result")
    case True
    with 2 show ?thesis by auto
  next
    case False
    with 2 have "\<forall>x \<in> set (result @ [i]). \<forall>p. parent_of t x = Some p \<longrightarrow>
        p \<in> set (result @ [i]) \<or> parent_of t i = Some p"
      by auto
    with 2 False ancestors_loop_mono [of "result @ [i]" t "parent_of t i"] show ?thesis by auto
  qed
qed simp

lemma set_ancestors: "set (ancestors t i) = {a. (i, a) \<in> (parent_rel t)\<^sup>*}"
proof (intro equalityI subsetI)
  fix z assume "z \<in> set (ancestors t i)"
  then show "z \<in> {a. (i, a) \<in> (parent_rel t)\<^sup>*}"
    using ancestors_loop_sound [of z t "Some i" "[]"] by (auto simp: ancestors_def)
next
  fix z assume "z \<in> {a. (i, a) \<in> (parent_rel t)\<^sup>*}"
  then have "(i, z) \<in> (parent_rel t)\<^sup>*" by simp
  then show "z \<in> set (ancestors t i)"
  proof (induction rule: rtrancl_induct)
    case base
    then show ?case using ancestors_loop_closed [of "[]" t "Some i"] by (simp add: ancestors_def)
  next
    case (step y z)
    then show ?case
      using ancestors_loop_closed [of "[]" t "Some i"] by (auto simp: ancestors_def parent_rel_def)
  qed
qed

lemma distinct_ancestors: "distinct (ancestors t i)"
  by (simp add: ancestors_def ancestors_loop_distinct)

lemma set_subtree: "set (subtree t i) = {d. (i, d) \<in> (assoc_rel (st_children t))\<^sup>*}"
  by (simp only: subtree_def bfs_loop_reachable)

lemma distinct_subtree: "distinct (subtree t i)"
  unfolding subtree_def by (rule bfs_loop_distinct) simp_all

subsection \<open>The two indexes agree\<close>

text \<open>
  \<open>index_ok\<close>: every node is stored under its own id, and the list of children of a scope
  holds exactly the ids whose node names it as the parent, each once.
\<close>

definition index_ok :: "scope_tree \<Rightarrow> bool" where
  "index_ok t \<longleftrightarrow>
     distinct (map fst (st_nodes t)) \<and>
     (\<forall>(i, n) \<in> set (st_nodes t). sn_id n = i) \<and>
     (\<forall>p. distinct (assoc_nbrs (st_children t) p) \<and>
          set (assoc_nbrs (st_children t) p) = {i. parent_of t i = Some p})"

lemma index_okD:
  assumes "index_ok t"
  shows "i \<in> set (assoc_nbrs (st_children t) p) \<longleftrightarrow> parent_of t i = Some p"
    and "map_of (st_nodes t) i = Some n \<Longrightarrow> sn_id n = i"
  using assms by (auto simp: index_ok_def dest: map_of_SomeD)

lemma index_ok_rel: "index_ok t \<Longrightarrow> assoc_rel (st_children t) = (parent_rel t)\<inverse>"
  by (auto simp: assoc_rel_def parent_rel_def index_okD)

lemma subtree_iff_ancestor:
  "index_ok t \<Longrightarrow> d \<in> set (subtree t a) \<longleftrightarrow> a \<in> set (ancestors t d)"
  by (simp add: set_subtree set_ancestors index_ok_rel rtrancl_converse)

lemma insert_scope_parent_of:
  assumes "sn_id n \<notin> fst ` set (st_nodes t)"
  shows "parent_of (insert_scope n t) i = (if i = sn_id n then sn_parent_id n else parent_of t i)"
  using assms by (simp add: insert_scope_def index_node_def parent_of_def update_conv')

lemma insert_scope_children:
  assumes "sn_id n \<notin> fst ` set (st_nodes t)"
  shows "assoc_nbrs (st_children (insert_scope n t)) p =
    assoc_nbrs (st_children t) p @ (if sn_parent_id n = Some p then [sn_id n] else [])"
  using assms
  by (auto simp: insert_scope_def index_node_def assoc_nbrs_push_at split: option.splits)

lemma insert_scope_index_ok:
  assumes "index_ok t"
  shows "index_ok (insert_scope n t)"
proof (cases "sn_id n \<in> fst ` set (st_nodes t)")
  case True
  with assms show ?thesis by (simp add: insert_scope_def)
next
  case False
  then have none: "parent_of t (sn_id n) = None" by (simp add: parent_of_def not_key_map_of)
  have "st_nodes (insert_scope n t) = st_nodes t @ [(sn_id n, n)]"
    using False by (simp add: insert_scope_def index_node_def update_fresh)
  then show ?thesis
    using assms False none unfolding index_ok_def
    by (auto simp: insert_scope_children insert_scope_parent_of split: if_splits)
qed

lemma fold_insert_scope_index_ok: "index_ok t \<Longrightarrow> index_ok (fold insert_scope ns t)"
  by (induction ns arbitrary: t) (auto intro: insert_scope_index_ok)

text \<open>Building from nodes with distinct ids is inserting them one by one.\<close>

definition empty_tree :: scope_tree where
  "empty_tree = \<lparr>st_nodes = [], st_children = []\<rparr>"

lemma index_ok_empty: "index_ok empty_tree"
  by (simp add: index_ok_def empty_tree_def parent_of_def)

lemma insert_scope_fresh:
  "sn_id n \<notin> fst ` set (st_nodes t) \<Longrightarrow>
   insert_scope n t =
     \<lparr>st_nodes = AList.update (sn_id n) n (st_nodes t),
      st_children = (case sn_parent_id n of None \<Rightarrow> st_children t
        | Some pid \<Rightarrow> push_at pid (sn_id n) (st_children t))\<rparr>"
  by (simp add: insert_scope_def index_node_def)

lemma fold_index_node:
  assumes "distinct (map sn_id ns)" "sn_id ` set ns \<inter> fst ` set (st_nodes t) = {}"
  shows "fold index_node ns (st_nodes t, st_children t) =
    (st_nodes (fold insert_scope ns t), st_children (fold insert_scope ns t))"
  using assms
proof (induction ns arbitrary: t)
  case (Cons n ns)
  then have fresh: "sn_id n \<notin> fst ` set (st_nodes t)" by auto
  then have step: "index_node n (st_nodes t, st_children t) =
      (st_nodes (insert_scope n t), st_children (insert_scope n t))"
    by (simp add: insert_scope_fresh index_node_def)
  have keys: "fst ` set (st_nodes (insert_scope n t)) = insert (sn_id n) (fst ` set (st_nodes t))"
    using fresh by (simp add: insert_scope_fresh dom_update)
  have "sn_id ` set ns \<inter> fst ` set (st_nodes (insert_scope n t)) = {}"
    using Cons.prems unfolding keys by auto
  with Cons.prems(1) Cons.IH [of "insert_scope n t"] step show ?case by simp
qed simp

lemma from_nodes_fold:
  "distinct (map sn_id ns) \<Longrightarrow> from_nodes ns = fold insert_scope ns empty_tree"
  using fold_index_node [of ns empty_tree]
  by (simp add: from_nodes_def build_index_def empty_tree_def)

lemma from_nodes_index_ok: "distinct (map sn_id ns) \<Longrightarrow> index_ok (from_nodes ns)"
  by (simp add: from_nodes_fold fold_insert_scope_index_ok index_ok_empty)

lemma fold_insert_scope_nodes:
  assumes "distinct (map sn_id ns)" "sn_id ` set ns \<inter> fst ` set (st_nodes t) = {}"
  shows "st_nodes (fold insert_scope ns t) = st_nodes t @ map (\<lambda>n. (sn_id n, n)) ns"
  using assms
proof (induction ns arbitrary: t)
  case (Cons n ns)
  then have fresh: "sn_id n \<notin> fst ` set (st_nodes t)" by auto
  then have nodes: "st_nodes (insert_scope n t) = st_nodes t @ [(sn_id n, n)]"
    by (simp add: insert_scope_fresh update_fresh)
  have "sn_id ` set ns \<inter> fst ` set (st_nodes (insert_scope n t)) = {}"
    using Cons.prems unfolding nodes by auto
  with Cons nodes show ?case by simp
qed simp

lemma from_nodes_nodes:
  "distinct (map sn_id ns) \<Longrightarrow> st_nodes (from_nodes ns) = map (\<lambda>n. (sn_id n, n)) ns"
  by (simp add: from_nodes_fold fold_insert_scope_nodes empty_tree_def)

subsection \<open>Well-formed trees and the path round trip\<close>

definition label_ok :: "string \<Rightarrow> bool" where
  "label_ok l \<longleftrightarrow> validate_segment l = Inr () \<and> trim l = l"

definition node_ok :: "scope_tree \<Rightarrow> int \<Rightarrow> scope_node \<Rightarrow> bool" where
  "node_ok t i n \<longleftrightarrow>
     (if i = root_id then sn_parent_id n = None \<and> sn_depth n = 0
      else label_ok (sn_label n) \<and> 0 < sn_depth n \<and>
        (\<exists>p m. sn_parent_id n = Some p \<and> map_of (st_nodes t) p = Some m \<and>
           sn_depth n = sn_depth m + 1))"

definition siblings_ok :: "scope_tree \<Rightarrow> bool" where
  "siblings_ok t \<longleftrightarrow>
     (\<forall>i j p l. parent_of t i = Some p \<longrightarrow> parent_of t j = Some p \<longrightarrow>
        has_label t l i \<longrightarrow> has_label t l j \<longrightarrow> i = j)"

definition scope_wf :: "scope_tree \<Rightarrow> bool" where
  "scope_wf t \<longleftrightarrow> index_ok t \<and> root_id \<in> fst ` set (st_nodes t) \<and> siblings_ok t \<and>
     (\<forall>i n. map_of (st_nodes t) i = Some n \<longrightarrow> node_ok t i n)"

lemma scope_wfD:
  assumes "scope_wf t"
  shows "index_ok t" "siblings_ok t" "map_of (st_nodes t) i = Some n \<Longrightarrow> node_ok t i n"
  using assms by (auto simp: scope_wf_def)

lemma node_ok_child:
  assumes "node_ok t i n" "i \<noteq> root_id"
  obtains p m where "sn_parent_id n = Some p" "map_of (st_nodes t) p = Some m"
    "sn_depth n = sn_depth m + 1" "label_ok (sn_label n)" "0 < sn_depth n"
  using assms unfolding node_ok_def by auto

text \<open>The labels from the root down to a scope.\<close>

inductive scope_labels :: "scope_tree \<Rightarrow> int \<Rightarrow> string list \<Rightarrow> bool" for t where
  root: "scope_labels t root_id []"
| child: "map_of (st_nodes t) i = Some n \<Longrightarrow> i \<noteq> root_id \<Longrightarrow> sn_parent_id n = Some p \<Longrightarrow>
    scope_labels t p ls \<Longrightarrow> scope_labels t i (ls @ [sn_label n])"

lemma scope_labels_exist:
  assumes "scope_wf t" "map_of (st_nodes t) i = Some n"
  shows "\<exists>ls. scope_labels t i ls"
  using assms(2)
proof (induction "nat (sn_depth n)" arbitrary: i n rule: less_induct)
  case less
  show ?case
  proof (cases "i = root_id")
    case True
    then show ?thesis by (auto intro: scope_labels.root)
  next
    case False
    obtain p m where p: "sn_parent_id n = Some p"
      "map_of (st_nodes t) p = Some m" "sn_depth n = sn_depth m + 1" "0 < sn_depth n"
      by (rule node_ok_child [OF scope_wfD(3) [OF assms(1) less.prems] False])
    then have "nat (sn_depth m) < nat (sn_depth n)" by simp
    with less.hyps p(2) obtain ls where "scope_labels t p ls" by blast
    with less.prems False p(1) show ?thesis by (blast intro: scope_labels.child)
  qed
qed

lemma scope_labels_ok:
  "scope_labels t i ls \<Longrightarrow> scope_wf t \<Longrightarrow> \<forall>l \<in> set ls. label_ok l"
proof (induction rule: scope_labels.induct)
  case (child i n p ls)
  then have "label_ok (sn_label n)" by (metis node_ok_child scope_wfD(3))
  with child show ?case by simp
qed simp

lemma resolve_segments_append:
  "resolve_segments t (xs @ ys) c = Option.bind (resolve_segments t xs c) (resolve_segments t ys)"
  by (induction t xs c rule: resolve_segments.induct) (auto simp: Let_def split: option.splits)

lemma resolve_child:
  assumes wf: "scope_wf t" and i: "map_of (st_nodes t) i = Some n" "i \<noteq> root_id"
    "sn_parent_id n = Some p"
  shows "resolve_segments t [sn_label n] p = Some i"
proof -
  have lab: "label_ok (sn_label n)" using wf i by (metis node_ok_child scope_wfD(3))
  have par: "parent_of t i = Some p" using i by (simp add: parent_of_def)
  then have mem: "i \<in> set (assoc_nbrs (st_children t) p)"
    using index_okD(1) [OF scope_wfD(1) [OF wf]] by simp
  then obtain cs where cs: "map_of (st_children t) p = Some cs" "i \<in> set cs"
    by (cases "map_of (st_children t) p") (auto simp: assoc_nbrs_def)
  have hl: "has_label t (sn_label n) i" using i by (simp add: has_label_def)
  have "List.find (has_label t (sn_label n)) cs = Some i"
  proof (rule find_unique [where P = "has_label t (sn_label n)", OF cs(2) hl])
    fix j assume "j \<in> set cs" "has_label t (sn_label n) j"
    moreover from \<open>j \<in> set cs\<close> cs(1) have "j \<in> set (assoc_nbrs (st_children t) p)"
      by (simp add: assoc_nbrs_def)
    then have "parent_of t j = Some p" using index_okD(1) [OF scope_wfD(1) [OF wf]] by simp
    ultimately show "j = i" using scope_wfD(2) [OF wf] par hl unfolding siblings_ok_def by metis
  qed
  with lab cs(1) show ?thesis by (simp add: label_ok_def)
qed

lemma resolve_labels:
  "scope_labels t i ls \<Longrightarrow> scope_wf t \<Longrightarrow> resolve_segments t ls root_id = Some i"
proof (induction rule: scope_labels.induct)
  case (child i n p ls)
  then have "resolve_segments t [sn_label n] p = Some i" by (intro resolve_child)
  with child show ?case by (simp add: resolve_segments_append del: resolve_segments.simps)
qed simp

lemma path_loop_labels:
  "scope_labels t i ls \<Longrightarrow> scope_wf t \<Longrightarrow> map_of (st_nodes t) i = Some n \<Longrightarrow>
   (\<forall>x \<in> seen. \<forall>m. map_of (st_nodes t) x = Some m \<longrightarrow> sn_depth n < sn_depth m) \<Longrightarrow>
   path_loop t (Some i) seen segs = Some (segs @ rev ls)"
proof (induction arbitrary: n seen segs rule: scope_labels.induct)
  case (child i n' p ls)
  then have [simp]: "n' = n" by simp
  have "i \<notin> seen" using child.prems(2,3) by fastforce
  obtain m where m: "map_of (st_nodes t) p = Some m" "sn_depth n = sn_depth m + 1"
    using node_ok_child [OF scope_wfD(3) [OF child.prems(1,2)] child.hyps(2)] child.hyps(3)
    by (metis \<open>n' = n\<close> option.inject)
  have deeper: "\<forall>x \<in> insert i seen. \<forall>k. map_of (st_nodes t) x = Some k \<longrightarrow> sn_depth m < sn_depth k"
  proof (intro ballI allI impI)
    fix x k assume x: "x \<in> insert i seen" "map_of (st_nodes t) x = Some k"
    show "sn_depth m < sn_depth k"
    proof (cases "x = i")
      case True
      with x(2) child.prems(2) m(2) show ?thesis by simp
    next
      case False
      with x child.prems(3) have "sn_depth n < sn_depth k" by blast
      with m(2) show ?thesis by simp
    qed
  qed
  have "path_loop t (Some p) (insert i seen) (segs @ [sn_label n]) =
      Some ((segs @ [sn_label n]) @ rev ls)"
    by (rule child.IH [OF child.prems(1) m(1) deeper])
  with child.hyps child.prems(2) \<open>i \<notin> seen\<close> show ?case by simp
qed simp

lemma join_not_slash:
  assumes "ls \<noteq> []" "\<forall>l \<in> set ls. label_ok l"
  shows "join_with ''/'' ls \<noteq> ''/''"
proof
  assume eq: "join_with ''/'' ls = ''/''"
  have "split_on (CHR ''/'') (join_with ''/'' ls) = ls"
    using assms by (intro split_on_join) (auto simp: label_ok_def validate_segment_ok)
  with eq have "ls = [[], []]" by simp
  with assms(2) show False by (simp add: label_ok_def validate_segment_def)
qed

lemma resolve_join_labels:
  assumes "scope_labels t i ls" "scope_wf t"
  shows "i \<noteq> root_id \<Longrightarrow> resolve_path t (join_with ''/'' ls) = Some i"
proof -
  assume "i \<noteq> root_id"
  with assms(1) have ne: "ls \<noteq> []" by (auto elim: scope_labels.cases)
  note ok = scope_labels_ok [OF assms]
  have "split_on (CHR ''/'') (join_with ''/'' ls) = ls"
    using ok ne by (intro split_on_join) (auto simp: label_ok_def validate_segment_ok)
  then show ?thesis
    using resolve_labels [OF assms] join_not_slash [OF ne ok] by (simp add: resolve_path_def)
qed

lemma path_for_id_resolves:
  assumes "scope_wf t" "i \<in> fst ` set (st_nodes t)"
  shows "\<exists>path. path_for_id t i = Some path \<and> resolve_path t path = Some i"
proof (cases "i = root_id")
  case True
  with assms show ?thesis by (auto simp: path_for_id_def resolve_path_def)
next
  case False
  from assms(2) obtain n where n: "map_of (st_nodes t) i = Some n"
    by (metis not_key_map_of option.exhaust)
  with assms(1) obtain ls where ls: "scope_labels t i ls" using scope_labels_exist by blast
  have "path_loop t (Some i) {} [] = Some (rev ls)"
    using path_loop_labels [OF ls assms(1) n, of "{}" "[]"] by simp
  with False assms(2) ls assms(1) show ?thesis
    by (simp add: path_for_id_def resolve_join_labels)
qed

text \<open>An empty path, or one with an empty inner segment, never resolves.\<close>

lemma trim_Nil [simp]: "trim [] = []"
  by (simp add: trim_def strip_lead.simps unicode_ws_def is_lead_def)

lemma resolve_segments_blank:
  "\<exists>s \<in> set segs. trim s = [] \<Longrightarrow> resolve_segments t segs c = None"
proof (induction t segs c rule: resolve_segments.induct)
  case (2 t seg segs current)
  show ?case
  proof (cases "trim seg = []")
    case True
    then show ?thesis by (simp add: validate_segment_def)
  next
    case False
    with 2 show ?thesis by (auto simp: Let_def split: option.splits)
  qed
qed simp

lemma resolve_path_blank_segment:
  "path \<noteq> ''/'' \<Longrightarrow> \<exists>s \<in> set (split_on (CHR ''/'') path). trim s = [] \<Longrightarrow>
   resolve_path t path = None"
  by (simp add: resolve_path_def resolve_segments_blank)

subsection \<open>Inserting keeps a tree well formed\<close>

definition insertable :: "scope_node \<Rightarrow> scope_tree \<Rightarrow> bool" where
  \<comment> \<open>what the store guarantees of a row it has just created below an existing scope\<close>
  "insertable n t \<longleftrightarrow>
     (\<exists>p m. sn_parent_id n = Some p \<and> map_of (st_nodes t) p = Some m \<and>
        sn_depth n = sn_depth m + 1 \<and> label_ok (sn_label n) \<and> sn_id n \<noteq> root_id \<and>
        (\<forall>j. parent_of t j = Some p \<longrightarrow> \<not> has_label t (sn_label n) j))"

lemma node_ok_mono:
  assumes "node_ok t i n" "\<And>p m. map_of (st_nodes t) p = Some m \<Longrightarrow> map_of (st_nodes t') p = Some m"
  shows "node_ok t' i n"
  using assms by (auto simp: node_ok_def split: if_splits)

lemma scope_wf_depth: "scope_wf t \<Longrightarrow> map_of (st_nodes t) i = Some n \<Longrightarrow> 0 \<le> sn_depth n"
  using scope_wfD(3) [of t i n] by (cases "i = root_id") (auto simp: node_ok_def)

lemma insert_scope_wf:
  assumes "scope_wf t" "insertable n t"
  shows "scope_wf (insert_scope n t)"
proof (cases "sn_id n \<in> fst ` set (st_nodes t)")
  case True
  with assms show ?thesis by (simp add: insert_scope_def)
next
  case False
  let ?t = "insert_scope n t"
  have look: "map_of (st_nodes ?t) = (map_of (st_nodes t))(sn_id n \<mapsto> n)"
    using False by (simp add: insert_scope_fresh update_conv')
  have mono: "map_of (st_nodes t) p = Some m \<Longrightarrow> map_of (st_nodes ?t) p = Some m" for p m
    using False by (auto simp: look not_key_map_of)
  from assms(2) obtain p m where pm: "sn_parent_id n = Some p" "map_of (st_nodes t) p = Some m"
    "sn_depth n = sn_depth m + 1" "label_ok (sn_label n)" "sn_id n \<noteq> root_id"
    "\<forall>j. parent_of t j = Some p \<longrightarrow> \<not> has_label t (sn_label n) j"
    by (auto simp: insertable_def)
  have par: "parent_of ?t i = (if i = sn_id n then sn_parent_id n else parent_of t i)" for i
    by (rule insert_scope_parent_of [OF False])
  have lab: "has_label ?t l i = (if i = sn_id n then sn_label n = l else has_label t l i)" for l i
    by (simp add: has_label_def look)
  have "siblings_ok ?t"
    using scope_wfD(2) [OF assms(1)] pm(1,6) unfolding siblings_ok_def par lab by metis
  moreover have "node_ok ?t (sn_id n) n"
    using pm mono [OF pm(2)] scope_wf_depth [OF assms(1) pm(2)] by (simp add: node_ok_def)
  moreover have "node_ok ?t i k" if "map_of (st_nodes t) i = Some k" for i k
    by (rule node_ok_mono [OF scope_wfD(3) [OF assms(1) that] mono])
  moreover have "root_id \<in> fst ` set (st_nodes ?t)"
    using assms(1) False by (simp add: scope_wf_def insert_scope_fresh dom_update)
  moreover have "index_ok ?t" by (rule insert_scope_index_ok [OF scope_wfD(1) [OF assms(1)]])
  ultimately show ?thesis unfolding scope_wf_def look by (metis fun_upd_apply option.inject)
qed

subsection \<open>Hydration\<close>

lemma chain_loop_returns:
  assumes "finite {i. \<exists>n. get_scope i = Inr n}"
  shows "\<exists>r. chain_loop get_scope current seen nodes = Some r"
proof (induction "card ({i. \<exists>n. get_scope i = Inr n} - seen)" arbitrary: current seen nodes
    rule: less_induct)
  case less
  show ?case
  proof (cases current)
    case None
    then show ?thesis by (simp add: chain_loop.simps)
  next
    case (Some i)
    show ?thesis
    proof (cases "i = root_id \<or> i \<in> seen \<or> (\<exists>e. get_scope i = Inl e)")
      case True
      with Some show ?thesis by (auto simp: chain_loop.simps)
    next
      case False
      then obtain n where n: "get_scope i = Inr n" by (cases "get_scope i") auto
      have "card ({i. \<exists>n. get_scope i = Inr n} - insert i seen)
          < card ({i. \<exists>n. get_scope i = Inr n} - seen)"
        using assms n False by (intro psubset_card_mono) auto
      from less.hyps [OF this] obtain r where
        "chain_loop get_scope (sn_parent_id n) (insert i seen) (nodes @ [n]) = Some r" by blast
      with Some False n show ?thesis by (simp add: chain_loop.simps)
    qed
  qed
qed

lemma cache_scope_chain_returns:
  assumes "finite {i. \<exists>n. get_scope i = Inr n}"
  shows "\<exists>r. cache_scope_chain get_scope t leaf = Some r"
proof -
  obtain r where "chain_loop get_scope (Some leaf) {} [] = Some r"
    using chain_loop_returns [OF assms] by blast
  then show ?thesis by (cases r) (simp_all add: cache_scope_chain_def)
qed

text \<open>
  Over a well-formed tree \<open>T\<close> the chain read from a scope is its path to the root, without the
  root, and a tree that holds the chain and nothing foreign resolves the path as \<open>T\<close> does.
\<close>

lemma scope_wf_root_parent: "scope_wf T \<Longrightarrow> parent_of T root_id = None"
  unfolding parent_of_def using scope_wfD(3) [of T root_id]
  by (cases "map_of (st_nodes T) root_id") (auto simp: node_ok_def)

lemma root_rtrancl: "scope_wf T \<Longrightarrow> (root_id, j) \<in> (parent_rel T)\<^sup>* \<longleftrightarrow> j = root_id"
  by (auto simp: parent_rel_def scope_wf_root_parent elim: converse_rtranclE)

lemma chain_loop_spec:
  assumes wf: "scope_wf T" and get: "\<And>i n. map_of (st_nodes T) i = Some n \<Longrightarrow> get_scope i = Inr n"
    and n: "map_of (st_nodes T) i = Some n"
    and seen: "\<forall>j \<in> seen. \<forall>m. map_of (st_nodes T) j = Some m \<longrightarrow> sn_depth n < sn_depth m"
  shows "\<exists>chain. chain_loop get_scope (Some i) seen nodes = Some (Inr (nodes @ chain)) \<and>
    (\<forall>m \<in> set chain. map_of (st_nodes T) (sn_id m) = Some m) \<and>
    sn_id ` set chain = {j. (i, j) \<in> (parent_rel T)\<^sup>*} - {root_id}"
  using n seen
proof (induction "nat (sn_depth n)" arbitrary: i n seen nodes rule: less_induct)
  case less
  show ?case
  proof (cases "i = root_id")
    case True
    with root_rtrancl [OF wf] show ?thesis by (simp add: chain_loop.simps)
  next
    case False
    obtain p m where p: "sn_parent_id n = Some p" "map_of (st_nodes T) p = Some m"
      "sn_depth n = sn_depth m + 1" "0 < sn_depth n"
      by (rule node_ok_child [OF scope_wfD(3) [OF wf less.prems(1)] False])
    have unseen: "i \<notin> seen" using less.prems by auto
    have "\<forall>j \<in> insert i seen. \<forall>k. map_of (st_nodes T) j = Some k \<longrightarrow> sn_depth m < sn_depth k"
      using less.prems p(3) by fastforce
    from less.hyps [OF _ p(2) this, of "nodes @ [n]"] p obtain chain where c:
      "chain_loop get_scope (Some p) (insert i seen) ((nodes @ [n]) @ []) = Some (Inr ((nodes @ [n]) @ chain))"
      "\<forall>m \<in> set chain. map_of (st_nodes T) (sn_id m) = Some m"
      "sn_id ` set chain = {j. (p, j) \<in> (parent_rel T)\<^sup>*} - {root_id}" by auto
    have id: "sn_id n = i" by (rule index_okD(2) [OF scope_wfD(1) [OF wf] less.prems(1)])
    have step: "(i, q) \<in> parent_rel T \<longleftrightarrow> q = p" for q
      using less.prems(1) p(1) by (auto simp: parent_rel_def parent_of_def)
    have "(i, j) \<in> (parent_rel T)\<^sup>* \<longleftrightarrow> j = i \<or> (p, j) \<in> (parent_rel T)\<^sup>*" for j
    proof
      assume "(i, j) \<in> (parent_rel T)\<^sup>*"
      then show "j = i \<or> (p, j) \<in> (parent_rel T)\<^sup>*" by (rule converse_rtranclE) (simp_all add: step)
    next
      have "(i, p) \<in> parent_rel T" by (simp add: step)
      moreover assume "j = i \<or> (p, j) \<in> (parent_rel T)\<^sup>*"
      ultimately show "(i, j) \<in> (parent_rel T)\<^sup>*"
        by (elim disjE) (simp, rule converse_rtrancl_into_rtrancl)
    qed
    then have "{j. (i, j) \<in> (parent_rel T)\<^sup>*} = insert i {j. (p, j) \<in> (parent_rel T)\<^sup>*}" by blast
    then have "sn_id ` set (n # chain) = {j. (i, j) \<in> (parent_rel T)\<^sup>*} - {root_id}"
      unfolding c(3) list.set image_insert id using False by blast
    moreover have "chain_loop get_scope (Some i) seen nodes = Some (Inr (nodes @ n # chain))"
      using c(1) False unseen get [OF less.prems(1)] p(1)
      by (subst chain_loop.simps) simp
    ultimately show ?thesis using c(2) less.prems(1) id by (intro exI [of _ "n # chain"]) auto
  qed
qed

lemma fold_insert_lookup:
  assumes "map_of (st_nodes (fold insert_scope ns t)) i = Some n"
  shows "map_of (st_nodes t) i = Some n \<or> (n \<in> set ns \<and> sn_id n = i)"
  using assms
proof (induction ns arbitrary: t)
  case (Cons m ns)
  from Cons.IH [of "insert_scope m t"] Cons.prems show ?case
    by (auto simp: insert_scope_def index_node_def update_conv' split: if_splits)
qed simp

lemma fold_insert_keeps:
  "map_of (st_nodes t) i = Some n \<Longrightarrow> map_of (st_nodes (fold insert_scope ns t)) i = Some n"
proof (induction ns arbitrary: t)
  case (Cons m ns)
  then have "map_of (st_nodes (insert_scope m t)) i = Some n"
    using not_key_map_of [of "sn_id m" "st_nodes t"]
    by (auto simp: insert_scope_def index_node_def update_conv')
  then show ?case using Cons.IH by simp
qed simp

lemma fold_insert_has: "i \<in> sn_id ` set ns \<Longrightarrow> map_of (st_nodes (fold insert_scope ns t)) i \<noteq> None"
proof (induction ns arbitrary: t)
  case (Cons m ns)
  show ?case
  proof (cases "i = sn_id m")
    case True
    then have "map_of (st_nodes (insert_scope m t)) i \<noteq> None"
      using not_key_map_of [of "sn_id m" "st_nodes t"]
      by (auto simp: insert_scope_def index_node_def update_conv')
    then obtain n where "map_of (st_nodes (insert_scope m t)) i = Some n" by auto
    from fold_insert_keeps [OF this] show ?thesis by simp
  next
    case False
    with Cons show ?thesis by simp
  qed
qed simp

definition subtree_of :: "scope_tree \<Rightarrow> scope_tree \<Rightarrow> bool" where
  \<comment> \<open>\<open>t\<close> is consistent and holds only nodes of \<open>T\<close>\<close>
  "subtree_of t T \<longleftrightarrow> index_ok t \<and>
     (\<forall>i n. map_of (st_nodes t) i = Some n \<longrightarrow> map_of (st_nodes T) i = Some n)"

lemma resolve_transfer:
  assumes wf: "scope_wf T" and sub: "subtree_of t T"
    and r: "resolve_segments T segs i = Some leaf"
    and has: "\<And>j. (leaf, j) \<in> (parent_rel T)\<^sup>* \<Longrightarrow> (j, i) \<in> (parent_rel T)\<^sup>+ \<Longrightarrow> map_of (st_nodes t) j \<noteq> None"
  shows "resolve_segments t segs i = Some leaf \<and> (leaf, i) \<in> (parent_rel T)\<^sup>*"
  using r has
proof (induction segs arbitrary: i)
  case (Cons seg segs)
  from Cons.prems(1) obtain ids c where v: "is_ok (validate_segment (trim seg))"
    and ids: "map_of (st_children T) i = Some ids"
    and f: "List.find (has_label T (trim seg)) ids = Some c" and rest: "resolve_segments T segs c = Some leaf"
    by (auto simp: Let_def split: if_splits option.splits)
  from find_eq_Some_in [OF f] ids have c: "parent_of T c = Some i" "has_label T (trim seg) c"
    using index_okD(1) [OF scope_wfD(1) [OF wf], of c i] by (auto simp: assoc_nbrs_def)
  then have ci: "(c, i) \<in> parent_rel T" by (simp add: parent_rel_def)
  have IH: "resolve_segments t segs c = Some leaf \<and> (leaf, c) \<in> (parent_rel T)\<^sup>*"
    using rest Cons.prems(2) ci by (intro Cons.IH) (auto intro: trancl_into_trancl)
  then have leaf: "(leaf, i) \<in> (parent_rel T)\<^sup>*" using ci by (auto intro: rtrancl_into_rtrancl)
  have "map_of (st_nodes t) c \<noteq> None" using IH ci Cons.prems(2) by blast
  then obtain n where n: "map_of (st_nodes t) c = Some n" by auto
  have nT: "map_of (st_nodes T) j = Some m" if "map_of (st_nodes t) j = Some m" for j m
    using sub that by (simp add: subtree_of_def)
  have label: "has_label T l j" if "has_label t l j" for l j
    using that nT by (auto simp: has_label_def split: option.splits)
  have parent: "parent_of T j = Some k" if "parent_of t j = Some k" for j k
    using that nT by (cases "map_of (st_nodes t) j") (auto simp: parent_of_def)
  have "parent_of t c = Some i" "has_label t (trim seg) c"
    using c n nT [OF n] by (auto simp: parent_of_def has_label_def)
  then have mem: "c \<in> set (assoc_nbrs (st_children t) i)"
    using sub by (simp add: subtree_of_def index_okD(1))
  have "List.find (has_label t (trim seg)) (assoc_nbrs (st_children t) i) = Some c"
  proof (rule find_unique [where P = "has_label t (trim seg)", OF mem \<open>has_label t (trim seg) c\<close>])
    fix d assume "d \<in> set (assoc_nbrs (st_children t) i)" "has_label t (trim seg) d"
    then have "parent_of T d = Some i" "has_label T (trim seg) d"
      using sub parent label by (auto simp: subtree_of_def index_okD(1))
    with c scope_wfD(2) [OF wf] show "d = c" unfolding siblings_ok_def by blast
  qed
  moreover obtain ids' where "map_of (st_children t) i = Some ids'"
    using mem by (cases "map_of (st_children t) i") (auto simp: assoc_nbrs_def)
  ultimately show ?case using v IH leaf by (simp add: assoc_nbrs_def)
qed simp

lemma hydrate_resolves:
  assumes wf: "scope_wf T" and sub: "subtree_of t T"
    and get: "\<And>i n. map_of (st_nodes T) i = Some n \<Longrightarrow> get_scope i = Inr n"
    and r: "resolve_path T path = Some leaf" and leaf: "map_of (st_nodes T) leaf \<noteq> None"
  shows "\<exists>t'. cache_scope_chain get_scope t leaf = Some (Inr t') \<and> subtree_of t' T \<and>
    resolve_path t' path = Some leaf"
proof -
  from leaf obtain n where n: "map_of (st_nodes T) leaf = Some n" by auto
  obtain chain where c: "chain_loop get_scope (Some leaf) {} [] = Some (Inr chain)"
    "\<forall>m \<in> set chain. map_of (st_nodes T) (sn_id m) = Some m"
    "sn_id ` set chain = {j. (leaf, j) \<in> (parent_rel T)\<^sup>*} - {root_id}"
    using chain_loop_spec [where get_scope = get_scope and seen = "{}" and nodes = "[]", OF wf get n] by auto
  let ?t = "fold insert_scope chain t"
  have sub': "subtree_of ?t T"
    using sub c(2) fold_insert_lookup [of chain t]
    by (fastforce simp: subtree_of_def intro: fold_insert_scope_index_ok)
  have "resolve_path ?t path = Some leaf"
  proof (cases "path = ''/''")
    case True
    with r show ?thesis by (simp add: resolve_path_def)
  next
    case False
    then have seg: "resolve_segments T (split_on (CHR ''/'') path) root_id = Some leaf"
      using r by (simp add: resolve_path_def)
    have "map_of (st_nodes ?t) j \<noteq> None"
      if "(leaf, j) \<in> (parent_rel T)\<^sup>*" "(j, root_id) \<in> (parent_rel T)\<^sup>+" for j
    proof -
      have "j \<noteq> root_id"
        using that(2) scope_wf_root_parent [OF wf] by (auto simp: parent_rel_def elim: converse_tranclE)
      with that(1) c(3) have "j \<in> sn_id ` set chain" by auto
      then show ?thesis by (rule fold_insert_has)
    qed
    from resolve_transfer [OF wf sub' seg this] False show ?thesis by (simp add: resolve_path_def)
  qed
  with c(1) sub' show ?thesis by (simp add: cache_scope_chain_def)
qed

lemma resolve_segments_known:
  assumes wf: "scope_wf t" and r: "resolve_segments t segs i = Some j" and i: "map_of (st_nodes t) i \<noteq> None"
  shows "map_of (st_nodes t) j \<noteq> None"
  using r i
proof (induction segs arbitrary: i)
  case (Cons seg segs)
  from Cons.prems(1) obtain ids c where "List.find (has_label t (trim seg)) ids = Some c"
    and rest: "resolve_segments t segs c = Some j"
    by (auto simp: Let_def split: if_splits option.splits)
  then have "has_label t (trim seg) c" by (auto dest: find_eq_Some_in)
  then have "map_of (st_nodes t) c \<noteq> None" by (auto simp: has_label_def split: option.splits)
  with rest show ?case by (rule Cons.IH)
qed simp

lemma resolve_path_known:
  assumes wf: "scope_wf t" and r: "resolve_path t path = Some j"
  shows "map_of (st_nodes t) j \<noteq> None"
proof -
  have "map_of (st_nodes t) root_id \<noteq> None" using wf by (simp add: scope_wf_def not_key_map_of [symmetric])
  with r resolve_segments_known [OF wf] show ?thesis
    by (auto simp: resolve_path_def split: if_splits)
qed

end
