(* ===== verification/Scope_Store.thy ===== *)
theory Scope_Store
  imports Scope_Tree
begin

text \<open>
  The \<open>scopes\<close> table and its accessors, \<open>me-backend-sqlite/src/store/scopes.rs\<close>. The table
  is its rows in insertion order and the last id the \<open>AUTOINCREMENT\<close> key handed out. The
  DDL gives it the unique index on (parent, label) and the foreign key on the parent; a
  plain \<open>INSERT\<close> that breaks one is a storage error, \<open>INSERT OR IGNORE\<close> skips a duplicate.
  Statements run one by one (no transaction here), so \<open>ensure_path\<close> returns the table even
  when it fails: the segments before the failing one stay.

  Main result: after \<open>ensure_path\<close> the cache rebuilt from the table resolves the same path to
  the same leaf, and the table stays well formed.
\<close>

record scopes_table =
  sc_rows :: "scope_node list"
  sc_seq :: int

definition init_scopes :: scopes_table where
  \<comment> \<open>the sentinel row of \<open>SCOPES_DDL\<close>\<close>
  "init_scopes = \<lparr>sc_rows = [\<lparr>sn_id = 1, sn_parent_id = None, sn_label = ''root'', sn_depth = 0\<rparr>],
     sc_seq = 1\<rparr>"

definition scope_get :: "scopes_table \<Rightarrow> int \<Rightarrow> scope_node result" where
  "scope_get s i =
     (case List.find (\<lambda>n. sn_id n = i) (sc_rows s) of
        Some n \<Rightarrow> Inr n
      | None \<Rightarrow> Inl (NotFound (Fmt ''scope id={}'' [AInt i])))"

definition find_by_label :: "scopes_table \<Rightarrow> int \<Rightarrow> string \<Rightarrow> scope_node option" where
  "find_by_label s parent label =
     List.find (\<lambda>n. sn_parent_id n = Some parent \<and> sn_label n = label) (sc_rows s)"

definition new_scope_row :: "scopes_table \<Rightarrow> int \<Rightarrow> string \<Rightarrow> int \<Rightarrow> scope_node" where
  "new_scope_row s parent label depth =
     \<lparr>sn_id = sc_seq s + 1, sn_parent_id = Some parent, sn_label = label, sn_depth = depth\<rparr>"

definition append_scope :: "scopes_table \<Rightarrow> scope_node \<Rightarrow> scopes_table" where
  "append_scope s n = s\<lparr>sc_rows := sc_rows s @ [n], sc_seq := sn_id n\<rparr>"

definition sql_insert_scope ::
    "bool \<Rightarrow> scopes_table \<Rightarrow> int \<Rightarrow> string \<Rightarrow> int \<Rightarrow> unit result \<times> scopes_table" where
  \<comment> \<open>\<open>INSERT\<close> (\<open>False\<close>) or \<open>INSERT OR IGNORE\<close> (\<open>True\<close>) into \<open>scopes\<close>\<close>
  "sql_insert_scope or_ignore s parent label depth =
     (if find_by_label s parent label \<noteq> None
      then (if or_ignore then (Inr (), s)
            else (Inl (Storage (Backend (Lit ''UNIQUE constraint failed''))), s))
      else if parent \<notin> sn_id ` set (sc_rows s)
      then (Inl (Storage (Backend (Lit ''FOREIGN KEY constraint failed''))), s)
      else (Inr (), append_scope s (new_scope_row s parent label depth)))"

definition scope_insert ::
    "scopes_table \<Rightarrow> int \<Rightarrow> string \<Rightarrow> int \<Rightarrow> scope_node result \<times> scopes_table" where
  "scope_insert s parent label depth =
     (case sql_insert_scope False s parent label depth of
        (Inl e, s') \<Rightarrow> (Inl e, s')
      | (Inr _, s') \<Rightarrow> (Inr (new_scope_row s parent label depth), s'))"

definition validate_label :: "string \<Rightarrow> unit result" where
  "validate_label label =
     (let trimmed = trim label in
      case validate_segment trimmed of
        Inl reason \<Rightarrow> Inl (Conflict (ScopeLabel (Lit reason)))
      | Inr _ \<Rightarrow>
          (if trimmed \<noteq> label
           then Inl (Conflict (ScopeLabel
             (Lit ''scope label must not have leading/trailing whitespace'')))
           else Inr ()))"

fun ensure_segments ::
    "scopes_table \<Rightarrow> string list \<Rightarrow> int \<Rightarrow> int \<Rightarrow> int result \<times> scopes_table" where
  "ensure_segments s [] depth parent_id = (Inr parent_id, s)"
| "ensure_segments s (segment # segments) depth parent_id =
     (case validate_label segment of
        Inl e \<Rightarrow> (Inl e, s)
      | Inr _ \<Rightarrow>
        (case sql_insert_scope True s parent_id segment depth of
           (Inl e, s1) \<Rightarrow> (Inl e, s1)
         | (Inr _, s1) \<Rightarrow>
           (case find_by_label s1 parent_id segment of
              None \<Rightarrow> (Inl (Storage (Backend (Lit ''Query returned no rows''))), s1)
            | Some n \<Rightarrow> ensure_segments s1 segments (depth + 1) (sn_id n))))"

definition ensure_path :: "scopes_table \<Rightarrow> string \<Rightarrow> int result \<times> scopes_table" where
  "ensure_path s path =
     (if path = []
      then (Inl (Conflict (ScopeLabel (Lit ''scope path must not be empty''))), s)
      else ensure_segments s (split_on (CHR ''/'') path) 1 1)"

definition list_all_scopes :: "scopes_table \<Rightarrow> scope_node list" where
  \<comment> \<open>\<open>ORDER BY id\<close>\<close>
  "list_all_scopes s = sort_key sn_id (sc_rows s)"

subsection \<open>The table invariant\<close>

definition scopes_inv :: "scopes_table \<Rightarrow> bool" where
  "scopes_inv s \<longleftrightarrow>
     sorted_wrt (<) (map sn_id (sc_rows s)) \<and>
     (\<forall>n \<in> set (sc_rows s). sn_id n \<le> sc_seq s) \<and> 1 \<le> sc_seq s \<and>
     scope_wf (from_nodes (sc_rows s))"

abbreviation tree_of :: "scopes_table \<Rightarrow> scope_tree" where
  "tree_of s \<equiv> from_nodes (sc_rows s)"

lemma scopes_inv_distinct: "scopes_inv s \<Longrightarrow> distinct (map sn_id (sc_rows s))"
  by (simp add: scopes_inv_def strict_sorted_iff)

lemma list_all_scopes_rows: "scopes_inv s \<Longrightarrow> list_all_scopes s = sc_rows s"
  by (simp add: list_all_scopes_def scopes_inv_def strict_sorted_iff sorted_sort_id sort_key_id_if_sorted)

lemma tree_of_nodes:
  assumes "scopes_inv s"
  shows "map_of (st_nodes (tree_of s)) i = Some n \<longleftrightarrow> n \<in> set (sc_rows s) \<and> sn_id n = i"
proof -
  have "distinct (map fst (map (\<lambda>n. (sn_id n, n)) (sc_rows s)))"
    using scopes_inv_distinct [OF assms] by (simp add: comp_def)
  from map_of_eq_Some_iff [OF this] show ?thesis
    by (auto simp: from_nodes_nodes [OF scopes_inv_distinct [OF assms]])
qed

lemma scopes_inv_wf: "scopes_inv s \<Longrightarrow> scope_wf (tree_of s)"
  by (simp add: scopes_inv_def)

lemma find_by_label_Some:
  "find_by_label s p l = Some n \<Longrightarrow> n \<in> set (sc_rows s) \<and> sn_parent_id n = Some p \<and> sn_label n = l"
  unfolding find_by_label_def by (drule find_eq_Some_in) simp

lemma find_by_label_None:
  "find_by_label s p l = None \<longleftrightarrow>
     (\<forall>n \<in> set (sc_rows s). sn_parent_id n = Some p \<longrightarrow> sn_label n \<noteq> l)"
  by (auto simp: find_by_label_def find_None_iff)

lemma validate_label_ok: "validate_label l = Inr () \<longleftrightarrow> label_ok l"
  by (auto simp: validate_label_def label_ok_def Let_def split: sum.splits)

lemma new_scope_row_simps [simp]:
  "sn_id (new_scope_row s p l d) = sc_seq s + 1"
  "sn_parent_id (new_scope_row s p l d) = Some p"
  "sn_label (new_scope_row s p l d) = l"
  "sn_depth (new_scope_row s p l d) = d"
  by (simp_all add: new_scope_row_def)

lemma append_scope_simps [simp]:
  "sc_rows (append_scope s n) = sc_rows s @ [n]" "sc_seq (append_scope s n) = sn_id n"
  by (simp_all add: append_scope_def)

lemma tree_of_append:
  assumes "scopes_inv s" "sn_id n \<notin> sn_id ` set (sc_rows s)"
  shows "tree_of (append_scope s n) = insert_scope n (tree_of s)"
  using assms scopes_inv_distinct [OF assms(1)] by (simp add: from_nodes_fold)

lemma append_scope_inv:
  assumes inv: "scopes_inv s" and none: "find_by_label s p l = None" and ok: "label_ok l"
    and parent: "m \<in> set (sc_rows s)" "sn_id m = p" "d = sn_depth m + 1"
  shows "scopes_inv (append_scope s (new_scope_row s p l d))"
proof -
  let ?n = "new_scope_row s p l d"
  have above: "\<forall>x \<in> set (sc_rows s). sn_id x < sn_id ?n" and seq: "1 \<le> sc_seq s"
    using inv by (force simp: scopes_inv_def)+
  then have fresh: "sn_id ?n \<notin> sn_id ` set (sc_rows s)" by auto
  have pm: "map_of (st_nodes (tree_of s)) p = Some m" using parent tree_of_nodes [OF inv] by simp
  have "\<not> has_label (tree_of s) l j" if "parent_of (tree_of s) j = Some p" for j
  proof
    assume "has_label (tree_of s) l j"
    with that obtain k where "map_of (st_nodes (tree_of s)) j = Some k" "sn_label k = l"
      "sn_parent_id k = Some p"
      by (cases "map_of (st_nodes (tree_of s)) j") (auto simp: has_label_def parent_of_def)
    with none tree_of_nodes [OF inv] show False by (auto simp: find_by_label_None)
  qed
  then have "insertable ?n (tree_of s)"
    using parent pm ok seq by (simp add: insertable_def root_id_def)
  then have "scope_wf (tree_of (append_scope s ?n))"
    unfolding tree_of_append [OF inv fresh] by (intro insert_scope_wf scopes_inv_wf inv)
  with inv above seq show ?thesis
    by (force simp: scopes_inv_def sorted_wrt_append)
qed

lemma ensure_step:
  assumes inv: "scopes_inv s" and ok: "label_ok l"
    and parent: "m \<in> set (sc_rows s)" "sn_id m = p" "d = sn_depth m + 1"
  obtains s1 n extra where "sql_insert_scope True s p l d = (Inr (), s1)"
    "find_by_label s1 p l = Some n" "sc_rows s1 = sc_rows s @ extra" "scopes_inv s1"
    "sn_depth n = d"
proof (cases "find_by_label s p l")
  case (Some n)
  then have n: "n \<in> set (sc_rows s)" "sn_parent_id n = Some p" using find_by_label_Some by blast+
  then have "map_of (st_nodes (tree_of s)) (sn_id n) = Some n" using tree_of_nodes [OF inv] by simp
  then have "node_ok (tree_of s) (sn_id n) n" by (rule scope_wfD(3) [OF scopes_inv_wf [OF inv]])
  then obtain m' where "map_of (st_nodes (tree_of s)) p = Some m'" "sn_depth n = sn_depth m' + 1"
    using n(2) by (auto simp: node_ok_def split: if_splits)
  moreover have "map_of (st_nodes (tree_of s)) p = Some m" using parent tree_of_nodes [OF inv] by simp
  ultimately have "sn_depth n = d" using parent(3) by simp
  then show ?thesis using that [of s n "[]"] Some inv by (simp add: sql_insert_scope_def)
next
  case None
  let ?n = "new_scope_row s p l d"
  have mem: "p \<in> sn_id ` set (sc_rows s)" using parent by auto
  have "List.find (\<lambda>n. sn_parent_id n = Some p \<and> sn_label n = l) (sc_rows s @ [?n]) = Some ?n"
    using None by (auto simp: find_by_label_def find_append)
  then have "find_by_label (append_scope s ?n) p l = Some ?n" by (simp add: find_by_label_def)
  then show ?thesis
    using that [of "append_scope s ?n" ?n "[?n]"] None mem
      append_scope_inv [OF inv None ok parent] by (simp add: sql_insert_scope_def)
qed

lemma ensure_segments_inv:
  assumes "scopes_inv s" "m \<in> set (sc_rows s)" "sn_id m = p" "d = sn_depth m + 1"
    "ensure_segments s segs d p = (r, s')"
  shows "scopes_inv s' \<and> (\<exists>extra. sc_rows s' = sc_rows s @ extra)"
  using assms
proof (induction s segs d p arbitrary: m rule: ensure_segments.induct)
  case (2 s seg segs d p)
  show ?case
  proof (cases "validate_label seg")
    case (Inl e)
    with 2 show ?thesis by simp
  next
    case (Inr u)
    then have ok: "label_ok seg" by (simp add: validate_label_ok [symmetric])
    obtain s1 n extra where st: "sql_insert_scope True s p seg d = (Inr (), s1)"
      "find_by_label s1 p seg = Some n" "sc_rows s1 = sc_rows s @ extra" "scopes_inv s1"
      "sn_depth n = d"
      by (rule ensure_step [OF "2.prems"(1) ok "2.prems"(2-4)])
    have "n \<in> set (sc_rows s1)" using find_by_label_Some [OF st(2)] by simp
    moreover have "ensure_segments s1 segs (d + 1) (sn_id n) = (r, s')"
      using "2.prems"(5) Inr st by simp
    ultimately have "scopes_inv s' \<and> (\<exists>e. sc_rows s' = sc_rows s1 @ e)"
      using "2.IH" [OF Inr st(1) [symmetric] refl st(2,4) _ refl] st(5) by simp
    with st(3) show ?thesis by auto
  qed
qed simp

lemma ensure_segments_resolve:
  assumes "scopes_inv s" "m \<in> set (sc_rows s)" "sn_id m = p" "d = sn_depth m + 1"
    "ensure_segments s segs d p = (Inr leaf, s')"
  shows "resolve_segments (tree_of s') segs p = Some leaf"
  using assms
proof (induction s segs d p arbitrary: m rule: ensure_segments.induct)
  case (2 s seg segs d p)
  obtain u where Inr: "validate_label seg = Inr u"
    using "2.prems"(5) by (cases "validate_label seg") auto
  then have ok: "label_ok seg" by (simp add: validate_label_ok [symmetric])
  obtain s1 n extra where st: "sql_insert_scope True s p seg d = (Inr (), s1)"
    "find_by_label s1 p seg = Some n" "sc_rows s1 = sc_rows s @ extra" "scopes_inv s1"
    "sn_depth n = d"
    by (rule ensure_step [OF "2.prems"(1) ok "2.prems"(2-4)])
  have n: "n \<in> set (sc_rows s1)" "sn_parent_id n = Some p" "sn_label n = seg"
    using find_by_label_Some [OF st(2)] by auto
  have rest: "ensure_segments s1 segs (d + 1) (sn_id n) = (Inr leaf, s')"
    using "2.prems"(5) Inr st by simp
  have IH: "resolve_segments (tree_of s') segs (sn_id n) = Some leaf"
    using "2.IH" [OF Inr st(1) [symmetric] refl st(2,4) n(1) refl _ rest] st(5) by simp
  have inv': "scopes_inv s'" "n \<in> set (sc_rows s')"
    using ensure_segments_inv [OF st(4) n(1) refl _ rest] st(5) n(1) by auto
  have look: "map_of (st_nodes (tree_of s')) (sn_id n) = Some n"
    using inv' tree_of_nodes by blast
  have "sn_id n \<noteq> root_id"
    using scope_wfD(3) [OF scopes_inv_wf [OF inv'(1)] look] n(2) by (auto simp: node_ok_def)
  then have "resolve_segments (tree_of s') [seg] p = Some (sn_id n)"
    using resolve_child [OF scopes_inv_wf [OF inv'(1)] look _ n(2)] n(3) by simp
  then show ?case
    using IH resolve_segments_append [of "tree_of s'" "[seg]" segs p] by simp
qed simp

lemma scopes_inv_root:
  assumes "scopes_inv s"
  obtains m where "m \<in> set (sc_rows s)" "sn_id m = 1" "sn_depth m = 0"
proof -
  from scopes_inv_wf [OF assms] obtain m where m: "map_of (st_nodes (tree_of s)) root_id = Some m"
    by (metis not_key_map_of option.exhaust scope_wf_def)
  with scope_wfD(3) [OF scopes_inv_wf [OF assms] m] show ?thesis
    using that tree_of_nodes [OF assms] by (auto simp: node_ok_def root_id_def)
qed

lemma ensure_path_resolves:
  assumes "scopes_inv s" "ensure_path s path = (Inr leaf, s')"
  shows "resolve_path (from_nodes (list_all_scopes s')) path = Some leaf"
proof -
  from assms(1) obtain m where m: "m \<in> set (sc_rows s)" "sn_id m = 1" "sn_depth m = 0"
    by (rule scopes_inv_root)
  from assms(2) have seg: "ensure_segments s (split_on (CHR ''/'') path) 1 1 = (Inr leaf, s')"
    by (auto simp: ensure_path_def split: if_splits)
  have d: "1 = sn_depth m + 1" using m(3) by simp
  note inv' = ensure_segments_inv [OF assms(1) m(1,2) d seg]
  have "path \<noteq> ''/''"
  proof
    assume "path = ''/''"
    with seg show False by (simp add: validate_label_def validate_segment_def)
  qed
  then show ?thesis
    using ensure_segments_resolve [OF assms(1) m(1,2) d seg] inv'
    by (simp add: list_all_scopes_rows resolve_path_def root_id_def)
qed

lemma ensure_path_inv:
  assumes "scopes_inv s" "ensure_path s path = (r, s')"
  shows "scopes_inv s'" "\<exists>extra. sc_rows s' = sc_rows s @ extra"
proof -
  from assms(1) obtain m where m: "m \<in> set (sc_rows s)" "sn_id m = 1" "sn_depth m = 0"
    by (rule scopes_inv_root)
  then have d: "1 = sn_depth m + 1" by simp
  have "scopes_inv s' \<and> (\<exists>extra. sc_rows s' = sc_rows s @ extra)"
    using assms ensure_segments_inv [OF assms(1) m(1,2) d] by (auto simp: ensure_path_def split: if_splits)
  then show "scopes_inv s'" "\<exists>extra. sc_rows s' = sc_rows s @ extra" by auto
qed

lemma init_scopes_inv: "scopes_inv init_scopes"
proof -
  have wf: "scope_wf (from_nodes [\<lparr>sn_id = 1, sn_parent_id = None, sn_label = l, sn_depth = 0\<rparr>])" for l
    by (auto simp: scope_wf_def index_ok_def from_nodes_def build_index_def index_node_def
        parent_of_def siblings_ok_def node_ok_def root_id_def)
  show ?thesis unfolding scopes_inv_def init_scopes_def using wf by simp
qed

end
