(* ===== verification/Fact_Store.thy ===== *)
theory Fact_Store
  imports Store_Monad Scope_Store
begin

text \<open>
  The tables behind the SQLite backend and the two stores over them,
  \<open>me-backend-sqlite/src/store/facts.rs\<close> (\<open>FactStore\<close>) and \<open>store/edges.rs\<close> (\<open>EdgeStore\<close>).

  \<open>db\<close> holds the rows of the tables these stores touch, in rowid order, with the counters of
  \<open>AUTOINCREMENT\<close>. A SQL statement is a function on \<open>db\<close>; it checks the constraints of
  \<open>schema/ddl.rs\<close> (a NaN is bound as NULL, foreign keys are enforced) and leaves the tables
  unchanged when one fails. Timestamps are stored as RFC 3339 text whose order is that of the
  instants, so they are compared as numbers here. Where a query leaves the order of ties
  open, the model keeps row order.

  \<open>hash\<close> is the hexadecimal BLAKE3 digest of a text, and \<open>edim\<close> the configured embedding
  dimension.
\<close>

record db =
  d_scopes :: scopes_table
  d_events :: "(int \<times> string option) list"  \<comment> \<open>event id and session id\<close>
  d_event_seq :: int
  d_facts :: "fact list"
  d_fact_seq :: int
  d_edges :: "edge list"
  d_edge_seq :: int
  d_identity :: "fingerprint option"         \<comment> \<open>the active embedding space\<close>

definition backend_error :: "string \<Rightarrow> memory_error" where
  "backend_error s = Storage (Backend (Lit s))"

definition not_null_error :: memory_error where
  "not_null_error = backend_error ''NOT NULL constraint failed''"

definition foreign_key_error :: memory_error where
  "foreign_key_error = backend_error ''FOREIGN KEY constraint failed''"

definition fact_not_found :: "fact_id \<Rightarrow> memory_error" where
  "fact_not_found i = NotFound (Fmt ''fact {}'' [AInt i])"

definition i64_max :: nat where "i64_max = 9223372036854775807"

definition sql_limit :: "nat \<Rightarrow> 'a list \<Rightarrow> 'a list" where
  \<comment> \<open>\<open>LIMIT\<close> with \<open>i64::try_from(limit).unwrap_or(i64::MAX)\<close>\<close>
  "sql_limit n xs = take (min n i64_max) xs"

definition content_hash :: "(string \<Rightarrow> string) \<Rightarrow> string \<Rightarrow> string" where
  "content_hash hash content = take 32 (hash content)"

definition is_active_row :: "fact \<Rightarrow> bool" where
  "is_active_row f \<longleftrightarrow> f_t_expired f = None"

definition scope_ids_of :: "db \<Rightarrow> int set" where
  "scope_ids_of D = sn_id ` set (sc_rows (d_scopes D))"

definition fact_ids_of :: "db \<Rightarrow> int set" where
  "fact_ids_of D = f_id ` set (d_facts D)"

definition existing_fact_ids :: "db \<Rightarrow> int set" where
  "existing_fact_ids D = f_id ` set (d_facts D)"

subsection \<open>Reading rows\<close>

definition row_to_fact :: "nat \<Rightarrow> fact \<Rightarrow> fact result" where
  \<comment> \<open>the embedding BLOB must have the configured dimension\<close>
  "row_to_fact edim f =
     (if length (f_embedding f) \<noteq> edim
      then Inl (Storage (Backend (Fmt ''embedding dimension mismatch: expected {}, got {}''
        [ANat edim, ANat (length (f_embedding f))])))
      else Inr f)"

definition row_to_scoring_row :: "fact \<Rightarrow> fact_scoring_row" where
  "row_to_scoring_row f =
     \<lparr>r_id = f_id f, r_fact_type = f_fact_type f, r_last_accessed = f_last_accessed f,
      r_access_count = f_access_count f, r_base_importance = f_base_importance f,
      r_is_pinned = f_is_pinned f\<rparr>"

definition select_facts :: "nat \<Rightarrow> fact list \<Rightarrow> fact list result" where
  "select_facts edim rows = map_res (row_to_fact edim) rows"

definition in_scopes :: "int list \<Rightarrow> fact \<Rightarrow> bool" where
  \<comment> \<open>the optional scope clause; the empty list means every scope\<close>
  "in_scopes scope_ids f \<longleftrightarrow> scope_ids = [] \<or> f_scope_id f \<in> set scope_ids"

definition valid_at :: "time \<Rightarrow> fact \<Rightarrow> bool" where
  "valid_at t f \<longleftrightarrow>
     (case f_t_valid f of None \<Rightarrow> True | Some tv \<Rightarrow> tv \<le> t) \<and>
     (case f_t_invalid f of None \<Rightarrow> True | Some ti \<Rightarrow> t < ti)"

definition json_get :: "string \<Rightarrow> json \<Rightarrow> json option" where
  "json_get k j = (case j of JObj kvs \<Rightarrow> map_of kvs k | _ \<Rightarrow> None)"

definition fact_get :: "nat \<Rightarrow> db \<Rightarrow> fact_id \<Rightarrow> fact result" where
  "fact_get edim D i =
     (case List.find (\<lambda>f. f_id f = i) (d_facts D) of
        None \<Rightarrow> Inl (fact_not_found i)
      | Some f \<Rightarrow> row_to_fact edim f)"

definition get_many :: "nat \<Rightarrow> db \<Rightarrow> fact_id list \<Rightarrow> (fact_id \<times> fact) list result" where
  "get_many edim D ids =
     (if ids = [] then Inr []
      else and_then (select_facts edim (filter (\<lambda>f. f_id f \<in> set ids) (d_facts D)))
        (\<lambda>fs. Inr (fold (\<lambda>f m. AList.update (f_id f) f m) fs [])))"

definition list_active :: "nat \<Rightarrow> db \<Rightarrow> nat option \<Rightarrow> fact list result" where
  "list_active edim D limit =
     (let rows = sort_key f_id (filter is_active_row (d_facts D)) in
      select_facts edim (case limit of None \<Rightarrow> rows | Some n \<Rightarrow> sql_limit n rows))"

definition count_active :: "db \<Rightarrow> nat" where
  "count_active D = length (filter is_active_row (d_facts D))"

definition is_active :: "db \<Rightarrow> fact_id \<Rightarrow> bool" where
  "is_active D i \<longleftrightarrow> (\<exists>f \<in> set (d_facts D). f_id f = i \<and> is_active_row f)"

definition list_active_scoring :: "db \<Rightarrow> fact_scoring_row list" where
  "list_active_scoring D = map row_to_scoring_row (filter is_active_row (d_facts D))"

definition list_active_at :: "nat \<Rightarrow> db \<Rightarrow> time \<Rightarrow> fact list result" where
  "list_active_at edim D t =
     select_facts edim (filter (\<lambda>f. is_active_row f \<and> valid_at t f) (d_facts D))"

definition list_dormant ::
    "nat \<Rightarrow> db \<Rightarrow> fl \<Rightarrow> int list option \<Rightarrow> time \<Rightarrow> fact list result" where
  "list_dormant edim D threshold scope_ids as_of =
     select_facts edim (filter (\<lambda>f. is_active_row f \<and> \<not> f_is_pinned f \<and>
        fl_lt (f_importance_score f) threshold \<and> valid_at as_of f \<and>
        (case scope_ids of None \<Rightarrow> True | Some ids \<Rightarrow> in_scopes ids f)) (d_facts D))"

definition list_by_scope_importance :: "nat \<Rightarrow> db \<Rightarrow> int \<Rightarrow> nat \<Rightarrow> fact list result" where
  "list_by_scope_importance edim D scope_id limit =
     select_facts edim (sql_limit limit (sort_by (desc_by f_base_importance)
       (filter (\<lambda>f. is_active_row f \<and> f_scope_id f = scope_id) (d_facts D))))"

definition list_by_scopes_importance ::
    "nat \<Rightarrow> db \<Rightarrow> int list \<Rightarrow> fl \<Rightarrow> nat \<Rightarrow> fact_id set \<Rightarrow> fact list result" where
  "list_by_scopes_importance edim D scope_ids min_importance limit exclude_ids =
     select_facts edim (sql_limit limit (sort_by (desc_by f_base_importance)
       (filter (\<lambda>f. is_active_row f \<and> f_scope_id f \<in> set scope_ids \<and>
          fl_le min_importance (f_base_importance f) \<and> f_id f \<notin> exclude_ids) (d_facts D))))"

definition list_pinned :: "nat \<Rightarrow> db \<Rightarrow> int list \<Rightarrow> nat \<Rightarrow> fact list result" where
  "list_pinned edim D scope_ids limit =
     select_facts edim (sql_limit limit (sort_by (desc_by f_importance_score)
       (filter (\<lambda>f. is_active_row f \<and> f_is_pinned f \<and> in_scopes scope_ids f) (d_facts D))))"

definition list_due ::
    "nat \<Rightarrow> db \<Rightarrow> time \<Rightarrow> int list \<Rightarrow> fact_id list \<Rightarrow> nat option \<Rightarrow> fact list result" where
  "list_due edim D now scope_ids exclude limit =
     (let rows = sort_key (\<lambda>f. the (f_t_valid f)) (filter (\<lambda>f. is_active_row f \<and>
            (case f_t_valid f of None \<Rightarrow> False | Some tv \<Rightarrow> tv \<le> now) \<and>
            (case f_t_invalid f of None \<Rightarrow> True | Some ti \<Rightarrow> now < ti) \<and>
            in_scopes scope_ids f \<and> (exclude = [] \<or> f_id f \<notin> set exclude)) (d_facts D))
      in select_facts edim (case limit of None \<Rightarrow> rows | Some n \<Rightarrow> sql_limit n rows))"

definition next_due_time :: "db \<Rightarrow> time \<Rightarrow> int list \<Rightarrow> time option" where
  "next_due_time D now scope_ids =
     (case map (\<lambda>f. the (f_t_valid f)) (filter (\<lambda>f. is_active_row f \<and>
            (case f_t_valid f of None \<Rightarrow> False | Some tv \<Rightarrow> now < tv) \<and>
            (case f_t_invalid f of None \<Rightarrow> True | Some ti \<Rightarrow> now < ti) \<and>
            in_scopes scope_ids f) (d_facts D)) of
        [] \<Rightarrow> None
      | t # ts \<Rightarrow> Some (fold min ts t))"

definition list_all_facts :: "nat \<Rightarrow> db \<Rightarrow> fact list result" where
  "list_all_facts edim D = select_facts edim (sort_key f_id (d_facts D))"

definition max_caller_written_fact_id :: "db \<Rightarrow> fact_id option" where
  "max_caller_written_fact_id D =
     (case map f_id (filter (\<lambda>f. is_active_row f \<and> \<not> f_is_pinned f \<and>
             json_get ''dream_cycle'' (f_metadata f) = None) (d_facts D)) of
        [] \<Rightarrow> None
      | i # is \<Rightarrow> Some (fold max is i))"

definition list_by_importance_score ::
    "nat \<Rightarrow> db \<Rightarrow> int list \<Rightarrow> fl \<Rightarrow> nat \<Rightarrow> fact_id set \<Rightarrow> fact list result" where
  "list_by_importance_score edim D scope_ids min_score limit exclude =
     select_facts edim (sql_limit limit (sort_by (desc_by f_importance_score)
       (filter (\<lambda>f. is_active_row f \<and> fl_le min_score (f_importance_score f) \<and>
          f_id f \<notin> exclude \<and> in_scopes scope_ids f) (d_facts D))))"

definition list_active_by_session :: "db \<Rightarrow> string \<Rightarrow> int list \<Rightarrow> fact_id list" where
  "list_active_by_session D session_id scope_ids =
     map f_id (sort_key f_id (filter (\<lambda>f. is_active_row f \<and> in_scopes scope_ids f \<and>
        (case f_source_event_id f of None \<Rightarrow> False
         | Some ev \<Rightarrow> map_of (d_events D) ev = Some (Some session_id))) (d_facts D)))"

definition list_by_scopes_recent ::
    "nat \<Rightarrow> db \<Rightarrow> int list \<Rightarrow> nat \<Rightarrow> fact_id set \<Rightarrow> fact list result" where
  "list_by_scopes_recent edim D scope_ids limit exclude_ids =
     select_facts edim (sql_limit limit (sort_key (\<lambda>f. - f_t_created f)
       (filter (\<lambda>f. is_active_row f \<and> f_scope_id f \<in> set scope_ids \<and> f_id f \<notin> exclude_ids)
         (d_facts D))))"

definition identifier_char :: "char \<Rightarrow> bool" where
  "identifier_char c = (let n = of_char c :: nat in
     48 \<le> n \<and> n \<le> 57 \<or> 65 \<le> n \<and> n \<le> 90 \<or> 97 \<le> n \<and> n \<le> 122 \<or> n = 95)"

definition list_active_by_metadata_key_recent ::
    "nat \<Rightarrow> db \<Rightarrow> int list \<Rightarrow> string \<Rightarrow> nat \<Rightarrow> fact list result" where
  "list_active_by_metadata_key_recent edim D scope_ids marker_key limit =
     (if marker_key = [] \<or> \<not> list_all identifier_char marker_key
      then Inl (Conflict (QueryValidation (Fmt
        ''marker_key must be a non-empty alphanumeric/underscore identifier, got {:?}''
        [AStr marker_key])))
      else select_facts edim (sql_limit limit (sort_key (\<lambda>f. - f_t_created f)
        (filter (\<lambda>f. is_active_row f \<and> f_scope_id f \<in> set scope_ids \<and>
           (case json_get marker_key (f_metadata f) of None \<Rightarrow> False | Some v \<Rightarrow> v \<noteq> JNull))
          (d_facts D)))))"

definition importance_then_id :: "fact \<Rightarrow> fact \<Rightarrow> ord3" where
  \<comment> \<open>\<open>ORDER BY importance_score DESC, id ASC\<close>\<close>
  "importance_then_id a b =
     (case desc_by f_importance_score a b of
        OEqual \<Rightarrow> (if f_id a < f_id b then OLess else if f_id a = f_id b then OEqual else OGreater)
      | c \<Rightarrow> c)"

definition list_active_in_period_inner ::
    "nat \<Rightarrow> db \<Rightarrow> time \<Rightarrow> time \<Rightarrow> int list \<Rightarrow> fact_type option \<Rightarrow> (fact \<Rightarrow> bool)
      \<Rightarrow> fact list result" where
  "list_active_in_period_inner edim D start end_time scope_ids ft extra =
     select_facts edim (sort_by importance_then_id (filter (\<lambda>f. is_active_row f \<and>
        (case f_t_valid f of None \<Rightarrow> True | Some tv \<Rightarrow> tv < end_time) \<and>
        (case f_t_invalid f of None \<Rightarrow> True | Some ti \<Rightarrow> start < ti) \<and>
        in_scopes scope_ids f \<and>
        (case ft of None \<Rightarrow> True | Some t \<Rightarrow> f_fact_type f = t) \<and> extra f) (d_facts D)))"

definition list_active_in_period ::
    "nat \<Rightarrow> db \<Rightarrow> time \<Rightarrow> time \<Rightarrow> int list \<Rightarrow> fact_type option \<Rightarrow> fact list result" where
  "list_active_in_period edim D start end_time scope_ids ft =
     list_active_in_period_inner edim D start end_time scope_ids ft (\<lambda>_. True)"

definition list_undreamt_in_period ::
    "nat \<Rightarrow> db \<Rightarrow> time \<Rightarrow> time \<Rightarrow> int list \<Rightarrow> fact_type option \<Rightarrow> fact list result" where
  "list_undreamt_in_period edim D start end_time scope_ids ft =
     list_active_in_period_inner edim D start end_time scope_ids ft
       (\<lambda>f. json_get ''dream_cycle'' (f_metadata f) = None)"

definition list_archive_candidates :: "nat \<Rightarrow> db \<Rightarrow> time \<Rightarrow> fact list result" where
  "list_archive_candidates edim D expired_before =
     select_facts edim (sort_key f_id (filter (\<lambda>f. \<not> f_is_pinned f \<and>
        (case f_t_expired f of None \<Rightarrow> False | Some te \<Rightarrow> te < expired_before)) (d_facts D)))"

subsection \<open>Writing facts\<close>

definition update_facts :: "(fact \<Rightarrow> bool) \<Rightarrow> (fact \<Rightarrow> fact) \<Rightarrow> db \<Rightarrow> db" where
  \<comment> \<open>\<open>UPDATE facts SET g WHERE p\<close>\<close>
  "update_facts p g D = D\<lparr>d_facts := map (\<lambda>f. if p f then g f else f) (d_facts D)\<rparr>"

definition update_or_not_found ::
    "fact_id \<Rightarrow> (fact \<Rightarrow> bool) \<Rightarrow> (fact \<Rightarrow> fact) \<Rightarrow> (db, unit) op" where
  \<comment> \<open>an \<open>UPDATE\<close> whose count of changed rows must not be 0\<close>
  "update_or_not_found i p g D =
     (if \<exists>f \<in> set (d_facts D). p f then (Inr (), update_facts p g D)
      else (Inl (fact_not_found i), D))"

definition new_fact_row :: "(string \<Rightarrow> string) \<Rightarrow> int \<Rightarrow> new_fact \<Rightarrow> fact" where
  "new_fact_row hash i nf =
     \<lparr>f_id = i, f_content = nf_content nf, f_content_hash = content_hash hash (nf_content nf),
      f_embedding = nf_embedding nf, f_fact_type = nf_fact_type nf,
      f_t_created = nf_t_created nf, f_t_expired = nf_t_expired nf,
      f_t_valid = nf_t_valid nf, f_t_invalid = nf_t_invalid nf,
      f_source_event_id = nf_source_event_id nf, f_base_importance = nf_base_importance nf,
      f_access_count = nf_access_count nf, f_last_accessed = nf_last_accessed nf,
      f_metadata = nf_metadata nf, f_scope_id = nf_scope_id nf, f_is_pinned = nf_is_pinned nf,
      f_importance_score = nf_base_importance nf, f_surfaced_at = None\<rparr>"

definition fact_constraint :: "db \<Rightarrow> new_fact \<Rightarrow> memory_error option" where
  "fact_constraint D nf =
     (if nf_base_importance nf = NaN then Some not_null_error
      else if nf_scope_id nf \<notin> scope_ids_of D then Some foreign_key_error
      else (case nf_source_event_id nf of
              None \<Rightarrow> None
            | Some ev \<Rightarrow> if ev \<in> fst ` set (d_events D) then None else Some foreign_key_error))"

definition fact_insert :: "(string \<Rightarrow> string) \<Rightarrow> nat \<Rightarrow> new_fact \<Rightarrow> (db, fact_id) op" where
  "fact_insert hash edim nf D =
     (if length (nf_embedding nf) \<noteq> edim
      then (Inl (EmbeddingDimension edim (length (nf_embedding nf))), D)
      else (case fact_constraint D nf of
              Some e \<Rightarrow> (Inl e, D)
            | None \<Rightarrow>
                (let i = d_fact_seq D + 1 in
                 (Inr i, D\<lparr>d_facts := d_facts D @ [new_fact_row hash i nf], d_fact_seq := i\<rparr>))))"

definition sql_max :: "fl \<Rightarrow> fl \<Rightarrow> fl" where
  \<comment> \<open>the scalar \<open>max(a, b)\<close>, NULL (NaN) when either is\<close>
  "sql_max a b = (if a = NaN \<or> b = NaN then NaN else if fl_lt a b then b else a)"

definition reinforced :: "new_fact \<Rightarrow> fact \<Rightarrow> fact" where
  "reinforced nf f = f\<lparr>f_access_count := f_access_count f + 1,
     f_t_created := min (f_t_created f) (nf_t_created nf),
     f_last_accessed := max (f_last_accessed f) (nf_last_accessed nf),
     f_is_pinned := (f_is_pinned f \<or> nf_is_pinned nf),
     f_base_importance := sql_max (f_base_importance f) (nf_base_importance nf)\<rparr>"

definition find_duplicate :: "(string \<Rightarrow> string) \<Rightarrow> db \<Rightarrow> new_fact \<Rightarrow> fact option" where
  "find_duplicate hash D nf =
     List.find (\<lambda>f. f_content_hash f = content_hash hash (nf_content nf) \<and>
         f_content f = nf_content nf \<and> f_scope_id f = nf_scope_id nf \<and> is_active_row f)
       (sort_key f_id (d_facts D))"

definition insert_or_reinforce ::
    "(string \<Rightarrow> string) \<Rightarrow> nat \<Rightarrow> new_fact \<Rightarrow> (db, fact_id \<times> bool) op" where
  "insert_or_reinforce hash edim nf D =
     (if length (nf_embedding nf) \<noteq> edim
      then (Inl (EmbeddingDimension edim (length (nf_embedding nf))), D)
      else (case find_duplicate hash D nf of
              Some f \<Rightarrow>
                if f_base_importance (reinforced nf f) = NaN then (Inl not_null_error, D)
                else (Inr (f_id f, True), update_facts (\<lambda>g. f_id g = f_id f) (reinforced nf) D)
            | None \<Rightarrow> op_bind (fact_insert hash edim nf) (\<lambda>i. op_return (i, False)) D))"

definition fact_expire :: "fact_id \<Rightarrow> time \<Rightarrow> (db, unit) op" where
  "fact_expire i now =
     update_or_not_found i (\<lambda>f. f_id f = i \<and> is_active_row f) (\<lambda>f. f\<lparr>f_t_expired := Some now\<rparr>)"

definition expire_and_invalidate :: "fact_id \<Rightarrow> time \<Rightarrow> (db, unit) op" where
  "expire_and_invalidate i now =
     update_or_not_found i (\<lambda>f. f_id f = i \<and> is_active_row f)
       (\<lambda>f. f\<lparr>f_t_expired := Some now, f_t_invalid := Some now\<rparr>)"

definition update_base_importance :: "fact_id \<Rightarrow> fl \<Rightarrow> (db, unit) op" where
  "update_base_importance i v D =
     (if v = NaN \<and> i \<in> fact_ids_of D then (Inl not_null_error, D)
      else update_or_not_found i (\<lambda>f. f_id f = i) (\<lambda>f. f\<lparr>f_base_importance := v\<rparr>) D)"

definition increment_access :: "fact_id \<Rightarrow> time \<Rightarrow> (db, unit) op" where
  "increment_access i now =
     update_or_not_found i (\<lambda>f. f_id f = i)
       (\<lambda>f. f\<lparr>f_access_count := f_access_count f + 1, f_last_accessed := now\<rparr>)"

definition set_pinned :: "fact_id \<Rightarrow> bool \<Rightarrow> (db, unit) op" where
  "set_pinned i pinned =
     update_or_not_found i (\<lambda>f. f_id f = i) (\<lambda>f. f\<lparr>f_is_pinned := pinned\<rparr>)"

definition update_importance_score :: "fact_id \<Rightarrow> fl \<Rightarrow> (db, unit) op" where
  "update_importance_score i v D =
     (if v = NaN \<and> i \<in> fact_ids_of D then (Inl not_null_error, D)
      else update_or_not_found i (\<lambda>f. f_id f = i) (\<lambda>f. f\<lparr>f_importance_score := v\<rparr>) D)"

definition stamp_surfaced :: "fact_id list \<Rightarrow> time \<Rightarrow> (db, (fact_id \<times> time) list) op" where
  "stamp_surfaced ids now D =
     (if ids = [] then (Inr [], D)
      else let D' = update_facts (\<lambda>f. f_id f \<in> set ids \<and> f_surfaced_at f = None)
                      (\<lambda>f. f\<lparr>f_surfaced_at := Some now\<rparr>) D
           in (Inr (map (\<lambda>f. (f_id f, the (f_surfaced_at f)))
                 (filter (\<lambda>f. f_id f \<in> set ids \<and> f_surfaced_at f \<noteq> None) (d_facts D'))), D'))"

definition nonfinite_score :: "(fact_id \<times> fl) list \<Rightarrow> (fact_id \<times> fl) option" where
  "nonfinite_score scores = List.find (\<lambda>(i, v). \<not> fl_is_finite v) scores"

definition update_importance_scores_bulk :: "(fact_id \<times> fl) list \<Rightarrow> (db, unit) op" where
  \<comment> \<open>a later pair for the same id replaces an earlier one in the JSON object\<close>
  "update_importance_scores_bulk scores D =
     (if scores = [] then (Inr (), D)
      else (case nonfinite_score scores of
              Some (i, v) \<Rightarrow> (Inl (Conflict (PolicyParameter (Fmt
                ''importance score must be finite, got {} for fact {}'' [AFl v, AInt i]))), D)
            | None \<Rightarrow>
                (let m = map_of (rev scores) in
                 (Inr (), update_facts (\<lambda>f. m (f_id f) \<noteq> None)
                    (\<lambda>f. f\<lparr>f_importance_score := the (m (f_id f))\<rparr>) D))))"

definition merge_json :: "json \<Rightarrow> (string \<times> json) list \<Rightarrow> json" where
  "merge_json current patch =
     (case current of
        JObj kvs \<Rightarrow> JObj (fold (\<lambda>(k, v) m. AList.update k v m) patch kvs)
      | _ \<Rightarrow> JObj (fold (\<lambda>(k, v) m. AList.update k v m) patch []))"

definition merge_metadata :: "fact_id \<Rightarrow> json \<Rightarrow> (db, unit) op" where
  "merge_metadata i patch =
     (case patch of
        JObj kvs \<Rightarrow> update_or_not_found i (\<lambda>f. f_id f = i)
          (\<lambda>f. f\<lparr>f_metadata := merge_json (f_metadata f) kvs\<rparr>)
      | _ \<Rightarrow> op_fail (Internal (Lit ''merge_metadata patch must be a JSON object'')))"

definition dream_marker :: "(time \<Rightarrow> string) \<Rightarrow> nat \<Rightarrow> time \<Rightarrow> json" where
  \<comment> \<open>the first argument renders a timestamp as RFC 3339\<close>
  "dream_marker rfc3339 cycle_id now =
     JObj [(''dream_cycle'', JObj [(''cycled_at'', JStr (rfc3339 now)),
                                   (''cycle_id'', JNum (Fin (real cycle_id)))])]"

definition mark_dream_cycled ::
    "(time \<Rightarrow> string) \<Rightarrow> fact_id list \<Rightarrow> nat \<Rightarrow> time \<Rightarrow> (db, unit) op" where
  "mark_dream_cycled rfc3339 ids cycle_id now =
     op_each (\<lambda>i. merge_metadata i (dream_marker rfc3339 cycle_id now)) ids"

definition hard_delete_ids :: "fact_id list \<Rightarrow> (db, nat) op" where
  \<comment> \<open>an edge that still references a deleted fact fails the statement\<close>
  "hard_delete_ids ids D =
     (if ids = [] then (Inr 0, D)
      else if \<exists>e \<in> set (d_edges D). \<exists>i \<in> set ids. i \<in> fact_ids_of D \<and>
                (e_source_fact_id e = i \<or> e_target_fact_id e = i)
      then (Inl foreign_key_error, D)
      else (Inr (length (filter (\<lambda>f. f_id f \<in> set ids) (d_facts D))),
            D\<lparr>d_facts := filter (\<lambda>f. f_id f \<notin> set ids) (d_facts D)\<rparr>))"

subsection \<open>Edges\<close>

record new_edge =
  ne_source_fact_id :: fact_id
  ne_target_fact_id :: fact_id
  ne_relation_type :: relation_type
  ne_weight :: fl
  ne_t_created :: time
  ne_t_expired :: "time option"
  ne_scope_id :: int

definition is_active_edge :: "edge \<Rightarrow> bool" where
  "is_active_edge e \<longleftrightarrow> e_t_expired e = None"

definition row_to_edge :: "edge \<Rightarrow> edge" where
  \<comment> \<open>the relation is stored as text and parsed back\<close>
  "row_to_edge e = e\<lparr>e_relation_type := relation_from (as_str (e_relation_type e))\<rparr>"

definition edge_insert :: "new_edge \<Rightarrow> (db, int) op" where
  "edge_insert ne D =
     (if ne_weight ne = NaN then (Inl not_null_error, D)
      else if ne_source_fact_id ne \<notin> fact_ids_of D \<or> ne_target_fact_id ne \<notin> fact_ids_of D \<or>
              ne_scope_id ne \<notin> scope_ids_of D
      then (Inl foreign_key_error, D)
      else let i = d_edge_seq D + 1 in
        (Inr i, D\<lparr>d_edges := d_edges D @ [\<lparr>e_id = i, e_source_fact_id = ne_source_fact_id ne,
            e_target_fact_id = ne_target_fact_id ne, e_relation_type = ne_relation_type ne,
            e_weight = ne_weight ne, e_t_created = ne_t_created ne,
            e_t_expired = ne_t_expired ne, e_scope_id = ne_scope_id ne\<rparr>], d_edge_seq := i\<rparr>))"

definition edge_get :: "db \<Rightarrow> int \<Rightarrow> edge result" where
  "edge_get D i =
     (case List.find (\<lambda>e. e_id e = i) (d_edges D) of
        None \<Rightarrow> Inl (NotFound (Fmt ''edge {}'' [AInt i]))
      | Some e \<Rightarrow> Inr (row_to_edge e))"

definition update_edges :: "(edge \<Rightarrow> bool) \<Rightarrow> (edge \<Rightarrow> edge) \<Rightarrow> db \<Rightarrow> db" where
  "update_edges p g D = D\<lparr>d_edges := map (\<lambda>e. if p e then g e else e) (d_edges D)\<rparr>"

definition edge_expire :: "int \<Rightarrow> time \<Rightarrow> (db, unit) op" where
  "edge_expire i now D =
     (let p = (\<lambda>e. e_id e = i \<and> is_active_edge e) in
      if \<exists>e \<in> set (d_edges D). p e
      then (Inr (), update_edges p (\<lambda>e. e\<lparr>e_t_expired := Some now\<rparr>) D)
      else (Inl (NotFound (Fmt ''edge {}'' [AInt i])), D))"

definition edge_touches :: "fact_id \<Rightarrow> edge \<Rightarrow> bool" where
  "edge_touches i e \<longleftrightarrow> e_source_fact_id e = i \<or> e_target_fact_id e = i"

definition expire_by_fact :: "fact_id \<Rightarrow> time \<Rightarrow> (db, nat) op" where
  "expire_by_fact i now D =
     (let p = (\<lambda>e. edge_touches i e \<and> is_active_edge e) in
      (Inr (length (filter p (d_edges D))),
       update_edges p (\<lambda>e. e\<lparr>e_t_expired := Some now\<rparr>) D))"

definition list_all_edges :: "db \<Rightarrow> edge list" where
  "list_all_edges D = map row_to_edge (sort_key e_id (d_edges D))"

definition list_active_edges :: "db \<Rightarrow> edge list" where
  "list_active_edges D = map row_to_edge (filter is_active_edge (d_edges D))"

definition list_active_by_source :: "db \<Rightarrow> fact_id \<Rightarrow> edge list" where
  "list_active_by_source D i =
     map row_to_edge (filter (\<lambda>e. e_source_fact_id e = i \<and> is_active_edge e) (d_edges D))"

definition list_active_by_target :: "db \<Rightarrow> fact_id \<Rightarrow> edge list" where
  "list_active_by_target D i =
     map row_to_edge (filter (\<lambda>e. e_target_fact_id e = i \<and> is_active_edge e) (d_edges D))"

definition exists_active :: "db \<Rightarrow> fact_id \<Rightarrow> fact_id \<Rightarrow> string \<Rightarrow> bool" where
  "exists_active D source target relation \<longleftrightarrow>
     0 < length (filter (\<lambda>e. e_source_fact_id e = source \<and> e_target_fact_id e = target \<and>
           as_str (e_relation_type e) = relation \<and> is_active_edge e) (d_edges D))"

definition list_active_pairs_by_facts ::
    "db \<Rightarrow> fact_id list \<Rightarrow> string \<Rightarrow> (fact_id \<times> fact_id) set" where
  "list_active_pairs_by_facts D ids relation =
     (if ids = [] then {}
      else (\<lambda>e. (e_source_fact_id e, e_target_fact_id e)) ` set (filter (\<lambda>e.
        e_source_fact_id e \<in> set ids \<and> e_target_fact_id e \<in> set ids \<and>
        as_str (e_relation_type e) = relation \<and> is_active_edge e) (d_edges D)))"

definition list_internal_by_facts :: "db \<Rightarrow> fact_id list \<Rightarrow> edge list" where
  "list_internal_by_facts D ids =
     (if ids = [] then []
      else map row_to_edge (sort_key e_id (filter (\<lambda>e.
        e_source_fact_id e \<in> set ids \<and> e_target_fact_id e \<in> set ids) (d_edges D))))"

definition hard_delete_by_facts :: "fact_id list \<Rightarrow> (db, nat) op" where
  "hard_delete_by_facts ids D =
     (let p = (\<lambda>e. e_source_fact_id e \<in> set ids \<and> e_target_fact_id e \<in> set ids) in
      if ids = [] then (Inr 0, D)
      else (Inr (length (filter p (d_edges D))), D\<lparr>d_edges := filter (\<lambda>e. \<not> p e) (d_edges D)\<rparr>))"

definition hard_delete_incident_to_facts :: "fact_id list \<Rightarrow> (db, nat) op" where
  "hard_delete_incident_to_facts ids D =
     (let p = (\<lambda>e. e_source_fact_id e \<in> set ids \<or> e_target_fact_id e \<in> set ids) in
      if ids = [] then (Inr 0, D)
      else (Inr (length (filter p (d_edges D))), D\<lparr>d_edges := filter (\<lambda>e. \<not> p e) (d_edges D)\<rparr>))"

subsection \<open>The invariant of the tables\<close>

definition fact_row_ok :: "nat \<Rightarrow> db \<Rightarrow> fact \<Rightarrow> bool" where
  "fact_row_ok edim D f \<longleftrightarrow>
     0 < f_id f \<and> f_id f \<le> d_fact_seq D \<and> length (f_embedding f) = edim \<and>
     f_base_importance f \<noteq> NaN \<and> f_importance_score f \<noteq> NaN \<and>
     f_scope_id f \<in> scope_ids_of D \<and>
     (\<forall>ev. f_source_event_id f = Some ev \<longrightarrow> ev \<in> fst ` set (d_events D))"

definition edge_row_ok :: "db \<Rightarrow> edge \<Rightarrow> bool" where
  "edge_row_ok D e \<longleftrightarrow>
     0 < e_id e \<and> e_id e \<le> d_edge_seq D \<and> e_weight e \<noteq> NaN \<and>
     e_source_fact_id e \<in> fact_ids_of D \<and> e_target_fact_id e \<in> fact_ids_of D \<and>
     e_scope_id e \<in> scope_ids_of D"

definition db_inv :: "nat \<Rightarrow> db \<Rightarrow> bool" where
  "db_inv edim D \<longleftrightarrow>
     scopes_inv (d_scopes D) \<and> 0 \<le> d_fact_seq D \<and> 0 \<le> d_edge_seq D \<and>
     sorted_wrt (<) (map f_id (d_facts D)) \<and> list_all (fact_row_ok edim D) (d_facts D) \<and>
     sorted_wrt (<) (map e_id (d_edges D)) \<and> list_all (edge_row_ok D) (d_edges D)"

definition row :: "db \<Rightarrow> fact_id \<Rightarrow> fact option" where
  "row D i = List.find (\<lambda>f. f_id f = i) (d_facts D)"

lemma db_invD:
  assumes "db_inv edim D"
  shows "scopes_inv (d_scopes D)" "sorted_wrt (<) (map f_id (d_facts D))"
    "sorted_wrt (<) (map e_id (d_edges D))"
    "f \<in> set (d_facts D) \<Longrightarrow> fact_row_ok edim D f"
    "e \<in> set (d_edges D) \<Longrightarrow> edge_row_ok D e"
  using assms by (auto simp: db_inv_def list_all_iff)

lemma db_inv_distinct:
  assumes "db_inv edim D"
  shows "distinct (map f_id (d_facts D))" "distinct (map e_id (d_edges D))"
  using db_invD(2,3) [OF assms] by (auto simp: strict_sorted_iff)

lemma row_in: "row D i = Some f \<Longrightarrow> f \<in> set (d_facts D) \<and> f_id f = i"
  unfolding row_def by (rule find_eq_Some_in)

lemma row_None: "row D i = None \<longleftrightarrow> i \<notin> fact_ids_of D"
  by (auto simp: row_def find_None_iff fact_ids_of_def)

lemma row_eq:
  assumes "db_inv edim D" "f \<in> set (d_facts D)"
  shows "row D (f_id f) = Some f"
  unfolding row_def
  by (rule find_unique) (use assms db_inv_distinct(1) [OF assms(1)] in \<open>auto simp: distinct_map inj_on_def\<close>)

lemma row_iff:
  assumes "db_inv edim D"
  shows "row D i = Some f \<longleftrightarrow> f \<in> set (d_facts D) \<and> f_id f = i"
  using row_in row_eq [OF assms] by blast

lemma find_map_id:
  "(\<And>f. f \<in> set xs \<Longrightarrow> f_id (h f) = f_id f) \<Longrightarrow>
   List.find (\<lambda>f. f_id f = i) (map h xs) = map_option h (List.find (\<lambda>f. f_id f = i) xs)"
  by (induction xs) auto

lemma update_facts_simps [simp]:
  "d_scopes (update_facts p g D) = d_scopes D" "d_events (update_facts p g D) = d_events D"
  "d_event_seq (update_facts p g D) = d_event_seq D"
  "d_fact_seq (update_facts p g D) = d_fact_seq D" "d_edges (update_facts p g D) = d_edges D"
  "d_edge_seq (update_facts p g D) = d_edge_seq D" "d_identity (update_facts p g D) = d_identity D"
  "d_facts (update_facts p g D) = map (\<lambda>f. if p f then g f else f) (d_facts D)"
  by (simp_all add: update_facts_def)

lemma update_edges_simps [simp]:
  "d_scopes (update_edges p h D) = d_scopes D" "d_events (update_edges p h D) = d_events D"
  "d_event_seq (update_edges p h D) = d_event_seq D"
  "d_fact_seq (update_edges p h D) = d_fact_seq D" "d_facts (update_edges p h D) = d_facts D"
  "d_edge_seq (update_edges p h D) = d_edge_seq D" "d_identity (update_edges p h D) = d_identity D"
  "d_edges (update_edges p h D) = map (\<lambda>e. if p e then h e else e) (d_edges D)"
  by (simp_all add: update_edges_def)

lemma scope_ids_of_cong: "d_scopes D' = d_scopes D \<Longrightarrow> scope_ids_of D' = scope_ids_of D"
  by (simp add: scope_ids_of_def)

text \<open>What an \<open>UPDATE\<close> may do to a row without breaking a constraint.\<close>

definition row_update_ok :: "(fact \<Rightarrow> fact) \<Rightarrow> fact \<Rightarrow> bool" where
  "row_update_ok g f \<longleftrightarrow> f_id (g f) = f_id f \<and> f_scope_id (g f) = f_scope_id f \<and>
     f_source_event_id (g f) = f_source_event_id f \<and> f_embedding (g f) = f_embedding f \<and>
     (f_base_importance f \<noteq> NaN \<longrightarrow> f_base_importance (g f) \<noteq> NaN) \<and>
     (f_importance_score f \<noteq> NaN \<longrightarrow> f_importance_score (g f) \<noteq> NaN)"

lemma row_update_facts:
  assumes "\<And>f. f \<in> set (d_facts D) \<Longrightarrow> p f \<Longrightarrow> f_id (g f) = f_id f"
  shows "row (update_facts p g D) i = map_option (\<lambda>f. if p f then g f else f) (row D i)"
  using assms by (simp add: row_def find_map_id)

lemma update_facts_ids:
  assumes "\<And>f. f \<in> set (d_facts D) \<Longrightarrow> p f \<Longrightarrow> f_id (g f) = f_id f"
  shows "map f_id (d_facts (update_facts p g D)) = map f_id (d_facts D)"
    and "fact_ids_of (update_facts p g D) = fact_ids_of D"
proof -
  show "map f_id (d_facts (update_facts p g D)) = map f_id (d_facts D)"
    using assms by simp
  then have "set (map f_id (d_facts (update_facts p g D))) = set (map f_id (d_facts D))" by simp
  then show "fact_ids_of (update_facts p g D) = fact_ids_of D"
    by (simp only: fact_ids_of_def list.set_map)
qed

lemma update_facts_inv:
  assumes inv: "db_inv edim D"
    and g: "\<And>f. f \<in> set (d_facts D) \<Longrightarrow> p f \<Longrightarrow> row_update_ok g f"
  shows "db_inv edim (update_facts p g D)"
proof -
  have gi: "\<And>f. f \<in> set (d_facts D) \<Longrightarrow> p f \<Longrightarrow> f_id (g f) = f_id f"
    using g by (simp add: row_update_ok_def)
  have ids: "map f_id (d_facts (update_facts p g D)) = map f_id (d_facts D)"
    "fact_ids_of (update_facts p g D) = fact_ids_of D"
    by (rule update_facts_ids, erule (1) gi)+
  have "sorted_wrt (<) (map f_id (d_facts (update_facts p g D)))"
    unfolding ids(1) by (rule db_invD(2) [OF inv])
  moreover
  have "list_all (fact_row_ok edim (update_facts p g D)) (d_facts (update_facts p g D))"
    using db_invD(4) [OF inv] g
    by (fastforce simp: list_all_iff fact_row_ok_def row_update_ok_def scope_ids_of_def)
  moreover have "list_all (edge_row_ok (update_facts p g D)) (d_edges D)"
    using db_invD(5) [OF inv] ids(2) by (auto simp: list_all_iff edge_row_ok_def scope_ids_of_def)
  ultimately show ?thesis
    using inv by (simp add: db_inv_def)
qed

lemma update_edges_inv:
  assumes inv: "db_inv edim D"
    and h: "\<And>e. e \<in> set (d_edges D) \<Longrightarrow> p e \<Longrightarrow> e_id (h e) = e_id e \<and>
      e_source_fact_id (h e) = e_source_fact_id e \<and> e_target_fact_id (h e) = e_target_fact_id e \<and>
      e_scope_id (h e) = e_scope_id e \<and> e_weight (h e) = e_weight e"
  shows "db_inv edim (update_edges p h D)"
proof -
  have ids: "map e_id (d_edges (update_edges p h D)) = map e_id (d_edges D)"
    using h by simp
  have "sorted_wrt (<) (map e_id (d_edges (update_edges p h D)))"
    unfolding ids by (rule db_invD(3) [OF inv])
  moreover have "list_all (fact_row_ok edim (update_edges p h D)) (d_facts D)"
    using db_invD(4) [OF inv] by (auto simp: list_all_iff fact_row_ok_def scope_ids_of_def)
  moreover have "list_all (edge_row_ok (update_edges p h D)) (d_edges (update_edges p h D))"
    using db_invD(5) [OF inv] h
    by (auto simp: list_all_iff edge_row_ok_def scope_ids_of_def fact_ids_of_def)
  ultimately show ?thesis using inv by (simp add: db_inv_def)
qed

subsection \<open>Every write keeps the invariant\<close>

lemma keeps_update_or_not_found:
  assumes "\<And>f. p f \<Longrightarrow> row_update_ok g f"
  shows "keeps (db_inv edim) (update_or_not_found i p g)"
  by (rule keepsI) (use assms in \<open>auto simp: update_or_not_found_def intro!: update_facts_inv split: if_splits\<close>)

lemma keeps_fact_insert [keeps_intros]: "keeps (db_inv edim) (fact_insert hash edim nf)"
proof (rule keepsI)
  fix D r D' assume inv: "db_inv edim D" and r: "fact_insert hash edim nf D = (r, D')"
  show "db_inv edim D'"
  proof (cases "length (nf_embedding nf) = edim \<and> fact_constraint D nf = None")
    case False
    with r inv show ?thesis by (auto simp: fact_insert_def split: if_splits option.splits)
  next
    case True
    let ?f = "new_fact_row hash (d_fact_seq D + 1) nf"
    from True r have D': "D' = D\<lparr>d_facts := d_facts D @ [?f], d_fact_seq := d_fact_seq D + 1\<rparr>"
      by (simp add: fact_insert_def Let_def)
    have below: "f \<in> set (d_facts D) \<Longrightarrow> f_id f < f_id ?f" for f
      using db_invD(4) [OF inv] by (fastforce simp: fact_row_ok_def new_fact_row_def)
    have "fact_row_ok edim D' ?f"
      using True inv by (auto simp: fact_row_ok_def new_fact_row_def D' fact_constraint_def
          scope_ids_of_def db_inv_def split: if_splits option.splits)
    moreover have "f \<in> set (d_facts D) \<Longrightarrow> fact_row_ok edim D' f" for f
      using db_invD(4) [OF inv] by (fastforce simp: fact_row_ok_def D' scope_ids_of_def)
    moreover have "e \<in> set (d_edges D) \<Longrightarrow> edge_row_ok D' e" for e
      using db_invD(5) [OF inv] by (fastforce simp: edge_row_ok_def D' scope_ids_of_def fact_ids_of_def)
    ultimately show ?thesis
      using inv below by (auto simp: db_inv_def D' sorted_wrt_append list_all_iff)
  qed
qed

lemma keeps_edge_insert [keeps_intros]: "keeps (db_inv edim) (edge_insert ne)"
proof (rule keepsI)
  fix D r D' assume inv: "db_inv edim D" and r: "edge_insert ne D = (r, D')"
  show "db_inv edim D'"
  proof (cases r)
    case (Inl a)
    with r inv show ?thesis by (auto simp: edge_insert_def Let_def split: if_splits)
  next
    case (Inr i)
    then obtain e where D': "D' = D\<lparr>d_edges := d_edges D @ [e], d_edge_seq := d_edge_seq D + 1\<rparr>"
      "e_id e = d_edge_seq D + 1" "edge_row_ok D' e"
      using r inv by (auto simp: edge_insert_def Let_def edge_row_ok_def fact_ids_of_def
          scope_ids_of_def db_inv_def split: if_splits)
    have "x \<in> set (d_edges D) \<Longrightarrow> e_id x < e_id e" for x
      using db_invD(5) [OF inv] D'(2) by (fastforce simp: edge_row_ok_def)
    moreover have "x \<in> set (d_edges D) \<Longrightarrow> edge_row_ok D' x" for x
      using db_invD(5) [OF inv]
      by (fastforce simp: edge_row_ok_def D'(1) scope_ids_of_def fact_ids_of_def)
    moreover have "x \<in> set (d_facts D) \<Longrightarrow> fact_row_ok edim D' x" for x
      using db_invD(4) [OF inv] by (fastforce simp: fact_row_ok_def D'(1) scope_ids_of_def)
    ultimately show ?thesis
      using inv D' by (auto simp: db_inv_def sorted_wrt_append list_all_iff)
  qed
qed

lemma keeps_updates [keeps_intros]:
  "keeps (db_inv edim) (fact_expire i now)" "keeps (db_inv edim) (expire_and_invalidate i now)"
  "keeps (db_inv edim) (increment_access i now)" "keeps (db_inv edim) (set_pinned i pinned)"
  unfolding fact_expire_def expire_and_invalidate_def increment_access_def set_pinned_def
  by (rule keeps_update_or_not_found; simp add: row_update_ok_def)+

lemma keeps_merge_metadata [keeps_intros]: "keeps (db_inv edim) (merge_metadata i patch)"
  unfolding merge_metadata_def
  by (cases patch) (auto intro!: keeps_update_or_not_found keeps_fail simp: row_update_ok_def)

lemma keeps_mark_dream_cycled [keeps_intros]:
  "keeps (db_inv edim) (mark_dream_cycled rfc3339 ids cycle_id now)"
  unfolding mark_dream_cycled_def by (intro keeps_intros)

lemma keeps_expire_by_fact [keeps_intros]: "keeps (db_inv edim) (expire_by_fact i now)"
  by (rule keepsI) (auto simp: expire_by_fact_def Let_def intro!: update_edges_inv)

lemma keeps_edge_expire [keeps_intros]: "keeps (db_inv edim) (edge_expire i now)"
  by (rule keepsI) (auto simp: edge_expire_def Let_def intro!: update_edges_inv split: if_splits)

lemma keeps_update_scores [keeps_intros]:
  "keeps (db_inv edim) (update_importance_score i v)"
  "keeps (db_inv edim) (update_base_importance i v)"
proof -
  have "i \<in> fact_ids_of D" if "f \<in> set (d_facts D)" "f_id f = i" for f D
    using that by (auto simp: fact_ids_of_def)
  then show "keeps (db_inv edim) (update_importance_score i v)"
    "keeps (db_inv edim) (update_base_importance i v)"
    by (intro keepsI; fastforce simp: update_importance_score_def update_base_importance_def
        update_or_not_found_def row_update_ok_def intro!: update_facts_inv split: if_splits)+
qed

lemma nonfinite_score_None:
  "nonfinite_score scores = None \<longleftrightarrow> (\<forall>(i, v) \<in> set scores. fl_is_finite v)"
  by (auto simp: nonfinite_score_def find_None_iff)

lemma keeps_bulk [keeps_intros]: "keeps (db_inv edim) (update_importance_scores_bulk scores)"
proof (rule keepsI)
  fix D r D' assume inv: "db_inv edim D" and r: "update_importance_scores_bulk scores D = (r, D')"
  show "db_inv edim D'"
  proof (cases "scores = [] \<or> nonfinite_score scores \<noteq> None")
    case True
    with r inv show ?thesis
      by (auto simp: update_importance_scores_bulk_def split: if_splits option.splits)
  next
    case False
    have "v \<noteq> NaN" if "map_of (rev scores) i = Some v" for i v
      using False map_of_SomeD [OF that] by (auto simp: nonfinite_score_None)
    moreover from False have "nonfinite_score scores = None" "scores \<noteq> []"
      by (cases "nonfinite_score scores"; auto)+
    ultimately show ?thesis
      using r inv by (auto simp: update_importance_scores_bulk_def Let_def row_update_ok_def
          intro!: update_facts_inv)
  qed
qed

lemma keeps_stamp_surfaced [keeps_intros]: "keeps (db_inv edim) (stamp_surfaced ids now)"
  by (rule keepsI)
    (auto simp: stamp_surfaced_def Let_def row_update_ok_def intro!: update_facts_inv split: if_splits)

lemma keeps_insert_or_reinforce [keeps_intros]:
  "keeps (db_inv edim) (insert_or_reinforce hash edim nf)"
proof (rule keepsI)
  fix D r D' assume inv: "db_inv edim D" and r: "insert_or_reinforce hash edim nf D = (r, D')"
  show "db_inv edim D'"
  proof (cases "find_duplicate hash D nf")
    case None
    have "keeps (db_inv edim) (op_bind (fact_insert hash edim nf) (\<lambda>i. op_return (i, False)))"
      by (intro keeps_intros)
    with None r inv show ?thesis
      by (auto simp: insert_or_reinforce_def dest: keepsD split: if_splits)
  next
    case (Some f)
    show ?thesis
    proof (cases "length (nf_embedding nf) = edim \<and> f_base_importance (reinforced nf f) \<noteq> NaN")
      case False
      with Some r inv show ?thesis by (auto simp: insert_or_reinforce_def split: if_splits)
    next
      case True
      then have "nf_base_importance nf \<noteq> NaN" by (auto simp: reinforced_def sql_max_def split: if_splits)
      then have "row_update_ok (reinforced nf) g" for g
        by (simp add: row_update_ok_def reinforced_def sql_max_def)
      with Some r inv True show ?thesis
        by (auto simp: insert_or_reinforce_def intro!: update_facts_inv)
    qed
  qed
qed

lemma delete_edges_inv:
  assumes "db_inv edim D"
  shows "db_inv edim (D\<lparr>d_edges := filter p (d_edges D)\<rparr>)"
  using assms sorted_wrt_filter [of "\<lambda>a b. e_id a < e_id b" "d_edges D" p]
  by (auto simp: db_inv_def list_all_iff fact_row_ok_def edge_row_ok_def scope_ids_of_def
      fact_ids_of_def sorted_wrt_map)

lemma keeps_hard_delete_edges [keeps_intros]:
  "keeps (db_inv edim) (hard_delete_by_facts ids)"
  "keeps (db_inv edim) (hard_delete_incident_to_facts ids)"
  by (rule keepsI; auto simp: hard_delete_by_facts_def hard_delete_incident_to_facts_def Let_def
      intro!: delete_edges_inv split: if_splits)+

lemma keeps_hard_delete_ids [keeps_intros]: "keeps (db_inv edim) (hard_delete_ids ids)"
proof (rule keepsI)
  fix D r D' assume inv: "db_inv edim D" and r: "hard_delete_ids ids D = (r, D')"
  show "db_inv edim D'"
  proof (cases r)
    case (Inl e)
    with r inv show ?thesis by (auto simp: hard_delete_ids_def split: if_splits)
  next
    case (Inr n)
    show ?thesis
    proof (cases "ids = []")
      case True
      with r inv show ?thesis by (simp add: hard_delete_ids_def)
    next
      case False
      with Inr r have D': "D' = D\<lparr>d_facts := filter (\<lambda>f. f_id f \<notin> set ids) (d_facts D)\<rparr>"
        and free: "\<forall>e \<in> set (d_edges D). \<forall>i \<in> set ids. i \<in> fact_ids_of D \<longrightarrow> \<not> edge_touches i e"
        by (auto simp: hard_delete_ids_def edge_touches_def split: if_splits)
      have "edge_row_ok D' e" if "e \<in> set (d_edges D)" for e
        using db_invD(5) [OF inv that] free that
        by (auto simp: edge_row_ok_def edge_touches_def D' fact_ids_of_def scope_ids_of_def)
      moreover have "fact_row_ok edim D' f" if "f \<in> set (d_facts D)" for f
        using db_invD(4) [OF inv that] by (simp add: fact_row_ok_def D' scope_ids_of_def)
      moreover have "sorted_wrt (<) (map f_id (d_facts D'))"
        using db_invD(2) [OF inv] sorted_wrt_filter [of "\<lambda>a b. f_id a < f_id b" "d_facts D"]
        by (simp add: D' sorted_wrt_map)
      ultimately show ?thesis using inv by (simp add: db_inv_def D' list_all_iff)
    qed
  qed
qed

subsection \<open>What the operations do\<close>

lemma map_res_Inr_id: "(\<And>x. x \<in> set xs \<Longrightarrow> f x = Inr x) \<Longrightarrow> map_res f xs = Inr xs"
  by (induction xs) auto

lemma select_facts_ok:
  assumes "db_inv edim D" "set fs \<subseteq> set (d_facts D)"
  shows "select_facts edim fs = Inr fs"
  unfolding select_facts_def
  by (rule map_res_Inr_id) (use assms db_invD(4) [OF assms(1)] in \<open>auto simp: row_to_fact_def fact_row_ok_def\<close>)

lemma fact_get_ok:
  assumes "db_inv edim D"
  shows "fact_get edim D i = (case row D i of None \<Rightarrow> Inl (fact_not_found i) | Some f \<Rightarrow> Inr f)"
proof (cases "row D i")
  case (Some f)
  with row_in [OF Some] db_invD(4) [OF assms] show ?thesis
    by (auto simp: fact_get_def row_def row_to_fact_def fact_row_ok_def)
qed (simp add: fact_get_def row_def)

lemma update_or_not_found_row:
  assumes "update_or_not_found i p g D = (Inr u, D')"
    and "\<And>f. p f \<Longrightarrow> f_id f = i \<and> f_id (g f) = i"
  shows "\<exists>f. f \<in> set (d_facts D) \<and> p f"
    and "D' = update_facts p g D"
    and "row D' j = map_option (\<lambda>f. if p f then g f else f) (row D j)"
proof -
  show "\<exists>f. f \<in> set (d_facts D) \<and> p f" and D': "D' = update_facts p g D"
    using assms(1) by (auto simp: update_or_not_found_def split: if_splits)
  show "row D' j = map_option (\<lambda>f. if p f then g f else f) (row D j)"
    unfolding D' by (rule row_update_facts) (simp add: assms(2))
qed

lemma fact_insert_ok:
  assumes inv: "db_inv edim D" and r: "fact_insert hash edim nf D = (Inr i, D')"
  shows "i \<notin> fact_ids_of D" "D' = D\<lparr>d_facts := d_facts D @ [new_fact_row hash i nf], d_fact_seq := i\<rparr>"
    "row D' j = (if j = i then Some (new_fact_row hash i nf) else row D j)"
proof -
  from r have i: "i = d_fact_seq D + 1"
    and D': "D' = D\<lparr>d_facts := d_facts D @ [new_fact_row hash i nf], d_fact_seq := i\<rparr>"
    by (auto simp: fact_insert_def Let_def split: if_splits option.splits)
  show fresh: "i \<notin> fact_ids_of D"
    using db_invD(4) [OF inv] by (force simp: fact_ids_of_def fact_row_ok_def i)
  show "D' = D\<lparr>d_facts := d_facts D @ [new_fact_row hash i nf], d_fact_seq := i\<rparr>" by (rule D')
  show "row D' j = (if j = i then Some (new_fact_row hash i nf) else row D j)"
    using fresh [folded row_None]
    by (auto simp: D' row_def find_append new_fact_row_def split: option.split)
qed

lemma fact_insert_iff:
  "(\<exists>i D'. fact_insert hash edim nf D = (Inr i, D')) \<longleftrightarrow>
     length (nf_embedding nf) = edim \<and> fact_constraint D nf = None"
  by (auto simp: fact_insert_def Let_def split: option.splits)

lemma fact_expire_ok:
  assumes "fact_expire i now D = (r, D')"
  shows "r = (if is_active D i then Inr () else Inl (fact_not_found i))"
    and "D' = (if is_active D i
       then update_facts (\<lambda>f. f_id f = i \<and> is_active_row f) (\<lambda>f. f\<lparr>f_t_expired := Some now\<rparr>) D else D)"
    and "\<not> is_active D' i" "j \<noteq> i \<Longrightarrow> is_active D' j = is_active D j"
  using assms
  by (auto simp: fact_expire_def update_or_not_found_def is_active_def is_active_row_def
      split: if_splits)

lemma expire_and_invalidate_ok:
  assumes "expire_and_invalidate i now D = (r, D')"
  shows "r = (if is_active D i then Inr () else Inl (fact_not_found i))"
    and "D' = (if is_active D i
       then update_facts (\<lambda>f. f_id f = i \<and> is_active_row f)
         (\<lambda>f. f\<lparr>f_t_expired := Some now, f_t_invalid := Some now\<rparr>) D else D)"
    and "\<not> is_active D' i" "j \<noteq> i \<Longrightarrow> is_active D' j = is_active D j"
  using assms
  by (auto simp: expire_and_invalidate_def update_or_not_found_def is_active_def is_active_row_def
      split: if_splits)

lemma list_active_ok:
  assumes inv: "db_inv edim D"
  shows "list_active edim D None = Inr (filter is_active_row (d_facts D))"
    and "list_active edim D (Some n) = Inr (sql_limit n (filter is_active_row (d_facts D)))"
proof -
  have "sorted (map f_id (filter is_active_row (d_facts D)))"
    using db_invD(2) [OF inv] by (simp add: sorted_filter strict_sorted_imp_sorted)
  then have s: "sort_key f_id (filter is_active_row (d_facts D)) = filter is_active_row (d_facts D)"
    by (rule sort_key_id_if_sorted)
  show "list_active edim D None = Inr (filter is_active_row (d_facts D))"
    by (simp add: list_active_def s) (rule select_facts_ok [OF inv], auto)
  show "list_active edim D (Some n) = Inr (sql_limit n (filter is_active_row (d_facts D)))"
    by (simp add: list_active_def s)
      (rule select_facts_ok [OF inv], auto simp: sql_limit_def dest: in_set_takeD)
qed

lemma list_due_ok:
  assumes inv: "db_inv edim D" and r: "list_due edim D now [] [] None = Inr fs"
  shows "set fs = {f \<in> set (d_facts D). is_active_row f \<and> is_temporally_due f now}"
    and "sorted (map (\<lambda>f. the (f_t_valid f)) fs)"
proof -
  let ?rows = "sort_key (\<lambda>f. the (f_t_valid f)) (filter (\<lambda>f. is_active_row f \<and>
            (case f_t_valid f of None \<Rightarrow> False | Some tv \<Rightarrow> tv \<le> now) \<and>
            (case f_t_invalid f of None \<Rightarrow> True | Some ti \<Rightarrow> now < ti)) (d_facts D))"
  have "select_facts edim ?rows = Inr ?rows" by (rule select_facts_ok [OF inv]) auto
  with r have fs: "fs = ?rows" by (simp add: list_due_def in_scopes_def)
  show "set fs = {f \<in> set (d_facts D). is_active_row f \<and> is_temporally_due f now}"
    by (auto simp: fs is_temporally_due_def)
  show "sorted (map (\<lambda>f. the (f_t_valid f)) fs)" by (simp add: fs)
qed

text \<open>The bulk update of scores is the loop of single updates it replaced.\<close>

lemma score_update_step:
  assumes "i \<in> fact_ids_of D" "fl_is_finite v"
  shows "update_importance_score i v D =
    (Inr (), update_facts (\<lambda>f. f_id f = i) (\<lambda>f. f\<lparr>f_importance_score := v\<rparr>) D)"
  using assms by (auto simp: update_importance_score_def update_or_not_found_def fact_ids_of_def)

lemma score_loop:
  assumes "\<forall>(i, v) \<in> set scores. fl_is_finite v \<and> i \<in> fact_ids_of D"
  shows "op_each (\<lambda>(i, v). update_importance_score i v) scores D =
    (Inr (), update_facts (\<lambda>f. map_of (rev scores) (f_id f) \<noteq> None)
       (\<lambda>f. f\<lparr>f_importance_score := the (map_of (rev scores) (f_id f))\<rparr>) D)"
  using assms
proof (induction scores arbitrary: D)
  case Nil
  then show ?case by (simp add: update_facts_def)
next
  case (Cons s scores)
  obtain i v where s: "s = (i, v)" by (cases s)
  let ?D = "update_facts (\<lambda>f. f_id f = i) (\<lambda>f. f\<lparr>f_importance_score := v\<rparr>) D"
  have step: "update_importance_score i v D = (Inr (), ?D)"
    using Cons.prems by (intro score_update_step) (auto simp: s)
  have ids: "fact_ids_of ?D = fact_ids_of D" by (rule update_facts_ids) simp
  have "op_each (\<lambda>(i, v). update_importance_score i v) (s # scores) D =
      op_each (\<lambda>(i, v). update_importance_score i v) scores ?D"
    using step by (simp add: s op_bind_def)
  also have "\<dots> = (Inr (), update_facts (\<lambda>f. map_of (rev scores) (f_id f) \<noteq> None)
       (\<lambda>f. f\<lparr>f_importance_score := the (map_of (rev scores) (f_id f))\<rparr>) ?D)"
    using Cons.prems by (intro Cons.IH) (auto simp: ids)
  also have "update_facts (\<lambda>f. map_of (rev scores) (f_id f) \<noteq> None)
       (\<lambda>f. f\<lparr>f_importance_score := the (map_of (rev scores) (f_id f))\<rparr>) ?D =
     update_facts (\<lambda>f. map_of (rev (s # scores)) (f_id f) \<noteq> None)
       (\<lambda>f. f\<lparr>f_importance_score := the (map_of (rev (s # scores)) (f_id f))\<rparr>) D"
    by (auto simp: update_facts_def s map_add_def split: option.splits)
  finally show ?case .
qed

lemma bulk_is_loop:
  assumes "\<forall>(i, v) \<in> set scores. fl_is_finite v \<and> i \<in> fact_ids_of D"
  shows "update_importance_scores_bulk scores D =
    op_each (\<lambda>(i, v). update_importance_score i v) scores D"
proof -
  have "nonfinite_score scores = None" using assms by (auto simp: nonfinite_score_None)
  then show ?thesis
    unfolding score_loop [OF assms]
    by (simp add: update_importance_scores_bulk_def Let_def update_facts_def)
qed

text \<open>Deduplication: at most one active row per content and scope.\<close>

definition dedup_inv :: "(string \<Rightarrow> string) \<Rightarrow> db \<Rightarrow> bool" where
  "dedup_inv hash D \<longleftrightarrow>
     (\<forall>f \<in> set (d_facts D). f_content_hash f = content_hash hash (f_content f)) \<and>
     (\<forall>f \<in> set (d_facts D). \<forall>g \<in> set (d_facts D). is_active_row f \<longrightarrow> is_active_row g \<longrightarrow>
        f_content f = f_content g \<longrightarrow> f_scope_id f = f_scope_id g \<longrightarrow> f_id f = f_id g)"

definition duplicate_of :: "new_fact \<Rightarrow> fact \<Rightarrow> bool" where
  "duplicate_of nf f \<longleftrightarrow> f_content f = nf_content nf \<and> f_scope_id f = nf_scope_id nf \<and> is_active_row f"

lemma find_duplicate_Some:
  "find_duplicate hash D nf = Some f \<Longrightarrow> f \<in> set (d_facts D) \<and> duplicate_of nf f"
  unfolding find_duplicate_def duplicate_of_def by (drule find_eq_Some_in) simp

lemma find_duplicate_None:
  assumes "dedup_inv hash D"
  shows "find_duplicate hash D nf = None \<longleftrightarrow> (\<forall>f \<in> set (d_facts D). \<not> duplicate_of nf f)"
  using assms by (auto simp: find_duplicate_def find_None_iff dedup_inv_def duplicate_of_def)

lemma reinforced_simps [simp]:
  "f_id (reinforced nf f) = f_id f" "f_content (reinforced nf f) = f_content f"
  "f_content_hash (reinforced nf f) = f_content_hash f"
  "f_scope_id (reinforced nf f) = f_scope_id f" "f_t_expired (reinforced nf f) = f_t_expired f"
  "is_active_row (reinforced nf f) = is_active_row f"
  by (simp_all add: reinforced_def is_active_row_def)

lemma dedup_inv_update:
  assumes dd: "dedup_inv hash D"
    and g: "\<And>f. f_id (g f) = f_id f \<and> f_content (g f) = f_content f \<and> f_scope_id (g f) = f_scope_id f \<and>
      f_content_hash (g f) = f_content_hash f \<and> is_active_row (g f) = is_active_row f"
  shows "dedup_inv hash (update_facts p g D)"
proof -
  let ?h = "\<lambda>f. if p f then g f else f"
  have h: "f_id (?h f) = f_id f" "f_content (?h f) = f_content f" "f_scope_id (?h f) = f_scope_id f"
    "f_content_hash (?h f) = f_content_hash f" "is_active_row (?h f) = is_active_row f" for f
    using g by simp_all
  show ?thesis
    using dd unfolding dedup_inv_def update_facts_simps set_map ball_simps h .
qed

lemma insert_or_reinforce_ok:
  assumes inv: "db_inv edim D" and dd: "dedup_inv hash D"
    and r: "insert_or_reinforce hash edim nf D = (Inr (i, again), D')" and act: "nf_t_expired nf = None"
  shows "dedup_inv hash D'"
    and "again \<longleftrightarrow> (\<exists>f \<in> set (d_facts D). duplicate_of nf f)"
    and "\<exists>f. row D' i = Some f \<and> duplicate_of nf f"
    and "again \<Longrightarrow> map f_id (d_facts D') = map f_id (d_facts D)"
    and "j \<noteq> i \<Longrightarrow> row D' j = row D j"
proof -
  have all: "dedup_inv hash D' \<and> (again \<longleftrightarrow> (\<exists>f \<in> set (d_facts D). duplicate_of nf f)) \<and>
    (\<exists>f. row D' i = Some f \<and> duplicate_of nf f) \<and>
    (again \<longrightarrow> map f_id (d_facts D') = map f_id (d_facts D)) \<and> (j \<noteq> i \<longrightarrow> row D' j = row D j)"
  proof (cases "find_duplicate hash D nf")
    case None
    then have ins: "fact_insert hash edim nf D = (Inr i, D')" and again: "\<not> again"
      using r by (auto simp: insert_or_reinforce_def op_bind_Inr split: if_splits)
    note fi = fact_insert_ok [OF inv ins]
    have nodup: "\<forall>f \<in> set (d_facts D). \<not> duplicate_of nf f"
      using None by (simp add: find_duplicate_None [OF dd])
    have new: "duplicate_of nf (new_fact_row hash i nf)"
      using act by (simp add: duplicate_of_def new_fact_row_def is_active_row_def)
    have c: "f_content (new_fact_row hash i nf) = nf_content nf"
      "f_scope_id (new_fact_row hash i nf) = nf_scope_id nf"
      "f_content_hash (new_fact_row hash i nf) = content_hash hash (nf_content nf)"
      by (simp_all add: new_fact_row_def)
    have facts: "set (d_facts D') = insert (new_fact_row hash i nf) (set (d_facts D))"
      by (simp add: fi(2))
    have "dedup_inv hash D'"
      unfolding dedup_inv_def facts
      by (intro conjI ballI impI; elim insertE; (use dd nodup c in \<open>unfold dedup_inv_def duplicate_of_def, metis\<close>))
    with again nodup new fi(3) show ?thesis by auto
  next
    case (Some f)
    then have again: "again" and i: "i = f_id f"
      and D': "D' = update_facts (\<lambda>g. f_id g = f_id f) (reinforced nf) D"
      using r by (auto simp: insert_or_reinforce_def split: if_splits)
    note f = find_duplicate_Some [OF Some]
    have rows: "row D' k = map_option (\<lambda>g. if f_id g = f_id f then reinforced nf g else g) (row D k)" for k
      unfolding D' by (rule row_update_facts) simp
    have "dedup_inv hash D'"
      unfolding D' by (rule dedup_inv_update [OF dd]) simp
    moreover have "map f_id (d_facts D') = map f_id (d_facts D)" unfolding D' by (rule update_facts_ids) simp
    moreover have "row D' i = Some (reinforced nf f)" "duplicate_of nf (reinforced nf f)"
      using rows [of i] row_eq [OF inv, of f] f by (auto simp: i duplicate_of_def)
    moreover have "j \<noteq> i \<longrightarrow> row D' j = row D j"
      using rows [of j] by (cases "row D j") (auto simp: i dest: row_in)
    ultimately show ?thesis using again f by auto
  qed
  then show "dedup_inv hash D'" "again \<longleftrightarrow> (\<exists>f \<in> set (d_facts D). duplicate_of nf f)"
    "\<exists>f. row D' i = Some f \<and> duplicate_of nf f"
    "again \<Longrightarrow> map f_id (d_facts D') = map f_id (d_facts D)" "j \<noteq> i \<Longrightarrow> row D' j = row D j"
    by auto
qed

text \<open>The archive commit deletes the incident edges first, so the facts can follow.\<close>

lemma delete_incident_then_facts:
  assumes "hard_delete_incident_to_facts ids D = (Inr n, D1)"
  shows "\<exists>k D2. hard_delete_ids ids D1 = (Inr k, D2) \<and> fact_ids_of D2 = fact_ids_of D - set ids \<and>
    d_edges D2 = filter (\<lambda>e. \<forall>i \<in> set ids. \<not> edge_touches i e) (d_edges D)"
  using assms
  by (auto simp: hard_delete_incident_to_facts_def hard_delete_ids_def Let_def fact_ids_of_def
      edge_touches_def intro!: filter_cong split: if_splits)

end
