(* ===== verification/Backend.thy ===== *)
theory Backend
  imports Fact_Store
begin

text \<open>
  The SQLite backend's write methods of the persistence port that take more than one statement,
  \<open>me-backend-sqlite/src/sqlite/graph.rs\<close> and \<open>store/embedding_meta.rs\<close>: each runs in one
  transaction, so an error leaves the tables as they were. The vector-index sidecar, which an
  optional feature notifies after the commit, is not part of the tables and is not modelled.

  The lemmas give what each method commits, and that it keeps \<open>db_inv\<close>.
\<close>

subsection \<open>The recorded embedding identity\<close>

definition ensure_match :: "fingerprint \<Rightarrow> fingerprint \<Rightarrow> unit result" where
  "ensure_match stored candidate =
     (if stored = candidate then Inr () else Inl (EmbeddingModelMismatch stored candidate))"

definition record_if_absent :: "fingerprint \<Rightarrow> nat \<Rightarrow> (db, fingerprint) op" where
  "record_if_absent candidate expected_dim D =
     (case d_identity D of
        Some stored \<Rightarrow>
          (case ensure_match stored candidate of Inl e \<Rightarrow> (Inl e, D) | Inr _ \<Rightarrow> (Inr stored, D))
      | None \<Rightarrow>
          (if fp_dim candidate \<noteq> expected_dim
           then (Inl (EmbeddingDimension expected_dim (fp_dim candidate)), D)
           else (Inr candidate, D\<lparr>d_identity := Some candidate\<rparr>)))"

definition check_compatible :: "db \<Rightarrow> fingerprint \<Rightarrow> unit result" where
  "check_compatible D candidate =
     (case d_identity D of None \<Rightarrow> Inr () | Some stored \<Rightarrow> ensure_match stored candidate)"

definition require_present :: "db \<Rightarrow> unit result" where
  "require_present D =
     (if d_identity D = None
      then Inl (Internal (Lit ''cannot write a pre-computed embedding to a store with no embedding identity; write a fact first''))
      else Inr ())"

subsection \<open>Scopes and single facts\<close>

definition on_scopes :: "(scopes_table \<Rightarrow> 'a result \<times> scopes_table) \<Rightarrow> (db, 'a) op" where
  "on_scopes m D = (case m (d_scopes D) of (r, s) \<Rightarrow> (r, D\<lparr>d_scopes := s\<rparr>))"

definition ensure_scope_path :: "string \<Rightarrow> (db, int) op" where
  "ensure_scope_path path = transaction (on_scopes (\<lambda>s. ensure_path s path))"

definition mark_facts_dream_cycled ::
    "(time \<Rightarrow> string) \<Rightarrow> fact_id list \<Rightarrow> nat \<Rightarrow> time \<Rightarrow> (db, unit) op" where
  "mark_facts_dream_cycled rfc3339 ids cycle_id now =
     transaction (mark_dream_cycled rfc3339 ids cycle_id now)"

definition insert_fact_atomic ::
    "(string \<Rightarrow> string) \<Rightarrow> nat \<Rightarrow> new_fact \<Rightarrow> fingerprint \<Rightarrow> nat \<Rightarrow> (db, fact_id) op" where
  "insert_fact_atomic hash edim nf fp expected_dim =
     transaction (op_bind (record_if_absent fp expected_dim) (\<lambda>_. fact_insert hash edim nf))"

subsection \<open>Batches of facts\<close>

fun resolve_scope_paths ::
    "string option list \<Rightarrow> (string \<times> int) list \<Rightarrow> (db, int list \<times> (string \<times> int) list) op" where
  \<comment> \<open>one id per path, each distinct path ensured once\<close>
  "resolve_scope_paths [] cache = op_return ([], cache)"
| "resolve_scope_paths (None # ps) cache =
     op_bind (resolve_scope_paths ps cache) (\<lambda>(ids, c). op_return (1 # ids, c))"
| "resolve_scope_paths (Some path # ps) cache =
     (case map_of cache path of
        Some cached \<Rightarrow>
          op_bind (resolve_scope_paths ps cache) (\<lambda>(ids, c). op_return (cached # ids, c))
      | None \<Rightarrow>
          op_bind (on_scopes (\<lambda>s. ensure_path s path)) (\<lambda>i.
          op_bind (resolve_scope_paths ps (AList.update path i cache)) (\<lambda>(ids, c).
          op_return (i # ids, c))))"

definition batch_insert_savepoint ::
    "(string \<Rightarrow> string) \<Rightarrow> nat \<Rightarrow> new_fact list \<Rightarrow> string option list \<Rightarrow> fingerprint \<Rightarrow> nat
      \<Rightarrow> (db, fact_id list \<times> int list) op" where
  "batch_insert_savepoint hash edim facts scope_paths fp expected_dim =
     (if length facts \<noteq> length scope_paths
      then op_fail (Internal (Fmt ''batch insert: facts ({}) and scope_paths ({}) length mismatch''
        [ANat (length facts), ANat (length scope_paths)]))
      else transaction (
        op_bind (record_if_absent fp expected_dim) (\<lambda>_.
        op_bind (resolve_scope_paths scope_paths []) (\<lambda>(scope_ids, cache).
        op_bind (op_map (\<lambda>(nf, sid). fact_insert hash edim (nf\<lparr>nf_scope_id := sid\<rparr>))
                  (zip facts scope_ids)) (\<lambda>ids.
        op_return (ids, map snd cache))))))"

definition insert_facts_batch_atomic ::
    "(string \<Rightarrow> string) \<Rightarrow> nat \<Rightarrow> new_fact list \<Rightarrow> string option list \<Rightarrow> fingerprint \<Rightarrow> nat
      \<Rightarrow> (db, fact_id list \<times> int list) op" where
  "insert_facts_batch_atomic hash edim facts scope_paths fp expected_dim =
     batch_insert_savepoint hash edim facts scope_paths fp expected_dim"

datatype bootstrap_outcome = Skipped | Ingested "(fact_id \<times> bool) list"

definition marker_insert :: "string option \<Rightarrow> (db, int) op" where
  \<comment> \<open>\<open>EventStore::insert\<close>, of which the tables keep the id and the session\<close>
  "marker_insert session D =
     (let i = d_event_seq D + 1 in
      (Inr i, D\<lparr>d_events := d_events D @ [(i, session)], d_event_seq := i\<rparr>))"

definition anchor_fact :: "int option \<Rightarrow> new_fact \<Rightarrow> new_fact" where
  "anchor_fact marker_id nf =
     (case marker_id of None \<Rightarrow> nf | Some i \<Rightarrow> nf\<lparr>nf_source_event_id := Some i\<rparr>)"

definition ingest_bootstrap_batch_atomic ::
    "(string \<Rightarrow> string) \<Rightarrow> (string option) option \<Rightarrow> (db \<Rightarrow> nat) option \<Rightarrow> new_fact list
      \<Rightarrow> fingerprint \<Rightarrow> nat \<Rightarrow> (db, bootstrap_outcome) op" where
  \<comment> \<open>\<open>marker\<close> is the session of the marker event, \<open>skip_if_present\<close> counts the matching events\<close>
  "ingest_bootstrap_batch_atomic hash marker skip_if_present facts fp expected_dim =
     transaction (op_bind
       (op_reads (\<lambda>D. Inr (case skip_if_present of None \<Rightarrow> False | Some n \<Rightarrow> 0 < n D))) (\<lambda>skip.
       if skip then op_return Skipped
       else
         op_bind (case marker of
             None \<Rightarrow> op_return None
           | Some session \<Rightarrow> op_bind (marker_insert session) (\<lambda>i. op_return (Some i))) (\<lambda>marker_id.
         op_bind (op_map (\<lambda>nf. insert_or_reinforce hash expected_dim (anchor_fact marker_id nf)) facts)
           (\<lambda>out.
         op_bind (if list_ex (\<lambda>(i, reinforced). \<not> reinforced) out
                  then op_bind (record_if_absent fp expected_dim) (\<lambda>_. op_return ())
                  else op_return ()) (\<lambda>_.
         op_return (Ingested out))))))"

subsection \<open>Edges between the facts of a session\<close>

definition pairs_both_ways :: "fact_id list \<Rightarrow> (fact_id \<times> fact_id) list" where
  "pairs_both_ways ids =
     concat (map (\<lambda>i. concat (map (\<lambda>j. [(ids ! i, ids ! j), (ids ! j, ids ! i)])
       [Suc i..<length ids])) [0..<length ids])"

definition insert_cosession_edges_atomic ::
    "fact_id list \<Rightarrow> string \<Rightarrow> fl \<Rightarrow> int \<Rightarrow> time \<Rightarrow> (db, (int \<times> fact_id \<times> fact_id) list) op" where
  "insert_cosession_edges_atomic ids relation weight scope_id now =
     transaction (\<lambda>D.
       let existing = list_active_pairs_by_facts D ids relation in
       op_map (\<lambda>(src, tgt). op_bind (edge_insert \<lparr>ne_source_fact_id = src, ne_target_fact_id = tgt,
              ne_relation_type = relation_from relation, ne_weight = weight, ne_t_created = now,
              ne_t_expired = None, ne_scope_id = scope_id\<rparr>) (\<lambda>eid. op_return (eid, src, tgt)))
         (filter (\<lambda>p. p \<notin> existing) (pairs_both_ways ids)) D)"

subsection \<open>Arbitrated conflicts\<close>

datatype crud_decision = CrudAdd | CrudUpdate | CrudDelete | CrudNoop

definition relation_edge ::
    "fact_id \<Rightarrow> fact_id \<Rightarrow> string \<Rightarrow> fl \<Rightarrow> int \<Rightarrow> time \<Rightarrow> new_edge" where
  "relation_edge source target relation weight scope_id now =
     \<lparr>ne_source_fact_id = source, ne_target_fact_id = target,
      ne_relation_type = relation_from relation, ne_weight = weight, ne_t_created = now,
      ne_t_expired = None, ne_scope_id = scope_id\<rparr>"

definition cascade_expire :: "fact_id \<Rightarrow> time \<Rightarrow> (db, unit) op" where
  "cascade_expire old_id now =
     op_bind (expire_and_invalidate old_id now) (\<lambda>_.
     op_bind (expire_by_fact old_id now) (\<lambda>_. op_return ()))"

definition insert_successor ::
    "(string \<Rightarrow> string) \<Rightarrow> nat \<Rightarrow> fact_id \<Rightarrow> new_fact \<Rightarrow> string \<Rightarrow> fl \<Rightarrow> time
      \<Rightarrow> (db, fact_id option \<times> int option) op" where
  "insert_successor hash edim old_id nf relation weight now =
     op_bind (fact_insert hash edim nf) (\<lambda>new_id.
     op_bind (edge_insert (relation_edge new_id old_id relation weight (nf_scope_id nf) now)) (\<lambda>edge_id.
     op_return (Some new_id, Some edge_id)))"

definition resolve_conflict_atomic ::
    "(string \<Rightarrow> string) \<Rightarrow> nat \<Rightarrow> crud_decision \<Rightarrow> fact_id \<Rightarrow> new_fact \<Rightarrow> string \<Rightarrow> fl \<Rightarrow> time
      \<Rightarrow> (db, fact_id option \<times> int option) op" where
  "resolve_conflict_atomic hash edim decision old_id nf relation weight now =
     (case decision of
        CrudNoop \<Rightarrow> op_return (None, None)
      | CrudAdd \<Rightarrow> transaction (\<lambda>D.
          if \<not> is_active D old_id
          then (Inl (NotFound (Fmt ''fact {} is no longer active (expired since arbitration)''
                 [AInt old_id])), D)
          else insert_successor hash edim old_id nf relation weight now D)
      | CrudUpdate \<Rightarrow> transaction (op_bind (cascade_expire old_id now)
          (\<lambda>_. insert_successor hash edim old_id nf relation weight now))
      | CrudDelete \<Rightarrow> transaction (op_bind (cascade_expire old_id now)
          (\<lambda>_. op_return (None, None))))"

subsection \<open>Archive selection and pruning\<close>

definition select_archive_candidates :: "nat \<Rightarrow> db \<Rightarrow> time \<Rightarrow> (fact list \<times> edge list) result" where
  "select_archive_candidates edim D expired_before =
     and_then (list_archive_candidates edim D expired_before) (\<lambda>fs.
       Inr (fs, list_internal_by_facts D (map f_id fs)))"

record prune_stats =
  ps_facts_expired :: nat
  ps_facts_evaluated :: nat

definition expire_with_edges :: "time \<Rightarrow> fact_id \<Rightarrow> (db, unit) op" where
  "expire_with_edges now i =
     op_bind (fact_expire i now) (\<lambda>_. op_bind (expire_by_fact i now) (\<lambda>_. op_return ()))"

definition prune_atomic ::
    "(fact_id \<times> fl) list \<Rightarrow> fact_id list \<Rightarrow> time \<Rightarrow> (db, prune_stats \<times> fact_id list) op" where
  "prune_atomic scored to_expire now =
     transaction (
       op_bind (update_importance_scores_bulk scored) (\<lambda>_.
       op_bind (op_each (expire_with_edges now) to_expire) (\<lambda>_.
       op_return (\<lparr>ps_facts_expired = length to_expire, ps_facts_evaluated = length scored\<rparr>,
         to_expire))))"

subsection \<open>The methods keep the invariant\<close>

lemma keeps_record_if_absent [keeps_intros]: "keeps (db_inv edim) (record_if_absent fp n)"
proof (rule keepsI)
  fix D r D' assume "db_inv edim D" "record_if_absent fp n D = (r, D')"
  moreover have "db_inv edim (D\<lparr>d_identity := x\<rparr>)" if "db_inv edim D" for x
    using that by (auto simp: db_inv_def list_all_iff fact_row_ok_def edge_row_ok_def
        scope_ids_of_def fact_ids_of_def)
  ultimately show "db_inv edim D'"
    by (auto simp: record_if_absent_def split: option.splits if_splits sum.splits)
qed

lemma scopes_grow_inv:
  assumes "db_inv edim D" "scopes_inv s" "sc_rows s = sc_rows (d_scopes D) @ extra"
  shows "db_inv edim (D\<lparr>d_scopes := s\<rparr>)"
  using assms by (auto simp: db_inv_def list_all_iff fact_row_ok_def edge_row_ok_def
      scope_ids_of_def fact_ids_of_def)

lemma keeps_ensure_path [keeps_intros]: "keeps (db_inv edim) (on_scopes (\<lambda>s. ensure_path s path))"
proof (rule keepsI)
  fix D r D' assume inv: "db_inv edim D" and r: "on_scopes (\<lambda>s. ensure_path s path) D = (r, D')"
  then obtain s where s: "ensure_path (d_scopes D) path = (r, s)" "D' = D\<lparr>d_scopes := s\<rparr>"
    by (auto simp: on_scopes_def split: prod.splits)
  from ensure_path_inv [OF db_invD(1) [OF inv] s(1)] inv show "db_inv edim D'"
    unfolding s(2) by (blast intro: scopes_grow_inv)
qed

lemma keeps_case_prod [keeps_intros]:
  "(\<And>a b. keeps I (k a b)) \<Longrightarrow> keeps I (case p of (a, b) \<Rightarrow> k a b)"
  by (cases p) simp

lemma keeps_resolve_scope_paths [keeps_intros]:
  "keeps (db_inv edim) (resolve_scope_paths ps cache)"
proof (induction ps cache rule: resolve_scope_paths.induct)
  case (3 path ps cache)
  show ?case
  proof (cases "map_of cache path")
    case None
    with "3.IH"(1) show ?thesis by simp (intro keeps_intros)
  next
    case (Some i)
    with "3.IH"(2) show ?thesis by simp (intro keeps_intros)
  qed
qed (simp_all, (intro keeps_intros)+)

lemma keeps_insert_fact_atomic [keeps_intros]:
  "keeps (db_inv edim) (insert_fact_atomic hash edim nf fp n)"
  unfolding insert_fact_atomic_def by (intro keeps_intros)

lemma keeps_batch [keeps_intros]:
  "keeps (db_inv edim) (insert_facts_batch_atomic hash edim facts paths fp n)"
  unfolding insert_facts_batch_atomic_def batch_insert_savepoint_def by (intro keeps_intros)

lemma keeps_marker_insert [keeps_intros]: "keeps (db_inv edim) (marker_insert session)"
  by (rule keepsI) (auto simp: marker_insert_def Let_def db_inv_def list_all_iff fact_row_ok_def
      edge_row_ok_def scope_ids_of_def fact_ids_of_def)

lemma keeps_bootstrap [keeps_intros]:
  "keeps (db_inv edim) (ingest_bootstrap_batch_atomic hash marker skip facts fp edim)"
  unfolding ingest_bootstrap_batch_atomic_def by (intro keeps_intros)

lemma keeps_ensure_scope_path [keeps_intros]: "keeps (db_inv edim) (ensure_scope_path path)"
  unfolding ensure_scope_path_def by (intro keeps_intros)

lemma keeps_cosession [keeps_intros]:
  "keeps (db_inv edim) (insert_cosession_edges_atomic ids relation weight scope_id now)"
  unfolding insert_cosession_edges_atomic_def Let_def
  by (rule keeps_transaction, rule keeps_dep, intro keeps_intros)

lemma keeps_insert_successor [keeps_intros]:
  "keeps (db_inv edim) (insert_successor hash edim old_id nf relation weight now)"
  unfolding insert_successor_def by (intro keeps_intros)

lemma keeps_cascade_expire [keeps_intros]: "keeps (db_inv edim) (cascade_expire old_id now)"
  unfolding cascade_expire_def by (intro keeps_intros)

lemma keeps_resolve_conflict [keeps_intros]:
  "keeps (db_inv edim) (resolve_conflict_atomic hash edim decision old_id nf relation weight now)"
proof (cases decision)
  case CrudAdd
  have "keeps (db_inv edim) (\<lambda>D. if \<not> is_active D old_id
          then (Inl (NotFound (Fmt ''fact {} is no longer active (expired since arbitration)''
                 [AInt old_id])), D)
          else insert_successor hash edim old_id nf relation weight now D)"
    using keeps_insert_successor by (simp add: keeps_def)
  with CrudAdd show ?thesis by (simp add: resolve_conflict_atomic_def keeps_transaction)
qed (simp_all add: resolve_conflict_atomic_def, (intro keeps_intros)+)

lemma keeps_expire_with_edges [keeps_intros]: "keeps (db_inv edim) (expire_with_edges now i)"
  unfolding expire_with_edges_def by (intro keeps_intros)

lemma keeps_prune_atomic [keeps_intros]: "keeps (db_inv edim) (prune_atomic scored to_expire now)"
  unfolding prune_atomic_def by (intro keeps_intros)

subsection \<open>An error leaves the tables as they were\<close>

lemma atomic_methods:
  "all_or_nothing (ensure_scope_path path)"
  "all_or_nothing (mark_facts_dream_cycled rfc3339 ids cycle_id now)"
  "all_or_nothing (insert_fact_atomic hash edim nf fp n)"
  "all_or_nothing (insert_facts_batch_atomic hash edim facts paths fp n)"
  "all_or_nothing (ingest_bootstrap_batch_atomic hash marker skip facts fp n)"
  "all_or_nothing (insert_cosession_edges_atomic ids relation weight scope_id now)"
  "all_or_nothing (resolve_conflict_atomic hash edim decision old_id nf relation weight now)"
  "all_or_nothing (prune_atomic scored to_expire now)"
  by (simp_all add: ensure_scope_path_def mark_facts_dream_cycled_def insert_fact_atomic_def
      insert_facts_batch_atomic_def batch_insert_savepoint_def ingest_bootstrap_batch_atomic_def
      insert_cosession_edges_atomic_def resolve_conflict_atomic_def prune_atomic_def
      all_or_nothing_transaction split: crud_decision.split)
   (simp_all add: all_or_nothing_def)

subsection \<open>What is committed\<close>

definition active_edges :: "db \<Rightarrow> edge list" where
  "active_edges D = filter is_active_edge (d_edges D)"

lemma list_active_edges_eq: "list_active_edges D = map row_to_edge (active_edges D)"
  by (simp add: list_active_edges_def active_edges_def)

lemma filter_map_update:
  "filter q (map (\<lambda>x. if p x then g x else x) xs) = filter (\<lambda>x. q x \<and> \<not> p x) xs"
  if "\<And>x. p x \<Longrightarrow> \<not> q (g x)"
  using that by (induction xs) auto

lemma expire_by_fact_ok:
  assumes "expire_by_fact i now D = (r, D')"
  shows "active_edges D' = filter (\<lambda>e. \<not> edge_touches i e) (active_edges D)"
    "d_facts D' = d_facts D" "r = Inr (length (filter (edge_touches i) (active_edges D)))"
proof -
  from assms have D': "D' = update_edges (\<lambda>e. edge_touches i e \<and> is_active_edge e)
      (\<lambda>e. e\<lparr>e_t_expired := Some now\<rparr>) D"
    and r: "r = Inr (length (filter (\<lambda>e. edge_touches i e \<and> is_active_edge e) (d_edges D)))"
    by (auto simp: expire_by_fact_def Let_def)
  have "active_edges D' = filter (\<lambda>e. is_active_edge e \<and> \<not> (edge_touches i e \<and> is_active_edge e)) (d_edges D)"
    unfolding active_edges_def D' update_edges_simps
    by (rule filter_map_update) (simp add: is_active_edge_def)
  also have "\<dots> = filter (\<lambda>e. \<not> edge_touches i e) (active_edges D)"
    by (auto simp: active_edges_def intro: filter_cong)
  finally show "active_edges D' = filter (\<lambda>e. \<not> edge_touches i e) (active_edges D)" .
  show "d_facts D' = d_facts D" by (simp add: D')
  show "r = Inr (length (filter (edge_touches i) (active_edges D)))"
    by (simp add: r active_edges_def conj_commute)
qed

lemma is_active_cong: "d_facts D' = d_facts D \<Longrightarrow> is_active D' i = is_active D i"
  by (simp add: is_active_def)

lemma is_active_update:
  assumes "\<And>f. f_id (g f) = f_id f \<and> is_active_row (g f) = is_active_row f"
  shows "is_active (update_facts p g D) i = is_active D i"
proof -
  have "f_id (if p f then g f else f) = f_id f" "is_active_row (if p f then g f else f) = is_active_row f" for f
    using assms by simp_all
  then show ?thesis by (simp only: is_active_def update_facts_simps set_map bex_simps)
qed

lemma active_edges_update_facts [simp]: "active_edges (update_facts p g D) = active_edges D"
  by (simp add: active_edges_def)

lemma cascade_expire_ok:
  assumes "cascade_expire i now D = (r, D')"
  shows "r = (if is_active D i then Inr () else Inl (fact_not_found i))"
    and "is_active D i \<Longrightarrow> active_edges D' = filter (\<lambda>e. \<not> edge_touches i e) (active_edges D)"
    and "is_active D' j \<longleftrightarrow> is_active D j \<and> j \<noteq> i"
proof -
  obtain r1 D1 where e: "expire_and_invalidate i now D = (r1, D1)" by fastforce
  note ei = expire_and_invalidate_ok [OF e]
  obtain r2 D2 where b: "expire_by_fact i now D1 = (r2, D2)" by fastforce
  note eb = expire_by_fact_ok [OF b]
  have all: "r = (if is_active D i then Inr () else Inl (fact_not_found i)) \<and>
    D' = (if is_active D i then D2 else D1)"
    using assms e b ei(1) eb(3) by (auto simp: cascade_expire_def op_bind_def)
  then show "r = (if is_active D i then Inr () else Inl (fact_not_found i))" by simp
  show "active_edges D' = filter (\<lambda>e. \<not> edge_touches i e) (active_edges D)" if "is_active D i"
    using all that eb(1) ei(2) by simp
  show "is_active D' j \<longleftrightarrow> is_active D j \<and> j \<noteq> i"
    using all ei(3) ei(4) [of j] is_active_cong [OF eb(2)] by (cases "j = i") auto
qed

lemma cascade_ids:
  assumes "cascade_expire i now D = (r, D')"
  shows "fact_ids_of D' = fact_ids_of D"
proof -
  have "keeps (\<lambda>E. fact_ids_of E = fact_ids_of D) (expire_and_invalidate i now)"
    by (rule keepsI) (auto simp: expire_and_invalidate_def update_or_not_found_def update_facts_ids(2)
        split: if_splits)
  moreover have "keeps (\<lambda>E. fact_ids_of E = fact_ids_of D) (expire_by_fact i now)"
    by (rule keepsI) (auto simp: expire_by_fact_def Let_def fact_ids_of_def)
  ultimately have "keeps (\<lambda>E. fact_ids_of E = fact_ids_of D) (cascade_expire i now)"
    unfolding cascade_expire_def by (intro keeps_intros)
  from keepsD [OF this refl assms] show ?thesis .
qed

lemma edge_insert_ok:
  assumes "edge_insert ne D = (Inr i, D')"
  shows "d_facts D' = d_facts D" "\<exists>e. d_edges D' = d_edges D @ [e] \<and> e_id e = i \<and>
      e_source_fact_id e = ne_source_fact_id ne \<and> e_target_fact_id e = ne_target_fact_id ne \<and>
      e_relation_type e = ne_relation_type ne \<and> e_weight e = ne_weight ne \<and>
      e_t_expired e = ne_t_expired ne"
  using assms by (auto simp: edge_insert_def Let_def split: if_splits)

lemma insert_successor_ok:
  assumes inv: "db_inv edim D"
    and r: "insert_successor hash edim old_id nf relation weight now D = (Inr p, D')"
  shows "\<exists>n k e. p = (Some n, Some k) \<and> n \<notin> fact_ids_of D \<and>
    (\<forall>j. row D' j = (if j = n then Some (new_fact_row hash n nf) else row D j)) \<and>
    active_edges D' = active_edges D @ [e] \<and> e_id e = k \<and> e_source_fact_id e = n \<and>
    e_target_fact_id e = old_id \<and> e_relation_type e = relation_from relation \<and> e_weight e = weight"
proof -
  from r obtain n D1 k where i: "fact_insert hash edim nf D = (Inr n, D1)"
    and e: "edge_insert (relation_edge n old_id relation weight (nf_scope_id nf) now) D1 = (Inr k, D')"
    and p: "p = (Some n, Some k)"
    by (auto simp: insert_successor_def op_bind_Inr)
  note fi = fact_insert_ok [OF inv i]
  obtain x where x: "d_edges D' = d_edges D1 @ [x]" "e_id x = k" "e_source_fact_id x = n"
    "e_target_fact_id x = old_id" "e_relation_type x = relation_from relation" "e_weight x = weight"
    "e_t_expired x = None"
    using edge_insert_ok(2) [OF e] by (auto simp: relation_edge_def)
  have "active_edges D' = active_edges D @ [x]"
    using x fi(2) by (simp add: active_edges_def is_active_edge_def)
  moreover have "row D' j = row D1 j" for j by (simp add: row_def edge_insert_ok(1) [OF e])
  ultimately show ?thesis using p fi(1,3) x by auto
qed

lemma expire_with_edges_ok:
  assumes act: "is_active D i"
  obtains D' where "expire_with_edges now i D = (Inr (), D')"
    "\<And>j. is_active D' j \<longleftrightarrow> is_active D j \<and> j \<noteq> i"
    "active_edges D' = filter (\<lambda>e. \<not> edge_touches i e) (active_edges D)"
    "map f_id (d_facts D') = map f_id (d_facts D)"
    "map f_importance_score (d_facts D') = map f_importance_score (d_facts D)"
proof -
  obtain r1 D1 where e: "fact_expire i now D = (r1, D1)" by fastforce
  note ei = fact_expire_ok [OF e]
  obtain r2 D2 where b: "expire_by_fact i now D1 = (r2, D2)" by fastforce
  note eb = expire_by_fact_ok [OF b]
  have "expire_with_edges now i D = (Inr (), D2)"
    using e b ei(1) eb(3) act by (simp add: expire_with_edges_def op_bind_def)
  moreover have "is_active D2 j \<longleftrightarrow> is_active D j \<and> j \<noteq> i" for j
    using ei(3) ei(4) [of j] is_active_cong [OF eb(2)] by (cases "j = i") auto
  moreover have "active_edges D2 = filter (\<lambda>e. \<not> edge_touches i e) (active_edges D)"
    using eb(1) ei(2) act by simp
  moreover have "map f_id (d_facts D2) = map f_id (d_facts D)"
    "map f_importance_score (d_facts D2) = map f_importance_score (d_facts D)"
    using ei(2) act eb(2) by simp_all
  ultimately show ?thesis by (rule that)
qed

lemma expire_each_ok:
  assumes "distinct ids" "\<forall>i \<in> set ids. is_active D i"
  shows "\<exists>D'. op_each (expire_with_edges now) ids D = (Inr (), D') \<and>
    (\<forall>j. is_active D' j \<longleftrightarrow> is_active D j \<and> j \<notin> set ids) \<and>
    active_edges D' = filter (\<lambda>e. \<forall>i \<in> set ids. \<not> edge_touches i e) (active_edges D) \<and>
    map f_id (d_facts D') = map f_id (d_facts D) \<and>
    map f_importance_score (d_facts D') = map f_importance_score (d_facts D)"
  using assms
proof (induction ids arbitrary: D)
  case (Cons i ids)
  obtain D1 where D1: "expire_with_edges now i D = (Inr (), D1)"
    "\<And>j. is_active D1 j \<longleftrightarrow> is_active D j \<and> j \<noteq> i"
    "active_edges D1 = filter (\<lambda>e. \<not> edge_touches i e) (active_edges D)"
    "map f_id (d_facts D1) = map f_id (d_facts D)"
    "map f_importance_score (d_facts D1) = map f_importance_score (d_facts D)"
    using expire_with_edges_ok [of D i now] Cons.prems(2) by auto
  have "\<forall>j \<in> set ids. is_active D1 j" using Cons.prems D1(2) by auto
  from Cons.IH [OF _ this] Cons.prems(1) obtain D' where D': "op_each (expire_with_edges now) ids D1 = (Inr (), D')"
    "\<forall>j. is_active D' j \<longleftrightarrow> is_active D1 j \<and> j \<notin> set ids"
    "active_edges D' = filter (\<lambda>e. \<forall>i \<in> set ids. \<not> edge_touches i e) (active_edges D1)"
    "map f_id (d_facts D') = map f_id (d_facts D1)"
    "map f_importance_score (d_facts D') = map f_importance_score (d_facts D1)"
    by auto
  have "op_each (expire_with_edges now) (i # ids) D = (Inr (), D')"
    using D1(1) D'(1) by (simp add: op_bind_def)
  moreover have "active_edges D' = filter (\<lambda>e. \<forall>j \<in> set (i # ids). \<not> edge_touches j e) (active_edges D)"
    using D'(3) D1(3) by (auto intro!: filter_cong)
  moreover have "\<forall>j. is_active D' j \<longleftrightarrow> is_active D j \<and> j \<notin> set (i # ids)" using D1(2) D'(2) by auto
  moreover have "map f_id (d_facts D') = map f_id (d_facts D)"
    "map f_importance_score (d_facts D') = map f_importance_score (d_facts D)"
    by (simp_all only: D1(4,5) D'(4,5))
  ultimately show ?case by (intro exI [of _ D'] conjI)
qed simp

lemma map_of_rev_distinct:
  assumes "distinct (map fst xs)"
  shows "map_of (rev xs) = map_of xs"
proof
  fix k
  have d: "distinct (map fst (rev xs))" using assms by (simp flip: rev_map)
  have "map_of (rev xs) k = Some v \<longleftrightarrow> map_of xs k = Some v" for v
    unfolding map_of_eq_Some_iff [OF assms] map_of_eq_Some_iff [OF d] by (simp only: set_rev)
  then show "map_of (rev xs) k = map_of xs k" by (metis option.exhaust)
qed

lemma prune_atomic_ok:
  assumes inv: "db_inv edim D" and d: "distinct to_expire" "\<forall>i \<in> set to_expire. is_active D i"
    and s: "distinct (map fst scored)" "\<forall>(i, v) \<in> set scored. fl_is_finite v"
  shows "\<exists>D'. prune_atomic scored to_expire now D =
      (Inr (\<lparr>ps_facts_expired = length to_expire, ps_facts_evaluated = length scored\<rparr>, to_expire), D') \<and>
    db_inv edim D' \<and>
    (\<forall>j. is_active D' j \<longleftrightarrow> is_active D j \<and> j \<notin> set to_expire) \<and>
    active_edges D' = filter (\<lambda>e. \<forall>i \<in> set to_expire. \<not> edge_touches i e) (active_edges D) \<and>
    map f_importance_score (d_facts D') = map (\<lambda>f. case map_of scored (f_id f) of
      None \<Rightarrow> f_importance_score f | Some v \<Rightarrow> v) (d_facts D)"
proof -
  have nf: "nonfinite_score scored = None" using s(2) by (simp add: nonfinite_score_None)
  have rev: "map_of (rev scored) = map_of scored" by (rule map_of_rev_distinct) (rule s(1))
  let ?D1 = "update_facts (\<lambda>f. map_of scored (f_id f) \<noteq> None)
      (\<lambda>f. f\<lparr>f_importance_score := the (map_of scored (f_id f))\<rparr>) D"
  have "update_importance_scores_bulk scored D = (Inr (), ?D1)"
    using nf rev by (simp add: update_importance_scores_bulk_def Let_def update_facts_def)
  moreover have act: "is_active ?D1 j = is_active D j" for j
    by (rule is_active_update) (simp add: is_active_row_def)
  moreover have "map f_importance_score (d_facts ?D1) = map (\<lambda>f. case map_of scored (f_id f) of
      None \<Rightarrow> f_importance_score f | Some v \<Rightarrow> v) (d_facts D)"
    by (auto split: option.splits)
  moreover obtain D' where "op_each (expire_with_edges now) to_expire ?D1 = (Inr (), D')"
    "\<forall>j. is_active D' j \<longleftrightarrow> is_active ?D1 j \<and> j \<notin> set to_expire"
    "active_edges D' = filter (\<lambda>e. \<forall>i \<in> set to_expire. \<not> edge_touches i e) (active_edges ?D1)"
    "map f_importance_score (d_facts D') = map f_importance_score (d_facts ?D1)"
    using expire_each_ok [OF d(1), of ?D1 now] d(2) act by auto
  ultimately have "prune_atomic scored to_expire now D =
      (Inr (\<lparr>ps_facts_expired = length to_expire, ps_facts_evaluated = length scored\<rparr>, to_expire), D') \<and>
    (\<forall>j. is_active D' j \<longleftrightarrow> is_active D j \<and> j \<notin> set to_expire) \<and>
    active_edges D' = filter (\<lambda>e. \<forall>i \<in> set to_expire. \<not> edge_touches i e) (active_edges D) \<and>
    map f_importance_score (d_facts D') = map (\<lambda>f. case map_of scored (f_id f) of
      None \<Rightarrow> f_importance_score f | Some v \<Rightarrow> v) (d_facts D)"
    by (simp add: prune_atomic_def op_bind_def)
  moreover have "db_inv edim D'"
    using calculation keepsD [OF keeps_prune_atomic inv] by blast
  ultimately show ?thesis by blast
qed

end
