(* ===== verification/Memory_Graph.thy ===== *)
theory Memory_Graph
  imports Domain_Types
begin

text \<open>
  The in-memory knowledge graph, \<open>me-index/src/graph/memory_graph.rs\<close>: \<open>MemoryGraph\<close> is the
  record \<open>memory_graph\<close>, a graph of the library petgraph plus the map from fact ids to node
  indices. Petgraph is not part of the repository: its directed graph is the parameter \<open>P\<close>, a
  record of the operations the code calls, and \<open>petgraph_laws\<close> states what its documentation
  promises of them (node and edge indices are dense, both removals are swap-removes). The
  laws are met by a list implementation, \<open>list_petgraph\<close>.

  Abstractly the graph is the set of its fact ids and the multiset of its edges between fact
  ids. The lemmas show that every operation keeps the index map exact (\<open>graph_ok\<close>) and what
  it does to that abstraction.
\<close>

record edge_data =
  ed_edge_id :: int
  ed_relation_type :: relation_type
  ed_weight :: fl

datatype direction = Outgoing | Incoming

subsection \<open>The graph library\<close>

record 'g petgraph =
  pg_new :: 'g
  pg_add_node :: "'g \<Rightarrow> int \<Rightarrow> 'g \<times> nat"
  pg_node_weight :: "'g \<Rightarrow> nat \<Rightarrow> int option"
  pg_node_count :: "'g \<Rightarrow> nat"
  pg_add_edge :: "'g \<Rightarrow> nat \<Rightarrow> nat \<Rightarrow> edge_data \<Rightarrow> 'g"
  pg_edges :: "'g \<Rightarrow> (nat \<times> nat \<times> edge_data) list"  \<comment> \<open>in edge-index order\<close>
  pg_remove_edge :: "'g \<Rightarrow> nat \<Rightarrow> 'g"
  pg_remove_node :: "'g \<Rightarrow> nat \<Rightarrow> 'g"
  pg_edges_directed :: "'g \<Rightarrow> nat \<Rightarrow> direction \<Rightarrow> nat list"
  pg_neighbors :: "'g \<Rightarrow> nat \<Rightarrow> direction \<Rightarrow> nat list"

definition swap_remove :: "nat \<Rightarrow> 'a list \<Rightarrow> 'a list" where
  "swap_remove i xs =
     (if Suc i = length xs then butlast xs else (butlast xs)[i := last xs])"

definition near_end :: "direction \<Rightarrow> nat \<times> nat \<times> edge_data \<Rightarrow> nat" where
  "near_end dir e = (case dir of Outgoing \<Rightarrow> fst e | Incoming \<Rightarrow> fst (snd e))"

definition far_end :: "direction \<Rightarrow> nat \<times> nat \<times> edge_data \<Rightarrow> nat" where
  "far_end dir e = (case dir of Outgoing \<Rightarrow> fst (snd e) | Incoming \<Rightarrow> fst e)"

definition relocate :: "nat \<Rightarrow> nat \<Rightarrow> nat \<Rightarrow> nat" where
  "relocate last_ix i j = (if j = last_ix then i else j)"

definition pg_wf :: "'g petgraph \<Rightarrow> 'g \<Rightarrow> bool" where
  "pg_wf P g \<longleftrightarrow> (\<forall>(s, t, d) \<in> set (pg_edges P g). s < pg_node_count P g \<and> t < pg_node_count P g)"

locale petgraph_laws =
  fixes P :: "'g petgraph"
  assumes new_graph: "pg_node_count P (pg_new P) = 0" "pg_edges P (pg_new P) = []"
    and node_weight_None: "pg_node_weight P g i = None \<longleftrightarrow> pg_node_count P g \<le> i"
    and add_node: "pg_add_node P g w = (g', i) \<Longrightarrow>
      i = pg_node_count P g \<and> pg_node_count P g' = Suc i \<and> pg_edges P g' = pg_edges P g \<and>
      pg_node_weight P g' = (pg_node_weight P g)(i \<mapsto> w)"
    and add_edge: "s < pg_node_count P g \<Longrightarrow> t < pg_node_count P g \<Longrightarrow>
      pg_node_count P (pg_add_edge P g s t d) = pg_node_count P g \<and>
      pg_node_weight P (pg_add_edge P g s t d) = pg_node_weight P g \<and>
      pg_edges P (pg_add_edge P g s t d) = pg_edges P g @ [(s, t, d)]"
    and remove_edge: "i < length (pg_edges P g) \<Longrightarrow>
      pg_node_count P (pg_remove_edge P g i) = pg_node_count P g \<and>
      pg_node_weight P (pg_remove_edge P g i) = pg_node_weight P g \<and>
      pg_edges P (pg_remove_edge P g i) = swap_remove i (pg_edges P g)"
    and remove_node: "pg_wf P g \<Longrightarrow> pg_node_count P g = Suc n \<Longrightarrow> i \<le> n \<Longrightarrow>
      pg_node_count P (pg_remove_node P g i) = n \<and>
      pg_node_weight P (pg_remove_node P g i) =
        (\<lambda>j. if j < n then pg_node_weight P g (if j = i then n else j) else None) \<and>
      mset (pg_edges P (pg_remove_node P g i)) =
        image_mset (\<lambda>(s, t, d). (relocate n i s, relocate n i t, d))
          {#e \<in># mset (pg_edges P g). fst e \<noteq> i \<and> fst (snd e) \<noteq> i#}"
    and edges_directed: "distinct (pg_edges_directed P g a dir) \<and>
      set (pg_edges_directed P g a dir) =
        {k. k < length (pg_edges P g) \<and> near_end dir (pg_edges P g ! k) = a}"
    and neighbors_directed: "mset (pg_neighbors P g a dir) =
      image_mset (far_end dir) {#e \<in># mset (pg_edges P g). near_end dir e = a#}"

subsection \<open>The graph of facts\<close>

record 'g memory_graph =
  mg_graph :: 'g
  mg_node_map :: "(int \<times> nat) list"

definition max_snapshot_edges :: nat where "max_snapshot_edges = 50000000"

definition check_edge_count_bound :: "nat \<Rightarrow> unit result" where
  "check_edge_count_bound n =
     (if n > max_snapshot_edges
      then Inl (Internal (Fmt
        ''snapshot edge count {} exceeds the maximum of {}; discarding sidecar and rebuilding from the database''
        [ANat n, ANat max_snapshot_edges]))
      else Inr ())"

definition mg_new :: "'g petgraph \<Rightarrow> 'g memory_graph" where
  "mg_new P = \<lparr>mg_graph = pg_new P, mg_node_map = []\<rparr>"

definition ensure_node :: "'g petgraph \<Rightarrow> 'g memory_graph \<Rightarrow> int \<Rightarrow> 'g memory_graph \<times> nat" where
  "ensure_node P m fid =
     (case map_of (mg_node_map m) fid of
        Some i \<Rightarrow> (m, i)
      | None \<Rightarrow> (case pg_add_node P (mg_graph m) fid of
          (g, i) \<Rightarrow> (\<lparr>mg_graph = g, mg_node_map = AList.update fid i (mg_node_map m)\<rparr>, i)))"

definition has_node :: "'g memory_graph \<Rightarrow> int \<Rightarrow> bool" where
  "has_node m fid \<longleftrightarrow> fid \<in> fst ` set (mg_node_map m)"

definition mg_add_edge ::
    "'g petgraph \<Rightarrow> 'g memory_graph \<Rightarrow> int \<Rightarrow> int \<Rightarrow> edge_data \<Rightarrow> 'g memory_graph" where
  "mg_add_edge P m source target data =
     (case ensure_node P m source of (m1, s) \<Rightarrow>
      case ensure_node P m1 target of (m2, t) \<Rightarrow>
      m2\<lparr>mg_graph := pg_add_edge P (mg_graph m2) s t data\<rparr>)"

definition remove_edge_by_id ::
    "'g petgraph \<Rightarrow> 'g memory_graph \<Rightarrow> int \<Rightarrow> 'g memory_graph" where
  "remove_edge_by_id P m edge_id =
     (case List.find (\<lambda>i. ed_edge_id (snd (snd (pg_edges P (mg_graph m) ! i))) = edge_id)
             [0..<length (pg_edges P (mg_graph m))] of
        None \<Rightarrow> m
      | Some i \<Rightarrow> m\<lparr>mg_graph := pg_remove_edge P (mg_graph m) i\<rparr>)"

definition mg_remove_node :: "'g petgraph \<Rightarrow> 'g memory_graph \<Rightarrow> int \<Rightarrow> 'g memory_graph" where
  "mg_remove_node P m fid =
     (case map_of (mg_node_map m) fid of
        None \<Rightarrow> m
      | Some idx \<Rightarrow>
          let node_map = AList.delete fid (mg_node_map m);
              g = pg_remove_node P (mg_graph m) idx
          in (case pg_node_weight P g idx of
                Some displaced \<Rightarrow>
                  \<lparr>mg_graph = g, mg_node_map = AList.update displaced idx node_map\<rparr>
              | None \<Rightarrow> \<lparr>mg_graph = g, mg_node_map = node_map\<rparr>))"

definition remove_edges_by_fact ::
    "'g petgraph \<Rightarrow> 'g memory_graph \<Rightarrow> int \<Rightarrow> 'g memory_graph" where
  "remove_edges_by_fact P m fid =
     (case map_of (mg_node_map m) fid of
        None \<Rightarrow> m
      | Some idx \<Rightarrow>
          let to_remove = pg_edges_directed P (mg_graph m) idx Outgoing @
                pg_edges_directed P (mg_graph m) idx Incoming;
              sorted_desc = rev (sort to_remove);
              deduped = remdups_adj sorted_desc
          in m\<lparr>mg_graph := fold (\<lambda>i g. pg_remove_edge P g i) deduped (mg_graph m)\<rparr>)"

definition node_fact :: "'g petgraph \<Rightarrow> 'g memory_graph \<Rightarrow> nat \<Rightarrow> int" where
  \<comment> \<open>\<open>self.graph[ni]\<close>, which panics out of range; \<open>graph_ok_weight\<close> shows it never does\<close>
  "node_fact P m i = the (pg_node_weight P (mg_graph m) i)"

definition neighbors :: "'g petgraph \<Rightarrow> 'g memory_graph \<Rightarrow> int \<Rightarrow> int list" where
  "neighbors P m fid =
     (case map_of (mg_node_map m) fid of
        None \<Rightarrow> []
      | Some idx \<Rightarrow> map (node_fact P m) (pg_neighbors P (mg_graph m) idx Outgoing))"

fun first_occurrences :: "'a set \<Rightarrow> 'a list \<Rightarrow> 'a list" where
  \<comment> \<open>the filter \<open>seen.insert(id)\<close>\<close>
  "first_occurrences seen [] = []"
| "first_occurrences seen (x # xs) =
     (if x \<in> seen then first_occurrences seen xs
      else x # first_occurrences (insert x seen) xs)"

definition neighbors_undirected :: "'g petgraph \<Rightarrow> 'g memory_graph \<Rightarrow> int \<Rightarrow> int list" where
  "neighbors_undirected P m fid =
     (case map_of (mg_node_map m) fid of
        None \<Rightarrow> []
      | Some idx \<Rightarrow>
          first_occurrences {} (filter (\<lambda>i. i \<noteq> fid)
            (map (node_fact P m) (pg_neighbors P (mg_graph m) idx Outgoing @
               pg_neighbors P (mg_graph m) idx Incoming))))"

definition degree :: "'g petgraph \<Rightarrow> 'g memory_graph \<Rightarrow> int \<Rightarrow> nat" where
  "degree P m fid =
     (case map_of (mg_node_map m) fid of
        None \<Rightarrow> 0
      | Some idx \<Rightarrow> length (pg_neighbors P (mg_graph m) idx Outgoing) +
          length (pg_neighbors P (mg_graph m) idx Incoming))"

fun visit_all :: "nat list \<Rightarrow> nat list \<times> nat list \<Rightarrow> nat list \<times> nat list" where
  \<comment> \<open>\<open>if visited.insert(n) { queue.push_back(n) }\<close> over a list of neighbours\<close>
  "visit_all [] (queue, visited) = (queue, visited)"
| "visit_all (n # ns) (queue, visited) =
     (if n \<in> set visited then visit_all ns (queue, visited)
      else visit_all ns (queue @ [n], visited @ [n]))"

partial_function (option) component_loop ::
    "'g petgraph \<Rightarrow> 'g \<Rightarrow> nat list \<Rightarrow> nat list \<Rightarrow> nat list option" where
  \<comment> \<open>whether the search ends depends on the library's answers, so the result is an option\<close>
  "component_loop P g queue visited =
     (case queue of
        [] \<Rightarrow> Some visited
      | node # rest \<Rightarrow>
          (case visit_all (pg_neighbors P g node Incoming)
                  (visit_all (pg_neighbors P g node Outgoing) (rest, visited)) of
             (queue', visited') \<Rightarrow> component_loop P g queue' visited'))"

definition connected_component :: "'g petgraph \<Rightarrow> 'g memory_graph \<Rightarrow> int \<Rightarrow> int list option" where
  "connected_component P m fid =
     (case map_of (mg_node_map m) fid of
        None \<Rightarrow> Some []
      | Some start \<Rightarrow>
          map_option (map (node_fact P m)) (component_loop P (mg_graph m) [start] [start]))"

definition node_count :: "'g petgraph \<Rightarrow> 'g memory_graph \<Rightarrow> nat" where
  "node_count P m = pg_node_count P (mg_graph m)"

definition edge_count :: "'g petgraph \<Rightarrow> 'g memory_graph \<Rightarrow> nat" where
  "edge_count P m = length (pg_edges P (mg_graph m))"

definition add_edges_from_iter :: "'g petgraph \<Rightarrow> 'g memory_graph \<Rightarrow>
    int \<Rightarrow> int \<Rightarrow> int \<Rightarrow> relation_type \<Rightarrow> fl \<Rightarrow> 'g memory_graph" where
  "add_edges_from_iter P m source target edge_id relation_type weight =
     mg_add_edge P m source target
       \<lparr>ed_edge_id = edge_id, ed_relation_type = relation_type, ed_weight = weight\<rparr>"

definition from_active_edges :: "'g petgraph \<Rightarrow> edge list \<Rightarrow> 'g memory_graph" where
  "from_active_edges P es =
     fold (\<lambda>e m. add_edges_from_iter P m (e_source_fact_id e) (e_target_fact_id e)
            (e_id e) (e_relation_type e) (e_weight e)) es (mg_new P)"

record graph_edge_snapshot =
  ge_edge_id :: int
  ge_source :: int
  ge_target :: int
  ge_relation_type :: relation_type
  ge_weight :: fl

definition to_snapshot :: "'g petgraph \<Rightarrow> 'g memory_graph \<Rightarrow> graph_edge_snapshot list" where
  "to_snapshot P m =
     map (\<lambda>(s, t, d). \<lparr>ge_edge_id = ed_edge_id d, ge_source = node_fact P m s,
            ge_target = node_fact P m t, ge_relation_type = ed_relation_type d,
            ge_weight = ed_weight d\<rparr>) (pg_edges P (mg_graph m))"

definition snapshot_edge_error :: "string \<Rightarrow> graph_edge_snapshot \<Rightarrow> memory_error" where
  "snapshot_edge_error template e =
     Internal (Fmt template [AInt (ge_edge_id e), AInt (ge_source e), AInt (ge_target e)])"

fun snapshot_loop :: "'g petgraph \<Rightarrow> int set \<Rightarrow> graph_edge_snapshot list \<Rightarrow> 'g memory_graph
    \<Rightarrow> 'g memory_graph result" where
  "snapshot_loop P existing [] m = Inr m"
| "snapshot_loop P existing (e # es) m =
     (if ge_source e \<le> 0 \<or> ge_target e \<le> 0 \<or> ge_edge_id e \<le> 0
      then Inl (snapshot_edge_error
        ''snapshot edge {} carries a non-positive rowid (source={}, target={}); discarding sidecar and rebuilding from the database'' e)
      else if ge_source e \<notin> existing \<or> ge_target e \<notin> existing
      then Inl (snapshot_edge_error
        ''snapshot edge {} references a fact id absent from the existing-fid set (source={}, target={}); discarding sidecar and rebuilding from the database'' e)
      else snapshot_loop P existing es
        (add_edges_from_iter P m (ge_source e) (ge_target e) (ge_edge_id e)
          (ge_relation_type e) (ge_weight e)))"

definition from_snapshot ::
    "'g petgraph \<Rightarrow> graph_edge_snapshot list \<Rightarrow> int set \<Rightarrow> 'g memory_graph result" where
  "from_snapshot P es existing =
     and_then (check_edge_count_bound (length es)) (\<lambda>_. snapshot_loop P existing es (mg_new P))"

subsection \<open>Swap-removing positions in descending order\<close>

lemma mset_swap_remove:
  assumes "i < length xs"
  shows "mset (swap_remove i xs) = mset xs - {#xs ! i#}"
proof -
  obtain ys y where xs: "xs = ys @ [y]" using assms by (metis length_0_conv not_less_zero rev_exhaust)
  show ?thesis
  proof (cases "Suc i = length xs")
    case True
    then show ?thesis by (simp add: swap_remove_def xs nth_append)
  next
    case False
    with assms have "i < length ys" by (simp add: xs)
    then show ?thesis using False by (simp add: swap_remove_def xs mset_update nth_append)
  qed
qed

lemma length_swap_remove: "length (swap_remove i xs) = length xs - 1"
  by (simp add: swap_remove_def)

lemma nth_swap_remove: "j < i \<Longrightarrow> i < length xs \<Longrightarrow> swap_remove i xs ! j = xs ! j"
  by (auto simp: swap_remove_def nth_butlast)

lemma mset_fold_swap_remove:
  assumes "sorted_wrt (>) is" "\<forall>i \<in> set is. i < length xs"
  shows "mset (fold swap_remove is xs) = mset xs - mset (map ((!) xs) is)"
  using assms
proof (induction "is" arbitrary: xs)
  case (Cons i "is")
  let ?ys = "swap_remove i xs"
  have i: "i < length xs" and below: "\<forall>j \<in> set is. j < i" using Cons.prems by auto
  have "\<forall>j \<in> set is. j < length ?ys" using below i by (auto simp: length_swap_remove)
  then have "mset (fold swap_remove is ?ys) = mset ?ys - mset (map ((!) ?ys) is)"
    using Cons.prems(1) by (intro Cons.IH) auto
  also have "map ((!) ?ys) is = map ((!) xs) is"
    using below i by (intro map_cong) (auto simp: nth_swap_remove)
  finally show ?case using i by (simp add: mset_swap_remove)
qed simp

lemma sorted_remdups_adj_strict:
  "sorted (xs :: nat list) \<Longrightarrow> sorted_wrt (<) (remdups_adj xs)"
  by (induction xs rule: remdups_adj.induct) (auto simp: less_le)

lemma sorted_desc_remdups_adj:
  "sorted_wrt (>) (remdups_adj (rev (sort (xs :: nat list))))"
  using sorted_remdups_adj_strict [OF sorted_sort] by (simp add: remdups_adj_rev sorted_wrt_rev)

lemma desc_distinct: "sorted_wrt (>) (xs :: nat list) \<Longrightarrow> distinct xs"
  by (induction xs) auto

lemma mset_map_nth_indices:
  assumes "distinct is" "set is = {i. i < length xs \<and> Q (xs ! i)}"
  shows "mset (map ((!) xs) is) = {#x \<in># mset xs. Q x#}"
proof -
  have "mset is = mset (filter (\<lambda>i. Q (xs ! i)) [0..<length xs])"
    using assms by (intro set_eq_iff_mset_eq_distinct [THEN iffD1]) auto
  then have "mset (map ((!) xs) is) = mset (map ((!) xs) (filter (\<lambda>i. Q (xs ! i)) [0..<length xs]))"
    by (metis mset_map)
  also have "map ((!) xs) (filter (\<lambda>i. Q (xs ! i)) [0..<length xs]) = filter Q xs"
    using filter_map [of Q "(!) xs" "[0..<length xs]"] by (simp add: comp_def map_nth)
  finally show ?thesis by simp
qed

lemma mset_diff_filter: "M - {#x \<in># M. Q x#} = {#x \<in># M. \<not> Q x#}"
  by (metis add_diff_cancel_left' multiset_partition)

lemma first_occurrences_set: "set (first_occurrences seen xs) = set xs - seen"
  by (induction seen xs rule: first_occurrences.induct) auto

lemma first_occurrences_distinct: "distinct (first_occurrences seen xs)"
  by (induction seen xs rule: first_occurrences.induct) (auto simp: first_occurrences_set)

subsection \<open>Abstraction and invariant\<close>

definition graph_ok :: "'g petgraph \<Rightarrow> 'g memory_graph \<Rightarrow> bool" where
  "graph_ok P m \<longleftrightarrow>
     pg_wf P (mg_graph m) \<and> distinct (map fst (mg_node_map m)) \<and>
     (\<forall>f i. map_of (mg_node_map m) f = Some i \<longleftrightarrow> pg_node_weight P (mg_graph m) i = Some f)"

definition facts_of :: "'g memory_graph \<Rightarrow> int set" where
  "facts_of m = fst ` set (mg_node_map m)"

definition abs_edge :: "'g petgraph \<Rightarrow> 'g memory_graph \<Rightarrow> nat \<times> nat \<times> edge_data
    \<Rightarrow> int \<times> int \<times> edge_data" where
  "abs_edge P m e = (node_fact P m (fst e), node_fact P m (fst (snd e)), snd (snd e))"

definition abs_edges :: "'g petgraph \<Rightarrow> 'g memory_graph \<Rightarrow> (int \<times> int \<times> edge_data) multiset" where
  "abs_edges P m = image_mset (abs_edge P m) (mset (pg_edges P (mg_graph m)))"

definition touches :: "int \<Rightarrow> int \<times> int \<times> edge_data \<Rightarrow> bool" where
  "touches f e \<longleftrightarrow> fst e = f \<or> fst (snd e) = f"

lemma abs_edge_simps [simp]:
  "fst (abs_edge P m e) = node_fact P m (fst e)"
  "fst (snd (abs_edge P m e)) = node_fact P m (fst (snd e))"
  "snd (snd (abs_edge P m e)) = snd (snd e)"
  by (simp_all add: abs_edge_def)

lemma pg_wfD: "pg_wf P g \<Longrightarrow> e \<in> set (pg_edges P g) \<Longrightarrow>
  fst e < pg_node_count P g \<and> fst (snd e) < pg_node_count P g"
  by (cases e) (auto simp: pg_wf_def)

lemma pg_wfI: "(\<And>e. e \<in> set (pg_edges P g) \<Longrightarrow>
  fst e < pg_node_count P g \<and> fst (snd e) < pg_node_count P g) \<Longrightarrow> pg_wf P g"
  unfolding pg_wf_def by fastforce

definition fact_rel :: "(int \<times> int \<times> edge_data) multiset \<Rightarrow> (int \<times> int) set" where
  \<comment> \<open>two facts joined by an edge, in either direction\<close>
  "fact_rel es = {(a, b). \<exists>d. (a, b, d) \<in># es \<or> (b, a, d) \<in># es}"

lemma visit_all_eq:
  "visit_all ns (queue, visited) =
     (queue @ first_occurrences (set visited) ns, visited @ first_occurrences (set visited) ns)"
  by (induction ns "(queue, visited)" arbitrary: queue visited rule: visit_all.induct) auto

lemma first_occurrences_append:
  "first_occurrences seen (xs @ ys) = first_occurrences seen xs @
     first_occurrences (seen \<union> set (first_occurrences seen xs)) ys"
  by (induction seen xs rule: first_occurrences.induct) (auto simp: insert_absorb)

definition snapshot_data :: "graph_edge_snapshot \<Rightarrow> edge_data" where
  "snapshot_data e = \<lparr>ed_edge_id = ge_edge_id e, ed_relation_type = ge_relation_type e,
     ed_weight = ge_weight e\<rparr>"

definition snapshot_edge_ok :: "int set \<Rightarrow> graph_edge_snapshot \<Rightarrow> bool" where
  "snapshot_edge_ok existing e \<longleftrightarrow> 0 < ge_source e \<and> 0 < ge_target e \<and> 0 < ge_edge_id e \<and>
     ge_source e \<in> existing \<and> ge_target e \<in> existing"

lemma filter_mset_none: "{#x \<in># M. Q x#} = {#} \<longleftrightarrow> (\<forall>x. x \<in># M \<longrightarrow> \<not> Q x)"
  by (induction M) auto

lemma facts_of_iff: "f \<in> facts_of m \<longleftrightarrow> (\<exists>i. map_of (mg_node_map m) f = Some i)"
  unfolding facts_of_def by (metis not_key_map_of not_None_eq)

context petgraph_laws begin

lemma graph_ok_weight:
  assumes "graph_ok P m" "i < pg_node_count P (mg_graph m)"
  shows "pg_node_weight P (mg_graph m) i = Some (node_fact P m i)"
    and "map_of (mg_node_map m) (node_fact P m i) = Some i"
proof -
  show w: "pg_node_weight P (mg_graph m) i = Some (node_fact P m i)"
    using assms(2) node_weight_None [of "mg_graph m" i] by (auto simp: node_fact_def)
  with assms(1) show "map_of (mg_node_map m) (node_fact P m i) = Some i"
    by (simp add: graph_ok_def)
qed

lemma graph_ok_map:
  assumes "graph_ok P m" "map_of (mg_node_map m) f = Some i"
  shows "pg_node_weight P (mg_graph m) i = Some f" "i < pg_node_count P (mg_graph m)"
    "node_fact P m i = f"
proof -
  show w: "pg_node_weight P (mg_graph m) i = Some f" using assms by (simp add: graph_ok_def)
  then show "i < pg_node_count P (mg_graph m)"
    using node_weight_None [of "mg_graph m" i] by (metis not_le option.distinct(1))
  from w show "node_fact P m i = f" by (simp add: node_fact_def)
qed

lemma node_fact_eq_iff:
  assumes "graph_ok P m" "i < pg_node_count P (mg_graph m)" "map_of (mg_node_map m) f = Some j"
  shows "node_fact P m i = f \<longleftrightarrow> i = j"
  using graph_ok_weight(2) [OF assms(1,2)] assms(3) graph_ok_map(3) [OF assms(1,3)]
  by (metis option.inject)

lemma mg_new_ok: "graph_ok P (mg_new P)" "facts_of (mg_new P) = {}" "abs_edges P (mg_new P) = {#}"
  using new_graph node_weight_None [of "pg_new P"]
  by (auto simp: graph_ok_def mg_new_def pg_wf_def facts_of_def abs_edges_def)

lemma abs_edges_cong:
  assumes "pg_edges P (mg_graph m') = pg_edges P (mg_graph m)"
    and "\<And>e. e \<in> set (pg_edges P (mg_graph m)) \<Longrightarrow> abs_edge P m' e = abs_edge P m e"
  shows "abs_edges P m' = abs_edges P m"
proof -
  have "map (abs_edge P m') (pg_edges P (mg_graph m)) = map (abs_edge P m) (pg_edges P (mg_graph m))"
    using assms(2) by (rule map_cong [OF refl])
  then show ?thesis by (metis abs_edges_def assms(1) mset_map)
qed

lemma abs_edges_filter:
  assumes "mset (pg_edges P (mg_graph m')) = {#e \<in># mset (pg_edges P (mg_graph m)). \<not> Q e#}"
    and "abs_edge P m' = abs_edge P m"
    and "\<And>e. e \<in> set (pg_edges P (mg_graph m)) \<Longrightarrow> R (abs_edge P m e) \<longleftrightarrow> Q e"
  shows "abs_edges P m' = {#e \<in># abs_edges P m. \<not> R e#}"
proof -
  have "{#e \<in># mset (pg_edges P (mg_graph m)). \<not> R (abs_edge P m e)#} =
      {#e \<in># mset (pg_edges P (mg_graph m)). \<not> Q e#}"
    using assms(3) by (intro filter_mset_cong) auto
  then show ?thesis
    by (simp only: abs_edges_def assms(1,2) filter_mset_image_mset comp_def)
qed

lemma ensure_node_ok_all:
  assumes ok: "graph_ok P m" and e: "ensure_node P m f = (m', i)"
  shows "graph_ok P m' \<and> facts_of m' = insert f (facts_of m) \<and>
    abs_edges P m' = abs_edges P m \<and> map_of (mg_node_map m') f = Some i \<and>
    (\<forall>f' j. map_of (mg_node_map m) f' = Some j \<longrightarrow> map_of (mg_node_map m') f' = Some j)"
proof (cases "map_of (mg_node_map m) f")
  case (Some j)
  then have "f \<in> facts_of m" by (auto simp: facts_of_iff)
  with Some e ok show ?thesis by (auto simp: ensure_node_def)
next
  case None
  let ?g = "mg_graph m"
  obtain g' where add: "pg_add_node P ?g f = (g', i)" and
    m': "m' = \<lparr>mg_graph = g', mg_node_map = AList.update f i (mg_node_map m)\<rparr>"
    using e None by (cases "pg_add_node P ?g f") (auto simp: ensure_node_def)
  note an = add_node [OF add]
  have old: "pg_node_weight P ?g i = None" using an node_weight_None by auto
  have key: "f' \<noteq> f \<and> j \<noteq> i" if "map_of (mg_node_map m) f' = Some j" for f' j
    using that None old graph_ok_map(1) [OF ok that] by auto
  have wf: "pg_wf P g'"
  proof (rule pg_wfI)
    fix e assume "e \<in> set (pg_edges P g')"
    with ok an have "fst e < pg_node_count P ?g \<and> fst (snd e) < pg_node_count P ?g"
      by (intro pg_wfD) (auto simp: graph_ok_def)
    with an show "fst e < pg_node_count P g' \<and> fst (snd e) < pg_node_count P g'" by simp
  qed
  have "map_of (mg_node_map m') f' = Some j \<longleftrightarrow> pg_node_weight P g' j = Some f'" for f' j
    using ok an old None key [of f' j] unfolding graph_ok_def m'
    by (auto simp: update_conv')
  with ok wf have "graph_ok P m'" by (simp add: graph_ok_def m' distinct_update)
  moreover have "facts_of m' = insert f (facts_of m)"
    by (simp add: facts_of_def m' dom_update)
  moreover have "abs_edges P m' = abs_edges P m"
  proof (rule abs_edges_cong)
    show "pg_edges P (mg_graph m') = pg_edges P ?g" using an by (simp add: m')
    fix e assume "e \<in> set (pg_edges P ?g)"
    then have "fst e < pg_node_count P ?g \<and> fst (snd e) < pg_node_count P ?g"
      using ok by (intro pg_wfD) (auto simp: graph_ok_def)
    with an show "abs_edge P m' e = abs_edge P m e"
      by (simp add: abs_edge_def node_fact_def m')
  qed
  ultimately show ?thesis using key by (auto simp: m' update_conv')
qed

lemma ensure_node_ok:
  assumes "graph_ok P m" "ensure_node P m f = (m', i)"
  shows "graph_ok P m'" "facts_of m' = insert f (facts_of m)" "abs_edges P m' = abs_edges P m"
    "map_of (mg_node_map m') f = Some i"
    "map_of (mg_node_map m) f' = Some j \<Longrightarrow> map_of (mg_node_map m') f' = Some j"
  using ensure_node_ok_all [OF assms] by auto

lemma mg_add_edge_ok:
  assumes ok: "graph_ok P m"
  shows "graph_ok P (mg_add_edge P m s t d)"
    "facts_of (mg_add_edge P m s t d) = insert s (insert t (facts_of m))"
    "abs_edges P (mg_add_edge P m s t d) = add_mset (s, t, d) (abs_edges P m)"
proof -
  obtain m1 i where e1: "ensure_node P m s = (m1, i)" by fastforce
  obtain m2 j where e2: "ensure_node P m1 t = (m2, j)" by fastforce
  note o1 = ensure_node_ok [OF ok e1]
  note o2 = ensure_node_ok [OF o1(1) e2]
  have i: "map_of (mg_node_map m2) s = Some i" using o1(4) o2(5) by blast
  note wi = graph_ok_map [OF o2(1) i]
  note wj = graph_ok_map [OF o2(1) o2(4)]
  note ae = add_edge [OF wi(2) wj(2), of d]
  let ?m = "m2\<lparr>mg_graph := pg_add_edge P (mg_graph m2) i j d\<rparr>"
  have m': "mg_add_edge P m s t d = ?m" by (simp add: mg_add_edge_def e1 e2)
  have "pg_wf P (mg_graph ?m)"
    using o2(1) ae wi(2) wj(2) by (intro pg_wfI) (auto simp: graph_ok_def dest!: pg_wfD)
  with o2(1) ae show "graph_ok P (mg_add_edge P m s t d)" by (simp add: m' graph_ok_def)
  show "facts_of (mg_add_edge P m s t d) = insert s (insert t (facts_of m))"
    using o1(2) o2(2) by (auto simp: m' facts_of_def)
  have "abs_edge P ?m = abs_edge P m2"
    using ae by (simp add: fun_eq_iff abs_edge_def node_fact_def)
  then show "abs_edges P (mg_add_edge P m s t d) = add_mset (s, t, d) (abs_edges P m)"
    using ae wi(3) wj(3) o1(3) o2(3) by (simp add: m' abs_edges_def abs_edge_def)
qed

lemma remove_edge_wf:
  assumes "pg_wf P g" "i < length (pg_edges P g)"
  shows "pg_wf P (pg_remove_edge P g i)"
proof (rule pg_wfI)
  fix e assume "e \<in> set (pg_edges P (pg_remove_edge P g i))"
  with remove_edge [OF assms(2)] have "e \<in># mset (swap_remove i (pg_edges P g))" by simp
  then have "e \<in> set (pg_edges P g)"
    by (simp add: mset_swap_remove [OF assms(2)]) (meson in_diffD set_mset_mset in_multiset_in_set)
  with pg_wfD [OF assms(1)] remove_edge [OF assms(2)]
  show "fst e < pg_node_count P (pg_remove_edge P g i) \<and>
      fst (snd e) < pg_node_count P (pg_remove_edge P g i)"
    by simp
qed

lemma fold_remove_edge:
  assumes "sorted_wrt (>) is" "\<forall>i \<in> set is. i < length (pg_edges P g)" "pg_wf P g"
  shows "pg_edges P (fold (\<lambda>i g. pg_remove_edge P g i) is g) = fold swap_remove is (pg_edges P g) \<and>
    pg_node_count P (fold (\<lambda>i g. pg_remove_edge P g i) is g) = pg_node_count P g \<and>
    pg_node_weight P (fold (\<lambda>i g. pg_remove_edge P g i) is g) = pg_node_weight P g \<and>
    pg_wf P (fold (\<lambda>i g. pg_remove_edge P g i) is g)"
  using assms
proof (induction "is" arbitrary: g)
  case (Cons i "is")
  have i: "i < length (pg_edges P g)" using Cons.prems(2) by simp
  have "\<forall>j \<in> set is. j < length (pg_edges P (pg_remove_edge P g i))"
    using Cons.prems(1) i remove_edge [OF i] by (auto simp: length_swap_remove)
  with Cons.IH [of "pg_remove_edge P g i"] Cons.prems remove_edge [OF i] remove_edge_wf [OF _ i]
  show ?case by auto
qed simp

lemma untouched:
  assumes ok: "graph_ok P m" and None: "map_of (mg_node_map m) f = None"
  shows "{#e \<in># abs_edges P m. \<not> touches f e#} = abs_edges P m" "f \<notin> facts_of m"
proof -
  have "\<not> touches f (abs_edge P m e)" if "e \<in> set (pg_edges P (mg_graph m))" for e
  proof -
    have b: "fst e < pg_node_count P (mg_graph m)" "fst (snd e) < pg_node_count P (mg_graph m)"
      using that ok by (auto simp: graph_ok_def dest: pg_wfD)
    from graph_ok_weight(2) [OF ok b(1)] graph_ok_weight(2) [OF ok b(2)] None
    show ?thesis by (auto simp: touches_def)
  qed
  then show "{#e \<in># abs_edges P m. \<not> touches f e#} = abs_edges P m"
    by (auto simp: abs_edges_def filter_mset_eq_conv)
  show "f \<notin> facts_of m" using None by (simp add: facts_of_iff)
qed

lemma remove_edges_by_fact_ok:
  assumes ok: "graph_ok P m"
  shows "graph_ok P (remove_edges_by_fact P m f) \<and>
    facts_of (remove_edges_by_fact P m f) = facts_of m \<and>
    abs_edges P (remove_edges_by_fact P m f) = {#e \<in># abs_edges P m. \<not> touches f e#}"
proof (cases "map_of (mg_node_map m) f")
  case None
  with untouched [OF ok None] ok show ?thesis
    by (simp add: remove_edges_by_fact_def)
next
  case (Some idx)
  let ?g = "mg_graph m" and ?es = "pg_edges P (mg_graph m)"
  let ?Q = "\<lambda>e. fst e = idx \<or> fst (snd e) = idx"
  define ixs where "ixs = remdups_adj (rev (sort
      (pg_edges_directed P ?g idx Outgoing @ pg_edges_directed P ?g idx Incoming)))"
  define g' where "g' = fold (\<lambda>i g. pg_remove_edge P g i) ixs ?g"
  have m': "remove_edges_by_fact P m f = m\<lparr>mg_graph := g'\<rparr>"
    using Some by (simp add: remove_edges_by_fact_def g'_def ixs_def Let_def)
  have wf: "pg_wf P ?g" using ok by (simp add: graph_ok_def)
  have desc: "sorted_wrt (>) ixs" unfolding ixs_def by (rule sorted_desc_remdups_adj)
  then have dist: "distinct ixs" by (rule desc_distinct)
  have set_ixs: "set ixs = {k. k < length ?es \<and> ?Q (?es ! k)}"
    using edges_directed [of ?g idx] by (auto simp: ixs_def near_end_def)
  then have bound: "\<forall>i \<in> set ixs. i < length ?es" by auto
  note fr = fold_remove_edge [OF desc bound wf, folded g'_def]
  have "mset (pg_edges P g') = {#e \<in># mset ?es. \<not> ?Q e#}"
    using fr mset_fold_swap_remove [OF desc bound] mset_map_nth_indices [OF dist set_ixs]
    by (simp add: mset_diff_filter)
  moreover have "abs_edge P (m\<lparr>mg_graph := g'\<rparr>) = abs_edge P m"
    using fr by (simp add: fun_eq_iff abs_edge_def node_fact_def)
  moreover have "touches f (abs_edge P m e) \<longleftrightarrow> ?Q e" if "e \<in> set ?es" for e
    using pg_wfD [OF wf that] node_fact_eq_iff [OF ok _ Some] by (simp add: touches_def)
  ultimately have "abs_edges P (m\<lparr>mg_graph := g'\<rparr>) = {#e \<in># abs_edges P m. \<not> touches f e#}"
    by (intro abs_edges_filter [where Q = ?Q]) simp_all
  with ok fr show ?thesis
    by (simp add: m' graph_ok_def facts_of_def)
qed

lemma find_index:
  assumes "List.find Q [0..<length xs] = Some i"
  shows "i < length xs \<and> Q i"
  using find_eq_Some_in [OF assms] by simp

lemma remove_edge_by_id_ok:
  assumes ok: "graph_ok P m"
    and uniq: "distinct (map (\<lambda>e. ed_edge_id (snd (snd e))) (pg_edges P (mg_graph m)))"
  shows "graph_ok P (remove_edge_by_id P m k) \<and>
    facts_of (remove_edge_by_id P m k) = facts_of m \<and>
    abs_edges P (remove_edge_by_id P m k) =
      {#e \<in># abs_edges P m. \<not> ed_edge_id (snd (snd e)) = k#}"
proof -
  let ?g = "mg_graph m" and ?es = "pg_edges P (mg_graph m)"
  let ?Q = "\<lambda>e. ed_edge_id (snd (snd e)) = k"
  show ?thesis
  proof (cases "List.find (\<lambda>i. ?Q (?es ! i)) [0..<length ?es]")
    case None
    then have "\<forall>e \<in> set ?es. \<not> ?Q e" by (fastforce simp: find_None_iff in_set_conv_nth)
    then have "abs_edges P m = {#e \<in># abs_edges P m. \<not> ?Q e#}"
      by (intro abs_edges_filter [where Q = ?Q]) (simp_all add: filter_mset_eq_conv [THEN iffD2, symmetric])
    with None ok show ?thesis by (simp add: remove_edge_by_id_def)
  next
    case (Some i)
    then have i: "i < length ?es" "?Q (?es ! i)" by (auto dest!: find_index)
    note re = remove_edge [OF i(1)]
    have "{j. j < length ?es \<and> ?Q (?es ! j)} = {i}"
      using i nth_eq_iff_index_eq [OF uniq] by auto
    then have "mset (map ((!) ?es) [i]) = {#e \<in># mset ?es. ?Q e#}"
      by (intro mset_map_nth_indices) simp_all
    then have "mset (swap_remove i ?es) = {#e \<in># mset ?es. \<not> ?Q e#}"
      by (simp add: mset_swap_remove [OF i(1)] flip: mset_diff_filter [of "mset ?es" ?Q])
    moreover have "abs_edge P (m\<lparr>mg_graph := pg_remove_edge P ?g i\<rparr>) = abs_edge P m"
      using re by (simp add: fun_eq_iff abs_edge_def node_fact_def)
    ultimately have "abs_edges P (m\<lparr>mg_graph := pg_remove_edge P ?g i\<rparr>) =
        {#e \<in># abs_edges P m. \<not> ?Q e#}"
      using re by (intro abs_edges_filter [where Q = ?Q]) simp_all
    with Some ok re remove_edge_wf [OF _ i(1)] show ?thesis
      by (simp add: remove_edge_by_id_def graph_ok_def facts_of_def)
  qed
qed

lemma remove_node_map:
  assumes ok: "graph_ok P m" and idx: "map_of (mg_node_map m) f = Some idx"
    and n: "pg_node_count P (mg_graph m) = Suc n"
  shows "mg_graph (mg_remove_node P m f) = pg_remove_node P (mg_graph m) idx"
    and "map_of (mg_node_map (mg_remove_node P m f)) =
      (if idx < n then ((map_of (mg_node_map m))(f := None))(node_fact P m n \<mapsto> idx)
       else (map_of (mg_node_map m))(f := None))"
    and "distinct (map fst (mg_node_map (mg_remove_node P m f)))"
proof -
  have idx_le: "idx \<le> n" using graph_ok_map(2) [OF ok idx] n by simp
  have wf: "pg_wf P (mg_graph m)" and dist: "distinct (map fst (mg_node_map m))"
    using ok by (auto simp: graph_ok_def)
  have w: "pg_node_weight P (pg_remove_node P (mg_graph m) idx) idx =
      (if idx < n then Some (node_fact P m n) else None)"
    using remove_node [OF wf n idx_le] graph_ok_weight(1) [OF ok, of n] n by simp
  show "mg_graph (mg_remove_node P m f) = pg_remove_node P (mg_graph m) idx"
    by (simp add: mg_remove_node_def idx Let_def split: option.split)
  show "map_of (mg_node_map (mg_remove_node P m f)) =
      (if idx < n then ((map_of (mg_node_map m))(f := None))(node_fact P m n \<mapsto> idx)
       else (map_of (mg_node_map m))(f := None))"
    by (simp add: mg_remove_node_def idx w Let_def update_conv' delete_conv')
  show "distinct (map fst (mg_node_map (mg_remove_node P m f)))"
    using dist by (simp add: mg_remove_node_def idx w Let_def distinct_update distinct_delete)
qed

lemma mg_remove_node_ok:
  assumes ok: "graph_ok P m"
  shows "graph_ok P (mg_remove_node P m f) \<and>
    facts_of (mg_remove_node P m f) = facts_of m - {f} \<and>
    abs_edges P (mg_remove_node P m f) = {#e \<in># abs_edges P m. \<not> touches f e#}"
proof (cases "map_of (mg_node_map m) f")
  case None
  with untouched [OF ok None] ok show ?thesis by (simp add: mg_remove_node_def)
next
  case (Some idx)
  let ?g = "mg_graph m" and ?m = "mg_remove_node P m f"
  have lt: "idx < pg_node_count P ?g" by (rule graph_ok_map(2) [OF ok Some])
  then obtain n where n: "pg_node_count P ?g = Suc n" by (cases "pg_node_count P ?g") auto
  have wf: "pg_wf P ?g" using ok by (simp add: graph_ok_def)
  note gm = remove_node_map [OF ok Some n]
  note rn = remove_node [OF wf n, of idx]
  have le: "idx \<le> n" using lt n by simp
  have weight: "pg_node_weight P (mg_graph ?m) =
      (\<lambda>j. if j < n then pg_node_weight P ?g (if j = idx then n else j) else None)"
    using rn le gm(1) by simp
  have inj: "map_of (mg_node_map m) f' = Some j \<longleftrightarrow> j \<le> n \<and> node_fact P m j = f'" for f' j
    using graph_ok_map [OF ok, of f' j] graph_ok_weight(2) [OF ok, of j] n by auto
  have Fidx: "node_fact P m idx = f" by (rule graph_ok_map(3) [OF ok Some])
  have F: "node_fact P m i = node_fact P m j \<longleftrightarrow> i = j" if "i \<le> n" "j \<le> n" for i j
    using inj [of "node_fact P m j" i] inj [of "node_fact P m j" j] that by auto
  have fn: "idx < n \<Longrightarrow> node_fact P m n \<noteq> f" using F [of n idx] Fidx by auto
  have ex: "map_of (mg_node_map ?m) f' = Some j \<longleftrightarrow> pg_node_weight P (mg_graph ?m) j = Some f'"
    for f' j
  proof -
    have "pg_node_weight P (mg_graph ?m) j = Some f' \<longleftrightarrow>
        j < n \<and> node_fact P m (if j = idx then n else j) = f'"
      using graph_ok_weight(1) [OF ok, of "if j = idx then n else j"] n by (simp add: weight)
    moreover have "map_of (mg_node_map ?m) f' = Some j \<longleftrightarrow>
        j < n \<and> node_fact P m (if j = idx then n else j) = f'"
    proof (cases "idx < n")
      case True
      then have ne: "node_fact P m n \<noteq> node_fact P m idx" using F by simp
      show ?thesis
        using True F [of j n] F [of j idx] ne unfolding gm(2)
        by (cases "f' = node_fact P m n"; cases "f' = node_fact P m idx"; cases "j = idx")
          (auto simp: inj Fidx [symmetric] le_less)
    next
      case False
      with le have "idx = n" by simp
      then show ?thesis using F [of j n] unfolding gm(2)
        by (cases "f' = node_fact P m n") (auto simp: inj Fidx [symmetric] le_less)
    qed
    ultimately show ?thesis by simp
  qed
  have edges: "mset (pg_edges P (mg_graph ?m)) =
      image_mset (\<lambda>(s, t, d). (relocate n idx s, relocate n idx t, d))
        {#e \<in># mset (pg_edges P ?g). fst e \<noteq> idx \<and> fst (snd e) \<noteq> idx#}"
    using rn le gm(1) by simp
  have cnt: "pg_node_count P (mg_graph ?m) = n" using rn le gm(1) by simp
  have bound: "s \<le> n \<and> t \<le> n" if "(s, t, d) \<in> set (pg_edges P ?g)" for s t d
    using pg_wfD [OF wf, of "(s, t, d)"] that n by simp
  have rel: "relocate n idx s < n \<and> node_fact P ?m (relocate n idx s) = node_fact P m s"
    if "s \<le> n" "s \<noteq> idx" for s
    using that le by (auto simp: relocate_def node_fact_def weight)
  have wf': "pg_wf P (mg_graph ?m)"
  proof (rule pg_wfI)
    fix e assume "e \<in> set (pg_edges P (mg_graph ?m))"
    then have "e \<in># mset (pg_edges P (mg_graph ?m))" by simp
    then obtain s t d where "(s, t, d) \<in> set (pg_edges P ?g)" "s \<noteq> idx" "t \<noteq> idx"
      "e = (relocate n idx s, relocate n idx t, d)"
      unfolding edges by auto
    then show "fst e < pg_node_count P (mg_graph ?m) \<and> fst (snd e) < pg_node_count P (mg_graph ?m)"
      using rel bound cnt by fastforce
  qed
  have "touches f (abs_edge P m e) \<longleftrightarrow> fst e = idx \<or> fst (snd e) = idx"
    if "e \<in> set (pg_edges P ?g)" for e
    using pg_wfD [OF wf that] node_fact_eq_iff [OF ok _ Some] by (simp add: touches_def)
  then have "{#e \<in># abs_edges P m. \<not> touches f e#} =
      image_mset (abs_edge P m) {#e \<in># mset (pg_edges P ?g). fst e \<noteq> idx \<and> fst (snd e) \<noteq> idx#}"
    unfolding abs_edges_def filter_mset_image_mset
    by (intro arg_cong [where f = "image_mset _"] filter_mset_cong) auto
  also have "\<dots> = abs_edges P ?m"
    unfolding abs_edges_def edges multiset.map_comp
    by (rule image_mset_cong) (auto simp: abs_edge_def rel dest!: bound)
  finally have ae: "abs_edges P ?m = {#e \<in># abs_edges P m. \<not> touches f e#}" by simp
  have "f' \<in> facts_of ?m \<longleftrightarrow> f' \<in> facts_of m - {f}" for f'
  proof -
    have "f' \<in> facts_of ?m \<longleftrightarrow> (\<exists>j. map_of (mg_node_map ?m) f' = Some j)" by (rule facts_of_iff)
    also have "\<dots> \<longleftrightarrow> f' \<in> facts_of m - {f}"
    proof (cases "idx < n")
      case True
      have "node_fact P m n \<in> facts_of m"
        using graph_ok_weight(2) [OF ok, of n] n by (auto simp: facts_of_iff)
      with True fn show ?thesis unfolding gm(2) by (auto simp: facts_of_iff)
    qed (auto simp: gm(2) facts_of_iff)
    finally show ?thesis .
  qed
  then have "facts_of ?m = facts_of m - {f}" by blast
  with ae wf' ex gm(3) show ?thesis by (simp add: graph_ok_def)
qed

text \<open>The three views of a node's edges.\<close>

lemma neighbors_mset:
  assumes ok: "graph_ok P m" and idx: "map_of (mg_node_map m) f = Some idx"
  shows "image_mset (node_fact P m) (mset (pg_neighbors P (mg_graph m) idx Outgoing)) =
      image_mset (\<lambda>e. fst (snd e)) {#e \<in># abs_edges P m. fst e = f#}"
    and "image_mset (node_fact P m) (mset (pg_neighbors P (mg_graph m) idx Incoming)) =
      image_mset fst {#e \<in># abs_edges P m. fst (snd e) = f#}"
proof -
  have wf: "pg_wf P (mg_graph m)" using ok by (simp add: graph_ok_def)
  have iff: "(fst (abs_edge P m e) = f \<longleftrightarrow> fst e = idx) \<and>
      (fst (snd (abs_edge P m e)) = f \<longleftrightarrow> fst (snd e) = idx)"
    if "e \<in> set (pg_edges P (mg_graph m))" for e
    using pg_wfD [OF wf that] node_fact_eq_iff [OF ok _ idx] by simp
  have o: "{#e \<in># abs_edges P m. fst e = f#} =
      image_mset (abs_edge P m) {#e \<in># mset (pg_edges P (mg_graph m)). fst e = idx#}"
    unfolding abs_edges_def filter_mset_image_mset
    by (intro arg_cong [where f = "image_mset _"] filter_mset_cong) (use iff in auto)
  have i: "{#e \<in># abs_edges P m. fst (snd e) = f#} =
      image_mset (abs_edge P m) {#e \<in># mset (pg_edges P (mg_graph m)). fst (snd e) = idx#}"
    unfolding abs_edges_def filter_mset_image_mset
    by (intro arg_cong [where f = "image_mset _"] filter_mset_cong) (use iff in auto)
  show "image_mset (node_fact P m) (mset (pg_neighbors P (mg_graph m) idx Outgoing)) =
      image_mset (\<lambda>e. fst (snd e)) {#e \<in># abs_edges P m. fst e = f#}"
    unfolding o neighbors_directed multiset.map_comp
    by (simp add: near_end_def far_end_def comp_def abs_edge_def)
  show "image_mset (node_fact P m) (mset (pg_neighbors P (mg_graph m) idx Incoming)) =
      image_mset fst {#e \<in># abs_edges P m. fst (snd e) = f#}"
    unfolding i neighbors_directed multiset.map_comp
    by (simp add: near_end_def far_end_def comp_def abs_edge_def)
qed

lemma no_edges_of_absent:
  assumes "graph_ok P m" "map_of (mg_node_map m) f = None"
  shows "{#e \<in># abs_edges P m. fst e = f#} = {#}" "{#e \<in># abs_edges P m. fst (snd e) = f#} = {#}"
proof -
  have "\<not> touches f e" if "e \<in># abs_edges P m" for e
    using untouched(1) [OF assms] that by (metis filter_mset_eq_conv)
  then show "{#e \<in># abs_edges P m. fst e = f#} = {#}" "{#e \<in># abs_edges P m. fst (snd e) = f#} = {#}"
    by (auto simp: filter_mset_none touches_def)
qed

lemma neighbors_ok:
  assumes "graph_ok P m"
  shows "mset (neighbors P m f) = image_mset (\<lambda>e. fst (snd e)) {#e \<in># abs_edges P m. fst e = f#}"
  using neighbors_mset(1) [OF assms] no_edges_of_absent [OF assms]
  by (cases "map_of (mg_node_map m) f") (auto simp: neighbors_def)

lemma degree_ok:
  assumes "graph_ok P m"
  shows "degree P m f = size {#e \<in># abs_edges P m. fst e = f#} +
    size {#e \<in># abs_edges P m. fst (snd e) = f#}"
proof (cases "map_of (mg_node_map m) f")
  case (Some idx)
  from arg_cong [where f = size, OF neighbors_mset(1) [OF assms Some]]
    arg_cong [where f = size, OF neighbors_mset(2) [OF assms Some]] Some
  show ?thesis by (simp add: degree_def)
qed (use no_edges_of_absent [OF assms] in \<open>simp add: degree_def\<close>)

lemma neighbors_undirected_ok:
  assumes "graph_ok P m"
  shows "distinct (neighbors_undirected P m f)"
    and "set (neighbors_undirected P m f) =
      {a. a \<noteq> f \<and> (\<exists>d. (f, a, d) \<in># abs_edges P m \<or> (a, f, d) \<in># abs_edges P m)}"
proof -
  show "distinct (neighbors_undirected P m f)"
    by (simp add: neighbors_undirected_def first_occurrences_distinct split: option.split)
  show "set (neighbors_undirected P m f) =
      {a. a \<noteq> f \<and> (\<exists>d. (f, a, d) \<in># abs_edges P m \<or> (a, f, d) \<in># abs_edges P m)}"
  proof (cases "map_of (mg_node_map m) f")
    case None
    then show ?thesis
      using no_edges_of_absent [OF assms None]
      by (auto simp: neighbors_undirected_def filter_mset_none)
  next
    case (Some idx)
    note n = neighbors_mset [OF assms Some]
    have "node_fact P m ` set (pg_neighbors P (mg_graph m) idx Outgoing) =
        {a. \<exists>d. (f, a, d) \<in># abs_edges P m}"
      using arg_cong [where f = set_mset, OF n(1)] by (force simp: image_iff)
    moreover have "node_fact P m ` set (pg_neighbors P (mg_graph m) idx Incoming) =
        {a. \<exists>d. (a, f, d) \<in># abs_edges P m}"
      using arg_cong [where f = set_mset, OF n(2)] by (force simp: image_iff)
    ultimately show ?thesis
      by (auto simp: neighbors_undirected_def Some first_occurrences_set image_Un)
  qed
qed

text \<open>The search for the connected component ends, and visits exactly what can be reached.\<close>

definition nbr_rel :: "'g \<Rightarrow> (nat \<times> nat) set" where
  "nbr_rel g = {(a, b). \<exists>d. (a, b, d) \<in> set (pg_edges P g) \<or> (b, a, d) \<in> set (pg_edges P g)}"

lemma nbr_rel_neighbors:
  "set (pg_neighbors P g a Outgoing) \<union> set (pg_neighbors P g a Incoming) = {b. (a, b) \<in> nbr_rel g}"
proof -
  have "set (pg_neighbors P g a dir) = far_end dir ` {e \<in> set (pg_edges P g). near_end dir e = a}" for dir
    using arg_cong [where f = set_mset, OF neighbors_directed [of g a dir]] by simp
  then show ?thesis
    by (force simp: nbr_rel_def near_end_def far_end_def image_iff)
qed

lemma component_loop_ok:
  assumes wf: "pg_wf P g" and d: "distinct visited"
    and inv: "set queue \<subseteq> set visited" "set visited \<subseteq> {..<pg_node_count P g}"
      "s \<in> set visited" "\<forall>a \<in> set visited. (s, a) \<in> (nbr_rel g)\<^sup>*"
      "\<forall>a \<in> set visited - set queue. \<forall>b. (a, b) \<in> nbr_rel g \<longrightarrow> b \<in> set visited"
  shows "\<exists>v. component_loop P g queue visited = Some v \<and> distinct v \<and> set v = {a. (s, a) \<in> (nbr_rel g)\<^sup>*}"
  using d inv
proof (induction "pg_node_count P g - length visited + length queue" arbitrary: queue visited
    rule: less_induct)
  case less
  show ?case
  proof (cases queue)
    case Nil
    have "a \<in> set visited" if "(s, a) \<in> (nbr_rel g)\<^sup>*" for a
      using that by induction (use less.prems Nil in auto)
    then have "set visited = {a. (s, a) \<in> (nbr_rel g)\<^sup>*}" using less.prems(5) by auto
    with Nil less.prems(1) show ?thesis by (subst component_loop.simps) simp
  next
    case (Cons a rest)
    define ns where "ns = pg_neighbors P g a Outgoing @ pg_neighbors P g a Incoming"
    define new where "new = first_occurrences (set visited) ns"
    have va: "visit_all (pg_neighbors P g a Incoming)
        (visit_all (pg_neighbors P g a Outgoing) (rest, visited)) = (rest @ new, visited @ new)"
      by (simp add: visit_all_eq ns_def new_def first_occurrences_append)
    have step: "component_loop P g queue visited = component_loop P g (rest @ new) (visited @ new)"
      by (subst component_loop.simps) (simp add: Cons va)
    have nbrs: "set ns = {b. (a, b) \<in> nbr_rel g}"
      using nbr_rel_neighbors [of g a] by (simp add: ns_def)
    have set_new: "set new = set ns - set visited" by (simp add: new_def first_occurrences_set)
    have a: "a \<in> set visited" using less.prems(2) Cons by simp
    have dist: "distinct (visited @ new)"
      using less.prems(1) set_new by (auto simp: new_def first_occurrences_distinct)
    have range: "set (visited @ new) \<subseteq> {..<pg_node_count P g}"
      using less.prems(3) wf set_new nbrs by (fastforce simp: nbr_rel_def pg_wf_def)
    then have "length (visited @ new) \<le> pg_node_count P g"
      using card_mono [OF _ range] distinct_card [OF dist] by simp
    then have "pg_node_count P g - length (visited @ new) + length (rest @ new) <
        pg_node_count P g - length visited + length queue"
      by (simp add: Cons)
    moreover have "\<forall>b \<in> set (visited @ new). (s, b) \<in> (nbr_rel g)\<^sup>*"
      using less.prems(5) a set_new nbrs by (auto intro: rtrancl_into_rtrancl [of s a])
    moreover have "\<forall>c \<in> set (visited @ new) - set (rest @ new).
        \<forall>b. (c, b) \<in> nbr_rel g \<longrightarrow> b \<in> set (visited @ new)"
    proof (intro ballI allI impI)
      fix c b assume c: "c \<in> set (visited @ new) - set (rest @ new)" and cb: "(c, b) \<in> nbr_rel g"
      then have "c \<in> set visited" "c \<notin> set rest" by auto
      then have "c = a \<or> c \<in> set visited - set queue" using Cons by auto
      then show "b \<in> set (visited @ new)"
        using less.prems(6) cb set_new nbrs by (elim disjE) auto
    qed
    moreover have "set (rest @ new) \<subseteq> set (visited @ new)" "s \<in> set (visited @ new)"
      using less.prems(2,4) Cons by auto
    ultimately show ?thesis
      unfolding step by (intro less.hyps dist range)
  qed
qed

lemma fact_rel_iff:
  assumes ok: "graph_ok P m" and idx: "map_of (mg_node_map m) f = Some idx"
  shows "node_fact P m ` {a. (idx, a) \<in> (nbr_rel (mg_graph m))\<^sup>*} = {a. (f, a) \<in> (fact_rel (abs_edges P m))\<^sup>*}"
proof (intro equalityI subsetI)
  have wf: "pg_wf P (mg_graph m)" using ok by (simp add: graph_ok_def)
  fix x assume "x \<in> node_fact P m ` {a. (idx, a) \<in> (nbr_rel (mg_graph m))\<^sup>*}"
  then obtain a where "(idx, a) \<in> (nbr_rel (mg_graph m))\<^sup>*" and x: "x = node_fact P m a" by auto
  from this(1) have "(f, node_fact P m a) \<in> (fact_rel (abs_edges P m))\<^sup>*"
  proof induction
    case base
    show ?case by (simp add: graph_ok_map(3) [OF ok idx])
  next
    case (step a b)
    then have "(node_fact P m a, node_fact P m b) \<in> fact_rel (abs_edges P m)"
      by (force simp: nbr_rel_def fact_rel_def abs_edges_def abs_edge_def image_iff)
    with step.IH show ?case by (rule rtrancl_into_rtrancl)
  qed
  with x show "x \<in> {a. (f, a) \<in> (fact_rel (abs_edges P m))\<^sup>*}" by simp
next
  have wf: "pg_wf P (mg_graph m)" using ok by (simp add: graph_ok_def)
  fix x assume "x \<in> {a. (f, a) \<in> (fact_rel (abs_edges P m))\<^sup>*}"
  then have "(f, x) \<in> (fact_rel (abs_edges P m))\<^sup>*" by simp
  then show "x \<in> node_fact P m ` {a. (idx, a) \<in> (nbr_rel (mg_graph m))\<^sup>*}"
  proof induction
    case base
    show ?case using graph_ok_map(3) [OF ok idx] by auto
  next
    case (step x y)
    then obtain a where a: "x = node_fact P m a" "(idx, a) \<in> (nbr_rel (mg_graph m))\<^sup>*" by auto
    have lt: "a < pg_node_count P (mg_graph m)"
      using a(2) graph_ok_map(2) [OF ok idx] wf
      by (cases rule: rtranclE) (auto simp: nbr_rel_def pg_wf_def)
    from step(2) obtain s t d where e: "(s, t, d) \<in> set (pg_edges P (mg_graph m))"
      "node_fact P m s = x \<and> node_fact P m t = y \<or> node_fact P m s = y \<and> node_fact P m t = x"
      by (auto simp: fact_rel_def abs_edges_def abs_edge_def image_iff)
    have inj: "node_fact P m i = node_fact P m a \<longleftrightarrow> i = a" if "i < pg_node_count P (mg_graph m)" for i
      using node_fact_eq_iff [OF ok that graph_ok_weight(2) [OF ok lt]] .
    have "(a, s) \<in> nbr_rel (mg_graph m) \<and> node_fact P m s = y \<or>
        (a, t) \<in> nbr_rel (mg_graph m) \<and> node_fact P m t = y"
      using e inj pg_wfD [OF wf e(1)] a(1) by (auto simp: nbr_rel_def)
    with a(2) show ?case by (auto intro: rtrancl_into_rtrancl)
  qed
qed

lemma connected_component_ok:
  assumes ok: "graph_ok P m"
  shows "\<exists>xs. connected_component P m f = Some xs \<and> distinct xs \<and>
    set xs = (if f \<in> facts_of m then {a. (f, a) \<in> (fact_rel (abs_edges P m))\<^sup>*} else {})"
proof (cases "map_of (mg_node_map m) f")
  case None
  then show ?thesis by (simp add: connected_component_def facts_of_iff)
next
  case (Some idx)
  let ?g = "mg_graph m"
  have wf: "pg_wf P ?g" using ok by (simp add: graph_ok_def)
  have lt: "idx < pg_node_count P ?g" by (rule graph_ok_map(2) [OF ok Some])
  obtain v where v: "component_loop P ?g [idx] [idx] = Some v" "distinct v"
    "set v = {a. (idx, a) \<in> (nbr_rel ?g)\<^sup>*}"
    using component_loop_ok [OF wf, of "[idx]" "[idx]" idx] lt by auto
  have "a < pg_node_count P ?g" if "(idx, a) \<in> (nbr_rel ?g)\<^sup>*" for a
    using that lt wf by (cases rule: rtranclE) (auto simp: nbr_rel_def pg_wf_def)
  then have "inj_on (node_fact P m) (set v)"
    using graph_ok_weight(2) [OF ok] unfolding v(3) by (intro inj_onI) (metis mem_Collect_eq option.inject)
  then have "distinct (map (node_fact P m) v)" using v(2) by (simp add: distinct_map)
  with v fact_rel_iff [OF ok Some] Some show ?thesis
    by (auto simp: connected_component_def facts_of_iff)
qed

text \<open>Rebuilding a graph from rows or from a snapshot.\<close>

lemma fold_add_edges_ok:
  assumes "graph_ok P m"
  shows "graph_ok P (fold (\<lambda>e m. mg_add_edge P m (src e) (tgt e) (dat e)) es m) \<and>
    facts_of (fold (\<lambda>e m. mg_add_edge P m (src e) (tgt e) (dat e)) es m) =
      facts_of m \<union> src ` set es \<union> tgt ` set es \<and>
    abs_edges P (fold (\<lambda>e m. mg_add_edge P m (src e) (tgt e) (dat e)) es m) =
      abs_edges P m + image_mset (\<lambda>e. (src e, tgt e, dat e)) (mset es)"
  using assms
proof (induction es arbitrary: m)
  case (Cons e es)
  note ae = mg_add_edge_ok [OF Cons.prems, of "src e" "tgt e" "dat e"]
  from Cons.IH [OF ae(1)] ae(2,3) show ?case by auto
qed simp

lemma from_active_edges_ok:
  "graph_ok P (from_active_edges P es) \<and>
   facts_of (from_active_edges P es) = e_source_fact_id ` set es \<union> e_target_fact_id ` set es \<and>
   abs_edges P (from_active_edges P es) =
     image_mset (\<lambda>e. (e_source_fact_id e, e_target_fact_id e,
       \<lparr>ed_edge_id = e_id e, ed_relation_type = e_relation_type e, ed_weight = e_weight e\<rparr>)) (mset es)"
  unfolding from_active_edges_def add_edges_from_iter_def
  using fold_add_edges_ok [OF mg_new_ok(1), of e_source_fact_id e_target_fact_id
    "\<lambda>e. \<lparr>ed_edge_id = e_id e, ed_relation_type = e_relation_type e, ed_weight = e_weight e\<rparr>" es]
    mg_new_ok(2,3)
  by simp

lemma snapshot_loop_Inr:
  "snapshot_loop P existing es m = Inr m' \<longleftrightarrow> (\<forall>e \<in> set es. snapshot_edge_ok existing e) \<and>
     m' = fold (\<lambda>e m. mg_add_edge P m (ge_source e) (ge_target e) (snapshot_data e)) es m"
  by (induction P existing es m rule: snapshot_loop.induct)
    (auto simp: snapshot_edge_ok_def add_edges_from_iter_def snapshot_data_def)

lemma from_snapshot_ok:
  assumes "from_snapshot P es existing = Inr m"
  shows "length es \<le> max_snapshot_edges" "\<forall>e \<in> set es. snapshot_edge_ok existing e"
    "graph_ok P m" "facts_of m = ge_source ` set es \<union> ge_target ` set es"
    "abs_edges P m = image_mset (\<lambda>e. (ge_source e, ge_target e, snapshot_data e)) (mset es)"
proof -
  have c: "length es \<le> max_snapshot_edges" and s: "snapshot_loop P existing es (mg_new P) = Inr m"
    using assms by (auto simp: from_snapshot_def check_edge_count_bound_def split: if_splits)
  show "length es \<le> max_snapshot_edges" by (rule c)
  note s = s [unfolded snapshot_loop_Inr]
  from s show "\<forall>e \<in> set es. snapshot_edge_ok existing e" by simp
  note fa = fold_add_edges_ok [OF mg_new_ok(1), of ge_source ge_target snapshot_data es]
  from s fa mg_new_ok(2,3) show "graph_ok P m" "facts_of m = ge_source ` set es \<union> ge_target ` set es"
    "abs_edges P m = image_mset (\<lambda>e. (ge_source e, ge_target e, snapshot_data e)) (mset es)"
    by auto
qed

lemma from_snapshot_Inr_iff:
  "is_ok (from_snapshot P es existing) \<longleftrightarrow>
     length es \<le> max_snapshot_edges \<and> (\<forall>e \<in> set es. snapshot_edge_ok existing e)"
proof -
  have "is_ok (snapshot_loop P existing es (mg_new P)) \<longleftrightarrow> (\<forall>e \<in> set es. snapshot_edge_ok existing e)"
    by (simp add: is_ok_iff snapshot_loop_Inr)
  then show ?thesis
    by (auto simp: from_snapshot_def check_edge_count_bound_def)
qed

lemma snapshot_roundtrip:
  assumes ok: "graph_ok P m" and len: "edge_count P m \<le> max_snapshot_edges"
    and valid: "\<forall>(s, t, d) \<in># abs_edges P m. s \<in> existing \<and> t \<in> existing \<and> 0 < s \<and> 0 < t \<and> 0 < ed_edge_id d"
  shows "\<exists>m'. from_snapshot P (to_snapshot P m) existing = Inr m' \<and> graph_ok P m' \<and>
    abs_edges P m' = abs_edges P m"
proof -
  let ?snap = "\<lambda>(s, t, d). \<lparr>ge_edge_id = ed_edge_id d, ge_source = node_fact P m s,
            ge_target = node_fact P m t, ge_relation_type = ed_relation_type d, ge_weight = ed_weight d\<rparr>"
  have "\<forall>e \<in> set (to_snapshot P m). snapshot_edge_ok existing e"
    using valid by (force simp: to_snapshot_def snapshot_edge_ok_def abs_edges_def abs_edge_def)
  moreover have "length (to_snapshot P m) \<le> max_snapshot_edges"
    using len by (simp add: to_snapshot_def edge_count_def)
  ultimately have "is_ok (from_snapshot P (to_snapshot P m) existing)"
    by (simp add: from_snapshot_Inr_iff)
  then obtain m' where m': "from_snapshot P (to_snapshot P m) existing = Inr m'"
    by (auto simp: is_ok_iff)
  note fs = from_snapshot_ok [OF m']
  have "(\<lambda>e. (ge_source e, ge_target e, snapshot_data e)) \<circ> ?snap = abs_edge P m"
    by (auto simp: fun_eq_iff abs_edge_def snapshot_data_def)
  then have "abs_edges P m' = abs_edges P m"
    using fs(5) by (simp add: to_snapshot_def abs_edges_def multiset.map_comp)
  with m' fs(3) show ?thesis by blast
qed

end

subsection \<open>A list implementation of the graph library\<close>

record list_graph =
  lg_nodes :: "int list"
  lg_edges :: "(nat \<times> nat \<times> edge_data) list"

definition lg_directed :: "list_graph \<Rightarrow> nat \<Rightarrow> direction \<Rightarrow> nat list" where
  "lg_directed g a dir =
     filter (\<lambda>k. near_end dir (lg_edges g ! k) = a) [0..<length (lg_edges g)]"

definition list_petgraph :: "list_graph petgraph" where
  "list_petgraph = \<lparr>
     pg_new = \<lparr>lg_nodes = [], lg_edges = []\<rparr>,
     pg_add_node = (\<lambda>g w. (g\<lparr>lg_nodes := lg_nodes g @ [w]\<rparr>, length (lg_nodes g))),
     pg_node_weight = (\<lambda>g i. if i < length (lg_nodes g) then Some (lg_nodes g ! i) else None),
     pg_node_count = (\<lambda>g. length (lg_nodes g)),
     pg_add_edge = (\<lambda>g s t d. g\<lparr>lg_edges := lg_edges g @ [(s, t, d)]\<rparr>),
     pg_edges = lg_edges,
     pg_remove_edge = (\<lambda>g i. g\<lparr>lg_edges := swap_remove i (lg_edges g)\<rparr>),
     pg_remove_node = (\<lambda>g i. \<lparr>
       lg_nodes = swap_remove i (lg_nodes g),
       lg_edges = map (\<lambda>(s, t, d). (relocate (length (lg_nodes g) - 1) i s,
           relocate (length (lg_nodes g) - 1) i t, d))
         (filter (\<lambda>e. fst e \<noteq> i \<and> fst (snd e) \<noteq> i) (lg_edges g))\<rparr>),
     pg_edges_directed = lg_directed,
     pg_neighbors = (\<lambda>g a dir. map (far_end dir) (filter (\<lambda>e. near_end dir e = a) (lg_edges g)))\<rparr>"

lemma nth_swap_remove_any:
  assumes "i < length xs" "j < length xs - 1"
  shows "swap_remove i xs ! j = (if j = i then last xs else xs ! j)"
  using assms by (auto simp: swap_remove_def nth_butlast)

interpretation lpg: petgraph_laws list_petgraph
proof (unfold_locales, goal_cases)
  case (7 g n i)
  then have len: "length (lg_nodes g) = Suc n" by (simp add: list_petgraph_def)
  then have "last (lg_nodes g) = lg_nodes g ! n" by (cases "lg_nodes g" rule: rev_cases) auto
  with 7 len show ?case
    by (auto simp: list_petgraph_def length_swap_remove nth_swap_remove_any fun_eq_iff)
qed (auto simp: list_petgraph_def lg_directed_def fun_eq_iff nth_append less_Suc_eq)

end
