(* ===== verification/Storage_Port.thy ===== *)
theory Storage_Port
  imports Backend Memory_Graph
begin

text \<open>
  The persistence port as the primitives see it, \<open>me-storage\<close>: the capability handle
  \<open>MemoryCtx\<close> (\<open>ctx.rs\<close>) and the methods of the storage trait the modelled primitives call, as
  the record \<open>storage\<close>. \<open>sqlite_storage\<close> is the SQLite backend as such a port.

  The locales state what a primitive may rely on: \<open>fact_graph_port\<close>, for the primitives that
  mirror a commit in the in-memory graph, and \<open>scope_port\<close>, for those that mirror it in the
  scope tree. Both are interpreted on \<open>sqlite_storage\<close>.
\<close>

record memory_ctx =
  ctx_embed_dim :: nat
  ctx_read_only :: bool
  ctx_reopen_required :: nat  \<comment> \<open>0, or the dimension the store was reconfigured to\<close>

definition ensure_open :: "memory_ctx \<Rightarrow> unit result" where
  "ensure_open ctx =
     (if ctx_reopen_required ctx = 0 then Inr ()
      else Inl (EmbeddingReopenRequired (ctx_reopen_required ctx)))"

definition ensure_writable :: "memory_ctx \<Rightarrow> unit result" where
  "ensure_writable ctx = (if ctx_read_only ctx then Inl ReadOnly else Inr ())"

record 's storage =
  get_fact :: "'s \<Rightarrow> fact_id \<Rightarrow> fact result"
  list_active_facts_scoring :: "'s \<Rightarrow> fact_scoring_row list result"
  get_scope :: "'s \<Rightarrow> int \<Rightarrow> scope_node result"
  p_ensure_scope_path :: "string \<Rightarrow> ('s, int) op"
  p_insert_fact_atomic :: "new_fact \<Rightarrow> fingerprint \<Rightarrow> nat \<Rightarrow> ('s, fact_id) op"
  p_insert_facts_batch_atomic ::
    "new_fact list \<Rightarrow> string option list \<Rightarrow> fingerprint \<Rightarrow> nat \<Rightarrow> ('s, fact_id list \<times> int list) op"
  p_resolve_conflict_atomic :: "crud_decision \<Rightarrow> fact_id \<Rightarrow> new_fact \<Rightarrow> string \<Rightarrow> fl \<Rightarrow> time
    \<Rightarrow> ('s, fact_id option \<times> int option) op"
  p_prune_atomic :: "(fact_id \<times> fl) list \<Rightarrow> fact_id list \<Rightarrow> time
    \<Rightarrow> ('s, prune_stats \<times> fact_id list) op"

definition sqlite_storage :: "(string \<Rightarrow> string) \<Rightarrow> nat \<Rightarrow> db storage" where
  "sqlite_storage hash edim = \<lparr>
     get_fact = fact_get edim,
     list_active_facts_scoring = (\<lambda>D. Inr (list_active_scoring D)),
     get_scope = (\<lambda>D. scope_get (d_scopes D)),
     p_ensure_scope_path = ensure_scope_path,
     p_insert_fact_atomic = insert_fact_atomic hash edim,
     p_insert_facts_batch_atomic = insert_facts_batch_atomic hash edim,
     p_resolve_conflict_atomic = resolve_conflict_atomic hash edim,
     p_prune_atomic = prune_atomic\<rparr>"

text \<open>Operations on a pair of the store and an in-memory index.\<close>

definition on_store :: "('s, 'a) op \<Rightarrow> ('s \<times> 'i, 'a) op" where
  "on_store m = (\<lambda>(s, i). case m s of (r, s') \<Rightarrow> (r, (s', i)))"

definition on_index :: "('i \<Rightarrow> 'i) \<Rightarrow> ('s \<times> 'i, unit) op" where
  "on_index f = (\<lambda>(s, i). (Inr (), (s, f i)))"

lemma on_store_eq [simp]: "on_store m (s, i) = (r, (s', i')) \<longleftrightarrow> m s = (r, s') \<and> i' = i"
  and on_index_apply [simp]: "on_index f (s, i) = (Inr (), (s, f i))"
  by (auto simp: on_store_def on_index_def split: prod.splits)

subsection \<open>The graph mirrors the active edges\<close>

definition edge_triple :: "edge \<Rightarrow> int \<times> int \<times> edge_data" where
  "edge_triple e = (e_source_fact_id e, e_target_fact_id e,
     \<lparr>ed_edge_id = e_id e, ed_relation_type = e_relation_type e, ed_weight = e_weight e\<rparr>)"

definition mirrors :: "'g petgraph \<Rightarrow> 'g memory_graph \<Rightarrow> edge list \<Rightarrow> bool" where
  \<comment> \<open>the graph is well formed and has exactly the given edges\<close>
  "mirrors P m es \<longleftrightarrow> graph_ok P m \<and> abs_edges P m = image_mset edge_triple (mset es)"

lemma touches_triple [simp]: "touches i (edge_triple e) = edge_touches i e"
  by (simp add: touches_def edge_triple_def edge_touches_def)

context petgraph_laws begin

lemma mirrors_remove:
  assumes "mirrors P m es"
  shows "mirrors P (remove_edges_by_fact P m i) (filter (\<lambda>e. \<not> edge_touches i e) es)"
  using assms remove_edges_by_fact_ok [of m i]
  by (simp add: mirrors_def filter_mset_image_mset comp_def)

lemma mirrors_remove_all:
  "mirrors P m es \<Longrightarrow> mirrors P (fold (\<lambda>i m. remove_edges_by_fact P m i) ids m)
     (filter (\<lambda>e. \<forall>i \<in> set ids. \<not> edge_touches i e) es)"
proof (induction ids arbitrary: m es)
  case (Cons i ids)
  from Cons.IH [OF mirrors_remove [OF Cons.prems, of i]] show ?case by (simp add: conj_commute)
qed simp

lemma mirrors_add:
  assumes "mirrors P m es" "edge_triple e = (s, t, d)"
  shows "mirrors P (mg_add_edge P m s t d) (es @ [e])"
  using assms mg_add_edge_ok [of m s t d] by (simp add: mirrors_def)

lemma mirrors_from_active_edges: "mirrors P (from_active_edges P es) es"
  using from_active_edges_ok [of es] by (simp add: mirrors_def edge_triple_def [abs_def])

lemma mirrors_unique:
  "mirrors P m es \<Longrightarrow> mirrors P m' es \<Longrightarrow> abs_edges P m = abs_edges P m'"
  by (simp add: mirrors_def)

end

subsection \<open>What the primitives rely on\<close>

text \<open>
  \<open>st_ok\<close> is the invariant of the store, \<open>st_edges\<close> the active edges it would list and
  \<open>st_active\<close> its active facts.
\<close>

locale fact_graph_port =
  fixes S :: "'s storage" and st_ok :: "'s \<Rightarrow> bool" and st_edges :: "'s \<Rightarrow> edge list"
    and st_active :: "'s \<Rightarrow> fact_id \<Rightarrow> bool"
  assumes scoring: "st_ok s \<Longrightarrow> list_active_facts_scoring S s = Inr rows \<Longrightarrow>
      distinct (map r_id rows) \<and> (\<forall>r \<in> set rows. st_active s (r_id r))"
    and prune_commit: "st_ok s \<Longrightarrow> p_prune_atomic S scored to_expire now s = (Inr (stats, expired), s') \<Longrightarrow>
      distinct to_expire \<Longrightarrow> (\<forall>i \<in> set to_expire. st_active s i) \<Longrightarrow> distinct (map fst scored) \<Longrightarrow>
      st_ok s' \<and> expired = to_expire \<and>
      ps_facts_expired stats = length to_expire \<and> ps_facts_evaluated stats = length scored \<and>
      (\<forall>j. st_active s' j \<longleftrightarrow> st_active s j \<and> j \<notin> set to_expire) \<and>
      st_edges s' = filter (\<lambda>e. \<forall>i \<in> set to_expire. \<not> edge_touches i e) (st_edges s)"
    and prune_error: "p_prune_atomic S scored to_expire now s = (Inl e, s') \<Longrightarrow> s' = s"
    and resolve_add: "st_ok s \<Longrightarrow>
      p_resolve_conflict_atomic S CrudAdd old nf rel w now s = (Inr (n, k), s') \<Longrightarrow>
      st_ok s' \<and> st_active s old \<and> (\<exists>n' k' e. n = Some n' \<and> k = Some k' \<and> st_edges s' = st_edges s @ [e] \<and>
        edge_triple e = (n', old, \<lparr>ed_edge_id = k', ed_relation_type = relation_from rel, ed_weight = w\<rparr>))"
    and resolve_update: "st_ok s \<Longrightarrow>
      p_resolve_conflict_atomic S CrudUpdate old nf rel w now s = (Inr (n, k), s') \<Longrightarrow>
      st_ok s' \<and> \<not> st_active s' old \<and> (\<exists>n' k' e. n = Some n' \<and> k = Some k' \<and>
        st_edges s' = filter (\<lambda>e. \<not> edge_touches old e) (st_edges s) @ [e] \<and>
        edge_triple e = (n', old, \<lparr>ed_edge_id = k', ed_relation_type = relation_from rel, ed_weight = w\<rparr>))"
    and resolve_delete: "st_ok s \<Longrightarrow>
      p_resolve_conflict_atomic S CrudDelete old nf rel w now s = (Inr (n, k), s') \<Longrightarrow>
      st_ok s' \<and> \<not> st_active s' old \<and> n = None \<and> k = None \<and>
      st_edges s' = filter (\<lambda>e. \<not> edge_touches old e) (st_edges s)"
    and resolve_noop: "p_resolve_conflict_atomic S CrudNoop old nf rel w now s = (Inr (n, k), s') \<Longrightarrow>
      s' = s \<and> n = None \<and> k = None"
    and resolve_error: "p_resolve_conflict_atomic S decision old nf rel w now s = (Inl e, s') \<Longrightarrow> s' = s"

lemma is_active_iff_row:
  assumes "db_inv edim D"
  shows "is_active D i \<longleftrightarrow> (\<exists>f. row D i = Some f \<and> is_active_row f)"
  using row_iff [OF assms] by (auto simp: is_active_def)

lemma prune_atomic_finite:
  assumes "prune_atomic scored to_expire now D = (Inr x, D')"
  shows "\<forall>(i, v) \<in> set scored. fl_is_finite v"
proof -
  from assms obtain u D1 where "update_importance_scores_bulk scored D = (Inr u, D1)"
    by (auto simp: prune_atomic_def op_bind_Inr)
  then have "scored = [] \<or> nonfinite_score scored = None"
    by (auto simp: update_importance_scores_bulk_def split: if_splits option.splits)
  then show ?thesis by (auto simp: nonfinite_score_None)
qed

interpretation sql: fact_graph_port "sqlite_storage hash edim" "db_inv edim" active_edges is_active
proof (unfold_locales, goal_cases)
  case (1 D rows)
  from 1(2) have rows: "rows = map row_to_scoring_row (filter is_active_row (d_facts D))"
    by (simp add: sqlite_storage_def list_active_scoring_def)
  have "map r_id rows = map f_id (filter is_active_row (d_facts D))"
    by (simp add: rows row_to_scoring_row_def)
  moreover have "\<forall>r \<in> set rows. is_active D (r_id r)"
    by (auto simp: rows row_to_scoring_row_def is_active_def)
  ultimately show ?case
    using db_inv_distinct(1) [OF 1(1)] by (simp add: distinct_map_filter)
next
  case (2 D scored to_expire now stats expired D')
  then have r: "prune_atomic scored to_expire now D = (Inr (stats, expired), D')"
    by (simp add: sqlite_storage_def)
  from prune_atomic_ok [OF 2(1) 2(3,4) 2(5) prune_atomic_finite [OF r], of now] r show ?case by auto
next
  case (3 scored to_expire now D e D')
  then show ?case
    using atomic_methods(8) by (auto simp: sqlite_storage_def all_or_nothing_def)
next
  case (4 D old nf rel w now n k D')
  then have act: "is_active D old" and r: "insert_successor hash edim old nf rel w now D = (Inr (n, k), D')"
    by (auto simp: sqlite_storage_def resolve_conflict_atomic_def split: if_splits)
  show ?case
    using insert_successor_ok [OF 4(1) r] act keepsD [OF keeps_insert_successor 4(1) r]
    by (auto simp: edge_triple_def)
next
  case (5 D old nf rel w now n k D')
  then obtain u D1 where c: "cascade_expire old now D = (Inr u, D1)"
    and r: "insert_successor hash edim old nf rel w now D1 = (Inr (n, k), D')"
    by (auto simp: sqlite_storage_def resolve_conflict_atomic_def op_bind_Inr)
  have inv1: "db_inv edim D1" by (rule keepsD [OF keeps_cascade_expire 5(1) c])
  have act: "is_active D old" using cascade_expire_ok(1) [OF c] by (auto split: if_splits)
  note ins = insert_successor_ok [OF inv1 r] and inv' = keepsD [OF keeps_insert_successor inv1 r]
  from ins obtain m where m: "m \<notin> fact_ids_of D1"
    "\<forall>j. row D' j = (if j = m then Some (new_fact_row hash m nf) else row D1 j)" by blast
  have "\<not> is_active D1 old" using cascade_expire_ok(3) [OF c, of old] by simp
  moreover have "old \<in> fact_ids_of D1"
  proof -
    have "row D old \<noteq> None" using act is_active_iff_row [OF 5(1)] by auto
    then have "old \<in> fact_ids_of D" by (simp add: row_None)
    then show ?thesis using cascade_ids [OF c] by simp
  qed
  ultimately have "\<not> is_active D' old"
    using m is_active_iff_row [OF inv1] is_active_iff_row [OF inv'] by auto
  with ins inv' cascade_expire_ok(2) [OF c act] show ?case by (auto simp: edge_triple_def)
next
  case (6 D old nf rel w now n k D')
  then obtain u where c: "cascade_expire old now D = (Inr u, D')" "n = None" "k = None"
    by (auto simp: sqlite_storage_def resolve_conflict_atomic_def op_bind_Inr)
  have act: "is_active D old" using cascade_expire_ok(1) [OF c(1)] by (auto split: if_splits)
  show ?case
    using c keepsD [OF keeps_cascade_expire 6(1) c(1)] cascade_expire_ok(2) [OF c(1) act]
      cascade_expire_ok(3) [OF c(1), of old] by simp
next
  case (7 old nf rel w now D n k D')
  then show ?case by (auto simp: sqlite_storage_def resolve_conflict_atomic_def)
next
  case (8 decision old nf rel w now D e D')
  then show ?case
    using atomic_methods(7) by (auto simp: sqlite_storage_def all_or_nothing_def)
qed

end
