(* ===== verification/Forget.thy ===== *)
theory Forget
  imports Storage_Port
begin

text \<open>
  Importance scoring and pruning, \<open>me-forget/src/policy.rs\<close>. \<open>compute_importance\<close> is the
  weighted sum of recency, access frequency, graph degree and base importance; \<open>prune\<close> scores
  every active fact and soft-expires those below the policy's threshold, then removes their
  edges from the in-memory graph.

  The lemmas show the score's range for a validated policy, that it does not decrease with the
  degree, that pinned and decay-exempt facts are never expired, and that \<open>prune\<close> leaves the
  graph a mirror of the store.
\<close>

definition ebbinghaus_decay :: "fl \<Rightarrow> fl \<Rightarrow> fl" where
  "ebbinghaus_decay age_days half_life = fl_exp2 (fl_div (fl_neg age_days) half_life)"

record importance_inputs =
  ii_fact_type :: fact_type
  ii_last_accessed :: time
  ii_access_count :: int
  ii_base_importance :: fl

definition inputs_of_fact :: "fact \<Rightarrow> importance_inputs" where
  "inputs_of_fact f = \<lparr>ii_fact_type = f_fact_type f, ii_last_accessed = f_last_accessed f,
     ii_access_count = f_access_count f, ii_base_importance = f_base_importance f\<rparr>"

definition inputs_of_row :: "fact_scoring_row \<Rightarrow> importance_inputs" where
  "inputs_of_row r = \<lparr>ii_fact_type = r_fact_type r, ii_last_accessed = r_last_accessed r,
     ii_access_count = r_access_count r, ii_base_importance = r_base_importance r\<rparr>"

definition num_seconds :: "int \<Rightarrow> int" where
  \<comment> \<open>whole seconds of a duration in nanoseconds, truncated towards zero\<close>
  "num_seconds d = (if 0 \<le> d then d div 1000000000 else - ((- d) div 1000000000))"

definition recency :: "importance_inputs \<Rightarrow> time \<Rightarrow> forget_policy \<Rightarrow> fl" where
  "recency fa now policy =
     (if is_decay_exempt policy (ii_fact_type fa) then Fin 1
      else let half_life = (case map_of (p_half_life_overrides policy) (ii_fact_type fa) of
                 Some hl \<Rightarrow> hl | None \<Rightarrow> p_half_life_days policy);
               age_days = fl_div (Fin (of_int (num_seconds (now - ii_last_accessed fa)))) (Fin 86400)
           in ebbinghaus_decay (fl_max age_days (Fin 0)) half_life)"

definition log_share :: "fl \<Rightarrow> fl \<Rightarrow> fl" where
  \<comment> \<open>\<open>(ln_1p(n) / arg.ln()).min(1.0)\<close>\<close>
  "log_share n arg = fl_min (fl_div (fl_ln_1p n) (fl_ln arg)) (Fin 1)"

definition frequency_normalization_arg :: fl where "frequency_normalization_arg = Fin 101"
definition connectivity_normalization_arg :: fl where "connectivity_normalization_arg = Fin 51"

definition compute_importance ::
    "importance_inputs \<Rightarrow> nat \<Rightarrow> time \<Rightarrow> forget_policy \<Rightarrow> fl" where
  "compute_importance fa graph_degree now policy =
     (let freq = log_share (Fin (of_int (ii_access_count fa))) frequency_normalization_arg;
          connectivity = log_share (Fin (of_nat graph_degree)) connectivity_normalization_arg
      in fl_add
        (fl_mul_add (p_recency_weight policy) (recency fa now policy)
          (fl_mul (p_frequency_weight policy) freq))
        (fl_mul_add (p_graph_degree_weight policy) connectivity
          (fl_mul (p_base_importance_weight policy) (ii_base_importance fa))))"

definition score_all ::
    "'g petgraph \<Rightarrow> 'g memory_graph \<Rightarrow> forget_policy \<Rightarrow> time \<Rightarrow> fact_scoring_row list
      \<Rightarrow> (fact_id \<times> fl) list" where
  "score_all P g policy now rows =
     map (\<lambda>r. (r_id r, compute_importance (inputs_of_row r) (degree P g (r_id r)) now policy)) rows"

definition select_expired ::
    "forget_policy \<Rightarrow> fact_scoring_row list \<Rightarrow> (fact_id \<times> fl) list \<Rightarrow> fact_id list" where
  "select_expired policy rows scored =
     List.map_filter (\<lambda>(r, (_, score)).
       if r_is_pinned r \<or> is_decay_exempt policy (r_fact_type r) then None
       else if fl_lt score (p_min_importance policy) then Some (r_id r) else None)
     (zip rows scored)"

definition prune ::
    "'s storage \<Rightarrow> 'g petgraph \<Rightarrow> memory_ctx \<Rightarrow> forget_policy \<Rightarrow> time
      \<Rightarrow> ('s \<times> 'g memory_graph, prune_stats \<times> fact_id list) op" where
  "prune S P ctx policy now =
     op_bind (op_of (ensure_open ctx)) (\<lambda>_.
     op_bind (op_of (ensure_writable ctx)) (\<lambda>_.
     op_bind (op_of (validate_policy policy)) (\<lambda>_.
     op_bind (op_reads (\<lambda>(s, g). list_active_facts_scoring S s)) (\<lambda>rows.
     op_bind (op_reads (\<lambda>(s, g). Inr (score_all P g policy now rows))) (\<lambda>scored.
     op_bind (on_store (p_prune_atomic S scored (select_expired policy rows scored) now))
       (\<lambda>(stats, expired).
     op_bind (on_index (fold (\<lambda>i g. remove_edges_by_fact P g i) expired)) (\<lambda>_.
     op_return (stats, expired))))))))"

subsection \<open>The range of the score\<close>

lemma log_share_bounds:
  assumes "0 \<le> n" "1 < a"
  shows "\<exists>x. log_share (Fin n) (Fin a) = Fin x \<and> 0 \<le> x \<and> x \<le> 1"
proof -
  have "0 < ln a" "0 \<le> ln (1 + n)" using assms by auto
  then show ?thesis using assms by (auto simp: log_share_def fl_ln_1p_def)
qed

lemma log_share_mono:
  assumes "0 \<le> m" "m \<le> n" "1 < a"
  shows "fl_val (log_share (Fin m) (Fin a)) \<le> fl_val (log_share (Fin n) (Fin a))"
proof -
  have "0 < ln a" "ln (1 + m) \<le> ln (1 + n)" using assms by auto
  then have "ln (1 + m) / ln a \<le> ln (1 + n) / ln a" by (simp add: divide_right_mono)
  then show ?thesis using assms by (auto simp: log_share_def fl_ln_1p_def)
qed

lemma ebbinghaus_bounds:
  assumes "0 \<le> age" "0 < hl"
  shows "\<exists>x. ebbinghaus_decay (Fin age) (Fin hl) = Fin x \<and> 0 < x \<and> x \<le> 1"
proof -
  have "2 powr (- age / hl) \<le> 2 powr 0"
    using assms by (intro powr_mono) (auto simp: divide_nonneg_pos)
  then show ?thesis using assms by (simp add: ebbinghaus_decay_def)
qed

lemma recency_bounds:
  assumes "validate_policy policy = Inr ()"
  shows "\<exists>x. recency fa now policy = Fin x \<and> 0 \<le> x \<and> x \<le> 1"
proof (cases "is_decay_exempt policy (ii_fact_type fa)")
  case True
  then show ?thesis by (simp add: recency_def)
next
  case False
  define hl where "hl = (case map_of (p_half_life_overrides policy) (ii_fact_type fa) of
      Some hl \<Rightarrow> hl | None \<Rightarrow> p_half_life_days policy)"
  have "\<exists>h. hl = Fin h \<and> 0 < h"
    using validate_policy_ok(1) [OF assms] validate_policy_ok(2) [OF assms]
    by (auto simp: hl_def split: option.split)
  then obtain h where h: "hl = Fin h" "0 < h" by auto
  have "\<exists>x. recency fa now policy = Fin x \<and> 0 < x \<and> x \<le> 1"
    using False h ebbinghaus_bounds [of "max (of_int (num_seconds (now - ii_last_accessed fa)) / 86400) 0" h]
    by (simp add: recency_def hl_def [symmetric] Let_def)
  then show ?thesis by (metis less_imp_le)
qed

definition weight_sum :: "forget_policy \<Rightarrow> real" where
  "weight_sum p = fl_val (p_recency_weight p) + fl_val (p_frequency_weight p) +
     fl_val (p_graph_degree_weight p) + fl_val (p_base_importance_weight p)"

lemma importance_value:
  assumes v: "validate_policy policy = Inr ()" and a: "0 \<le> ii_access_count fa"
    and b: "ii_base_importance fa = Fin b"
  obtains r f c where "recency fa now policy = Fin r" "0 \<le> r" "r \<le> 1"
    "0 \<le> f" "f \<le> 1" "0 \<le> c" "c \<le> 1"
    "log_share (Fin (of_nat d)) connectivity_normalization_arg = Fin c"
    "compute_importance fa d now policy = Fin (fl_val (p_recency_weight policy) * r +
      fl_val (p_frequency_weight policy) * f +
      (fl_val (p_graph_degree_weight policy) * c + fl_val (p_base_importance_weight policy) * b))"
proof -
  obtain r where r: "recency fa now policy = Fin r" "0 \<le> r" "r \<le> 1" using recency_bounds [OF v] by blast
  obtain f where f: "log_share (Fin (of_int (ii_access_count fa))) frequency_normalization_arg = Fin f"
    "0 \<le> f" "f \<le> 1"
    using log_share_bounds [of "of_int (ii_access_count fa)" 101] a
    by (auto simp: frequency_normalization_arg_def)
  obtain c where c: "log_share (Fin (of_nat d)) connectivity_normalization_arg = Fin c" "0 \<le> c" "c \<le> 1"
    using log_share_bounds [of "of_nat d" 51] by (auto simp: connectivity_normalization_arg_def)
  obtain w1 w2 w3 w4 where "p_recency_weight policy = Fin w1" "p_frequency_weight policy = Fin w2"
    "p_graph_degree_weight policy = Fin w3" "p_base_importance_weight policy = Fin w4"
    using validate_policy_ok(4-7) [OF v] by (auto simp: nonneg_weight_def)
  then show ?thesis using that [OF r f(2,3) c(2,3,1)] r f c b
    by (simp add: compute_importance_def fl_mul_add_def)
qed

lemma valid_weights_nonneg:
  assumes "validate_policy policy = Inr ()"
  shows "0 \<le> fl_val (p_recency_weight policy)" "0 \<le> fl_val (p_frequency_weight policy)"
    "0 \<le> fl_val (p_graph_degree_weight policy)" "0 \<le> fl_val (p_base_importance_weight policy)"
  using validate_policy_ok(4-7) [OF assms] by (auto simp: nonneg_weight_def)

lemma compute_importance_range:
  assumes v: "validate_policy policy = Inr ()" and a: "0 \<le> ii_access_count fa"
    and b: "ii_base_importance fa = Fin b" "0 \<le> b" "b \<le> 1"
  shows "\<exists>x. compute_importance fa d now policy = Fin x \<and> 0 \<le> x \<and> x \<le> weight_sum policy"
proof -
  note w = valid_weights_nonneg [OF v]
  obtain r f c where *: "0 \<le> r" "r \<le> 1" "0 \<le> f" "f \<le> 1" "0 \<le> c" "c \<le> 1"
    "compute_importance fa d now policy = Fin (fl_val (p_recency_weight policy) * r +
      fl_val (p_frequency_weight policy) * f +
      (fl_val (p_graph_degree_weight policy) * c + fl_val (p_base_importance_weight policy) * b))"
    by (rule importance_value [OF v a b(1)])
  have le: "x * y \<le> x" "0 \<le> x * y" if "0 \<le> x" "0 \<le> y" "y \<le> 1" for x y :: real
    using that by (auto simp: mult_left_le)
  from * b show ?thesis
    using le [OF w(1), of r] le [OF w(2), of f] le [OF w(3), of c] le [OF w(4), of b]
    by (simp add: weight_sum_def)
qed

lemma compute_importance_mono_degree:
  assumes v: "validate_policy policy = Inr ()" and a: "0 \<le> ii_access_count fa"
    and b: "ii_base_importance fa = Fin b" "0 \<le> b" "b \<le> 1" and d: "d \<le> d'"
  shows "fl_val (compute_importance fa d now policy) \<le> fl_val (compute_importance fa d' now policy)"
proof -
  have m: "fl_val (log_share (Fin (of_nat d)) connectivity_normalization_arg)
      \<le> fl_val (log_share (Fin (of_nat d')) connectivity_normalization_arg)"
    using d by (simp add: connectivity_normalization_arg_def log_share_mono)
  obtain f where f: "log_share (Fin (of_int (ii_access_count fa))) frequency_normalization_arg = Fin f"
    using log_share_bounds [of "of_int (ii_access_count fa)" 101] a
    by (auto simp: frequency_normalization_arg_def)
  obtain c c' where c: "log_share (Fin (of_nat d)) connectivity_normalization_arg = Fin c"
    "log_share (Fin (of_nat d')) connectivity_normalization_arg = Fin c'"
    using log_share_bounds [of "of_nat d" 51] log_share_bounds [of "of_nat d'" 51]
    by (auto simp: connectivity_normalization_arg_def)
  obtain r where r: "recency fa now policy = Fin r" using recency_bounds [OF v] by blast
  obtain w1 w2 w3 w4 where "p_recency_weight policy = Fin w1" "p_frequency_weight policy = Fin w2"
    "p_graph_degree_weight policy = Fin w3" "0 \<le> w3" "p_base_importance_weight policy = Fin w4"
    using validate_policy_ok(4-7) [OF v] by (auto simp: nonneg_weight_def)
  with m c f r b show ?thesis
    by (simp add: compute_importance_def fl_mul_add_def mult_left_mono)
qed

subsection \<open>What is selected\<close>

lemma select_expired_score_all:
  "select_expired policy rows (score_all P g policy now rows) =
     map r_id (filter (\<lambda>r. \<not> r_is_pinned r \<and> \<not> is_decay_exempt policy (r_fact_type r) \<and>
       fl_lt (compute_importance (inputs_of_row r) (degree P g (r_id r)) now policy)
         (p_min_importance policy)) rows)"
  by (induction rows) (auto simp: select_expired_def score_all_def map_filter_def)

lemma score_all_fst: "map fst (score_all P g policy now rows) = map r_id rows"
  by (simp add: score_all_def)

lemma prune_Inr:
  assumes "prune S P ctx policy now (s, g) = (Inr (stats, expired), (s', g'))"
  obtains rows scored where "ensure_open ctx = Inr ()" "ensure_writable ctx = Inr ()"
    "validate_policy policy = Inr ()" "list_active_facts_scoring S s = Inr rows"
    "scored = score_all P g policy now rows"
    "p_prune_atomic S scored (select_expired policy rows scored) now s = (Inr (stats, expired), s')"
    "g' = fold (\<lambda>i g. remove_edges_by_fact P g i) expired g"
  using assms by (auto simp: prune_def op_bind_Inr)

lemma prune_precedence:
  "ensure_open ctx = Inl e \<Longrightarrow> prune S P ctx policy now sg = (Inl e, sg)"
  "ensure_open ctx = Inr () \<Longrightarrow> ensure_writable ctx = Inl e \<Longrightarrow> prune S P ctx policy now sg = (Inl e, sg)"
  "ensure_open ctx = Inr () \<Longrightarrow> ensure_writable ctx = Inr () \<Longrightarrow> validate_policy policy = Inl e \<Longrightarrow>
     prune S P ctx policy now sg = (Inl e, sg)"
  by (simp_all add: prune_def op_bind_def)

locale mirrored_store = petgraph_laws P + fact_graph_port S st_ok st_edges st_active
  for P :: "'g petgraph" and S :: "'s storage" and st_ok :: "'s \<Rightarrow> bool"
    and st_edges :: "'s \<Rightarrow> edge list" and st_active :: "'s \<Rightarrow> fact_id \<Rightarrow> bool"
begin

lemma prune_mirrors:
  assumes ok: "st_ok s" and m: "mirrors P g (st_edges s)"
    and r: "prune S P ctx policy now (s, g) = (Inr (stats, expired), (s', g'))"
  shows "st_ok s'" "mirrors P g' (st_edges s')"
    and "ps_facts_expired stats = length expired"
    and "st_active s' j \<longleftrightarrow> st_active s j \<and> j \<notin> set expired"
proof -
  from r obtain rows scored where *: "list_active_facts_scoring S s = Inr rows"
    "scored = score_all P g policy now rows"
    "p_prune_atomic S scored (select_expired policy rows scored) now s = (Inr (stats, expired), s')"
    "g' = fold (\<lambda>i g. remove_edges_by_fact P g i) expired g"
    by (rule prune_Inr)
  note sc = scoring [OF ok *(1)]
  have "distinct (select_expired policy rows scored)"
    using sc unfolding *(2) select_expired_score_all by (simp add: distinct_map_filter)
  moreover have "\<forall>i \<in> set (select_expired policy rows scored). st_active s i"
    using sc unfolding *(2) select_expired_score_all by auto
  moreover have "distinct (map fst scored)" using sc by (simp add: *(2) score_all_fst)
  ultimately have c: "st_ok s' \<and> expired = select_expired policy rows scored \<and>
      ps_facts_expired stats = length (select_expired policy rows scored) \<and>
      ps_facts_evaluated stats = length scored \<and>
      (\<forall>j. st_active s' j \<longleftrightarrow> st_active s j \<and> j \<notin> set (select_expired policy rows scored)) \<and>
      st_edges s' = filter (\<lambda>e. \<forall>i \<in> set (select_expired policy rows scored). \<not> edge_touches i e) (st_edges s)"
    by (rule prune_commit [OF ok *(3)])
  then show "st_ok s'" "ps_facts_expired stats = length expired"
    "st_active s' j \<longleftrightarrow> st_active s j \<and> j \<notin> set expired" by simp_all
  show "mirrors P g' (st_edges s')"
    using c mirrors_remove_all [OF m, of expired] *(4) by simp
qed

lemma prune_error_unchanged:
  assumes "prune S P ctx policy now (s, g) = (Inl e, (s', g'))"
  shows "s' = s \<and> g' = g"
  using assms by (auto simp: prune_def op_bind_Inl dest: prune_error)

end

text \<open>The SQLite backend and the list graph meet both contracts.\<close>

interpretation sqlm: mirrored_store list_petgraph "sqlite_storage hash edim" "db_inv edim" active_edges is_active ..

subsection \<open>Pruning the SQLite store succeeds\<close>

lemma prune_succeeds_ok:
  assumes inv: "db_inv edim D" and ctx: "ensure_open ctx = Inr ()" "ensure_writable ctx = Inr ()"
    and v: "validate_policy policy = Inr ()"
    and rows: "\<forall>f \<in> set (d_facts D). is_active_row f \<longrightarrow>
      0 \<le> f_access_count f \<and> fl_is_finite (f_base_importance f)"
  shows "\<exists>stats D' g'. prune (sqlite_storage hash edim) P ctx policy now (D, g) =
    (Inr (stats, map f_id (filter (\<lambda>f. is_active_row f \<and> \<not> f_is_pinned f \<and>
       \<not> is_decay_exempt policy (f_fact_type f) \<and>
       fl_lt (compute_importance (inputs_of_fact f) (degree P g (f_id f)) now policy)
         (p_min_importance policy)) (d_facts D))), (D', g'))"
proof -
  define rs where "rs = list_active_scoring D"
  define scored where "scored = score_all P g policy now rs"
  have l: "list_active_facts_scoring (sqlite_storage hash edim) D = Inr rs"
    by (simp add: sqlite_storage_def rs_def)
  note sc = sql.scoring [OF inv l]
  have sel: "select_expired policy rs scored = map f_id (filter (\<lambda>f. is_active_row f \<and> \<not> f_is_pinned f \<and>
       \<not> is_decay_exempt policy (f_fact_type f) \<and>
       fl_lt (compute_importance (inputs_of_fact f) (degree P g (f_id f)) now policy)
         (p_min_importance policy)) (d_facts D))"
    unfolding scored_def select_expired_score_all
    by (simp add: rs_def list_active_scoring_def row_to_scoring_row_def filter_map comp_def
        inputs_of_row_def inputs_of_fact_def conj_commute conj_left_commute)
  have "fl_is_finite (compute_importance (inputs_of_row r) d now policy)" if "r \<in> set rs" for r d
  proof -
    from that rows have "0 \<le> ii_access_count (inputs_of_row r)"
      "fl_is_finite (ii_base_importance (inputs_of_row r))"
      by (auto simp: rs_def list_active_scoring_def row_to_scoring_row_def inputs_of_row_def)
    then obtain b where "0 \<le> ii_access_count (inputs_of_row r)" "ii_base_importance (inputs_of_row r) = Fin b"
      by (cases "ii_base_importance (inputs_of_row r)") auto
    then show ?thesis by (rule importance_value [OF v, of _ _ now d]) simp
  qed
  then have fin: "\<forall>(i, x) \<in> set scored. fl_is_finite x" by (auto simp: scored_def score_all_def)
  have "distinct (select_expired policy rs scored)" "\<forall>i \<in> set (select_expired policy rs scored). is_active D i"
    "distinct (map fst scored)"
    using sc unfolding scored_def select_expired_score_all score_all_fst by (auto simp: distinct_map_filter)
  from prune_atomic_ok [OF inv this fin, of now] obtain D' stats where
    "prune_atomic scored (select_expired policy rs scored) now D =
      (Inr (stats, select_expired policy rs scored), D')" by blast
  then show ?thesis
    using ctx v l
    by (simp add: prune_def op_bind_def on_store_def on_index_def sqlite_storage_def
        scored_def [symmetric] sel)
qed

end
