(* ===== verification/Resolve.thy ===== *)
theory Resolve
  imports Forget
begin

text \<open>
  Conflict resolution, \<open>me-resolve/src/lib.rs\<close>: the consumer's arbiter decides between a stored
  fact and a candidate, one transaction commits the decision, and the in-memory graph is then
  given the same change. The arbiter is a parameter. The lemmas show that the graph stays a
  mirror of the store on every decision, and that an error changes neither.
\<close>

definition conflict_supplements_relation :: string where
  "conflict_supplements_relation = ''supplements''"

definition conflict_contradicts_relation :: string where
  "conflict_contradicts_relation = ''contradicts''"

definition conflict_edge_weight :: fl where "conflict_edge_weight = Fin 1"

record conflict_resolution =
  cr_decision :: crud_decision
  cr_old_fact_id :: fact_id
  cr_new_fact_id :: "fact_id option"

definition relation_of :: "crud_decision \<Rightarrow> string" where
  "relation_of decision = (case decision of
      CrudAdd \<Rightarrow> conflict_supplements_relation
    | CrudUpdate \<Rightarrow> conflict_contradicts_relation
    | CrudDelete \<Rightarrow> [] | CrudNoop \<Rightarrow> [])"

definition mirror_edge ::
    "'g petgraph \<Rightarrow> fact_id \<Rightarrow> string \<Rightarrow> fact_id option \<Rightarrow> int option
      \<Rightarrow> 'g memory_graph \<Rightarrow> 'g memory_graph" where
  "mirror_edge P old_id relation new_id edge_id g =
     (case (new_id, edge_id) of
        (Some n, Some k) \<Rightarrow> mg_add_edge P g n old_id \<lparr>ed_edge_id = k,
          ed_relation_type = relation_from relation, ed_weight = conflict_edge_weight\<rparr>
      | _ \<Rightarrow> g)"

definition mirror_decision ::
    "'g petgraph \<Rightarrow> crud_decision \<Rightarrow> fact_id \<Rightarrow> string \<Rightarrow> fact_id option \<Rightarrow> int option
      \<Rightarrow> 'g memory_graph \<Rightarrow> 'g memory_graph" where
  "mirror_decision P decision old_id relation new_id edge_id g =
     (case decision of
        CrudAdd \<Rightarrow> mirror_edge P old_id relation new_id edge_id g
      | CrudUpdate \<Rightarrow> mirror_edge P old_id relation new_id edge_id (remove_edges_by_fact P g old_id)
      | CrudDelete \<Rightarrow> remove_edges_by_fact P g old_id
      | CrudNoop \<Rightarrow> g)"

definition resolve_conflict ::
    "'s storage \<Rightarrow> 'g petgraph \<Rightarrow> (json \<Rightarrow> nat list) \<Rightarrow> memory_ctx
      \<Rightarrow> (fact \<Rightarrow> fact \<Rightarrow> crud_decision result) \<Rightarrow> fact_id \<Rightarrow> new_fact \<Rightarrow> time
      \<Rightarrow> ('s \<times> 'g memory_graph, conflict_resolution) op" where
  \<comment> \<open>\<open>chunks\<close> gives the sizes of the writes the JSON serialiser makes for a value\<close>
  "resolve_conflict S P chunks ctx arbitrate old_id nf now =
     op_bind (op_of (ensure_open ctx)) (\<lambda>_.
     op_bind (op_of (ensure_writable ctx)) (\<lambda>_.
     op_bind (op_of (check_new_fact chunks nf)) (\<lambda>_.
     op_bind (op_reads (\<lambda>(s, g). get_fact S s old_id)) (\<lambda>old_fact.
     op_bind (op_of (arbitrate old_fact (from_new_for_arbiter nf))) (\<lambda>decision.
     let relation = relation_of decision in
     op_bind (on_store (p_resolve_conflict_atomic S decision old_id nf relation
                conflict_edge_weight now)) (\<lambda>(new_fact_id, edge_id).
     op_bind (on_index (mirror_decision P decision old_id relation new_fact_id edge_id)) (\<lambda>_.
     op_return \<lparr>cr_decision = decision, cr_old_fact_id = old_id, cr_new_fact_id = new_fact_id\<rparr>)))))))"

lemma resolve_conflict_Inr:
  assumes "resolve_conflict S P chunks ctx arbitrate old_id nf now (s, g) = (Inr cr, (s', g'))"
  obtains old k where "check_new_fact chunks nf = Inr ()" "get_fact S s old_id = Inr old"
    "arbitrate old (from_new_for_arbiter nf) = Inr (cr_decision cr)" "cr_old_fact_id cr = old_id"
    "p_resolve_conflict_atomic S (cr_decision cr) old_id nf (relation_of (cr_decision cr))
       conflict_edge_weight now s = (Inr (cr_new_fact_id cr, k), s')"
    "g' = mirror_decision P (cr_decision cr) old_id (relation_of (cr_decision cr)) (cr_new_fact_id cr) k g"
  using assms by (auto simp: resolve_conflict_def op_bind_Inr Let_def)

context mirrored_store begin

lemma resolve_conflict_mirrors:
  assumes ok: "st_ok s" and m: "mirrors P g (st_edges s)"
    and r: "resolve_conflict S P chunks ctx arbitrate old_id nf now (s, g) = (Inr cr, (s', g'))"
  shows "st_ok s' \<and> mirrors P g' (st_edges s') \<and>
    (cr_decision cr \<in> {CrudUpdate, CrudDelete} \<longrightarrow> \<not> st_active s' old_id) \<and>
    (cr_new_fact_id cr \<noteq> None \<longleftrightarrow> cr_decision cr \<in> {CrudAdd, CrudUpdate})"
proof -
  let ?d = "cr_decision cr"
  from r obtain k where
    c: "p_resolve_conflict_atomic S ?d old_id nf (relation_of ?d) conflict_edge_weight now s =
      (Inr (cr_new_fact_id cr, k), s')"
    and g': "g' = mirror_decision P ?d old_id (relation_of ?d) (cr_new_fact_id cr) k g"
    by (rule resolve_conflict_Inr)
  show ?thesis
  proof (cases "cr_decision cr")
    case CrudAdd
    with resolve_add [OF ok c [unfolded CrudAdd]] g' m show ?thesis
      by (auto simp: mirror_decision_def mirror_edge_def intro: mirrors_add)
  next
    case CrudUpdate
    with resolve_update [OF ok c [unfolded CrudUpdate]] g' mirrors_remove [OF m, of old_id] show ?thesis
      by (auto simp: mirror_decision_def mirror_edge_def intro: mirrors_add)
  next
    case CrudDelete
    with resolve_delete [OF ok c [unfolded CrudDelete]] g' mirrors_remove [OF m, of old_id] show ?thesis
      by (auto simp: mirror_decision_def)
  next
    case CrudNoop
    with resolve_noop [OF c [unfolded CrudNoop]] g' ok m show ?thesis
      by (auto simp: mirror_decision_def)
  qed
qed

lemma resolve_conflict_error:
  assumes "resolve_conflict S P chunks ctx arbitrate old_id nf now (s, g) = (Inl e, (s', g'))"
  shows "s' = s \<and> g' = g"
  using assms
  by (auto simp: resolve_conflict_def op_bind_Inl Let_def dest: resolve_error)

end

end
