(* ===== verification/Ingest.thy ===== *)
theory Ingest
  imports Storage_Port
begin

text \<open>
  The write path for facts, \<open>me-ingest/src/lib.rs\<close>: validation, embedding, classification, scope
  resolution and the atomic insert. The embedding provider and the persistence classifier are
  the consumer's and are parameters. \<open>add_fact\<close> hydrates the in-memory scope tree through
  \<open>cache_scope_chain\<close>, whose loop over the port's answers may not end for an arbitrary port, so
  its result is an option; over the SQLite store it always returns.

  The lemmas show which requests are refused before anything is written, that the batch
  classification is the per-entry one, that the partial batch threads its ids to the right
  positions, and that a path given to \<open>add_fact\<close> resolves afterwards in memory to the scope the
  fact was stored under.
\<close>

record embedder =
  em_embed :: "string \<Rightarrow> fl list result"
  em_embed_batch :: "string list \<Rightarrow> fl list list result"
  em_fingerprint :: fingerprint

type_synonym classifier = "classifier_input \<Rightarrow> bool"

definition validate_importance :: "fl option \<Rightarrow> unit result" where
  "validate_importance importance =
     (case importance of
        Some v \<Rightarrow>
          (if \<not> fl_is_finite v \<or> \<not> fl_in_range (Fin 0) (Fin 1) v
           then Inl (Conflict (PolicyParameter (Fmt ''importance must be in [0, 1], got {}'' [AFl v])))
           else Inr ())
      | None \<Rightarrow> Inr ())"

definition validate_add_fact_request :: "(json \<Rightarrow> nat list) \<Rightarrow> add_fact_request \<Rightarrow> unit result" where
  "validate_add_fact_request chunks req =
     and_then (validate_importance (Option.bind (q_opts req) o_base_importance)) (\<lambda>_.
     and_then (check_str_size (q_content req) ''fact content'') (\<lambda>_.
     case Option.bind (q_opts req) o_metadata of
       Some metadata \<Rightarrow> check_json_size chunks metadata ''fact metadata''
     | None \<Rightarrow> Inr ()))"

definition opts_of :: "add_fact_request \<Rightarrow> add_fact_options" where
  "opts_of req = (case q_opts req of Some opts \<Rightarrow> opts | None \<Rightarrow> default_add_fact_options)"

definition or_else :: "'a option \<Rightarrow> 'a \<Rightarrow> 'a" where
  "or_else x d = (case x of Some y \<Rightarrow> y | None \<Rightarrow> d)"

definition classifier_input_of :: "add_fact_request \<Rightarrow> classifier_input" where
  "classifier_input_of req =
     \<lparr>ci_content = q_content req, ci_fact_type = q_fact_type req,
      ci_base_importance = or_else (o_base_importance (opts_of req)) (Fin (1/2)),
      ci_metadata = or_else (o_metadata (opts_of req)) (JObj [])\<rparr>"

definition pin_of :: "classifier option \<Rightarrow> add_fact_request \<Rightarrow> bool" where
  "pin_of classifier req =
     (case o_pinned (opts_of req) of
        Some p \<Rightarrow> p
      | None \<Rightarrow> (case classifier of None \<Rightarrow> False | Some c \<Rightarrow> c (classifier_input_of req)))"

definition new_fact_of :: "time \<Rightarrow> add_fact_request \<Rightarrow> fl list \<Rightarrow> bool \<Rightarrow> int \<Rightarrow> new_fact" where
  "new_fact_of now req embedding is_pinned scope_id =
     \<lparr>nf_content = q_content req, nf_content_hash = [], nf_embedding = embedding,
      nf_fact_type = q_fact_type req, nf_t_created = or_else (o_t_created (opts_of req)) now,
      nf_t_expired = None, nf_t_valid = o_t_valid (opts_of req),
      nf_t_invalid = o_t_invalid (opts_of req), nf_source_event_id = q_source_event_id req,
      nf_base_importance = or_else (o_base_importance (opts_of req)) (Fin (1/2)),
      nf_access_count = 0, nf_last_accessed = or_else (o_last_accessed (opts_of req)) now,
      nf_metadata = or_else (o_metadata (opts_of req)) (JObj []), nf_scope_id = scope_id,
      nf_is_pinned = is_pinned\<rparr>"

subsection \<open>A single fact\<close>

definition insert_fact_with_embedding ::
    "'s storage \<Rightarrow> memory_ctx \<Rightarrow> time \<Rightarrow> add_fact_request \<Rightarrow> fl list \<Rightarrow> classifier option
      \<Rightarrow> fingerprint \<Rightarrow> 's \<times> scope_tree \<Rightarrow> (fact_id result \<times> ('s \<times> scope_tree)) option" where
  "insert_fact_with_embedding S ctx now req embedding classifier fp = (\<lambda>(s, t).
     let is_pinned = pin_of classifier req;
         commit = (\<lambda>scope_id. on_store (p_insert_fact_atomic S
                     (new_fact_of now req embedding is_pinned scope_id) fp (ctx_embed_dim ctx)))
     in case q_scope req of
          None \<Rightarrow> Some (commit 1 (s, t))
        | Some path \<Rightarrow>
            (case p_ensure_scope_path S path s of
               (Inl e, s1) \<Rightarrow> Some (Inl e, (s1, t))
             | (Inr i, s1) \<Rightarrow>
                 (case cache_scope_chain (get_scope S s1) t i of
                    None \<Rightarrow> None
                  | Some (Inl e) \<Rightarrow> Some (Inl e, (s1, t))
                  | Some (Inr t1) \<Rightarrow> Some (commit i (s1, t1)))))"

definition ingest_gate :: "(json \<Rightarrow> nat list) \<Rightarrow> memory_ctx \<Rightarrow> add_fact_request \<Rightarrow> unit result" where
  "ingest_gate chunks ctx req =
     and_then (ensure_open ctx) (\<lambda>_. and_then (ensure_writable ctx) (\<lambda>_.
       validate_add_fact_request chunks req))"

definition add_fact ::
    "'s storage \<Rightarrow> (json \<Rightarrow> nat list) \<Rightarrow> memory_ctx \<Rightarrow> time \<Rightarrow> add_fact_request \<Rightarrow> embedder
      \<Rightarrow> classifier option \<Rightarrow> 's \<times> scope_tree \<Rightarrow> (fact_id result \<times> ('s \<times> scope_tree)) option" where
  "add_fact S chunks ctx now req em classifier st =
     (case and_then (ingest_gate chunks ctx req) (\<lambda>_. em_embed em (q_content req)) of
        Inl e \<Rightarrow> Some (Inl e, st)
      | Inr embedding \<Rightarrow>
          insert_fact_with_embedding S ctx now req embedding classifier (em_fingerprint em) st)"

definition add_fact_precomputed ::
    "'s storage \<Rightarrow> (json \<Rightarrow> nat list) \<Rightarrow> memory_ctx \<Rightarrow> time \<Rightarrow> add_fact_request \<Rightarrow> fl list
      \<Rightarrow> fingerprint \<Rightarrow> classifier option \<Rightarrow> 's \<times> scope_tree
      \<Rightarrow> (fact_id result \<times> ('s \<times> scope_tree)) option" where
  "add_fact_precomputed S chunks ctx now req embedding declared classifier st =
     (case ingest_gate chunks ctx req of
        Inl e \<Rightarrow> Some (Inl e, st)
      | Inr _ \<Rightarrow> insert_fact_with_embedding S ctx now req embedding classifier declared st)"

subsection \<open>Batches\<close>

definition pin_slot :: "classifier option \<Rightarrow> add_fact_request \<Rightarrow> bool option" where
  "pin_slot classifier req =
     (case o_pinned (opts_of req) of
        Some p \<Rightarrow> Some p
      | None \<Rightarrow> (if classifier \<noteq> None then None else Some False))"

fun stitch :: "bool option list \<Rightarrow> bool list \<Rightarrow> bool list" where
  \<comment> \<open>\<open>slot.unwrap_or_else(|| pin_results.next().unwrap_or(false))\<close>\<close>
  "stitch [] results = []"
| "stitch (Some p # slots) results = p # stitch slots results"
| "stitch (None # slots) [] = False # stitch slots []"
| "stitch (None # slots) (r # results) = r # stitch slots results"

definition compute_batch_pins :: "add_fact_request list \<Rightarrow> classifier option \<Rightarrow> bool list" where
  "compute_batch_pins entries classifier =
     (let slots = map (pin_slot classifier) entries;
          pending = map classifier_input_of (filter (\<lambda>e. pin_slot classifier e = None) entries);
          results = (case classifier of Some c \<Rightarrow> if pending \<noteq> [] then map c pending else []
                     | None \<Rightarrow> [])
      in stitch slots results)"

definition cache_leaves :: "'s storage \<Rightarrow> int list \<Rightarrow> ('s \<times> scope_tree, unit) op" where
  \<comment> \<open>the scope nodes that can be read are inserted, leaf nodes only\<close>
  "cache_leaves S ids = (\<lambda>(s, t).
     (Inr (), (s, fold insert_scope (List.map_filter (\<lambda>i.
        case get_scope S s i of Inr n \<Rightarrow> Some n | Inl _ \<Rightarrow> None) ids) t)))"

definition insert_validated_batch ::
    "'s storage \<Rightarrow> memory_ctx \<Rightarrow> time \<Rightarrow> add_fact_request list \<Rightarrow> embedder \<Rightarrow> classifier option
      \<Rightarrow> ('s \<times> scope_tree, fact_id list) op" where
  "insert_validated_batch S ctx now entries em classifier =
     op_bind (op_of (em_embed_batch em (map q_content entries))) (\<lambda>embeddings.
     if length embeddings \<noteq> length entries
     then op_fail (Internal (Fmt ''embed_batch returned {} embeddings for {} entries''
            [ANat (length embeddings), ANat (length entries)]))
     else
       let pins = compute_batch_pins entries classifier;
           facts = map (\<lambda>((entry, embedding), is_pinned). new_fact_of now entry embedding is_pinned 1)
                     (zip (zip entries embeddings) pins);
           scope_paths = map (\<lambda>((entry, embedding), is_pinned). q_scope entry)
                     (zip (zip entries embeddings) pins)
       in op_bind (on_store (p_insert_facts_batch_atomic S facts scope_paths
                    (em_fingerprint em) (ctx_embed_dim ctx))) (\<lambda>(ids, scope_ids).
          if length ids \<noteq> length facts
          then op_fail (Internal (Fmt ''batch insert returned {} ids for {} facts''
                 [ANat (length ids), ANat (length facts)]))
          else op_bind (cache_leaves S scope_ids) (\<lambda>_. op_return ids)))"

definition add_facts_batch ::
    "'s storage \<Rightarrow> (json \<Rightarrow> nat list) \<Rightarrow> memory_ctx \<Rightarrow> time \<Rightarrow> add_fact_request list \<Rightarrow> embedder
      \<Rightarrow> classifier option \<Rightarrow> ('s \<times> scope_tree, fact_id list) op" where
  "add_facts_batch S chunks ctx now entries em classifier =
     op_bind (op_of (ensure_open ctx)) (\<lambda>_.
     op_bind (op_of (ensure_writable ctx)) (\<lambda>_.
     if entries = [] then op_return []
     else op_bind (op_of (check_all (validate_add_fact_request chunks) entries)) (\<lambda>_.
       insert_validated_batch S ctx now entries em classifier)))"

fun rethread :: "memory_error option list \<Rightarrow> fact_id list \<Rightarrow> fact_id result list" where
  "rethread [] ids = []"
| "rethread (Some e # vs) ids = Inl e # rethread vs ids"
| "rethread (None # vs) [] =
     Inl (Internal (Lit ''id count invariant violated (fewer ids than valid entries)''))
       # rethread vs []"
| "rethread (None # vs) (i # ids) = Inr i # rethread vs ids"

definition validation_of :: "(json \<Rightarrow> nat list) \<Rightarrow> add_fact_request \<Rightarrow> memory_error option" where
  "validation_of chunks entry =
     (case validate_add_fact_request chunks entry of Inr _ \<Rightarrow> None | Inl e \<Rightarrow> Some e)"

definition add_facts_batch_partial ::
    "'s storage \<Rightarrow> (json \<Rightarrow> nat list) \<Rightarrow> memory_ctx \<Rightarrow> time \<Rightarrow> add_fact_request list \<Rightarrow> embedder
      \<Rightarrow> classifier option \<Rightarrow> ('s \<times> scope_tree, fact_id result list) op" where
  "add_facts_batch_partial S chunks ctx now entries em classifier =
     op_bind (op_of (ensure_open ctx)) (\<lambda>_.
     op_bind (op_of (ensure_writable ctx)) (\<lambda>_.
     if entries = [] then op_return []
     else
       let validation = map (validation_of chunks) entries;
           valid = filter (\<lambda>e. validation_of chunks e = None) entries
       in op_bind (if valid = [] then op_return []
                   else insert_validated_batch S ctx now valid em classifier) (\<lambda>ids.
          op_return (rethread validation ids))))"

subsection \<open>Validation comes first\<close>

lemma validate_importance_ok:
  "validate_importance imp = Inr () \<longleftrightarrow> (\<forall>v. imp = Some v \<longrightarrow> (\<exists>x. v = Fin x \<and> 0 \<le> x \<and> x \<le> 1))"
  by (auto simp: validate_importance_def fl_in_range_Fin split: option.split)

lemma validated_importance_range:
  assumes "validate_add_fact_request chunks req = Inr ()"
  shows "\<exists>x. nf_base_importance (new_fact_of now req embedding pin sid) = Fin x \<and> 0 \<le> x \<and> x \<le> 1"
proof -
  from assms have v: "validate_importance (Option.bind (q_opts req) o_base_importance) = Inr ()"
    by (auto simp: validate_add_fact_request_def and_then_eq_Inr)
  show ?thesis
  proof (cases "q_opts req")
    case None
    then show ?thesis
      by (intro exI [of _ "1/2"]) (simp add: new_fact_of_def opts_of_def default_add_fact_options_def or_else_def)
  next
    case (Some opts)
    show ?thesis
    proof (cases "o_base_importance opts")
      case None
      with Some show ?thesis
        by (intro exI [of _ "1/2"]) (simp add: new_fact_of_def opts_of_def or_else_def)
    next
      case (Some b)
      with v \<open>q_opts req = Some opts\<close> show ?thesis
        by (auto simp: new_fact_of_def opts_of_def or_else_def validate_importance_ok)
    qed
  qed
qed

lemma ingest_gate_rejects:
  "ingest_gate chunks ctx req = Inl e \<Longrightarrow> add_fact S chunks ctx now req em classifier st = Some (Inl e, st)"
  "ingest_gate chunks ctx req = Inl e \<Longrightarrow>
     add_fact_precomputed S chunks ctx now req embedding declared classifier st = Some (Inl e, st)"
  by (simp_all add: add_fact_def add_fact_precomputed_def and_then_def)

lemma check_all_Inl:
  "check_all f xs = Inl e \<Longrightarrow> \<exists>x \<in> set xs. f x = Inl e"
  by (induction xs) (auto simp: and_then_eq_Inl)

lemma batch_all_or_nothing_validation:
  assumes "x \<in> set entries" "validate_add_fact_request chunks x = Inl e0"
  shows "\<exists>e. add_facts_batch S chunks ctx now entries em classifier st = (Inl e, st)"
proof (cases "ensure_open ctx")
  case (Inr u)
  show ?thesis
  proof (cases "ensure_writable ctx")
    case w: (Inr v)
    have "check_all (validate_add_fact_request chunks) entries \<noteq> Inr ()"
      using assms by (force simp: check_all_ok)
    then obtain e where "check_all (validate_add_fact_request chunks) entries = Inl e"
      by (cases "check_all (validate_add_fact_request chunks) entries") auto
    with Inr w assms(1) show ?thesis by (auto simp: add_facts_batch_def op_bind_def)
  qed (use Inr in \<open>simp add: add_facts_batch_def op_bind_def\<close>)
qed (simp add: add_facts_batch_def op_bind_def)

subsection \<open>Classification of a batch\<close>

lemma stitch_eq:
  assumes "classifier = Some c"
  shows "stitch (map (pin_slot classifier) entries)
      (map c (map classifier_input_of (filter (\<lambda>e. pin_slot classifier e = None) entries)))
    = map (pin_of classifier) entries"
  using assms by (induction entries) (auto simp: pin_slot_def pin_of_def split: option.splits)

lemma stitch_no_classifier: "stitch (map (pin_slot None) entries) [] = map (pin_of None) entries"
proof -
  have "pin_slot None e = Some (pin_of None e)" for e
    by (simp add: pin_slot_def pin_of_def split: option.split)
  then show ?thesis by (induction entries) simp_all
qed

lemma compute_batch_pins_eq: "compute_batch_pins entries classifier = map (pin_of classifier) entries"
proof (cases classifier)
  case None
  then show ?thesis by (simp add: compute_batch_pins_def Let_def stitch_no_classifier)
next
  case (Some c)
  have "(if map classifier_input_of (filter (\<lambda>e. pin_slot classifier e = None) entries) \<noteq> []
      then map c (map classifier_input_of (filter (\<lambda>e. pin_slot classifier e = None) entries)) else [])
    = map c (map classifier_input_of (filter (\<lambda>e. pin_slot classifier e = None) entries))"
    by simp
  with Some stitch_eq [OF Some, of entries] show ?thesis
    by (simp only: compute_batch_pins_def Let_def option.case)
qed

subsection \<open>Partial batches\<close>

lemma rethread_ok:
  assumes "length ids = length (filter (\<lambda>v. v = None) vs)"
  shows "length (rethread vs ids) = length vs"
    and "i < length vs \<Longrightarrow> vs ! i = Some e \<Longrightarrow> rethread vs ids ! i = Inl e"
    and "i < length vs \<Longrightarrow> vs ! i = None \<Longrightarrow>
      rethread vs ids ! i = Inr (ids ! length (filter (\<lambda>v. v = None) (take i vs)))"
proof -
  show "length (rethread vs ids) = length vs"
    using assms by (induction vs ids rule: rethread.induct) auto
  show "i < length vs \<Longrightarrow> vs ! i = Some e \<Longrightarrow> rethread vs ids ! i = Inl e"
    using assms
    by (induction vs ids arbitrary: i rule: rethread.induct) (auto simp: nth_Cons split: nat.splits)
  show "i < length vs \<Longrightarrow> vs ! i = None \<Longrightarrow>
      rethread vs ids ! i = Inr (ids ! length (filter (\<lambda>v. v = None) (take i vs)))"
    using assms
    by (induction vs ids arbitrary: i rule: rethread.induct) (auto simp: nth_Cons split: nat.splits)
qed

lemma insert_validated_batch_length:
  assumes "insert_validated_batch S ctx now entries em classifier st = (Inr ids, st')"
  shows "length ids = length entries"
proof -
  from assms obtain embs facts where "length embs = length entries"
    "facts = map (\<lambda>((entry, embedding), is_pinned). new_fact_of now entry embedding is_pinned 1)
       (zip (zip entries embs) (compute_batch_pins entries classifier))"
    "length ids = length facts"
    by (auto simp: insert_validated_batch_def op_bind_Inr Let_def split: if_splits)
  then show ?thesis by (simp add: compute_batch_pins_eq)
qed

lemma partial_batch_ok:
  assumes r: "add_facts_batch_partial S chunks ctx now entries em classifier st = (Inr rs, st')"
  shows "length rs = length entries"
    and "i < length entries \<Longrightarrow> validate_add_fact_request chunks (entries ! i) = Inl e \<Longrightarrow> rs ! i = Inl e"
    and "\<exists>ids. (\<forall>i < length entries. is_ok (validate_add_fact_request chunks (entries ! i)) \<longrightarrow>
        rs ! i = Inr (ids ! length (filter (\<lambda>x. is_ok (validate_add_fact_request chunks x)) (take i entries)))) \<and>
      (filter (\<lambda>x. is_ok (validate_add_fact_request chunks x)) entries \<noteq> [] \<longrightarrow>
        add_facts_batch S chunks ctx now
          (filter (\<lambda>x. is_ok (validate_add_fact_request chunks x)) entries) em classifier st = (Inr ids, st'))"
proof -
  let ?v = "validation_of chunks"
  have vN: "?v x = None \<longleftrightarrow> is_ok (validate_add_fact_request chunks x)" for x
    by (cases "validate_add_fact_request chunks x") (simp_all add: validation_of_def)
  have guards: "ensure_open ctx = Inr ()" "ensure_writable ctx = Inr ()"
    using r by (auto simp: add_facts_batch_partial_def op_bind_Inr)
  have "\<exists>ids. length ids = length (filter (\<lambda>x. ?v x = None) entries) \<and> rs = rethread (map ?v entries) ids \<and>
    (filter (\<lambda>x. ?v x = None) entries \<noteq> [] \<longrightarrow>
       insert_validated_batch S ctx now (filter (\<lambda>x. ?v x = None) entries) em classifier st = (Inr ids, st'))"
  proof (cases "filter (\<lambda>x. ?v x = None) entries = []")
    case True
    with r show ?thesis
      by (auto simp: add_facts_batch_partial_def op_bind_Inr Let_def split: if_splits)
  next
    case False
    then have "entries \<noteq> []" by auto
    with r False obtain ids where
      "insert_validated_batch S ctx now (filter (\<lambda>x. ?v x = None) entries) em classifier st = (Inr ids, st')"
      "rs = rethread (map ?v entries) ids"
      by (auto simp: add_facts_batch_partial_def op_bind_Inr Let_def)
    with insert_validated_batch_length [OF this(1)] show ?thesis by auto
  qed
  then obtain ids where ids: "length ids = length (filter (\<lambda>x. ?v x = None) entries)"
    "rs = rethread (map ?v entries) ids"
    "filter (\<lambda>x. ?v x = None) entries \<noteq> [] \<longrightarrow>
       insert_validated_batch S ctx now (filter (\<lambda>x. ?v x = None) entries) em classifier st = (Inr ids, st')"
    by blast
  have len: "length ids = length (filter (\<lambda>v. v = None) (map ?v entries))"
    using ids(1) by (simp add: filter_map comp_def)
  note ro = rethread_ok [OF len]
  show "length rs = length entries" using ro(1) by (simp add: ids(2))
  show "i < length entries \<Longrightarrow> validate_add_fact_request chunks (entries ! i) = Inl e \<Longrightarrow> rs ! i = Inl e"
    using ro(2) [of i e] by (simp add: ids(2) validation_of_def)
  let ?valid = "filter (\<lambda>x. is_ok (validate_add_fact_request chunks x)) entries"
  have "rs ! i = Inr (ids ! length (filter (\<lambda>x. is_ok (validate_add_fact_request chunks x)) (take i entries)))"
    if "i < length entries" "is_ok (validate_add_fact_request chunks (entries ! i))" for i
    using ro(3) [of i] that vN by (simp add: ids(2) take_map filter_map comp_def)
  moreover have "add_facts_batch S chunks ctx now ?valid em classifier st = (Inr ids, st')" if "?valid \<noteq> []"
  proof -
    have "check_all (validate_add_fact_request chunks) ?valid = Inr ()"
      by (auto simp: check_all_ok is_ok_iff)
    with that ids(3) guards vN show ?thesis by (simp add: add_facts_batch_def op_bind_def)
  qed
  ultimately show "\<exists>ids. (\<forall>i < length entries. is_ok (validate_add_fact_request chunks (entries ! i)) \<longrightarrow>
        rs ! i = Inr (ids ! length (filter (\<lambda>x. is_ok (validate_add_fact_request chunks x)) (take i entries)))) \<and>
      (?valid \<noteq> [] \<longrightarrow> add_facts_batch S chunks ctx now ?valid em classifier st = (Inr ids, st'))"
    by blast
qed

subsection \<open>Scopes stay resolvable\<close>

locale scope_port =
  fixes S :: "'s storage" and st_ok :: "'s \<Rightarrow> bool" and st_scopes :: "'s \<Rightarrow> scope_tree"
  assumes tree_wf: "st_ok s \<Longrightarrow> scope_wf (st_scopes s)"
    and scope_rows: "st_ok s \<Longrightarrow> map_of (st_nodes (st_scopes s)) i = Some n \<Longrightarrow> get_scope S s i = Inr n"
    and ensure: "st_ok s \<Longrightarrow> p_ensure_scope_path S path s = (Inr i, s') \<Longrightarrow>
      st_ok s' \<and> resolve_path (st_scopes s') path = Some i \<and> map_of (st_nodes (st_scopes s')) i \<noteq> None \<and>
      (\<forall>t. subtree_of t (st_scopes s) \<longrightarrow> subtree_of t (st_scopes s'))"
    and insert: "st_ok s \<Longrightarrow> p_insert_fact_atomic S nf fp d s = (r, s') \<Longrightarrow>
      st_ok s' \<and> st_scopes s' = st_scopes s"
begin

lemma hydrates:
  assumes ok: "st_ok s" and sub: "subtree_of t (st_scopes s)"
    and e: "p_ensure_scope_path S path s = (Inr sid, s1)"
  shows "\<exists>t1. cache_scope_chain (get_scope S s1) t sid = Some (Inr t1) \<and>
    subtree_of t1 (st_scopes s1) \<and> resolve_path t1 path = Some sid"
proof -
  note en = ensure [OF ok e]
  show ?thesis
  proof (rule hydrate_resolves [where T = "st_scopes s1"])
    show "scope_wf (st_scopes s1)" using en tree_wf by blast
    show "subtree_of t (st_scopes s1)" using en sub by blast
    show "get_scope S s1 i = Inr n" if "map_of (st_nodes (st_scopes s1)) i = Some n" for i n
      using en that scope_rows by blast
  qed (use en in blast)+
qed

lemma insert_fact_resolves:
  assumes ok: "st_ok s" and sub: "subtree_of t (st_scopes s)" and path: "q_scope req = Some path"
    and r: "insert_fact_with_embedding S ctx now req embedding classifier fp (s, t) = Some (Inr i, (s', t'))"
  shows "\<exists>sid s1. p_ensure_scope_path S path s = (Inr sid, s1) \<and>
    p_insert_fact_atomic S (new_fact_of now req embedding (pin_of classifier req) sid) fp (ctx_embed_dim ctx) s1
      = (Inr i, s') \<and>
    st_ok s' \<and> subtree_of t' (st_scopes s') \<and> resolve_path t' path = Some sid"
proof -
  from r path obtain sid s1 t1 where e: "p_ensure_scope_path S path s = (Inr sid, s1)"
    and c: "cache_scope_chain (get_scope S s1) t sid = Some (Inr t1)"
    and i: "p_insert_fact_atomic S (new_fact_of now req embedding (pin_of classifier req) sid) fp
      (ctx_embed_dim ctx) s1 = (Inr i, s')" and t': "t' = t1"
    by (auto simp: insert_fact_with_embedding_def Let_def split: prod.splits sum.splits option.splits)
  from hydrates [OF ok sub e] c have h: "subtree_of t1 (st_scopes s1)" "resolve_path t1 path = Some sid"
    by auto
  have s1: "st_ok s1" using ensure [OF ok e] by blast
  from insert [OF s1 i] h e i t' show ?thesis by auto
qed

lemma insert_fact_returns:
  assumes ok: "st_ok s" and sub: "subtree_of t (st_scopes s)"
  shows "insert_fact_with_embedding S ctx now req embedding classifier fp (s, t) \<noteq> None"
proof (cases "q_scope req")
  case (Some path)
  obtain r s1 where e: "p_ensure_scope_path S path s = (r, s1)" by fastforce
  show ?thesis
  proof (cases r)
    case (Inr sid)
    with e have e: "p_ensure_scope_path S path s = (Inr sid, s1)" by simp
    from hydrates [OF ok sub e] obtain t2 where
      "cache_scope_chain (get_scope S s1) t sid = Some (Inr t2)" by blast
    with Some e show ?thesis by (simp add: insert_fact_with_embedding_def Let_def)
  qed (use Some e in \<open>simp add: insert_fact_with_embedding_def Let_def\<close>)
qed (simp add: insert_fact_with_embedding_def Let_def)

end

lemma subtree_of_from_nodes:
  assumes "scopes_inv s" "scopes_inv s'" "sc_rows s' = sc_rows s @ extra"
    "subtree_of t (from_nodes (sc_rows s))"
  shows "subtree_of t (from_nodes (sc_rows s'))"
proof -
  have "map_of (st_nodes (from_nodes (sc_rows s'))) i = Some n"
    if "map_of (st_nodes (from_nodes (sc_rows s))) i = Some n" for i n
    using that tree_of_nodes [OF assms(1), of i n] tree_of_nodes [OF assms(2), of i n]
    by (simp only: assms(3) set_append Un_iff simp_thms)
  with assms(4) show ?thesis by (simp add: subtree_of_def)
qed

lemma scope_get_row:
  assumes "scopes_inv s" "map_of (st_nodes (from_nodes (sc_rows s))) i = Some n"
  shows "scope_get s i = Inr n"
proof -
  have n: "n \<in> set (sc_rows s)" "sn_id n = i" using assms tree_of_nodes by blast+
  have "List.find (\<lambda>m. sn_id m = i) (sc_rows s) = Some n"
    using n scopes_inv_distinct [OF assms(1)]
    by (intro find_unique) (auto simp: distinct_map inj_on_def)
  then show ?thesis by (simp add: scope_get_def)
qed

interpretation sqls: scope_port "sqlite_storage hash edim" "db_inv edim"
  "\<lambda>D. from_nodes (sc_rows (d_scopes D))"
proof (unfold_locales, goal_cases)
  case (1 D)
  then show ?case by (rule scopes_inv_wf [OF db_invD(1)])
next
  case (2 D i n)
  from scope_get_row [OF db_invD(1) [OF 2(1)] 2(2)] show ?case by (simp add: sqlite_storage_def)
next
  case (3 D path i D')
  then have "ensure_scope_path path D = (Inr i, D')" by (simp add: sqlite_storage_def)
  then obtain s where s: "ensure_path (d_scopes D) path = (Inr i, s)" "D' = D\<lparr>d_scopes := s\<rparr>"
    by (auto simp: ensure_scope_path_def on_scopes_def split: prod.splits)
  note inv = db_invD(1) [OF 3(1)]
  from ensure_path_inv [OF inv s(1)] obtain extra where inv': "scopes_inv s"
    and extra: "sc_rows s = sc_rows (d_scopes D) @ extra" by blast
  have r: "resolve_path (from_nodes (sc_rows s)) path = Some i"
    using ensure_path_resolves [OF inv s(1)] by (simp add: list_all_scopes_rows [OF inv'])
  have "db_inv edim D'" unfolding s(2) by (rule scopes_grow_inv [OF 3(1) inv' extra])
  with r resolve_path_known [OF scopes_inv_wf [OF inv'] r] subtree_of_from_nodes [OF inv inv' extra]
  show ?case by (simp add: s(2))
next
  case (4 D nf fp n r D')
  then have i: "insert_fact_atomic hash edim nf fp n D = (r, D')" by (simp add: sqlite_storage_def)
  have "keeps (\<lambda>E. d_scopes E = d_scopes D) (insert_fact_atomic hash edim nf fp n)"
  proof -
    have "keeps (\<lambda>E. d_scopes E = d_scopes D) (record_if_absent fp n)"
      by (rule keepsI) (auto simp: record_if_absent_def split: option.splits if_splits sum.splits)
    moreover have "keeps (\<lambda>E. d_scopes E = d_scopes D) (fact_insert hash edim nf)"
      by (rule keepsI) (auto simp: fact_insert_def Let_def split: option.splits if_splits)
    ultimately show ?thesis unfolding insert_fact_atomic_def by (intro keeps_intros)
  qed
  from keepsD [OF this refl i] keepsD [OF keeps_insert_fact_atomic 4(1) i] show ?case by simp
qed

end
