(* ===== verification/Engine.thy ===== *)
theory Engine
  imports Resolve Ingest
begin

text \<open>
  The facade, \<open>memory-engine/src/engine\<close>: the engine holds the store and two projections of it,
  the graph of the active edges and the scope tree. The projections are loaded on open
  (\<open>graph_load.rs\<close>) and every write commits to the store first and is then mirrored
  (\<open>graph.rs\<close>, \<open>mod.rs\<close>, and the primitives of the other theories).

  \<open>engine_step\<close> is one call of the facade, whatever it returns. The result is that in every
  reachable state the graph has exactly the active edges of the tables and the tree holds only
  rows of the scope table.
\<close>

type_synonym 'g engine_state = "db \<times> 'g memory_graph \<times> scope_tree"

definition load_graph_from_db :: "'g petgraph \<Rightarrow> db \<Rightarrow> 'g memory_graph" where
  "load_graph_from_db P D = from_active_edges P (list_active_edges D)"

definition load_scope_tree :: "db \<Rightarrow> scope_tree" where
  "load_scope_tree D = from_nodes (list_all_scopes (d_scopes D))"

definition engine_open :: "'g petgraph \<Rightarrow> db \<Rightarrow> 'g engine_state" where
  "engine_open P D = (D, load_graph_from_db P D, load_scope_tree D)"

definition on_db :: "(db, 'a) op \<Rightarrow> ('g engine_state, 'a) op" where
  "on_db = on_store"

definition on_graph :: "('g memory_graph \<Rightarrow> 'g memory_graph) \<Rightarrow> ('g engine_state, unit) op" where
  "on_graph f = (\<lambda>(D, g, t). (Inr (), (D, f g, t)))"

definition co_session_relation :: string where "co_session_relation = as_str CoSession"

definition co_session_weight :: fl where "co_session_weight = Fin (1/2)"

definition co_session_scope_id :: int where "co_session_scope_id = 1"

definition link_scope :: "scope_tree \<Rightarrow> string option \<Rightarrow> int list result" where
  "link_scope t scope = (case scope of
      None \<Rightarrow> Inr []
    | Some path \<Rightarrow> (case resolve_path t path of
          None \<Rightarrow> Inl (NotFound (Fmt ''scope path: {}'' [AStr path]))
        | Some i \<Rightarrow> Inr (subtree t i)))"

definition mirror_cosession ::
    "'g petgraph \<Rightarrow> (int \<times> fact_id \<times> fact_id) list \<Rightarrow> 'g memory_graph \<Rightarrow> 'g memory_graph" where
  "mirror_cosession P new_edges g =
     fold (\<lambda>(k, src, tgt) g. mg_add_edge P g src tgt \<lparr>ed_edge_id = k,
       ed_relation_type = CoSession, ed_weight = co_session_weight\<rparr>) new_edges g"

definition link_session_facts ::
    "'g petgraph \<Rightarrow> memory_ctx \<Rightarrow> string \<Rightarrow> string option \<Rightarrow> time \<Rightarrow> ('g engine_state, nat) op" where
  "link_session_facts P ctx session_id scope now =
     op_bind (op_of (ensure_writable ctx)) (\<lambda>_.
     op_bind (op_reads (\<lambda>(D, g, t). link_scope t scope)) (\<lambda>scope_ids.
     op_bind (op_reads (\<lambda>(D, g, t). Inr (list_active_by_session D session_id scope_ids))) (\<lambda>fact_ids.
     if length fact_ids < 2 then op_return 0
     else
       op_bind (on_db (insert_cosession_edges_atomic fact_ids co_session_relation co_session_weight
                 co_session_scope_id now)) (\<lambda>new_edges.
       op_bind (on_graph (mirror_cosession P new_edges)) (\<lambda>_.
       op_return (length new_edges))))))"

definition expire_edge ::
    "'g petgraph \<Rightarrow> memory_ctx \<Rightarrow> int \<Rightarrow> time \<Rightarrow> ('g engine_state, unit) op" where
  "expire_edge P ctx edge_id now =
     op_bind (op_of (ensure_writable ctx)) (\<lambda>_.
     op_bind (on_db (edge_expire edge_id now)) (\<lambda>_.
     on_graph (\<lambda>g. remove_edge_by_id P g edge_id)))"

definition engine_ensure_scope_path ::
    "memory_ctx \<Rightarrow> string \<Rightarrow> 'g engine_state \<Rightarrow> (int result \<times> 'g engine_state) option" where
  "engine_ensure_scope_path ctx path = (\<lambda>(D, g, t).
     case ensure_writable ctx of
       Inl e \<Rightarrow> Some (Inl e, (D, g, t))
     | Inr _ \<Rightarrow>
         (case ensure_scope_path path D of
            (Inl e, D1) \<Rightarrow> Some (Inl e, (D1, g, t))
          | (Inr i, D1) \<Rightarrow>
              (case cache_scope_chain (scope_get (d_scopes D1)) t i of
                 None \<Rightarrow> None
               | Some (Inl e) \<Rightarrow> Some (Inl e, (D1, g, t))
               | Some (Inr t1) \<Rightarrow> Some (Inr i, (D1, g, t1)))))"

definition graph_degree :: "'g petgraph \<Rightarrow> 'g engine_state \<Rightarrow> fact_id \<Rightarrow> nat" where
  "graph_degree P = (\<lambda>(D, g, t) i. degree P g i)"

definition graph_neighbors :: "'g petgraph \<Rightarrow> 'g engine_state \<Rightarrow> fact_id \<Rightarrow> fact_id list" where
  "graph_neighbors P = (\<lambda>(D, g, t) i. neighbors P g i)"

text \<open>One call of the facade.\<close>

inductive engine_step ::
    "(string \<Rightarrow> string) \<Rightarrow> nat \<Rightarrow> 'g petgraph \<Rightarrow> 'g engine_state \<Rightarrow> 'g engine_state \<Rightarrow> bool"
  for hash :: "string \<Rightarrow> string" and edim :: nat and P :: "'g petgraph" where
  step_prune: "prune (sqlite_storage hash edim) P ctx policy now (D, g) = (r, (D', g')) \<Longrightarrow>
    engine_step hash edim P (D, g, t) (D', g', t)"
| step_resolve: "resolve_conflict (sqlite_storage hash edim) P chunks ctx arbitrate old_id nf now (D, g)
      = (r, (D', g')) \<Longrightarrow>
    engine_step hash edim P (D, g, t) (D', g', t)"
| step_add_fact: "add_fact (sqlite_storage hash edim) chunks ctx now req em classifier (D, t)
      = Some (r, (D', t')) \<Longrightarrow>
    engine_step hash edim P (D, g, t) (D', g, t')"
| step_add_fact_precomputed: "add_fact_precomputed (sqlite_storage hash edim) chunks ctx now req
      embedding declared classifier (D, t) = Some (r, (D', t')) \<Longrightarrow>
    engine_step hash edim P (D, g, t) (D', g, t')"
| step_batch: "add_facts_batch (sqlite_storage hash edim) chunks ctx now entries em classifier (D, t)
      = (r, (D', t')) \<Longrightarrow>
    engine_step hash edim P (D, g, t) (D', g, t')"
| step_batch_partial: "add_facts_batch_partial (sqlite_storage hash edim) chunks ctx now entries em
      classifier (D, t) = (rs, (D', t')) \<Longrightarrow>
    engine_step hash edim P (D, g, t) (D', g, t')"
| step_link: "link_session_facts P ctx session_id scope now (D, g, t) = (n, (D', g', t')) \<Longrightarrow>
    engine_step hash edim P (D, g, t) (D', g', t')"
| step_expire_edge: "expire_edge P ctx edge_id now (D, g, t) = (u, (D', g', t')) \<Longrightarrow>
    engine_step hash edim P (D, g, t) (D', g', t')"
| step_ensure_scope: "engine_ensure_scope_path ctx path (D, g, t) = Some (r, (D', g', t')) \<Longrightarrow>
    engine_step hash edim P (D, g, t) (D', g', t')"
| step_reopen: "engine_step hash edim P (D, g, t) (engine_open P D)"

inductive engine_reach ::
    "(string \<Rightarrow> string) \<Rightarrow> nat \<Rightarrow> 'g petgraph \<Rightarrow> db \<Rightarrow> 'g engine_state \<Rightarrow> bool"
  for hash :: "string \<Rightarrow> string" and edim :: nat and P :: "'g petgraph" and D0 :: db where
  reach_open: "engine_reach hash edim P D0 (engine_open P D0)"
| reach_step: "engine_reach hash edim P D0 s \<Longrightarrow> engine_step hash edim P s s' \<Longrightarrow>
    engine_reach hash edim P D0 s'"

subsection \<open>The invariant\<close>

definition canonical_edges :: "db \<Rightarrow> bool" where
  \<comment> \<open>a stored relation is what its text parses to\<close>
  "canonical_edges D \<longleftrightarrow> (\<forall>e \<in> set (d_edges D).
     relation_from (as_str (e_relation_type e)) = e_relation_type e)"

definition store_ok :: "nat \<Rightarrow> db \<Rightarrow> bool" where
  "store_ok edim D \<longleftrightarrow> db_inv edim D \<and> canonical_edges D"

definition engine_ok :: "nat \<Rightarrow> 'g petgraph \<Rightarrow> 'g engine_state \<Rightarrow> bool" where
  "engine_ok edim P = (\<lambda>(D, g, t). store_ok edim D \<and> mirrors P g (active_edges D) \<and>
     subtree_of t (from_nodes (sc_rows (d_scopes D))))"

lemma canonical_active: "canonical_edges D \<Longrightarrow> list_active_edges D = active_edges D"
  unfolding list_active_edges_eq canonical_edges_def
  by (rule map_idI) (simp add: active_edges_def row_to_edge_def)

lemma subtree_refl: "scope_wf t \<Longrightarrow> subtree_of t t"
  by (simp add: subtree_of_def scope_wfD(1))

lemma engine_open_ok:
  assumes "petgraph_laws P" "store_ok edim D"
  shows "engine_ok edim P (engine_open P D)"
proof -
  have inv: "scopes_inv (d_scopes D)" using assms(2) by (auto simp: store_ok_def dest: db_invD(1))
  show ?thesis
    using assms petgraph_laws.mirrors_from_active_edges [OF assms(1)] subtree_refl [OF scopes_inv_wf [OF inv]]
    by (simp add: engine_ok_def engine_open_def load_graph_from_db_def load_scope_tree_def
        canonical_active list_all_scopes_rows [OF inv] store_ok_def)
qed

subsection \<open>What the transactions leave alone\<close>

definition scopes_from :: "scope_node list \<Rightarrow> db \<Rightarrow> bool" where
  "scopes_from rows D \<longleftrightarrow> (\<exists>extra. sc_rows (d_scopes D) = rows @ extra)"

definition edge_part :: "db \<Rightarrow> edge list \<times> int" where
  "edge_part D = (d_edges D, d_edge_seq D)"

definition edges_evolve :: "db \<Rightarrow> db \<Rightarrow> bool" where
  \<comment> \<open>an edge active later was active before, or has an id given out since\<close>
  "edges_evolve D0 D \<longleftrightarrow> d_edge_seq D0 \<le> d_edge_seq D \<and>
     (\<forall>e \<in> set (d_edges D). is_active_edge e \<longrightarrow>
        e \<in> set (d_edges D0) \<or> d_edge_seq D0 < e_id e)"

definition facts_only :: "(db \<Rightarrow> bool) \<Rightarrow> bool" where
  \<comment> \<open>a property the fact rows do not enter\<close>
  "facts_only I \<longleftrightarrow> (\<forall>D D'. edge_part D' = edge_part D \<longrightarrow> d_scopes D' = d_scopes D \<longrightarrow> I D \<longrightarrow> I D')"

lemma facts_onlyD: "facts_only I \<Longrightarrow> I D \<Longrightarrow> edge_part D' = edge_part D \<Longrightarrow> d_scopes D' = d_scopes D \<Longrightarrow> I D'"
  unfolding facts_only_def by blast

lemma facts_only_intros [keeps_intros]:
  "facts_only (\<lambda>D. edge_part D = es)" "facts_only canonical_edges" "facts_only (scopes_from rows)"
  "facts_only (edges_evolve D0)"
  by (simp_all add: facts_only_def canonical_edges_def scopes_from_def edge_part_def edges_evolve_def)

lemma facts_only_keeps [keeps_intros]:
  assumes "facts_only I"
  shows "keeps I (fact_insert hash edim nf)" "keeps I (record_if_absent fp n)"
    "keeps I (fact_expire i now)" "keeps I (expire_and_invalidate i now)"
    "keeps I (update_importance_scores_bulk scores)"
  by (rule keepsI, erule facts_onlyD [OF assms];
      auto simp: fact_insert_def record_if_absent_def fact_expire_def expire_and_invalidate_def
        update_or_not_found_def update_importance_scores_bulk_def Let_def edge_part_def
        split: option.splits if_splits sum.splits)+

lemma scopes_keeps [keeps_intros]:
  "keeps (scopes_from rows) (edge_insert ne)" "keeps (scopes_from rows) (expire_by_fact i now)"
  "keeps (scopes_from rows) (edge_expire k now)"
  by (rule keepsI; auto simp: scopes_from_def edge_insert_def expire_by_fact_def edge_expire_def Let_def
      split: if_splits)+

lemma evolve_keeps [keeps_intros]:
  "keeps (edges_evolve D0) (edge_insert ne)" "keeps (edges_evolve D0) (expire_by_fact i now)"
  "keeps (edges_evolve D0) (edge_expire k now)"
  by (rule keepsI; auto simp: edges_evolve_def edge_insert_def expire_by_fact_def edge_expire_def Let_def
      is_active_edge_def update_edges_def split: if_splits)+

lemma canonical_update: "canonical_edges D \<Longrightarrow>
    canonical_edges (update_edges p (\<lambda>e. e\<lparr>e_t_expired := x\<rparr>) D)"
  by (auto simp: canonical_edges_def)

lemma canonical_keeps [keeps_intros]:
  "keeps canonical_edges (expire_by_fact i now)" "keeps canonical_edges (edge_expire k now)"
  by (rule keepsI; auto simp: expire_by_fact_def edge_expire_def Let_def intro: canonical_update
      split: if_splits)+

lemma canonical_edge_insert:
  "ne_relation_type ne = relation_from s \<Longrightarrow> keeps canonical_edges (edge_insert ne)"
  by (rule keepsI) (auto simp: edge_insert_def canonical_edges_def Let_def split: if_splits)

lemma canonical_inserts [keeps_intros]:
  "keeps canonical_edges (edge_insert (relation_edge s t relation w sid now))"
  "keeps canonical_edges (edge_insert \<lparr>ne_source_fact_id = s, ne_target_fact_id = t,
      ne_relation_type = relation_from relation, ne_weight = w, ne_t_created = now,
      ne_t_expired = None, ne_scope_id = sid\<rparr>)"
  by (rule canonical_edge_insert [of _ relation], simp add: relation_edge_def)+

lemma keeps_resolve_paths:
  assumes "\<And>path. keeps I (on_scopes (\<lambda>s. ensure_path s path))"
  shows "keeps I (resolve_scope_paths ps cache)"
proof (induction ps cache rule: resolve_scope_paths.induct)
  case (3 path ps cache)
  show ?case
  proof (cases "map_of cache path")
    case None
    with "3.IH"(1) assms show ?thesis by simp (intro keeps_intros)
  next
    case (Some i)
    with "3.IH"(2) show ?thesis by simp (intro keeps_intros)
  qed
qed (simp_all, (intro keeps_intros)+)

lemma keeps_resolve_conflict_frame:
  assumes "facts_only I" "\<And>i. keeps I (expire_by_fact i now)"
    "\<And>s t w sid. keeps I (edge_insert (relation_edge s t relation w sid now))"
  shows "keeps I (resolve_conflict_atomic hash edim decision old_id nf relation weight now)"
proof -
  have ins: "keeps I (insert_successor hash edim old_id nf relation weight now)"
    unfolding insert_successor_def by (intro keeps_intros assms)
  have cas: "keeps I (cascade_expire old_id now)"
    unfolding cascade_expire_def by (intro keeps_intros assms)
  have add: "keeps I (\<lambda>D. if \<not> is_active D old_id
          then (Inl (NotFound (Fmt ''fact {} is no longer active (expired since arbitration)''
                 [AInt old_id])), D)
          else insert_successor hash edim old_id nf relation weight now D)"
    using ins by (simp add: keeps_def)
  show ?thesis
    by (cases decision; simp add: resolve_conflict_atomic_def; intro keeps_intros ins cas add)
qed

lemma keeps_prune_frame:
  assumes "facts_only I" "\<And>i. keeps I (expire_by_fact i now)"
  shows "keeps I (prune_atomic scored to_expire now)"
  unfolding prune_atomic_def expire_with_edges_def by (intro keeps_intros assms)

lemma keeps_cosession_frame:
  assumes "\<And>s t. keeps I (edge_insert \<lparr>ne_source_fact_id = s, ne_target_fact_id = t,
      ne_relation_type = relation_from relation, ne_weight = weight, ne_t_created = now,
      ne_t_expired = None, ne_scope_id = scope_id\<rparr>)"
  shows "keeps I (insert_cosession_edges_atomic ids relation weight scope_id now)"
  unfolding insert_cosession_edges_atomic_def Let_def
  by (rule keeps_transaction, rule keeps_dep, intro keeps_intros assms)

lemma keeps_batch_frame:
  assumes "facts_only I" "\<And>path. keeps I (on_scopes (\<lambda>s. ensure_path s path))"
  shows "keeps I (insert_facts_batch_atomic hash edim facts paths fp n)"
  unfolding insert_facts_batch_atomic_def batch_insert_savepoint_def
  by (intro keeps_intros keeps_resolve_paths assms)

lemma keeps_insert_fact_frame:
  "facts_only I \<Longrightarrow> keeps I (insert_fact_atomic hash edim nf fp n)"
  unfolding insert_fact_atomic_def by (intro keeps_intros)

lemma keeps_ensure_frame:
  "(\<And>path. keeps I (on_scopes (\<lambda>s. ensure_path s path))) \<Longrightarrow> keeps I (ensure_scope_path path)"
  unfolding ensure_scope_path_def by (intro keeps_intros)

lemma ensure_segments_grows:
  "ensure_segments s segs d p = (r, s') \<Longrightarrow> \<exists>extra. sc_rows s' = sc_rows s @ extra"
proof (induction s segs d p arbitrary: r s' rule: ensure_segments.induct)
  case (2 s seg segs d p)
  show ?case
  proof (cases "validate_label seg")
    case (Inr u)
    obtain r1 s1 where s1: "sql_insert_scope True s p seg d = (r1, s1)" by fastforce
    then obtain extra where extra: "sc_rows s1 = sc_rows s @ extra"
      by (auto simp: sql_insert_scope_def split: if_splits)
    show ?thesis
    proof (cases r1)
      case (Inr v)
      show ?thesis
      proof (cases "find_by_label s1 p seg")
        case (Some n)
        with "2.prems" s1 Inr \<open>validate_label seg = Inr u\<close>
        have "ensure_segments s1 segs (d + 1) (sn_id n) = (r, s')" by simp
        with "2.IH" [OF \<open>validate_label seg = Inr u\<close> s1 [symmetric] Inr Some] extra show ?thesis by auto
      qed (use "2.prems" s1 Inr \<open>validate_label seg = Inr u\<close> extra in auto)
    qed (use "2.prems" s1 \<open>validate_label seg = Inr u\<close> extra in auto)
  qed (use "2.prems" in auto)
qed simp

lemma ensure_keeps [keeps_intros]:
  "keeps (\<lambda>D. edge_part D = es) (on_scopes (\<lambda>s. ensure_path s path))"
  "keeps canonical_edges (on_scopes (\<lambda>s. ensure_path s path))"
  "keeps (edges_evolve D0) (on_scopes (\<lambda>s. ensure_path s path))"
  "keeps (scopes_from rows) (on_scopes (\<lambda>s. ensure_path s path))"
  by (rule keepsI; force simp: on_scopes_def canonical_edges_def scopes_from_def ensure_path_def
      edge_part_def edges_evolve_def
      dest: ensure_segments_grows split: prod.splits if_splits)+

lemma keeps_conj: "keeps I m \<Longrightarrow> keeps J m \<Longrightarrow> keeps (\<lambda>s. I s \<and> J s) m"
  by (simp add: keeps_def)

lemma store_ok_conj: "store_ok edim = (\<lambda>D. db_inv edim D \<and> canonical_edges D)"
  by (simp add: fun_eq_iff store_ok_def)

lemmas keeps_frames = keeps_prune_frame keeps_resolve_conflict_frame keeps_cosession_frame
  keeps_insert_fact_frame keeps_batch_frame keeps_ensure_frame

lemma methods_keep_canonical:
  "keeps canonical_edges (prune_atomic scored to_expire now)"
  "keeps canonical_edges (resolve_conflict_atomic hash edim decision old_id nf relation weight now)"
  "keeps canonical_edges (insert_cosession_edges_atomic ids relation weight scope_id now)"
  "keeps canonical_edges (edge_expire k now)"
  "keeps canonical_edges (insert_fact_atomic hash edim nf fp n)"
  "keeps canonical_edges (insert_facts_batch_atomic hash edim facts paths fp n)"
  "keeps canonical_edges (ensure_scope_path path)"
  by ((intro keeps_frames keeps_intros)+)

lemma methods_keep_scopes [keeps_intros]:
  "keeps (scopes_from rows) (prune_atomic scored to_expire now)"
  "keeps (scopes_from rows) (resolve_conflict_atomic hash edim decision old_id nf relation weight now)"
  "keeps (scopes_from rows) (insert_cosession_edges_atomic ids relation weight scope_id now)"
  "keeps (scopes_from rows) (insert_fact_atomic hash edim nf fp n)"
  "keeps (scopes_from rows) (insert_facts_batch_atomic hash edim facts paths fp n)"
  "keeps (scopes_from rows) (ensure_scope_path path)"
  by ((intro keeps_frames keeps_intros)+)

lemma methods_evolve [keeps_intros]:
  "keeps (edges_evolve D0) (prune_atomic scored to_expire now)"
  "keeps (edges_evolve D0) (resolve_conflict_atomic hash edim decision old_id nf relation weight now)"
  "keeps (edges_evolve D0) (insert_cosession_edges_atomic ids relation weight scope_id now)"
  by ((intro keeps_frames keeps_intros)+)

lemma methods_keep_edges [keeps_intros]:
  "keeps (\<lambda>D. edge_part D = es) (insert_fact_atomic hash edim nf fp n)"
  "keeps (\<lambda>D. edge_part D = es) (insert_facts_batch_atomic hash edim facts paths fp n)"
  "keeps (\<lambda>D. edge_part D = es) (ensure_scope_path path)"
  by ((intro keeps_frames keeps_intros)+)

lemma methods_keep_store_ok [keeps_intros]:
  "keeps (store_ok edim) (prune_atomic scored to_expire now)"
  "keeps (store_ok edim) (resolve_conflict_atomic hash edim decision old_id nf relation weight now)"
  "keeps (store_ok edim) (insert_cosession_edges_atomic ids relation weight scope_id now)"
  "keeps (store_ok edim) (edge_expire k now)"
  "keeps (store_ok edim) (insert_fact_atomic hash edim nf fp n)"
  "keeps (store_ok edim) (insert_facts_batch_atomic hash edim facts paths fp n)"
  "keeps (store_ok edim) (ensure_scope_path path)"
  unfolding store_ok_conj by ((intro keeps_conj methods_keep_canonical keeps_intros)+)

text \<open>The same for an operation on the store and a projection.\<close>

lemma keeps_on_store [keeps_intros]: "keeps I m \<Longrightarrow> keeps (\<lambda>(s, i). I s) (on_store m)"
  by (auto simp: keeps_def on_store_def split: prod.splits)

lemma keeps_on_index [keeps_intros]: "keeps (\<lambda>(s, i). I s) (on_index f)"
  by (auto simp: keeps_def on_index_def)

lemma keeps_prune:
  "(\<And>a b. keeps I (p_prune_atomic S a b now)) \<Longrightarrow> keeps (\<lambda>(s, g). I s) (prune S P ctx policy now)"
  unfolding prune_def by (intro keeps_intros)

lemma keeps_resolve:
  "(\<And>d a b c e. keeps I (p_resolve_conflict_atomic S d a b c e now)) \<Longrightarrow>
    keeps (\<lambda>(s, g). I s) (resolve_conflict S P chunks ctx arbitrate old_id nf now)"
  unfolding resolve_conflict_def Let_def by (intro keeps_intros)

lemma keeps_batch_port:
  assumes "\<And>a b c d. keeps I (p_insert_facts_batch_atomic S a b c d)"
  shows "keeps (\<lambda>(s, t). I s) (insert_validated_batch S ctx now entries em classifier)"
proof -
  have "keeps (\<lambda>(s, t). I s) (cache_leaves S ids)" for ids
    by (auto simp: keeps_def cache_leaves_def)
  then show ?thesis unfolding insert_validated_batch_def Let_def by (intro keeps_intros assms)
qed

lemma keeps_batches:
  assumes "\<And>a b c d. keeps I (p_insert_facts_batch_atomic S a b c d)"
  shows "keeps (\<lambda>(s, t). I s) (add_facts_batch S chunks ctx now entries em classifier)"
    "keeps (\<lambda>(s, t). I s) (add_facts_batch_partial S chunks ctx now entries em classifier)"
  unfolding add_facts_batch_def add_facts_batch_partial_def Let_def
  by (intro keeps_intros keeps_batch_port assms)+

subsection \<open>The graph after each call\<close>

definition cosession_triple :: "relation_type \<Rightarrow> fl \<Rightarrow> int \<times> fact_id \<times> fact_id \<Rightarrow> int \<times> int \<times> edge_data" where
  "cosession_triple rel w = (\<lambda>(k, s, t). (s, t, \<lparr>ed_edge_id = k, ed_relation_type = rel, ed_weight = w\<rparr>))"

context petgraph_laws begin

lemma mirrors_remove_edge:
  assumes m: "mirrors P g es" and d: "distinct (map e_id es)"
  shows "mirrors P (remove_edge_by_id P g k) (filter (\<lambda>e. e_id e \<noteq> k) es)"
proof -
  let ?ids = "map (\<lambda>e. ed_edge_id (snd (snd e))) (pg_edges P (mg_graph g))"
  have "mset ?ids = image_mset (\<lambda>x. ed_edge_id (snd (snd x))) (abs_edges P g)"
    by (simp add: abs_edges_def image_mset.compositionality comp_def)
  also have "\<dots> = mset (map e_id es)"
    using m by (simp add: mirrors_def image_mset.compositionality comp_def edge_triple_def)
  finally have "distinct ?ids" using d mset_eq_imp_distinct_iff by blast
  with m remove_edge_by_id_ok [of g k] show ?thesis
    by (simp add: mirrors_def filter_mset_image_mset comp_def edge_triple_def)
qed

lemma mirrors_cosession:
  "mirrors P g es \<Longrightarrow> map edge_triple new = map (cosession_triple CoSession co_session_weight) new_edges \<Longrightarrow>
   mirrors P (mirror_cosession P new_edges g) (es @ new)"
proof (induction new_edges arbitrary: g es new)
  case (Cons x xs)
  obtain k s t where x: "x = (k, s, t)" by (cases x)
  from Cons.prems(2) x obtain e rest where new: "new = e # rest"
    and e: "edge_triple e = (s, t, \<lparr>ed_edge_id = k, ed_relation_type = CoSession, ed_weight = co_session_weight\<rparr>)"
    by (cases new) (auto simp: cosession_triple_def)
  from Cons.IH [OF mirrors_add [OF Cons.prems(1) e], of rest] Cons.prems(2)
  show ?case by (simp add: mirror_cosession_def x new)
qed (simp add: mirror_cosession_def)

end

lemma op_map_inserts:
  assumes "\<And>p D x D'. f p D = (Inr x, D') \<Longrightarrow> snd x = p \<and>
      (\<exists>e. active_edges D' = active_edges D @ [e] \<and> edge_triple e = cosession_triple rel w x)"
  shows "op_map f ps D = (Inr new_edges, D') \<Longrightarrow>
    map snd new_edges = ps \<and> (\<exists>new. active_edges D' = active_edges D @ new \<and>
      map edge_triple new = map (cosession_triple rel w) new_edges)"
proof (induction ps arbitrary: D new_edges)
  case (Cons p ps)
  from Cons.prems obtain x D1 rest where x: "f p D = (Inr x, D1)"
    and rest: "op_map f ps D1 = (Inr rest, D')" and new: "new_edges = x # rest"
    by (auto simp: op_bind_Inr)
  from assms [OF x] obtain e where "snd x = p" "active_edges D1 = active_edges D @ [e]"
    "edge_triple e = cosession_triple rel w x" by blast
  moreover from Cons.IH [OF rest] obtain es where "map snd rest = ps" "active_edges D' = active_edges D1 @ es"
    "map edge_triple es = map (cosession_triple rel w) rest" by blast
  ultimately show ?case by (intro conjI exI [of _ "e # es"]) (simp_all add: new)
qed simp

lemma cosession_inserted:
  assumes "insert_cosession_edges_atomic ids relation w sid now D = (Inr new_edges, D')"
  shows "\<exists>new. active_edges D' = active_edges D @ new \<and>
      map edge_triple new = map (cosession_triple (relation_from relation) w) new_edges"
    and "map snd new_edges = filter (\<lambda>p. p \<notin> list_active_pairs_by_facts D ids relation) (pairs_both_ways ids)"
proof -
  let ?f = "\<lambda>(src, tgt). op_bind (edge_insert \<lparr>ne_source_fact_id = src, ne_target_fact_id = tgt,
      ne_relation_type = relation_from relation, ne_weight = w, ne_t_created = now,
      ne_t_expired = None, ne_scope_id = sid\<rparr>) (\<lambda>eid. op_return (eid, src, tgt))"
  have r: "op_map ?f (filter (\<lambda>p. p \<notin> list_active_pairs_by_facts D ids relation) (pairs_both_ways ids)) D
      = (Inr new_edges, D')"
    using assms by (simp add: insert_cosession_edges_atomic_def Let_def transaction_Inr)
  have step: "snd x = p \<and> (\<exists>e. active_edges D' = active_edges D @ [e] \<and>
      edge_triple e = cosession_triple (relation_from relation) w x)"
    if f: "?f p D = (Inr x, D')" for p D x D'
  proof -
    obtain src tgt where p: "p = (src, tgt)" by (cases p)
    from f obtain k where k: "edge_insert \<lparr>ne_source_fact_id = src, ne_target_fact_id = tgt,
      ne_relation_type = relation_from relation, ne_weight = w, ne_t_created = now,
      ne_t_expired = None, ne_scope_id = sid\<rparr> D = (Inr k, D')" and x: "x = (k, src, tgt)"
      by (auto simp: p op_bind_Inr)
    from edge_insert_ok(2) [OF k] show ?thesis
      by (auto simp: x p active_edges_def is_active_edge_def edge_triple_def cosession_triple_def)
  qed
  note * = op_map_inserts [OF step r]
  then show "\<exists>new. active_edges D' = active_edges D @ new \<and>
      map edge_triple new = map (cosession_triple (relation_from relation) w) new_edges"
    and "map snd new_edges = filter (\<lambda>p. p \<notin> list_active_pairs_by_facts D ids relation) (pairs_both_ways ids)"
    by blast+
qed

lemma edge_expire_active:
  assumes "edge_expire k now D = (Inr u, D')"
  shows "active_edges D' = filter (\<lambda>e. e_id e \<noteq> k) (active_edges D)"
proof -
  from assms have D': "D' = update_edges (\<lambda>e. e_id e = k \<and> is_active_edge e)
      (\<lambda>e. e\<lparr>e_t_expired := Some now\<rparr>) D"
    by (auto simp: edge_expire_def Let_def split: if_splits)
  have "active_edges D' = filter (\<lambda>e. is_active_edge e \<and> \<not> (e_id e = k \<and> is_active_edge e)) (d_edges D)"
    unfolding active_edges_def D' update_edges_simps
    by (rule filter_map_update) (simp add: is_active_edge_def)
  then show ?thesis by (auto simp: active_edges_def intro: filter_cong)
qed

subsection \<open>The tree after each call\<close>

definition scopes_ok :: "nat \<Rightarrow> db \<Rightarrow> db \<times> scope_tree \<Rightarrow> bool" where
  \<comment> \<open>the tree is a part of the scope table, which extends the one of \<open>D0\<close>; the edges are the same\<close>
  "scopes_ok edim D0 = (\<lambda>(D, t). store_ok edim D \<and> edge_part D = edge_part D0 \<and>
     scopes_from (sc_rows (d_scopes D0)) D \<and> subtree_of t (from_nodes (sc_rows (d_scopes D))))"

lemma subtree_lift:
  assumes "store_ok edim D" "store_ok edim D'" "scopes_from (sc_rows (d_scopes D)) D'"
    "subtree_of t (from_nodes (sc_rows (d_scopes D)))"
  shows "subtree_of t (from_nodes (sc_rows (d_scopes D')))"
  using assms subtree_of_from_nodes [OF db_invD(1) db_invD(1) _ assms(4)]
  by (auto simp: store_ok_def scopes_from_def)

lemma scopes_from_self [simp]: "scopes_from (sc_rows (d_scopes D)) D"
  by (simp add: scopes_from_def)

lemma keeps_subtree:
  assumes "keeps (store_ok edim) m" "keeps (scopes_from (sc_rows (d_scopes D))) m"
    and "store_ok edim D" "subtree_of t (from_nodes (sc_rows (d_scopes D)))" "m D = (r, D')"
  shows "store_ok edim D' \<and> subtree_of t (from_nodes (sc_rows (d_scopes D')))"
  using keepsD [OF assms(1,3,5)] keepsD [OF assms(2) scopes_from_self assms(5)] subtree_lift assms(3,4)
  by blast

lemma keeps_scopes_ok_store:
  assumes "keeps (store_ok edim) m" "\<And>rows. keeps (scopes_from rows) m" "keeps (\<lambda>D. edge_part D = edge_part D0) m"
  shows "keeps (scopes_ok edim D0) (on_store m)"
proof (rule keepsI, clarify)
  fix D t r D' t' assume *: "scopes_ok edim D0 (D, t)" "on_store m (D, t) = (r, (D', t'))"
  then have D: "m D = (r, D')" "t' = t" "store_ok edim D" "edge_part D = edge_part D0"
    "scopes_from (sc_rows (d_scopes D0)) D" "subtree_of t (from_nodes (sc_rows (d_scopes D)))"
    by (simp_all add: scopes_ok_def)
  have "store_ok edim D' \<and> subtree_of t (from_nodes (sc_rows (d_scopes D')))"
    by (rule keeps_subtree [OF assms(1,2) D(3,6,1)])
  moreover have "edge_part D' = edge_part D0" by (rule keepsD [OF assms(3) D(4,1)])
  moreover have "scopes_from (sc_rows (d_scopes D0)) D'" by (rule keepsD [OF assms(2) D(5,1)])
  ultimately show "scopes_ok edim D0 (D', t')" by (simp add: scopes_ok_def D(2))
qed

lemma keeps_cache_leaves: "keeps (scopes_ok edim D0) (cache_leaves (sqlite_storage hash edim) ids)"
proof (rule keepsI, clarify)
  fix D t r D' t' assume *: "scopes_ok edim D0 (D, t)"
    "cache_leaves (sqlite_storage hash edim) ids (D, t) = (r, (D', t'))"
  let ?T = "from_nodes (sc_rows (d_scopes D))"
  let ?ns = "List.map_filter (\<lambda>i. case scope_get (d_scopes D) i of Inr n \<Rightarrow> Some n | Inl _ \<Rightarrow> None) ids"
  from * have D: "D' = D" "t' = fold insert_scope ?ns t" "store_ok edim D" "edge_part D = edge_part D0"
    "scopes_from (sc_rows (d_scopes D0)) D" "subtree_of t ?T"
    by (auto simp: scopes_ok_def cache_leaves_def sqlite_storage_def)
  then have inv: "scopes_inv (d_scopes D)" by (auto simp: store_ok_def dest: db_invD(1))
  have "n \<in> set (sc_rows (d_scopes D))" if "scope_get (d_scopes D) i = Inr n" for i n
    using that by (auto simp: scope_get_def dest: find_eq_Some_in split: option.splits)
  then have "\<forall>n \<in> set ?ns. map_of (st_nodes ?T) (sn_id n) = Some n"
    by (auto simp: tree_of_nodes [OF inv] map_filter_def split: sum.splits)
  then have "subtree_of t' ?T"
    using D fold_insert_lookup [of ?ns t]
    by (fastforce simp: subtree_of_def intro: fold_insert_scope_index_ok)
  with D show "scopes_ok edim D0 (D', t')" by (simp add: scopes_ok_def)
qed

lemma keeps_batches_ok:
  "keeps (scopes_ok edim D0) (add_facts_batch (sqlite_storage hash edim) chunks ctx now entries em classifier)"
  "keeps (scopes_ok edim D0)
     (add_facts_batch_partial (sqlite_storage hash edim) chunks ctx now entries em classifier)"
proof -
  have "keeps (scopes_ok edim D0) (on_store (p_insert_facts_batch_atomic (sqlite_storage hash edim) a b c d))"
    for a b c d
    unfolding sqlite_storage_def by (simp add: keeps_scopes_ok_store keeps_intros)
  then have ins: "keeps (scopes_ok edim D0)
      (insert_validated_batch (sqlite_storage hash edim) ctx now entries em classifier)" for entries
    unfolding insert_validated_batch_def Let_def by (intro keeps_intros keeps_cache_leaves)
  show "keeps (scopes_ok edim D0)
      (add_facts_batch (sqlite_storage hash edim) chunks ctx now entries em classifier)"
    "keeps (scopes_ok edim D0)
      (add_facts_batch_partial (sqlite_storage hash edim) chunks ctx now entries em classifier)"
    unfolding add_facts_batch_def add_facts_batch_partial_def Let_def by (intro keeps_intros ins)+
qed

lemma ensured_scopes_ok:
  assumes ok: "scopes_ok edim D0 (D, t)" and e: "ensure_scope_path path D = (r, D1)"
  shows "scopes_ok edim D0 (D1, t)"
    and "r = Inr i \<Longrightarrow> \<exists>t1. cache_scope_chain (scope_get (d_scopes D1)) t i = Some (Inr t1) \<and>
      scopes_ok edim D0 (D1, t1) \<and> resolve_path t1 path = Some i"
proof -
  have k: "keeps (scopes_ok edim D0) (on_store (ensure_scope_path path))"
    by (intro keeps_scopes_ok_store keeps_intros)
  have "on_store (ensure_scope_path path) (D, t) = (r, (D1, t))" using e by simp
  from keepsD [OF k ok this] show ok1: "scopes_ok edim D0 (D1, t)" .
  assume "r = Inr i"
  with e have "p_ensure_scope_path (sqlite_storage h edim) path D = (Inr i, D1)" for h
    by (simp add: sqlite_storage_def)
  from sqls.hydrates [OF _ _ this, of t undefined] ok show "\<exists>t1. cache_scope_chain (scope_get (d_scopes D1)) t i = Some (Inr t1) \<and>
      scopes_ok edim D0 (D1, t1) \<and> resolve_path t1 path = Some i"
    using ok1 by (auto simp: scopes_ok_def store_ok_def sqlite_storage_def)
qed

lemma engine_ok_iff:
  "engine_ok edim P (D, g, t) \<longleftrightarrow> mirrors P g (active_edges D) \<and> scopes_ok edim D (D, t)"
  by (auto simp: engine_ok_def scopes_ok_def)

lemma insert_with_embedding_ok:
  assumes ok: "scopes_ok edim D0 (D, t)"
    and r: "insert_fact_with_embedding (sqlite_storage hash edim) ctx now req embedding classifier fp (D, t)
      = Some (res, (D', t'))"
  shows "scopes_ok edim D0 (D', t')"
proof -
  let ?commit = "\<lambda>sid. on_store (insert_fact_atomic hash edim
    (new_fact_of now req embedding (pin_of classifier req) sid) fp (ctx_embed_dim ctx))"
  have k: "keeps (scopes_ok edim D0) (?commit sid)" for sid
    by (intro keeps_scopes_ok_store keeps_intros)
  show ?thesis
  proof (cases "q_scope req")
    case None
    with r have "?commit 1 (D, t) = (res, (D', t'))"
      by (simp add: insert_fact_with_embedding_def Let_def sqlite_storage_def)
    from keepsD [OF k ok this] show ?thesis .
  next
    case (Some path)
    obtain res1 D1 where e: "ensure_scope_path path D = (res1, D1)" by fastforce
    note en = ensured_scopes_ok [OF ok e]
    show ?thesis
    proof (cases res1)
      case (Inl e')
      with r Some e en(1) show ?thesis
        by (simp add: insert_fact_with_embedding_def Let_def sqlite_storage_def)
    next
      case (Inr i)
      from en(2) [OF Inr] obtain t1 where t1: "cache_scope_chain (scope_get (d_scopes D1)) t i = Some (Inr t1)"
        "scopes_ok edim D0 (D1, t1)" by blast
      with r Some e Inr have "?commit i (D1, t1) = (res, (D', t'))"
        by (simp add: insert_fact_with_embedding_def Let_def sqlite_storage_def)
      from keepsD [OF k t1(2) this] show ?thesis .
    qed
  qed
qed

lemma add_fact_ok:
  assumes "scopes_ok edim D0 (D, t)"
  shows "add_fact (sqlite_storage hash edim) chunks ctx now req em classifier (D, t) = Some (r, (D', t')) \<Longrightarrow>
      scopes_ok edim D0 (D', t')"
    and "add_fact_precomputed (sqlite_storage hash edim) chunks ctx now req embedding declared classifier (D, t)
      = Some (r, (D', t')) \<Longrightarrow> scopes_ok edim D0 (D', t')"
  using assms insert_with_embedding_ok [OF assms]
  by (auto simp: add_fact_def add_fact_precomputed_def split: sum.splits)

lemma ensure_scope_ok:
  assumes ok: "scopes_ok edim D0 (D, t)"
    and r: "engine_ensure_scope_path ctx path (D, g, t) = Some (res, (D', g', t'))"
  shows "scopes_ok edim D0 (D', t') \<and> g' = g \<and> (\<forall>i. res = Inr i \<longrightarrow> resolve_path t' path = Some i)"
proof (cases "ensure_writable ctx")
  case Inl
  with r ok show ?thesis by (auto simp: engine_ensure_scope_path_def)
next
  case w: (Inr u)
  obtain res1 D1 where e: "ensure_scope_path path D = (res1, D1)" by fastforce
  note en = ensured_scopes_ok [OF ok e]
  show ?thesis
  proof (cases res1)
    case Inl
    with r w e en(1) show ?thesis by (auto simp: engine_ensure_scope_path_def)
  next
    case (Inr i)
    from en(2) [OF Inr] r w e Inr show ?thesis by (auto simp: engine_ensure_scope_path_def)
  qed
qed

lemma ensure_scope_returns:
  assumes "scopes_ok edim D0 (D, t)"
  shows "engine_ensure_scope_path ctx path (D, g, t) \<noteq> None"
proof -
  obtain res1 D1 where e: "ensure_scope_path path D = (res1, D1)" by fastforce
  from ensured_scopes_ok(2) [OF assms e] e show ?thesis
    by (cases res1) (auto simp: engine_ensure_scope_path_def split: sum.split)
qed

lemma scopes_ok_commit:
  assumes ok: "scopes_ok edim D0 (D, t)" and m: "keeps (store_ok edim) m" "\<And>rows. keeps (scopes_from rows) m"
    and r: "m D = (r, D')"
  shows "scopes_ok edim D' (D', t)"
  using keeps_subtree [OF m _ _ r, of t] ok by (simp add: scopes_ok_def)

context mirrored_store begin

lemma prune_index:
  assumes "prune S P ctx policy now (s, g) = (r, (s', g'))" "st_ok s" "mirrors P g (st_edges s)"
  shows "mirrors P g' (st_edges s')"
proof (cases r)
  case (Inl e)
  with prune_error_unchanged assms show ?thesis by blast
next
  case (Inr x)
  with prune_mirrors(2) [OF assms(2,3), of ctx policy now "fst x" "snd x"] assms(1) show ?thesis by simp
qed

lemma resolve_index:
  assumes "resolve_conflict S P chunks ctx arbitrate old_id nf now (s, g) = (r, (s', g'))"
    "st_ok s" "mirrors P g (st_edges s)"
  shows "mirrors P g' (st_edges s')"
proof (cases r)
  case (Inl e)
  with resolve_conflict_error assms show ?thesis by blast
next
  case (Inr x)
  with resolve_conflict_mirrors [OF assms(2,3)] assms(1) show ?thesis by blast
qed

end

lemma expire_edge_ok:
  assumes P: "petgraph_laws P" and ok: "engine_ok edim P (D, g, t)"
    and r: "expire_edge P ctx k now (D, g, t) = (u, (D', g', t'))"
  shows "engine_ok edim P (D', g', t')"
proof (cases u)
  case (Inl e)
  then have "D' = D \<and> g' = g \<and> t' = t"
    using r by (auto simp: expire_edge_def op_bind_Inl on_db_def on_graph_def edge_expire_def Let_def
        split: if_splits)
  with ok show ?thesis by simp
next
  case (Inr x)
  with r have e: "edge_expire k now D = (Inr (), D')" and g': "g' = remove_edge_by_id P g k" and t': "t' = t"
    by (auto simp: expire_edge_def op_bind_Inr on_db_def on_graph_def)
  from ok have *: "store_ok edim D" "mirrors P g (active_edges D)" "scopes_ok edim D (D, t)"
    by (auto simp: engine_ok_iff scopes_ok_def)
  have "distinct (map e_id (active_edges D))"
    using *(1) db_inv_distinct(2) by (auto simp: store_ok_def active_edges_def distinct_map_filter)
  from petgraph_laws.mirrors_remove_edge [OF P *(2) this, of k] edge_expire_active [OF e]
  have "mirrors P g' (active_edges D')" by (simp add: g')
  moreover have "scopes_ok edim D' (D', t)"
    by (rule scopes_ok_commit [where m = "edge_expire k now", OF *(3) _ _ e]) (intro keeps_intros)+
  ultimately show ?thesis by (simp add: engine_ok_iff t')
qed

lemma link_session_facts_ok:
  assumes P: "petgraph_laws P" and ok: "engine_ok edim P (D, g, t)"
    and r: "link_session_facts P ctx session_id scope now (D, g, t) = (n, (D', g', t'))"
  shows "engine_ok edim P (D', g', t')"
proof (cases "D' = D \<and> g' = g \<and> t' = t")
  case False
  then obtain ids new_edges where
    e: "insert_cosession_edges_atomic ids co_session_relation co_session_weight co_session_scope_id now D
      = (Inr new_edges, D')" and g': "g' = mirror_cosession P new_edges g" and t': "t' = t"
    using r atomic_methods(6)
    by (cases n) (auto simp: link_session_facts_def op_bind_Inr op_bind_Inl on_db_def on_graph_def
        all_or_nothing_def split: if_splits)
  from ok have *: "mirrors P g (active_edges D)" "scopes_ok edim D (D, t)"
    by (auto simp: engine_ok_iff)
  from cosession_inserted(1) [OF e] obtain new where "active_edges D' = active_edges D @ new"
    "map edge_triple new = map (cosession_triple CoSession co_session_weight) new_edges"
    by (auto simp: co_session_relation_def relation_from_def)
  with petgraph_laws.mirrors_cosession [OF P *(1)] have "mirrors P g' (active_edges D')"
    by (simp add: g')
  moreover have "scopes_ok edim D' (D', t)"
    by (rule scopes_ok_commit [where m = "insert_cosession_edges_atomic ids co_session_relation
          co_session_weight co_session_scope_id now", OF *(2) _ _ e]) (intro keeps_intros)+
  ultimately show ?thesis by (simp add: engine_ok_iff t')
qed (use ok in simp)

lemma keeps_graph_call:
  assumes ok: "scopes_ok edim D0 (D, t)" and r: "m (D, g) = (r, (D', g'))"
    and m: "keeps (\<lambda>(D, g). store_ok edim D) m" "\<And>rows. keeps (\<lambda>(D, g). scopes_from rows D) m"
  shows "scopes_ok edim D' (D', t)"
proof -
  from ok have D: "store_ok edim D" "subtree_of t (from_nodes (sc_rows (d_scopes D)))"
    by (simp_all add: scopes_ok_def)
  from keepsD [OF m(1) _ r] D(1) have D': "store_ok edim D'" by simp
  from keepsD [OF m(2) _ r] scopes_from_self have "scopes_from (sc_rows (d_scopes D)) D'" by simp
  from subtree_lift [OF D(1) D' this D(2)] D' show ?thesis by (simp add: scopes_ok_def)
qed

lemma sqlite_keeps [keeps_intros]:
  "keeps (store_ok edim) (p_prune_atomic (sqlite_storage hash edim) a b now)"
  "keeps (store_ok edim) (p_resolve_conflict_atomic (sqlite_storage hash edim) d i nf rel w now)"
  "keeps (scopes_from rows) (p_prune_atomic (sqlite_storage hash edim) a b now)"
  "keeps (scopes_from rows) (p_resolve_conflict_atomic (sqlite_storage hash edim) d i nf rel w now)"
  by (simp_all add: sqlite_storage_def, (intro keeps_intros)+)

lemma prune_call_ok:
  assumes P: "petgraph_laws P" and ok: "engine_ok edim P (D, g, t)"
    and r: "prune (sqlite_storage hash edim) P ctx policy now (D, g) = (r, (D', g'))"
  shows "engine_ok edim P (D', g', t)"
proof -
  from ok have *: "db_inv edim D" "mirrors P g (active_edges D)" "scopes_ok edim D (D, t)"
    by (auto simp: engine_ok_iff scopes_ok_def store_ok_def)
  have "scopes_ok edim D' (D', t)"
    by (rule keeps_graph_call [where m = "prune (sqlite_storage hash edim) P ctx policy now", OF *(3) r])
      (intro keeps_prune keeps_intros)+
  with mirrored_store.prune_index [OF mirrored_store.intro [OF P sql.fact_graph_port_axioms] r *(1,2)]
  show ?thesis by (simp add: engine_ok_iff)
qed

lemma resolve_call_ok:
  assumes P: "petgraph_laws P" and ok: "engine_ok edim P (D, g, t)"
    and r: "resolve_conflict (sqlite_storage hash edim) P chunks ctx arbitrate old_id nf now (D, g)
      = (r, (D', g'))"
  shows "engine_ok edim P (D', g', t)"
proof -
  from ok have *: "db_inv edim D" "mirrors P g (active_edges D)" "scopes_ok edim D (D, t)"
    by (auto simp: engine_ok_iff scopes_ok_def store_ok_def)
  have "scopes_ok edim D' (D', t)"
    by (rule keeps_graph_call [where m = "resolve_conflict (sqlite_storage hash edim) P chunks ctx arbitrate
          old_id nf now", OF *(3) r])
      (intro keeps_resolve keeps_intros)+
  with mirrored_store.resolve_index [OF mirrored_store.intro [OF P sql.fact_graph_port_axioms] r *(1,2)]
  show ?thesis by (simp add: engine_ok_iff)
qed

lemma tree_call_ok:
  assumes "engine_ok edim P (D, g, t)"
    and "scopes_ok edim D (D, t) \<Longrightarrow> scopes_ok edim D (D', t')"
  shows "engine_ok edim P (D', g, t')"
  using assms by (auto simp: engine_ok_def scopes_ok_def active_edges_def edge_part_def)

lemma ensure_call_ok:
  assumes ok: "engine_ok edim P (D, g, t)"
    and r: "engine_ensure_scope_path ctx path (D, g, t) = Some (res, (D', g', t'))"
  shows "engine_ok edim P (D', g', t')"
proof -
  from ok have "scopes_ok edim D (D, t)" by (simp add: engine_ok_iff)
  from ensure_scope_ok [OF this r] tree_call_ok [OF ok] show ?thesis by blast
qed

lemma engine_step_ok:
  assumes step: "engine_step hash edim P s s'" and P: "petgraph_laws P" and ok: "engine_ok edim P s"
  shows "engine_ok edim P s'"
  using step ok
proof cases
  case step_prune
  with prune_call_ok [OF P] ok show ?thesis by blast
next
  case step_resolve
  with resolve_call_ok [OF P] ok show ?thesis by blast
next
  case step_add_fact
  then show ?thesis using ok by (auto elim!: tree_call_ok intro: add_fact_ok(1) [OF _ step_add_fact(3)])
next
  case step_add_fact_precomputed
  then show ?thesis using ok by (auto elim!: tree_call_ok intro: add_fact_ok(2) [OF _ step_add_fact_precomputed(3)])
next
  case step_batch
  then show ?thesis using ok by (auto elim!: tree_call_ok intro: keepsD [OF keeps_batches_ok(1) _ step_batch(3)])
next
  case step_batch_partial
  then show ?thesis using ok by (auto elim!: tree_call_ok intro: keepsD [OF keeps_batches_ok(2) _ step_batch_partial(3)])
next
  case step_link
  with link_session_facts_ok [OF P] ok show ?thesis by blast
next
  case step_expire_edge
  with expire_edge_ok [OF P] ok show ?thesis by blast
next
  case step_ensure_scope
  with ensure_call_ok ok show ?thesis by blast
next
  case step_reopen
  with engine_open_ok [OF P] ok show ?thesis by (simp add: engine_ok_def)
qed

lemma engine_reach_ok:
  assumes "engine_reach hash edim P D0 s" "petgraph_laws P" "store_ok edim D0"
  shows "engine_ok edim P s"
  using assms by (induction rule: engine_reach.induct) (auto intro: engine_open_ok engine_step_ok)

subsection \<open>The store only moves forward\<close>

text \<open>
  Between two states of the engine no edge comes back to life and no scope row changes: an edge
  active later was there before or has a newer id, and the scope table is extended.
\<close>

lemma edges_evolve_refl: "edges_evolve D D"
  by (simp add: edges_evolve_def)

lemma edges_evolve_trans: "edges_evolve D D1 \<Longrightarrow> edges_evolve D1 D2 \<Longrightarrow> edges_evolve D D2"
  by (fastforce simp: edges_evolve_def)

lemma scopes_from_trans:
  "scopes_from (sc_rows (d_scopes D)) D1 \<Longrightarrow> scopes_from (sc_rows (d_scopes D1)) D2 \<Longrightarrow>
   scopes_from (sc_rows (d_scopes D)) D2"
  by (auto simp: scopes_from_def)

lemma sqlite_evolve [keeps_intros]:
  "keeps (edges_evolve D0) (p_prune_atomic (sqlite_storage hash edim) a b now)"
  "keeps (edges_evolve D0) (p_resolve_conflict_atomic (sqlite_storage hash edim) d i nf rel w now)"
  by (simp_all add: sqlite_storage_def, (intro keeps_intros)+)

lemma keeps_on_db [keeps_intros]: "keeps I m \<Longrightarrow> keeps (\<lambda>(D, i). I D) (on_db m)"
  unfolding on_db_def by (rule keeps_on_store)

lemma keeps_on_graph [keeps_intros]: "keeps (\<lambda>(D, i). I D) (on_graph f)"
  by (auto simp: keeps_def on_graph_def)

lemma keeps_link:
  assumes "\<And>ids. keeps I (insert_cosession_edges_atomic ids co_session_relation co_session_weight
    co_session_scope_id now)"
  shows "keeps (\<lambda>(D, i). I D) (link_session_facts P ctx session_id scope now)"
  unfolding link_session_facts_def by (intro keeps_intros assms)

lemma keeps_expire_edge:
  assumes "keeps I (edge_expire k now)"
  shows "keeps (\<lambda>(D, i). I D) (expire_edge P ctx k now)"
  unfolding expire_edge_def by (intro keeps_intros assms)

definition store_extends :: "db \<Rightarrow> db \<Rightarrow> bool" where
  "store_extends D0 D \<longleftrightarrow> edges_evolve D0 D \<and> scopes_from (sc_rows (d_scopes D0)) D"

lemma scopes_ok_extends: "scopes_ok edim D0 (D, t) \<Longrightarrow> store_extends D0 D"
  by (auto simp: scopes_ok_def store_extends_def edges_evolve_def edge_part_def)

lemma store_extends_refl [simp]: "store_extends D D"
  by (simp add: store_extends_def edges_evolve_refl)

lemma store_extends_trans: "store_extends D D1 \<Longrightarrow> store_extends D1 D2 \<Longrightarrow> store_extends D D2"
  unfolding store_extends_def using edges_evolve_trans scopes_from_trans by blast

lemma extends_keepsD:
  assumes "keeps (\<lambda>(D, i). edges_evolve D0 D) m" "keeps (\<lambda>(D, i). scopes_from (sc_rows (d_scopes D0)) D) m"
    and "m (D0, i) = (r, (D', i'))"
  shows "store_extends D0 D'"
  using keepsD [OF assms(1) _ assms(3)] keepsD [OF assms(2) _ assms(3)]
  by (simp add: store_extends_def edges_evolve_refl)

lemma graph_calls_extend:
  "prune (sqlite_storage hash edim) P ctx policy now (D, g) = (r, (D', g')) \<Longrightarrow> store_extends D D'"
  "resolve_conflict (sqlite_storage hash edim) P chunks ctx arbitrate old_id nf now (D, g) = (cr, (D', g')) \<Longrightarrow>
    store_extends D D'"
  "link_session_facts P ctx session_id scope now (D, gt) = (n, (D', gt')) \<Longrightarrow> store_extends D D'"
  "expire_edge P ctx k now (D, gt) = (u, (D', gt')) \<Longrightarrow> store_extends D D'"
  by (erule extends_keepsD [rotated 2];
      intro keeps_prune keeps_resolve keeps_link keeps_expire_edge keeps_intros)+

lemma engine_step_extends:
  assumes step: "engine_step hash edim P s s'" and ok: "engine_ok edim P s"
  shows "store_extends (fst s) (fst s')"
  using step
proof cases
  case step_prune
  then show ?thesis by (simp add: graph_calls_extend(1) [OF step_prune(3)])
next
  case step_resolve
  then show ?thesis by (simp add: graph_calls_extend(2) [OF step_resolve(3)])
next
  case step_link
  then show ?thesis by (simp add: graph_calls_extend(3) [OF step_link(3)])
next
  case step_expire_edge
  then show ?thesis by (simp add: graph_calls_extend(4) [OF step_expire_edge(3)])
next
  case step_add_fact
  with ok show ?thesis by (auto simp: engine_ok_iff dest: add_fact_ok(1) scopes_ok_extends)
next
  case step_add_fact_precomputed
  with ok show ?thesis by (auto simp: engine_ok_iff dest: add_fact_ok(2) scopes_ok_extends)
next
  case step_batch
  with ok show ?thesis
    by (auto simp: engine_ok_iff dest: keepsD [OF keeps_batches_ok(1)] scopes_ok_extends)
next
  case step_batch_partial
  with ok show ?thesis
    by (auto simp: engine_ok_iff dest: keepsD [OF keeps_batches_ok(2)] scopes_ok_extends)
next
  case step_ensure_scope
  with ok show ?thesis by (auto simp: engine_ok_iff dest: ensure_scope_ok scopes_ok_extends)
next
  case step_reopen
  then show ?thesis by (simp add: engine_open_def)
qed

end
