(* ===== verification/Search_Index.thy ===== *)
theory Search_Index
  imports Fact_Store
begin

text \<open>
  The retrieval side of the SQLite backend: the closed filter language \<open>FactFilter\<close>
  (\<open>me-storage/src/filter.rs\<close>) and its translation (\<open>sqlite/convert.rs\<close>), the brute-force vector
  scan (\<open>search/vector.rs\<close>), the full-text queries (\<open>search/fts.rs\<close>) and cosine similarity
  (\<open>me-types/src/math.rs\<close>). A rendered SQL fragment is the list of its conjuncts, each as the
  predicate on rows it denotes. The FTS5 module of SQLite is a parameter: whether it accepts a
  query string, and the bm25 score of a row of the table, when the row matches. The HNSW index
  is not modelled: this is the path taken without a search configuration.

  The lemmas show which filters the translation accepts and what an accepted one selects, that
  the vector scan returns the best rows under the filter, and that cosine similarity stays in
  [-1, 1] on finite vectors.
\<close>

subsection \<open>Cosine similarity\<close>

definition cosine_step :: "fl \<times> fl \<Rightarrow> fl \<times> fl \<times> fl \<Rightarrow> fl \<times> fl \<times> fl" where
  "cosine_step = (\<lambda>(x, y) (dot, norm_a, norm_b).
     (fl_mul_add x y dot, fl_mul_add x x norm_a, fl_mul_add y y norm_b))"

definition cosine_similarity :: "fl list \<Rightarrow> fl list \<Rightarrow> fl" where
  "cosine_similarity a b =
     (case fold cosine_step (zip a b) (Fin 0, Fin 0, Fin 0) of (dot, norm_a, norm_b) \<Rightarrow>
        let denom = fl_mul (fl_sqrt norm_a) (fl_sqrt norm_b)
        in if fl_eq denom (Fin 0) then Fin 0 else fl_div dot denom)"

subsection \<open>The filter language\<close>

datatype temporal_filter = Active | AsOf time | ValidDue time | IncludeExpired

datatype metadata_predicate = KeyAbsent string | KeyPresent string | KeyEquals string json

record fact_filter =
  ff_fact_type :: "fact_type option"
  ff_scope_ids :: "int list option"
  ff_ids :: "fact_id list option"
  ff_temporal :: temporal_filter
  ff_pinned :: "bool option"
  ff_metadata :: "metadata_predicate list"

definition default_filter :: fact_filter where
  "default_filter = \<lparr>ff_fact_type = None, ff_scope_ids = None, ff_ids = None,
     ff_temporal = Active, ff_pinned = None, ff_metadata = []\<rparr>"

subsection \<open>Its translation\<close>

text \<open>
  \<open>json_extract\<close> yields a SQL scalar: NULL for an absent key and for a JSON null, 1 or 0 for a
  boolean, the text of a composite value (\<open>json_text\<close>, SQLite's rendering, is a parameter).
\<close>

datatype sql_value = SqlNull | SqlNum fl | SqlText string

fun sql_of_json :: "(json \<Rightarrow> string) \<Rightarrow> json \<Rightarrow> sql_value" where
  "sql_of_json json_text JNull = SqlNull"
| "sql_of_json json_text (JBool b) = SqlNum (Fin (if b then 1 else 0))"
| "sql_of_json json_text (JNum x) = SqlNum x"
| "sql_of_json json_text (JStr s) = SqlText s"
| "sql_of_json json_text (JArr js) = SqlText (json_text (JArr js))"
| "sql_of_json json_text (JObj kvs) = SqlText (json_text (JObj kvs))"

definition json_extract :: "(json \<Rightarrow> string) \<Rightarrow> json \<Rightarrow> string \<Rightarrow> sql_value" where
  "json_extract json_text metadata key =
     (case json_get key metadata of None \<Rightarrow> SqlNull | Some v \<Rightarrow> sql_of_json json_text v)"

definition sql_eq :: "sql_value \<Rightarrow> sql_value \<Rightarrow> bool" where
  \<comment> \<open>\<open>=\<close> as a condition: NULL on either side does not hold\<close>
  "sql_eq a b \<longleftrightarrow> a \<noteq> SqlNull \<and> b \<noteq> SqlNull \<and> a = b"

fun value_to_sql :: "json \<Rightarrow> sql_value result" where
  "value_to_sql (JStr s) = Inr (SqlText s)"
| "value_to_sql (JBool b) = Inr (SqlNum (Fin (if b then 1 else 0)))"
| "value_to_sql (JNum n) = Inr (SqlNum n)"
| "value_to_sql JNull = Inl (Internal (Lit (''metadata KeyEquals does not support a null value '' @
     ''(`= NULL` never matches in SQL); use KeyAbsent or KeyPresent to test for null/absence'')))"
| "value_to_sql _ = Inl (Internal (Lit (''metadata KeyEquals supports scalar JSON values only '' @
     ''(string/number/bool); got a composite value'')))"

fun push_temporal :: "temporal_filter \<Rightarrow> (fact \<Rightarrow> bool) list" where
  "push_temporal Active = [is_active_row]"
| "push_temporal IncludeExpired = []"
| "push_temporal (AsOf t) = [\<lambda>f. is_active_row f \<and>
     (case f_t_valid f of None \<Rightarrow> True | Some tv \<Rightarrow> tv \<le> t) \<and>
     (case f_t_invalid f of None \<Rightarrow> True | Some ti \<Rightarrow> ti > t)]"
| "push_temporal (ValidDue t) = [\<lambda>f. is_active_row f \<and>
     (case f_t_valid f of None \<Rightarrow> False | Some tv \<Rightarrow> tv \<le> t) \<and>
     (case f_t_invalid f of None \<Rightarrow> True | Some ti \<Rightarrow> ti > t)]"

fun push_metadata :: "(json \<Rightarrow> string) \<Rightarrow> metadata_predicate \<Rightarrow> (fact \<Rightarrow> bool) result" where
  "push_metadata json_text (KeyAbsent key) = Inr (\<lambda>f. json_get key (f_metadata f) = None)"
| "push_metadata json_text (KeyPresent key) =
     Inr (\<lambda>f. json_extract json_text (f_metadata f) key \<noteq> SqlNull)"
| "push_metadata json_text (KeyEquals key JNull) =
     Inr (\<lambda>f. json_get key (f_metadata f) = Some JNull)"
| "push_metadata json_text (KeyEquals key value) =
     and_then (value_to_sql value)
       (\<lambda>v. Inr (\<lambda>f. sql_eq (json_extract json_text (f_metadata f) key) v))"

definition push_id_membership :: "(fact \<Rightarrow> int) \<Rightarrow> int list option \<Rightarrow> (fact \<Rightarrow> bool) list" where
  "push_id_membership col ids =
     (case ids of None \<Rightarrow> [] | Some is \<Rightarrow> [\<lambda>f. col f \<in> set is])"

definition build_filter_sql :: "(json \<Rightarrow> string) \<Rightarrow> fact_filter \<Rightarrow> (fact \<Rightarrow> bool) list result" where
  "build_filter_sql json_text flt =
     and_then (map_res (push_metadata json_text) (ff_metadata flt)) (\<lambda>metadata.
       Inr (push_temporal (ff_temporal flt) @
         (case ff_fact_type flt of None \<Rightarrow> [] | Some ft \<Rightarrow> [\<lambda>f. f_fact_type f = ft]) @
         push_id_membership f_scope_id (ff_scope_ids flt) @
         push_id_membership f_id (ff_ids flt) @
         (case ff_pinned flt of None \<Rightarrow> [] | Some p \<Rightarrow> [\<lambda>f. f_is_pinned f = p]) @
         metadata))"

definition where_clause :: "(fact \<Rightarrow> bool) list \<Rightarrow> fact \<Rightarrow> bool" where
  \<comment> \<open>the conjuncts joined by AND; the literal \<open>1\<close> when there is none\<close>
  "where_clause preds f \<longleftrightarrow> list_all (\<lambda>p. p f) preds"

definition active_filter :: "fact_type option \<Rightarrow> int list option \<Rightarrow> (fact \<Rightarrow> bool) list" where
  \<comment> \<open>\<open>FilterSql::active\<close>\<close>
  "active_filter fact_type scope_ids =
     is_active_row # (case fact_type of None \<Rightarrow> [] | Some ft \<Rightarrow> [\<lambda>f. f_fact_type f = ft]) @
     push_id_membership f_scope_id scope_ids"

subsection \<open>Vector search\<close>

definition deserialize_embedding :: "nat \<Rightarrow> fact \<Rightarrow> fl list result" where
  "deserialize_embedding edim f =
     (if length (f_embedding f) \<noteq> edim then Inl (EmbeddingDimension edim (length (f_embedding f)))
      else Inr (f_embedding f))"

definition score_row :: "nat \<Rightarrow> fl list \<Rightarrow> fact \<Rightarrow> (fact_id \<times> fl) result" where
  "score_row edim q f =
     and_then (deserialize_embedding edim f) (\<lambda>e. Inr (f_id f, cosine_similarity q e))"

definition top_k :: "nat \<Rightarrow> (fact_id \<times> fl) list \<Rightarrow> (fact_id \<times> fl) list" where
  \<comment> \<open>partition at \<open>limit\<close>, truncate, sort: one of the orders the unstable partition allows\<close>
  "top_k limit scored = take limit (sort_by (desc_by snd) scored)"

definition vector_search_filtered ::
    "nat \<Rightarrow> db \<Rightarrow> fl list \<Rightarrow> nat \<Rightarrow> (fact \<Rightarrow> bool) list \<Rightarrow> (fact_id \<times> fl) list result" where
  "vector_search_filtered edim D q limit preds =
     (if length q \<noteq> edim then Inl (EmbeddingDimension edim (length q))
      else and_then (map_res (score_row edim q) (filter (where_clause preds) (d_facts D)))
        (\<lambda>scored. Inr (top_k limit scored)))"

definition vector_search ::
    "(json \<Rightarrow> string) \<Rightarrow> nat \<Rightarrow> db \<Rightarrow> fl list \<Rightarrow> fact_filter \<Rightarrow> nat \<Rightarrow> (fact_id \<times> fl) list result" where
  "vector_search json_text edim D embedding flt k =
     and_then (build_filter_sql json_text flt) (vector_search_filtered edim D embedding k)"

subsection \<open>Full-text search\<close>

record fts5 =
  fts_accepts :: "string \<Rightarrow> bool"
  fts_bm25 :: "string \<Rightarrow> fact list \<Rightarrow> fact \<Rightarrow> fl option"

definition asc_by :: "('a \<Rightarrow> fl) \<Rightarrow> 'a \<Rightarrow> 'a \<Rightarrow> ord3" where
  "asc_by key a b = fl_cmp_or_equal (key a) (key b)"

definition fts_matches :: "fts5 \<Rightarrow> db \<Rightarrow> string \<Rightarrow> (fact \<Rightarrow> bool) \<Rightarrow> (fact_id \<times> fl) list" where
  \<comment> \<open>the rows of the join that match the query and satisfy the filter\<close>
  "fts_matches F D query p =
     List.map_filter (\<lambda>f. case fts_bm25 F query (d_facts D) f of
         None \<Rightarrow> None | Some score \<Rightarrow> if p f then Some (f_id f, score) else None) (d_facts D)"

definition fts_search_filtered ::
    "fts5 \<Rightarrow> db \<Rightarrow> string \<Rightarrow> nat \<Rightarrow> (fact \<Rightarrow> bool) list \<Rightarrow> (fact_id \<times> fl) list" where
  \<comment> \<open>a query FTS5 rejects gives no rows\<close>
  "fts_search_filtered F D query limit preds =
     (if \<not> fts_accepts F query then []
      else sql_limit limit (sort_by (asc_by snd) (fts_matches F D query (where_clause preds))))"

definition lexical_search ::
    "fts5 \<Rightarrow> (json \<Rightarrow> string) \<Rightarrow> db \<Rightarrow> string \<Rightarrow> fact_filter \<Rightarrow> nat \<Rightarrow> (fact_id \<times> fl) list result" where
  "lexical_search F json_text D query flt k =
     and_then (build_filter_sql json_text flt)
       (\<lambda>preds. Inr (fts_search_filtered F D query k preds))"

definition fts_count_expired ::
    "fts5 \<Rightarrow> db \<Rightarrow> string \<Rightarrow> fact_type option \<Rightarrow> int list option \<Rightarrow> nat" where
  "fts_count_expired F D query fact_type scope_ids =
     (if \<not> fts_accepts F query then 0
      else length (fts_matches F D query (\<lambda>f. f_t_expired f \<noteq> None \<and>
        (case fact_type of None \<Rightarrow> True | Some ft \<Rightarrow> f_fact_type f = ft) \<and>
        (case scope_ids of None \<Rightarrow> True | Some is \<Rightarrow> f_scope_id f \<in> set is))))"

subsection \<open>Cosine similarity is bounded\<close>

lemma list_Cauchy_Schwarz:
  fixes ps :: "(real \<times> real) list"
  shows "(\<Sum>(x, y) \<leftarrow> ps. x * y)\<^sup>2 \<le> (\<Sum>(x, y) \<leftarrow> ps. x\<^sup>2) * (\<Sum>(x, y) \<leftarrow> ps. y\<^sup>2)"
    and "0 \<le> (\<Sum>(x, y) \<leftarrow> ps. x\<^sup>2)" "0 \<le> (\<Sum>(x, y) \<leftarrow> ps. y\<^sup>2)"
proof -
  have pos: "0 \<le> (\<Sum>(x, y) \<leftarrow> qs. x\<^sup>2)" "0 \<le> (\<Sum>(x, y) \<leftarrow> qs. y\<^sup>2)"
    for qs :: "(real \<times> real) list"
    by (induction qs) auto
  show "0 \<le> (\<Sum>(x, y) \<leftarrow> ps. x\<^sup>2)" "0 \<le> (\<Sum>(x, y) \<leftarrow> ps. y\<^sup>2)" by (rule pos)+
  show "(\<Sum>(x, y) \<leftarrow> ps. x * y)\<^sup>2 \<le> (\<Sum>(x, y) \<leftarrow> ps. x\<^sup>2) * (\<Sum>(x, y) \<leftarrow> ps. y\<^sup>2)"
  proof (induction ps)
    case (Cons p ps)
    obtain x y where p: "p = (x, y)" by fastforce
    define d A B where "d = (\<Sum>(x, y) \<leftarrow> ps. x * y)" and "A = (\<Sum>(x, y) \<leftarrow> ps. x\<^sup>2)"
      and "B = (\<Sum>(x, y) \<leftarrow> ps. y\<^sup>2)"
    have dAB: "d\<^sup>2 \<le> A * B" and A: "0 \<le> A" and B: "0 \<le> B"
      using Cons pos [of ps] by (simp_all add: d_def A_def B_def)
    have "(2 * d * (x * y))\<^sup>2 \<le> (A * y\<^sup>2 + B * x\<^sup>2)\<^sup>2"
    proof -
      have "(2 * d * (x * y))\<^sup>2 = 4 * (d\<^sup>2 * (x\<^sup>2 * y\<^sup>2))" by (simp add: power_mult_distrib)
      also have "\<dots> \<le> 4 * (A * B * (x\<^sup>2 * y\<^sup>2))" using mult_right_mono [OF dAB, of "x\<^sup>2 * y\<^sup>2"] by simp
      also have "\<dots> \<le> (A * y\<^sup>2 + B * x\<^sup>2)\<^sup>2"
        using sum_squares_bound [of "A * y\<^sup>2" "B * x\<^sup>2"] by (simp add: power2_sum algebra_simps)
      finally show ?thesis .
    qed
    then have "2 * d * (x * y) \<le> A * y\<^sup>2 + B * x\<^sup>2"
      by (rule power2_le_imp_le) (simp add: A B)
    with dAB show ?case by (simp add: p d_def [symmetric] A_def [symmetric] B_def [symmetric] power2_sum algebra_simps)
  qed simp
qed

definition vals :: "(fl \<times> fl) list \<Rightarrow> (real \<times> real) list" where
  "vals ps = map (map_prod fl_val fl_val) ps"

lemma cosine_fold:
  assumes "\<forall>(x, y) \<in> set ps. fl_is_finite x \<and> fl_is_finite y"
  shows "fold cosine_step ps (Fin d, Fin a, Fin b) =
    (Fin (d + (\<Sum>(x, y) \<leftarrow> vals ps. x * y)), Fin (a + (\<Sum>(x, y) \<leftarrow> vals ps. x\<^sup>2)),
     Fin (b + (\<Sum>(x, y) \<leftarrow> vals ps. y\<^sup>2)))"
  using assms
proof (induction ps arbitrary: d a b)
  case (Cons p ps)
  then obtain x y where "p = (Fin x, Fin y)"
    by (cases p; cases "fst p"; cases "snd p") auto
  with Cons show ?case
    by (simp add: cosine_step_def fl_mul_add_def vals_def power2_eq_square algebra_simps)
qed (simp add: vals_def)

lemma cosine_bounds:
  assumes "list_all fl_is_finite a" "list_all fl_is_finite b"
  shows "\<exists>x. cosine_similarity a b = Fin x \<and> -1 \<le> x \<and> x \<le> 1"
proof -
  let ?ps = "vals (zip a b)"
  define d A B where "d = (\<Sum>(x, y) \<leftarrow> ?ps. x * y)" and "A = (\<Sum>(x, y) \<leftarrow> ?ps. x\<^sup>2)"
    and "B = (\<Sum>(x, y) \<leftarrow> ?ps. y\<^sup>2)"
  have dAB: "d\<^sup>2 \<le> A * B" and A: "0 \<le> A" and B: "0 \<le> B"
    using list_Cauchy_Schwarz [of ?ps] by (simp_all add: d_def A_def B_def)
  have "\<forall>(x, y) \<in> set (zip a b). fl_is_finite x \<and> fl_is_finite y"
    using assms by (auto simp: list_all_iff dest: set_zip_leftD set_zip_rightD)
  from cosine_fold [OF this, of 0 0 0]
  have c: "cosine_similarity a b =
      (if sqrt A * sqrt B = 0 then Fin 0 else Fin (d / (sqrt A * sqrt B)))"
    using A B by (simp add: cosine_similarity_def d_def [symmetric] A_def [symmetric] B_def [symmetric])
  have "\<bar>d\<bar> \<le> sqrt A * sqrt B"
    using real_sqrt_le_mono [OF dAB] by (simp add: real_sqrt_mult)
  then show ?thesis
    using A B by (auto simp: c divide_le_eq le_divide_eq real_sqrt_mult [symmetric] abs_le_iff)
qed

subsection \<open>What a filter selects\<close>

text \<open>The meaning the comments of \<open>FactFilter\<close> give to a filter, on a row.\<close>

fun temporal_holds :: "temporal_filter \<Rightarrow> fact \<Rightarrow> bool" where
  "temporal_holds Active f = is_active_row f"
| "temporal_holds (AsOf t) f = (is_active_row f \<and> valid_at t f)"
| "temporal_holds (ValidDue t) f = (is_active_row f \<and> is_temporally_due f t)"
| "temporal_holds IncludeExpired f = True"

fun metadata_holds :: "(json \<Rightarrow> string) \<Rightarrow> metadata_predicate \<Rightarrow> fact \<Rightarrow> bool" where
  "metadata_holds json_text (KeyAbsent k) f = (json_get k (f_metadata f) = None)"
| "metadata_holds json_text (KeyPresent k) f = (json_get k (f_metadata f) \<notin> {None, Some JNull})"
| "metadata_holds json_text (KeyEquals k v) f =
     (case json_get k (f_metadata f) of None \<Rightarrow> False
      | Some w \<Rightarrow> sql_of_json json_text w = sql_of_json json_text v)"

definition admissible :: "metadata_predicate \<Rightarrow> bool" where
  \<comment> \<open>equality is with scalars only\<close>
  "admissible p \<longleftrightarrow> (case p of KeyEquals k v \<Rightarrow> (case v of JArr _ \<Rightarrow> False | JObj _ \<Rightarrow> False | _ \<Rightarrow> True) | _ \<Rightarrow> True)"

definition filter_holds :: "(json \<Rightarrow> string) \<Rightarrow> fact_filter \<Rightarrow> fact \<Rightarrow> bool" where
  "filter_holds json_text flt f \<longleftrightarrow>
     temporal_holds (ff_temporal flt) f \<and>
     (\<forall>ft. ff_fact_type flt = Some ft \<longrightarrow> f_fact_type f = ft) \<and>
     (\<forall>is. ff_scope_ids flt = Some is \<longrightarrow> f_scope_id f \<in> set is) \<and>
     (\<forall>is. ff_ids flt = Some is \<longrightarrow> f_id f \<in> set is) \<and>
     (\<forall>b. ff_pinned flt = Some b \<longrightarrow> f_is_pinned f = b) \<and>
     (\<forall>p \<in> set (ff_metadata flt). metadata_holds json_text p f)"

lemma sql_of_json_null [simp]: "sql_of_json jt v = SqlNull \<longleftrightarrow> v = JNull"
  by (cases v) auto

lemma push_metadata_ok:
  "if admissible p then \<exists>q. push_metadata jt p = Inr q \<and> (\<forall>f. q f = metadata_holds jt p f)
   else \<exists>m. push_metadata jt p = Inl (Internal m)"
proof (cases p)
  case (KeyAbsent k)
  then show ?thesis by (simp add: admissible_def)
next
  case (KeyPresent k)
  then show ?thesis by (auto simp: admissible_def json_extract_def split: option.split)
next
  case (KeyEquals k v)
  then show ?thesis
    by (cases v) (auto simp: admissible_def and_then_def json_extract_def sql_eq_def split: option.split)
qed

lemma map_res_Inr_iff:
  "(\<exists>ys. map_res f xs = Inr ys) \<longleftrightarrow> (\<forall>x \<in> set xs. \<exists>y. f x = Inr y)"
  by (induction xs) (auto simp: and_then_eq_Inr)

lemma map_res_all2: "map_res f xs = Inr ys \<Longrightarrow> list_all2 (\<lambda>x y. f x = Inr y) xs ys"
  by (induction xs arbitrary: ys) (auto simp: and_then_eq_Inr)

lemma build_filter_sql_ok:
  "(\<exists>preds. build_filter_sql jt flt = Inr preds) \<longleftrightarrow> list_all admissible (ff_metadata flt)"
proof -
  have "(\<exists>preds. build_filter_sql jt flt = Inr preds)
      \<longleftrightarrow> (\<exists>qs. map_res (push_metadata jt) (ff_metadata flt) = Inr qs)"
    by (auto simp: build_filter_sql_def and_then_eq_Inr)
  moreover have "(\<exists>q. push_metadata jt p = Inr q) \<longleftrightarrow> admissible p" for p
    using push_metadata_ok [of p jt] by (auto split: if_splits)
  ultimately show ?thesis by (simp add: map_res_Inr_iff list_all_iff)
qed

lemma push_temporal_holds: "where_clause (push_temporal t) f = temporal_holds t f"
  by (cases t) (auto simp: where_clause_def valid_at_def is_temporally_due_def split: option.splits)

lemma where_clause_append: "where_clause (ps @ qs) f \<longleftrightarrow> where_clause ps f \<and> where_clause qs f"
  by (simp add: where_clause_def)

lemma where_clause_all2:
  "list_all2 (\<lambda>p q. push_metadata jt p = Inr q) ps qs \<Longrightarrow>
   where_clause qs f \<longleftrightarrow> (\<forall>p \<in> set ps. metadata_holds jt p f)"
proof (induction rule: list_all2_induct)
  case (Cons p ps q qs)
  from Cons(1) push_metadata_ok [of p jt] have "q f = metadata_holds jt p f" by (auto split: if_splits)
  with Cons show ?case by (simp add: where_clause_def)
qed (simp add: where_clause_def)

lemma build_filter_sql_selects:
  assumes "build_filter_sql jt flt = Inr preds"
  shows "where_clause preds f = filter_holds jt flt f"
proof -
  from assms obtain qs where m: "map_res (push_metadata jt) (ff_metadata flt) = Inr qs"
    and p: "preds = push_temporal (ff_temporal flt) @
         (case ff_fact_type flt of None \<Rightarrow> [] | Some ft \<Rightarrow> [\<lambda>f. f_fact_type f = ft]) @
         push_id_membership f_scope_id (ff_scope_ids flt) @
         push_id_membership f_id (ff_ids flt) @
         (case ff_pinned flt of None \<Rightarrow> [] | Some p \<Rightarrow> [\<lambda>f. f_is_pinned f = p]) @ qs"
    by (auto simp: build_filter_sql_def and_then_eq_Inr)
  note w = where_clause_all2 [OF map_res_all2 [OF m], of f]
  show ?thesis
    unfolding p where_clause_append push_temporal_holds w filter_holds_def
    by (auto simp: where_clause_def push_id_membership_def split: option.splits)
qed

lemma active_filter_build:
  "build_filter_sql jt (default_filter\<lparr>ff_fact_type := ft, ff_scope_ids := is\<rparr>) = Inr (active_filter ft is)"
  by (simp add: build_filter_sql_def default_filter_def active_filter_def push_id_membership_def split: option.split)

subsection \<open>The vector scan returns the best rows\<close>

lemma score_row_db:
  assumes "db_inv edim D"
  shows "map_res (score_row edim q) (filter p (d_facts D)) =
    Inr (map (\<lambda>f. (f_id f, cosine_similarity q (f_embedding f))) (filter p (d_facts D)))"
proof -
  have "map_res (score_row edim q) fs = Inr (map (\<lambda>f. (f_id f, cosine_similarity q (f_embedding f))) fs)"
    if "set fs \<subseteq> set (d_facts D)" for fs
    using that db_invD(4) [OF assms]
    by (induction fs) (auto simp: score_row_def deserialize_embedding_def fact_row_ok_def and_then_def)
  then show ?thesis by simp
qed

lemma distinct_fact_ids: "db_inv edim D \<Longrightarrow> distinct (map f_id (d_facts D))"
  by (drule db_invD(2)) (simp add: strict_sorted_iff)

lemma sorted_wrt_take_drop:
  "sorted_wrt R xs \<Longrightarrow> x \<in> set (take n xs) \<Longrightarrow> y \<in> set (drop n xs) \<Longrightarrow> R x y"
  using sorted_wrt_append [of R "take n xs" "drop n xs"] by simp

lemma top_k_best:
  assumes "fin_key snd scored"
  shows "sorted_wrt (\<lambda>a b. fl_val (snd a) \<ge> fl_val (snd b)) (top_k limit scored)"
    and "length (top_k limit scored) = min limit (length scored)"
    and "mset (top_k limit scored) \<subseteq># mset scored"
    and "x \<in># mset scored - mset (top_k limit scored) \<Longrightarrow> y \<in> set (top_k limit scored) \<Longrightarrow>
      fl_val (snd x) \<le> fl_val (snd y)"
proof -
  let ?s = "sort_by (desc_by snd) scored"
  note so = sort_by_desc_sorted [OF assms]
  show "sorted_wrt (\<lambda>a b. fl_val (snd a) \<ge> fl_val (snd b)) (top_k limit scored)"
    unfolding top_k_def by (rule sorted_wrt_take [OF so])
  show "length (top_k limit scored) = min limit (length scored)" by (simp add: top_k_def min.commute)
  have split: "mset scored = mset (take limit ?s) + mset (drop limit ?s)"
    by (metis append_take_drop_id mset_append mset_sort_by)
  then show "mset (top_k limit scored) \<subseteq># mset scored" by (simp add: top_k_def)
  show "x \<in># mset scored - mset (top_k limit scored) \<Longrightarrow> y \<in> set (top_k limit scored) \<Longrightarrow>
      fl_val (snd x) \<le> fl_val (snd y)"
    using sorted_wrt_take_drop [OF so, of y limit x] by (simp add: top_k_def split)
qed

lemma top_k_distinct:
  "distinct (map fst scored) \<Longrightarrow> distinct (map fst (top_k limit scored))"
  using mset_eq_imp_distinct_iff [of "map fst (sort_by (desc_by snd) scored)" "map fst scored"]
  by (simp add: top_k_def take_map [symmetric])

lemma top_k_rest:
  assumes "fin_key snd scored" "x \<in> set scored" "x \<notin> set (top_k limit scored)" "y \<in> set (top_k limit scored)"
  shows "fl_val (snd x) \<le> fl_val (snd y)"
proof (rule top_k_best(4) [OF assms(1) _ assms(4)])
  from assms(2,3) show "x \<in># mset scored - mset (top_k limit scored)"
    by (metis count_greater_zero_iff count_inI in_diff_count set_mset_mset)
qed

lemma vector_search_ok:
  assumes inv: "db_inv edim D" and q: "length q = edim" "list_all fl_is_finite q"
    and fin: "\<And>f. f \<in> set (d_facts D) \<Longrightarrow> list_all fl_is_finite (f_embedding f)"
    and adm: "list_all admissible (ff_metadata flt)"
  shows "\<exists>rs. vector_search jt edim D q flt k = Inr rs \<and> distinct (map fst rs) \<and>
    sorted_wrt (\<lambda>a b. fl_val (snd a) \<ge> fl_val (snd b)) rs \<and>
    length rs = min k (length (filter (filter_holds jt flt) (d_facts D))) \<and>
    (\<forall>(i, s) \<in> set rs. \<exists>f \<in> set (d_facts D). f_id f = i \<and> filter_holds jt flt f \<and>
       s = cosine_similarity q (f_embedding f)) \<and>
    (\<forall>f \<in> set (d_facts D). filter_holds jt flt f \<longrightarrow> f_id f \<notin> fst ` set rs \<longrightarrow>
       (\<forall>(i, s) \<in> set rs. fl_val (cosine_similarity q (f_embedding f)) \<le> fl_val s))"
proof -
  let ?key = "\<lambda>f. (f_id f, cosine_similarity q (f_embedding f))"
  let ?rows = "filter (filter_holds jt flt) (d_facts D)"
  let ?scored = "map ?key ?rows"
  from adm obtain preds where b: "build_filter_sql jt flt = Inr preds"
    using build_filter_sql_ok by blast
  have "where_clause preds = filter_holds jt flt" using build_filter_sql_selects [OF b] by (rule ext)
  then have v: "vector_search jt edim D q flt k = Inr (top_k k ?scored)"
    by (simp add: vector_search_def b vector_search_filtered_def q(1) score_row_db [OF inv])
  have "fl_is_finite (cosine_similarity q (f_embedding f))" if "f \<in> set (d_facts D)" for f
    using cosine_bounds [OF q(2) fin [OF that]] by auto
  then have fk: "fin_key snd ?scored" by (auto simp: fin_key_def)
  note best = top_k_best [where limit = k, OF fk]
  have sub: "set (top_k k ?scored) \<subseteq> set ?scored"
    using set_mset_mono [OF best(3)] by simp
  have d: "distinct (map fst ?scored)"
    using distinct_fact_ids [OF inv] by (simp add: comp_def distinct_map inj_on_def)
  note dk = top_k_distinct [OF d, of k]
  have rest: "fl_val (cosine_similarity q (f_embedding f)) \<le> fl_val s"
    if f: "f \<in> set (d_facts D)" "filter_holds jt flt f" "f_id f \<notin> fst ` set (top_k k ?scored)"
      and r: "(i, s) \<in> set (top_k k ?scored)" for f i s
  proof -
    have "?key f \<in> set ?scored" using f by auto
    moreover have "?key f \<notin> set (top_k k ?scored)" using f(3) by force
    ultimately show ?thesis using top_k_rest [OF fk _ _ r, of "?key f"] by simp
  qed
  show ?thesis
    using v dk best(1,2) sub rest by (intro exI [of _ "top_k k ?scored"]) fastforce
qed

lemma vector_search_dimension:
  "length q \<noteq> edim \<Longrightarrow> list_all admissible (ff_metadata flt) \<Longrightarrow>
   vector_search jt edim D q flt k = Inl (EmbeddingDimension edim (length q))"
  using build_filter_sql_ok [of jt flt] by (auto simp: vector_search_def vector_search_filtered_def)

lemma lexical_search_ok:
  assumes "list_all admissible (ff_metadata flt)"
  shows "\<exists>rs. lexical_search F jt D query flt k = Inr rs \<and> length rs \<le> k \<and>
    (\<forall>(i, s) \<in> set rs. \<exists>f \<in> set (d_facts D). f_id f = i \<and> filter_holds jt flt f \<and>
       fts_bm25 F query (d_facts D) f = Some s) \<and>
    (\<not> fts_accepts F query \<longrightarrow> rs = [])"
proof -
  from assms obtain preds where b: "build_filter_sql jt flt = Inr preds"
    using build_filter_sql_ok by blast
  have w: "where_clause preds = filter_holds jt flt" using build_filter_sql_selects [OF b] by (rule ext)
  show ?thesis
    by (auto simp: lexical_search_def b fts_search_filtered_def sql_limit_def w fts_matches_def
        map_filter_def dest!: in_set_takeD split: option.splits if_splits)
qed

end
