(* ===== verification/Query.thy ===== *)
theory Query
  imports Search_Index Storage_Port
begin

text \<open>
  Retrieval, \<open>me-query/src/hybrid.rs\<close> and \<open>execute.rs\<close>, with the query vocabulary of
  \<open>me-types/src/types/search.rs\<close> and \<open>memory_query.rs\<close>: reciprocal rank fusion, the assembly of
  results, hybrid search over the port, reranking, and the composed query with its search and
  store paths. The port's reads are the record \<open>search_port\<close>; the reranker is the consumer's and
  is a parameter, the clock's reading \<open>now\<close> and chrono's largest instant \<open>max_utc\<close> are arguments.
  A panic of \<open>query\<close> is the result None.

  The lemmas show what the fusion score of a fact is and that facts both lists agree on keep
  their order, that assembling is filtering and truncating the ranked list, that a validated
  reranker output never panics, that every answer respects every filter of its query, and what
  the search path loses.
\<close>

subsection \<open>Query types\<close>

datatype search_mode = FtsMode | VectorMode | HybridMode

datatype match_type = MatchFts | MatchVector | MatchBoth | ImportanceRank | ArchiveMatch

record search_query =
  sq_text :: "string option"
  sq_embedding :: "fl list option"
  sq_mode :: search_mode
  sq_limit :: nat
  sq_rerank_depth :: "nat option"
  sq_valid_at :: "time option"
  sq_fact_type :: "fact_type option"
  sq_scope :: "scope_query option"

definition search_query_new :: "search_mode \<Rightarrow> nat \<Rightarrow> search_query" where
  "search_query_new mode limit =
     \<lparr>sq_text = None, sq_embedding = None, sq_mode = mode, sq_limit = limit,
      sq_rerank_depth = None, sq_valid_at = None, sq_fact_type = None, sq_scope = None\<rparr>"

record search_result =
  sr_fact :: fact
  sr_score :: fl
  sr_match_type :: match_type

record query_diagnostics =
  dg_candidates_before_filter :: nat
  dg_results_returned :: nat
  dg_expired_matches :: "nat option"
  dg_fts_candidates :: nat
  dg_vector_candidates :: nat

record query_response =
  qr_results :: "search_result list"
  qr_diagnostics :: query_diagnostics

definition rrf_k :: nat where "rrf_k = 60"

definition default_limit :: nat where "default_limit = 50"

record memory_query =
  mq_scope :: "scope_query option"
  mq_period_start :: "time option"
  mq_period_end :: "time option"
  mq_text :: "string option"
  mq_embedding :: "fl list option"
  mq_search_mode :: "search_mode option"
  mq_fact_type :: "fact_type option"
  mq_min_importance_score :: "fl option"
  mq_pinned_only :: bool
  mq_limit :: "nat option"
  mq_valid_at :: "time option"
  mq_include_expired_probe :: bool

definition memory_query_new :: memory_query where
  "memory_query_new =
     \<lparr>mq_scope = None, mq_period_start = None, mq_period_end = None, mq_text = None,
      mq_embedding = None, mq_search_mode = None, mq_fact_type = None,
      mq_min_importance_score = None, mq_pinned_only = False, mq_limit = None,
      mq_valid_at = None, mq_include_expired_probe = False\<rparr>"

definition effective_limit :: "memory_query \<Rightarrow> nat" where
  "effective_limit q = (case mq_limit q of Some n \<Rightarrow> n | None \<Rightarrow> default_limit)"

definition has_search :: "memory_query \<Rightarrow> bool" where
  "has_search q \<longleftrightarrow> mq_text q \<noteq> None \<or> mq_embedding q \<noteq> None"

definition has_period :: "memory_query \<Rightarrow> bool" where
  "has_period q \<longleftrightarrow> mq_period_start q \<noteq> None \<or> mq_period_end q \<noteq> None"

datatype query_execution = ScopeMissing | Executed query_response

subsection \<open>The port\<close>

record 's search_port =
  p_lexical_search :: "string \<Rightarrow> fact_filter \<Rightarrow> nat \<Rightarrow> 's \<Rightarrow> (fact_id \<times> fl) list result"
  p_vector_search :: "fl list \<Rightarrow> fact_filter \<Rightarrow> nat \<Rightarrow> 's \<Rightarrow> (fact_id \<times> fl) list result"
  p_lexical_count_expired :: "string \<Rightarrow> fact_type option \<Rightarrow> int list option \<Rightarrow> 's \<Rightarrow> nat result"
  p_get_facts :: "fact_id list \<Rightarrow> 's \<Rightarrow> (fact_id \<times> fact) list result"
  p_list_active_in_period ::
    "time \<Rightarrow> time \<Rightarrow> int list \<Rightarrow> fact_type option \<Rightarrow> 's \<Rightarrow> fact list result"
  p_list_by_importance_score :: "int list \<Rightarrow> fl \<Rightarrow> nat \<Rightarrow> fact_id set \<Rightarrow> 's \<Rightarrow> fact list result"

definition sqlite_search :: "fts5 \<Rightarrow> (json \<Rightarrow> string) \<Rightarrow> nat \<Rightarrow> db search_port" where
  "sqlite_search F json_text edim = \<lparr>
     p_lexical_search = (\<lambda>q flt k D. lexical_search F json_text D q flt k),
     p_vector_search = (\<lambda>q flt k D. vector_search json_text edim D q flt k),
     p_lexical_count_expired = (\<lambda>q ft is D. Inr (fts_count_expired F D q ft is)),
     p_get_facts = (\<lambda>ids D. get_many edim D ids),
     p_list_active_in_period = (\<lambda>a b is ft D. list_active_in_period edim D a b is ft),
     p_list_by_importance_score = (\<lambda>is m n ex D. list_by_importance_score edim D is m n ex)\<rparr>"

subsection \<open>Reciprocal rank fusion\<close>

definition rrf_term :: "nat \<Rightarrow> nat \<Rightarrow> fl" where
  "rrf_term k rank =
     fl_div (Fin 1) (Fin (real (sat_add_u32 (sat_add_u32 k (min rank u32_max)) 1)))"

definition rrf_add :: "nat \<Rightarrow> nat \<times> fact_id \<Rightarrow> (fact_id \<times> fl) list \<Rightarrow> (fact_id \<times> fl) list" where
  \<comment> \<open>\<open>*scores.entry(id).or_default() += ..\<close>\<close>
  "rrf_add k = (\<lambda>(rank, i) scores.
     AList.update i (fl_add (case map_of scores i of Some x \<Rightarrow> x | None \<Rightarrow> Fin 0) (rrf_term k rank))
       scores)"

definition rrf_merge :: "(fact_id \<times> fl) list \<Rightarrow> (fact_id \<times> fl) list \<Rightarrow> nat \<Rightarrow> (fact_id \<times> fl) list" where
  "rrf_merge fts vec k =
     sort_by (desc_by snd)
       (fold (rrf_add k) (enumerate 0 (map fst vec)) (fold (rrf_add k) (enumerate 0 (map fst fts)) []))"

subsection \<open>Assembling results\<close>

definition passes_temporal_cutoff :: "fact \<Rightarrow> time \<Rightarrow> bool" where
  "passes_temporal_cutoff f cutoff \<longleftrightarrow>
     \<not> (case f_t_valid f of Some tv \<Rightarrow> tv > cutoff | None \<Rightarrow> False) \<and>
     \<not> (case f_t_invalid f of Some ti \<Rightarrow> ti \<le> cutoff | None \<Rightarrow> False)"

definition match_type_of :: "fact_id set \<Rightarrow> fact_id set \<Rightarrow> fact_id \<Rightarrow> match_type" where
  "match_type_of fts_ids vec_ids i =
     (if i \<in> fts_ids \<and> i \<in> vec_ids then MatchBoth else if i \<in> fts_ids then MatchFts else MatchVector)"

fun assemble_loop :: "nat \<Rightarrow> time \<Rightarrow> fact_id set \<Rightarrow> fact_id set \<Rightarrow> (fact_id \<times> fl) list
    \<Rightarrow> (fact_id \<times> fact) list \<Rightarrow> search_result list \<Rightarrow> search_result list" where
  "assemble_loop lmt cutoff fts_ids vec_ids [] facts_by_id results = results"
| "assemble_loop lmt cutoff fts_ids vec_ids ((i, score) # ranked) facts_by_id results =
     (if length results \<ge> lmt then results
      else case map_of facts_by_id i of
        None \<Rightarrow> assemble_loop lmt cutoff fts_ids vec_ids ranked facts_by_id results
      | Some f \<Rightarrow>
          let facts_by_id = AList.delete i facts_by_id in
          if (case f_t_valid f of Some tv \<Rightarrow> tv > cutoff | None \<Rightarrow> False)
          then assemble_loop lmt cutoff fts_ids vec_ids ranked facts_by_id results
          else if (case f_t_invalid f of Some ti \<Rightarrow> ti \<le> cutoff | None \<Rightarrow> False)
          then assemble_loop lmt cutoff fts_ids vec_ids ranked facts_by_id results
          else assemble_loop lmt cutoff fts_ids vec_ids ranked facts_by_id
                 (results @ [\<lparr>sr_fact = f, sr_score = score,
                              sr_match_type = match_type_of fts_ids vec_ids i\<rparr>]))"

definition target_limit :: "search_query \<Rightarrow> nat" where
  "target_limit q = max (case sq_rerank_depth q of Some d \<Rightarrow> d | None \<Rightarrow> sq_limit q) (sq_limit q)"

definition assemble_results ::
    "time \<Rightarrow> search_query \<Rightarrow> (fact_id \<times> fl) list \<Rightarrow> fact_id set \<Rightarrow> fact_id set \<Rightarrow> nat \<Rightarrow> nat
      \<Rightarrow> (fact_id \<times> fact) list \<Rightarrow> search_result list \<times> query_diagnostics" where
  "assemble_results now q ranked fts_ids vec_ids fts_count vec_count facts_by_id =
     (let cutoff = (case sq_valid_at q of Some t \<Rightarrow> t | None \<Rightarrow> now);
          results = assemble_loop (target_limit q) cutoff fts_ids vec_ids ranked facts_by_id []
      in (results,
          \<lparr>dg_candidates_before_filter = length ranked, dg_results_returned = length results,
           dg_expired_matches = None, dg_fts_candidates = fts_count,
           dg_vector_candidates = vec_count\<rparr>))"

definition port_hybrid_search ::
    "'s search_port \<Rightarrow> time \<Rightarrow> search_query \<Rightarrow> int list option \<Rightarrow> 's
      \<Rightarrow> (search_result list \<times> query_diagnostics) result" where
  "port_hybrid_search P now q scope_ids s =
     (let effective_target = target_limit q;
          overfetch = max (sat_mul_usize effective_target 3) effective_target;
          flt = default_filter\<lparr>ff_fact_type := sq_fact_type q, ff_scope_ids := scope_ids\<rparr>
      in and_then (if sq_mode q \<in> {FtsMode, HybridMode}
                   then (case sq_text q of Some text \<Rightarrow> p_lexical_search P text flt overfetch s
                         | None \<Rightarrow> Inr [])
                   else Inr []) (\<lambda>fts_results.
         and_then (if sq_mode q \<in> {VectorMode, HybridMode}
                   then (case sq_embedding q of Some emb \<Rightarrow> p_vector_search P emb flt overfetch s
                         | None \<Rightarrow> Inr [])
                   else Inr []) (\<lambda>vec_results.
         let ranked = (case sq_mode q of
                FtsMode \<Rightarrow> fts_results
              | VectorMode \<Rightarrow> vec_results
              | HybridMode \<Rightarrow> rrf_merge fts_results (map (\<lambda>(i, _). (i, Fin 0)) vec_results) rrf_k)
         in and_then (p_get_facts P (map fst ranked) s) (\<lambda>facts_by_id.
            Inr (assemble_results now q ranked (fst ` set fts_results) (fst ` set vec_results)
                   (length fts_results) (length vec_results) facts_by_id)))))"

subsection \<open>Reranking\<close>

definition resolve_query_scope_ids ::
    "scope_tree \<Rightarrow> scope_query option \<Rightarrow> int list option option" where
  "resolve_query_scope_ids t scope =
     (case scope of None \<Rightarrow> Some None | Some sq \<Rightarrow> map_option Some (resolve_query t sq))"

fun check_reranked :: "nat \<Rightarrow> nat set \<Rightarrow> (nat \<times> fl) list \<Rightarrow> unit result" where
  "check_reranked n seen [] = Inr ()"
| "check_reranked n seen ((idx, score) # rest) =
     (if idx \<ge> n then Inl (Reranker (OutOfBoundsIndex idx n))
      else if idx \<in> seen then Inl (Reranker (DuplicateIndex idx))
      else if \<not> fl_is_finite score then Inl (Reranker (NonFiniteScore score idx))
      else check_reranked n (insert idx seen) rest)"

definition validate_reranker_output :: "nat \<Rightarrow> (nat \<times> fl) list \<Rightarrow> unit result" where
  "validate_reranker_output n output =
     (if length output > n then Inl (Reranker (OutputTooLong (length output) n))
      else check_reranked n {} output)"

fun take_candidates ::
    "search_result option list \<Rightarrow> (nat \<times> fl) list \<Rightarrow> search_result list option" where
  \<comment> \<open>\<open>candidates[idx].take().expect(..)\<close>: None is the panic of the index or of the expect\<close>
  "take_candidates candidates [] = Some []"
| "take_candidates candidates ((idx, score) # ranked) =
     (if idx \<ge> length candidates then None
      else case candidates ! idx of None \<Rightarrow> None
      | Some r \<Rightarrow> map_option (\<lambda>rs. r\<lparr>sr_score := score\<rparr> # rs)
                    (take_candidates (candidates[idx := None]) ranked))"

type_synonym reranker = "string \<Rightarrow> search_result list \<Rightarrow> (nat \<times> fl) list result"

definition query :: "'s search_port \<Rightarrow> memory_ctx \<Rightarrow> scope_tree \<Rightarrow> reranker option \<Rightarrow> time
    \<Rightarrow> search_query \<Rightarrow> 's \<Rightarrow> search_result list result option" where
  "query P ctx t reranker now q s =
     (case ensure_open ctx of Inl e \<Rightarrow> Some (Inl e)
      | Inr _ \<Rightarrow> (case resolve_query_scope_ids t (sq_scope q) of
          None \<Rightarrow> Some (Inr [])
        | Some scope_ids \<Rightarrow> (case port_hybrid_search P now q scope_ids s of
            Inl e \<Rightarrow> Some (Inl e)
          | Inr (results, _) \<Rightarrow> (case (reranker, sq_text q) of
              (Some rerank, Some text) \<Rightarrow> (case rerank text results of
                  Inl e \<Rightarrow> Some (Inl e)
                | Inr ranked \<Rightarrow> (case validate_reranker_output (length results) ranked of
                    Inl e \<Rightarrow> Some (Inl e)
                  | Inr _ \<Rightarrow> map_option (\<lambda>rs. Inr (take (sq_limit q) rs))
                      (take_candidates (map Some results) ranked)))
            | _ \<Rightarrow> Some (Inr (take (sq_limit q) results))))))"

subsection \<open>Composed queries\<close>

definition query_validation :: "string \<Rightarrow> memory_error" where
  "query_validation m = Conflict (QueryValidation (Lit m))"

definition validate_memory_query :: "memory_query \<Rightarrow> unit result" where
  "validate_memory_query q =
     (if (mq_period_start q \<noteq> None) \<noteq> (mq_period_end q \<noteq> None)
      then Inl (query_validation ''period_start and period_end must both be set or both unset'')
      else if mq_valid_at q \<noteq> None \<and> has_period q
      then Inl (query_validation ''valid_at and period are mutually exclusive'')
      else case mq_search_mode q of
        Some FtsMode \<Rightarrow> (if mq_text q = None
          then Inl (query_validation ''SearchMode::Fts requires text to be set'') else Inr ())
      | Some VectorMode \<Rightarrow> (if mq_embedding q = None
          then Inl (query_validation ''SearchMode::Vector requires embedding to be set'') else Inr ())
      | Some HybridMode \<Rightarrow> (if mq_text q = None \<or> mq_embedding q = None
          then Inl (query_validation ''SearchMode::Hybrid requires both text and embedding'') else Inr ())
      | None \<Rightarrow> Inr ())"

definition infer_search_mode :: "memory_query \<Rightarrow> search_mode" where
  "infer_search_mode q =
     (case mq_search_mode q of Some mode \<Rightarrow> mode
      | None \<Rightarrow> (case (mq_text q \<noteq> None, mq_embedding q \<noteq> None) of
          (True, True) \<Rightarrow> HybridMode
        | (True, False) \<Rightarrow> FtsMode
        | (False, True) \<Rightarrow> VectorMode
        | (False, False) \<Rightarrow> FtsMode))"

definition fact_overlaps_period :: "fact \<Rightarrow> time \<Rightarrow> time \<Rightarrow> bool" where
  "fact_overlaps_period f start end_time \<longleftrightarrow>
     (case f_t_valid f of None \<Rightarrow> True | Some tv \<Rightarrow> tv < end_time) \<and>
     (case f_t_invalid f of None \<Rightarrow> True | Some ti \<Rightarrow> ti > start)"

definition fact_to_search_result :: "fact \<Rightarrow> search_result" where
  "fact_to_search_result f =
     \<lparr>sr_fact = f, sr_score = f_importance_score f, sr_match_type = ImportanceRank\<rparr>"

definition search_post_filters :: "memory_query \<Rightarrow> search_result list \<Rightarrow> search_result list" where
  "search_post_filters q results =
     (let rs = (case (mq_period_start q, mq_period_end q) of
                  (Some a, Some b) \<Rightarrow> filter (\<lambda>r. fact_overlaps_period (sr_fact r) a b) results
                | _ \<Rightarrow> results);
          rs = (case mq_min_importance_score q of
                  Some m \<Rightarrow> filter (\<lambda>r. fl_le m (f_importance_score (sr_fact r))) rs
                | None \<Rightarrow> rs)
      in if mq_pinned_only q then filter (\<lambda>r. f_is_pinned (sr_fact r)) rs else rs)"

definition execute_search_path ::
    "'s search_port \<Rightarrow> time \<Rightarrow> time \<Rightarrow> memory_query \<Rightarrow> int list option \<Rightarrow> time option \<Rightarrow> nat \<Rightarrow> 's
      \<Rightarrow> query_response result" where
  "execute_search_path P max_utc now q scope_ids effective_cutoff lmt s =
     (let mode = infer_search_mode q;
          search_cutoff = (if effective_cutoff = None \<and> has_period q then Some max_utc
                           else effective_cutoff);
          search_query = (search_query_new mode lmt)\<lparr>sq_text := mq_text q,
            sq_embedding := mq_embedding q, sq_valid_at := search_cutoff,
            sq_fact_type := mq_fact_type q, sq_scope := mq_scope q\<rparr>
      in and_then (port_hybrid_search P now search_query scope_ids s) (\<lambda>(results, diagnostics).
         let results = take lmt (search_post_filters q results);
             diagnostics = diagnostics\<lparr>dg_results_returned := length results\<rparr>
         in case (mq_include_expired_probe q, mq_text q) of
              (True, Some text) \<Rightarrow>
                and_then (p_lexical_count_expired P text (mq_fact_type q) scope_ids s) (\<lambda>n.
                  Inr \<lparr>qr_results = results,
                       qr_diagnostics = diagnostics\<lparr>dg_expired_matches := Some n\<rparr>\<rparr>)
            | _ \<Rightarrow> Inr \<lparr>qr_results = results, qr_diagnostics = diagnostics\<rparr>))"

definition store_post_filters :: "memory_query \<Rightarrow> time option \<Rightarrow> fact list \<Rightarrow> fact list" where
  "store_post_filters q effective_cutoff facts =
     (let fs = (case effective_cutoff of
                  Some cutoff \<Rightarrow> filter (\<lambda>f. passes_temporal_cutoff f cutoff) facts
                | None \<Rightarrow> facts);
          fs = (case mq_fact_type q of
                  Some ft \<Rightarrow> if \<not> has_period q then filter (\<lambda>f. f_fact_type f = ft) fs else fs
                | None \<Rightarrow> fs);
          fs = (case mq_min_importance_score q of
                  Some m \<Rightarrow> if has_period q then filter (\<lambda>f. fl_le m (f_importance_score f)) fs else fs
                | None \<Rightarrow> fs)
      in if mq_pinned_only q then filter f_is_pinned fs else fs)"

definition execute_store_path ::
    "'s search_port \<Rightarrow> memory_query \<Rightarrow> int list option \<Rightarrow> time option \<Rightarrow> nat \<Rightarrow> 's
      \<Rightarrow> query_response result" where
  "execute_store_path P q scope_ids effective_cutoff lmt s =
     (let scope_slice = (case scope_ids of Some is \<Rightarrow> is | None \<Rightarrow> []);
          fetch_limit = max (sat_mul_usize lmt 3) lmt
      in and_then (case (mq_period_start q, mq_period_end q) of
             (Some a, Some b) \<Rightarrow> p_list_active_in_period P a b scope_slice (mq_fact_type q) s
           | _ \<Rightarrow> p_list_by_importance_score P scope_slice
                    (case mq_min_importance_score q of Some m \<Rightarrow> m | None \<Rightarrow> Fin 0) fetch_limit {} s)
         (\<lambda>facts.
            let results = map fact_to_search_result (take lmt (sort_by (desc_by f_importance_score)
                            (store_post_filters q effective_cutoff facts)))
            in Inr \<lparr>qr_results = results,
                    qr_diagnostics = \<lparr>dg_candidates_before_filter = length facts,
                      dg_results_returned = length results, dg_expired_matches = None,
                      dg_fts_candidates = 0, dg_vector_candidates = 0\<rparr>\<rparr>))"

definition query_cutoff :: "time \<Rightarrow> memory_query \<Rightarrow> time option" where
  "query_cutoff now q =
     (if mq_valid_at q \<noteq> None then mq_valid_at q else if has_period q then None else Some now)"

definition execute_query :: "'s search_port \<Rightarrow> memory_ctx \<Rightarrow> time \<Rightarrow> time \<Rightarrow> scope_tree
    \<Rightarrow> memory_query \<Rightarrow> 's \<Rightarrow> query_execution result" where
  "execute_query P ctx max_utc now t q s =
     and_then (ensure_open ctx) (\<lambda>_.
     and_then (validate_memory_query q) (\<lambda>_.
       case resolve_query_scope_ids t (mq_scope q) of
         None \<Rightarrow> Inr ScopeMissing
       | Some scope_ids \<Rightarrow>
           and_then (if has_search q
             then execute_search_path P max_utc now q scope_ids (query_cutoff now q) (effective_limit q) s
             else execute_store_path P q scope_ids (query_cutoff now q) (effective_limit q) s)
           (\<lambda>response. Inr (Executed response))))"

subsection \<open>Fusion scores\<close>

definition rrf_val :: "nat \<Rightarrow> nat \<Rightarrow> real" where
  "rrf_val k rank = 1 / real (sat_add_u32 (sat_add_u32 k (min rank u32_max)) 1)"

definition rrf_sum :: "nat \<Rightarrow> (nat \<times> fact_id) list \<Rightarrow> fact_id \<Rightarrow> real" where
  "rrf_sum k ps i = (\<Sum>(r, j) \<leftarrow> ps. if j = i then rrf_val k r else 0)"

abbreviation rrf_score :: "nat \<Rightarrow> fact_id list \<Rightarrow> fact_id \<Rightarrow> real" where
  "rrf_score k xs i \<equiv> rrf_sum k (enumerate 0 xs) i"

lemma sat_add_u32_pos: "0 < sat_add_u32 n 1"
  by (simp add: sat_add_u32_def u32_max_def)

lemma rrf_term_val: "rrf_term k r = Fin (rrf_val k r)"
  using sat_add_u32_pos [of "sat_add_u32 k (min r u32_max)"] by (simp add: rrf_term_def rrf_val_def)

lemma rrf_val_pos: "0 < rrf_val k r"
  using sat_add_u32_pos [of "sat_add_u32 k (min r u32_max)"] by (simp add: rrf_val_def)

lemma rrf_val_strict:
  assumes "r < r'" "k + r' + 1 \<le> u32_max"
  shows "rrf_val k r' < rrf_val k r"
  using assms by (simp add: rrf_val_def sat_add_u32_def divide_strict_left_mono)

lemma rrf_fold:
  assumes "\<forall>i x. map_of m i = Some x \<longrightarrow> fl_is_finite x"
  shows "map_of (fold (rrf_add k) ps m) i =
    (if i \<in> snd ` set ps \<or> map_of m i \<noteq> None
     then Some (Fin ((case map_of m i of None \<Rightarrow> 0 | Some x \<Rightarrow> fl_val x) + rrf_sum k ps i)) else None)"
  using assms
proof (induction ps arbitrary: m)
  case Nil
  then show ?case by (auto simp: rrf_sum_def split: option.splits) (metis fl_is_finite.elims(2) fl_val.simps(1))
next
  case (Cons p ps)
  obtain r j where p: "p = (r, j)" by fastforce
  let ?v = "case map_of m j of None \<Rightarrow> 0 | Some x \<Rightarrow> fl_val x"
  have v: "(case map_of m j of Some x \<Rightarrow> x | None \<Rightarrow> Fin 0) = Fin ?v"
    using Cons.prems by (auto split: option.splits) (metis fl_is_finite.elims(2) fl_val.simps(1))
  have m': "map_of (rrf_add k (r, j) m) = (map_of m)(j \<mapsto> Fin (?v + rrf_val k r))"
    by (simp add: rrf_add_def v rrf_term_val update_conv')
  have "\<forall>i x. map_of (rrf_add k (r, j) m) i = Some x \<longrightarrow> fl_is_finite x"
    using Cons.prems by (simp add: m')
  from Cons.IH [OF this] show ?case by (auto simp: p m' rrf_sum_def split: option.splits)
qed

lemma distinct_rrf_fold:
  "distinct (map fst m) \<Longrightarrow> distinct (map fst (fold (rrf_add k) ps m))"
  by (induction ps arbitrary: m) (auto simp: rrf_add_def distinct_update)

lemma snd_enumerate: "snd ` set (enumerate n xs) = set xs"
  by (metis enumerate_eq_zip list.set_map map_snd_enumerate)

lemma rrf_sum_absent: "i \<notin> snd ` set ps \<Longrightarrow> rrf_sum k ps i = 0"
  by (induction ps) (auto simp: rrf_sum_def)

lemma rrf_score_absent: "i \<notin> set xs \<Longrightarrow> rrf_sum k (enumerate n xs) i = 0"
  by (rule rrf_sum_absent) (simp add: snd_enumerate)

lemma rrf_merge_ok:
  shows "distinct (map fst (rrf_merge fts vec k))"
    and "fst ` set (rrf_merge fts vec k) = fst ` set fts \<union> fst ` set vec"
    and "(i, s) \<in> set (rrf_merge fts vec k) \<Longrightarrow>
      s = Fin (rrf_score k (map fst fts) i + rrf_score k (map fst vec) i)"
    and "sorted_wrt (\<lambda>a b. fl_val (snd a) \<ge> fl_val (snd b)) (rrf_merge fts vec k)"
proof -
  let ?m1 = "fold (rrf_add k) (enumerate 0 (map fst fts)) []"
  let ?m = "fold (rrf_add k) (enumerate 0 (map fst vec)) ?m1"
  have m1: "map_of ?m1 i = (if i \<in> set (map fst fts)
      then Some (Fin (rrf_score k (map fst fts) i)) else None)" for i
    by (subst rrf_fold) (simp_all add: snd_enumerate)
  have m: "map_of ?m i = (if i \<in> fst ` set fts \<union> fst ` set vec
      then Some (Fin (rrf_score k (map fst fts) i + rrf_score k (map fst vec) i)) else None)" for i
    by (subst rrf_fold) (auto simp: m1 rrf_score_absent snd_enumerate)
  have d: "distinct (map fst ?m)" by (intro distinct_rrf_fold) simp
  have r: "rrf_merge fts vec k = sort_by (desc_by snd) ?m" by (simp add: rrf_merge_def)
  show "distinct (map fst (rrf_merge fts vec k))"
    using d mset_eq_imp_distinct_iff [of "map fst (sort_by (desc_by snd) ?m)" "map fst ?m"] by (simp add: r)
  have "i \<in> fst ` set ?m \<longleftrightarrow> i \<in> fst ` set fts \<union> fst ` set vec" for i
    using map_of_eq_None_iff [of ?m i] by (simp only: m) (simp split: if_splits)
  then have "fst ` set ?m = fst ` set fts \<union> fst ` set vec" by blast
  then show "fst ` set (rrf_merge fts vec k) = fst ` set fts \<union> fst ` set vec" by (simp only: r set_sort_by)
  have val: "(i, s) \<in> set ?m \<longleftrightarrow> map_of ?m i = Some s" for i s
    using d by (simp add: map_of_eq_Some_iff)
  show "(i, s) \<in> set (rrf_merge fts vec k) \<Longrightarrow>
      s = Fin (rrf_score k (map fst fts) i + rrf_score k (map fst vec) i)"
    by (simp add: r val m split: if_splits)
  have "fin_key snd ?m" by (auto simp: fin_key_def val m split: if_splits)
  then show "sorted_wrt (\<lambda>a b. fl_val (snd a) \<ge> fl_val (snd b)) (rrf_merge fts vec k)"
    unfolding r by (rule sort_by_desc_sorted)
qed

lemma rrf_score_at:
  assumes "distinct xs" "p < length xs"
  shows "rrf_score k xs (xs ! p) = rrf_val k p"
proof -
  have "rrf_sum k (enumerate n xs) (xs ! p) = rrf_val k (n + p)" for n
    using assms
  proof (induction xs arbitrary: n p)
    case (Cons x xs)
    have absent: "rrf_sum k (enumerate (Suc n) xs) x = 0"
      using Cons.prems(1) by (simp add: rrf_score_absent)
    show ?case
    proof (cases p)
      case 0
      with absent show ?thesis by (simp add: rrf_sum_def)
    next
      case (Suc p')
      with Cons.prems have "xs ! p' \<noteq> x" by auto
      with Suc Cons.prems Cons.IH [of p' "Suc n"] show ?thesis by (simp add: rrf_sum_def)
    qed
  qed simp
  from this [of 0] show ?thesis by simp
qed

lemma rrf_agreement:
  assumes d: "distinct (map fst fts)" "distinct (map fst vec)"
    and fts: "p < q" "q < length fts" "fst (fts ! p) = a" "fst (fts ! q) = b"
    and vec: "p' < q'" "q' < length vec" "fst (vec ! p') = a" "fst (vec ! q') = b"
    and bound: "k + max q q' + 1 \<le> u32_max"
  shows "\<exists>u v. u < v \<and> v < length (rrf_merge fts vec k) \<and>
    fst (rrf_merge fts vec k ! u) = a \<and> fst (rrf_merge fts vec k ! v) = b"
proof -
  let ?r = "rrf_merge fts vec k"
  have at: "rrf_score k (map fst fts) a = rrf_val k p" "rrf_score k (map fst fts) b = rrf_val k q"
    "rrf_score k (map fst vec) a = rrf_val k p'" "rrf_score k (map fst vec) b = rrf_val k q'"
    using rrf_score_at [OF d(1), of p k] rrf_score_at [OF d(1), of q k]
      rrf_score_at [OF d(2), of p' k] rrf_score_at [OF d(2), of q' k] fts vec by auto
  have mem: "fst (fts ! p) \<in> fst ` set fts" "fst (fts ! q) \<in> fst ` set fts" using fts by auto
  then have "a \<in> fst ` set ?r" "b \<in> fst ` set ?r"
    by (simp_all only: rrf_merge_ok(2) fts(3,4) Un_iff simp_thms)
  then obtain sa sb where s: "(a, sa) \<in> set ?r" "(b, sb) \<in> set ?r" by force
  then obtain u v where u: "u < length ?r" "?r ! u = (a, sa)" and v: "v < length ?r" "?r ! v = (b, sb)"
    by (meson in_set_conv_nth)
  have "rrf_val k q < rrf_val k p" "rrf_val k q' < rrf_val k p'"
    using bound fts(1) vec(1) by (auto intro!: rrf_val_strict)
  then have lt: "fl_val sb < fl_val sa"
    using rrf_merge_ok(3) [OF s(1)] rrf_merge_ok(3) [OF s(2)] by (simp add: at)
  have "u < v"
  proof (rule ccontr)
    assume "\<not> u < v"
    moreover from lt u v have "u \<noteq> v" by auto
    ultimately have "v < u" by simp
    from sorted_wrt_nth_less [OF rrf_merge_ok(4) this u(1)] u v lt show False by simp
  qed
  with u v show ?thesis by force
qed

subsection \<open>Assembling is filtering and truncating\<close>

lemma passes_valid_at: "passes_temporal_cutoff f t \<longleftrightarrow> valid_at t f"
  by (auto simp: passes_temporal_cutoff_def valid_at_def split: option.split)

definition hit :: "time \<Rightarrow> fact_id set \<Rightarrow> fact_id set \<Rightarrow> (fact_id \<times> fact) list \<Rightarrow> fact_id \<times> fl
    \<Rightarrow> search_result option" where
  "hit cutoff fts_ids vec_ids facts = (\<lambda>(i, score).
     case map_of facts i of None \<Rightarrow> None
     | Some f \<Rightarrow> if passes_temporal_cutoff f cutoff
         then Some \<lparr>sr_fact = f, sr_score = score, sr_match_type = match_type_of fts_ids vec_ids i\<rparr>
         else None)"

lemma map_filter_Cons: "List.map_filter g (x # xs) =
  (case g x of None \<Rightarrow> List.map_filter g xs | Some y \<Rightarrow> y # List.map_filter g xs)"
  by (simp add: map_filter_def split: option.split)

lemma map_filter_cong: "(\<And>x. x \<in> set xs \<Longrightarrow> f x = g x) \<Longrightarrow> List.map_filter f xs = List.map_filter g xs"
  by (induction xs) (auto simp: map_filter_Cons map_filter_def)

lemma assemble_loop_eq:
  assumes "distinct (map fst ranked)"
  shows "assemble_loop lmt cutoff F V ranked facts results =
    results @ take (lmt - length results) (List.map_filter (hit cutoff F V facts) ranked)"
  using assms
proof (induction ranked arbitrary: facts results)
  case Nil
  then show ?case by (simp add: map_filter_def)
next
  case (Cons p ranked)
  obtain i score where p: "p = (i, score)" by fastforce
  have fresh: "i \<notin> fst ` set ranked" using Cons.prems by (simp add: p)
  have same: "List.map_filter (hit cutoff F V (AList.delete i facts)) ranked
      = List.map_filter (hit cutoff F V facts) ranked"
    using fresh by (intro map_filter_cong) (force simp: hit_def delete_conv')
  note IH = Cons.IH [OF distinct.simps(2) [THEN iffD1, OF Cons.prems [unfolded list.map], THEN conjunct2]]
  show ?case
  proof (cases "length results \<ge> lmt")
    case False
    then obtain n where n: "lmt - length results = Suc n" by (metis Suc_diff_le diff_is_0_eq not0_implies_Suc not_less_eq_eq)
    then have n': "lmt - Suc (length results) = n" by simp
    show ?thesis
    proof (cases "map_of facts i")
      case None
      with False show ?thesis by (simp add: p IH map_filter_Cons hit_def)
    next
      case (Some f)
      show ?thesis
      proof (cases "passes_temporal_cutoff f cutoff")
        case True
        then have "\<not> (case f_t_valid f of Some tv \<Rightarrow> tv > cutoff | None \<Rightarrow> False)"
          "\<not> (case f_t_invalid f of Some ti \<Rightarrow> ti \<le> cutoff | None \<Rightarrow> False)"
          by (simp_all add: passes_temporal_cutoff_def)
        moreover from Some True have "hit cutoff F V facts (i, score) =
            Some \<lparr>sr_fact = f, sr_score = score, sr_match_type = match_type_of F V i\<rparr>"
          by (simp add: hit_def)
        ultimately show ?thesis using False Some n n' same by (simp add: p IH map_filter_Cons)
      next
        case False
        then have "(case f_t_valid f of Some tv \<Rightarrow> tv > cutoff | None \<Rightarrow> False) \<or>
          (case f_t_invalid f of Some ti \<Rightarrow> ti \<le> cutoff | None \<Rightarrow> False)"
          by (simp add: passes_temporal_cutoff_def)
        moreover from Some False have "hit cutoff F V facts (i, score) = None" by (simp add: hit_def)
        ultimately show ?thesis using \<open>\<not> length results \<ge> lmt\<close> Some same
          by (auto simp: p IH map_filter_Cons Let_def)
      qed
    qed
  qed (simp add: p)
qed

lemma set_map_filter: "set (List.map_filter f xs) = {y. \<exists>x \<in> set xs. f x = Some y}"
  by (force simp: map_filter_def)

subsection \<open>A validated reranking does not panic\<close>

lemma check_reranked_ok:
  "check_reranked n seen out = Inr () \<longleftrightarrow>
     (\<forall>p \<in> set out. fst p < n \<and> fst p \<notin> seen \<and> fl_is_finite (snd p)) \<and> distinct (map fst out)"
  by (induction n seen out rule: check_reranked.induct) force+

lemma validate_reranker_output_ok:
  "validate_reranker_output n out = Inr () \<longleftrightarrow>
     (\<forall>p \<in> set out. fst p < n \<and> fl_is_finite (snd p)) \<and> distinct (map fst out)"
proof -
  have "length out \<le> n" if "\<forall>p \<in> set out. fst p < n" "distinct (map fst out)"
  proof -
    have "fst ` set out \<subseteq> {..<n}" using that(1) by auto
    then have "card (set (map fst out)) \<le> n" using card_mono [of "{..<n}" "set (map fst out)"] by simp
    with distinct_card [OF that(2)] show ?thesis by simp
  qed
  then show ?thesis
    by (cases "length out > n") (auto simp: validate_reranker_output_def check_reranked_ok)
qed

lemma take_candidates_ok:
  assumes "\<forall>p \<in> set out. fst p < length cands \<and> cands ! fst p \<noteq> None" "distinct (map fst out)"
  shows "take_candidates cands out = Some (map (\<lambda>p. (the (cands ! fst p))\<lparr>sr_score := snd p\<rparr>) out)"
  using assms
proof (induction cands out rule: take_candidates.induct)
  case (2 cands idx score out)
  then obtain r where r: "idx < length cands" "cands ! idx = Some r" by auto
  have ne: "idx \<noteq> fst p" if "p \<in> set out" for p using that 2(3) by auto
  have "\<forall>p \<in> set out. fst p < length (cands[idx := None]) \<and> cands[idx := None] ! fst p \<noteq> None"
  proof
    fix p assume "p \<in> set out"
    with 2(2) ne [of p] show "fst p < length (cands[idx := None]) \<and> cands[idx := None] ! fst p \<noteq> None"
      by (auto simp: nth_list_update)
  qed
  with 2(1) [OF _ r(2)] 2(3) r have "take_candidates (cands[idx := None]) out =
      Some (map (\<lambda>p. (the (cands[idx := None] ! fst p))\<lparr>sr_score := snd p\<rparr>) out)" by simp
  also have "map (\<lambda>p. (the (cands[idx := None] ! fst p))\<lparr>sr_score := snd p\<rparr>) out =
      map (\<lambda>p. (the (cands ! fst p))\<lparr>sr_score := snd p\<rparr>) out"
    using ne by simp
  finally show ?case using r by simp
qed simp

lemma rerank_ok:
  assumes "validate_reranker_output (length rs) out = Inr ()"
  shows "take_candidates (map Some rs) out = Some (map (\<lambda>p. (rs ! fst p)\<lparr>sr_score := snd p\<rparr>) out)"
proof -
  from assms have "\<forall>p \<in> set out. fst p < length rs" "distinct (map fst out)"
    by (auto simp: validate_reranker_output_ok)
  then show ?thesis using take_candidates_ok [of out "map Some rs"] by simp
qed

lemma query_total: "query P ctx t reranker now q s \<noteq> None"
proof -
  have "take_candidates (map Some rs) out \<noteq> None" if "validate_reranker_output (length rs) out = Inr ()" for rs out
    by (simp add: rerank_ok [OF that])
  then show ?thesis by (auto simp: query_def split: sum.split option.split prod.split)
qed

lemma query_scope_missing:
  "ensure_open ctx = Inr () \<Longrightarrow> sq_scope q = Some sq \<Longrightarrow> resolve_query t sq = None \<Longrightarrow>
   query P ctx t reranker now q s = Some (Inr [])"
  by (simp add: query_def resolve_query_scope_ids_def)

lemma execute_query_scope_missing:
  "ensure_open ctx = Inr () \<Longrightarrow> validate_memory_query q = Inr () \<Longrightarrow> mq_scope q = Some sq \<Longrightarrow>
   resolve_query t sq = None \<Longrightarrow> execute_query P ctx max_utc now t q s = Inr ScopeMissing"
  by (simp add: execute_query_def resolve_query_scope_ids_def)

subsection \<open>Every answer respects every filter\<close>

definition selected :: "fact_type option \<Rightarrow> int list option \<Rightarrow> fact \<Rightarrow> bool" where
  "selected ft scope_ids f \<longleftrightarrow> is_active_row f \<and> (\<forall>t. ft = Some t \<longrightarrow> f_fact_type f = t) \<and>
     (\<forall>is. scope_ids = Some is \<longrightarrow> f_scope_id f \<in> set is)"

definition accepts :: "time \<Rightarrow> memory_query \<Rightarrow> int list option \<Rightarrow> fact \<Rightarrow> bool" where
  \<comment> \<open>the conjunction of the filters of a query\<close>
  "accepts now q scope_ids f \<longleftrightarrow> selected (mq_fact_type q) scope_ids f \<and>
     (\<forall>m. mq_min_importance_score q = Some m \<longrightarrow> fl_le m (f_importance_score f)) \<and>
     (mq_pinned_only q \<longrightarrow> f_is_pinned f) \<and>
     (case (mq_period_start q, mq_period_end q) of
        (Some a, Some b) \<Rightarrow> fact_overlaps_period f a b
      | _ \<Rightarrow> valid_at (case mq_valid_at q of Some t \<Rightarrow> t | None \<Rightarrow> now) f)"

locale search_laws =
  fixes P :: "'s search_port" and st_ok :: "'s \<Rightarrow> bool" and rows :: "'s \<Rightarrow> fact list"
  assumes unique: "st_ok s \<Longrightarrow> distinct (map f_id (rows s))"
    and lexical: "st_ok s \<Longrightarrow>
      p_lexical_search P text (default_filter\<lparr>ff_fact_type := ft, ff_scope_ids := is\<rparr>) k s = Inr rs \<Longrightarrow>
      distinct (map fst rs) \<and> (\<forall>i \<in> fst ` set rs. \<exists>f \<in> set (rows s). f_id f = i \<and> selected ft is f)"
    and vector: "st_ok s \<Longrightarrow>
      p_vector_search P emb (default_filter\<lparr>ff_fact_type := ft, ff_scope_ids := is\<rparr>) k s = Inr rs \<Longrightarrow>
      distinct (map fst rs) \<and> (\<forall>i \<in> fst ` set rs. \<exists>f \<in> set (rows s). f_id f = i \<and> selected ft is f)"
    and get_facts: "st_ok s \<Longrightarrow> p_get_facts P ids s = Inr fmap \<Longrightarrow> map_of fmap i = Some f \<Longrightarrow>
      f \<in> set (rows s) \<and> f_id f = i"
    and period: "st_ok s \<Longrightarrow> p_list_active_in_period P a b sl ft s = Inr fs \<Longrightarrow>
      distinct (map f_id fs) \<and> (\<forall>f \<in> set fs. f \<in> set (rows s) \<and> is_active_row f \<and>
        fact_overlaps_period f a b \<and> in_scopes sl f \<and> (\<forall>t. ft = Some t \<longrightarrow> f_fact_type f = t))"
    and importance: "st_ok s \<Longrightarrow> p_list_by_importance_score P sl m n {} s = Inr fs \<Longrightarrow>
      distinct (map f_id fs) \<and> (\<forall>f \<in> set fs. f \<in> set (rows s) \<and> is_active_row f \<and>
        fl_le m (f_importance_score f) \<and> in_scopes sl f)"
begin

lemma hybrid_results:
  assumes ok: "st_ok s" and r: "port_hybrid_search P now q is s = Inr (rs, dg)"
  shows "distinct (map (\<lambda>r. f_id (sr_fact r)) rs)"
    and "length rs \<le> target_limit q"
    and "sr \<in> set rs \<Longrightarrow> sr_fact sr \<in> set (rows s) \<and> selected (sq_fact_type q) is (sr_fact sr) \<and>
      valid_at (case sq_valid_at q of Some t \<Rightarrow> t | None \<Rightarrow> now) (sr_fact sr)"
proof -
  let ?cut = "case sq_valid_at q of Some t \<Rightarrow> t | None \<Rightarrow> now"
  let ?good = "\<lambda>xs. distinct (map fst xs) \<and>
    (\<forall>i \<in> fst ` set xs. \<exists>f \<in> set (rows s). f_id f = i \<and> selected (sq_fact_type q) is f)"
  define fl where "fl = default_filter\<lparr>ff_fact_type := sq_fact_type q, ff_scope_ids := is\<rparr>"
  define n where "n = max (sat_mul_usize (target_limit q) 3) (target_limit q)"
  obtain fts vec ranked facts where
    fts: "(if sq_mode q \<in> {FtsMode, HybridMode} then (case sq_text q of Some text \<Rightarrow>
        p_lexical_search P text fl n s | None \<Rightarrow> Inr []) else Inr []) = Inr fts"
    and vec: "(if sq_mode q \<in> {VectorMode, HybridMode} then (case sq_embedding q of Some emb \<Rightarrow>
        p_vector_search P emb fl n s | None \<Rightarrow> Inr []) else Inr []) = Inr vec"
    and ranked: "ranked = (case sq_mode q of FtsMode \<Rightarrow> fts | VectorMode \<Rightarrow> vec
        | HybridMode \<Rightarrow> rrf_merge fts (map (\<lambda>(i, _). (i, Fin 0)) vec) rrf_k)"
    and facts: "p_get_facts P (map fst ranked) s = Inr facts"
    and res: "(rs, dg) = assemble_results now q ranked (fst ` set fts) (fst ` set vec) (length fts)
        (length vec) facts"
    using r unfolding port_hybrid_search_def Let_def and_then_eq_Inr fl_def [symmetric] n_def [symmetric]
    by (elim exE conjE) (rule that, assumption, assumption, rule refl, assumption, simp)
  have gf: "?good fts"
    using fts lexical [OF ok, where ft = "sq_fact_type q" and ?is = "is"]
    by (auto simp: fl_def split: if_splits option.splits)
  have gv: "?good vec"
    using vec vector [OF ok, where ft = "sq_fact_type q" and ?is = "is"]
    by (auto simp: fl_def split: if_splits option.splits)
  have ids: "fst ` set (map (\<lambda>(i, _). (i, Fin 0)) vec) = fst ` set vec" by force
  have g: "?good ranked"
  proof (cases "sq_mode q")
    case HybridMode
    with gf gv show ?thesis
      by (simp add: ranked rrf_merge_ok(1) rrf_merge_ok(2) ids [simplified] ball_Un)
  qed (use gf gv ranked in simp_all)
  let ?hit = "hit ?cut (fst ` set fts) (fst ` set vec) facts"
  have rs: "rs = take (target_limit q) (List.map_filter ?hit ranked)"
    using res assemble_loop_eq [of ranked] g by (simp add: assemble_results_def Let_def)
  then show "length rs \<le> target_limit q" by simp
  have hit_id: "f_id (sr_fact y) = fst x \<and> sr_fact y \<in> set (rows s) \<and> valid_at ?cut (sr_fact y)"
    if "?hit x = Some y" for x y
    using that get_facts [OF ok facts]
    by (auto simp: hit_def passes_valid_at split: prod.splits option.splits if_splits)
  have "distinct (map (\<lambda>r. f_id (sr_fact r)) (List.map_filter ?hit xs))" if "distinct (map fst xs)" for xs
    using that
  proof (induction xs)
    case (Cons x xs)
    have "f_id (sr_fact y) \<noteq> f_id (sr_fact z)" if "?hit x = Some y" "z \<in> set (List.map_filter ?hit xs)" for y z
      using that Cons.prems hit_id by (auto simp: set_map_filter image_iff)
    with Cons show ?case by (auto simp: map_filter_Cons split: option.split)
  qed (simp add: map_filter_def)
  from distinct_take [OF this] g show "distinct (map (\<lambda>r. f_id (sr_fact r)) rs)"
    by (simp only: rs take_map [symmetric])
  show "sr \<in> set rs \<Longrightarrow> sr_fact sr \<in> set (rows s) \<and> selected (sq_fact_type q) is (sr_fact sr) \<and>
      valid_at ?cut (sr_fact sr)"
  proof -
    assume "sr \<in> set rs"
    then have "sr \<in> set (List.map_filter ?hit ranked)" unfolding rs by (rule in_set_takeD)
    then obtain x where x: "x \<in> set ranked" "?hit x = Some sr" by (auto simp: set_map_filter)
    from hit_id [OF x(2)] have h: "f_id (sr_fact sr) = fst x" "sr_fact sr \<in> set (rows s)"
      "valid_at ?cut (sr_fact sr)" by blast+
    from g x(1) obtain f where f: "f \<in> set (rows s)" "f_id f = fst x" "selected (sq_fact_type q) is f"
      by blast
    from unique [OF ok] f(1,2) h(1,2) have "f = sr_fact sr" by (simp add: distinct_map inj_on_def)
    with f h show ?thesis by simp
  qed
qed

lemma search_path_results:
  assumes ok: "st_ok s" and v: "validate_memory_query q = Inr ()"
    and r: "execute_search_path P max_utc now q is (query_cutoff now q) n s = Inr resp"
  shows "length (qr_results resp) \<le> n"
    and "distinct (map (\<lambda>r. f_id (sr_fact r)) (qr_results resp))"
    and "sr \<in> set (qr_results resp) \<Longrightarrow>
      sr_fact sr \<in> set (rows s) \<and> accepts now q is (sr_fact sr) \<and>
      (has_period q \<longrightarrow> valid_at max_utc (sr_fact sr))"
proof -
  define sq where "sq = (search_query_new (infer_search_mode q) n)\<lparr>sq_text := mq_text q,
    sq_embedding := mq_embedding q,
    sq_valid_at := (if query_cutoff now q = None \<and> has_period q then Some max_utc else query_cutoff now q),
    sq_fact_type := mq_fact_type q, sq_scope := mq_scope q\<rparr>"
  obtain rs dg where h: "port_hybrid_search P now sq is s = Inr (rs, dg)"
    and res: "qr_results resp = take n (search_post_filters q rs)"
    using r unfolding execute_search_path_def Let_def sq_def [symmetric]
    by (auto simp: and_then_eq_Inr split: bool.splits option.splits)
  note hr = hybrid_results [OF ok h]
  show "length (qr_results resp) \<le> n" by (simp add: res)
  have pf: "search_post_filters q rs = filter (\<lambda>r.
      (case (mq_period_start q, mq_period_end q) of
         (Some a, Some b) \<Rightarrow> fact_overlaps_period (sr_fact r) a b | _ \<Rightarrow> True) \<and>
      (\<forall>m. mq_min_importance_score q = Some m \<longrightarrow> fl_le m (f_importance_score (sr_fact r))) \<and>
      (mq_pinned_only q \<longrightarrow> f_is_pinned (sr_fact r))) rs"
    by (auto simp: search_post_filters_def Let_def intro!: filter_cong split: option.splits)
  have "distinct (map (\<lambda>r. f_id (sr_fact r)) (filter p rs))" for p
    using hr(1) by (simp add: distinct_map_filter)
  from distinct_take [OF this, of n] show "distinct (map (\<lambda>r. f_id (sr_fact r)) (qr_results resp))"
    by (simp only: res pf take_map)
  assume "sr \<in> set (qr_results resp)"
  then have sr: "sr \<in> set (search_post_filters q rs)" unfolding res by (rule in_set_takeD)
  then have "sr \<in> set rs" by (simp add: pf)
  note h = hr(3) [OF this]
  have cut: "(case sq_valid_at sq of Some t \<Rightarrow> t | None \<Rightarrow> now) = (if has_period q then max_utc
      else case mq_valid_at q of Some t \<Rightarrow> t | None \<Rightarrow> now)" "sq_fact_type sq = mq_fact_type q"
    using v by (auto simp: sq_def query_cutoff_def validate_memory_query_def split: if_splits option.splits)
  have both: "has_period q \<longleftrightarrow> mq_period_start q \<noteq> None \<and> mq_period_end q \<noteq> None"
    using v by (auto simp: has_period_def validate_memory_query_def split: if_splits)
  show "sr_fact sr \<in> set (rows s) \<and> accepts now q is (sr_fact sr) \<and>
      (has_period q \<longrightarrow> valid_at max_utc (sr_fact sr))"
    using h sr unfolding cut accepts_def pf
    by (cases "mq_period_start q"; cases "mq_period_end q") (simp_all add: both)
qed

lemma store_path_results:
  assumes ok: "st_ok s" and v: "validate_memory_query q = Inr ()" and ne: "is \<noteq> Some []"
    and r: "execute_store_path P q is (query_cutoff now q) n s = Inr resp"
  shows "length (qr_results resp) \<le> n"
    and "distinct (map (\<lambda>r. f_id (sr_fact r)) (qr_results resp))"
    and "sr \<in> set (qr_results resp) \<Longrightarrow>
      sr_fact sr \<in> set (rows s) \<and> accepts now q is (sr_fact sr)"
proof -
  let ?sl = "case is of Some is \<Rightarrow> is | None \<Rightarrow> []"
  define fetch where "fetch = (case (mq_period_start q, mq_period_end q) of
      (Some a, Some b) \<Rightarrow> p_list_active_in_period P a b ?sl (mq_fact_type q) s
    | _ \<Rightarrow> p_list_by_importance_score P ?sl
        (case mq_min_importance_score q of Some m \<Rightarrow> m | None \<Rightarrow> Fin 0) (max (sat_mul_usize n 3) n) {} s)"
  obtain fs where f: "fetch = Inr fs" and res: "qr_results resp = map fact_to_search_result
      (take n (sort_by (desc_by f_importance_score) (store_post_filters q (query_cutoff now q) fs)))"
    using r unfolding execute_store_path_def Let_def fetch_def [symmetric] by (auto simp: and_then_eq_Inr)
  show "length (qr_results resp) \<le> n" by (simp add: res)
  have both: "has_period q \<longleftrightarrow> mq_period_start q \<noteq> None \<and> mq_period_end q \<noteq> None"
    using v by (auto simp: has_period_def validate_memory_query_def split: if_splits)
  have d: "distinct (map f_id fs)"
    using f period [OF ok] importance [OF ok] by (auto simp: fetch_def split: option.splits)
  let ?g = "store_post_filters q (query_cutoff now q) fs"
  have pf: "set ?g \<subseteq> set fs" "distinct (map f_id ?g)"
    using d by (auto simp: store_post_filters_def Let_def distinct_map_filter split: option.splits if_splits)
  have ds: "distinct (map f_id (sort_by (desc_by f_importance_score) ?g))"
    using pf(2) mset_eq_imp_distinct_iff [of "map f_id (sort_by (desc_by f_importance_score) ?g)" "map f_id ?g"]
    by simp
  have "map (\<lambda>r. f_id (sr_fact r)) (qr_results resp)
      = map f_id (take n (sort_by (desc_by f_importance_score) ?g))"
    by (simp add: res fact_to_search_result_def comp_def)
  then show "distinct (map (\<lambda>r. f_id (sr_fact r)) (qr_results resp))"
    using distinct_take [OF ds, of n] by (simp add: take_map)
  assume "sr \<in> set (qr_results resp)"
  then obtain f where sr: "sr_fact sr = f" "f \<in> set ?g"
    unfolding res by (auto simp: fact_to_search_result_def dest: in_set_takeD)
  have sc: "in_scopes ?sl f \<longleftrightarrow> (\<forall>i. is = Some i \<longrightarrow> f_scope_id f \<in> set i)"
    using ne by (cases "is") (auto simp: in_scopes_def)
  have mem: "f \<in> set fs" using sr pf by blast
  have post: "(\<forall>c. query_cutoff now q = Some c \<longrightarrow> valid_at c f) \<and>
      (\<forall>t. \<not> has_period q \<longrightarrow> mq_fact_type q = Some t \<longrightarrow> f_fact_type f = t) \<and>
      (\<forall>m. has_period q \<longrightarrow> mq_min_importance_score q = Some m \<longrightarrow> fl_le m (f_importance_score f)) \<and>
      (mq_pinned_only q \<longrightarrow> f_is_pinned f)"
    using sr(2) by (auto simp: store_post_filters_def Let_def passes_valid_at split: option.splits if_splits)
  show "sr_fact sr \<in> set (rows s) \<and> accepts now q is (sr_fact sr)"
  proof (cases "has_period q")
    case True
    then obtain a b where ab: "mq_period_start q = Some a" "mq_period_end q = Some b" using both by auto
    from f ab have p: "p_list_active_in_period P a b ?sl (mq_fact_type q) s = Inr fs" by (simp add: fetch_def)
    from period [OF ok p] mem have "f \<in> set (rows s) \<and> is_active_row f \<and> fact_overlaps_period f a b \<and>
      in_scopes ?sl f \<and> (\<forall>t. mq_fact_type q = Some t \<longrightarrow> f_fact_type f = t)" by blast
    with post True ab show ?thesis by (simp add: sr(1) accepts_def selected_def sc [symmetric])
  next
    case False
    then have nn: "mq_period_start q = None" "mq_period_end q = None" by (simp_all add: has_period_def)
    from f nn have p: "p_list_by_importance_score P ?sl (case mq_min_importance_score q of Some m \<Rightarrow> m | None \<Rightarrow> Fin 0)
        (max (sat_mul_usize n 3) n) {} s = Inr fs" by (simp add: fetch_def)
    have cut: "query_cutoff now q = Some (case mq_valid_at q of Some t \<Rightarrow> t | None \<Rightarrow> now)"
      using False by (auto simp: query_cutoff_def split: option.split)
    from importance [OF ok p] mem have "f \<in> set (rows s) \<and> is_active_row f \<and> in_scopes ?sl f \<and>
      fl_le (case mq_min_importance_score q of Some m \<Rightarrow> m | None \<Rightarrow> Fin 0) (f_importance_score f)" by blast
    with post False nn cut show ?thesis
      by (cases "mq_min_importance_score q") (simp_all add: sr(1) accepts_def selected_def sc [symmetric])
  qed
qed

lemma execute_query_results:
  assumes ok: "st_ok s" and r: "execute_query P ctx max_utc now t q s = Inr (Executed resp)"
  shows "\<exists>is. resolve_query_scope_ids t (mq_scope q) = Some is \<and>
    length (qr_results resp) \<le> effective_limit q \<and>
    distinct (map (\<lambda>r. f_id (sr_fact r)) (qr_results resp)) \<and>
    (\<forall>sr \<in> set (qr_results resp). sr_fact sr \<in> set (rows s) \<and> accepts now q is (sr_fact sr)) \<and>
    (has_search q \<and> has_period q \<longrightarrow> (\<forall>sr \<in> set (qr_results resp). valid_at max_utc (sr_fact sr)))"
proof -
  from r obtain "is" where v: "validate_memory_query q = Inr ()"
    and i: "resolve_query_scope_ids t (mq_scope q) = Some is"
    and p: "(if has_search q
       then execute_search_path P max_utc now q is (query_cutoff now q) (effective_limit q) s
       else execute_store_path P q is (query_cutoff now q) (effective_limit q) s) = Inr resp"
    by (auto simp: execute_query_def and_then_eq_Inr split: option.splits)
  have ne: "is \<noteq> Some []"
  proof -
    have "resolve_query t sq \<noteq> Some []" for sq
    proof -
      have "subtree t j \<noteq> []" "ancestors t j \<noteq> []" for j
        using set_subtree [of t j] set_ancestors [of t j] by force+
      then show ?thesis by (cases sq) (auto simp: inherited_def)
    qed
    with i show ?thesis by (auto simp: resolve_query_scope_ids_def split: option.splits)
  qed
  show ?thesis
  proof (cases "has_search q")
    case True
    with p have "execute_search_path P max_utc now q is (query_cutoff now q) (effective_limit q) s = Inr resp"
      by simp
    note res = search_path_results [OF ok v this]
    with i show ?thesis by blast
  next
    case False
    with p have "execute_store_path P q is (query_cutoff now q) (effective_limit q) s = Inr resp" by simp
    note res = store_path_results [OF ok v ne this]
    with i False show ?thesis by blast
  qed
qed

lemma query_results:
  assumes ok: "st_ok s" and r: "query P ctx t reranker now q s = Some (Inr rs)"
  shows "length rs \<le> sq_limit q"
    and "distinct (map (\<lambda>r. f_id (sr_fact r)) rs)"
    and "sr \<in> set rs \<Longrightarrow> \<exists>is. resolve_query_scope_ids t (sq_scope q) = Some is \<and>
      sr_fact sr \<in> set (rows s) \<and> selected (sq_fact_type q) is (sr_fact sr) \<and>
      valid_at (case sq_valid_at q of Some t \<Rightarrow> t | None \<Rightarrow> now) (sr_fact sr)"
proof -
  have cases: "rs = [] \<or> (\<exists>is hits dg order. resolve_query_scope_ids t (sq_scope q) = Some is \<and>
      port_hybrid_search P now q is s = Inr (hits, dg) \<and>
      map sr_fact rs = take (sq_limit q) (map (\<lambda>i. sr_fact (hits ! i)) order) \<and>
      distinct order \<and> (\<forall>i \<in> set order. i < length hits))"
  proof (cases "resolve_query_scope_ids t (sq_scope q)")
    case None
    with r show ?thesis by (auto simp: query_def split: sum.splits)
  next
    case (Some "is")
    then obtain hits dg where h: "port_hybrid_search P now q is s = Inr (hits, dg)"
      using r by (auto simp: query_def split: sum.splits prod.splits)
    have id: "map sr_fact hits = map (\<lambda>i. sr_fact (hits ! i)) [0..<length hits]"
      by (rule nth_equalityI) simp_all
    consider "rs = take (sq_limit q) hits"
      | out where "validate_reranker_output (length hits) out = Inr ()"
        "rs = take (sq_limit q) (map (\<lambda>p. (hits ! fst p)\<lparr>sr_score := snd p\<rparr>) out)"
      using r Some h rerank_ok [of hits]
      by (auto simp: query_def split: sum.splits option.splits)
    then show ?thesis
    proof cases
      case 1
      then have "map sr_fact rs = take (sq_limit q) (map (\<lambda>i. sr_fact (hits ! i)) [0..<length hits])"
        by (simp only: id [symmetric] take_map)
      with Some h show ?thesis by (intro disjI2 exI conjI) auto
    next
      case (2 out)
      then have "map sr_fact rs = take (sq_limit q) (map (\<lambda>i. sr_fact (hits ! i)) (map fst out))"
        by (simp add: take_map comp_def)
      moreover have "distinct (map fst out)" "\<forall>i \<in> set (map fst out). i < length hits"
        using 2(1) by (auto simp: validate_reranker_output_ok)
      ultimately show ?thesis using Some h by blast
    qed
  qed
  show "length rs \<le> sq_limit q"
    using cases by (metis length_map length_take list.size(3) min.cobounded2 min.commute zero_le)
  show "distinct (map (\<lambda>r. f_id (sr_fact r)) rs)"
    using cases
  proof (elim disjE exE conjE)
    fix "is" hits dg order
    assume h: "port_hybrid_search P now q is s = Inr (hits, dg)"
      and m: "map sr_fact rs = take (sq_limit q) (map (\<lambda>i. sr_fact (hits ! i)) order)"
      and o: "distinct order" "\<forall>i \<in> set order. i < length hits"
    have "distinct (map (\<lambda>i. f_id (sr_fact (hits ! i))) order)"
      using hybrid_results(1) [OF ok h] o by (auto simp: distinct_map inj_on_def distinct_conv_nth)
    moreover have "map (\<lambda>r. f_id (sr_fact r)) rs = map f_id (map sr_fact rs)" by simp
    ultimately show ?thesis unfolding m by (simp add: take_map [symmetric] comp_def distinct_take)
  qed simp
  assume "sr \<in> set rs"
  then have sr: "sr_fact sr \<in> set (map sr_fact rs)" by simp
  from cases \<open>sr \<in> set rs\<close> obtain "is" hits dg order where
    i: "resolve_query_scope_ids t (sq_scope q) = Some is"
    and h: "port_hybrid_search P now q is s = Inr (hits, dg)"
    and m: "map sr_fact rs = take (sq_limit q) (map (\<lambda>i. sr_fact (hits ! i)) order)"
    and o: "\<forall>i \<in> set order. i < length hits" by auto
  from in_set_takeD [OF sr [unfolded m]] o obtain j where "j < length hits" "sr_fact sr = sr_fact (hits ! j)"
    by auto
  with hybrid_results(3) [OF ok h, of "hits ! j"] i
  show "\<exists>is. resolve_query_scope_ids t (sq_scope q) = Some is \<and>
      sr_fact sr \<in> set (rows s) \<and> selected (sq_fact_type q) is (sr_fact sr) \<and>
      valid_at (case sq_valid_at q of Some t \<Rightarrow> t | None \<Rightarrow> now) (sr_fact sr)" by simp
qed

end

subsection \<open>The SQLite index satisfies the laws\<close>

lemma selected_filter:
  "filter_holds jt (default_filter\<lparr>ff_fact_type := ft, ff_scope_ids := is\<rparr>) f = selected ft is f"
  by (auto simp: filter_holds_def default_filter_def selected_def)

lemma fts_matches_distinct: "db_inv edim D \<Longrightarrow> distinct (map fst (fts_matches F D q p))"
proof -
  assume "db_inv edim D"
  note d = distinct_fact_ids [OF this]
  have "distinct (map fst (List.map_filter (\<lambda>f. case g f of None \<Rightarrow> None
      | Some score \<Rightarrow> if p f then Some (f_id f, score) else None) fs))" if "distinct (map f_id fs)" for g and fs :: "fact list"
    using that by (induction fs) (auto simp: map_filter_Cons set_map_filter map_filter_def image_iff
        split: option.splits if_splits)
  from this [OF d] show ?thesis by (simp add: fts_matches_def)
qed

lemma lexical_distinct:
  assumes "db_inv edim D" "lexical_search F jt D q flt k = Inr rs"
  shows "distinct (map fst rs)"
proof -
  from assms(2) obtain p where rs: "rs = [] \<or> rs = sql_limit k (sort_by (asc_by snd) (fts_matches F D q p))"
    by (auto simp: lexical_search_def fts_search_filtered_def and_then_eq_Inr split: if_splits)
  let ?m = "fts_matches F D q p"
  have "distinct (map fst (sort_by (asc_by snd) ?m))"
    using fts_matches_distinct [OF assms(1)]
      mset_eq_imp_distinct_iff [of "map fst (sort_by (asc_by snd) ?m)" "map fst ?m"] by simp
  with rs show ?thesis by (auto simp: sql_limit_def take_map [symmetric])
qed

lemma vector_distinct_selected:
  assumes inv: "db_inv edim D" and r: "vector_search jt edim D q flt k = Inr rs"
  shows "distinct (map fst rs)"
    and "i \<in> fst ` set rs \<Longrightarrow> \<exists>f \<in> set (d_facts D). f_id f = i \<and> filter_holds jt flt f"
proof -
  from r obtain preds where b: "build_filter_sql jt flt = Inr preds"
    and v: "vector_search_filtered edim D q k preds = Inr rs"
    by (auto simp: vector_search_def and_then_eq_Inr)
  have w: "where_clause preds = filter_holds jt flt" using build_filter_sql_selects [OF b] by (rule ext)
  let ?scored = "map (\<lambda>f. (f_id f, cosine_similarity q (f_embedding f))) (filter (filter_holds jt flt) (d_facts D))"
  have rs: "rs = top_k k ?scored"
    using v by (auto simp: vector_search_filtered_def w score_row_db [OF inv] split: if_splits)
  have "distinct (map fst ?scored)"
    using distinct_fact_ids [OF inv] by (simp add: comp_def distinct_map_filter)
  then show "distinct (map fst rs)" unfolding rs by (rule top_k_distinct)
  show "i \<in> fst ` set rs \<Longrightarrow> \<exists>f \<in> set (d_facts D). f_id f = i \<and> filter_holds jt flt f"
    by (auto simp: rs top_k_def dest!: in_set_takeD)
qed

lemma get_many_ok:
  assumes inv: "db_inv edim D" and r: "get_many edim D ids = Inr m" and "map_of m i = Some f"
  shows "f \<in> set (d_facts D) \<and> f_id f = i"
proof -
  have acc: "map_of (fold (\<lambda>f m. AList.update (f_id f) f m) fs m0) i = Some f \<Longrightarrow>
      f \<in> set fs \<and> f_id f = i \<or> map_of m0 i = Some f" for fs m0
  proof (induction fs arbitrary: m0)
    case (Cons g fs)
    then have "f \<in> set fs \<and> f_id f = i \<or> map_of (AList.update (f_id g) g m0) i = Some f" by simp
    then show ?case by (auto simp: update_conv' split: if_splits)
  qed simp
  have "select_facts edim (filter (\<lambda>f. f_id f \<in> set ids) (d_facts D)) =
      Inr (filter (\<lambda>f. f_id f \<in> set ids) (d_facts D))"
    by (rule select_facts_ok [OF inv]) auto
  with r assms(3) acc [of "filter (\<lambda>f. f_id f \<in> set ids) (d_facts D)" "[]"] show ?thesis
    by (auto simp: get_many_def split: if_splits)
qed

interpretation sqlq: search_laws "sqlite_search F jt edim" "db_inv edim" d_facts
proof unfold_locales
  show "distinct (map f_id (d_facts D))" if "db_inv edim D" for D
    using that by (rule distinct_fact_ids)
next
  fix D qs ft sc k rs
  assume inv: "db_inv edim D" and r: "p_lexical_search (sqlite_search F jt edim) qs
    (default_filter\<lparr>ff_fact_type := ft, ff_scope_ids := sc\<rparr>) k D = Inr rs"
  from r have l: "lexical_search F jt D qs (default_filter\<lparr>ff_fact_type := ft, ff_scope_ids := sc\<rparr>) k = Inr rs"
    by (simp add: sqlite_search_def)
  have "list_all admissible (ff_metadata (default_filter\<lparr>ff_fact_type := ft, ff_scope_ids := sc\<rparr>))"
    by (simp add: default_filter_def)
  from lexical_search_ok [OF this, of F jt D qs k] l lexical_distinct [OF inv l] show "distinct (map fst rs) \<and> (\<forall>i \<in> fst ` set rs. \<exists>f \<in> set (d_facts D). f_id f = i \<and> selected ft sc f)"
    by (auto simp: selected_filter)
next
  fix D emb ft sc k rs
  assume inv: "db_inv edim D" and r: "p_vector_search (sqlite_search F jt edim) emb
    (default_filter\<lparr>ff_fact_type := ft, ff_scope_ids := sc\<rparr>) k D = Inr rs"
  from r have "vector_search jt edim D emb (default_filter\<lparr>ff_fact_type := ft, ff_scope_ids := sc\<rparr>) k = Inr rs"
    by (simp add: sqlite_search_def)
  from vector_distinct_selected [OF inv this] show "distinct (map fst rs) \<and> (\<forall>i \<in> fst ` set rs. \<exists>f \<in> set (d_facts D). f_id f = i \<and> selected ft sc f)" by (simp add: selected_filter)
next
  show "f \<in> set (d_facts D) \<and> f_id f = i"
    if "db_inv edim D" "p_get_facts (sqlite_search F jt edim) ids D = Inr m" "map_of m i = Some f" for D ids m i f
    using get_many_ok [OF that(1)] that(2,3) by (simp add: sqlite_search_def)
next
  fix D a b sl ft fs
  assume inv: "db_inv edim D" and r: "p_list_active_in_period (sqlite_search F jt edim) a b sl ft D = Inr fs"
  let ?p = "\<lambda>f. is_active_row f \<and> (case f_t_valid f of None \<Rightarrow> True | Some tv \<Rightarrow> tv < b) \<and>
        (case f_t_invalid f of None \<Rightarrow> True | Some ti \<Rightarrow> a < ti) \<and> in_scopes sl f \<and>
        (case ft of None \<Rightarrow> True | Some t \<Rightarrow> f_fact_type f = t)"
  let ?s = "sort_by importance_then_id (filter ?p (d_facts D))"
  have "fs = ?s" using r select_facts_ok [OF inv, of ?s]
    by (auto simp: sqlite_search_def list_active_in_period_def list_active_in_period_inner_def)
  moreover have "distinct (map f_id ?s)"
    using distinct_fact_ids [OF inv] mset_eq_imp_distinct_iff [of "map f_id ?s" "map f_id (filter ?p (d_facts D))"]
    by (simp add: distinct_map_filter)
  ultimately show "distinct (map f_id fs) \<and> (\<forall>f \<in> set fs. f \<in> set (d_facts D) \<and> is_active_row f \<and>
        fact_overlaps_period f a b \<and> in_scopes sl f \<and> (\<forall>t. ft = Some t \<longrightarrow> f_fact_type f = t))"
    by (auto simp: fact_overlaps_period_def)
next
  fix D sl m n fs
  assume inv: "db_inv edim D" and r: "p_list_by_importance_score (sqlite_search F jt edim) sl m n {} D = Inr fs"
  let ?p = "\<lambda>f. is_active_row f \<and> fl_le m (f_importance_score f) \<and> f_id f \<notin> {} \<and> in_scopes sl f"
  let ?s = "sort_by (desc_by f_importance_score) (filter ?p (d_facts D))"
  have "set (sql_limit n ?s) \<subseteq> set (d_facts D)" by (auto simp: sql_limit_def dest!: in_set_takeD)
  then have "fs = sql_limit n ?s" using r select_facts_ok [OF inv, of "sql_limit n ?s"]
    by (simp add: sqlite_search_def list_by_importance_score_def)
  moreover have "distinct (map f_id ?s)"
    using distinct_fact_ids [OF inv] mset_eq_imp_distinct_iff [of "map f_id ?s" "map f_id (filter ?p (d_facts D))"]
    by (simp add: distinct_map_filter)
  ultimately show "distinct (map f_id fs) \<and> (\<forall>f \<in> set fs. f \<in> set (d_facts D) \<and> is_active_row f \<and>
        fl_le m (f_importance_score f) \<and> in_scopes sl f)"
    by (auto simp: sql_limit_def take_map [symmetric] dest!: in_set_takeD)
qed

end
