(* ===== verification/Examples.thy ===== *)
theory Examples
  imports Engine Query
begin

text \<open>
  Small concrete states on which the properties are applied: a database with two facts and an
  edge, its graph, a policy, a context and the requests of the property theories.
\<close>

definition ex_ctx :: memory_ctx where
  "ex_ctx = \<lparr>ctx_embed_dim = 1, ctx_read_only = False, ctx_reopen_required = 0\<rparr>"

definition ex_fact :: "fact_id \<Rightarrow> string \<Rightarrow> fact" where
  "ex_fact i c = \<lparr>f_id = i, f_content = c, f_content_hash = c, f_embedding = [Fin 1],
     f_fact_type = Episodic, f_t_created = 0, f_t_expired = None, f_t_valid = None,
     f_t_invalid = None, f_source_event_id = None, f_base_importance = Fin (1/2),
     f_access_count = 0, f_last_accessed = 0, f_metadata = JObj [], f_scope_id = 1,
     f_is_pinned = False, f_importance_score = Fin (1/2), f_surfaced_at = None\<rparr>"

definition ex_new_fact :: "string \<Rightarrow> new_fact" where
  "ex_new_fact c = \<lparr>nf_content = c, nf_content_hash = [], nf_embedding = [Fin 1],
     nf_fact_type = Episodic, nf_t_created = 0, nf_t_expired = None, nf_t_valid = None,
     nf_t_invalid = None, nf_source_event_id = None, nf_base_importance = Fin (1/2),
     nf_access_count = 0, nf_last_accessed = 0, nf_metadata = JObj [], nf_scope_id = 1,
     nf_is_pinned = False\<rparr>"

definition ex_edge :: edge where
  "ex_edge = \<lparr>e_id = 1, e_source_fact_id = 1, e_target_fact_id = 2, e_relation_type = Supplements,
     e_weight = Fin 1, e_t_created = 0, e_t_expired = None, e_scope_id = 1\<rparr>"

definition ex_db :: db where
  "ex_db = \<lparr>d_scopes = init_scopes, d_events = [], d_event_seq = 0,
     d_facts = [ex_fact 1 ''a'', ex_fact 2 ''b''], d_fact_seq = 2,
     d_edges = [ex_edge], d_edge_seq = 1, d_identity = None\<rparr>"

definition ex_graph :: "list_graph memory_graph" where
  "ex_graph = from_active_edges list_petgraph (active_edges ex_db)"

lemma ex_db_inv: "db_inv 1 ex_db"
  by (simp add: db_inv_def ex_db_def init_scopes_inv fact_row_ok_def edge_row_ok_def ex_fact_def
      ex_edge_def scope_ids_of_def fact_ids_of_def) (simp add: init_scopes_def)

lemma ex_mirrors: "mirrors list_petgraph ex_graph (active_edges ex_db)"
  unfolding ex_graph_def by (rule lpg.mirrors_from_active_edges)

definition ex_policy :: forget_policy where
  "ex_policy = default_forget_policy\<lparr>p_decay_exempt_types := {Semantic}, p_min_importance := Fin 1\<rparr>"

lemma ex_policy_valid: "validate_policy ex_policy = Inr ()"
  by (simp add: ex_policy_def default_forget_policy_def validate_policy_def bad_half_life_def
      fl_le_def fl_in_range_def)

lemma ex_ctx_open: "ensure_open ex_ctx = Inr ()" "ensure_writable ex_ctx = Inr ()"
  by (simp_all add: ex_ctx_def ensure_open_def ensure_writable_def)

lemma ex_rows: "\<forall>f \<in> set (d_facts ex_db). is_active_row f \<longrightarrow>
    0 \<le> f_access_count f \<and> fl_is_finite (f_base_importance f)"
  by (simp add: ex_db_def ex_fact_def)

definition ex_scopes :: scopes_table where
  "ex_scopes = snd (ensure_path init_scopes ''a/b'')"

lemma ex_scopes_inv: "scopes_inv ex_scopes"
  using ensure_path_inv(1) [OF init_scopes_inv] unfolding ex_scopes_def by (metis surjective_pairing)

lemma ex_ensure: "ensure_path init_scopes ''a/b'' = (Inr 3, ex_scopes)"
  by (simp add: ex_scopes_def) code_simp

lemma ex_scope_rows:
  "scope_get ex_scopes 3 = Inr \<lparr>sn_id = 3, sn_parent_id = Some 2, sn_label = ''b'', sn_depth = 2\<rparr>"
  "sn_id ` set (sc_rows ex_scopes) = {1, 2, 3}"
  unfolding ex_scopes_def by code_simp+

lemma ex_root_row: "1 \<in> sn_id ` set (sc_rows init_scopes)"
  by (simp add: init_scopes_def)

definition ex_embedder :: embedder where
  "ex_embedder = \<lparr>em_embed = (\<lambda>_. Inr [Fin 1]), em_embed_batch = (\<lambda>cs. Inr (map (\<lambda>_. [Fin 1]) cs)),
     em_fingerprint = \<lparr>fp_model = ''m'', fp_provider = ''p'', fp_dim = 1,
       fp_matryoshka_base_dim = None, fp_element_type = ''f32''\<rparr>\<rparr>"

definition ex_request :: "string \<Rightarrow> string option \<Rightarrow> add_fact_request" where
  "ex_request content scope = \<lparr>q_content = content, q_fact_type = Episodic, q_source_event_id = None,
     q_scope = scope, q_opts = None\<rparr>"

lemmas ex_ingest_simps = op_bind_def ex_ctx_def ensure_open_def ensure_writable_def
  validate_add_fact_request_def validate_importance_def check_str_size_def ex_request_def
  max_payload_bytes_def and_then_def ex_embedder_def Let_def pin_of_def opts_of_def
  default_add_fact_options_def new_fact_of_def or_else_def on_store_def sqlite_storage_def
  transaction_def record_if_absent_def ex_db_def on_scopes_def ex_ensure fact_insert_def
  fact_constraint_def scope_ids_of_def ex_scope_rows ex_root_row

end
