(* ===== verification/Index_Properties.thy ===== *)
theory Index_Properties
  imports Examples
begin

text \<open>
  Properties of the two in-memory projections, the knowledge graph and the scope tree, and of the
  scope table the tree mirrors. The graph ones hold for every graph library with the documented
  laws of petgraph.
\<close>

subsection \<open>The knowledge graph\<close>

lemma ex_graph_ok: "graph_ok list_petgraph ex_graph"
  using ex_mirrors by (simp add: mirrors_def)

lemma ex_graph_edges: "abs_edges list_petgraph ex_graph = {#(1, 2, \<lparr>ed_edge_id = 1,
    ed_relation_type = Supplements, ed_weight = Fin 1\<rparr>)#}"
  using ex_mirrors by (simp add: mirrors_def active_edges_def ex_db_def ex_edge_def is_active_edge_def
      edge_triple_def)

text \<open>The breadth-first search of \<open>connected_component\<close> ends and visits, without repetition,
  exactly the facts connected to the start by edges in either direction; an unknown fact has the
  empty component.\<close>

theorem connected_component_exact:
  assumes "petgraph_laws P" "graph_ok P m"
  shows "\<exists>xs. connected_component P m f = Some xs \<and> distinct xs \<and>
    set xs = (if f \<in> facts_of m then {a. (f, a) \<in> (fact_rel (abs_edges P m))\<^sup>*} else {})"
  by (rule petgraph_laws.connected_component_ok [OF assms])

theorem connected_component_exact_witness:
  "\<exists>xs. connected_component list_petgraph ex_graph 1 = Some xs \<and> distinct xs"
  using connected_component_exact [OF lpg.petgraph_laws_axioms ex_graph_ok, of 1] by blast

text \<open>\<open>remove_node\<close> deletes the fact and exactly the edges at it, although petgraph moves the
  last node into the freed index and the map has to be repaired.\<close>

theorem remove_node_exact:
  assumes "petgraph_laws P" "graph_ok P m"
  shows "graph_ok P (mg_remove_node P m f) \<and> facts_of (mg_remove_node P m f) = facts_of m - {f} \<and>
    abs_edges P (mg_remove_node P m f) = {#e \<in># abs_edges P m. \<not> touches f e#}"
  by (rule petgraph_laws.mg_remove_node_ok [OF assms])

theorem remove_node_exact_witness:
  "abs_edges list_petgraph (mg_remove_node list_petgraph ex_graph 1) = {#}"
  using remove_node_exact [OF lpg.petgraph_laws_axioms ex_graph_ok, of 1]
  by (simp add: ex_graph_edges touches_def)

text \<open>The neighbours of a fact, both ways, are listed once each and never contain the fact.\<close>

theorem neighbors_undirected_exact:
  assumes "petgraph_laws P" "graph_ok P m"
  shows "distinct (neighbors_undirected P m f) \<and> set (neighbors_undirected P m f) =
    {a. a \<noteq> f \<and> (\<exists>d. (f, a, d) \<in># abs_edges P m \<or> (a, f, d) \<in># abs_edges P m)}"
  using petgraph_laws.neighbors_undirected_ok [OF assms] by blast

theorem neighbors_undirected_exact_witness: "set (neighbors_undirected list_petgraph ex_graph 2) = {1}"
proof -
  have "set (neighbors_undirected list_petgraph ex_graph 2) = {a. a \<noteq> 2 \<and>
      (\<exists>d. (2, a, d) \<in># abs_edges list_petgraph ex_graph \<or> (a, 2, d) \<in># abs_edges list_petgraph ex_graph)}"
    using neighbors_undirected_exact [OF lpg.petgraph_laws_axioms ex_graph_ok] by (rule conjunct2)
  also have "\<dots> = {1}" by (auto simp: ex_graph_edges)
  finally show ?thesis .
qed

text \<open>A graph whose ids are valid survives the snapshot: \<open>from_snapshot\<close> accepts what
  \<open>to_snapshot\<close> wrote and rebuilds the same edges.\<close>

theorem graph_snapshot_roundtrip:
  assumes "petgraph_laws P" "graph_ok P m" "edge_count P m \<le> max_snapshot_edges"
    and "\<forall>(s, t, d) \<in># abs_edges P m. s \<in> existing \<and> t \<in> existing \<and> 0 < s \<and> 0 < t \<and> 0 < ed_edge_id d"
  shows "\<exists>m'. from_snapshot P (to_snapshot P m) existing = Inr m' \<and> graph_ok P m' \<and>
    abs_edges P m' = abs_edges P m"
  by (rule petgraph_laws.snapshot_roundtrip [OF assms])

lemma ex_edge_count: "edge_count list_petgraph ex_graph = 1"
proof -
  have "size (abs_edges list_petgraph ex_graph) = 1" by (simp add: ex_graph_edges)
  then show ?thesis by (simp add: abs_edges_def edge_count_def)
qed

theorem graph_snapshot_roundtrip_witness:
  "\<exists>m'. from_snapshot list_petgraph (to_snapshot list_petgraph ex_graph) {1, 2} = Inr m' \<and>
    abs_edges list_petgraph m' = abs_edges list_petgraph ex_graph"
  using graph_snapshot_roundtrip [OF lpg.petgraph_laws_axioms ex_graph_ok, of "{1, 2}"]
  by (auto simp: ex_edge_count ex_graph_edges max_snapshot_edges_def)

text \<open>\<open>from_snapshot\<close> refuses precisely the lists that are too long or hold an invalid edge.\<close>

theorem from_snapshot_accepts:
  assumes "petgraph_laws P"
  shows "is_ok (from_snapshot P es existing) \<longleftrightarrow>
    length es \<le> max_snapshot_edges \<and> (\<forall>e \<in> set es. snapshot_edge_ok existing e)"
  by (rule petgraph_laws.from_snapshot_Inr_iff [OF assms])

theorem from_snapshot_accepts_witness:
  "\<not> is_ok (from_snapshot list_petgraph [\<lparr>ge_edge_id = 1, ge_source = 1, ge_target = 3,
      ge_relation_type = Supplements, ge_weight = Fin 1\<rparr>] {1, 2})"
  using from_snapshot_accepts [OF lpg.petgraph_laws_axioms] by (simp add: snapshot_edge_ok_def)

subsection \<open>The scope tree and its table\<close>

text \<open>In a well-formed tree every node has a path, and resolving the path gives the node back.\<close>

theorem scope_path_roundtrip:
  assumes "scope_wf t" "i \<in> fst ` set (st_nodes t)"
  shows "\<exists>path. path_for_id t i = Some path \<and> resolve_path t path = Some i"
  by (rule path_for_id_resolves [OF assms])

theorem scope_path_roundtrip_witness:
  "\<exists>path. path_for_id (from_nodes (sc_rows ex_scopes)) 3 = Some path \<and>
    resolve_path (from_nodes (sc_rows ex_scopes)) path = Some 3"
proof (rule scope_path_roundtrip [OF scopes_inv_wf [OF ex_scopes_inv]])
  show "3 \<in> fst ` set (st_nodes (from_nodes (sc_rows ex_scopes)))"
    unfolding ex_scopes_def by code_simp
qed

text \<open>\<open>subtree\<close> and \<open>ancestors\<close>, computed from the two indexes of the tree by two different
  loops, are converse to each other: they agree on which scope lies below which.\<close>

theorem subtree_ancestors_converse:
  assumes "scope_wf t"
  shows "d \<in> set (subtree t a) \<longleftrightarrow> a \<in> set (ancestors t d)"
  by (rule subtree_iff_ancestor [OF scope_wfD(1) [OF assms]])

theorem subtree_ancestors_converse_witness:
  "3 \<in> set (subtree (from_nodes (sc_rows ex_scopes)) 1)"
  using subtree_ancestors_converse [OF scopes_inv_wf [OF ex_scopes_inv], of 3 1]
  unfolding ex_scopes_def by code_simp

text \<open>\<open>ensure_path\<close> keeps the table well formed whatever it returns, never changes an existing
  row, and when it succeeds the tree rebuilt from the table resolves the path to the returned leaf.\<close>

theorem ensure_path_correct:
  assumes "scopes_inv s" "ensure_path s path = (r, s')"
  shows "scopes_inv s' \<and> (\<exists>extra. sc_rows s' = sc_rows s @ extra) \<and>
    (\<forall>leaf. r = Inr leaf \<longrightarrow> resolve_path (from_nodes (list_all_scopes s')) path = Some leaf)"
  using ensure_path_inv [OF assms] ensure_path_resolves [OF assms(1)] assms(2) by blast

theorem ensure_path_correct_witness:
  "resolve_path (from_nodes (list_all_scopes ex_scopes)) ''a/b'' = Some 3"
  using ensure_path_correct [OF init_scopes_inv ex_ensure] by blast

text \<open>Hydrating a scope from the port ends for every port that knows finitely many scopes,
  cyclic parent chains included.\<close>

theorem cache_scope_chain_terminates:
  assumes "finite {i. \<exists>n. lookup i = Inr n}"
  shows "\<exists>r. cache_scope_chain lookup t leaf = Some r"
  by (rule cache_scope_chain_returns [OF assms])

theorem cache_scope_chain_terminates_witness:
  "\<exists>r. cache_scope_chain (\<lambda>i. if i = 2 then Inr \<lparr>sn_id = 2, sn_parent_id = Some 2, sn_label = ''a'',
      sn_depth = 1\<rparr> else Inl ReadOnly) empty_tree 2 = Some r"
  by (rule cache_scope_chain_terminates, rule finite_subset [of _ "{2}"]) (auto split: if_splits)

text \<open>A path with a blank segment names no scope.\<close>

theorem blank_segment_unresolved:
  assumes "path \<noteq> ''/''" "\<exists>s \<in> set (split_on (CHR ''/'') path). trim s = []"
  shows "resolve_path t path = None"
  by (rule resolve_path_blank_segment [OF assms])

theorem blank_segment_unresolved_witness: "resolve_path (from_nodes (sc_rows ex_scopes)) ''a//b'' = None"
proof (rule blank_segment_unresolved)
  have "[] \<in> set (split_on (CHR ''/'') ''a//b'')" by simp
  moreover have "trim [] = []" by simp
  ultimately show "\<exists>s \<in> set (split_on (CHR ''/'') ''a//b''). trim s = []" by blast
qed simp

end
