(* ===== verification/Store_Properties.thy ===== *)
theory Store_Properties
  imports Examples
begin

text \<open>
  Properties of the SQLite backend and of the primitives that write to it: what is committed, what
  an error leaves behind, which facts a prune expires, and what ingestion promises.
\<close>

subsection \<open>Transactions\<close>



lemma ex_store_ok: "store_ok 1 ex_db"
  using ex_db_inv by (simp add: store_ok_def canonical_edges_def ex_db_def ex_edge_def relation_from_def)

subsection \<open>Facts\<close>

text \<open>Inserting with reinforcement never stores a duplicate of an active fact: it reports
  reinforcement just when there was one, the reported row is a duplicate of the new fact, no other
  row changes, and the deduplication invariant is kept.\<close>

theorem insert_or_reinforce_correct:
  assumes "db_inv edim D" "dedup_inv hash D"
    and "insert_or_reinforce hash edim nf D = (Inr (i, again), D')" "nf_t_expired nf = None"
  shows "dedup_inv hash D' \<and> (again \<longleftrightarrow> (\<exists>f \<in> set (d_facts D). duplicate_of nf f)) \<and>
    (\<exists>f. row D' i = Some f \<and> duplicate_of nf f) \<and>
    (again \<longrightarrow> map f_id (d_facts D') = map f_id (d_facts D)) \<and>
    (\<forall>j. j \<noteq> i \<longrightarrow> row D' j = row D j)"
  using insert_or_reinforce_ok [OF assms] by blast

lemma ex_dedup: "dedup_inv (\<lambda>s. s) ex_db"
  by (auto simp: dedup_inv_def ex_db_def ex_fact_def content_hash_def)

theorem insert_or_reinforce_correct_witness:
  "\<exists>D'. insert_or_reinforce (\<lambda>s. s) 1 (ex_new_fact ''a'') ex_db = (Inr (1, True), D') \<and>
    dedup_inv (\<lambda>s. s) D' \<and> row D' 2 = row ex_db 2"
proof -
  obtain D' where r: "insert_or_reinforce (\<lambda>s. s) 1 (ex_new_fact ''a'') ex_db = (Inr (1, True), D')"
    by (simp add: insert_or_reinforce_def find_duplicate_def ex_db_def ex_fact_def ex_new_fact_def
        content_hash_def is_active_row_def reinforced_def sql_max_def)
  from insert_or_reinforce_correct [OF ex_db_inv ex_dedup r] r show ?thesis
    by (simp add: ex_new_fact_def)
qed

text \<open>The bulk update of scores, one JSON statement, is the loop of single updates.\<close>

theorem bulk_update_is_loop:
  assumes "\<forall>(i, v) \<in> set scores. fl_is_finite v \<and> i \<in> fact_ids_of D"
  shows "update_importance_scores_bulk scores D =
    op_each (\<lambda>(i, v). update_importance_score i v) scores D"
  by (rule bulk_is_loop [OF assms])

theorem bulk_update_is_loop_witness:
  "update_importance_scores_bulk [(1, Fin 2), (1, Fin 3)] ex_db =
    op_each (\<lambda>(i, v). update_importance_score i v) [(1, Fin 2), (1, Fin 3)] ex_db"
  by (rule bulk_update_is_loop) (simp add: ex_db_def ex_fact_def fact_ids_of_def)

text \<open>Deleting the incident edges and then the facts never violates a foreign key, removes
  just the named facts and just the edges at them.\<close>

theorem hard_delete_correct:
  assumes "hard_delete_incident_to_facts ids D = (Inr n, D1)"
  shows "\<exists>k D2. hard_delete_ids ids D1 = (Inr k, D2) \<and> fact_ids_of D2 = fact_ids_of D - set ids \<and>
    d_edges D2 = filter (\<lambda>e. \<forall>i \<in> set ids. \<not> edge_touches i e) (d_edges D)"
  by (rule delete_incident_then_facts [OF assms])

theorem hard_delete_correct_witness:
  "\<exists>D1 k D2. hard_delete_incident_to_facts [2] ex_db = (Inr 1, D1) \<and>
    hard_delete_ids [2] D1 = (Inr k, D2) \<and> fact_ids_of D2 = {1} \<and> d_edges D2 = []"
proof -
  obtain D1 where r: "hard_delete_incident_to_facts [2] ex_db = (Inr 1, D1)"
    by (simp add: hard_delete_incident_to_facts_def Let_def ex_db_def ex_edge_def)
  have *: "fact_ids_of ex_db - set [2] = {1}"
    "filter (\<lambda>e. \<forall>i \<in> set [2]. \<not> edge_touches i e) (d_edges ex_db) = []"
    by (auto simp: fact_ids_of_def ex_db_def ex_fact_def ex_edge_def edge_touches_def)
  from hard_delete_correct [OF r] r show ?thesis unfolding * by blast
qed

text \<open>\<open>list_due\<close> returns exactly the active facts whose validity has begun, earliest first.\<close>

theorem list_due_correct:
  assumes "db_inv edim D" "list_due edim D now [] [] None = Inr fs"
  shows "set fs = {f \<in> set (d_facts D). is_active_row f \<and> is_temporally_due f now} \<and>
    sorted (map (\<lambda>f. the (f_t_valid f)) fs)"
  using list_due_ok [OF assms] by blast

definition ex_due_db :: db where
  "ex_due_db = ex_db\<lparr>d_facts := [(ex_fact 1 ''a'')\<lparr>f_t_valid := Some 4\<rparr>,
     (ex_fact 2 ''b'')\<lparr>f_t_valid := Some 3\<rparr>, (ex_fact 3 ''c'')\<lparr>f_t_valid := Some 6\<rparr>], d_fact_seq := 3\<rparr>"

lemma ex_due_inv: "db_inv 1 ex_due_db"
  by (simp add: db_inv_def ex_due_db_def ex_db_def init_scopes_inv fact_row_ok_def edge_row_ok_def
      ex_fact_def ex_edge_def scope_ids_of_def fact_ids_of_def) (simp add: init_scopes_def)

theorem list_due_correct_witness:
  "\<exists>fs. list_due 1 ex_due_db 5 [] [] None = Inr fs \<and> map f_id fs = [2, 1] \<and>
    sorted (map (\<lambda>f. the (f_t_valid f)) fs)"
proof -
  obtain fs where r: "list_due 1 ex_due_db 5 [] [] None = Inr fs" "map f_id fs = [2, 1]"
    by (simp add: list_due_def select_facts_def ex_due_db_def ex_fact_def is_active_row_def
        in_scopes_def row_to_fact_def)
  from list_due_correct [OF ex_due_inv r(1)] have "sorted (map (\<lambda>f. the (f_t_valid f)) fs)" ..
  with r show ?thesis by (intro exI [of _ fs]) simp
qed

subsection \<open>Forgetting\<close>



text \<open>A prune that fails (closed or read-only engine, invalid policy, storage error) changes
  neither the tables nor the graph; the guards come before the policy, and the policy before the store.\<close>

theorem prune_failure_changes_nothing:
  assumes "prune (sqlite_storage hash edim) list_petgraph ctx policy now (D, g) = (Inl e, (D', g'))"
  shows "D' = D \<and> g' = g \<and> (ensure_open ctx \<noteq> Inr () \<longrightarrow> ensure_open ctx = Inl e) \<and>
    (ensure_open ctx = Inr () \<and> ensure_writable ctx \<noteq> Inr () \<longrightarrow> ensure_writable ctx = Inl e) \<and>
    (ensure_open ctx = Inr () \<and> ensure_writable ctx = Inr () \<and> validate_policy policy \<noteq> Inr () \<longrightarrow>
      validate_policy policy = Inl e)"
proof -
  have "D' = D \<and> g' = g" by (rule sqlm.prune_error_unchanged [OF assms])
  then show ?thesis using assms by (auto simp: prune_def op_bind_Inl)
qed

theorem prune_failure_changes_nothing_witness:
  "prune (sqlite_storage (\<lambda>s. s) 1) list_petgraph (ex_ctx\<lparr>ctx_read_only := True\<rparr>) ex_policy 5 (ex_db, ex_graph)
    = (Inl ReadOnly, (ex_db, ex_graph))"
proof -
  obtain D' g' where r: "prune (sqlite_storage (\<lambda>s. s) 1) list_petgraph (ex_ctx\<lparr>ctx_read_only := True\<rparr>)
      ex_policy 5 (ex_db, ex_graph) = (Inl ReadOnly, (D', g'))"
    by (simp add: prune_def op_bind_def ex_ctx_def ensure_open_def ensure_writable_def)
  from prune_failure_changes_nothing [OF r] r show ?thesis by simp
qed

text \<open>Under a valid policy the score of a fact whose base importance lies in [0, 1] is finite and
  between 0 and the sum of the weights, and it never falls when the fact gains an edge.\<close>

theorem importance_score_bounds:
  assumes "validate_policy policy = Inr ()" "0 \<le> ii_access_count fa"
    and "ii_base_importance fa = Fin b" "0 \<le> b" "b \<le> 1"
  shows "(\<exists>x. compute_importance fa d now policy = Fin x \<and> 0 \<le> x \<and> x \<le> weight_sum policy) \<and>
    fl_val (compute_importance fa d now policy) \<le> fl_val (compute_importance fa (Suc d) now policy)"
  using compute_importance_range [OF assms] compute_importance_mono_degree [OF assms le_SucI [OF order_refl]]
  by blast

theorem importance_score_bounds_witness:
  "\<exists>x. compute_importance (inputs_of_fact (ex_fact 1 ''a'')) 3 7 ex_policy = Fin x \<and> 0 \<le> x"
proof -
  have "0 \<le> ii_access_count (inputs_of_fact (ex_fact 1 ''a''))"
    "ii_base_importance (inputs_of_fact (ex_fact 1 ''a'')) = Fin (1/2)"
    by (simp_all add: inputs_of_fact_def ex_fact_def)
  from importance_score_bounds [OF ex_policy_valid this, of 3 7] show ?thesis by auto
qed

subsection \<open>Ingestion\<close>

text \<open>C4: when \<open>add_fact\<close> is given a scope path and succeeds, the path resolves afterwards in the
  in-memory tree to the scope the fact was stored under, the tree is still a part of the table, and
  the stored fact is the one the request describes.\<close>

theorem add_fact_scope_resolves:
  assumes "db_inv edim D" "subtree_of t (from_nodes (sc_rows (d_scopes D)))" "q_scope req = Some path"
    and "add_fact (sqlite_storage hash edim) chunks ctx now req em classifier (D, t) = Some (Inr i, (D', t'))"
  shows "\<exists>sid emb nf. em_embed em (q_content req) = Inr emb \<and> resolve_path t' path = Some sid \<and>
    nf = new_fact_of now req emb (pin_of classifier req) sid \<and> nf_scope_id nf = sid \<and>
    row D' i = Some (new_fact_row hash i nf) \<and> db_inv edim D' \<and>
    subtree_of t' (from_nodes (sc_rows (d_scopes D')))"
proof -
  let ?S = "sqlite_storage hash edim"
  from assms(4) obtain emb where emb: "em_embed em (q_content req) = Inr emb"
    and r: "insert_fact_with_embedding ?S ctx now req emb classifier (em_fingerprint em) (D, t) =
      Some (Inr i, (D', t'))"
    by (auto simp: add_fact_def and_then_eq_Inr split: sum.splits)
  from sqls.insert_fact_resolves [OF assms(1-3) r] obtain sid D1 where *:
    "p_ensure_scope_path ?S path D = (Inr sid, D1)"
    "p_insert_fact_atomic ?S (new_fact_of now req emb (pin_of classifier req) sid) (em_fingerprint em)
       (ctx_embed_dim ctx) D1 = (Inr i, D')"
    "db_inv edim D'" "subtree_of t' (from_nodes (sc_rows (d_scopes D')))" "resolve_path t' path = Some sid"
    by blast
  let ?nf = "new_fact_of now req emb (pin_of classifier req) sid"
  from *(2) obtain x D2 where x: "record_if_absent (em_fingerprint em) (ctx_embed_dim ctx) D1 = (Inr x, D2)"
    and ins: "fact_insert hash edim ?nf D2 = (Inr i, D')"
    by (auto simp: sqlite_storage_def insert_fact_atomic_def op_bind_Inr)
  have "db_inv edim D1" using sqls.ensure [OF assms(1) *(1)] by blast
  then have "db_inv edim D2" by (rule keepsD [OF keeps_record_if_absent _ x])
  from fact_insert_ok(3) [OF this ins, of i] have "row D' i = Some (new_fact_row hash i ?nf)" by simp
  with emb * show ?thesis by (auto simp: new_fact_of_def)
qed

theorem add_fact_scope_resolves_witness:
  "\<exists>D' t' sid f. add_fact (sqlite_storage (\<lambda>s. s) 1) (\<lambda>_. [2]) ex_ctx 5 (ex_request ''x'' (Some ''a/b''))
      ex_embedder None (ex_db, load_scope_tree ex_db) = Some (Inr 3, (D', t')) \<and>
    resolve_path t' ''a/b'' = Some sid \<and> row D' 3 = Some f \<and> f_scope_id f = sid"
proof -
  have t0: "load_scope_tree ex_db = from_nodes (sc_rows (d_scopes ex_db))"
    unfolding load_scope_tree_def
    by (simp add: ex_db_def list_all_scopes_rows [OF init_scopes_inv])
  have sub: "subtree_of (load_scope_tree ex_db) (from_nodes (sc_rows (d_scopes ex_db)))"
    unfolding t0 by (rule subtree_refl [OF scopes_inv_wf [OF db_invD(1) [OF ex_db_inv]]])
  have e: "p_ensure_scope_path (sqlite_storage (\<lambda>s. s) 1) ''a/b'' ex_db =
      (Inr 3, ex_db\<lparr>d_scopes := ex_scopes\<rparr>)"
    by (simp add: ensure_scope_path_def ex_ingest_simps)
  from sqls.hydrates [OF ex_db_inv sub e] obtain t1 where
    "cache_scope_chain (scope_get ex_scopes) (load_scope_tree ex_db) 3 = Some (Inr t1)"
    by (auto simp: sqlite_storage_def)
  note t1 = this [unfolded ex_db_def]
  then obtain D' where r: "add_fact (sqlite_storage (\<lambda>s. s) 1) (\<lambda>_. [2]) ex_ctx 5
      (ex_request ''x'' (Some ''a/b'')) ex_embedder None (ex_db, load_scope_tree ex_db) = Some (Inr 3, (D', t1))"
    by (simp add: add_fact_def ingest_gate_def insert_fact_with_embedding_def insert_fact_atomic_def
        ensure_scope_path_def ex_ingest_simps)
  have "q_scope (ex_request ''x'' (Some ''a/b'')) = Some ''a/b''" by (simp add: ex_request_def)
  from add_fact_scope_resolves [OF ex_db_inv sub this r] obtain sid nf where
    "resolve_path t1 ''a/b'' = Some sid" "nf_scope_id nf = sid" "row D' 3 = Some (new_fact_row (\<lambda>s. s) 3 nf)"
    by blast
  with r show ?thesis
    by (intro exI [of _ D'] exI [of _ t1] exI [of _ sid] exI [of _ "new_fact_row (\<lambda>s. s) 3 nf"])
      (simp add: new_fact_row_def)
qed


text \<open>\<open>add_facts_batch_partial\<close> answers every entry at its own position: the error of a request
  that fails validation, and otherwise the id the valid entries would get from \<open>add_facts_batch\<close>.\<close>

theorem partial_batch_positions:
  assumes "add_facts_batch_partial S chunks ctx now entries em classifier st = (Inr rs, st')"
  shows "length rs = length entries \<and>
    (\<forall>i e. i < length entries \<longrightarrow> validate_add_fact_request chunks (entries ! i) = Inl e \<longrightarrow> rs ! i = Inl e) \<and>
    (\<exists>ids. (\<forall>i < length entries. is_ok (validate_add_fact_request chunks (entries ! i)) \<longrightarrow>
        rs ! i = Inr (ids ! length (filter (\<lambda>x. is_ok (validate_add_fact_request chunks x)) (take i entries)))) \<and>
      (filter (\<lambda>x. is_ok (validate_add_fact_request chunks x)) entries \<noteq> [] \<longrightarrow>
        add_facts_batch S chunks ctx now
          (filter (\<lambda>x. is_ok (validate_add_fact_request chunks x)) entries) em classifier st = (Inr ids, st')))"
  using partial_batch_ok [OF assms] by blast

theorem partial_batch_positions_witness:
  "\<exists>rs st'. add_facts_batch_partial (sqlite_storage (\<lambda>s. s) 1) (\<lambda>_. [2]) ex_ctx 5
      [ex_request (replicate 1048577 (CHR ''x'')) None, ex_request ''y'' None] ex_embedder None
      (ex_db, load_scope_tree ex_db) = (Inr rs, st') \<and> length rs = 2"
proof -
  obtain rs st' where r: "add_facts_batch_partial (sqlite_storage (\<lambda>s. s) 1) (\<lambda>_. [2]) ex_ctx 5
      [ex_request (replicate 1048577 (CHR ''x'')) None, ex_request ''y'' None] ex_embedder None
      (ex_db, load_scope_tree ex_db) = (Inr rs, st')"
    by (simp add: add_facts_batch_partial_def validation_of_def insert_validated_batch_def compute_batch_pins_eq
        insert_facts_batch_atomic_def batch_insert_savepoint_def cache_leaves_def ex_ingest_simps)
  from partial_batch_positions [OF r] r show ?thesis by auto
qed

text \<open>Classifying a batch, which asks the classifier once for the entries without an explicit
  choice and stitches the answers in, gives every entry the pin a single \<open>add_fact\<close> would.\<close>

theorem batch_pins_equal_single:
  "compute_batch_pins entries classifier = map (pin_of classifier) entries"
  by (rule compute_batch_pins_eq)

text \<open>A JSON value passes the size check just when the total its serialiser writes is within the
  limit, although the counting sink stops at the first write past it.\<close>

theorem json_size_check_exact:
  "check_json_size chunks value kind = Inr () \<longleftrightarrow> sum_list (chunks value) \<le> max_payload_bytes"
  using serialized_len_ok [of 0 max_payload_bytes "chunks value"]
  by (auto simp: check_json_size_def split: sum.split)

end
