(* ===== verification/Query_Properties.thy ===== *)
theory Query_Properties
  imports Examples
begin

text \<open>
  Properties of retrieval: what the vector search, the fusion of rankings and the composed queries
  return, that reranking cannot panic, and two ways in which a composed query loses facts it accepts.
\<close>

subsection \<open>Search\<close>

text \<open>The cosine similarity of finite embeddings is a finite number in [-1, 1], zero vectors and
  vectors of different lengths included.\<close>

theorem cosine_similarity_bounded:
  assumes "list_all fl_is_finite a" "list_all fl_is_finite b"
  shows "\<exists>x. cosine_similarity a b = Fin x \<and> -1 \<le> x \<and> x \<le> 1"
  by (rule cosine_bounds [OF assms])

theorem cosine_similarity_bounded_witness:
  "\<exists>x. cosine_similarity [Fin 3, Fin 4] [Fin (-1)] = Fin x \<and> x \<le> 1"
  using cosine_similarity_bounded [of "[Fin 3, Fin 4]" "[Fin (-1)]"] by auto

text \<open>The WHERE clause \<open>build_filter_sql\<close> makes of a filter selects exactly the rows the filter
  means.\<close>

theorem filter_sql_selects:
  assumes "build_filter_sql jt flt = Inr preds"
  shows "where_clause preds f = filter_holds jt flt f"
  by (rule build_filter_sql_selects [OF assms])

theorem filter_sql_selects_witness:
  "\<exists>preds. build_filter_sql (\<lambda>_. []) (default_filter\<lparr>ff_fact_type := Some Semantic\<rparr>) = Inr preds \<and>
    \<not> where_clause preds (ex_fact 1 ''a'')"
proof -
  let ?flt = "default_filter\<lparr>ff_fact_type := Some Semantic\<rparr>"
  from build_filter_sql_ok [of "\<lambda>_. []" ?flt] obtain preds where p: "build_filter_sql (\<lambda>_. []) ?flt = Inr preds"
    by (auto simp: default_filter_def)
  have "\<not> filter_holds (\<lambda>_. []) ?flt (ex_fact 1 ''a'')" by (simp add: filter_holds_def ex_fact_def)
  with p filter_sql_selects [OF p, of "ex_fact 1 ''a''"] show ?thesis by blast
qed

text \<open>The filtered vector search returns the best matches: distinct facts that satisfy the filter,
  scored by cosine similarity in falling order, as many as there are up to the limit, and no fact
  that satisfies the filter and is left out beats one that is returned.\<close>

theorem vector_search_exact:
  assumes "db_inv edim D" "length q = edim" "list_all fl_is_finite q"
    and "\<forall>f \<in> set (d_facts D). list_all fl_is_finite (f_embedding f)"
    and "list_all admissible (ff_metadata flt)"
  shows "\<exists>rs. vector_search jt edim D q flt k = Inr rs \<and> distinct (map fst rs) \<and>
    sorted_wrt (\<lambda>a b. fl_val (snd a) \<ge> fl_val (snd b)) rs \<and>
    length rs = min k (length (filter (filter_holds jt flt) (d_facts D))) \<and>
    (\<forall>(i, s) \<in> set rs. \<exists>f \<in> set (d_facts D). f_id f = i \<and> filter_holds jt flt f \<and>
       s = cosine_similarity q (f_embedding f)) \<and>
    (\<forall>f \<in> set (d_facts D). filter_holds jt flt f \<longrightarrow> f_id f \<notin> fst ` set rs \<longrightarrow>
       (\<forall>(i, s) \<in> set rs. fl_val (cosine_similarity q (f_embedding f)) \<le> fl_val s))"
  using vector_search_ok [OF assms(1-3) _ assms(5)] assms(4) by blast

theorem vector_search_exact_witness:
  "\<exists>rs. vector_search (\<lambda>_. []) 1 ex_db [Fin 1] default_filter 1 = Inr rs \<and> length rs = 1"
proof -
  have "\<forall>f \<in> set (d_facts ex_db). list_all fl_is_finite (f_embedding f)"
    "list_all admissible (ff_metadata default_filter)"
    by (simp_all add: ex_db_def ex_fact_def default_filter_def)
  moreover have "length (filter (filter_holds (\<lambda>_. []) default_filter) (d_facts ex_db)) = 2"
    by (simp add: ex_db_def ex_fact_def filter_holds_def default_filter_def is_active_row_def)
  ultimately show ?thesis
    using vector_search_exact [OF ex_db_inv, of "[Fin 1]" default_filter "\<lambda>_. []" 1] by auto
qed

subsection \<open>Rank fusion\<close>

text \<open>Reciprocal rank fusion returns every fact of either ranking once, with the sum of its
  reciprocal ranks as score, by falling score.\<close>

theorem rrf_merge_correct:
  "distinct (map fst (rrf_merge fts vec k)) \<and>
   fst ` set (rrf_merge fts vec k) = fst ` set fts \<union> fst ` set vec \<and>
   (\<forall>(i, s) \<in> set (rrf_merge fts vec k).
      s = Fin (rrf_score k (map fst fts) i + rrf_score k (map fst vec) i)) \<and>
   sorted_wrt (\<lambda>a b. fl_val (snd a) \<ge> fl_val (snd b)) (rrf_merge fts vec k)"
proof (intro conjI)
  show "\<forall>(i, s) \<in> set (rrf_merge fts vec k).
      s = Fin (rrf_score k (map fst fts) i + rrf_score k (map fst vec) i)"
    using rrf_merge_ok(3) by fast
qed (rule rrf_merge_ok)+

theorem rrf_merge_correct_witness:
  "fst ` set (rrf_merge [(1, Fin 1), (2, Fin 1)] [(3, Fin 1)] 60) = {1, 2, 3}"
proof -
  have "fst ` set (rrf_merge [(1, Fin 1), (2, Fin 1)] [(3, Fin 1)] 60) =
      fst ` set [(1, Fin 1), (2, Fin 1)] \<union> fst ` set [(3, Fin 1)]"
    using rrf_merge_correct by blast
  then show ?thesis by auto
qed

text \<open>Fusion respects agreement: a fact that is ahead of another in both rankings stays ahead.\<close>

theorem rrf_respects_agreement:
  assumes "distinct (map fst fts)" "distinct (map fst vec)"
    and "p < q" "q < length fts" "fst (fts ! p) = a" "fst (fts ! q) = b"
    and "p' < q'" "q' < length vec" "fst (vec ! p') = a" "fst (vec ! q') = b"
    and "k + max q q' + 1 \<le> u32_max"
  shows "\<exists>u v. u < v \<and> v < length (rrf_merge fts vec k) \<and>
    fst (rrf_merge fts vec k ! u) = a \<and> fst (rrf_merge fts vec k ! v) = b"
  by (rule rrf_agreement [OF assms])

theorem rrf_respects_agreement_witness:
  "\<exists>u v. u < v \<and> fst (rrf_merge [(7, Fin 1), (8, Fin 1)] [(9, Fin 1), (7, Fin 1), (8, Fin 1)] 60 ! u) = 7 \<and>
    fst (rrf_merge [(7, Fin 1), (8, Fin 1)] [(9, Fin 1), (7, Fin 1), (8, Fin 1)] 60 ! v) = 8"
  using rrf_respects_agreement [of "[(7, Fin 1), (8, Fin 1)]" "[(9, Fin 1), (7, Fin 1), (8, Fin 1)]"
    0 1 7 8 1 2 60] by (auto simp: u32_max_def)

subsection \<open>Reranking\<close>

text \<open>C40: the consumer's reranker cannot make a query panic: for every port, reranker and tree the
  query returns a result or an error; the output is checked so that each candidate is taken at most once.\<close>

theorem query_never_panics:
  "query P ctx t reranker now q s \<noteq> None"
  by (rule query_total)

subsection \<open>Composed queries\<close>

text \<open>A full-text index that matches every row and ranks by insertion order, and a store with a fact
  that was valid from 2 to 4, of lower rank than an unpinned fact without an end.\<close>

definition ex_fts :: fts5 where
  "ex_fts = \<lparr>fts_accepts = (\<lambda>_. True), fts_bm25 = (\<lambda>_ _ f. Some (Fin (of_int (f_id f))))\<rparr>"

definition ex_timed :: fact where
  "ex_timed = (ex_fact 2 ''b'')\<lparr>f_t_valid := Some 2, f_t_invalid := Some 4, f_is_pinned := True\<rparr>"

definition ex_query_db :: db where
  "ex_query_db = ex_db\<lparr>d_facts := [ex_fact 1 ''a'', ex_timed], d_edges := []\<rparr>"

lemma ex_query_inv: "db_inv 1 ex_query_db"
  by (simp add: db_inv_def ex_query_db_def ex_db_def init_scopes_inv fact_row_ok_def edge_row_ok_def
      ex_fact_def ex_timed_def scope_ids_of_def fact_ids_of_def) (simp add: init_scopes_def)

definition ex_text_query :: memory_query where
  "ex_text_query = memory_query_new\<lparr>mq_text := Some ''q''\<rparr>"

lemmas ex_query_simps = execute_query_def ex_ctx_def ensure_open_def and_then_def validate_memory_query_def
  ex_text_query_def memory_query_new_def has_period_def resolve_query_scope_ids_def has_search_def
  execute_search_path_def infer_search_mode_def search_query_new_def port_hybrid_search_def
  sqlite_search_def lexical_search_def build_filter_sql_def fts_search_filtered_def fts_matches_def
  ex_fts_def ex_query_db_def ex_timed_def ex_fact_def assemble_results_def Let_def
  push_id_membership_def default_filter_def where_clause_def is_active_row_def
  sort_by_def asc_by_def sql_limit_def get_many_def select_facts_def row_to_fact_def target_limit_def
  effective_limit_def default_limit_def query_cutoff_def search_post_filters_def fact_overlaps_period_def
  sat_mul_usize_def usize_max_def map_filter_def i64_max_def
  query_def validate_reranker_output_def execute_store_path_def store_post_filters_def
  list_active_in_period_def list_active_in_period_inner_def desc_by_def fact_to_search_result_def
  importance_then_id_def in_scopes_def

text \<open>C3: every fact a composed query returns from the SQLite store is a row of the table and passes
  every filter of the query (active, type, scope, importance, pinned, period or point in time); no
  fact is returned twice and the limit is respected.\<close>

theorem composed_query_sound:
  assumes "db_inv edim D"
    and "execute_query (sqlite_search F jt edim) ctx max_utc now t q D = Inr (Executed resp)"
  shows "\<exists>is. resolve_query_scope_ids t (mq_scope q) = Some is \<and>
    length (qr_results resp) \<le> effective_limit q \<and>
    distinct (map (\<lambda>r. f_id (sr_fact r)) (qr_results resp)) \<and>
    (\<forall>sr \<in> set (qr_results resp). sr_fact sr \<in> set (d_facts D) \<and> accepts now q is (sr_fact sr))"
  using sqlq.execute_query_results [OF assms] by blast

theorem composed_query_sound_witness:
  "\<exists>resp. execute_query (sqlite_search ex_fts (\<lambda>_. []) 1) ex_ctx 1000 3 empty_tree ex_text_query ex_query_db
      = Inr (Executed resp) \<and> map (\<lambda>r. f_id (sr_fact r)) (qr_results resp) = [1, 2] \<and>
    (\<forall>sr \<in> set (qr_results resp). accepts 3 ex_text_query None (sr_fact sr))"
proof -
  obtain resp where r: "execute_query (sqlite_search ex_fts (\<lambda>_. []) 1) ex_ctx 1000 3 empty_tree ex_text_query
      ex_query_db = Inr (Executed resp)" "map (\<lambda>r. f_id (sr_fact r)) (qr_results resp) = [1, 2]"
    by (simp add: ex_query_simps)
  have "resolve_query_scope_ids empty_tree (mq_scope ex_text_query) = Some None" by (simp add: ex_query_simps)
  with composed_query_sound [OF ex_query_inv r(1)] r show ?thesis by auto
qed

text \<open>The same for the reranking query: at most \<open>limit\<close> distinct rows of the right type and scope,
  active and valid at the requested time.\<close>

theorem ranked_query_sound:
  assumes "db_inv edim D" "query (sqlite_search F jt edim) ctx t reranker now q D = Some (Inr rs)"
  shows "length rs \<le> sq_limit q \<and> distinct (map (\<lambda>r. f_id (sr_fact r)) rs) \<and>
    (\<forall>sr \<in> set rs. \<exists>is. resolve_query_scope_ids t (sq_scope q) = Some is \<and>
      sr_fact sr \<in> set (d_facts D) \<and> selected (sq_fact_type q) is (sr_fact sr) \<and>
      valid_at (case sq_valid_at q of Some t \<Rightarrow> t | None \<Rightarrow> now) (sr_fact sr))"
  using sqlq.query_results [OF assms] by blast

theorem ranked_query_sound_witness:
  "\<exists>rs. query (sqlite_search ex_fts (\<lambda>_. []) 1) ex_ctx empty_tree
      (Some (\<lambda>_ _. Inr [(1, Fin 1), (0, Fin (1/2))])) 3
      ((search_query_new FtsMode 5)\<lparr>sq_text := Some ''q''\<rparr>) ex_query_db = Some (Inr rs) \<and>
    map (\<lambda>r. f_id (sr_fact r)) rs = [2, 1] \<and> length rs \<le> 5"
proof -
  obtain rs where r: "query (sqlite_search ex_fts (\<lambda>_. []) 1) ex_ctx empty_tree
      (Some (\<lambda>_ _. Inr [(1, Fin 1), (0, Fin (1/2))])) 3
      ((search_query_new FtsMode 5)\<lparr>sq_text := Some ''q''\<rparr>) ex_query_db = Some (Inr rs)"
    "map (\<lambda>r. f_id (sr_fact r)) rs = [2, 1]"
    by (simp add: ex_query_simps)
  from ranked_query_sound [OF ex_query_inv r(1)] r show ?thesis by (simp add: search_query_new_def)
qed

text \<open>C8: with a period the text and vector path passes the greatest timestamp as the instant of
  validity, to switch the check off. It does not: a fact with an end, however well the period
  overlaps its validity, is never returned. The path without a search does return it.\<close>

theorem period_search_drops_ended_facts:
  assumes "db_inv edim D" "has_search q" "has_period q"
    and "execute_query (sqlite_search F jt edim) ctx max_utc now t q D = Inr (Executed resp)"
  shows "\<forall>sr \<in> set (qr_results resp). \<forall>ti. f_t_invalid (sr_fact sr) = Some ti \<longrightarrow> max_utc < ti"
  using sqlq.execute_query_results [OF assms(1,4)] assms(2,3)
  by (fastforce simp: valid_at_def split: option.splits)

theorem period_search_drops_ended_facts_witness:
  "\<exists>q q' resp resp'. execute_query (sqlite_search ex_fts (\<lambda>_. []) 1) ex_ctx 1000 5 empty_tree q ex_query_db
      = Inr (Executed resp) \<and>
    execute_query (sqlite_search ex_fts (\<lambda>_. []) 1) ex_ctx 1000 5 empty_tree q' ex_query_db
      = Inr (Executed resp') \<and>
    q' = q\<lparr>mq_text := None\<rparr> \<and> accepts 5 q None ex_timed \<and>
    ex_timed \<notin> sr_fact ` set (qr_results resp) \<and> ex_timed \<in> sr_fact ` set (qr_results resp')"
proof -
  let ?q = "ex_text_query\<lparr>mq_period_start := Some 1, mq_period_end := Some 5\<rparr>"
  obtain resp resp' where
    r: "execute_query (sqlite_search ex_fts (\<lambda>_. []) 1) ex_ctx 1000 5 empty_tree ?q ex_query_db
      = Inr (Executed resp)"
    and r': "execute_query (sqlite_search ex_fts (\<lambda>_. []) 1) ex_ctx 1000 5 empty_tree
      (?q\<lparr>mq_text := None\<rparr>) ex_query_db = Inr (Executed resp')" "ex_timed \<in> sr_fact ` set (qr_results resp')"
    by (simp add: ex_query_simps)
  have "has_search ?q" "has_period ?q" by (simp_all add: ex_query_simps)
  note dropped = period_search_drops_ended_facts [OF ex_query_inv this r]
  have "f_t_invalid ex_timed = Some 4" by (simp add: ex_timed_def)
  with dropped have "ex_timed \<notin> sr_fact ` set (qr_results resp)" by force
  moreover have "accepts 5 ?q None ex_timed" by (simp add: accepts_def selected_def ex_query_simps)
  ultimately show ?thesis using r r' by blast
qed


end
