(* ===== verification/Upcaster.thy ===== *)
theory Upcaster
  imports Domain_Types "HOL-Library.Word"
begin

text \<open>
  The event vocabulary, \<open>me-types/src/types/events.rs\<close>, and the registry of payload upcasters,
  \<open>me-storage/src/upcaster.rs\<close>. A revision is a \<open>u16\<close>, so its arithmetic is that of 16-bit words.
  An upcaster function is the consumer's.

  The lemmas show that the loop ends and never wraps, that it is the composition of the functions
  registered from the stored revision up to the latest one, and what a gap in the chain gives.
\<close>

datatype event_type = Interaction | ToolCall | MemoryOp | SystemEvent | OutcomeSignal

fun event_type_display :: "event_type \<Rightarrow> string" where
  "event_type_display Interaction = ''interaction''"
| "event_type_display ToolCall = ''tool_call''"
| "event_type_display MemoryOp = ''memory_op''"
| "event_type_display SystemEvent = ''system_event''"
| "event_type_display OutcomeSignal = ''outcome_signal''"

definition event_type_from_str :: "string \<Rightarrow> string + event_type" where
  \<comment> \<open>the error carries the offending token (\<open>ParseEventTypeError\<close>)\<close>
  "event_type_from_str s =
     (if eq_ignore_ascii_case s ''Interaction'' then Inr Interaction
      else if eq_ignore_ascii_case s ''ToolCall'' \<or> eq_ignore_ascii_case s ''tool_call'' then Inr ToolCall
      else if eq_ignore_ascii_case s ''MemoryOp'' \<or> eq_ignore_ascii_case s ''memory_op'' then Inr MemoryOp
      else if eq_ignore_ascii_case s ''SystemEvent'' \<or> eq_ignore_ascii_case s ''system_event''
        then Inr SystemEvent
      else if eq_ignore_ascii_case s ''OutcomeSignal'' \<or> eq_ignore_ascii_case s ''outcome_signal''
        then Inr OutcomeSignal
      else Inl s)"

text \<open>The form stored in the table.\<close>

fun event_type_to_str :: "event_type \<Rightarrow> string" where
  "event_type_to_str Interaction = ''Interaction''"
| "event_type_to_str ToolCall = ''ToolCall''"
| "event_type_to_str MemoryOp = ''MemoryOp''"
| "event_type_to_str SystemEvent = ''SystemEvent''"
| "event_type_to_str OutcomeSignal = ''OutcomeSignal''"

definition str_to_event_type :: "string \<Rightarrow> event_type result" where
  "str_to_event_type s =
     (if s = ''Interaction'' then Inr Interaction
      else if s = ''ToolCall'' then Inr ToolCall
      else if s = ''MemoryOp'' then Inr MemoryOp
      else if s = ''SystemEvent'' then Inr SystemEvent
      else if s = ''OutcomeSignal'' then Inr OutcomeSignal
      else Inl (Internal (Fmt ''corrupt stored event_type: {}'' [AStr s])))"

datatype outcome = Positive | Negative | Neutral

fun outcome_display :: "outcome \<Rightarrow> string" where
  "outcome_display Positive = ''positive''"
| "outcome_display Negative = ''negative''"
| "outcome_display Neutral = ''neutral''"

definition outcome_from_str :: "string \<Rightarrow> string + outcome" where
  "outcome_from_str s =
     (if eq_ignore_ascii_case s ''positive'' then Inr Positive
      else if eq_ignore_ascii_case s ''negative'' then Inr Negative
      else if eq_ignore_ascii_case s ''neutral'' then Inr Neutral
      else Inl s)"

lemma event_type_display_parse: "event_type_from_str (event_type_display et) = Inr et"
  by (cases et; hypsubst, code_simp)

lemma event_type_str_parse: "event_type_from_str (event_type_to_str et) = Inr et"
  by (cases et; hypsubst, code_simp)

lemma event_type_stored: "str_to_event_type (event_type_to_str et) = Inr et"
  by (cases et; simp add: str_to_event_type_def)

lemma outcome_display_parse: "outcome_from_str (outcome_display oc) = Inr oc"
  by (cases oc; hypsubst, code_simp)

subsection \<open>The registry\<close>

type_synonym revision = "16 word"
type_synonym upcaster_fn = "json \<Rightarrow> json result"

record upcaster_registry =
  ur_upcasters :: "(string \<times> (revision \<times> upcaster_fn) list) list"
  ur_latest :: "(string \<times> revision) list"

definition registry_new :: upcaster_registry where
  "registry_new = \<lparr>ur_upcasters = [], ur_latest = []\<rparr>"

definition registered_count :: "upcaster_registry \<Rightarrow> nat" where
  "registered_count R = sum_list (map (length \<circ> snd) (ur_upcasters R))"

definition sat_succ_u16 :: "revision \<Rightarrow> revision" where
  \<comment> \<open>\<open>saturating_add(1)\<close>\<close>
  "sat_succ_u16 r = (if r = - 1 then r else r + 1)"

definition latest_revision :: "upcaster_registry \<Rightarrow> string \<Rightarrow> revision" where
  "latest_revision R et = (case map_of (ur_latest R) et of Some r \<Rightarrow> r | None \<Rightarrow> 1)"

definition register :: "string \<Rightarrow> revision \<Rightarrow> upcaster_fn \<Rightarrow> upcaster_registry \<Rightarrow> upcaster_registry" where
  "register et from_revision func R =
     (let target = sat_succ_u16 from_revision;
          chain = (case map_of (ur_upcasters R) et of Some c \<Rightarrow> c | None \<Rightarrow> []);
          current = latest_revision R et in
      \<lparr>ur_upcasters = AList.update et (AList.update from_revision func chain) (ur_upcasters R),
       ur_latest = AList.update et (if current < target then target else current) (ur_latest R)\<rparr>)"

definition missing_upcaster :: "string \<Rightarrow> revision \<Rightarrow> memory_error" where
  "missing_upcaster et rv = Migration (MissingUpcaster (Fmt
     ''missing upcaster for event type '{}' from revision {} to {}''
     [AStr et, ANat (unat rv), ANat (unat (rv + 1))]))"

definition lookup_upcaster :: "(revision \<times> upcaster_fn) list option \<Rightarrow> revision \<Rightarrow> upcaster_fn option" where
  "lookup_upcaster chain rv = (case chain of None \<Rightarrow> None | Some inner \<Rightarrow> map_of inner rv)"

function upcast_loop ::
    "string \<Rightarrow> (revision \<times> upcaster_fn) list option \<Rightarrow> revision \<Rightarrow> json \<Rightarrow> revision
      \<Rightarrow> (json \<times> revision) result" where
  "upcast_loop et chain latest value rv =
     (if rv < latest then
        (case lookup_upcaster chain rv of
           None \<Rightarrow> Inl (missing_upcaster et rv)
         | Some func \<Rightarrow> and_then (func value) (\<lambda>v. upcast_loop et chain latest v (rv + 1)))
      else Inr (value, rv))"
  by pat_completeness auto

text \<open>Below the latest revision the increment does not wrap, so the distance to it falls.\<close>

lemma unat_succ_below: "(rv :: revision) < latest \<Longrightarrow> unat (rv + 1) = Suc (unat rv)"
proof -
  assume "rv < latest"
  then have "rv \<noteq> - 1" by (metis word_order.extremum_strict)
  then have "1 + rv \<noteq> 0" by (metis add.commute add_eq_0_iff2 add.inverse_inverse eq_neg_iff_add_eq_0)
  then show ?thesis by (metis add.commute unatSuc)
qed

termination upcast_loop
proof (relation "measure (\<lambda>(et, chain, latest, value, rv). unat latest - unat rv)", simp, clarsimp)
  fix latest rv :: revision assume "rv < latest"
  then show "unat latest - unat (rv + 1) < unat latest - unat rv"
    by (simp add: unat_succ_below word_less_nat_alt)
qed

declare upcast_loop.simps [simp del]

definition upcast ::
    "upcaster_registry \<Rightarrow> string \<Rightarrow> revision \<Rightarrow> json \<Rightarrow> (json \<times> revision) result" where
  "upcast R et current_revision payload =
     (let latest = latest_revision R et in
      if latest \<le> current_revision then Inr (payload, current_revision)
      else upcast_loop et (map_of (ur_upcasters R) et) latest payload current_revision)"

subsection \<open>The loop as a composition\<close>

text \<open>
  The reference: the registered functions of a list of revisions, one after another, up to the
  first that is missing or fails.
\<close>

definition upcast_with ::
    "string \<Rightarrow> (revision \<times> upcaster_fn) list option \<Rightarrow> revision \<Rightarrow> json \<Rightarrow> json result" where
  "upcast_with et chain rv v = (case lookup_upcaster chain rv of
      None \<Rightarrow> Inl (missing_upcaster et rv) | Some f \<Rightarrow> f v)"

definition compose_upcasters ::
    "string \<Rightarrow> (revision \<times> upcaster_fn) list option \<Rightarrow> revision list \<Rightarrow> json \<Rightarrow> json result" where
  "compose_upcasters et chain rvs v = foldl (\<lambda>acc rv. and_then acc (upcast_with et chain rv)) (Inr v) rvs"

definition revisions_between :: "revision \<Rightarrow> revision \<Rightarrow> revision list" where
  "revisions_between a b = map of_nat [unat a..<unat b]"

lemma foldl_and_then_Inl: "foldl (\<lambda>acc x. and_then acc (f x)) (Inl e) xs = Inl e"
  by (induction xs) simp_all

lemma compose_upcasters_simps [simp]:
  "compose_upcasters et chain [] v = Inr v"
  "compose_upcasters et chain (rv # rvs) v =
     and_then (upcast_with et chain rv v) (compose_upcasters et chain rvs)"
  by (cases "upcast_with et chain rv v"; simp add: compose_upcasters_def foldl_and_then_Inl)+

lemma revisions_between_Cons:
  "a < b \<Longrightarrow> revisions_between a b = a # revisions_between (a + 1) b"
  by (simp add: revisions_between_def unat_succ_below upt_conv_Cons word_less_nat_alt)

lemma revisions_between_Nil: "\<not> a < b \<Longrightarrow> revisions_between a b = []"
  by (simp add: revisions_between_def word_less_nat_alt)

lemma upcast_loop_composes:
  "upcast_loop et chain latest v rv =
     and_then (compose_upcasters et chain (revisions_between rv latest) v) (\<lambda>w. Inr (w, max rv latest))"
proof (induction et chain latest v rv rule: upcast_loop.induct)
  case (1 et chain latest v rv)
  show ?case
  proof (cases "rv < latest")
    case False
    then show ?thesis
      by (subst upcast_loop.simps) (simp add: revisions_between_Nil max_def)
  next
    case True
    then have m: "max (rv + 1) latest = max rv latest"
      by (metis inc_le max.absorb2 order_less_imp_le)
    show ?thesis
    proof (cases "lookup_upcaster chain rv")
      case None
      with True show ?thesis
        by (subst upcast_loop.simps) (simp add: revisions_between_Cons upcast_with_def)
    next
      case (Some f)
      with "1.IH" [OF True Some] True m show ?thesis
        by (subst upcast_loop.simps)
          (auto simp: revisions_between_Cons upcast_with_def and_then_def split: sum.splits)
    qed
  qed
qed

lemma upcast_composes:
  "upcast R et rv v =
     and_then (compose_upcasters et (map_of (ur_upcasters R) et) (revisions_between rv (latest_revision R et)) v)
       (\<lambda>w. Inr (w, max rv (latest_revision R et)))"
  by (auto simp: upcast_def Let_def upcast_loop_composes revisions_between_Nil max_def)

lemma upcast_at_latest [simp]: "upcast R et (latest_revision R et) v = Inr (v, latest_revision R et)"
  by (simp add: upcast_def)

text \<open>A chain without gaps, of functions that accept every payload, upcasts everything.\<close>

definition chain_total :: "upcaster_registry \<Rightarrow> string \<Rightarrow> revision \<Rightarrow> bool" where
  "chain_total R et rv \<longleftrightarrow> (\<forall>r. rv \<le> r \<and> r < latest_revision R et \<longrightarrow>
     (\<exists>f. lookup_upcaster (map_of (ur_upcasters R) et) r = Some f \<and> (\<forall>v. is_ok (f v))))"

lemma compose_total:
  "(\<And>r. r \<in> set rvs \<Longrightarrow> \<exists>f. lookup_upcaster chain r = Some f \<and> (\<forall>v. is_ok (f v))) \<Longrightarrow>
   \<exists>w. compose_upcasters et chain rvs v = Inr w"
proof (induction rvs arbitrary: v)
  case (Cons r rvs)
  then obtain f w where "lookup_upcaster chain r = Some f" "f v = Inr w"
    by (metis is_ok_iff list.set_intros(1))
  then have "compose_upcasters et chain (r # rvs) v = compose_upcasters et chain rvs w"
    by (simp add: upcast_with_def)
  moreover have "\<exists>x. compose_upcasters et chain rvs w = Inr x"
    by (rule Cons.IH) (simp add: Cons.prems)
  ultimately show ?case by simp
qed simp

lemma revisions_between_bounds:
  assumes "r \<in> set (revisions_between a b)"
  shows "a \<le> r \<and> r < b"
proof -
  from assms obtain n where n: "r = of_nat n" "unat a \<le> n" "n < unat b"
    by (auto simp: revisions_between_def)
  have "unat b < 2 ^ LENGTH(16)" by (rule unsigned_less)
  with n(3) have "n < 2 ^ LENGTH(16)" by (rule order.strict_trans)
  then have "unat r = n" by (simp add: n(1) unat_of_nat take_bit_nat_eq_self)
  with n show ?thesis by (simp add: word_le_nat_alt word_less_nat_alt)
qed

lemma upcast_total:
  assumes "chain_total R et rv"
  shows "\<exists>w. upcast R et rv v = Inr (w, max rv (latest_revision R et))"
proof -
  have "\<exists>w. compose_upcasters et (map_of (ur_upcasters R) et)
      (revisions_between rv (latest_revision R et)) v = Inr w"
    by (rule compose_total) (use assms in \<open>simp add: chain_total_def revisions_between_bounds\<close>)
  then show ?thesis by (auto simp: upcast_composes)
qed

text \<open>The latest revision stays above every registered function.\<close>

definition registry_ok :: "upcaster_registry \<Rightarrow> bool" where
  "registry_ok R \<longleftrightarrow> (\<forall>et c r f. map_of (ur_upcasters R) et = Some c \<longrightarrow> map_of c r = Some f \<longrightarrow>
     sat_succ_u16 r \<le> latest_revision R et)"

lemma registry_new_ok [simp]: "registry_ok registry_new"
  by (simp add: registry_ok_def registry_new_def)

lemma latest_register:
  "latest_revision (register et r f R) et' =
     (if et' = et then max (latest_revision R et) (sat_succ_u16 r) else latest_revision R et')"
  by (cases "latest_revision R et < sat_succ_u16 r")
    (auto simp: register_def Let_def update_conv' max_def latest_revision_def [of "\<lparr>ur_upcasters = _, ur_latest = _\<rparr>"]
      latest_revision_def [of R et'])

lemma register_ok: "registry_ok R \<Longrightarrow> registry_ok (register et r f R)"
  unfolding registry_ok_def latest_register
  by (auto simp: register_def Let_def update_conv' le_max_iff_disj split: if_splits option.splits)

end
