(* ===== verification/Log_Store.thy ===== *)
theory Log_Store
  imports Fact_Store Upcaster
begin

text \<open>
  The tables beside facts, edges and scopes: the append-only event log
  (\<open>me-backend-sqlite/src/store/events.rs\<close>), the lineage of promoted facts (\<open>store/lineage.rs\<close>) and
  the key-value configuration (\<open>store/schema/config.rs\<close>). \<open>log_store\<close> adds them to \<open>db\<close>, which of
  an event keeps the id and the session only; \<open>log_inv\<close> says that the two agree.

  Times are stored as RFC 3339 text whose order is that of the instants. A provenance is stored as
  JSON, where a confidence that is not finite is written as null and cannot be read back.
\<close>

record event =
  ev_id :: int
  ev_timestamp :: time
  ev_event_type :: event_type
  ev_payload :: json
  ev_source :: string
  ev_session_id :: "string option"
  ev_scope_id :: int
  ev_origin_node_id :: string
  ev_sequence_id :: int
  ev_created_at :: "time option"
  ev_event_revision :: revision

record new_event =
  nv_timestamp :: time
  nv_event_type :: event_type
  nv_payload :: json
  nv_source :: string
  nv_session_id :: "string option"
  nv_scope_id :: int
  nv_origin_node_id :: string
  nv_sequence_id :: int
  nv_created_at :: "time option"

record event_filter =
  el_since :: "time option"
  el_until :: "time option"
  el_session_id :: "string option"
  el_event_type :: "event_type option"
  el_source :: "string option"
  el_id_min :: "int option"
  el_id_max :: "int option"
  el_limit :: "nat option"
  el_order_by_id :: bool

record promotion_provenance =
  pp_source_count :: nat
  pp_session_count :: nat
  pp_date_range_start :: time
  pp_date_range_end :: time
  pp_confidence :: fl
  pp_method_version :: string
  pp_representative_ids :: "fact_id list"

record lineage_row =
  li_lineage_id :: int
  li_wisdom_fact_id :: fact_id
  li_source_fact_ids :: "fact_id list"
  li_provenance :: promotion_provenance

record log_store =
  lg_db :: db
  lg_events :: "event list"
  lg_lineage :: "lineage_row list"
  lg_lineage_seq :: int
  lg_config :: "(string \<times> string) list"

definition on_tables :: "(db, 'a) op \<Rightarrow> (log_store, 'a) op" where
  \<comment> \<open>an operation on facts, edges and scopes, on the same connection\<close>
  "on_tables m L = (case m (lg_db L) of (r, D) \<Rightarrow> (r, L\<lparr>lg_db := D\<rparr>))"

subsection \<open>The event log\<close>

definition new_event_row :: "upcaster_registry \<Rightarrow> int \<Rightarrow> new_event \<Rightarrow> event" where
  "new_event_row R i nv =
     \<lparr>ev_id = i, ev_timestamp = nv_timestamp nv, ev_event_type = nv_event_type nv,
      ev_payload = nv_payload nv, ev_source = nv_source nv, ev_session_id = nv_session_id nv,
      ev_scope_id = nv_scope_id nv, ev_origin_node_id = nv_origin_node_id nv,
      ev_sequence_id = nv_sequence_id nv, ev_created_at = nv_created_at nv,
      ev_event_revision = latest_revision R (event_type_to_str (nv_event_type nv))\<rparr>"

definition event_insert :: "upcaster_registry \<Rightarrow> new_event \<Rightarrow> (log_store, int) op" where
  "event_insert R nv L =
     (if nv_scope_id nv \<notin> scope_ids_of (lg_db L) then (Inl foreign_key_error, L)
      else let D = lg_db L; i = d_event_seq D + 1 in
        (Inr i, L\<lparr>lg_db := D\<lparr>d_events := d_events D @ [(i, nv_session_id nv)], d_event_seq := i\<rparr>,
                  lg_events := lg_events L @ [new_event_row R i nv]\<rparr>))"

definition event_get :: "log_store \<Rightarrow> int \<Rightarrow> event result" where
  "event_get L i =
     (case List.find (\<lambda>e. ev_id e = i) (lg_events L) of
        None \<Rightarrow> Inl (NotFound (Fmt ''event {}'' [AInt i]))
      | Some e \<Rightarrow> Inr e)"

definition opt_ok :: "('a \<Rightarrow> bool) \<Rightarrow> 'a option \<Rightarrow> bool" where
  \<comment> \<open>a clause that is only added when the filter sets it\<close>
  "opt_ok p v \<longleftrightarrow> (case v of None \<Rightarrow> True | Some x \<Rightarrow> p x)"

definition event_matches :: "event_filter \<Rightarrow> event \<Rightarrow> bool" where
  \<comment> \<open>the \<open>WHERE\<close> clause of \<open>build_filter_query\<close>\<close>
  "event_matches fl e \<longleftrightarrow>
     opt_ok (\<lambda>t. t \<le> ev_timestamp e) (el_since fl) \<and>
     opt_ok (\<lambda>t. ev_timestamp e \<le> t) (el_until fl) \<and>
     opt_ok (\<lambda>s. ev_session_id e = Some s) (el_session_id fl) \<and>
     opt_ok (\<lambda>t. event_type_to_str (ev_event_type e) = event_type_to_str t) (el_event_type fl) \<and>
     opt_ok (\<lambda>s. ev_source e = s) (el_source fl) \<and>
     opt_ok (\<lambda>i. i \<le> ev_id e) (el_id_min fl) \<and>
     opt_ok (\<lambda>i. ev_id e \<le> i) (el_id_max fl)"

definition event_order :: "event_filter \<Rightarrow> event list \<Rightarrow> event list" where
  "event_order fl es = (if el_order_by_id fl then sort_key ev_id es else sort_key ev_timestamp es)"

definition event_list :: "log_store \<Rightarrow> event_filter \<Rightarrow> event list" where
  "event_list L fl =
     (let es = event_order fl (filter (event_matches fl) (lg_events L)) in
      case el_limit fl of None \<Rightarrow> es | Some n \<Rightarrow> sql_limit n es)"

definition event_for_each :: "(event \<Rightarrow> ('s, unit) op) \<Rightarrow> log_store \<Rightarrow> ('s, unit) op" where
  \<comment> \<open>the callback runs row by row, in the order of the timestamps\<close>
  "event_for_each f L = op_each f (sort_key ev_timestamp (lg_events L))"

definition event_count :: "log_store \<Rightarrow> event_filter \<Rightarrow> nat result" where
  \<comment> \<open>\<open>LIMIT\<close> applies to the single row of the aggregate\<close>
  "event_count L fl =
     (if el_limit fl = Some 0 then Inl (backend_error ''Query returned no rows'')
      else Inr (length (filter (event_matches fl) (lg_events L))))"

definition apply_upcasting :: "upcaster_registry \<Rightarrow> event \<Rightarrow> event result" where
  "apply_upcasting R e =
     and_then (upcast R (event_type_to_str (ev_event_type e)) (ev_event_revision e) (ev_payload e))
       (\<lambda>(payload, rv). Inr (e\<lparr>ev_payload := payload, ev_event_revision := rv\<rparr>))"

definition event_get_upcasted :: "upcaster_registry \<Rightarrow> log_store \<Rightarrow> int \<Rightarrow> event result" where
  "event_get_upcasted R L i = and_then (event_get L i) (apply_upcasting R)"

definition event_list_upcasted :: "upcaster_registry \<Rightarrow> log_store \<Rightarrow> event_filter \<Rightarrow> event list result" where
  "event_list_upcasted R L fl = map_res (apply_upcasting R) (event_list L fl)"

subsection \<open>Lineage\<close>

definition lineage_insert ::
    "fact_id \<Rightarrow> fact_id list \<Rightarrow> promotion_provenance \<Rightarrow> (log_store, int) op" where
  "lineage_insert wisdom sources prov L =
     (let D = lg_db L; uniq = remdups sources;
          found = length (filter (\<lambda>f. f_id f \<in> set uniq) (d_facts D)) in
      if \<not> is_active D wisdom
      then (Inl (Lineage (Fmt ''wisdom fact {} does not exist or is expired; cannot record lineage''
             [AInt wisdom])), L)
      else if sources \<noteq> [] \<and> found \<noteq> length uniq
      then (Inl (Lineage (Fmt ''source_fact_ids contains nonexistent fact IDs (expected {} distinct IDs to exist, found {})''
             [ANat (length uniq), ANat found])), L)
      else if \<exists>r \<in> set (lg_lineage L). li_wisdom_fact_id r = wisdom
      then (Inl (backend_error ''UNIQUE constraint failed: lineage.wisdom_fact_id''), L)
      else let i = lg_lineage_seq L + 1 in
        (Inr i, L\<lparr>lg_lineage := lg_lineage L @ [\<lparr>li_lineage_id = i, li_wisdom_fact_id = wisdom,
             li_source_fact_ids = sources, li_provenance = prov\<rparr>], lg_lineage_seq := i\<rparr>))"

definition lineage_insert_raw :: "lineage_row \<Rightarrow> (log_store, unit) op" where
  "lineage_insert_raw r L =
     (if li_lineage_id r \<in> li_lineage_id ` set (lg_lineage L)
      then (Inl (backend_error ''UNIQUE constraint failed: lineage.lineage_id''), L)
      else if li_wisdom_fact_id r \<in> li_wisdom_fact_id ` set (lg_lineage L)
      then (Inl (backend_error ''UNIQUE constraint failed: lineage.wisdom_fact_id''), L)
      else if li_wisdom_fact_id r \<notin> fact_ids_of (lg_db L) then (Inl foreign_key_error, L)
      else (Inr (), L\<lparr>lg_lineage := sort_key li_lineage_id (lg_lineage L @ [r]),
                     lg_lineage_seq := max (lg_lineage_seq L) (li_lineage_id r)\<rparr>))"

definition no_lineage :: "fact_id \<Rightarrow> memory_error" where
  "no_lineage i = Lineage (Fmt ''no lineage record for wisdom fact {}'' [AInt i])"

definition find_lineage :: "log_store \<Rightarrow> fact_id \<Rightarrow> lineage_row option" where
  "find_lineage L i = List.find (\<lambda>r. li_wisdom_fact_id r = i) (lg_lineage L)"

definition read_provenance :: "lineage_row \<Rightarrow> lineage_row result" where
  "read_provenance r =
     (if fl_is_finite (pp_confidence (li_provenance r)) then Inr r
      else Inl (Serialization (Lit ''invalid type: null, expected f64'')))"

definition get_by_wisdom_fact :: "log_store \<Rightarrow> fact_id \<Rightarrow> lineage_row result" where
  "get_by_wisdom_fact L i = (case find_lineage L i of
      None \<Rightarrow> Inl (no_lineage i) | Some r \<Rightarrow> read_provenance r)"

definition get_source_fact_ids :: "log_store \<Rightarrow> fact_id \<Rightarrow> fact_id list result" where
  "get_source_fact_ids L i = (case find_lineage L i of
      None \<Rightarrow> Inl (no_lineage i) | Some r \<Rightarrow> Inr (li_source_fact_ids r))"

definition lineage_delete :: "fact_id \<Rightarrow> (log_store, bool) op" where
  "lineage_delete i L =
     (Inr (0 < length (filter (\<lambda>r. li_wisdom_fact_id r = i) (lg_lineage L))),
      L\<lparr>lg_lineage := filter (\<lambda>r. li_wisdom_fact_id r \<noteq> i) (lg_lineage L)\<rparr>)"

definition has_lineage :: "log_store \<Rightarrow> fact_id \<Rightarrow> bool" where
  "has_lineage L i \<longleftrightarrow> 0 < length (filter (\<lambda>r. li_wisdom_fact_id r = i) (lg_lineage L))"

definition lineage_for_each :: "(lineage_row \<Rightarrow> ('s, unit) op) \<Rightarrow> log_store \<Rightarrow> ('s, unit) op" where
  "lineage_for_each f L = op_each (\<lambda>r. op_bind (op_of (read_provenance r)) f)
     (sort_key li_lineage_id (lg_lineage L))"

subsection \<open>Configuration\<close>

definition get_config :: "log_store \<Rightarrow> string \<Rightarrow> string option" where
  "get_config L key = map_of (lg_config L) key"

definition list_config :: "log_store \<Rightarrow> (string \<rightharpoonup> string)" where
  "list_config L = map_of (lg_config L)"

definition set_config :: "string \<Rightarrow> string \<Rightarrow> (log_store, unit) op" where
  "set_config key v L = (Inr (), L\<lparr>lg_config := AList.update key v (lg_config L)\<rparr>)"

subsection \<open>The invariant\<close>

definition log_inv :: "nat \<Rightarrow> log_store \<Rightarrow> bool" where
  "log_inv edim L \<longleftrightarrow>
     db_inv edim (lg_db L) \<and> 0 \<le> d_event_seq (lg_db L) \<and>
     d_events (lg_db L) = map (\<lambda>e. (ev_id e, ev_session_id e)) (lg_events L) \<and>
     sorted_wrt (<) (map ev_id (lg_events L)) \<and>
     (\<forall>e \<in> set (lg_events L). 0 < ev_id e \<and> ev_id e \<le> d_event_seq (lg_db L) \<and>
        ev_scope_id e \<in> scope_ids_of (lg_db L)) \<and>
     sorted_wrt (<) (map li_lineage_id (lg_lineage L)) \<and>
     distinct (map li_wisdom_fact_id (lg_lineage L)) \<and>
     (\<forall>r \<in> set (lg_lineage L). li_lineage_id r \<le> lg_lineage_seq L \<and>
        li_wisdom_fact_id r \<in> fact_ids_of (lg_db L))"

text \<open>What a statement on the other tables leaves alone, for the log and the lineage.\<close>

definition log_frame :: "(int \<times> string option) list \<Rightarrow> int \<Rightarrow> int set \<Rightarrow> int set \<Rightarrow> db \<Rightarrow> bool" where
  "log_frame evs n F G D \<longleftrightarrow>
     d_events D = evs \<and> d_event_seq D = n \<and> F \<subseteq> fact_ids_of D \<and> G \<subseteq> scope_ids_of D"

lemma log_frame_self: "log_frame (d_events D) (d_event_seq D) (fact_ids_of D) (scope_ids_of D) D"
  by (simp add: log_frame_def)

lemma fact_ids_of_append [simp]:
  "fact_ids_of (D\<lparr>d_facts := d_facts D @ fs, d_fact_seq := n\<rparr>) = fact_ids_of D \<union> f_id ` set fs"
  by (auto simp: fact_ids_of_def)

lemma log_frame_update_facts:
  assumes "log_frame evs n F G D" "\<And>f. p f \<Longrightarrow> f_id (g f) = f_id f"
  shows "log_frame evs n F G (update_facts p g D)"
  using assms update_facts_ids(2) [of D p g] by (simp add: log_frame_def scope_ids_of_def)

lemma log_frame_keeps [keeps_intros]:
  "keeps (log_frame evs n F G) (fact_insert hash edim nf)"
  "keeps (log_frame evs n F G) (edge_insert ne)"
  "keeps (log_frame evs n F G) (expire_by_fact i now)"
  by (rule keepsI; auto simp: log_frame_def fact_insert_def edge_insert_def expire_by_fact_def Let_def
      fact_ids_of_def scope_ids_of_def split: if_splits option.splits)+

lemma log_frame_update [keeps_intros]:
  "(\<And>f. p f \<Longrightarrow> f_id (g f) = f_id f) \<Longrightarrow> keeps (log_frame evs n F G) (update_or_not_found i p g)"
  by (rule keepsI) (auto simp: update_or_not_found_def split: if_splits intro: log_frame_update_facts)

lemma log_frame_updates [keeps_intros]:
  "keeps (log_frame evs n F G) (fact_expire i now)"
  "keeps (log_frame evs n F G) (merge_metadata i patch)"
  unfolding fact_expire_def merge_metadata_def
  by (rule log_frame_update, simp, cases patch) (auto intro!: keeps_intros)

lemma log_frame_importance [keeps_intros]:
  "keeps (log_frame evs n F G) (update_base_importance i v)"
proof (rule keepsI)
  fix D r D' assume I: "log_frame evs n F G D" and r: "update_base_importance i v D = (r, D')"
  have "keeps (log_frame evs n F G)
      (update_or_not_found i (\<lambda>f. f_id f = i) (\<lambda>f. f\<lparr>f_base_importance := v\<rparr>))"
    by (intro keeps_intros) simp
  from keepsD [OF this I] r I show "log_frame evs n F G D'"
    by (auto simp: update_base_importance_def split: if_splits)
qed

lemma log_frame_marks [keeps_intros]:
  "keeps (log_frame evs n F G) (mark_dream_cycled rfc3339 ids cycle_id now)"
  unfolding mark_dream_cycled_def by (intro keeps_intros)

lemma keeps_on_tables:
  assumes "keeps (db_inv edim) m" "\<And>evs n F G. keeps (log_frame evs n F G) m"
  shows "keeps (log_inv edim) (on_tables m)"
proof (rule keepsI)
  fix L r L' assume inv: "log_inv edim L" and r: "on_tables m L = (r, L')"
  then obtain D where D: "m (lg_db L) = (r, D)" and L': "L' = L\<lparr>lg_db := D\<rparr>"
    by (auto simp: on_tables_def split: prod.splits)
  have "db_inv edim D" using keepsD [OF assms(1) _ D] inv by (simp add: log_inv_def)
  moreover have "log_frame (d_events (lg_db L)) (d_event_seq (lg_db L)) (fact_ids_of (lg_db L))
      (scope_ids_of (lg_db L)) D"
    by (rule keepsD [OF assms(2) log_frame_self D])
  ultimately show "log_inv edim L'"
    using inv by (auto simp: log_inv_def log_frame_def L')
qed

lemma db_inv_new_event:
  "db_inv edim D \<Longrightarrow> d_events D = evs \<Longrightarrow>
    db_inv edim (D\<lparr>d_events := evs @ es, d_event_seq := n\<rparr>)"
  by (auto simp: db_inv_def list_all_iff fact_row_ok_def edge_row_ok_def scope_ids_of_def fact_ids_of_def)

lemma keeps_event_insert [keeps_intros]: "keeps (log_inv edim) (event_insert R nv)"
proof (rule keepsI)
  fix L r L' assume inv: "log_inv edim L" and r: "event_insert R nv L = (r, L')"
  show "log_inv edim L'"
  proof (cases "nv_scope_id nv \<in> scope_ids_of (lg_db L)")
    case False
    with r inv show ?thesis by (simp add: event_insert_def)
  next
    case True
    have "\<forall>e \<in> set (lg_events L). ev_id e < d_event_seq (lg_db L) + 1"
      using inv by (fastforce simp: log_inv_def)
    moreover have "db_inv edim (lg_db L')"
      using True r inv by (auto simp: event_insert_def Let_def log_inv_def simp del: fact_ids_of_append
          intro: db_inv_new_event)
    ultimately show ?thesis
      using True r inv
      by (fastforce simp: event_insert_def Let_def log_inv_def new_event_row_def sorted_wrt_append
          scope_ids_of_def fact_ids_of_def)
  qed
qed

lemma keeps_set_config [keeps_intros]: "keeps (log_inv edim) (set_config key v)"
  by (rule keepsI) (auto simp: set_config_def log_inv_def)

lemma keeps_lineage_insert [keeps_intros]: "keeps (log_inv edim) (lineage_insert wisdom sources prov)"
proof (rule keepsI)
  fix L r L' assume inv: "log_inv edim L" and r: "lineage_insert wisdom sources prov L = (r, L')"
  show "log_inv edim L'"
  proof (cases r)
    case (Inl e)
    with r have "L' = L" by (auto simp: lineage_insert_def Let_def split: if_splits)
    with inv show ?thesis by simp
  next
    case (Inr i)
    with r have act: "is_active (lg_db L) wisdom"
      and new: "\<forall>r \<in> set (lg_lineage L). li_wisdom_fact_id r \<noteq> wisdom"
      and L': "L' = L\<lparr>lg_lineage := lg_lineage L @ [\<lparr>li_lineage_id = lg_lineage_seq L + 1,
             li_wisdom_fact_id = wisdom, li_source_fact_ids = sources, li_provenance = prov\<rparr>],
             lg_lineage_seq := lg_lineage_seq L + 1\<rparr>"
      by (auto simp: lineage_insert_def Let_def split: if_splits)
    from act have "wisdom \<in> fact_ids_of (lg_db L)" by (auto simp: is_active_def fact_ids_of_def)
    moreover have "\<forall>r \<in> set (lg_lineage L). li_lineage_id r < lg_lineage_seq L + 1"
      using inv by (fastforce simp: log_inv_def)
    ultimately show ?thesis
      using inv new by (fastforce simp: log_inv_def L' sorted_wrt_append)
  qed
qed

lemma keeps_lineage_delete [keeps_intros]: "keeps (log_inv edim) (lineage_delete i)"
proof (rule keepsI)
  fix L r L' assume "log_inv edim L" "lineage_delete i L = (r, L')"
  then show "log_inv edim L'"
    by (auto simp: lineage_delete_def log_inv_def sorted_wrt_map distinct_map_filter
        intro: sorted_wrt_filter)
qed

subsection \<open>What the log returns\<close>

lemma event_get_row:
  assumes "log_inv edim L"
  shows "event_get L i = Inr e \<longleftrightarrow> e \<in> set (lg_events L) \<and> ev_id e = i"
proof -
  have "distinct (map ev_id (lg_events L))"
    using assms by (simp add: log_inv_def strict_sorted_iff)
  then have "List.find (\<lambda>e. ev_id e = i) (lg_events L) = Some e" if "e \<in> set (lg_events L)" "ev_id e = i"
    using that by (intro find_unique) (auto simp: distinct_map inj_on_def)
  then show ?thesis
    by (auto simp: event_get_def split: option.splits dest: find_eq_Some_in)
qed

lemma event_insert_get:
  assumes inv: "log_inv edim L" and r: "event_insert R nv L = (Inr i, L')"
  shows "event_get L' i = Inr (new_event_row R i nv)"
    and "event_get_upcasted R L' i = Inr (new_event_row R i nv)"
    and "j \<noteq> i \<Longrightarrow> event_get L' j = event_get L j"
proof -
  have inv': "log_inv edim L'" by (rule keepsD [OF keeps_event_insert inv r])
  from r have L': "lg_events L' = lg_events L @ [new_event_row R i nv]"
    by (auto simp: event_insert_def Let_def split: if_splits)
  then show g: "event_get L' i = Inr (new_event_row R i nv)"
    by (simp add: event_get_row [OF inv']) (simp add: new_event_row_def)
  have "apply_upcasting R (new_event_row R i nv) = Inr (new_event_row R i nv)"
    by (simp add: apply_upcasting_def new_event_row_def)
  with g show "event_get_upcasted R L' i = Inr (new_event_row R i nv)"
    by (simp add: event_get_upcasted_def)
  show "j \<noteq> i \<Longrightarrow> event_get L' j = event_get L j"
    by (auto simp: event_get_def L' find_append new_event_row_def split: option.splits)
qed

lemma event_list_ok:
  "set (event_list L (fl\<lparr>el_limit := None\<rparr>)) = {e \<in> set (lg_events L). event_matches fl e}"
  "el_order_by_id fl = False \<Longrightarrow> sorted (map ev_timestamp (event_list L fl))"
  "el_order_by_id fl \<Longrightarrow> sorted (map ev_id (event_list L fl))"
  "el_limit fl = Some n \<Longrightarrow> length (event_list L fl) \<le> n"
proof -
  have "event_matches (fl\<lparr>el_limit := None\<rparr>) = event_matches fl"
    by (simp add: fun_eq_iff event_matches_def)
  then show "set (event_list L (fl\<lparr>el_limit := None\<rparr>)) = {e \<in> set (lg_events L). event_matches fl e}"
    by (auto simp: event_list_def event_order_def)
qed (auto simp: event_list_def event_order_def Let_def sql_limit_def take_map [symmetric]
    intro: sorted_wrt_take split: option.splits)

text \<open>Lineage is written once for a fact, and read back.\<close>

lemma lineage_insert_get:
  assumes "lineage_insert wisdom sources prov L = (Inr i, L')"
  shows "get_source_fact_ids L' wisdom = Inr sources"
    and "fl_is_finite (pp_confidence prov) \<Longrightarrow> get_by_wisdom_fact L' wisdom =
      Inr \<lparr>li_lineage_id = i, li_wisdom_fact_id = wisdom, li_source_fact_ids = sources, li_provenance = prov\<rparr>"
    and "\<not> has_lineage L wisdom" "has_lineage L' wisdom"
proof -
  from assms have new: "\<forall>r \<in> set (lg_lineage L). li_wisdom_fact_id r \<noteq> wisdom"
    and L': "lg_lineage L' = lg_lineage L @ [\<lparr>li_lineage_id = i, li_wisdom_fact_id = wisdom,
      li_source_fact_ids = sources, li_provenance = prov\<rparr>]"
    by (auto simp: lineage_insert_def Let_def split: if_splits)
  have "find_lineage L' wisdom = Some \<lparr>li_lineage_id = i, li_wisdom_fact_id = wisdom,
      li_source_fact_ids = sources, li_provenance = prov\<rparr>"
    using new by (auto simp: find_lineage_def L' find_append find_None_iff split: option.splits
        dest: find_eq_Some_in)
  then show "get_source_fact_ids L' wisdom = Inr sources"
    "fl_is_finite (pp_confidence prov) \<Longrightarrow> get_by_wisdom_fact L' wisdom =
      Inr \<lparr>li_lineage_id = i, li_wisdom_fact_id = wisdom, li_source_fact_ids = sources, li_provenance = prov\<rparr>"
    by (simp_all add: get_source_fact_ids_def get_by_wisdom_fact_def read_provenance_def)
  show "\<not> has_lineage L wisdom" "has_lineage L' wisdom"
    using new by (auto simp: has_lineage_def L' filter_empty_conv)
qed

lemma set_config_get [simp]:
  "set_config key v L = (u, L') \<Longrightarrow> get_config L' k = (if k = key then Some v else get_config L k)"
  by (auto simp: set_config_def get_config_def update_conv')

end
