(* ===== verification/Cycle.thy ===== *)
theory Cycle
  imports Log_Store Engine
begin

text \<open>
  Applying the report of a dream cycle: the report types (\<open>me-types/src/types/cycle_report.rs\<close>,
  \<open>types/provenance.rs\<close>), the transaction that validates and applies a report
  (\<open>apply_cycle_deltas_atomic\<close> in \<open>me-backend-sqlite/src/sqlite/consolidation.rs\<close>) and the primitive
  that mirrors its supersede edges in the graph (\<open>me-cognitive/src/apply.rs\<close>).

  \<open>cycle_env\<close> holds the library functions the code calls: the digest, the sizes of the JSON
  serialiser's writes, the two renderings of a timestamp, and the serialised history. The embedding
  index of the optional feature is not modelled, so no vectors are returned.
\<close>

subsection \<open>Reports\<close>

definition importance_step :: fl where "importance_step = Fin (5/100)"

definition max_adjustment :: "16 word" where "max_adjustment = 2"

record time_window =
  tw_start :: time
  tw_end :: time

record identity_output =
  io_anchors :: "fact_id list"
  io_core :: "fact_id list"
  io_predictions :: "fact_id list"

datatype cycle_delta =
    AddFact new_fact
  | AdjustScore fact_id "16 word"
  | Quarantine fact_id string
  | Promote fact_id promotion_provenance
  | TagOutcome fact_id outcome
  | Supersede fact_id fact_id   \<comment> \<open>old, new\<close>
  | Synthesize "fact_id list" new_fact

record cycle_metadata =
  cm_cycle_id :: nat
  cm_ran_at :: time
  cm_time_window :: time_window
  cm_facts_selected :: nat
  cm_method_version :: string
  cm_processed_ids :: "fact_id list"

record cycle_report =
  rp_deltas :: "cycle_delta list"
  rp_identity :: identity_output
  rp_metadata :: cycle_metadata

record apply_result =
  ar_facts_added :: nat
  ar_scores_adjusted :: nat
  ar_quarantined :: nat
  ar_promoted :: nat
  ar_outcomes_tagged :: nat
  ar_superseded :: nat
  ar_synthesized :: nat
  ar_new_fact_ids :: "fact_id list"
  ar_synthesized_fact_ids :: "fact_id list"
  ar_promoted_fact_ids :: "fact_id list"

definition default_apply_result :: apply_result where
  "default_apply_result = \<lparr>ar_facts_added = 0, ar_scores_adjusted = 0, ar_quarantined = 0,
     ar_promoted = 0, ar_outcomes_tagged = 0, ar_superseded = 0, ar_synthesized = 0,
     ar_new_fact_ids = [], ar_synthesized_fact_ids = [], ar_promoted_fact_ids = []\<rparr>"

record cycle_env =
  ce_hash :: "string \<Rightarrow> string"
  ce_chunks :: "json \<Rightarrow> nat list"
  ce_rfc3339 :: "time \<Rightarrow> string"      \<comment> \<open>\<open>to_rfc3339\<close>\<close>
  ce_serde_time :: "time \<Rightarrow> string"   \<comment> \<open>the derived JSON form\<close>
  ce_write_history :: "cycle_metadata list \<Rightarrow> string"
  ce_read_history :: "string \<Rightarrow> cycle_metadata list result"
  ce_registry :: upcaster_registry

subsection \<open>The validation pass\<close>

definition ensure_fact_active :: "fact_id set \<Rightarrow> fact \<Rightarrow> unit result" where
  "ensure_fact_active expired_in_report f =
     (if f_t_expired f \<noteq> None \<or> f_id f \<in> expired_in_report then Inl (Cycle (AlreadyExpired (f_id f)))
      else Inr ())"

definition require_fact :: "nat \<Rightarrow> db \<Rightarrow> fact_id \<Rightarrow> cycle_error \<Rightarrow> fact result" where
  "require_fact edim D i missing =
     (case fact_get edim D i of
        Inr f \<Rightarrow> Inr f
      | Inl (NotFound _) \<Rightarrow> Inl (Cycle missing)
      | Inl e \<Rightarrow> Inl e)"

definition require_active ::
    "nat \<Rightarrow> db \<Rightarrow> fact_id \<Rightarrow> cycle_error \<Rightarrow> fact_id set \<Rightarrow> unit result" where
  "require_active edim D i missing expired_in_report =
     and_then (require_fact edim D i missing) (ensure_fact_active expired_in_report)"

definition validate_new_fact :: "cycle_env \<Rightarrow> nat \<Rightarrow> new_fact \<Rightarrow> unit result" where
  "validate_new_fact E edim nf =
     (if length (nf_embedding nf) \<noteq> edim
      then Inl (EmbeddingDimension edim (length (nf_embedding nf)))
      else if \<not> fl_is_finite (nf_base_importance nf) \<or>
              \<not> fl_in_range (Fin 0) (Fin 1) (nf_base_importance nf)
      then Inl (Conflict (PolicyParameter (Fmt ''base_importance must be in [0, 1], got {}''
             [AFl (nf_base_importance nf)])))
      else check_new_fact (ce_chunks E) nf)"

definition abs_i16 :: "16 word \<Rightarrow> 16 word" where
  \<comment> \<open>\<open>i16::abs\<close> of a build without overflow checks: the least value stays negative\<close>
  "abs_i16 w = (if w <s 0 then - w else w)"

fun validate_sources ::
    "nat \<Rightarrow> db \<Rightarrow> fact_id list \<Rightarrow> fact_id set \<Rightarrow> fact_id set result" where
  "validate_sources edim D [] ex = Inr ex"
| "validate_sources edim D (src # srcs) ex =
     and_then (require_active edim D src (UnknownFact src) ex)
       (\<lambda>_. validate_sources edim D srcs (insert src ex))"

fun validate_delta ::
    "cycle_env \<Rightarrow> nat \<Rightarrow> db \<Rightarrow> cycle_delta \<Rightarrow> fact_id set \<Rightarrow> fact_id set result" where
  \<comment> \<open>the set holds the facts that the deltas so far expire\<close>
  "validate_delta E edim D (AddFact nf) ex = and_then (validate_new_fact E edim nf) (\<lambda>_. Inr ex)"
| "validate_delta E edim D (AdjustScore i adjustment) ex =
     (if max_adjustment <s abs_i16 adjustment
      then Inl (Cycle (AdjustmentOutOfRange i (sint adjustment)))
      else and_then (require_active edim D i (UnknownFact i) ex) (\<lambda>_. Inr ex))"
| "validate_delta E edim D (Quarantine i reason) ex =
     and_then (require_active edim D i (UnknownFact i) ex) (\<lambda>_. Inr (insert i ex))"
| "validate_delta E edim D (Promote i prov) ex =
     and_then (require_active edim D i (UnknownFact i) ex) (\<lambda>_. Inr ex)"
| "validate_delta E edim D (TagOutcome i oc) ex =
     and_then (require_fact edim D i (UnknownFact i)) (\<lambda>_. Inr ex)"
| "validate_delta E edim D (Supersede old new) ex =
     and_then (require_active edim D old (SupersedeMissing old) ex) (\<lambda>_.
     and_then (require_active edim D new (SupersedeMissing new) ex) (\<lambda>_. Inr (insert old ex)))"
| "validate_delta E edim D (Synthesize sources nf) ex =
     and_then (validate_new_fact E edim nf) (\<lambda>_.
       if sources = [] then Inl (Cycle SynthesizeNoSources)
       else validate_sources edim D sources ex)"

fun validate_deltas ::
    "cycle_env \<Rightarrow> nat \<Rightarrow> db \<Rightarrow> cycle_delta list \<Rightarrow> fact_id set \<Rightarrow> fact_id set result" where
  "validate_deltas E edim D [] ex = Inr ex"
| "validate_deltas E edim D (d # ds) ex =
     and_then (validate_delta E edim D d ex) (validate_deltas E edim D ds)"

definition validate_report :: "cycle_env \<Rightarrow> nat \<Rightarrow> db \<Rightarrow> cycle_report \<Rightarrow> unit result" where
  "validate_report E edim D report =
     and_then (validate_deltas E edim D (rp_deltas report) {}) (\<lambda>_.
     check_all (\<lambda>i. and_then (require_fact edim D i (UnknownFact i)) (\<lambda>_. Inr ()))
       (cm_processed_ids (rp_metadata report)))"

subsection \<open>The apply pass\<close>

record cycle_acc =
  ca_result :: apply_result
  ca_expired_ids :: "fact_id list"
  ca_supersede_edges :: "(fact_id \<times> fact_id \<times> int) list"
  ca_supersede_new_ids :: "fact_id list"
  ca_synthesize_new_ids :: "fact_id list"

definition fl_clamp :: "fl \<Rightarrow> fl \<Rightarrow> fl \<Rightarrow> fl" where
  "fl_clamp lo hi x = (let y = (if fl_lt x lo then lo else x) in if fl_lt hi y then hi else y)"

definition adjusted_importance :: "16 word \<Rightarrow> fl \<Rightarrow> fl" where
  "adjusted_importance adjustment current =
     fl_clamp (Fin 0) (Fin 1) (fl_mul_add (Fin (real_of_int (sint adjustment))) importance_step current)"

definition json_int :: "int \<Rightarrow> json" where "json_int i = JNum (Fin (real_of_int i))"

definition quarantine_patch :: "cycle_env \<Rightarrow> string \<Rightarrow> time \<Rightarrow> json" where
  "quarantine_patch E reason now =
     JObj [(''quarantine'', JObj [(''reason'', JStr reason), (''at'', JStr (ce_rfc3339 E now))])]"

definition provenance_json :: "cycle_env \<Rightarrow> promotion_provenance \<Rightarrow> json" where
  \<comment> \<open>the derived serialisation; a confidence that is not finite becomes null\<close>
  "provenance_json E p = JObj
     [(''source_count'', json_int (int (pp_source_count p))),
      (''session_count'', json_int (int (pp_session_count p))),
      (''date_range_start'', JStr (ce_serde_time E (pp_date_range_start p))),
      (''date_range_end'', JStr (ce_serde_time E (pp_date_range_end p))),
      (''confidence'', if fl_is_finite (pp_confidence p) then JNum (pp_confidence p) else JNull),
      (''method_version'', JStr (pp_method_version p)),
      (''representative_ids'', JArr (map json_int (pp_representative_ids p)))]"

definition promotion_metadata :: "cycle_env \<Rightarrow> json \<Rightarrow> promotion_provenance \<Rightarrow> json" where
  "promotion_metadata E metadata prov =
     JObj (AList.update ''promotion_provenance'' (provenance_json E prov)
       (case metadata of JObj kvs \<Rightarrow> kvs | _ \<Rightarrow> []))"

definition promote_fact :: "cycle_env \<Rightarrow> fact \<Rightarrow> promotion_provenance \<Rightarrow> time \<Rightarrow> new_fact" where
  "promote_fact E source prov now =
     \<lparr>nf_content = f_content source, nf_content_hash = [], nf_embedding = f_embedding source,
      nf_fact_type = f_fact_type source, nf_t_created = now, nf_t_expired = None, nf_t_valid = None,
      nf_t_invalid = None, nf_source_event_id = None,
      nf_base_importance = f_base_importance source, nf_access_count = 0, nf_last_accessed = now,
      nf_metadata = promotion_metadata E (f_metadata source) prov, nf_scope_id = 1,
      nf_is_pinned = True\<rparr>"

fun outcome_variant :: "outcome \<Rightarrow> string" where
  \<comment> \<open>the derived JSON form\<close>
  "outcome_variant Positive = ''Positive''"
| "outcome_variant Negative = ''Negative''"
| "outcome_variant Neutral = ''Neutral''"

definition outcome_event :: "fact_id \<Rightarrow> outcome \<Rightarrow> time \<Rightarrow> new_event" where
  "outcome_event i oc now =
     \<lparr>nv_timestamp = now, nv_event_type = OutcomeSignal,
      nv_payload = JObj [(''fact_id'', json_int i), (''outcome'', JStr (outcome_variant oc))],
      nv_source = ''dream_cycle'', nv_session_id = None, nv_scope_id = 1,
      nv_origin_node_id = ''local'', nv_sequence_id = 0, nv_created_at = None\<rparr>"

definition supersedes_edge :: "fact_id \<Rightarrow> fact_id \<Rightarrow> int \<Rightarrow> time \<Rightarrow> new_edge" where
  "supersedes_edge new_id old_id scope_id now =
     \<lparr>ne_source_fact_id = new_id, ne_target_fact_id = old_id, ne_relation_type = Supersedes,
      ne_weight = Fin 1, ne_t_created = now, ne_t_expired = None, ne_scope_id = scope_id\<rparr>"

definition note_superseded :: "fact_id \<Rightarrow> fact_id \<Rightarrow> int \<Rightarrow> cycle_acc \<Rightarrow> cycle_acc" where
  "note_superseded new_id old_id edge_id acc =
     acc\<lparr>ca_expired_ids := ca_expired_ids acc @ [old_id],
         ca_supersede_edges := ca_supersede_edges acc @ [(new_id, old_id, edge_id)]\<rparr>"

definition synthesize_source ::
    "nat \<Rightarrow> new_fact \<Rightarrow> fact_id \<Rightarrow> time \<Rightarrow> nat \<times> fact_id \<Rightarrow> time \<times> time \<times> cycle_acc
      \<Rightarrow> (log_store, time \<times> time \<times> cycle_acc) op" where
  \<comment> \<open>the body of the loop over the enumerated sources\<close>
  "synthesize_source edim nf synth_id now = (\<lambda>(i, src) (range_start, range_end, acc).
     op_bind (op_reads (\<lambda>L. fact_get edim (lg_db L) src)) (\<lambda>src_fact.
     let t = f_t_created src_fact;
         (rs, re) = (if i = 0 then (t, t) else (min range_start t, max range_end t)) in
     op_bind (on_tables (fact_expire src now)) (\<lambda>_.
     op_bind (on_tables (edge_insert (supersedes_edge synth_id src (nf_scope_id nf) now))) (\<lambda>edge_id.
     op_return (rs, re, note_superseded synth_id src edge_id acc)))))"

definition synthesize_provenance :: "fact_id list \<Rightarrow> time \<Rightarrow> time \<Rightarrow> promotion_provenance" where
  "synthesize_provenance sources range_start range_end =
     \<lparr>pp_source_count = min (length sources) u32_max, pp_session_count = 0,
      pp_date_range_start = range_start, pp_date_range_end = range_end, pp_confidence = Fin 1,
      pp_method_version = ''synthesize-v1'', pp_representative_ids = take 5 sources\<rparr>"

fun apply_delta ::
    "cycle_env \<Rightarrow> nat \<Rightarrow> time \<Rightarrow> cycle_delta \<Rightarrow> cycle_acc \<Rightarrow> (log_store, cycle_acc) op" where
  "apply_delta E edim now (AddFact nf) acc =
     op_bind (on_tables (fact_insert (ce_hash E) edim nf)) (\<lambda>i.
     op_return (acc\<lparr>ca_result := (ca_result acc)\<lparr>
       ar_new_fact_ids := ar_new_fact_ids (ca_result acc) @ [i],
       ar_facts_added := ar_facts_added (ca_result acc) + 1\<rparr>\<rparr>))"
| "apply_delta E edim now (AdjustScore i adjustment) acc =
     op_bind (op_reads (\<lambda>L. fact_get edim (lg_db L) i)) (\<lambda>f.
     op_bind (on_tables (update_base_importance i (adjusted_importance adjustment (f_base_importance f)))) (\<lambda>_.
     op_return (acc\<lparr>ca_result := (ca_result acc)\<lparr>
       ar_scores_adjusted := ar_scores_adjusted (ca_result acc) + 1\<rparr>\<rparr>)))"
| "apply_delta E edim now (Quarantine i reason) acc =
     op_bind (on_tables (fact_expire i now)) (\<lambda>_.
     op_bind (on_tables (merge_metadata i (quarantine_patch E reason now))) (\<lambda>_.
     op_return (acc\<lparr>ca_expired_ids := ca_expired_ids acc @ [i], ca_result := (ca_result acc)\<lparr>
       ar_quarantined := ar_quarantined (ca_result acc) + 1\<rparr>\<rparr>)))"
| "apply_delta E edim now (Promote i prov) acc =
     op_bind (op_reads (\<lambda>L. fact_get edim (lg_db L) i)) (\<lambda>source.
     if length (f_embedding source) \<noteq> edim
     then op_fail (EmbeddingDimension edim (length (f_embedding source)))
     else
       op_bind (op_reads (\<lambda>L. require_present (lg_db L))) (\<lambda>_.
       op_bind (on_tables (fact_insert (ce_hash E) edim (promote_fact E source prov now))) (\<lambda>promoted_id.
       op_bind (lineage_insert promoted_id [i] prov) (\<lambda>_.
       op_return (acc\<lparr>ca_result := (ca_result acc)\<lparr>
         ar_promoted := ar_promoted (ca_result acc) + 1,
         ar_promoted_fact_ids := ar_promoted_fact_ids (ca_result acc) @ [promoted_id]\<rparr>\<rparr>)))))"
| "apply_delta E edim now (TagOutcome i oc) acc =
     op_bind (event_insert (ce_registry E) (outcome_event i oc now)) (\<lambda>_.
     op_return (acc\<lparr>ca_result := (ca_result acc)\<lparr>
       ar_outcomes_tagged := ar_outcomes_tagged (ca_result acc) + 1\<rparr>\<rparr>))"
| "apply_delta E edim now (Supersede old new) acc =
     op_bind (op_reads (\<lambda>L. fact_get edim (lg_db L) new)) (\<lambda>new_fact.
     op_bind (on_tables (fact_expire old now)) (\<lambda>_.
     op_bind (on_tables (edge_insert (supersedes_edge new old (f_scope_id new_fact) now))) (\<lambda>edge_id.
     op_return ((note_superseded new old edge_id acc)\<lparr>
       ca_supersede_new_ids := ca_supersede_new_ids acc @ [new], ca_result := (ca_result acc)\<lparr>
         ar_superseded := ar_superseded (ca_result acc) + 1\<rparr>\<rparr>))))"
| "apply_delta E edim now (Synthesize sources nf) acc =
     op_bind (on_tables (fact_insert (ce_hash E) edim nf)) (\<lambda>synth_id.
     op_bind (op_fold (synthesize_source edim nf synth_id now) (enumerate 0 sources)
         (nf_t_created nf, nf_t_created nf, acc)) (\<lambda>(range_start, range_end, acc').
     op_bind (lineage_insert synth_id sources (synthesize_provenance sources range_start range_end)) (\<lambda>_.
     op_return (acc'\<lparr>ca_synthesize_new_ids := ca_synthesize_new_ids acc' @ [synth_id],
       ca_result := (ca_result acc')\<lparr>
         ar_synthesized_fact_ids := ar_synthesized_fact_ids (ca_result acc') @ [synth_id],
         ar_synthesized := ar_synthesized (ca_result acc') + 1\<rparr>\<rparr>))))"

definition last_dream_cycle_at :: string where "last_dream_cycle_at = ''last_dream_cycle_at''"
definition dream_cycle_history :: string where "dream_cycle_history = ''dream_cycle_history''"
definition dream_cycle_history_max :: nat where "dream_cycle_history_max = 8"

definition carries_embedding :: "cycle_delta \<Rightarrow> bool" where
  \<comment> \<open>the deltas that bring an embedding of their own\<close>
  "carries_embedding d \<longleftrightarrow> (case d of AddFact _ \<Rightarrow> True | Synthesize _ _ \<Rightarrow> True | _ \<Rightarrow> False)"

definition ids_to_mark :: "cycle_report \<Rightarrow> cycle_acc \<Rightarrow> fact_id list" where
  "ids_to_mark report acc = remdups_adj (sort (cm_processed_ids (rp_metadata report) @
     ar_new_fact_ids (ca_result acc) @ ar_promoted_fact_ids (ca_result acc) @
     ca_supersede_new_ids acc @ ca_synthesize_new_ids acc))"

definition read_history :: "cycle_env \<Rightarrow> log_store \<Rightarrow> cycle_metadata list result" where
  "read_history E L = (case get_config L dream_cycle_history of
      Some s \<Rightarrow> ce_read_history E s | None \<Rightarrow> Inr [])"

definition append_history :: "cycle_metadata \<Rightarrow> cycle_metadata list \<Rightarrow> cycle_metadata list" where
  "append_history m history =
     (let h = history @ [m] in drop (length h - dream_cycle_history_max) h)"

definition append_cycle_history :: "cycle_env \<Rightarrow> cycle_metadata \<Rightarrow> (log_store, unit) op" where
  "append_cycle_history E m =
     op_bind (op_reads (read_history E)) (\<lambda>history.
     set_config dream_cycle_history (ce_write_history E (append_history m history)))"

definition empty_cycle_acc :: cycle_acc where
  "empty_cycle_acc = \<lparr>ca_result = default_apply_result, ca_expired_ids = [],
     ca_supersede_edges = [], ca_supersede_new_ids = [], ca_synthesize_new_ids = []\<rparr>"

definition apply_pass :: "cycle_env \<Rightarrow> nat \<Rightarrow> cycle_report \<Rightarrow> time \<Rightarrow> (log_store, cycle_acc) op" where
  "apply_pass E edim report now =
     op_bind (op_reads (\<lambda>L. if list_ex carries_embedding (rp_deltas report)
                            then require_present (lg_db L) else Inr ())) (\<lambda>_.
     op_bind (op_fold (apply_delta E edim now) (rp_deltas report) empty_cycle_acc) (\<lambda>acc.
     op_bind (if ids_to_mark report acc = [] then op_return ()
              else on_tables (mark_dream_cycled (ce_rfc3339 E) (ids_to_mark report acc)
                (cm_cycle_id (rp_metadata report)) now)) (\<lambda>_.
     op_bind (set_config last_dream_cycle_at
        (ce_rfc3339 E (tw_end (cm_time_window (rp_metadata report))))) (\<lambda>_.
     op_bind (append_cycle_history E (rp_metadata report)) (\<lambda>_.
     op_return acc)))))"

definition apply_cycle_deltas_atomic ::
    "cycle_env \<Rightarrow> nat \<Rightarrow> cycle_report \<Rightarrow> time
      \<Rightarrow> (log_store, apply_result \<times> (fact_id \<times> fact_id \<times> int) list \<times> fact_id list) op" where
  "apply_cycle_deltas_atomic E edim report now =
     op_bind (op_reads (\<lambda>L. validate_report E edim (lg_db L) report)) (\<lambda>_.
     op_bind (transaction (apply_pass E edim report now)) (\<lambda>acc.
     op_return (ca_result acc, ca_supersede_edges acc, ca_expired_ids acc)))"

subsection \<open>The primitive\<close>

definition mirror_supersedes ::
    "'g petgraph \<Rightarrow> (fact_id \<times> fact_id \<times> int) list \<Rightarrow> 'g memory_graph \<Rightarrow> 'g memory_graph" where
  "mirror_supersedes P edges g =
     fold (\<lambda>(new_id, old_id, edge_id) g. mg_add_edge P (remove_edges_by_fact P g old_id) new_id old_id
       \<lparr>ed_edge_id = edge_id, ed_relation_type = Supersedes, ed_weight = Fin 1\<rparr>) edges g"

definition apply_cycle_report ::
    "cycle_env \<Rightarrow> 'g petgraph \<Rightarrow> memory_ctx \<Rightarrow> cycle_report \<Rightarrow> time
      \<Rightarrow> (log_store \<times> 'g memory_graph, apply_result) op" where
  "apply_cycle_report E P ctx report now =
     op_bind (op_of (ensure_open ctx)) (\<lambda>_.
     op_bind (op_of (ensure_writable ctx)) (\<lambda>_.
     op_bind (on_store (apply_cycle_deltas_atomic E (ctx_embed_dim ctx) report now))
       (\<lambda>(res, supersede_edges, _).
     op_bind (on_index (mirror_supersedes P supersede_edges)) (\<lambda>_.
     op_return res))))"

subsection \<open>Preserved invariants\<close>

lemma keeps_on_tables_db: "keeps I m \<Longrightarrow> keeps (\<lambda>L. I (lg_db L)) (on_tables m)"
  by (auto simp: keeps_def on_tables_def split: prod.splits)

lemma keeps_on_tables_log [keeps_intros]:
  "keeps (log_inv edim) (on_tables (fact_insert hash edim nf))"
  "keeps (log_inv edim) (on_tables (edge_insert ne))"
  "keeps (log_inv edim) (on_tables (fact_expire i now))"
  "keeps (log_inv edim) (on_tables (merge_metadata i patch))"
  "keeps (log_inv edim) (on_tables (update_base_importance i v))"
  "keeps (log_inv edim) (on_tables (mark_dream_cycled rfc ids k now))"
  by (intro keeps_on_tables keeps_intros)+

lemma keeps_synthesize_source:
  assumes "\<And>i. keeps I (on_tables (fact_expire i now))" "\<And>ne. keeps I (on_tables (edge_insert ne))"
  shows "keeps I (synthesize_source edim nf synth_id now x acc)"
  by (cases x; cases acc) (auto simp: synthesize_source_def Let_def intro!: keeps_intros assms)

fun delta_fact :: "cycle_delta \<Rightarrow> new_fact option" where
  "delta_fact (AddFact nf) = Some nf"
| "delta_fact (Synthesize _ nf) = Some nf"
| "delta_fact _ = None"

lemma keeps_apply_delta:
  assumes "\<And>i. keeps I (on_tables (fact_expire i now))" "\<And>ne. keeps I (on_tables (edge_insert ne))"
    and "\<And>nf. delta_fact d = Some nf \<Longrightarrow> keeps I (on_tables (fact_insert (ce_hash E) edim nf))"
    and "\<And>L i f prov. I L \<Longrightarrow> fact_get edim (lg_db L) i = Inr f \<Longrightarrow>
      keeps I (on_tables (fact_insert (ce_hash E) edim (promote_fact E f prov now)))"
    and "\<And>L i f adj. I L \<Longrightarrow> fact_get edim (lg_db L) i = Inr f \<Longrightarrow>
      keeps I (on_tables (update_base_importance i (adjusted_importance adj (f_base_importance f))))"
    and "\<And>i patch. keeps I (on_tables (merge_metadata i patch))"
    and "\<And>w sources prov. keeps I (lineage_insert w sources prov)"
    and "\<And>nv. keeps I (event_insert (ce_registry E) nv)"
  shows "keeps I (apply_delta E edim now d acc)"
proof (cases d)
  case (AdjustScore i adj)
  have "keeps I (op_bind (op_reads (\<lambda>L. fact_get edim (lg_db L) i)) (\<lambda>f.
     op_bind (on_tables (update_base_importance i (adjusted_importance adj (f_base_importance f)))) (\<lambda>_.
     op_return (a f))))" for a
    by (rule keeps_bind_reads, rule keeps_bind, rule assms(5)) (assumption | intro keeps_intros)+
  then show ?thesis by (simp add: AdjustScore)
next
  case (Promote i prov)
  show ?thesis
    unfolding Promote apply_delta.simps
    by (rule keeps_bind_reads, rule keeps_if, rule keeps_fail, rule keeps_bind, rule keeps_reads,
        rule keeps_bind, rule assms(4)) (assumption | intro keeps_intros assms)+
qed (auto simp: split_def intro!: keeps_intros keeps_synthesize_source assms)

lemma keeps_apply_pass:
  assumes "\<And>d acc. d \<in> set (rp_deltas report) \<Longrightarrow> keeps I (apply_delta E edim now d acc)"
    and "\<And>ids k. keeps I (on_tables (mark_dream_cycled (ce_rfc3339 E) ids k now))"
    and "\<And>k v. keeps I (set_config k v)"
  shows "keeps I (apply_pass E edim report now)"
  unfolding apply_pass_def append_cycle_history_def by (intro keeps_intros assms)

lemma cycle_keeps_log_inv: "keeps (log_inv edim) (apply_cycle_deltas_atomic E edim report now)"
  unfolding apply_cycle_deltas_atomic_def split_def
  by (intro keeps_intros keeps_apply_pass keeps_apply_delta)

lemma cycle_all_or_nothing: "all_or_nothing (apply_cycle_deltas_atomic E edim report now)"
  unfolding all_or_nothing_def apply_cycle_deltas_atomic_def
  by (auto simp: op_bind_Inl transaction_Inl)

lemma apply_cycle_deltas_Inr:
  "apply_cycle_deltas_atomic E edim report now L = (Inr (res, edges, expired), L') \<longleftrightarrow>
     validate_report E edim (lg_db L) report = Inr () \<and>
     (\<exists>acc. apply_pass E edim report now L = (Inr acc, L') \<and> res = ca_result acc \<and>
        edges = ca_supersede_edges acc \<and> expired = ca_expired_ids acc)"
  by (auto simp: apply_cycle_deltas_atomic_def op_bind_Inr)

subsection \<open>Importances stay in [0, 1]\<close>

definition unit_float :: "fl \<Rightarrow> bool" where
  "unit_float v \<longleftrightarrow> fl_is_finite v \<and> fl_in_range (Fin 0) (Fin 1) v"

definition importances_ok :: "db \<Rightarrow> bool" where
  "importances_ok D \<longleftrightarrow> (\<forall>f \<in> set (d_facts D). unit_float (f_base_importance f))"

lemma unit_float_iff: "unit_float v \<longleftrightarrow> (\<exists>x. v = Fin x \<and> 0 \<le> x \<and> x \<le> 1)"
  by (auto simp: unit_float_def fl_in_range_Fin)

lemma clamp_unit: "x \<noteq> NaN \<Longrightarrow> unit_float (fl_clamp (Fin 0) (Fin 1) x)"
  by (cases x) (auto simp: fl_clamp_def unit_float_iff Let_def)

lemma adjusted_unit: "v \<noteq> NaN \<Longrightarrow> unit_float (adjusted_importance adj v)"
  unfolding adjusted_importance_def
  by (rule clamp_unit) (cases v; simp add: fl_mul_add_def importance_step_def)

lemma validate_new_fact_ok:
  "validate_new_fact E edim nf = Inr () \<longleftrightarrow>
     length (nf_embedding nf) = edim \<and> unit_float (nf_base_importance nf) \<and>
     check_new_fact (ce_chunks E) nf = Inr ()"
  by (auto simp: validate_new_fact_def unit_float_def)

lemma validate_delta_fact:
  "validate_delta E edim D d ex = Inr ex' \<Longrightarrow> delta_fact d = Some nf \<Longrightarrow> validate_new_fact E edim nf = Inr ()"
  by (cases d) (auto simp: and_then_eq_Inr)

lemma validate_deltas_fact:
  "validate_deltas E edim D ds ex = Inr ex' \<Longrightarrow> d \<in> set ds \<Longrightarrow> delta_fact d = Some nf \<Longrightarrow>
    validate_new_fact E edim nf = Inr ()"
  by (induction ds arbitrary: ex) (auto simp: and_then_eq_Inr dest: validate_delta_fact)

lemma importances_update:
  "importances_ok D \<Longrightarrow> (\<And>f. unit_float (f_base_importance f) \<Longrightarrow> unit_float (f_base_importance (g f))) \<Longrightarrow>
    importances_ok (update_facts p g D)"
  by (auto simp: importances_ok_def)

lemma importances_keeps [keeps_intros]:
  "keeps importances_ok (fact_expire i now)" "keeps importances_ok (merge_metadata i patch)"
  "keeps importances_ok (edge_insert ne)"
  "keeps importances_ok (mark_dream_cycled rfc ids k now)"
proof -
  show m: "keeps importances_ok (merge_metadata i patch)" for i patch
    by (rule keepsI) (auto simp: merge_metadata_def update_or_not_found_def
        intro!: importances_update split: json.splits if_splits)
  show "keeps importances_ok (fact_expire i now)" "keeps importances_ok (edge_insert ne)"
    by (rule keepsI; auto simp: fact_expire_def update_or_not_found_def edge_insert_def Let_def
        importances_ok_def split: if_splits)+
  show "keeps importances_ok (mark_dream_cycled rfc ids k now)"
    unfolding mark_dream_cycled_def by (intro keeps_intros m)
qed

lemma importances_writes:
  "unit_float (nf_base_importance nf) \<Longrightarrow> keeps importances_ok (fact_insert hash edim nf)"
  "unit_float v \<Longrightarrow> keeps importances_ok (update_base_importance i v)"
  by (rule keepsI; auto simp: fact_insert_def update_base_importance_def update_or_not_found_def Let_def
      importances_ok_def new_fact_row_def split: if_splits option.splits)+

lemma fact_get_importance:
  assumes "importances_ok D" "fact_get edim D i = Inr f"
  shows "unit_float (f_base_importance f)"
  using assms by (auto simp: fact_get_def importances_ok_def row_to_fact_def dest!: find_eq_Some_in
      split: option.splits if_splits)

lemma keeps_log_tables:
  "keeps (\<lambda>L. I (lg_db L)) (set_config k v)"
  "keeps (\<lambda>L. I (lg_db L)) (lineage_insert w sources prov)"
  by (rule keepsI; auto simp: set_config_def lineage_insert_def Let_def split: if_splits)+

lemma importances_event: "keeps (\<lambda>L. importances_ok (lg_db L)) (event_insert R nv)"
  by (rule keepsI) (auto simp: event_insert_def Let_def importances_ok_def split: if_splits)

lemma unit_not_NaN: "unit_float v \<Longrightarrow> v \<noteq> NaN"
  by (auto simp: unit_float_iff)

lemma cycle_importances:
  assumes ok: "importances_ok (lg_db L)"
    and r: "apply_cycle_deltas_atomic E edim report now L = (res, L')"
  shows "importances_ok (lg_db L')"
proof (cases res)
  case (Inl e)
  with r cycle_all_or_nothing [of E edim report now] have "L' = L"
    unfolding all_or_nothing_def by blast
  with ok show ?thesis by simp
next
  case (Inr x)
  then obtain acc where v: "validate_report E edim (lg_db L) report = Inr ()"
    and p: "apply_pass E edim report now L = (Inr acc, L')"
    using r by (cases x) (auto simp: apply_cycle_deltas_Inr)
  from v obtain ex where ex: "validate_deltas E edim (lg_db L) (rp_deltas report) {} = Inr ex"
    by (auto simp: validate_report_def and_then_eq_Inr)
  have "keeps (\<lambda>L. importances_ok (lg_db L)) (apply_delta E edim now d acc)"
    if d: "d \<in> set (rp_deltas report)" for d acc
  proof (rule keeps_apply_delta)
    show "keeps (\<lambda>L. importances_ok (lg_db L)) (on_tables (fact_insert (ce_hash E) edim nf))"
      if "delta_fact d = Some nf" for nf
      using validate_deltas_fact [OF ex d that]
      by (intro keeps_on_tables_db importances_writes) (simp add: validate_new_fact_ok)
    show "keeps (\<lambda>L. importances_ok (lg_db L))
        (on_tables (fact_insert (ce_hash E) edim (promote_fact E f prov now)))"
      if "importances_ok (lg_db L)" "fact_get edim (lg_db L) i = Inr f" for L i f prov
      using fact_get_importance [OF that]
      by (intro keeps_on_tables_db importances_writes) (simp add: promote_fact_def)
    show "keeps (\<lambda>L. importances_ok (lg_db L))
        (on_tables (update_base_importance i (adjusted_importance adj (f_base_importance f))))"
      if "importances_ok (lg_db L)" "fact_get edim (lg_db L) i = Inr f" for L i f adj
      using fact_get_importance [OF that]
      by (intro keeps_on_tables_db importances_writes adjusted_unit unit_not_NaN)
  qed (intro keeps_on_tables_db keeps_log_tables importances_event keeps_intros)+
  then have "keeps (\<lambda>L. importances_ok (lg_db L)) (apply_pass E edim report now)"
    by (intro keeps_apply_pass keeps_on_tables_db keeps_log_tables keeps_intros)
  from keepsD [OF this ok p] show ?thesis .
qed

subsection \<open>Marks and history\<close>

definition dream_marked :: "db \<Rightarrow> fact_id \<Rightarrow> bool" where
  "dream_marked D i \<longleftrightarrow> (\<exists>f \<in> set (d_facts D). f_id f = i \<and> json_get ''dream_cycle'' (f_metadata f) \<noteq> None)"

lemma map_of_fold_update:
  "map_of (fold (\<lambda>(k, v) m. AList.update k v m) patch kvs) key = None \<longleftrightarrow>
    map_of kvs key = None \<and> key \<notin> fst ` set patch"
  by (induction patch arbitrary: kvs) (auto simp: update_conv' split: if_splits)

lemma merge_metadata_marks:
  assumes "merge_metadata i (dream_marker rfc3339 cycle_id now) D = (Inr u, D')"
  shows "dream_marked D' i" "dream_marked D j \<Longrightarrow> dream_marked D' j"
proof -
  let ?p = "[(''dream_cycle'', JObj [(''cycled_at'', JStr (rfc3339 now)),
              (''cycle_id'', JNum (Fin (real cycle_id)))])]"
  from assms have ex: "\<exists>f \<in> set (d_facts D). f_id f = i"
    and D': "D' = update_facts (\<lambda>f. f_id f = i) (\<lambda>f. f\<lparr>f_metadata := merge_json (f_metadata f) ?p\<rparr>) D"
    by (auto simp: merge_metadata_def dream_marker_def update_or_not_found_def split: if_splits)
  have m: "json_get ''dream_cycle'' (merge_json j ?p) \<noteq> None" for j
    by (cases j) (simp_all add: json_get_def merge_json_def update_conv')
  have up: "dream_marked D' (f_id f)"
    if "f \<in> set (d_facts D)" "f_id f = i \<or> json_get ''dream_cycle'' (f_metadata f) \<noteq> None" for f
  proof -
    let ?g = "if f_id f = i then f\<lparr>f_metadata := merge_json (f_metadata f) ?p\<rparr> else f"
    have "?g \<in> set (d_facts D')" using that(1) by (force simp: D')
    moreover have "f_id ?g = f_id f \<and> json_get ''dream_cycle'' (f_metadata ?g) \<noteq> None"
      using that(2) m [of "f_metadata f"] by auto
    ultimately show ?thesis unfolding dream_marked_def by blast
  qed
  from ex up show "dream_marked D' i" by blast
  show "dream_marked D j \<Longrightarrow> dream_marked D' j"
    using up unfolding dream_marked_def [of D] by blast
qed

lemma mark_dream_cycled_marks:
  assumes "mark_dream_cycled rfc3339 ids cycle_id now D = (Inr u, D')"
  shows "i \<in> set ids \<Longrightarrow> dream_marked D' i" "dream_marked D i \<Longrightarrow> dream_marked D' i"
proof -
  have "(\<forall>i \<in> set ids. dream_marked D' i) \<and> (\<forall>i. dream_marked D i \<longrightarrow> dream_marked D' i)"
    using assms
  proof (induction ids arbitrary: D)
    case (Cons i ids)
    from Cons.prems obtain D1 where 1: "merge_metadata i (dream_marker rfc3339 cycle_id now) D = (Inr (), D1)"
      and "mark_dream_cycled rfc3339 ids cycle_id now D1 = (Inr u, D')"
      by (auto simp: mark_dream_cycled_def op_bind_Inr)
    from Cons.IH [OF this(2)] merge_metadata_marks [OF 1] show ?case by auto
  qed (simp add: mark_dream_cycled_def)
  then show "i \<in> set ids \<Longrightarrow> dream_marked D' i" "dream_marked D i \<Longrightarrow> dream_marked D' i" by auto
qed

lemma set_ids_to_mark:
  "set (ids_to_mark report acc) = set (cm_processed_ids (rp_metadata report)) \<union>
     set (ar_new_fact_ids (ca_result acc)) \<union> set (ar_promoted_fact_ids (ca_result acc)) \<union>
     set (ca_supersede_new_ids acc) \<union> set (ca_synthesize_new_ids acc)"
  by (auto simp: ids_to_mark_def)

text \<open>The pass after the deltas: marks, watermark, history.\<close>

lemma apply_pass_Inr:
  assumes "apply_pass E edim report now L = (Inr acc, L')"
  obtains L1 D history where
    "op_fold (apply_delta E edim now) (rp_deltas report) empty_cycle_acc L = (Inr acc, L1)"
    "mark_dream_cycled (ce_rfc3339 E) (ids_to_mark report acc) (cm_cycle_id (rp_metadata report)) now (lg_db L1)
       = (Inr (), D)"
    "lg_db L' = D" "read_history E L1 = Inr history"
    "get_config L' last_dream_cycle_at = Some (ce_rfc3339 E (tw_end (cm_time_window (rp_metadata report))))"
    "get_config L' dream_cycle_history =
       Some (ce_write_history E (append_history (rp_metadata report) history))"
    "\<And>k. k \<noteq> last_dream_cycle_at \<Longrightarrow> k \<noteq> dream_cycle_history \<Longrightarrow> get_config L' k = get_config L1 k"
    "lg_events L' = lg_events L1" "lg_lineage L' = lg_lineage L1"
proof -
  from assms obtain L1 L2 history where
    f: "op_fold (apply_delta E edim now) (rp_deltas report) empty_cycle_acc L = (Inr acc, L1)"
    and m: "(if ids_to_mark report acc = [] then op_return ()
              else on_tables (mark_dream_cycled (ce_rfc3339 E) (ids_to_mark report acc)
                (cm_cycle_id (rp_metadata report)) now)) L1 = (Inr (), L2)"
    and h: "read_history E (L2\<lparr>lg_config := AList.update last_dream_cycle_at
        (ce_rfc3339 E (tw_end (cm_time_window (rp_metadata report)))) (lg_config L2)\<rparr>) = Inr history"
    and L': "L' = L2\<lparr>lg_config := AList.update dream_cycle_history
        (ce_write_history E (append_history (rp_metadata report) history))
        (AList.update last_dream_cycle_at
        (ce_rfc3339 E (tw_end (cm_time_window (rp_metadata report)))) (lg_config L2))\<rparr>"
    by (auto simp: apply_pass_def append_cycle_history_def op_bind_Inr set_config_def)
  from m have D: "mark_dream_cycled (ce_rfc3339 E) (ids_to_mark report acc) (cm_cycle_id (rp_metadata report))
      now (lg_db L1) = (Inr (), lg_db L2)" "lg_events L2 = lg_events L1" "lg_lineage L2 = lg_lineage L1"
      "lg_config L2 = lg_config L1"
    by (auto simp: mark_dream_cycled_def on_tables_def split: if_splits prod.splits)
  have "read_history E L1 = Inr history"
    using h D(4) by (simp add: read_history_def get_config_def update_conv' last_dream_cycle_at_def
        dream_cycle_history_def)
  with f D show thesis
    by (intro that [of L1 "lg_db L2" history])
      (auto simp: L' get_config_def update_conv' last_dream_cycle_at_def dream_cycle_history_def)
qed

lemma keeps_config_delta: "keeps (\<lambda>L. lg_config L = c) (apply_delta E edim now d acc)"
proof (rule keeps_apply_delta)
  show "keeps (\<lambda>L. lg_config L = c) (lineage_insert w sources prov)" for w sources prov
    by (rule keepsI) (auto simp: lineage_insert_def Let_def split: if_splits)
  show "keeps (\<lambda>L. lg_config L = c) (event_insert (ce_registry E) nv)" for nv
    by (rule keepsI) (auto simp: event_insert_def Let_def split: if_splits)
qed (auto simp: keeps_def on_tables_def split: prod.split)

lemma append_history_bounds:
  "length (append_history m h) \<le> 8" "last (append_history m h) = m"
  "length h < 8 \<Longrightarrow> append_history m h = h @ [m]"
  by (auto simp: append_history_def Let_def dream_cycle_history_max_def)

lemma cycle_bookkeeping:
  assumes codec: "\<And>h. read_history E L = Inr h \<Longrightarrow>
      ce_read_history E (ce_write_history E (append_history (rp_metadata report) h)) =
        Inr (append_history (rp_metadata report) h)"
    and r: "apply_cycle_deltas_atomic E edim report now L = (Inr (res, edges, expired), L')"
  shows "\<exists>h. read_history E L = Inr h \<and> read_history E L' = Inr (append_history (rp_metadata report) h)"
    and "get_config L' last_dream_cycle_at = Some (ce_rfc3339 E (tw_end (cm_time_window (rp_metadata report))))"
    and "i \<in> set (cm_processed_ids (rp_metadata report)) \<union> set (ar_new_fact_ids res) \<union>
        set (ar_promoted_fact_ids res) \<Longrightarrow> dream_marked (lg_db L') i"
proof -
  from r obtain acc where p: "apply_pass E edim report now L = (Inr acc, L')" and res: "res = ca_result acc"
    by (auto simp: apply_cycle_deltas_Inr)
  from p obtain L1 D history where
    f: "op_fold (apply_delta E edim now) (rp_deltas report) empty_cycle_acc L = (Inr acc, L1)"
    and D: "mark_dream_cycled (ce_rfc3339 E) (ids_to_mark report acc) (cm_cycle_id (rp_metadata report)) now (lg_db L1)
       = (Inr (), D)"
    and L': "lg_db L' = D" "read_history E L1 = Inr history"
    "get_config L' last_dream_cycle_at = Some (ce_rfc3339 E (tw_end (cm_time_window (rp_metadata report))))"
    "get_config L' dream_cycle_history =
       Some (ce_write_history E (append_history (rp_metadata report) history))"
    by (rule apply_pass_Inr)
  have "keeps (\<lambda>M. lg_config M = lg_config L) (op_fold (apply_delta E edim now) (rp_deltas report) empty_cycle_acc)"
    by (intro keeps_fold keeps_config_delta)
  from keepsD [OF this refl f] have hL: "read_history E L1 = read_history E L"
    by (simp add: read_history_def get_config_def)
  have "read_history E L' = Inr (append_history (rp_metadata report) history)"
    using L'(2,4) codec [of history] hL by (simp add: read_history_def)
  with hL show "\<exists>h. read_history E L = Inr h \<and>
      read_history E L' = Inr (append_history (rp_metadata report) h)"
    using L'(2) by metis
  show "get_config L' last_dream_cycle_at = Some (ce_rfc3339 E (tw_end (cm_time_window (rp_metadata report))))"
    by (rule L'(3))
  show "dream_marked (lg_db L') i" if "i \<in> set (cm_processed_ids (rp_metadata report)) \<union>
      set (ar_new_fact_ids res) \<union> set (ar_promoted_fact_ids res)"
    unfolding L'(1) by (rule mark_dream_cycled_marks(1) [OF D]) (use that in \<open>auto simp: set_ids_to_mark res\<close>)
qed

end
