(* ===== verification/Cycle_Apply.thy ===== *)
theory Cycle_Apply
  imports Cycle
begin

text \<open>
  What applying a cycle report does to the graph, and when it succeeds. The edges it inserts are
  the supersede edges it returns; the primitive removes every edge of a superseded fact from the
  graph although the tables keep them, so the graph is a part of the tables and equal to them
  exactly when no superseded fact had an active edge (\<open>supersede_safe\<close>). A report that passes
  validation is applied (\<open>cycle_applies\<close>).
\<close>

subsection \<open>The supersede edges\<close>

definition sup_triple :: "fact_id \<times> fact_id \<times> int \<Rightarrow> int \<times> int \<times> edge_data" where
  "sup_triple = (\<lambda>(n, i, k). (n, i, \<lparr>ed_edge_id = k, ed_relation_type = Supersedes, ed_weight = Fin 1\<rparr>))"

definition sup_grows :: "log_store \<Rightarrow> cycle_acc \<Rightarrow> log_store \<Rightarrow> cycle_acc \<Rightarrow> bool" where
  "sup_grows L acc L' acc' \<longleftrightarrow> (\<exists>ts new. ca_supersede_edges acc' = ca_supersede_edges acc @ ts \<and>
     active_edges (lg_db L') = active_edges (lg_db L) @ new \<and> map edge_triple new = map sup_triple ts)"

lemma sup_grows_refl:
  "d_edges (lg_db L') = d_edges (lg_db L) \<Longrightarrow> ca_supersede_edges acc' = ca_supersede_edges acc \<Longrightarrow>
    sup_grows L acc L' acc'"
  by (simp add: sup_grows_def active_edges_def)

lemma sup_grows_trans: "sup_grows L a L1 b \<Longrightarrow> sup_grows L1 b L2 c \<Longrightarrow> sup_grows L a L2 c"
  unfolding sup_grows_def by (elim exE conjE) (metis append.assoc map_append)

lemma same_edges:
  "on_tables (fact_insert hash edim nf) L = (Inr i, L') \<Longrightarrow> d_edges (lg_db L') = d_edges (lg_db L)"
  "on_tables (fact_expire j now) L = (Inr u, L') \<Longrightarrow> d_edges (lg_db L') = d_edges (lg_db L)"
  "on_tables (merge_metadata j patch) L = (Inr u, L') \<Longrightarrow> d_edges (lg_db L') = d_edges (lg_db L)"
  "on_tables (update_base_importance j v) L = (Inr u, L') \<Longrightarrow> d_edges (lg_db L') = d_edges (lg_db L)"
  "event_insert R nv L = (Inr k, L') \<Longrightarrow> d_edges (lg_db L') = d_edges (lg_db L)"
  "lineage_insert w sources prov L = (Inr k, L') \<Longrightarrow> d_edges (lg_db L') = d_edges (lg_db L)"
  by (auto simp: on_tables_def fact_insert_def fact_expire_def merge_metadata_def update_or_not_found_def
      update_base_importance_def event_insert_def lineage_insert_def Let_def
      split: prod.splits if_splits option.splits json.splits)

lemma supersedes_inserted:
  assumes "on_tables (edge_insert (supersedes_edge n j sid now)) L = (Inr k, L')"
  shows "\<exists>e. active_edges (lg_db L') = active_edges (lg_db L) @ [e] \<and> edge_triple e = sup_triple (n, j, k)"
proof -
  from assms obtain D where e: "edge_insert (supersedes_edge n j sid now) (lg_db L) = (Inr k, D)"
    and "lg_db L' = D" by (auto simp: on_tables_def split: prod.splits)
  with edge_insert_ok(2) [OF e] show ?thesis
    by (auto simp: active_edges_def is_active_edge_def edge_triple_def sup_triple_def supersedes_edge_def)
qed

lemma sup_grows_step:
  assumes "d_edges (lg_db L1) = d_edges (lg_db L)"
    and "on_tables (edge_insert (supersedes_edge n j sid now)) L1 = (Inr k, L')"
    and "ca_supersede_edges acc' = ca_supersede_edges acc @ [(n, j, k)]"
  shows "sup_grows L acc L' acc'"
  using supersedes_inserted [OF assms(2)] assms(1,3)
  unfolding sup_grows_def active_edges_def by (metis list.simps(8,9))

lemma synthesize_source_grows:
  assumes "synthesize_source edim nf n now (i, src) (a, b, acc) L = (Inr (a', b', acc'), L')"
  shows "sup_grows L acc L' acc'"
  using assms
  by (auto simp: synthesize_source_def op_bind_Inr Let_def note_superseded_def split: if_splits
      intro!: sup_grows_step [OF same_edges(2)])

lemma synthesize_fold_grows:
  "op_fold (synthesize_source edim nf n now) xs (a, b, acc) L = (Inr (a', b', acc'), L') \<Longrightarrow>
    sup_grows L acc L' acc'"
proof (induction xs arbitrary: a b acc L)
  case (Cons x xs)
  obtain i src where x: "x = (i, src)" by (cases x)
  from Cons.prems obtain a1 b1 acc1 L1 where
    1: "synthesize_source edim nf n now (i, src) (a, b, acc) L = (Inr (a1, b1, acc1), L1)"
    and 2: "op_fold (synthesize_source edim nf n now) xs (a1, b1, acc1) L1 = (Inr (a', b', acc'), L')"
    by (auto simp: x op_bind_Inr)
  show ?case by (rule sup_grows_trans [OF synthesize_source_grows [OF 1] Cons.IH [OF 2]])
qed (simp add: sup_grows_refl)

lemma sup_grows_acc:
  "sup_grows L acc L' acc' \<Longrightarrow> d_edges (lg_db L) = d_edges (lg_db L0) \<Longrightarrow> d_edges (lg_db L'') = d_edges (lg_db L') \<Longrightarrow>
    ca_supersede_edges acc'' = ca_supersede_edges acc' \<Longrightarrow> sup_grows L0 acc L'' acc''"
  by (simp add: sup_grows_def active_edges_def)

lemma apply_delta_grows:
  assumes "apply_delta E edim now d acc L = (Inr acc', L')"
  shows "sup_grows L acc L' acc'"
proof (cases d)
  case (Synthesize sources nf)
  with assms obtain n L1 rs re acc1 L2 k where
    1: "on_tables (fact_insert (ce_hash E) edim nf) L = (Inr n, L1)"
    and 2: "op_fold (synthesize_source edim nf n now) (enumerate 0 sources)
      (nf_t_created nf, nf_t_created nf, acc) L1 = (Inr (rs, re, acc1), L2)"
    and 3: "lineage_insert n sources (synthesize_provenance sources rs re) L2 = (Inr k, L')"
    and acc': "ca_supersede_edges acc' = ca_supersede_edges acc1"
    by (auto simp: op_bind_Inr)
  show ?thesis
    by (rule sup_grows_acc [OF synthesize_fold_grows [OF 2] same_edges(1) [OF 1] same_edges(6) [OF 3] acc'])
next
  case (Supersede old new)
  with assms show ?thesis
    by (auto simp: op_bind_Inr note_superseded_def intro!: sup_grows_step [OF same_edges(2)])
qed (use assms in \<open>auto simp: op_bind_Inr dest!: same_edges intro!: sup_grows_refl split: if_splits\<close>)

lemma apply_fold_grows:
  "op_fold (apply_delta E edim now) ds acc L = (Inr acc', L') \<Longrightarrow> sup_grows L acc L' acc'"
proof (induction ds arbitrary: acc L)
  case (Cons d ds)
  from Cons.prems obtain acc1 L1 where 1: "apply_delta E edim now d acc L = (Inr acc1, L1)"
    and 2: "op_fold (apply_delta E edim now) ds acc1 L1 = (Inr acc', L')"
    by (auto simp: op_bind_Inr)
  show ?case by (rule sup_grows_trans [OF apply_delta_grows [OF 1] Cons.IH [OF 2]])
qed (simp add: sup_grows_refl)

lemma mark_same_edges:
  assumes "mark_dream_cycled rfc ids k now D = (Inr u, D')"
  shows "d_edges D' = d_edges D"
proof -
  have "keeps (\<lambda>M. d_edges M = d_edges D) (merge_metadata i patch)" for i patch
    by (rule keepsI) (auto simp: merge_metadata_def update_or_not_found_def split: json.splits if_splits)
  then have "keeps (\<lambda>M. d_edges M = d_edges D) (mark_dream_cycled rfc ids k now)"
    unfolding mark_dream_cycled_def by (intro keeps_intros)
  from keepsD [OF this refl assms] show ?thesis .
qed

lemma cycle_edges_inserted:
  assumes "apply_cycle_deltas_atomic E edim report now L = (Inr (res, edges, expired), L')"
  shows "\<exists>new. active_edges (lg_db L') = active_edges (lg_db L) @ new \<and>
    map edge_triple new = map sup_triple edges"
proof -
  from assms obtain acc where p: "apply_pass E edim report now L = (Inr acc, L')"
    and edges: "edges = ca_supersede_edges acc" by (auto simp: apply_cycle_deltas_Inr)
  from p obtain L1 where f: "op_fold (apply_delta E edim now) (rp_deltas report) empty_cycle_acc L = (Inr acc, L1)"
    and "d_edges (lg_db L') = d_edges (lg_db L1)"
    by (rule apply_pass_Inr) (auto dest: mark_same_edges)
  with apply_fold_grows [OF f] edges show ?thesis
    by (auto simp: sup_grows_def empty_cycle_acc_def active_edges_def)
qed

subsection \<open>The graph\<close>

fun superseded_edges :: "edge list \<Rightarrow> edge list \<Rightarrow> edge list" where
  "superseded_edges es [] = es"
| "superseded_edges es (e # new) =
     superseded_edges (filter (\<lambda>x. \<not> edge_touches (e_target_fact_id e) x) es @ [e]) new"

fun supersede_safe :: "edge list \<Rightarrow> edge list \<Rightarrow> bool" where
  \<comment> \<open>no superseded fact has an edge when its turn comes\<close>
  "supersede_safe es [] = True"
| "supersede_safe es (e # new) =
     (list_all (\<lambda>x. \<not> edge_touches (e_target_fact_id e) x) es \<and> supersede_safe (es @ [e]) new)"

lemma superseded_subset: "mset (superseded_edges es new) \<subseteq># mset (es @ new)"
proof (induction es new rule: superseded_edges.induct)
  case (2 es e new)
  have "mset (filter (\<lambda>x. \<not> edge_touches (e_target_fact_id e) x) es) \<subseteq># mset es"
    by simp
  with "2.IH" show ?case
    by (simp add: subset_mset.order_trans [OF "2.IH"])
qed simp

lemma superseded_length: "length (superseded_edges es new) \<le> length es + length new"
  using size_mset_mono [OF superseded_subset [of es new]] by simp

lemma superseded_safe: "supersede_safe es new \<Longrightarrow> superseded_edges es new = es @ new"
proof (induction es new rule: supersede_safe.induct)
  case (2 es e new)
  then have "filter (\<lambda>x. \<not> edge_touches (e_target_fact_id e) x) es = es"
    by (simp add: list_all_iff)
  with 2 show ?case by simp
qed simp

lemma superseded_unsafe:
  "\<not> supersede_safe es new \<Longrightarrow> length (superseded_edges es new) < length es + length new"
proof (induction es new rule: supersede_safe.induct)
  case (2 es e new)
  let ?es = "filter (\<lambda>x. \<not> edge_touches (e_target_fact_id e) x) es"
  show ?case
  proof (cases "list_all (\<lambda>x. \<not> edge_touches (e_target_fact_id e) x) es")
    case True
    then have "?es = es" by (simp add: list_all_iff)
    with 2 True show ?thesis by simp
  next
    case False
    then have "length ?es < length es"
      by (auto simp: list_all_iff intro: length_filter_less)
    moreover have "length (superseded_edges (?es @ [e]) new) \<le> length (?es @ [e]) + length new"
      by (rule superseded_length)
    ultimately show ?thesis by simp
  qed
qed simp

context petgraph_laws begin

lemma mirror_supersedes_ok:
  "mirrors P g es \<Longrightarrow> map edge_triple new = map sup_triple ts \<Longrightarrow>
    mirrors P (mirror_supersedes P ts g) (superseded_edges es new)"
proof (induction ts arbitrary: g es new)
  case (Cons t ts)
  obtain n j k where t: "t = (n, j, k)" by (cases t)
  from Cons.prems(2) obtain e rest where new: "new = e # rest" "edge_triple e = sup_triple (n, j, k)"
    "map edge_triple rest = map sup_triple ts"
    by (cases new) (auto simp: t)
  then have e: "edge_triple e = (n, j, \<lparr>ed_edge_id = k, ed_relation_type = Supersedes, ed_weight = Fin 1\<rparr>)"
    by (simp add: sup_triple_def)
  then have j: "e_target_fact_id e = j" by (simp add: edge_triple_def)
  from Cons.IH [OF mirrors_add [OF mirrors_remove [OF Cons.prems(1), of j] e] new(3)]
  show ?case by (simp add: new(1) j mirror_supersedes_def t)
qed (simp add: mirror_supersedes_def)

lemma mirrors_same_size: "mirrors P g es \<Longrightarrow> mirrors P g es' \<Longrightarrow> length es = length es'"
  by (simp add: mirrors_def) (metis size_image_mset size_mset)

text \<open>The graph after a cycle: never more than the tables, and the tables exactly when it is safe.\<close>

lemma cycle_graph:
  assumes m: "mirrors P g (active_edges (lg_db L))"
    and r: "apply_cycle_report E P ctx report now (L, g) = (Inr res, (L', g'))"
  shows "\<exists>new. active_edges (lg_db L') = active_edges (lg_db L) @ new \<and>
    mirrors P g' (superseded_edges (active_edges (lg_db L)) new) \<and>
    (mirrors P g' (active_edges (lg_db L')) \<longleftrightarrow> supersede_safe (active_edges (lg_db L)) new)"
proof -
  from r obtain edges expired where
    c: "apply_cycle_deltas_atomic E (ctx_embed_dim ctx) report now L = (Inr (res, edges, expired), L')"
    and g': "g' = mirror_supersedes P edges g"
    by (auto simp: apply_cycle_report_def op_bind_Inr)
  from cycle_edges_inserted [OF c] obtain new where
    a: "active_edges (lg_db L') = active_edges (lg_db L) @ new" "map edge_triple new = map sup_triple edges"
    by blast
  from mirror_supersedes_ok [OF m a(2)] have m': "mirrors P g' (superseded_edges (active_edges (lg_db L)) new)"
    by (simp add: g')
  moreover have "mirrors P g' (active_edges (lg_db L')) \<longleftrightarrow> supersede_safe (active_edges (lg_db L)) new"
    using m' superseded_safe [of "active_edges (lg_db L)" new]
      superseded_unsafe [of "active_edges (lg_db L)" new] mirrors_same_size [OF m']
    by (metis a(1) length_append less_irrefl)
  ultimately show ?thesis using a(1) by blast
qed

end

lemma apply_cycle_error:
  assumes "apply_cycle_report E P ctx report now (L, g) = (Inl e, (L', g'))"
  shows "L' = L \<and> g' = g"
proof -
  have "L1 = L" if "apply_cycle_deltas_atomic E edim report now L = (Inl e1, L1)" for edim e1 L1
    using cycle_all_or_nothing [of E edim report now] that unfolding all_or_nothing_def by blast
  then show ?thesis
    using assms by (auto simp: apply_cycle_report_def op_bind_Inl split_def)
qed

subsection \<open>A validated report is applied\<close>

text \<open>The state during the apply pass, against the one that was validated.\<close>

definition cyc_rel :: "nat \<Rightarrow> log_store \<Rightarrow> fact_id set \<Rightarrow> log_store \<Rightarrow> bool" where
  "cyc_rel edim L0 ex L \<longleftrightarrow> log_inv edim L \<and> fact_ids_of (lg_db L0) \<subseteq> fact_ids_of (lg_db L) \<and>
     (\<forall>i \<in> fact_ids_of (lg_db L0). is_active (lg_db L) i \<longleftrightarrow> is_active (lg_db L0) i \<and> i \<notin> ex) \<and>
     d_scopes (lg_db L) = d_scopes (lg_db L0) \<and> d_identity (lg_db L) = d_identity (lg_db L0) \<and>
     fst ` set (d_events (lg_db L0)) \<subseteq> fst ` set (d_events (lg_db L))"

lemma cyc_rel_refl: "log_inv edim L \<Longrightarrow> cyc_rel edim L {} L"
  by (simp add: cyc_rel_def)

lemma cyc_rel_inv: "cyc_rel edim L0 ex L \<Longrightarrow> log_inv edim L \<and> db_inv edim (lg_db L)"
  by (simp add: cyc_rel_def log_inv_def)

lemma cyc_rel_step:
  assumes rel: "cyc_rel edim L0 ex L" and inv: "log_inv edim L'"
    and same: "d_scopes (lg_db L') = d_scopes (lg_db L)" "d_identity (lg_db L') = d_identity (lg_db L)"
    and ids: "fact_ids_of (lg_db L) \<subseteq> fact_ids_of (lg_db L')"
    and evs: "fst ` set (d_events (lg_db L)) \<subseteq> fst ` set (d_events (lg_db L'))"
    and act: "\<And>i. i \<in> fact_ids_of (lg_db L) \<Longrightarrow> is_active (lg_db L') i \<longleftrightarrow> is_active (lg_db L) i \<and> i \<notin> X"
  shows "cyc_rel edim L0 (ex \<union> X) L'"
  using assms unfolding cyc_rel_def by (auto 4 3)

lemma on_tables_Inr: "m (lg_db L) = (r, D) \<Longrightarrow> on_tables m L = (r, L\<lparr>lg_db := D\<rparr>)"
  by (simp add: on_tables_def)

lemma active_ids: "is_active D i \<Longrightarrow> i \<in> fact_ids_of D"
  by (auto simp: is_active_def fact_ids_of_def)

lemma cyc_insert:
  assumes rel: "cyc_rel edim L0 ex L" and dim: "length (nf_embedding nf) = edim"
    and c: "fact_constraint (lg_db L0) nf = None"
  shows "\<exists>i L'. on_tables (fact_insert hash edim nf) L = (Inr i, L') \<and> cyc_rel edim L0 ex L' \<and>
    i \<notin> fact_ids_of (lg_db L) \<and> i \<in> fact_ids_of (lg_db L') \<and>
    (nf_t_expired nf = None \<longrightarrow> is_active (lg_db L') i) \<and> lg_lineage L' = lg_lineage L"
proof -
  let ?D = "lg_db L"
  have inv: "db_inv edim ?D" "log_inv edim L" using cyc_rel_inv [OF rel] by auto
  have "fact_constraint ?D nf = None"
    using c rel by (auto simp: fact_constraint_def cyc_rel_def scope_ids_of_def split: if_splits option.splits)
  with dim obtain i D' where r: "fact_insert hash edim nf ?D = (Inr i, D')"
    using fact_insert_iff [of hash edim nf ?D] by blast
  note ok = fact_insert_ok(1,2) [OF inv(1) r]
  note on = on_tables_Inr [of "fact_insert hash edim nf", OF r]
  have "log_inv edim (L\<lparr>lg_db := D'\<rparr>)" by (rule keepsD [OF keeps_on_tables_log(1) inv(2) on])
  moreover have "is_active D' j \<longleftrightarrow> is_active ?D j" if "j \<in> fact_ids_of ?D" for j
    using that ok(1) by (auto simp: ok(2) is_active_def new_fact_row_def)
  moreover have "d_scopes D' = d_scopes ?D" "d_identity D' = d_identity ?D" "d_events D' = d_events ?D"
    "fact_ids_of D' = fact_ids_of ?D \<union> {i}"
    by (simp_all add: ok(2) new_fact_row_def)
  ultimately have "cyc_rel edim L0 (ex \<union> {}) (L\<lparr>lg_db := D'\<rparr>)"
    using ok(1) by (intro cyc_rel_step [OF rel]) auto
  then have "cyc_rel edim L0 ex (L\<lparr>lg_db := D'\<rparr>)" by simp
  with on ok show ?thesis
    by (intro exI [of _ i] exI [of _ "L\<lparr>lg_db := D'\<rparr>"])
      (auto simp: is_active_def is_active_row_def new_fact_row_def fact_ids_of_def)
qed

lemma cyc_update:
  assumes rel: "cyc_rel edim L0 ex L" and r: "m (lg_db L) = (Inr (), update_facts p g (lg_db L))"
    and k: "keeps (log_inv edim) (on_tables m)"
    and g: "\<And>f. f_id (g f) = f_id f \<and> f_t_expired (g f) = f_t_expired f"
  shows "\<exists>L'. on_tables m L = (Inr (), L') \<and> cyc_rel edim L0 ex L' \<and> lg_lineage L' = lg_lineage L"
proof -
  let ?L = "L\<lparr>lg_db := update_facts p g (lg_db L)\<rparr>"
  note on = on_tables_Inr [of m, OF r]
  have ids: "fact_ids_of (update_facts p g (lg_db L)) = fact_ids_of (lg_db L)"
    by (rule update_facts_ids(2)) (use g in auto)
  have "is_active (update_facts p g (lg_db L)) j = is_active (lg_db L) j" for j
  proof -
    define h where "h = (\<lambda>f. if p f then g f else f)"
    have "f_id (h f) = f_id f" "is_active_row (h f) = is_active_row f" for f
      using g by (simp_all add: h_def is_active_row_def)
    moreover have "d_facts (update_facts p g (lg_db L)) = map h (d_facts (lg_db L))"
      by (simp add: h_def)
    ultimately show ?thesis by (simp add: is_active_def)
  qed
  with ids keepsD [OF k _ on] cyc_rel_inv [OF rel] have "cyc_rel edim L0 (ex \<union> {}) ?L"
    by (intro cyc_rel_step [OF rel]) auto
  then have "cyc_rel edim L0 ex ?L" by simp
  with on show ?thesis by auto
qed

lemma cyc_expire:
  assumes rel: "cyc_rel edim L0 ex L" and i: "is_active (lg_db L0) i" "i \<notin> ex"
  shows "\<exists>L'. on_tables (fact_expire i now) L = (Inr (), L') \<and> cyc_rel edim L0 (insert i ex) L' \<and>
    lg_lineage L' = lg_lineage L \<and> fact_ids_of (lg_db L') = fact_ids_of (lg_db L) \<and>
    (\<forall>j. j \<noteq> i \<longrightarrow> is_active (lg_db L') j = is_active (lg_db L) j)"
proof -
  let ?D = "lg_db L"
  let ?D' = "update_facts (\<lambda>f. f_id f = i \<and> is_active_row f) (\<lambda>f. f\<lparr>f_t_expired := Some now\<rparr>) ?D"
  have act: "is_active ?D i" using rel i active_ids [OF i(1)] by (auto simp: cyc_rel_def)
  obtain r D' where e: "fact_expire i now ?D = (r, D')" by fastforce
  with fact_expire_ok [OF e] act have r: "fact_expire i now ?D = (Inr (), ?D')" by simp
  note on = on_tables_Inr [of "fact_expire i now", OF r]
  have ids: "fact_ids_of ?D' = fact_ids_of ?D" by (rule update_facts_ids(2)) simp
  have "is_active ?D' j \<longleftrightarrow> is_active ?D j \<and> j \<notin> {i}" for j
    using fact_expire_ok(3) [OF r] fact_expire_ok(4) [OF r, of j] by (cases "j = i") auto
  with ids keepsD [OF keeps_on_tables_log(3) _ on] cyc_rel_inv [OF rel]
  have "cyc_rel edim L0 (ex \<union> {i}) (L\<lparr>lg_db := ?D'\<rparr>)"
    by (intro cyc_rel_step [OF rel]) simp_all
  then have "cyc_rel edim L0 (insert i ex) (L\<lparr>lg_db := ?D'\<rparr>)" by simp
  with on ids fact_expire_ok(4) [OF r] show ?thesis by auto
qed

lemma cyc_edge:
  assumes rel: "cyc_rel edim L0 ex L" and ids: "n \<in> fact_ids_of (lg_db L)" "j \<in> fact_ids_of (lg_db L)"
    and sid: "sid \<in> scope_ids_of (lg_db L0)"
  shows "\<exists>k L'. on_tables (edge_insert (supersedes_edge n j sid now)) L = (Inr k, L') \<and>
    cyc_rel edim L0 ex L' \<and> lg_lineage L' = lg_lineage L \<and> d_facts (lg_db L') = d_facts (lg_db L)"
proof -
  have "sid \<in> scope_ids_of (lg_db L)" using sid rel by (simp add: cyc_rel_def scope_ids_of_def)
  with ids obtain k D' where r: "edge_insert (supersedes_edge n j sid now) (lg_db L) = (Inr k, D')"
    and D': "D' = lg_db L\<lparr>d_edges := d_edges D', d_edge_seq := d_edge_seq D'\<rparr>"
    by (auto simp: edge_insert_def supersedes_edge_def Let_def)
  note on = on_tables_Inr [of "edge_insert (supersedes_edge n j sid now)", OF r]
  have same: "d_facts D' = d_facts (lg_db L)" "d_scopes D' = d_scopes (lg_db L)"
    "d_identity D' = d_identity (lg_db L)" "d_events D' = d_events (lg_db L)"
    by (subst D', simp)+
  have "cyc_rel edim L0 ex (L\<lparr>lg_db := D'\<rparr>)"
    using rel same keepsD [OF keeps_on_tables_log(2) _ on]
    by (auto simp: cyc_rel_def fact_ids_of_def is_active_def)
  with on same(1) show ?thesis by auto
qed

lemma cyc_event:
  assumes rel: "cyc_rel edim L0 ex L" and sid: "nv_scope_id nv \<in> scope_ids_of (lg_db L0)"
  shows "\<exists>k L'. event_insert R nv L = (Inr k, L') \<and> cyc_rel edim L0 ex L'"
proof -
  have "nv_scope_id nv \<in> scope_ids_of (lg_db L)" using sid rel by (simp add: cyc_rel_def scope_ids_of_def)
  then obtain k L' where r: "event_insert R nv L = (Inr k, L')"
    by (simp add: event_insert_def Let_def)
  have "log_inv edim L'" using keepsD [OF keeps_event_insert _ r] cyc_rel_inv [OF rel] by blast
  then have "cyc_rel edim L0 (ex \<union> {}) L'"
    using r by (intro cyc_rel_step [OF rel])
      (auto simp: event_insert_def Let_def fact_ids_of_def is_active_def split: if_splits)
  with r show ?thesis by auto
qed

lemma cyc_lineage:
  assumes rel: "cyc_rel edim L0 ex L" and w: "is_active (lg_db L) w"
    "w \<notin> li_wisdom_fact_id ` set (lg_lineage L)" and s: "set sources \<subseteq> fact_ids_of (lg_db L)"
  shows "\<exists>k L'. lineage_insert w sources prov L = (Inr k, L') \<and> cyc_rel edim L0 ex L'"
proof -
  let ?D = "lg_db L"
  have d: "distinct (map f_id (d_facts ?D))"
    using db_inv_distinct(1) cyc_rel_inv [OF rel] by blast
  have "length (filter (\<lambda>f. f_id f \<in> set (remdups sources)) (d_facts ?D)) =
      card (f_id ` set (filter (\<lambda>f. f_id f \<in> set (remdups sources)) (d_facts ?D)))"
    using d by (metis (no_types, lifting) distinct_card distinct_map_filter length_map list.set_map)
  also have "f_id ` set (filter (\<lambda>f. f_id f \<in> set (remdups sources)) (d_facts ?D)) = set (remdups sources)"
    using s by (auto simp: fact_ids_of_def)
  also have "card (set (remdups sources)) = length (remdups sources)"
    by (rule distinct_card) simp
  finally have found: "length (filter (\<lambda>f. f_id f \<in> set (remdups sources)) (d_facts ?D)) =
      length (remdups sources)" .
  have "\<forall>r \<in> set (lg_lineage L). li_wisdom_fact_id r \<noteq> w" using w(2) by auto
  with w(1) found obtain k L' where r: "lineage_insert w sources prov L = (Inr k, L')"
    and L': "lg_db L' = lg_db L"
    by (auto simp: lineage_insert_def Let_def)
  have "cyc_rel edim L0 ex L'"
    using rel L' keepsD [OF keeps_lineage_insert _ r] by (simp add: cyc_rel_def)
  with r show ?thesis by blast
qed


lemma require_active_ok:
  assumes "db_inv edim D"
  shows "require_active edim D i m ex = Inr () \<longleftrightarrow> is_active D i \<and> i \<notin> ex"
  using row_in [of D i] by (auto simp: require_active_def require_fact_def fact_get_ok [OF assms] ensure_fact_active_def
      is_active_iff_row [OF assms] is_active_row_def fact_not_found_def split: option.splits)

lemma require_fact_ok:
  assumes "db_inv edim D"
  shows "(\<exists>f. require_fact edim D i m = Inr f) \<longleftrightarrow> i \<in> fact_ids_of D"
  using row_None [of D i] by (auto simp: require_fact_def fact_get_ok [OF assms] fact_not_found_def
      split: option.splits)

lemma cyc_get:
  assumes rel: "cyc_rel edim L0 ex L" and i: "i \<in> fact_ids_of (lg_db L)"
  obtains f where "fact_get edim (lg_db L) i = Inr f" "f \<in> set (d_facts (lg_db L))" "f_id f = i"
    "fact_row_ok edim (lg_db L) f"
proof -
  have inv: "db_inv edim (lg_db L)" using cyc_rel_inv [OF rel] by simp
  from i obtain f where "row (lg_db L) i = Some f" using row_None [of "lg_db L" i] by auto
  with that row_in [OF this] db_invD(4) [OF inv] show thesis by (simp add: fact_get_ok [OF inv])
qed

definition delta_ready :: "db \<Rightarrow> cycle_delta \<Rightarrow> bool" where
  \<comment> \<open>what the validation leaves to the constraints of the tables\<close>
  "delta_ready D d \<longleftrightarrow> (case d of
      AddFact nf \<Rightarrow> fact_constraint D nf = None
    | Synthesize _ nf \<Rightarrow> fact_constraint D nf = None \<and> nf_t_expired nf = None
    | Promote _ _ \<Rightarrow> d_identity D \<noteq> None
    | _ \<Rightarrow> True)"

lemma root_scope: "db_inv edim D \<Longrightarrow> 1 \<in> scope_ids_of D"
  by (metis db_invD(1) scopes_inv_root scope_ids_of_def image_eqI)


lemma cyc_not_in_lineage:
  assumes "cyc_rel edim L0 ex L" "i \<notin> fact_ids_of (lg_db L)" "lg_lineage L' = lg_lineage L"
  shows "i \<notin> li_wisdom_fact_id ` set (lg_lineage L')"
  using assms by (auto simp: cyc_rel_def log_inv_def)

lemma cyc_active:
  assumes "cyc_rel edim L0 ex L" "is_active (lg_db L0) i" "i \<notin> ex"
  shows "is_active (lg_db L) i" "i \<in> fact_ids_of (lg_db L)" "i \<in> fact_ids_of (lg_db L0)"
  using assms active_ids by (auto simp: cyc_rel_def)

lemma cyc_sources:
  assumes "cyc_rel edim L0 ex L" "validate_sources edim (lg_db L0) srcs ex = Inr ex'"
    "db_inv edim (lg_db L0)" "n \<in> fact_ids_of (lg_db L)" "n \<notin> fact_ids_of (lg_db L0)" "is_active (lg_db L) n"
    "nf_scope_id nf \<in> scope_ids_of (lg_db L0)"
  shows "\<exists>r L'. op_fold (synthesize_source edim nf n now) (enumerate k srcs) acc L = (Inr r, L') \<and>
    cyc_rel edim L0 ex' L' \<and> lg_lineage L' = lg_lineage L \<and> is_active (lg_db L') n \<and>
    set srcs \<subseteq> fact_ids_of (lg_db L')"
  using assms
proof (induction srcs arbitrary: k ex L acc)
  case (Cons src srcs)
  obtain a b ac where acc: "acc = (a, b, ac)" by (cases acc)
  note v = Cons.prems(2) [simplified and_then_eq_Inr validate_sources.simps, simplified]
  then have act: "is_active (lg_db L0) src" "src \<notin> ex"
    and rest: "validate_sources edim (lg_db L0) srcs (insert src ex) = Inr ex'"
    using require_active_ok [OF Cons.prems(3)] by auto
  note ids = cyc_active [OF Cons.prems(1) act]
  obtain f where f: "fact_get edim (lg_db L) src = Inr f" by (rule cyc_get [OF Cons.prems(1) ids(2)])
  obtain L1 where e: "on_tables (fact_expire src now) L = (Inr (), L1)" "cyc_rel edim L0 (insert src ex) L1"
    "lg_lineage L1 = lg_lineage L" "fact_ids_of (lg_db L1) = fact_ids_of (lg_db L)"
    "\<forall>j. j \<noteq> src \<longrightarrow> is_active (lg_db L1) j = is_active (lg_db L) j"
    using cyc_expire [OF Cons.prems(1) act] by blast
  have n: "n \<in> fact_ids_of (lg_db L1)" "src \<in> fact_ids_of (lg_db L1)" "is_active (lg_db L1) n"
    using Cons.prems(4-6) ids(2,3) e(4,5) by auto
  obtain q L2 where i: "on_tables (edge_insert (supersedes_edge n src (nf_scope_id nf) now)) L1 = (Inr q, L2)"
    "cyc_rel edim L0 (insert src ex) L2" "lg_lineage L2 = lg_lineage L1" "d_facts (lg_db L2) = d_facts (lg_db L1)"
    using cyc_edge [OF e(2) n(1,2) Cons.prems(7)] by blast
  have same: "fact_ids_of (lg_db L2) = fact_ids_of (lg_db L1)" "is_active (lg_db L2) = is_active (lg_db L1)"
    using i(4) by (auto simp: fact_ids_of_def is_active_def)
  obtain acc1 where s: "synthesize_source edim nf n now (k, src) acc L = (Inr acc1, L2)"
    using f e(1) i(1) by (cases acc; cases "k = 0") (auto simp: synthesize_source_def op_bind_step Let_def)
  from Cons.IH [OF i(2) rest Cons.prems(3) _ Cons.prems(5) _ Cons.prems(7), of "Suc k" acc1] n same
  obtain r L' where r: "op_fold (synthesize_source edim nf n now) (enumerate (Suc k) srcs) acc1 L2 = (Inr r, L')"
    "cyc_rel edim L0 ex' L'" "lg_lineage L' = lg_lineage L2" "is_active (lg_db L') n"
    "set srcs \<subseteq> fact_ids_of (lg_db L')" by auto
  have "src \<in> fact_ids_of (lg_db L')" using r(2) ids(3) by (auto simp: cyc_rel_def)
  moreover obtain r1 r2 r3 where "r = (r1, r2, r3)" by (cases r)
  ultimately show ?case using r s e(3) i(3) by (auto simp: op_bind_step)
qed auto

lemma apply_delta_succeeds:
  assumes rel: "cyc_rel edim L0 ex L" and inv: "db_inv edim (lg_db L0)"
    and v: "validate_delta E edim (lg_db L0) d ex = Inr ex'" and rd: "delta_ready (lg_db L0) d"
  shows "\<exists>acc' L'. apply_delta E edim now d acc L = (Inr acc', L') \<and> cyc_rel edim L0 ex' L'"
proof (cases d)
  case (AddFact nf)
  with v have "length (nf_embedding nf) = edim" "ex' = ex"
    by (auto simp: and_then_eq_Inr validate_new_fact_ok)
  with cyc_insert [OF rel this(1), of "ce_hash E"] rd AddFact show ?thesis
    by (auto simp: delta_ready_def op_bind_step)
next
  case (AdjustScore i adj)
  with v have a: "is_active (lg_db L0) i" "i \<notin> ex" and ex': "ex' = ex"
    by (auto simp: and_then_eq_Inr require_active_ok [OF inv] split: if_splits)
  note ids = cyc_active [OF rel a]
  obtain f where f: "fact_get edim (lg_db L) i = Inr f" "fact_row_ok edim (lg_db L) f"
    by (rule cyc_get [OF rel ids(2)])
  let ?v = "adjusted_importance adj (f_base_importance f)"
  have nan: "?v \<noteq> NaN" using f(2) adjusted_unit [THEN unit_not_NaN] by (auto simp: fact_row_ok_def)
  have "update_base_importance i ?v (lg_db L) =
      (Inr (), update_facts (\<lambda>f. f_id f = i) (\<lambda>f. f\<lparr>f_base_importance := ?v\<rparr>) (lg_db L))"
    using nan ids(2) by (auto simp: update_base_importance_def update_or_not_found_def fact_ids_of_def)
  from cyc_update [OF rel this keeps_on_tables_log(5)] f(1) AdjustScore ex' show ?thesis
    by (auto simp: op_bind_step)
next
  case (Quarantine i reason)
  with v have a: "is_active (lg_db L0) i" "i \<notin> ex" and ex': "ex' = insert i ex"
    by (auto simp: and_then_eq_Inr require_active_ok [OF inv])
  obtain L1 where e: "on_tables (fact_expire i now) L = (Inr (), L1)" "cyc_rel edim L0 (insert i ex) L1"
    "fact_ids_of (lg_db L1) = fact_ids_of (lg_db L)"
    using cyc_expire [OF rel a] by blast
  obtain kvs where kvs: "quarantine_patch E reason now = JObj kvs" by (simp add: quarantine_patch_def)
  have "i \<in> fact_ids_of (lg_db L1)" using e(3) cyc_active(2) [OF rel a] by simp
  then have "merge_metadata i (quarantine_patch E reason now) (lg_db L1) =
      (Inr (), update_facts (\<lambda>f. f_id f = i) (\<lambda>f. f\<lparr>f_metadata := merge_json (f_metadata f) kvs\<rparr>) (lg_db L1))"
    by (auto simp: merge_metadata_def kvs update_or_not_found_def fact_ids_of_def)
  from cyc_update [OF e(2) this keeps_on_tables_log(4)] e(1) Quarantine ex' show ?thesis
    by (auto simp: op_bind_step)
next
  case (Promote i prov)
  with v have a: "is_active (lg_db L0) i" "i \<notin> ex" and ex': "ex' = ex"
    by (auto simp: and_then_eq_Inr require_active_ok [OF inv])
  note ids = cyc_active [OF rel a]
  obtain f where f: "fact_get edim (lg_db L) i = Inr f" "fact_row_ok edim (lg_db L) f"
    by (rule cyc_get [OF rel ids(2)])
  have p: "require_present (lg_db L) = Inr ()"
    using rd rel Promote by (simp add: delta_ready_def require_present_def cyc_rel_def)
  have "fact_constraint (lg_db L0) (promote_fact E f prov now) = None"
    using f(2) root_scope [OF inv] by (simp add: fact_constraint_def promote_fact_def fact_row_ok_def)
  then obtain w L1 where i: "on_tables (fact_insert (ce_hash E) edim (promote_fact E f prov now)) L = (Inr w, L1)"
    "cyc_rel edim L0 ex L1" "w \<notin> fact_ids_of (lg_db L)" "is_active (lg_db L1) w" "lg_lineage L1 = lg_lineage L"
    using cyc_insert [OF rel, of "promote_fact E f prov now" "ce_hash E"] f(2)
    by (auto simp: promote_fact_def fact_row_ok_def)
  have "set [i] \<subseteq> fact_ids_of (lg_db L1)" using ids(3) i(2) by (auto simp: cyc_rel_def)
  from cyc_lineage [OF i(2,4) cyc_not_in_lineage [OF rel i(3,5)] this, of prov]
  obtain k L' where "lineage_insert w [i] prov L1 = (Inr k, L')" "cyc_rel edim L0 ex L'"
    by blast
  with f p i(1) ex' Promote show ?thesis by (auto simp: op_bind_step fact_row_ok_def)
next
  case (TagOutcome i oc)
  with v have ex': "ex' = ex" by (auto simp: and_then_eq_Inr)
  have "nv_scope_id (outcome_event i oc now) \<in> scope_ids_of (lg_db L0)"
    using root_scope [OF inv] by (simp add: outcome_event_def)
  from cyc_event [OF rel this, of "ce_registry E"] TagOutcome ex' show ?thesis by (auto simp: op_bind_step)
next
  case (Supersede old new)
  with v have a: "is_active (lg_db L0) old" "old \<notin> ex" and b: "is_active (lg_db L0) new" "new \<notin> ex"
    and ex': "ex' = insert old ex"
    by (auto simp: and_then_eq_Inr require_active_ok [OF inv])
  note ids = cyc_active(2) [OF rel a] cyc_active(2) [OF rel b]
  obtain f where f: "fact_get edim (lg_db L) new = Inr f" "fact_row_ok edim (lg_db L) f"
    by (rule cyc_get [OF rel ids(2)])
  have sid: "f_scope_id f \<in> scope_ids_of (lg_db L0)"
    using f(2) rel by (simp add: fact_row_ok_def cyc_rel_def scope_ids_of_def)
  obtain L1 where e: "on_tables (fact_expire old now) L = (Inr (), L1)" "cyc_rel edim L0 (insert old ex) L1"
    "fact_ids_of (lg_db L1) = fact_ids_of (lg_db L)"
    using cyc_expire [OF rel a] by blast
  from cyc_edge [OF e(2), of new old] ids e(3) sid obtain k L' where
    "on_tables (edge_insert (supersedes_edge new old (f_scope_id f) now)) L1 = (Inr k, L')"
    "cyc_rel edim L0 (insert old ex) L'" by blast
  with f e(1) ex' Supersede show ?thesis by (auto simp: op_bind_step)
next
  case (Synthesize sources nf)
  with v have dim: "length (nf_embedding nf) = edim"
    and srcs: "validate_sources edim (lg_db L0) sources ex = Inr ex'"
    by (auto simp: and_then_eq_Inr validate_new_fact_ok split: if_splits)
  from rd Synthesize have c: "fact_constraint (lg_db L0) nf = None" "nf_t_expired nf = None"
    by (auto simp: delta_ready_def)
  from cyc_insert [OF rel dim c(1), of "ce_hash E"] c(2) obtain n L1 where
    i: "on_tables (fact_insert (ce_hash E) edim nf) L = (Inr n, L1)" "cyc_rel edim L0 ex L1"
    "n \<notin> fact_ids_of (lg_db L)" "n \<in> fact_ids_of (lg_db L1)" "is_active (lg_db L1) n" "lg_lineage L1 = lg_lineage L"
    by blast
  have n: "n \<notin> fact_ids_of (lg_db L0)" using rel i(3) by (auto simp: cyc_rel_def)
  have sid: "nf_scope_id nf \<in> scope_ids_of (lg_db L0)"
    using c(1) by (auto simp: fact_constraint_def split: if_splits)
  from cyc_sources [OF i(2) srcs inv i(4) n i(5) sid, of now 0 "(nf_t_created nf, nf_t_created nf, acc)"]
  obtain rs re acc1 L2 where s: "op_fold (synthesize_source edim nf n now) (enumerate 0 sources)
      (nf_t_created nf, nf_t_created nf, acc) L1 = (Inr (rs, re, acc1), L2)" "cyc_rel edim L0 ex' L2"
    "lg_lineage L2 = lg_lineage L1" "is_active (lg_db L2) n" "set sources \<subseteq> fact_ids_of (lg_db L2)"
    by auto
  have "n \<notin> li_wisdom_fact_id ` set (lg_lineage L2)"
    using cyc_not_in_lineage [OF rel i(3), of L2] s(3) i(6) by simp
  from cyc_lineage [OF s(2,4) this s(5), of "synthesize_provenance sources rs re"] i(1) s(1) Synthesize
  show ?thesis by (auto simp: op_bind_step)
qed


lemma apply_fold_succeeds:
  assumes "cyc_rel edim L0 ex L" "db_inv edim (lg_db L0)"
    "validate_deltas E edim (lg_db L0) ds ex = Inr ex'" "\<forall>d \<in> set ds. delta_ready (lg_db L0) d"
  shows "\<exists>acc' L'. op_fold (apply_delta E edim now) ds acc L = (Inr acc', L') \<and> cyc_rel edim L0 ex' L'"
  using assms
proof (induction ds arbitrary: ex L acc)
  case (Cons d ds)
  from Cons.prems(3) obtain ex1 where v: "validate_delta E edim (lg_db L0) d ex = Inr ex1"
    "validate_deltas E edim (lg_db L0) ds ex1 = Inr ex'" by (auto simp: and_then_eq_Inr)
  from Cons.prems(4) have "delta_ready (lg_db L0) d" by simp
  from apply_delta_succeeds [OF Cons.prems(1,2) v(1) this, of now acc] obtain acc1 L1 where
    1: "apply_delta E edim now d acc L = (Inr acc1, L1)" "cyc_rel edim L0 ex1 L1" by blast
  from Cons.IH [OF 1(2) Cons.prems(2) v(2), of acc1] Cons.prems(4) obtain acc' L' where
    "op_fold (apply_delta E edim now) ds acc1 L1 = (Inr acc', L')" "cyc_rel edim L0 ex' L'" by auto
  with 1(1) show ?case by (auto simp: op_bind_step)
qed auto

text \<open>Every fact a delta names for the dream mark exists.\<close>

definition mark_ids :: "cycle_acc \<Rightarrow> fact_id set" where
  "mark_ids acc = set (ar_new_fact_ids (ca_result acc)) \<union> set (ar_promoted_fact_ids (ca_result acc)) \<union>
     set (ca_supersede_new_ids acc) \<union> set (ca_synthesize_new_ids acc)"

abbreviation has_ids :: "fact_id set \<Rightarrow> log_store \<Rightarrow> bool" where
  "has_ids F L \<equiv> F \<subseteq> fact_ids_of (lg_db L)"

lemma ids_update: "(\<And>f. f_id (g f) = f_id f) \<Longrightarrow> fact_ids_of (update_facts p g D) = fact_ids_of D"
  by (rule update_facts_ids(2)) simp

lemma ids_keeps [keeps_intros]:
  "keeps (has_ids F) (on_tables (fact_insert hash edim nf))"
  "keeps (has_ids F) (on_tables (edge_insert ne))"
  "keeps (has_ids F) (on_tables (fact_expire i now))"
  "keeps (has_ids F) (on_tables (merge_metadata i patch))"
  "keeps (has_ids F) (on_tables (update_base_importance i v))"
  "keeps (has_ids F) (lineage_insert w sources prov)" "keeps (has_ids F) (event_insert R nv)"
proof -
  show "keeps (has_ids F) (on_tables (fact_insert hash edim nf))"
    "keeps (has_ids F) (on_tables (edge_insert ne))"
    "keeps (has_ids F) (lineage_insert w sources prov)" "keeps (has_ids F) (event_insert R nv)"
    by (rule keepsI; auto simp: on_tables_def fact_insert_def edge_insert_def lineage_insert_def
        event_insert_def fact_ids_of_def Let_def split: prod.splits if_splits option.splits)+
  show "keeps (has_ids F) (on_tables (fact_expire i now))"
    "keeps (has_ids F) (on_tables (merge_metadata i patch))"
    "keeps (has_ids F) (on_tables (update_base_importance i v))"
    by (rule keepsI; auto simp: on_tables_def fact_expire_def merge_metadata_def ids_update
        update_base_importance_def update_or_not_found_def split: prod.splits if_splits json.splits)+
qed

lemma fact_insert_in_ids: "on_tables (fact_insert hash edim nf) L = (Inr i, L') \<Longrightarrow> i \<in> fact_ids_of (lg_db L')"
  by (auto simp: on_tables_def fact_insert_def Let_def new_fact_row_def split: prod.splits if_splits option.splits)

lemma synthesize_fold_marks:
  "op_fold (synthesize_source edim nf n now) xs (a, b, acc) L = (Inr (a', b', acc'), L') \<Longrightarrow>
    mark_ids acc' = mark_ids acc"
proof (induction xs arbitrary: a b acc L)
  case (Cons x xs)
  obtain i src where x: "x = (i, src)" by (cases x)
  from Cons.prems obtain a1 b1 acc1 L1 where
    1: "synthesize_source edim nf n now (i, src) (a, b, acc) L = (Inr (a1, b1, acc1), L1)"
    and 2: "op_fold (synthesize_source edim nf n now) xs (a1, b1, acc1) L1 = (Inr (a', b', acc'), L')"
    by (auto simp: x op_bind_Inr)
  from 1 have "mark_ids acc1 = mark_ids acc"
    by (auto simp: synthesize_source_def op_bind_Inr Let_def note_superseded_def mark_ids_def split: if_splits)
  with Cons.IH [OF 2] show ?case by simp
qed simp

lemma apply_delta_mono: "keeps (has_ids F) (apply_delta E edim now d acc)"
  by (intro keeps_apply_delta keeps_intros)

lemma apply_delta_marks:
  assumes r: "apply_delta E edim now d acc L = (Inr acc', L')" and m: "has_ids (mark_ids acc) L"
  shows "has_ids (mark_ids acc') L'"
proof -
  have old: "has_ids (mark_ids acc) L'" by (rule keepsD [OF apply_delta_mono m r])
  show ?thesis
  proof (cases d)
    case (AddFact nf)
    with r obtain i where "on_tables (fact_insert (ce_hash E) edim nf) L = (Inr i, L')"
      "mark_ids acc' = insert i (mark_ids acc)" by (auto simp: op_bind_Inr mark_ids_def)
    with old fact_insert_in_ids show ?thesis by auto
  next
    case (Promote j prov)
    with r obtain i L1 nf k where 1: "on_tables (fact_insert (ce_hash E) edim nf) L = (Inr i, L1)"
      and 2: "lineage_insert i [j] prov L1 = (Inr k, L')" and "mark_ids acc' = insert i (mark_ids acc)"
      by (auto simp: op_bind_Inr mark_ids_def split: if_splits)
    with old fact_insert_in_ids [OF 1] keepsD [OF ids_keeps(6) _ 2, of "{i}"] show ?thesis by auto
  next
    case (Supersede ol new)
    with r obtain f where f: "fact_get edim (lg_db L) new = Inr f" and m': "mark_ids acc' = insert new (mark_ids acc)"
      by (auto simp: op_bind_Inr mark_ids_def note_superseded_def)
    from f have "new \<in> fact_ids_of (lg_db L)"
      by (auto simp: fact_get_def fact_ids_of_def dest: find_eq_Some_in split: option.splits)
    with old m' keepsD [OF apply_delta_mono _ r, of "{new}"] show ?thesis by auto
  next
    case (Synthesize sources nf)
    with r obtain n L1 a b acc1 L2 k where
      1: "on_tables (fact_insert (ce_hash E) edim nf) L = (Inr n, L1)"
      and 2: "op_fold (synthesize_source edim nf n now) (enumerate 0 sources)
        (nf_t_created nf, nf_t_created nf, acc) L1 = (Inr (a, b, acc1), L2)"
      and 3: "lineage_insert n sources (synthesize_provenance sources a b) L2 = (Inr k, L')"
      and 4: "mark_ids acc' = insert n (mark_ids acc1)"
      by (auto simp: op_bind_Inr mark_ids_def)
    have "keeps (has_ids {n}) (op_fold (synthesize_source edim nf n now) (enumerate 0 sources)
        (nf_t_created nf, nf_t_created nf, acc))"
      by (intro keeps_fold keeps_synthesize_source keeps_intros)
    from keepsD [OF this _ 2] fact_insert_in_ids [OF 1] keepsD [OF ids_keeps(6) _ 3, of "{n}"]
    have "n \<in> fact_ids_of (lg_db L')" by auto
    with old synthesize_fold_marks [OF 2] 4 show ?thesis by auto
  qed (use r old in \<open>auto simp: op_bind_Inr mark_ids_def\<close>)
qed

lemma apply_fold_marks:
  "op_fold (apply_delta E edim now) ds acc L = (Inr acc', L') \<Longrightarrow> has_ids (mark_ids acc) L \<Longrightarrow>
    has_ids (mark_ids acc') L'"
proof (induction ds arbitrary: acc L)
  case (Cons d ds)
  from Cons.prems(1) obtain acc1 L1 where 1: "apply_delta E edim now d acc L = (Inr acc1, L1)"
    and 2: "op_fold (apply_delta E edim now) ds acc1 L1 = (Inr acc', L')" by (auto simp: op_bind_Inr)
  show ?case by (rule Cons.IH [OF 2 apply_delta_marks [OF 1 Cons.prems(2)]])
qed simp

lemma mark_succeeds:
  "set ids \<subseteq> fact_ids_of D \<Longrightarrow> \<exists>D'. mark_dream_cycled rfc ids k now D = (Inr (), D') \<and>
    fact_ids_of D' = fact_ids_of D \<and> (\<forall>i. is_active D' i = is_active D i)"
proof (induction ids arbitrary: D)
  case (Cons i ids)
  then have i: "\<exists>f \<in> set (d_facts D). f_id f = i" by (auto simp: fact_ids_of_def)
  obtain kvs where kvs: "dream_marker rfc k now = JObj kvs" by (simp add: dream_marker_def)
  let ?D = "update_facts (\<lambda>f. f_id f = i) (\<lambda>f. f\<lparr>f_metadata := merge_json (f_metadata f) kvs\<rparr>) D"
  have 1: "merge_metadata i (dream_marker rfc k now) D = (Inr (), ?D)"
    using i by (auto simp: merge_metadata_def kvs update_or_not_found_def)
  have ids: "fact_ids_of ?D = fact_ids_of D" by (rule ids_update) simp
  have act: "is_active ?D j = is_active D j" for j
  proof -
    define h :: "fact \<Rightarrow> fact" where "h = (\<lambda>f. if f_id f = i then f\<lparr>f_metadata := merge_json (f_metadata f) kvs\<rparr> else f)"
    have "f_id (h f) = f_id f" "is_active_row (h f) = is_active_row f" for f
      by (simp_all add: h_def is_active_row_def)
    moreover have "d_facts ?D = map h (d_facts D)" by (simp add: h_def)
    ultimately show ?thesis by (simp add: is_active_def)
  qed
  from Cons.IH [of ?D] Cons.prems ids obtain D' where
    "mark_dream_cycled rfc ids k now ?D = (Inr (), D')" "fact_ids_of D' = fact_ids_of ?D"
    "\<forall>i. is_active D' i = is_active ?D i" by auto
  with 1 ids act show ?case by (auto simp: mark_dream_cycled_def op_bind_step)
qed (simp add: mark_dream_cycled_def)

lemma cycle_applies:
  assumes inv: "log_inv edim L" and v: "validate_report E edim (lg_db L) report = Inr ()"
    and ready: "\<forall>d \<in> set (rp_deltas report). delta_ready (lg_db L) d"
    and ident: "list_ex carries_embedding (rp_deltas report) \<Longrightarrow> d_identity (lg_db L) \<noteq> None"
    and hist: "read_history E L = Inr history"
  shows "\<exists>x ex L'. apply_cycle_deltas_atomic E edim report now L = (Inr x, L') \<and>
    validate_deltas E edim (lg_db L) (rp_deltas report) {} = Inr ex \<and>
    (\<forall>i \<in> fact_ids_of (lg_db L). is_active (lg_db L') i \<longleftrightarrow> is_active (lg_db L) i \<and> i \<notin> ex)"
proof -
  have db: "db_inv edim (lg_db L)" using inv by (simp add: log_inv_def)
  from v obtain ex where ex: "validate_deltas E edim (lg_db L) (rp_deltas report) {} = Inr ex"
    and proc: "check_all (\<lambda>i. and_then (require_fact edim (lg_db L) i (UnknownFact i)) (\<lambda>_. Inr ()))
       (cm_processed_ids (rp_metadata report)) = Inr ()"
    by (auto simp: validate_report_def and_then_eq_Inr)
  from apply_fold_succeeds [OF cyc_rel_refl [OF inv] db ex ready, of now empty_cycle_acc] obtain acc L1 where
    f: "op_fold (apply_delta E edim now) (rp_deltas report) empty_cycle_acc L = (Inr acc, L1)"
    "cyc_rel edim L ex L1" by blast
  have "set (cm_processed_ids (rp_metadata report)) \<subseteq> fact_ids_of (lg_db L)"
    using proc require_fact_ok [OF db] by (auto simp: check_all_ok and_then_eq_Inr)
  moreover have "has_ids (mark_ids acc) L1"
    by (rule apply_fold_marks [OF f(1)]) (simp add: mark_ids_def empty_cycle_acc_def default_apply_result_def)
  ultimately have ids: "set (ids_to_mark report acc) \<subseteq> fact_ids_of (lg_db L1)"
    using f(2) by (auto simp: set_ids_to_mark mark_ids_def cyc_rel_def)
  from mark_succeeds [OF ids, of "ce_rfc3339 E" "cm_cycle_id (rp_metadata report)" now] obtain D where
    m: "mark_dream_cycled (ce_rfc3339 E) (ids_to_mark report acc) (cm_cycle_id (rp_metadata report)) now (lg_db L1)
      = (Inr (), D)" "\<forall>i. is_active D i = is_active (lg_db L1) i" by blast
  have "lg_config L1 = lg_config L"
    using keepsD [OF keeps_fold [OF keeps_config_delta] refl f(1)] .
  with hist have h: "read_history E L1 = Inr history" by (simp add: read_history_def get_config_def)
  let ?L2 = "L1\<lparr>lg_db := D\<rparr>"
  have m2: "(if ids_to_mark report acc = [] then op_return ()
      else on_tables (mark_dream_cycled (ce_rfc3339 E) (ids_to_mark report acc)
        (cm_cycle_id (rp_metadata report)) now)) L1 = (Inr (), ?L2)"
    using m(1) by (auto simp: on_tables_def mark_dream_cycled_def)
  have g: "op_reads (\<lambda>L. if list_ex carries_embedding (rp_deltas report)
      then require_present (lg_db L) else Inr ()) L = (Inr (), L)"
    using ident by (auto simp: require_present_def)
  define t where "t = ce_rfc3339 E (tw_end (cm_time_window (rp_metadata report)))"
  have h2: "read_history E (?L2\<lparr>lg_config := AList.update last_dream_cycle_at t (lg_config L1)\<rparr>) = Inr history"
    using h by (simp add: read_history_def get_config_def update_conv' last_dream_cycle_at_def
        dream_cycle_history_def)
  have p: "apply_pass E edim report now L = (Inr acc, ?L2\<lparr>lg_config := AList.update dream_cycle_history
      (ce_write_history E (append_history (rp_metadata report) history))
      (AList.update last_dream_cycle_at t (lg_config L1))\<rparr>)"
    unfolding apply_pass_def
    by (subst op_bind_step [where m = "op_reads (\<lambda>L. if list_ex carries_embedding (rp_deltas report)
          then require_present (lg_db L) else Inr ())", OF g], subst op_bind_step [where m = "op_fold (apply_delta E edim now) (rp_deltas report) empty_cycle_acc",
          OF f(1)],
        subst op_bind_step [where m = "if ids_to_mark report acc = [] then op_return () else on_tables
          (mark_dream_cycled (ce_rfc3339 E) (ids_to_mark report acc) (cm_cycle_id (rp_metadata report)) now)",
          OF m2])
      (use h2 in \<open>simp add: append_cycle_history_def set_config_def op_bind_def t_def\<close>)
  have "\<forall>i \<in> fact_ids_of (lg_db L). is_active D i \<longleftrightarrow> is_active (lg_db L) i \<and> i \<notin> ex"
    using m(2) f(2) by (simp add: cyc_rel_def)
  with ex v p apply_cycle_deltas_Inr [THEN iffD2, OF conjI, OF v exI, OF conjI, OF p]
  show ?thesis by fastforce
qed

end
