(* ===== verification/Cycle_Properties.thy ===== *)
theory Cycle_Properties
  imports Cycle_Apply Examples
begin

text \<open>
  The properties of the event log and of the dream cycle, with the concrete states their witnesses
  use: a log store over the example database, a report that supersedes, rescores and tags.
\<close>

definition ex_env :: cycle_env where
  "ex_env = \<lparr>ce_hash = (\<lambda>s. s), ce_chunks = (\<lambda>_. []), ce_rfc3339 = (\<lambda>_. ''t''), ce_serde_time = (\<lambda>_. ''t''),
     ce_write_history = (\<lambda>_. ''h''), ce_read_history = (\<lambda>_. Inr []), ce_registry = registry_new\<rparr>"

definition ex_meta :: cycle_metadata where
  "ex_meta = \<lparr>cm_cycle_id = 7, cm_ran_at = 3, cm_time_window = \<lparr>tw_start = 0, tw_end = 2\<rparr>,
     cm_facts_selected = 2, cm_method_version = ''m'', cm_processed_ids = [1, 2]\<rparr>"

definition ex_report :: "cycle_delta list \<Rightarrow> cycle_report" where
  "ex_report ds = \<lparr>rp_deltas = ds, rp_identity = \<lparr>io_anchors = [], io_core = [], io_predictions = []\<rparr>,
     rp_metadata = ex_meta\<rparr>"

definition ex_log :: log_store where
  "ex_log = \<lparr>lg_db = ex_db, lg_events = [], lg_lineage = [], lg_lineage_seq = 0, lg_config = []\<rparr>"

lemma ex_log_inv: "log_inv 1 ex_log"
  using ex_db_inv by (simp add: log_inv_def ex_log_def ex_db_def)

lemma ex_get:
  "fact_get (Suc 0) ex_db 1 = Inr (ex_fact 1 ''a'')" "fact_get (Suc 0) ex_db 2 = Inr (ex_fact 2 ''b'')"
  by (simp_all add: fact_get_def ex_db_def ex_fact_def row_to_fact_def)

lemma ex_require:
  "require_active (Suc 0) ex_db 1 m X = (if 1 \<in> X then Inl (Cycle (AlreadyExpired 1)) else Inr ())"
  "require_active (Suc 0) ex_db 2 m X = (if 2 \<in> X then Inl (Cycle (AlreadyExpired 2)) else Inr ())"
  "require_fact (Suc 0) ex_db 1 m = Inr (ex_fact 1 ''a'')" "require_fact (Suc 0) ex_db 2 m = Inr (ex_fact 2 ''b'')"
  by (simp_all add: require_active_def require_fact_def ex_get ensure_fact_active_def ex_fact_def)

lemma ex_adjust: "\<not> max_adjustment <s abs_i16 2"
  by (simp add: max_adjustment_def abs_i16_def word_sless_alt)

lemma ex_report_valid:
  "validate_report ex_env 1 ex_db (ex_report [Supersede 2 1, AdjustScore 1 2, TagOutcome 1 Positive]) = Inr ()"
  by (simp add: validate_report_def ex_report_def ex_meta_def ex_require ex_adjust)

subsection \<open>Applying a report\<close>

text \<open>C9: a report that passes the validation is applied, when its new facts satisfy the constraints
  of the tables, the store has an embedding identity where the report needs one and the stored history
  reads back. Afterwards exactly the facts the report expires are no longer active.\<close>

theorem cycle_report_applies:
  assumes "log_inv edim L" and "validate_report E edim (lg_db L) report = Inr ()"
    and "\<forall>d \<in> set (rp_deltas report). delta_ready (lg_db L) d"
    and "list_ex carries_embedding (rp_deltas report) \<longrightarrow> d_identity (lg_db L) \<noteq> None"
    and "read_history E L = Inr history"
  shows "\<exists>x ex L'. apply_cycle_deltas_atomic E edim report now L = (Inr x, L') \<and>
    validate_deltas E edim (lg_db L) (rp_deltas report) {} = Inr ex \<and>
    (\<forall>i \<in> fact_ids_of (lg_db L). is_active (lg_db L') i \<longleftrightarrow> is_active (lg_db L) i \<and> i \<notin> ex)"
  by (rule cycle_applies [OF assms(1-3) assms(4) [rule_format] assms(5)])

theorem cycle_report_applies_witness:
  "\<exists>x L'. apply_cycle_deltas_atomic ex_env 1
      (ex_report [Supersede 2 1, AdjustScore 1 2, TagOutcome 1 Positive]) 5 ex_log = (Inr x, L') \<and>
    is_active (lg_db L') 1 \<and> \<not> is_active (lg_db L') 2"
proof -
  let ?r = "ex_report [Supersede 2 1, AdjustScore 1 2, TagOutcome 1 Positive]"
  have "validate_report ex_env 1 (lg_db ex_log) ?r = Inr ()"
    using ex_report_valid by (simp add: ex_log_def)
  moreover have "\<forall>d \<in> set (rp_deltas ?r). delta_ready (lg_db ex_log) d"
    "list_ex carries_embedding (rp_deltas ?r) \<longrightarrow> d_identity (lg_db ex_log) \<noteq> None"
    by (simp_all add: ex_report_def delta_ready_def carries_embedding_def)
  moreover have "read_history ex_env ex_log = Inr []"
    by (simp add: read_history_def get_config_def ex_log_def)
  ultimately obtain x X L' where 1: "apply_cycle_deltas_atomic ex_env 1 ?r 5 ex_log = (Inr x, L')"
    "validate_deltas ex_env 1 (lg_db ex_log) (rp_deltas ?r) {} = Inr X"
    "\<forall>i \<in> fact_ids_of (lg_db ex_log). is_active (lg_db L') i \<longleftrightarrow> is_active (lg_db ex_log) i \<and> i \<notin> X"
    using cycle_report_applies [OF ex_log_inv, of ex_env ?r "[]" 5] by blast
  from 1(2) have "X = {2}" by (simp add: ex_report_def ex_log_def ex_require ex_adjust)
  with 1(3) have "is_active (lg_db L') 1 \<and> \<not> is_active (lg_db L') 2"
    by (simp add: ex_log_def ex_db_def fact_ids_of_def is_active_def ex_fact_def is_active_row_def)
  with 1(1) show ?thesis by blast
qed

lemmas ex_cycle_simps = op_bind_def apply_cycle_deltas_atomic_def apply_pass_def transaction_def
  on_tables_def fact_expire_def update_or_not_found_def is_active_row_def edge_insert_def
  supersedes_edge_def note_superseded_def empty_cycle_acc_def default_apply_result_def ids_to_mark_def
  mark_dream_cycled_def merge_metadata_def dream_marker_def append_cycle_history_def read_history_def
  get_config_def set_config_def fact_get_def row_to_fact_def fact_ids_of_def scope_ids_of_def
  carries_embedding_def dream_cycle_history_def last_dream_cycle_at_def

definition ex_super_edge :: edge where
  "ex_super_edge = \<lparr>e_id = 2, e_source_fact_id = 1, e_target_fact_id = 2, e_relation_type = Supersedes,
     e_weight = Fin 1, e_t_created = 5, e_t_expired = None, e_scope_id = 1\<rparr>"

lemma ex_supersede:
  "\<exists>res L'. apply_cycle_deltas_atomic ex_env 1 (ex_report [Supersede 2 1]) 5 ex_log =
      (Inr (res, [(1, 2, 2)], [2]), L') \<and> active_edges (lg_db L') = [ex_edge, ex_super_edge]"
proof -
  have v: "validate_report ex_env (Suc 0) ex_db (ex_report [Supersede 2 1]) = Inr ()"
    by (simp add: validate_report_def ex_report_def ex_meta_def ex_require)
  have s: "sort [1, 2, 1 :: int] = [1, 1, 2]" by simp
  show ?thesis
    using v ex_root_row
    by (simp add: ex_cycle_simps ex_log_def ex_report_def ex_meta_def ex_db_def ex_fact_def s ex_edge_def
      ex_super_edge_def update_facts_def active_edges_def is_active_edge_def Let_def ex_env_def)
qed



text \<open>C12: an applied report leaves its metadata at the end of a history of at most eight entries, the
  end of its window as the watermark, and a dream mark on every fact it processed, added or promoted.\<close>

theorem cycle_bookkeeping_exact:
  assumes "apply_cycle_deltas_atomic E edim report now L = (Inr (res, edges, expired), L')"
    and "read_history E L = Inr h"
    and "ce_read_history E (ce_write_history E (append_history (rp_metadata report) h)) =
      Inr (append_history (rp_metadata report) h)"
  shows "read_history E L' = Inr (append_history (rp_metadata report) h) \<and>
    length (append_history (rp_metadata report) h) \<le> 8 \<and>
    last (append_history (rp_metadata report) h) = rp_metadata report \<and>
    get_config L' last_dream_cycle_at = Some (ce_rfc3339 E (tw_end (cm_time_window (rp_metadata report)))) \<and>
    (\<forall>i \<in> set (cm_processed_ids (rp_metadata report)) \<union> set (ar_new_fact_ids res) \<union>
      set (ar_promoted_fact_ids res). dream_marked (lg_db L') i)"
  using cycle_bookkeeping [OF _ assms(1)] assms(2,3) append_history_bounds by auto

theorem cycle_bookkeeping_exact_witness:
  "\<exists>x L'. apply_cycle_deltas_atomic (ex_env\<lparr>ce_read_history := (\<lambda>_. Inr [ex_meta])\<rparr>) 1
      (ex_report [Supersede 2 1]) 5 ex_log = (Inr x, L') \<and>
    read_history (ex_env\<lparr>ce_read_history := (\<lambda>_. Inr [ex_meta])\<rparr>) L' = Inr [ex_meta] \<and>
    dream_marked (lg_db L') 1 \<and> dream_marked (lg_db L') 2"
proof -
  let ?E = "ex_env\<lparr>ce_read_history := (\<lambda>_. Inr [ex_meta])\<rparr>"
  let ?r = "ex_report [Supersede 2 1]"
  have v: "validate_report ?E 1 (lg_db ex_log) ?r = Inr ()"
    by (simp add: validate_report_def ex_report_def ex_meta_def ex_require ex_log_def)
  have h: "read_history ?E ex_log = Inr []"
    by (simp add: read_history_def get_config_def ex_log_def)
  have "\<exists>x L'. apply_cycle_deltas_atomic ?E 1 ?r 5 ex_log = (Inr x, L')"
    using cycle_applies [OF ex_log_inv v _ _ h, of 5]
    by (auto simp: ex_report_def delta_ready_def carries_embedding_def)
  then obtain res edges expired L' where
    r: "apply_cycle_deltas_atomic ?E 1 ?r 5 ex_log = (Inr (res, edges, expired), L')" by auto
  have a: "append_history (rp_metadata ?r) [] = [ex_meta]"
    by (simp add: append_history_def ex_report_def dream_cycle_history_max_def)
  have c: "ce_read_history ?E (ce_write_history ?E (append_history (rp_metadata ?r) [])) =
      Inr (append_history (rp_metadata ?r) [])" by (simp add: a)
  from cycle_bookkeeping_exact [OF r h c] have "read_history ?E L' = Inr [ex_meta]"
    "dream_marked (lg_db L') 1" "dream_marked (lg_db L') 2"
    by (simp_all add: a) (simp_all add: ex_report_def ex_meta_def)
  with r show ?thesis by blast
qed

subsection \<open>The graph after a cycle\<close>

text \<open>C11: a cycle only adds edges to the tables; the graph loses, for each superseded fact, every edge
  that touched it. So the graph never shows an edge the tables do not have, and it stays the graph
  of the active edges exactly when no superseded fact had an active edge when its turn came.\<close>

theorem cycle_graph_in_step_iff:
  assumes "petgraph_laws P" and "mirrors P g (active_edges (lg_db L))"
    and "apply_cycle_report E P ctx report now (L, g) = (Inr res, (L', g'))"
  shows "\<exists>new. active_edges (lg_db L') = active_edges (lg_db L) @ new \<and>
    mirrors P g' (superseded_edges (active_edges (lg_db L)) new) \<and>
    (mirrors P g' (active_edges (lg_db L')) \<longleftrightarrow> supersede_safe (active_edges (lg_db L)) new)"
  by (rule petgraph_laws.cycle_graph [OF assms])

theorem cycle_graph_in_step_iff_witness:
  "\<exists>res L' g'. apply_cycle_report ex_env list_petgraph ex_ctx (ex_report [Supersede 2 1]) 5 (ex_log, ex_graph) =
      (Inr res, (L', g')) \<and> \<not> mirrors list_petgraph g' (active_edges (lg_db L'))"
proof -
  from ex_supersede obtain res L' where
    c: "apply_cycle_deltas_atomic ex_env 1 (ex_report [Supersede 2 1]) 5 ex_log = (Inr (res, [(1, 2, 2)], [2]), L')"
    and a: "active_edges (lg_db L') = [ex_edge, ex_super_edge]" by blast
  let ?g = "mirror_supersedes list_petgraph [(1, 2, 2)] ex_graph"
  have r: "apply_cycle_report ex_env list_petgraph ex_ctx (ex_report [Supersede 2 1]) 5 (ex_log, ex_graph) =
      (Inr res, (L', ?g))"
    using c by (simp add: apply_cycle_report_def op_bind_def ex_ctx_open on_store_def) (simp add: ex_ctx_def)
  have old: "active_edges (lg_db ex_log) = [ex_edge]"
    by (simp add: ex_log_def ex_db_def active_edges_def is_active_edge_def ex_edge_def)
  have m: "mirrors list_petgraph ex_graph (active_edges (lg_db ex_log))"
    using ex_mirrors by (simp add: ex_log_def)
  from cycle_graph_in_step_iff [OF lpg.petgraph_laws_axioms m r] obtain new where
    "active_edges (lg_db L') = active_edges (lg_db ex_log) @ new"
    "mirrors list_petgraph ?g (active_edges (lg_db L')) \<longleftrightarrow> supersede_safe (active_edges (lg_db ex_log)) new"
    by blast
  then have "\<not> mirrors list_petgraph ?g (active_edges (lg_db L'))"
    by (auto simp: a old) (simp add: ex_super_edge_def ex_edge_def edge_touches_def)
  with r show ?thesis by blast
qed

text \<open>A report that supersedes a fact by itself passes the validation and is applied: the fact is
  expired with nothing in its place.\<close>

theorem self_supersede_expires:
  assumes "log_inv edim L" "is_active (lg_db L) i" "read_history E L = Inr h"
    and "rp_deltas report = [Supersede i i]" "cm_processed_ids (rp_metadata report) = []"
  shows "\<exists>x L'. apply_cycle_deltas_atomic E edim report now L = (Inr x, L') \<and> \<not> is_active (lg_db L') i"
proof -
  have inv: "db_inv edim (lg_db L)" using assms(1) by (simp add: log_inv_def)
  have v: "validate_report E edim (lg_db L) report = Inr ()"
    using assms(2,4,5) by (simp add: validate_report_def and_then_eq_Inr require_active_ok [OF inv])
  have "i \<in> fact_ids_of (lg_db L)" by (rule active_ids [OF assms(2)])
  moreover have "validate_deltas E edim (lg_db L) (rp_deltas report) {} = Inr {i}"
    using assms(2,4) by (simp add: and_then_eq_Inr require_active_ok [OF inv])
  ultimately show ?thesis
    using cycle_applies [OF assms(1) v _ _ assms(3), of now] assms(4)
    by (fastforce simp: delta_ready_def carries_embedding_def)
qed

theorem self_supersede_expires_witness:
  "\<exists>x L'. apply_cycle_deltas_atomic ex_env 1
      \<lparr>rp_deltas = [Supersede 1 1], rp_identity = \<lparr>io_anchors = [], io_core = [], io_predictions = []\<rparr>,
       rp_metadata = ex_meta\<lparr>cm_processed_ids := []\<rparr>\<rparr> 5 ex_log = (Inr x, L') \<and> \<not> is_active (lg_db L') 1"
proof (rule self_supersede_expires [OF ex_log_inv])
  show "is_active (lg_db ex_log) 1"
    by (simp add: ex_log_def ex_db_def is_active_def ex_fact_def is_active_row_def)
  show "read_history ex_env ex_log = Inr []"
    by (simp add: read_history_def get_config_def ex_log_def)
qed simp_all

subsection \<open>Score adjustments\<close>

lemma sint_neg_i16:
  assumes "sint w \<noteq> - 32768"
  shows "sint (- w :: 16 word) = - sint w"
proof -
  have "- 32768 \<le> sint w" "sint w < 32768"
    using sint_ge [of w] sint_lt [of w] by simp_all
  with assms show ?thesis by (simp add: sint_word_ariths signed_take_bit_int_eq_self)
qed

lemma abs_i16_small:
  "\<not> max_adjustment <s abs_i16 w \<longleftrightarrow> - 2 \<le> sint w \<and> sint w \<le> 2 \<or> sint w = - 32768"
proof (cases "sint w = - 32768")
  case True
  then have "sint w = sint (- 32768 :: 16 word)" by simp
  then have "w = - 32768" by (rule signed_word_eqI)
  then show ?thesis by (simp add: max_adjustment_def abs_i16_def word_sless_alt)
next
  case False
  then show ?thesis
    by (auto simp: max_adjustment_def abs_i16_def word_sless_alt sint_neg_i16)
qed


text \<open>C17: an adjustment is accepted for an active fact exactly when it is between -2 and 2, or when it
  is the least 16-bit value, whose absolute value wraps; an applied adjustment adds twentieths and stays
  in [0, 1], so the least value sets the importance to 0.\<close>

theorem adjustment_accepted_iff:
  assumes "db_inv edim D" "is_active D i" "i \<notin> expired"
  shows "(is_ok (validate_delta E edim D (AdjustScore i adj) expired) \<longleftrightarrow>
      - 2 \<le> sint adj \<and> sint adj \<le> 2 \<or> sint adj = - 32768) \<and>
    adjusted_importance adj (Fin x) = Fin (min 1 (max 0 (x + sint adj / 20))) \<and>
    (x \<le> 1 \<longrightarrow> adjusted_importance (- 32768) (Fin x) = Fin 0)"
proof -
  have "is_ok (validate_delta E edim D (AdjustScore i adj) expired) \<longleftrightarrow> \<not> max_adjustment <s abs_i16 adj"
    using require_active_ok [OF assms(1), of i "UnknownFact i" expired] assms(2,3) by simp
  moreover have "adjusted_importance adj (Fin x) = Fin (min 1 (max 0 (x + sint adj / 20)))" for adj x
    by (auto simp: adjusted_importance_def fl_clamp_def fl_mul_add_def importance_step_def Let_def
        min_def max_def)
  ultimately show ?thesis by (simp add: abs_i16_small)
qed

theorem adjustment_accepted_iff_witness:
  "is_ok (validate_delta ex_env 1 ex_db (AdjustScore 1 (- 32768)) {}) \<and>
   adjusted_importance (- 32768) (Fin (1/2)) = Fin 0"
proof -
  have "is_active ex_db 1" by (simp add: ex_db_def is_active_def ex_fact_def is_active_row_def)
  from adjustment_accepted_iff [OF ex_db_inv this, of "{}" ex_env "- 32768" "1/2"] show ?thesis by simp
qed

subsection \<open>The event log\<close>

text \<open>An inserted event is read back unchanged, by the raw read and by the upcasting one, since it
  carries the latest revision; every other event reads as before.\<close>

theorem event_roundtrip:
  assumes "log_inv edim L" "event_insert R nv L = (Inr i, L')"
  shows "event_get L' i = Inr (new_event_row R i nv) \<and>
    event_get_upcasted R L' i = Inr (new_event_row R i nv) \<and> log_inv edim L' \<and>
    (\<forall>j. j \<noteq> i \<longrightarrow> event_get L' j = event_get L j)"
  using event_insert_get [OF assms] keepsD [OF keeps_event_insert assms] by blast

theorem event_roundtrip_witness:
  "\<exists>L'. event_insert registry_new (outcome_event 1 Positive 5) ex_log = (Inr 1, L') \<and>
    event_get L' 1 = Inr (new_event_row registry_new 1 (outcome_event 1 Positive 5))"
proof -
  have "\<exists>L'. event_insert registry_new (outcome_event 1 Positive 5) ex_log = (Inr 1, L')"
    using ex_root_row by (simp add: event_insert_def outcome_event_def ex_log_def ex_db_def scope_ids_of_def Let_def)
  then obtain L' where r: "event_insert registry_new (outcome_event 1 Positive 5) ex_log = (Inr 1, L')" by blast
  from event_roundtrip [OF ex_log_inv r] r show ?thesis by blast
qed

text \<open>Upcasting ends for every registry and every stored revision, and is the composition of the
  functions registered from that revision up to the latest one; a chain without gaps, of functions that
  accept every payload, always reaches the latest revision.\<close>

theorem upcast_is_composition:
  "upcast R et rv v =
     and_then (compose_upcasters et (map_of (ur_upcasters R) et) (revisions_between rv (latest_revision R et)) v)
       (\<lambda>w. Inr (w, max rv (latest_revision R et))) \<and>
   (chain_total R et rv \<longrightarrow> (\<exists>w. upcast R et rv v = Inr (w, max rv (latest_revision R et))))"
  using upcast_composes upcast_total by blast

theorem upcast_is_composition_witness:
  "upcast (register ''e'' 1 (\<lambda>v. Inr (JArr [v])) registry_new) ''e'' 1 JNull = Inr (JArr [JNull], 2)"
proof -
  let ?R = "register ''e'' 1 (\<lambda>v. Inr (JArr [v])) registry_new"
  have l: "latest_revision ?R ''e'' = 2"
    by (simp add: latest_register sat_succ_u16_def latest_revision_def [of registry_new])
      (simp add: registry_new_def)
  have "revisions_between 1 2 = [1]" by (simp add: revisions_between_Cons revisions_between_Nil)
  moreover have "lookup_upcaster (map_of (ur_upcasters ?R) ''e'') 1 = Some (\<lambda>v. Inr (JArr [v]))"
    by (simp add: register_def lookup_upcaster_def registry_new_def Let_def)
  ultimately show ?thesis
    using upcast_is_composition [of ?R "''e''" 1 JNull] by (simp add: l upcast_with_def)
qed

end
