(* ===== verification/Snapshot.thy ===== *)
theory Snapshot
  imports Engine "HOL-Library.Word"
begin

text \<open>
  The sidecar snapshot, \<open>me-backend-sqlite/src/snapshot.rs\<close>, and its two users in the engine,
  \<open>flush_snapshot\<close> and \<open>try_load_snapshot\<close> (\<open>engine/mod.rs\<close>). The file is bytes: a
  little-endian length, the header, the payload and a 32-byte checksum. The MessagePack codec and
  the blake3 hash are a parameter, with the laws of \<open>codec_laws\<close>; the file system is the contents
  of the sidecar, \<open>None\<close> when there is none. The build without approximate search is modelled, so
  the vector part of the payload is written empty.

  The lemmas show that what is written is read back, and that the fingerprint of six counters is
  enough: when a store that has only moved forward shows the same fingerprint, the snapshot's graph
  and tree are projections of it.
\<close>

type_synonym byte = "8 word"

record db_fingerprint =
  dbf_max_fact_id :: int
  dbf_active_fact_count :: int
  dbf_max_edge_id :: int
  dbf_active_edge_count :: int
  dbf_max_scope_id :: int
  dbf_scope_count :: int

record snapshot_header =
  sh_format_version :: nat
  sh_fingerprint :: db_fingerprint
  sh_embed_dim :: nat
  sh_engine_version :: string

record snapshot_payload =
  sp_graph :: "graph_edge_snapshot list"
  sp_scope_tree :: "scope_node list"
  sp_hnsw :: "(fact_id \<times> fl list) list option"

record codec =
  \<comment> \<open>\<open>rmp_serde\<close> and \<open>blake3\<close>; an encoder fails with a message\<close>
  enc_header :: "snapshot_header \<Rightarrow> string + byte list"
  dec_header :: "byte list \<Rightarrow> snapshot_header option"
  enc_payload :: "snapshot_payload \<Rightarrow> string + byte list"
  dec_payload :: "byte list \<Rightarrow> snapshot_payload option"
  checksum :: "byte list \<Rightarrow> byte list"

definition codec_laws :: "codec \<Rightarrow> bool" where
  \<comment> \<open>decoding what was encoded gives it back, no encoding is empty, a checksum has 32 bytes\<close>
  "codec_laws C \<longleftrightarrow>
     (\<forall>h bs. enc_header C h = Inr bs \<longrightarrow> dec_header C bs = Some h \<and> bs \<noteq> []) \<and>
     (\<forall>p bs. enc_payload C p = Inr bs \<longrightarrow> dec_payload C bs = Some p \<and> bs \<noteq> []) \<and>
     (\<forall>bs. length (checksum C bs) = 32)"

definition format_version :: nat where "format_version = 2"

definition blake3_len :: nat where "blake3_len = 32"

definition max_snapshot_bytes :: nat where "max_snapshot_bytes = 512 * 1024 * 1024"

subsection \<open>The fingerprint\<close>

definition max_id :: "int list \<Rightarrow> int" where
  \<comment> \<open>\<open>COALESCE(MAX(id), 0)\<close>\<close>
  "max_id ids = (case ids of [] \<Rightarrow> 0 | i # is \<Rightarrow> fold max is i)"

definition read_fingerprint :: "db \<Rightarrow> db_fingerprint" where
  "read_fingerprint D =
     \<lparr>dbf_max_fact_id = max_id (map f_id (d_facts D)),
      dbf_active_fact_count = int (length (filter is_active_row (d_facts D))),
      dbf_max_edge_id = max_id (map e_id (d_edges D)),
      dbf_active_edge_count = int (length (filter is_active_edge (d_edges D))),
      dbf_max_scope_id = max_id (map sn_id (sc_rows (d_scopes D))),
      dbf_scope_count = int (length (sc_rows (d_scopes D)))\<rparr>"

subsection \<open>The file\<close>

definition u32_to_le :: "nat \<Rightarrow> byte list" where
  "u32_to_le n = map (\<lambda>i. word_of_nat (n div 256 ^ i)) [0..<4]"

definition u32_from_le :: "byte list \<Rightarrow> nat" where
  "u32_from_le bs = foldr (\<lambda>b n. unat b + 256 * n) bs 0"

definition snapshot_file :: "codec \<Rightarrow> snapshot_header \<Rightarrow> snapshot_payload \<Rightarrow> byte list result" where
  \<comment> \<open>\<open>write_to_file\<close>: the bytes that replace the file, atomically by a rename\<close>
  "snapshot_file C header payload =
     (case enc_header C header of
        Inl e \<Rightarrow> Inl (Internal (Fmt ''snapshot header serialize: {}'' [AStr e]))
      | Inr header_bytes \<Rightarrow>
        (case enc_payload C payload of
           Inl e \<Rightarrow> Inl (Internal (Fmt ''snapshot payload serialize: {}'' [AStr e]))
         | Inr payload_bytes \<Rightarrow>
             if length header_bytes \<ge> 2 ^ 32 then Inl (Internal (Lit ''snapshot header too large''))
             else Inr (u32_to_le (length header_bytes) @ header_bytes @ payload_bytes
                    @ checksum C payload_bytes)))"

definition size_gate :: "byte list option \<Rightarrow> nat \<Rightarrow> bool" where
  \<comment> \<open>whether to proceed\<close>
  "size_gate file cap = (case file of None \<Rightarrow> False | Some data \<Rightarrow> length data \<le> cap)"

definition load_from_file ::
    "codec \<Rightarrow> byte list option \<Rightarrow> nat \<Rightarrow> (snapshot_header \<times> snapshot_payload) option" where
  "load_from_file C file edim =
     (case file of None \<Rightarrow> None
      | Some data \<Rightarrow>
        if \<not> size_gate file max_snapshot_bytes then None
        else if length data < 4 + 1 + 1 + blake3_len then None
        else let header_end = 4 + u32_from_le (take 4 data)
        in if header_end \<ge> length data - blake3_len then None
        else let header_bytes = take (header_end - 4) (drop 4 data);
                 payload_end = length data - blake3_len;
                 payload_bytes = take (payload_end - header_end) (drop header_end data);
                 stored_checksum = drop payload_end data
        in case dec_header C header_bytes of None \<Rightarrow> None
        | Some header \<Rightarrow>
          if sh_format_version header \<noteq> format_version then None
          else if sh_embed_dim header \<noteq> edim then None
          else if checksum C payload_bytes \<noteq> stored_checksum then None
          else (case dec_payload C payload_bytes of None \<Rightarrow> None
                | Some payload \<Rightarrow>
                  (case sp_hnsw payload of
                     Some entries \<Rightarrow>
                       if \<exists>e \<in> set entries. length (snd e) \<noteq> edim then None
                       else Some (header, payload)
                   | None \<Rightarrow> Some (header, payload))))"

subsection \<open>The engine's use of it\<close>

definition write_engine_snapshot ::
    "codec \<Rightarrow> string \<Rightarrow> nat \<Rightarrow> bool \<Rightarrow> bool \<Rightarrow> db \<Rightarrow> graph_edge_snapshot list \<Rightarrow> scope_node list
      \<Rightarrow> byte list option \<Rightarrow> bool result \<times> byte list option" where
  "write_engine_snapshot C version edim file_backed read_only D graph scopes file =
     (if \<not> file_backed \<or> read_only then (Inr False, file)
      else case snapshot_file C
        \<lparr>sh_format_version = format_version, sh_fingerprint = read_fingerprint D,
         sh_embed_dim = edim, sh_engine_version = version\<rparr>
        \<lparr>sp_graph = graph, sp_scope_tree = scopes, sp_hnsw = None\<rparr> of
        Inl e \<Rightarrow> (Inl e, file)
      | Inr data \<Rightarrow> (Inr True, Some data))"

definition flush_snapshot ::
    "codec \<Rightarrow> string \<Rightarrow> 'g petgraph \<Rightarrow> bool \<Rightarrow> memory_ctx \<Rightarrow> 'g engine_state \<Rightarrow> byte list option
      \<Rightarrow> bool result \<times> byte list option" where
  "flush_snapshot C version P file_backed ctx = (\<lambda>(D, g, t) file.
     if ctx_read_only ctx then (Inr False, file)
     else if ctx_reopen_required ctx \<noteq> 0 then (Inr False, file)
     else write_engine_snapshot C version (ctx_embed_dim ctx) file_backed (ctx_read_only ctx) D
            (to_snapshot P g) (tree_to_snapshot t) file)"

definition try_load_snapshot ::
    "codec \<Rightarrow> 'g petgraph \<Rightarrow> nat \<Rightarrow> byte list option \<Rightarrow> db
      \<Rightarrow> ('g memory_graph \<times> scope_tree) option" where
  \<comment> \<open>\<open>file\<close> is \<open>None\<close> also for an engine in memory, which has no path\<close>
  "try_load_snapshot C P edim file D =
     (case load_from_file C file edim of None \<Rightarrow> None
      | Some (header, payload) \<Rightarrow>
        if sh_fingerprint header \<noteq> read_fingerprint D then None
        else if int (length (sp_graph payload)) \<noteq> dbf_active_edge_count (read_fingerprint D) then None
        else (case from_snapshot P (sp_graph payload) (existing_fact_ids D) of
                Inl e \<Rightarrow> None
              | Inr graph \<Rightarrow> Some (graph, tree_from_snapshot (sp_scope_tree payload))))"

definition engine_open_file ::
    "codec \<Rightarrow> 'g petgraph \<Rightarrow> nat \<Rightarrow> byte list option \<Rightarrow> db \<Rightarrow> 'g engine_state" where
  \<comment> \<open>recovery of the projections in \<open>init_from_pool\<close>\<close>
  "engine_open_file C P edim file D =
     (case try_load_snapshot C P edim file D of
        Some (graph, tree) \<Rightarrow> (D, graph, tree)
      | None \<Rightarrow> engine_open P D)"

subsection \<open>What is written is read back\<close>

lemma codec_lawsD:
  assumes "codec_laws C"
  shows "enc_header C h = Inr bs \<Longrightarrow> dec_header C bs = Some h" "enc_header C h = Inr bs \<Longrightarrow> bs \<noteq> []"
    "enc_payload C p = Inr bs \<Longrightarrow> dec_payload C bs = Some p" "enc_payload C p = Inr bs \<Longrightarrow> bs \<noteq> []"
    "length (checksum C bs) = 32"
  using assms unfolding codec_laws_def by blast+

lemma length_u32_to_le [simp]: "length (u32_to_le n) = 4"
  by (simp add: u32_to_le_def)

lemma u32_roundtrip: "n < 2 ^ 32 \<Longrightarrow> u32_from_le (u32_to_le n) = n"
proof -
  assume n: "n < 2 ^ 32"
  have "[0..<4] = [0, 1, 2, 3::nat]" by (simp add: upt_rec)
  moreover have "n div 16777216 mod 256 = n div 16777216"
    using n by (intro mod_less) (simp add: div_less_iff_less_mult)
  moreover have "n div 65536 = n div 256 div 256" "n div 16777216 = n div 65536 div 256"
    by (simp_all flip: div_mult2_eq)
  then have "n mod 256 + 256 * (n div 256 mod 256 + 256 * (n div 65536 mod 256
      + 256 * (n div 16777216))) = n" by (simp only: mod_mult_div_eq)
  ultimately show ?thesis
    by (simp add: u32_from_le_def u32_to_le_def unat_of_nat take_bit_eq_mod)
qed

lemma snapshot_file_reads_back:
  assumes C: "codec_laws C" and w: "snapshot_file C header payload = Inr data"
    and size: "length data \<le> max_snapshot_bytes"
  shows "load_from_file C (Some data) edim =
    (if sh_format_version header = format_version \<and> sh_embed_dim header = edim \<and>
        (\<forall>es. sp_hnsw payload = Some es \<longrightarrow> (\<forall>e \<in> set es. length (snd e) = edim))
     then Some (header, payload) else None)"
proof -
  from w obtain hb pb where h: "enc_header C header = Inr hb" and p: "enc_payload C payload = Inr pb"
    and len: "length hb < 2 ^ 32" and data: "data = u32_to_le (length hb) @ hb @ pb @ checksum C pb"
    by (auto simp: snapshot_file_def split: sum.splits if_splits)
  note laws = codec_lawsD [OF C]
  have l: "length (checksum C pb) = 32" by (rule laws(5))
  have pos: "0 < length hb" "0 < length pb" using laws(2) [OF h] laws(4) [OF p] by auto
  have t4: "take 4 data = u32_to_le (length hb)" by (simp add: data)
  have hl: "u32_from_le (take 4 data) = length hb" unfolding t4 by (rule u32_roundtrip [OF len])
  have ld: "length data = 4 + length hb + length pb + 32" by (simp add: data l)
  have hb: "take (length hb) (drop 4 data) = hb" by (simp add: data)
  have pbt: "take (length pb) (drop (4 + length hb) data) = pb" by (simp add: data)
  have ck: "drop (4 + (length hb + length pb)) data = checksum C pb" by (simp add: data)
  have two: "2 \<le> length hb + length pb" using pos by linarith
  show ?thesis
    using size pos two laws(1) [OF h] laws(3) [OF p]
    by (auto simp: load_from_file_def size_gate_def hl ld hb pbt ck blake3_len_def Let_def
        split: option.split)
qed

subsection \<open>The fingerprint is enough\<close>

lemma max_id_upper: "i \<in> set ids \<Longrightarrow> i \<le> max_id ids"
  by (cases ids) (auto simp: max_id_def Max_ge simp flip: Max.set_eq_fold)

lemma max_id_bound: "(\<And>i. i \<in> set ids \<Longrightarrow> i \<le> b) \<Longrightarrow> 0 \<le> b \<Longrightarrow> max_id ids \<le> b"
  by (cases ids) (auto simp: max_id_def simp flip: Max.set_eq_fold)

lemma strict_sorted_unique:
  fixes f :: "'a \<Rightarrow> int"
  assumes "sorted_wrt (<) (map f xs)" "sorted_wrt (<) (map f ys)" "set xs = set ys"
  shows "xs = ys"
proof -
  have "map f xs = map f ys"
    using assms by (intro strict_sorted_equal) auto
  moreover have "inj_on f (set xs \<union> set ys)"
    using assms(1,3) by (simp add: strict_sorted_iff distinct_map)
  ultimately show ?thesis by (rule map_inj_on)
qed

lemma same_fingerprint_edges:
  assumes inv: "db_inv edim D" "db_inv edim D'" and ev: "edges_evolve D D'"
    and fp: "dbf_max_edge_id (read_fingerprint D') = dbf_max_edge_id (read_fingerprint D)"
      "dbf_active_edge_count (read_fingerprint D') = dbf_active_edge_count (read_fingerprint D)"
  shows "active_edges D' = active_edges D"
proof -
  have "max_id (map e_id (d_edges D)) \<le> d_edge_seq D"
    using inv(1) by (intro max_id_bound) (auto simp: db_inv_def list_all_iff edge_row_ok_def)
  then have old: "e_id e \<le> d_edge_seq D" if "e \<in> set (d_edges D')" for e
    using max_id_upper [of "e_id e" "map e_id (d_edges D')"] that fp(1) by (simp add: read_fingerprint_def)
  have sub: "set (active_edges D') \<subseteq> set (active_edges D)"
    using ev old by (force simp: edges_evolve_def active_edges_def)
  have d: "distinct (active_edges D)" "distinct (active_edges D')"
    using db_inv_distinct(2) [OF inv(1)] db_inv_distinct(2) [OF inv(2)]
    by (auto simp: active_edges_def distinct_map)
  have "card (set (active_edges D')) = card (set (active_edges D))"
    unfolding distinct_card [OF d(1)] distinct_card [OF d(2)]
    using fp(2) by (simp add: read_fingerprint_def active_edges_def)
  with sub have eq: "set (active_edges D') = set (active_edges D)" by (simp add: card_subset_eq)
  have "sorted_wrt (<) (map e_id (active_edges D''))" if "db_inv edim D''" for D''
    using db_invD(3) [OF that] by (simp add: active_edges_def sorted_wrt_map sorted_wrt_filter)
  with inv eq show ?thesis by (blast intro: strict_sorted_unique)
qed

lemma same_fingerprint_scopes:
  assumes "scopes_from (sc_rows (d_scopes D)) D'"
    and "dbf_scope_count (read_fingerprint D') = dbf_scope_count (read_fingerprint D)"
  shows "sc_rows (d_scopes D') = sc_rows (d_scopes D)"
  using assms by (auto simp: scopes_from_def read_fingerprint_def)

lemma tree_snapshot_subtree:
  assumes sub: "subtree_of t T"
  shows "subtree_of (tree_from_snapshot (tree_to_snapshot t)) T"
proof -
  have ix: "distinct (map fst (st_nodes t))" "\<forall>(i, n) \<in> set (st_nodes t). sn_id n = i"
    using sub by (auto simp: subtree_of_def index_ok_def)
  have e: "tree_from_snapshot (tree_to_snapshot t) = from_nodes (tree_to_snapshot t)"
    by (simp add: tree_from_snapshot_def from_nodes_def)
  have ids: "map sn_id (tree_to_snapshot t) = map fst (st_nodes t)"
    using ix(2) by (auto simp: tree_to_snapshot_def)
  then have d: "distinct (map sn_id (tree_to_snapshot t))" using ix(1) by simp
  have "map (\<lambda>n. (sn_id n, n)) (tree_to_snapshot t) = st_nodes t"
    using ix(2) by (auto simp: tree_to_snapshot_def comp_def intro!: map_idI)
  then have "st_nodes (from_nodes (tree_to_snapshot t)) = st_nodes t"
    by (simp add: from_nodes_nodes [OF d])
  with sub from_nodes_index_ok [OF d] show ?thesis unfolding e subtree_of_def by simp
qed

context petgraph_laws begin

lemma loaded_snapshot_mirrors:
  assumes m: "mirrors P g es" and l: "from_snapshot P (to_snapshot P g) existing = Inr g'"
  shows "mirrors P g' es"
proof -
  have "abs_edges P g' = image_mset (\<lambda>e. (ge_source e, ge_target e, snapshot_data e)) (mset (to_snapshot P g))"
    by (rule from_snapshot_ok(5) [OF l])
  also have "\<dots> = abs_edges P g"
    by (auto simp: to_snapshot_def abs_edges_def multiset.map_comp comp_def abs_edge_def snapshot_data_def
        intro!: image_mset_cong)
  finally show ?thesis using m from_snapshot_ok(3) [OF l] by (simp add: mirrors_def)
qed

end

lemma open_from_sidecar_ok:
  assumes C: "codec_laws C" and P: "petgraph_laws P" and ok: "engine_ok edim P (D, g, t)"
    and w: "flush_snapshot C version P file_backed ctx (D, g, t) file = (Inr True, Some data)"
    and ok': "store_ok edim D'" and ext: "store_extends D D'"
  shows "engine_ok edim P (engine_open_file C P edim (Some data) D')"
proof (cases "try_load_snapshot C P edim (Some data) D'")
  case None
  with engine_open_ok [OF P ok'] show ?thesis by (simp add: engine_open_file_def)
next
  case (Some p)
  obtain g' t' where p: "p = (g', t')" by (cases p)
  let ?h = "\<lparr>sh_format_version = format_version, sh_fingerprint = read_fingerprint D,
    sh_embed_dim = ctx_embed_dim ctx, sh_engine_version = version\<rparr>"
  let ?p = "\<lparr>sp_graph = to_snapshot P g, sp_scope_tree = tree_to_snapshot t, sp_hnsw = None\<rparr>"
  have f: "snapshot_file C ?h ?p = Inr data"
    using w by (auto simp: flush_snapshot_def write_engine_snapshot_def split: if_splits sum.splits)
  obtain h pl where l: "load_from_file C (Some data) edim = Some (h, pl)"
    and fp: "sh_fingerprint h = read_fingerprint D'"
    and g': "from_snapshot P (sp_graph pl) (existing_fact_ids D') = Inr g'"
    and t': "t' = tree_from_snapshot (sp_scope_tree pl)"
    using Some p by (auto simp: try_load_snapshot_def split: option.splits if_splits sum.splits)
  have "length data \<le> max_snapshot_bytes"
    using l by (auto simp: load_from_file_def size_gate_def split: if_splits)
  from snapshot_file_reads_back [OF C f this, of edim] l have hp: "h = ?h" "pl = ?p"
    by (auto split: if_splits)
  have fp: "read_fingerprint D' = read_fingerprint D" using fp by (simp add: hp)
  have e: "active_edges D' = active_edges D"
    using ok ok' ext fp by (intro same_fingerprint_edges [of edim]) (auto simp: engine_ok_def store_ok_def store_extends_def)
  have s: "sc_rows (d_scopes D') = sc_rows (d_scopes D)"
    using ext fp by (intro same_fingerprint_scopes) (auto simp: store_extends_def)
  have "from_snapshot P (to_snapshot P g) (existing_fact_ids D') = Inr g'"
    using g' by (simp add: hp)
  from petgraph_laws.loaded_snapshot_mirrors [OF P _ this] ok e
  have "mirrors P g' (active_edges D')" by (simp add: engine_ok_def)
  moreover have "subtree_of t' (from_nodes (sc_rows (d_scopes D')))"
    using tree_snapshot_subtree ok by (simp add: t' hp s engine_ok_def)
  ultimately show ?thesis
    using ok' Some by (simp add: engine_open_file_def engine_ok_def p)
qed

lemma engine_steps_ok:
  assumes "(engine_step hash edim P)\<^sup>*\<^sup>* s s'" "petgraph_laws P" "engine_ok edim P s"
  shows "engine_ok edim P s' \<and> store_extends (fst s) (fst s')"
  using assms
  by (induction rule: rtranclp_induct)
    (auto intro: engine_step_ok dest: engine_step_extends store_extends_trans)

end
