(* ===== verification/Dbscan.thy ===== *)
theory Dbscan
  imports Search_Index
begin

text \<open>
  Density clustering of embeddings (\<open>me-cognitive/src/dbscan.rs\<close>): the labels, the expansion of a
  seed over the queue with its \<open>queued\<close> marks, and the grouping of the labels into clusters.

  The loop over \<open>seeds[i..]\<close> is a recursion on the part of the queue that is still to come; a push
  on it flips a mark, so that the marks not set and the length of the queue bound the loop. The lemmas
  show that the labels are those of the declarative clustering: two core points share a label exactly
  when a chain of neighbouring core points connects them, and a point is noise exactly when it is no
  core point and has no core neighbour. The argument needs a neighbour relation that is symmetric
  and stays in range; that is the locale \<open>neighbourhood\<close>, interpreted on the cosine neighbours.
\<close>

subsection \<open>The code\<close>

definition max_dbscan_points :: nat where "max_dbscan_points = 10000"

definition UNVISITED :: int where "UNVISITED = -2"

definition NOISE :: int where "NOISE = -1"

definition neighbours :: "(fact_id \<times> fl list) list \<Rightarrow> fl \<Rightarrow> nat \<Rightarrow> nat list" where
  "neighbours points sim_threshold i =
     filter (\<lambda>j. j \<noteq> i \<and>
        fl_le sim_threshold (cosine_similarity (snd (points ! i)) (snd (points ! j))))
       [0..<length points]"

fun push_unqueued :: "nat list \<Rightarrow> bool list \<Rightarrow> nat list \<times> bool list" where
  \<comment> \<open>the points to push on \<open>seeds\<close>, and the marks; every neighbour is in range\<close>
  "push_unqueued [] queued = ([], queued)"
| "push_unqueued (r # rs) queued =
     (if r < length queued \<and> \<not> queued ! r
      then (case push_unqueued rs (queued[r := True]) of (new, queued') \<Rightarrow> (r # new, queued'))
      else push_unqueued rs queued)"

definition unmarked :: "bool list \<Rightarrow> nat" where
  "unmarked queued = length (filter Not queued)"

lemma unmarked_set: "r < length queued \<Longrightarrow> \<not> queued ! r \<Longrightarrow>
    Suc (unmarked (queued[r := True])) = unmarked queued"
  unfolding unmarked_def
  by (induction queued arbitrary: r) (auto split: nat.splits simp: nth_Cons')

lemma push_unqueued_unmarked:
  "push_unqueued rs queued = (new, queued') \<Longrightarrow> length new + unmarked queued' = unmarked queued"
proof (induction rs queued arbitrary: new queued' rule: push_unqueued.induct)
  case (2 r rs queued)
  then show ?case
    by (fastforce split: if_splits prod.splits dest: unmarked_set)
qed simp

function (sequential) expand ::
    "(nat \<Rightarrow> nat list) \<Rightarrow> nat \<Rightarrow> int \<Rightarrow> nat list \<Rightarrow> bool list \<Rightarrow> int list \<Rightarrow> int list" where
  \<comment> \<open>the list is \<open>seeds[i..]\<close>\<close>
  "expand nbs min_pts cluster_id [] queued labels = labels"
| "expand nbs min_pts cluster_id (q # rest) queued labels =
     (let labels = (if labels ! q = NOISE then labels[q := cluster_id] else labels) in
      if labels ! q \<noteq> UNVISITED then expand nbs min_pts cluster_id rest queued labels
      else
        let labels = labels[q := cluster_id]; q_neighbours = nbs q in
        if min_pts \<le> length q_neighbours + 1
        then (case push_unqueued q_neighbours queued of (new, queued') \<Rightarrow>
                expand nbs min_pts cluster_id (rest @ new) queued' labels)
        else expand nbs min_pts cluster_id rest queued labels)"
  by pat_completeness auto

termination
  by (relation "measure (\<lambda>(_, _, _, seeds, queued, _). length seeds + unmarked queued)")
    (auto dest!: push_unqueued_unmarked [OF sym])

definition visit ::
    "(nat \<Rightarrow> nat list) \<Rightarrow> nat \<Rightarrow> nat \<Rightarrow> nat \<Rightarrow> int list \<times> int \<Rightarrow> int list \<times> int" where
  \<comment> \<open>the body of the loop over the points\<close>
  "visit nbs min_pts n p = (\<lambda>(labels, cluster_id).
     if labels ! p \<noteq> UNVISITED then (labels, cluster_id)
     else
       let seeds = nbs p in
       if length seeds + 1 < min_pts then (labels[p := NOISE], cluster_id)
       else
         let queued = fold (\<lambda>s marks. marks[s := True]) seeds ((replicate n False)[p := True]) in
         (expand nbs min_pts cluster_id seeds queued (labels[p := cluster_id]), cluster_id + 1))"

definition dbscan_labels :: "(nat \<Rightarrow> nat list) \<Rightarrow> nat \<Rightarrow> nat \<Rightarrow> int list \<times> int" where
  "dbscan_labels nbs min_pts n = fold (visit nbs min_pts n) [0..<n] (replicate n UNVISITED, 0)"

definition push_point :: "int list \<Rightarrow> nat \<times> fact_id \<times> fl list \<Rightarrow> fact_id list list \<Rightarrow> fact_id list list" where
  "push_point labels = (\<lambda>(idx, fact_id, _) clusters.
     let label = labels ! idx in
     if 0 \<le> label then clusters[nat label := clusters ! nat label @ [fact_id]] else clusters)"

definition dbscan :: "(fact_id \<times> fl list) list \<Rightarrow> fl \<Rightarrow> nat \<Rightarrow> fact_id list list" where
  "dbscan points eps min_pts =
     (let n = length points in
      if n = 0 \<or> min_pts = 0 then []
      else if max_dbscan_points < n then []
      else
        let sim_threshold = fl_sub (Fin 1) eps in
        case dbscan_labels (neighbours points sim_threshold) min_pts n of (labels, cluster_id) \<Rightarrow>
          fold (push_point labels) (enumerate 0 points) (replicate (nat cluster_id) []))"

subsection \<open>The clustering it computes\<close>

definition core :: "(nat \<Rightarrow> nat list) \<Rightarrow> nat \<Rightarrow> nat \<Rightarrow> bool" where
  "core nbs min_pts i \<longleftrightarrow> min_pts \<le> length (nbs i) + 1"

definition core_step :: "(nat \<Rightarrow> nat list) \<Rightarrow> nat \<Rightarrow> nat \<Rightarrow> nat \<Rightarrow> bool" where
  "core_step nbs min_pts i j \<longleftrightarrow> core nbs min_pts i \<and> core nbs min_pts j \<and> j \<in> set (nbs i)"

text \<open>The labels between two visits, and inside the expansion of a seed \<open>p\<close>.\<close>

definition labels_ok :: "(nat \<Rightarrow> nat list) \<Rightarrow> nat \<Rightarrow> nat \<Rightarrow> int list \<Rightarrow> int \<Rightarrow> bool" where
  "labels_ok nbs m n L c \<longleftrightarrow>
     length L = n \<and>
     (\<forall>i<n. L ! i = UNVISITED \<or> L ! i = NOISE \<or> (0 \<le> L ! i \<and> L ! i < c)) \<and>
     (\<forall>i<n. L ! i = NOISE \<longrightarrow> \<not> core nbs m i) \<and>
     (\<forall>i<n. \<forall>j \<in> set (nbs i). 0 \<le> L ! i \<longrightarrow> core nbs m i \<longrightarrow> 0 \<le> L ! j) \<and>
     (\<forall>i<n. \<forall>j \<in> set (nbs i). 0 \<le> L ! i \<longrightarrow> core nbs m i \<longrightarrow> core nbs m j \<longrightarrow> L ! j = L ! i) \<and>
     (\<forall>i<n. 0 \<le> L ! i \<longrightarrow> \<not> core nbs m i \<longrightarrow>
        (\<exists>j<n. core nbs m j \<and> L ! j = L ! i \<and> i \<in> set (nbs j))) \<and>
     (\<forall>k. 0 \<le> k \<longrightarrow> k < c \<longrightarrow> (\<exists>s<n. core nbs m s \<and> L ! s = k \<and>
        (\<forall>i<n. core nbs m i \<longrightarrow> L ! i = k \<longrightarrow> (core_step nbs m)\<^sup>*\<^sup>* s i)))"

lemma labels_okI:
  assumes "length L = n"
    and "\<And>i. i < n \<Longrightarrow> L ! i = UNVISITED \<or> L ! i = NOISE \<or> (0 \<le> L ! i \<and> L ! i < c)"
    and "\<And>i. i < n \<Longrightarrow> L ! i = NOISE \<Longrightarrow> \<not> core nbs m i"
    and "\<And>i j. i < n \<Longrightarrow> j \<in> set (nbs i) \<Longrightarrow> 0 \<le> L ! i \<Longrightarrow> core nbs m i \<Longrightarrow> 0 \<le> L ! j"
    and "\<And>i j. i < n \<Longrightarrow> j \<in> set (nbs i) \<Longrightarrow> 0 \<le> L ! i \<Longrightarrow> core nbs m i \<Longrightarrow> core nbs m j \<Longrightarrow>
       L ! j = L ! i"
    and "\<And>i. i < n \<Longrightarrow> 0 \<le> L ! i \<Longrightarrow> \<not> core nbs m i \<Longrightarrow>
       \<exists>j<n. core nbs m j \<and> L ! j = L ! i \<and> i \<in> set (nbs j)"
    and "\<And>k. 0 \<le> k \<Longrightarrow> k < c \<Longrightarrow> \<exists>s<n. core nbs m s \<and> L ! s = k \<and>
       (\<forall>i<n. core nbs m i \<longrightarrow> L ! i = k \<longrightarrow> (core_step nbs m)\<^sup>*\<^sup>* s i)"
  shows "labels_ok nbs m n L c"
  unfolding labels_ok_def by (intro conjI; metis assms)

lemma labels_okD:
  assumes "labels_ok nbs m n L c"
  shows "length L = n"
    and "i < n \<Longrightarrow> L ! i = UNVISITED \<or> L ! i = NOISE \<or> (0 \<le> L ! i \<and> L ! i < c)"
    and "i < n \<Longrightarrow> L ! i = NOISE \<Longrightarrow> \<not> core nbs m i"
    and "i < n \<Longrightarrow> j \<in> set (nbs i) \<Longrightarrow> 0 \<le> L ! i \<Longrightarrow> core nbs m i \<Longrightarrow> 0 \<le> L ! j"
    and "i < n \<Longrightarrow> j \<in> set (nbs i) \<Longrightarrow> 0 \<le> L ! i \<Longrightarrow> core nbs m i \<Longrightarrow> core nbs m j \<Longrightarrow>
       L ! j = L ! i"
    and "i < n \<Longrightarrow> 0 \<le> L ! i \<Longrightarrow> \<not> core nbs m i \<Longrightarrow>
       \<exists>j<n. core nbs m j \<and> L ! j = L ! i \<and> i \<in> set (nbs j)"
    and "0 \<le> k \<Longrightarrow> k < c \<Longrightarrow> \<exists>s<n. core nbs m s \<and> L ! s = k \<and>
       (\<forall>i<n. core nbs m i \<longrightarrow> L ! i = k \<longrightarrow> (core_step nbs m)\<^sup>*\<^sup>* s i)"
  using assms unfolding labels_ok_def
  by - (elim conjE, metis)+

definition expand_ok ::
    "(nat \<Rightarrow> nat list) \<Rightarrow> nat \<Rightarrow> nat \<Rightarrow> int list \<Rightarrow> int \<Rightarrow> nat \<Rightarrow> nat list \<Rightarrow> bool list \<Rightarrow> int list \<Rightarrow> bool" where
  "expand_ok nbs m n L0 c p W Q L \<longleftrightarrow>
     length L = n \<and> length Q = n \<and> set W \<subseteq> {..<n} \<and> L ! p = c \<and>
     (\<forall>i \<in> set W. Q ! i) \<and>
     (\<forall>i<n. L ! i = L0 ! i \<or> (L ! i = c \<and> L0 ! i < 0)) \<and>
     (\<forall>i<n. Q ! i \<longrightarrow> i \<in> set W \<or> 0 \<le> L ! i) \<and>
     (\<forall>i<n. L ! i = c \<longrightarrow> Q ! i) \<and>
     (\<forall>i<n. L ! i = c \<longrightarrow> core nbs m i \<longrightarrow> (\<forall>j \<in> set (nbs i). Q ! j)) \<and>
     (\<forall>i<n. L ! i = c \<longrightarrow> core nbs m i \<longrightarrow> (core_step nbs m)\<^sup>*\<^sup>* p i) \<and>
     (\<forall>j<n. Q ! j \<longrightarrow> j \<noteq> p \<longrightarrow> (\<exists>i<n. L ! i = c \<and> core nbs m i \<and> j \<in> set (nbs i)))"

lemma expand_okI:
  assumes "length L = n" "length Q = n" "set W \<subseteq> {..<n}" "L ! p = c"
    and "\<And>i. i \<in> set W \<Longrightarrow> Q ! i"
    and "\<And>i. i < n \<Longrightarrow> L ! i = L0 ! i \<or> (L ! i = c \<and> L0 ! i < 0)"
    and "\<And>i. i < n \<Longrightarrow> Q ! i \<Longrightarrow> i \<in> set W \<or> 0 \<le> L ! i"
    and "\<And>i. i < n \<Longrightarrow> L ! i = c \<Longrightarrow> Q ! i"
    and "\<And>i j. i < n \<Longrightarrow> L ! i = c \<Longrightarrow> core nbs m i \<Longrightarrow> j \<in> set (nbs i) \<Longrightarrow> Q ! j"
    and "\<And>i. i < n \<Longrightarrow> L ! i = c \<Longrightarrow> core nbs m i \<Longrightarrow> (core_step nbs m)\<^sup>*\<^sup>* p i"
    and "\<And>j. j < n \<Longrightarrow> Q ! j \<Longrightarrow> j \<noteq> p \<Longrightarrow>
       \<exists>i<n. L ! i = c \<and> core nbs m i \<and> j \<in> set (nbs i)"
  shows "expand_ok nbs m n L0 c p W Q L"
  unfolding expand_ok_def by (intro conjI allI ballI impI; iprover intro: assms)

lemma expand_okD:
  assumes "expand_ok nbs m n L0 c p W Q L"
  shows "length L = n" "length Q = n" "set W \<subseteq> {..<n}" "L ! p = c"
    and "i \<in> set W \<Longrightarrow> Q ! i"
    and "i < n \<Longrightarrow> L ! i = L0 ! i \<or> (L ! i = c \<and> L0 ! i < 0)"
    and "i < n \<Longrightarrow> Q ! i \<Longrightarrow> i \<in> set W \<or> 0 \<le> L ! i"
    and "i < n \<Longrightarrow> L ! i = c \<Longrightarrow> Q ! i"
    and "i < n \<Longrightarrow> L ! i = c \<Longrightarrow> core nbs m i \<Longrightarrow> j \<in> set (nbs i) \<Longrightarrow> Q ! j"
    and "i < n \<Longrightarrow> L ! i = c \<Longrightarrow> core nbs m i \<Longrightarrow> (core_step nbs m)\<^sup>*\<^sup>* p i"
    and "j < n \<Longrightarrow> Q ! j \<Longrightarrow> j \<noteq> p \<Longrightarrow>
       \<exists>i<n. L ! i = c \<and> core nbs m i \<and> j \<in> set (nbs i)"
  using assms unfolding expand_ok_def
  by - (elim conjE, metis)+

subsection \<open>The marks\<close>

lemma push_unqueued_effect:
  assumes "push_unqueued rs Q = (new, Q')" "set rs \<subseteq> {..<length Q}"
  shows "length Q' = length Q \<and> set new = {r \<in> set rs. \<not> Q ! r} \<and>
    (\<forall>i < length Q. Q' ! i \<longleftrightarrow> Q ! i \<or> i \<in> set rs)"
  using assms
proof (induction rs Q arbitrary: new Q' rule: push_unqueued.induct)
  case (2 r rs Q)
  show ?case
  proof (cases "Q ! r")
    case True
    with 2 show ?thesis by auto
  next
    case False
    with "2.prems" obtain new' where
      r: "push_unqueued rs (Q[r := True]) = (new', Q')" "new = r # new'" "r < length Q"
      by (auto split: prod.splits)
    with 2 False have
      "length Q' = length Q \<and> set new' = {x \<in> set rs. \<not> (Q[r := True]) ! x} \<and>
       (\<forall>i < length Q. Q' ! i \<longleftrightarrow> (Q[r := True]) ! i \<or> i \<in> set rs)"
      by (metis insert_subset length_list_update list.set(2))
    with r False show ?thesis by (auto simp: nth_list_update)
  qed
qed simp

lemma mark_all_length: "length (fold (\<lambda>s marks. marks[s := True]) ss Q) = length Q"
  by (induction ss arbitrary: Q) auto

lemma mark_all_nth:
  "set ss \<subseteq> {..<length Q} \<Longrightarrow> i < length Q \<Longrightarrow>
    fold (\<lambda>s marks. marks[s := True]) ss Q ! i \<longleftrightarrow> Q ! i \<or> i \<in> set ss"
  by (induction ss arbitrary: Q) (auto simp: nth_list_update)

subsection \<open>The clustering of a symmetric neighbour relation\<close>

locale neighbourhood =
  fixes nbs :: "nat \<Rightarrow> nat list" and n :: nat
  assumes nbs_range: "i < n \<Longrightarrow> set (nbs i) \<subseteq> {..<n}"
    and nbs_sym: "i < n \<Longrightarrow> j \<in> set (nbs i) \<Longrightarrow> i \<in> set (nbs j)"
begin

lemma nbs_less: "i < n \<Longrightarrow> j \<in> set (nbs i) \<Longrightarrow> j < n"
  using nbs_range by auto

lemma expand_ok_step:
  assumes ok: "expand_ok nbs m n L0 c p (q # W) Q L"
    and L0: "labels_ok nbs m n L0 c" and c: "0 \<le> c"
    and unv: "L ! q = UNVISITED" and cq: "core nbs m q"
    and push: "push_unqueued (nbs q) Q = (new, Q')"
  shows "expand_ok nbs m n L0 c p (W @ new) Q' (L[q := c])"
proof -
  from ok have q: "q < n" and len: "length L = n" "length Q = n" and Qq: "Q ! q"
    by (auto simp: expand_ok_def)
  from push_unqueued_effect [OF push] nbs_range [OF q] len
  have eff: "length Q' = n" "set new = {r \<in> set (nbs q). \<not> Q ! r}"
    "\<And>i. i < n \<Longrightarrow> Q' ! i \<longleftrightarrow> Q ! i \<or> i \<in> set (nbs q)" by auto
  have reach: "(core_step nbs m)\<^sup>*\<^sup>* p q"
  proof -
    from ok q Qq consider "q = p" | i where "i < n" "L ! i = c" "core nbs m i" "q \<in> set (nbs i)"
      by (auto simp: expand_ok_def)
    then show ?thesis
    proof cases
      case 2
      with ok have "(core_step nbs m)\<^sup>*\<^sup>* p i" by (auto simp: expand_ok_def)
      moreover have "core_step nbs m i q" using 2 cq by (simp add: core_step_def)
      ultimately show ?thesis by simp
    qed simp
  qed
  have other: "i = q \<or> i \<noteq> q" for i by simp
  have new_c: "i < n \<Longrightarrow> L[q := c] ! i = c \<longleftrightarrow> i = q \<or> L ! i = c" for i
    using len q by (simp add: nth_list_update)
  show ?thesis
  proof (rule expand_okI)
    show "set (W @ new) \<subseteq> {..<n}"
      using expand_okD(3) [OF ok] eff(2) nbs_range [OF q] by auto
    show "L[q := c] ! p = c" using expand_okD(4) [OF ok] by (cases "p = q") (auto simp: q len)
  next
    fix i assume "i \<in> set (W @ new)"
    then show "Q' ! i"
      using expand_okD(3,5) [OF ok] eff nbs_less [OF q] by auto
  next
    fix i assume i: "i < n"
    show "L[q := c] ! i = L0 ! i \<or> (L[q := c] ! i = c \<and> L0 ! i < 0)"
      using expand_okD(6) [OF ok i] q len unv c
      by (cases "i = q") (auto simp: UNVISITED_def)
    show "Q' ! i \<Longrightarrow> i \<in> set (W @ new) \<or> 0 \<le> L[q := c] ! i"
      using expand_okD(7) [OF ok i] eff(2) eff(3) [OF i] i q len c
      by (cases "i = q") auto
    show "L[q := c] ! i = c \<Longrightarrow> Q' ! i"
      using expand_okD(8) [OF ok i] Qq eff(3) [OF i] new_c [OF i] by auto
    show "L[q := c] ! i = c \<Longrightarrow> core nbs m i \<Longrightarrow> (core_step nbs m)\<^sup>*\<^sup>* p i"
      using expand_okD(10) [OF ok i] reach new_c [OF i] by auto
    show "L[q := c] ! i = c \<Longrightarrow> core nbs m i \<Longrightarrow> j \<in> set (nbs i) \<Longrightarrow> Q' ! j" for j
      using expand_okD(9) [OF ok i] eff(3) nbs_less [OF i] new_c [OF i] by metis
    show "\<exists>k<n. L[q := c] ! k = c \<and> core nbs m k \<and> i \<in> set (nbs k)" if "Q' ! i" "i \<noteq> p"
    proof (cases "i \<in> set (nbs q)")
      case True
      with q cq len show ?thesis by (intro exI [of _ q]) simp
    next
      case False
      with that eff(3) [OF i] expand_okD(11) [OF ok i] new_c show ?thesis by blast
    qed
  qed (simp_all add: len eff)
qed

lemma expand_ok_skip:
  assumes ok: "expand_ok nbs m n L0 c p (q # W) Q L" and nn: "0 \<le> L ! q"
  shows "expand_ok nbs m n L0 c p W Q L"
proof (rule expand_okI)
  show "i < n \<Longrightarrow> Q ! i \<Longrightarrow> i \<in> set W \<or> 0 \<le> L ! i" for i
    using expand_okD(7) [OF ok, of i] nn by auto
qed (use expand_okD [OF ok] in auto)

lemma expand_ok_border:
  assumes ok: "expand_ok nbs m n L0 c p (q # W) Q L"
    and neg: "L ! q < 0" and c: "0 \<le> c" and nc: "\<not> core nbs m q"
  shows "expand_ok nbs m n L0 c p W Q (L[q := c])"
proof -
  have q: "q < n" "Q ! q" and len: "length L = n"
    using expand_okD(1,3,5) [OF ok] by auto
  have qp: "L ! i = c \<Longrightarrow> L[q := c] ! i = c" for i using len by (cases "i = q") (auto simp: q)
  have new_c: "i < n \<Longrightarrow> L[q := c] ! i = c \<longleftrightarrow> i = q \<or> L ! i = c" for i
    using len q by (simp add: nth_list_update)
  show ?thesis
  proof (rule expand_okI)
    fix i assume i: "i < n"
    show "L[q := c] ! i = L0 ! i \<or> (L[q := c] ! i = c \<and> L0 ! i < 0)"
      using expand_okD(6) [OF ok i] q len neg c by (cases "i = q") auto
    show "Q ! i \<Longrightarrow> i \<in> set W \<or> 0 \<le> L[q := c] ! i"
      using expand_okD(7) [OF ok i] i q len c by (cases "i = q") auto
    show "\<exists>k<n. L[q := c] ! k = c \<and> core nbs m k \<and> i \<in> set (nbs k)" if "Q ! i" "i \<noteq> p"
      using expand_okD(11) [OF ok i] that qp by blast
  qed (use expand_okD [OF ok] q len qp new_c nc in auto)
qed

lemma expand_correct:
  assumes "expand_ok nbs m n L0 c p W Q L" "labels_ok nbs m n L0 c" "0 \<le> c"
  shows "\<exists>Q'. expand_ok nbs m n L0 c p [] Q' (expand nbs m c W Q L)"
  using assms(1)
proof (induction "length W + unmarked Q" arbitrary: W Q L rule: less_induct)
  case less
  note ok0 = less.prems
  show ?case
  proof (cases W)
    case Nil
    with ok0 show ?thesis by auto
  next
    case (Cons q W')
    note ok = ok0 [unfolded Cons]
    have IH: "expand_ok nbs m n L0 c p W2 Q2 L2 \<Longrightarrow> length W2 + unmarked Q2 < length W + unmarked Q \<Longrightarrow>
        \<exists>Q'. expand_ok nbs m n L0 c p [] Q' (expand nbs m c W2 Q2 L2)" for W2 Q2 L2
      using less.hyps by blast
    have q: "q < n" and len: "length L = n" using expand_okD(1,3) [OF ok] by auto
    have lab: "L ! q = UNVISITED \<or> L ! q = NOISE \<or> 0 \<le> L ! q"
      and noise_core: "L ! q = NOISE \<Longrightarrow> \<not> core nbs m q"
      using expand_okD(6) [OF ok q] labels_okD(2,3) [OF assms(2) q] assms(3) by (auto simp: NOISE_def)
    consider "L ! q = NOISE" | "0 \<le> L ! q" | "L ! q = UNVISITED" "core nbs m q"
      | "L ! q = UNVISITED" "\<not> core nbs m q"
      using lab by blast
    then show ?thesis
    proof cases
      case 1
      with expand_ok_border [OF ok _ assms(3) noise_core [OF 1]]
      have "expand_ok nbs m n L0 c p W' Q (L[q := c])" by (simp add: NOISE_def)
      from IH [OF this] show ?thesis
        using 1 q len assms(3) Cons by (simp add: NOISE_def UNVISITED_def)
    next
      case 2
      from IH [OF expand_ok_skip [OF ok 2]] show ?thesis
        using 2 Cons by (simp add: NOISE_def UNVISITED_def)
    next
      case 3
      obtain new Q' where push: "push_unqueued (nbs q) Q = (new, Q')" by fastforce
      from IH [OF expand_ok_step [OF ok assms(2,3) 3 push]] show ?thesis
        using 3 Cons push push_unqueued_unmarked [OF push]
        by (simp add: NOISE_def UNVISITED_def core_def)
    next
      case 4
      with expand_ok_border [OF ok _ assms(3) 4(2)]
      have "expand_ok nbs m n L0 c p W' Q (L[q := c])" by (simp add: UNVISITED_def)
      from IH [OF this] show ?thesis
        using 4 Cons by (simp add: NOISE_def UNVISITED_def core_def)
    qed
  qed
qed

text \<open>The labels after a seed has been expanded to the end.\<close>

lemma expanded_labels_ok:
  assumes ok: "expand_ok nbs m n L0 c p [] Q L" and L0: "labels_ok nbs m n L0 c" and c: "0 \<le> c"
    and p: "p < n" "core nbs m p"
  shows "labels_ok nbs m n L (c + 1)"
proof -
  note eD = expand_okD [OF ok] and lD = labels_okD [OF L0]
  have Q0: "i < n \<Longrightarrow> Q ! i \<Longrightarrow> 0 \<le> L ! i" for i using eD(7) [of i] by simp
  have old: "0 \<le> L0 ! i \<Longrightarrow> L ! i = L0 ! i \<and> L ! i \<noteq> c" if "i < n" for i
    using eD(6) [OF that] lD(2) [OF that] by (auto simp: UNVISITED_def NOISE_def)
  have cls: "0 \<le> L ! i \<Longrightarrow> L ! i = c \<or> 0 \<le> L0 ! i" if "i < n" for i
    using eD(6) [OF that] by auto
  show ?thesis
  proof (rule labels_okI)
    fix i assume i: "i < n"
    show "L ! i = UNVISITED \<or> L ! i = NOISE \<or> (0 \<le> L ! i \<and> L ! i < c + 1)"
      using eD(6) [OF i] lD(2) [OF i] c by auto
    show "L ! i = NOISE \<Longrightarrow> \<not> core nbs m i"
      using eD(6) [OF i] lD(3) [OF i] c by (auto simp: NOISE_def)
    show "\<exists>j<n. core nbs m j \<and> L ! j = L ! i \<and> i \<in> set (nbs j)"
      if "0 \<le> L ! i" "\<not> core nbs m i"
    proof (cases "L ! i = c")
      case True
      with p that have "i \<noteq> p" by auto
      with eD(11) [OF i eD(8) [OF i True]] True show ?thesis by metis
    next
      case False
      with cls [OF i that(1)] have z: "0 \<le> L0 ! i" by simp
      from lD(6) [OF i z that(2)] obtain j where
        "j < n" "core nbs m j" "L0 ! j = L0 ! i" "i \<in> set (nbs j)" by blast
      with old [of j] old [OF i z] z show ?thesis by metis
    qed
  next
    fix i j assume i: "i < n" and j: "j \<in> set (nbs i)" and z: "0 \<le> L ! i" and ci: "core nbs m i"
    have jn: "j < n" by (rule nbs_less [OF i j])
    show "0 \<le> L ! j"
      using cls [OF i z] eD(9) [OF i _ ci j] Q0 [OF jn] lD(4) [OF i j _ ci] old [OF jn] by auto
    show "L ! j = L ! i" if cj: "core nbs m j"
    proof (cases "L ! i = c")
      case True
      have "\<not> 0 \<le> L0 ! j"
        using lD(4) [OF jn nbs_sym [OF i j] _ cj] old [OF i] True by auto
      with cls [OF jn \<open>0 \<le> L ! j\<close>] True show ?thesis by simp
    next
      case False
      with cls [OF i z] have "0 \<le> L0 ! i" by simp
      with lD(4) [OF i j _ ci] lD(5) [OF i j _ ci cj] old [OF i] old [OF jn] show ?thesis by simp
    qed
  next
    fix k assume k: "0 \<le> k" "k < c + 1"
    show "\<exists>s<n. core nbs m s \<and> L ! s = k \<and>
       (\<forall>i<n. core nbs m i \<longrightarrow> L ! i = k \<longrightarrow> (core_step nbs m)\<^sup>*\<^sup>* s i)"
    proof (cases "k = c")
      case True
      with p eD(4) eD(10) show ?thesis by blast
    next
      case False
      with k lD(7) [of k] obtain s where s: "s < n" "core nbs m s" "L0 ! s = k"
        "\<forall>i<n. core nbs m i \<longrightarrow> L0 ! i = k \<longrightarrow> (core_step nbs m)\<^sup>*\<^sup>* s i" by auto
      moreover have "L0 ! i = k" if "i < n" "L ! i = k" for i
        using cls [OF that(1)] old [OF that(1)] that k False by auto
      ultimately show ?thesis using old [of s] k by metis
    qed
  qed (rule eD(1))
qed

lemma labels_ok_noise:
  assumes L: "labels_ok nbs m n L c" and p: "p < n" "L ! p = UNVISITED" "\<not> core nbs m p"
  shows "labels_ok nbs m n (L[p := NOISE]) c"
proof -
  note lD = labels_okD [OF L]
  have same: "0 \<le> L[p := NOISE] ! i \<longleftrightarrow> 0 \<le> L ! i" "0 \<le> L ! i \<Longrightarrow> L[p := NOISE] ! i = L ! i" for i
    using p lD(1) by (cases "i = p"; simp add: UNVISITED_def NOISE_def)+
  show ?thesis
  proof (rule labels_okI)
    fix i assume i: "i < n"
    show "L[p := NOISE] ! i = UNVISITED \<or> L[p := NOISE] ! i = NOISE \<or>
        (0 \<le> L[p := NOISE] ! i \<and> L[p := NOISE] ! i < c)"
      and "L[p := NOISE] ! i = NOISE \<Longrightarrow> \<not> core nbs m i"
      using lD(2,3) [OF i] p lD(1) by (cases "i = p"; simp)+
    show "\<exists>j<n. core nbs m j \<and> L[p := NOISE] ! j = L[p := NOISE] ! i \<and> i \<in> set (nbs j)"
      if "0 \<le> L[p := NOISE] ! i" "\<not> core nbs m i"
      using lD(6) [OF i _ that(2)] that(1) same by metis
  next
    fix i j assume *: "i < n" "j \<in> set (nbs i)" "0 \<le> L[p := NOISE] ! i" "core nbs m i"
    then show "0 \<le> L[p := NOISE] ! j"
      using lD(4) [of i j] same by blast
    show "core nbs m j \<Longrightarrow> L[p := NOISE] ! j = L[p := NOISE] ! i"
      using * lD(4) [of i j] lD(5) [of i j] same by metis
  next
    fix k assume k: "0 \<le> k" "k < c"
    from lD(7) [OF this] obtain s where s: "s < n" "core nbs m s" "L ! s = k"
      "\<forall>i<n. core nbs m i \<longrightarrow> L ! i = k \<longrightarrow> (core_step nbs m)\<^sup>*\<^sup>* s i" by blast
    moreover have "L ! i = k" if "L[p := NOISE] ! i = k" for i
      using that k same by metis
    ultimately show "\<exists>s<n. core nbs m s \<and> L[p := NOISE] ! s = k \<and>
        (\<forall>i<n. core nbs m i \<longrightarrow> L[p := NOISE] ! i = k \<longrightarrow> (core_step nbs m)\<^sup>*\<^sup>* s i)"
      using same k by (intro exI [of _ s]) auto
  qed (simp add: lD)
qed

lemma expand_ok_init:
  assumes L: "labels_ok nbs m n L c" and c: "0 \<le> c" and p: "p < n" "L ! p = UNVISITED"
    and cp: "core nbs m p"
  shows "expand_ok nbs m n L c p (nbs p)
    (fold (\<lambda>s marks. marks[s := True]) (nbs p) ((replicate n False)[p := True])) (L[p := c])"
    (is "expand_ok _ _ _ _ _ _ _ ?Q _")
proof -
  have Q: "?Q ! i \<longleftrightarrow> i = p \<or> i \<in> set (nbs p)" if "i < n" for i
    using that nbs_range [OF p(1)] p by (simp add: mark_all_nth nth_list_update)
  have one: "L[p := c] ! i = c \<longleftrightarrow> i = p" if "i < n" for i
    using labels_okD(1,2) [OF L] that p c by (cases "i = p") (fastforce simp: UNVISITED_def NOISE_def)+
  show ?thesis
  proof (rule expand_okI)
    fix i assume i: "i < n"
    show "L[p := c] ! i = L ! i \<or> (L[p := c] ! i = c \<and> L ! i < 0)"
      using p labels_okD(1) [OF L] by (cases "i = p") (auto simp: UNVISITED_def)
    show "?Q ! i \<Longrightarrow> i \<in> set (nbs p) \<or> 0 \<le> L[p := c] ! i"
      using p labels_okD(1) [OF L] c by (auto simp: Q i)
    show "?Q ! i \<Longrightarrow> i \<noteq> p \<Longrightarrow> \<exists>k<n. L[p := c] ! k = c \<and> core nbs m k \<and> i \<in> set (nbs k)"
      using p cp labels_okD(1) [OF L] by (intro exI [of _ p]) (simp add: Q i)
    show "L[p := c] ! i = c \<Longrightarrow> core nbs m i \<Longrightarrow> j \<in> set (nbs i) \<Longrightarrow> ?Q ! j" for j
      using one [OF i] nbs_less [OF i] Q [of j] by blast
  qed (use one nbs_range [OF p(1)] Q p labels_okD(1) [OF L] in \<open>auto simp: mark_all_length\<close>)
qed

lemma visit_ok:
  assumes L: "labels_ok nbs m n L c" and c: "0 \<le> c" and p: "p < n"
    and v: "visit nbs m n p (L, c) = (L', c')"
  shows "labels_ok nbs m n L' c' \<and> 0 \<le> c' \<and> L' ! p \<noteq> UNVISITED \<and>
    (\<forall>i<n. L ! i \<noteq> UNVISITED \<longrightarrow> L' ! i \<noteq> UNVISITED)"
proof (cases "L ! p = UNVISITED")
  case unv: True
  show ?thesis
  proof (cases "core nbs m p")
    case True
    let ?Q = "fold (\<lambda>s marks. marks[s := True]) (nbs p) ((replicate n False)[p := True])"
    from expand_correct [OF expand_ok_init [OF L c p unv True] L c] obtain Q' where
      e: "expand_ok nbs m n L c p [] Q' (expand nbs m c (nbs p) ?Q (L[p := c]))" by blast
    have v': "L' = expand nbs m c (nbs p) ?Q (L[p := c])" "c' = c + 1"
      using v unv True by (simp_all add: visit_def core_def Let_def)
    have kept: "expand nbs m c (nbs p) ?Q (L[p := c]) ! i \<noteq> UNVISITED"
      if "i < n" "L ! i \<noteq> UNVISITED" for i
      using expand_okD(6) [OF e that(1)] that(2) c by (auto simp: UNVISITED_def)
    show ?thesis
      using expanded_labels_ok [OF e L c p True] expand_okD(4) [OF e] c kept
      unfolding v' by (auto simp: UNVISITED_def)
  next
    case False
    with v unv have v': "L' = L[p := NOISE]" "c' = c" by (simp_all add: visit_def core_def)
    show ?thesis
      using labels_ok_noise [OF L p unv False] c p labels_okD(1) [OF L]
      unfolding v' by (auto simp: nth_list_update UNVISITED_def NOISE_def)
  qed
qed (use assms in \<open>auto simp: visit_def\<close>)

lemma dbscan_labels_ok:
  assumes "dbscan_labels nbs m n = (L, c)"
  shows "labels_ok nbs m n L c \<and> 0 \<le> c \<and> (\<forall>i<n. L ! i \<noteq> UNVISITED)"
proof -
  have "k \<le> n \<Longrightarrow> fold (visit nbs m n) [0..<k] (replicate n UNVISITED, 0) = (L, c) \<Longrightarrow>
      labels_ok nbs m n L c \<and> 0 \<le> c \<and> (\<forall>i<k. L ! i \<noteq> UNVISITED)" for k L c
  proof (induction k arbitrary: L c)
    case 0
    then show ?case by (auto simp: UNVISITED_def NOISE_def intro!: labels_okI)
  next
    case (Suc k)
    obtain L1 c1 where 1: "fold (visit nbs m n) [0..<k] (replicate n UNVISITED, 0) = (L1, c1)"
      by fastforce
    with Suc have "labels_ok nbs m n L1 c1 \<and> 0 \<le> c1 \<and> (\<forall>i<k. L1 ! i \<noteq> UNVISITED)" by simp
    with visit_ok [of m L1 c1 k L c] Suc.prems 1 show ?case
      by (auto simp: less_Suc_eq)
  qed
  from this [of n L c] assms show ?thesis by (simp add: dbscan_labels_def)
qed

lemma core_steps_label:
  assumes "labels_ok nbs m n L c" "(core_step nbs m)\<^sup>*\<^sup>* i j" "i < n" "0 \<le> L ! i"
  shows "j < n \<and> L ! j = L ! i"
  using assms(2)
proof (induction rule: rtranclp_induct)
  case (step j k)
  then show ?case
    using labels_okD(5) [OF assms(1), of j k] nbs_less [of j k] assms(3,4) by (auto simp: core_step_def)
qed (use assms in simp)

lemma core_steps_sym: "i < n \<Longrightarrow> (core_step nbs m)\<^sup>*\<^sup>* i j \<Longrightarrow> (core_step nbs m)\<^sup>*\<^sup>* j i"
proof (rotate_tac, induction rule: rtranclp_induct)
  case (step j k)
  have "j < n"
    using step(1,4) by (induction rule: rtranclp_induct) (auto simp: core_step_def dest: nbs_less)
  with step(2) have "core_step nbs m k j" by (auto simp: core_step_def intro: nbs_sym)
  with step show ?case by (meson converse_rtranclp_into_rtranclp)
qed simp

text \<open>The labels are the density clustering.\<close>

lemma clustering:
  assumes "dbscan_labels nbs m n = (L, c)"
  shows "i < n \<Longrightarrow> L ! i = NOISE \<or> (0 \<le> L ! i \<and> L ! i < c)"
    and "i < n \<Longrightarrow> 0 \<le> L ! i \<longleftrightarrow> core nbs m i \<or> (\<exists>j<n. core nbs m j \<and> i \<in> set (nbs j))"
    and "i < n \<Longrightarrow> j < n \<Longrightarrow> core nbs m i \<Longrightarrow> core nbs m j \<Longrightarrow>
      L ! i = L ! j \<longleftrightarrow> (core_step nbs m)\<^sup>*\<^sup>* i j"
    and "0 \<le> k \<Longrightarrow> k < c \<Longrightarrow> \<exists>i<n. core nbs m i \<and> L ! i = k"
    and "i < n \<Longrightarrow> 0 \<le> L ! i \<Longrightarrow> \<not> core nbs m i \<Longrightarrow>
      \<exists>j<n. core nbs m j \<and> L ! j = L ! i \<and> i \<in> set (nbs j)"
proof -
  from dbscan_labels_ok [OF assms] have ok: "labels_ok nbs m n L c" and vis: "\<forall>i<n. L ! i \<noteq> UNVISITED"
    by auto
  note lD = labels_okD [OF ok]
  show range: "L ! i = NOISE \<or> (0 \<le> L ! i \<and> L ! i < c)" if "i < n" for i
    using lD(2) [OF that] vis that by auto
  have core_nonneg: "0 \<le> L ! i" if "i < n" "core nbs m i" for i
    using range lD(3) that by blast
  show "0 \<le> L ! i \<longleftrightarrow> core nbs m i \<or> (\<exists>j<n. core nbs m j \<and> i \<in> set (nbs j))" if i: "i < n" for i
    using lD(6) [OF i] lD(4) core_nonneg i by blast
  show "L ! i = L ! j \<longleftrightarrow> (core_step nbs m)\<^sup>*\<^sup>* i j"
    if "i < n" "j < n" "core nbs m i" "core nbs m j" for i j
  proof
    assume eq: "L ! i = L ! j"
    from range [OF that(1)] core_nonneg [OF that(1,3)] have "0 \<le> L ! i" "L ! i < c"
      by (auto simp: NOISE_def)
    from lD(7) [OF this] that eq obtain s where "s < n" "(core_step nbs m)\<^sup>*\<^sup>* s i" "(core_step nbs m)\<^sup>*\<^sup>* s j"
      by metis
    with core_steps_sym show "(core_step nbs m)\<^sup>*\<^sup>* i j" by (meson rtranclp_trans)
  next
    assume "(core_step nbs m)\<^sup>*\<^sup>* i j"
    from core_steps_label [OF ok this that(1) core_nonneg [OF that(1,3)]] show "L ! i = L ! j" by simp
  qed
  show "0 \<le> k \<Longrightarrow> k < c \<Longrightarrow> \<exists>i<n. core nbs m i \<and> L ! i = k" for k
    using lD(7) by blast
  show "i < n \<Longrightarrow> 0 \<le> L ! i \<Longrightarrow> \<not> core nbs m i \<Longrightarrow>
      \<exists>j<n. core nbs m j \<and> L ! j = L ! i \<and> i \<in> set (nbs j)" for i
    by (rule lD(6))
qed

end

subsection \<open>Cosine neighbours\<close>

lemma inf_of_sign_commute: "inf_of_sign (a * b) = inf_of_sign (b * a)"
  by (simp add: mult.commute)

lemma fl_mul_commute: "fl_mul x y = fl_mul y x"
  by (cases x; cases y) (simp_all add: mult.commute)

lemma cosine_fold_swap:
  "fold cosine_step (zip b a) (d, v, u) = (case fold cosine_step (zip a b) (d, u, v) of
     (d', u', v') \<Rightarrow> (d', v', u'))"
proof (induction a arbitrary: b d u v)
  case (Cons x a)
  then show ?case
    by (cases b) (auto simp: cosine_step_def fl_mul_add_def fl_mul_commute)
qed simp

lemma cosine_similarity_commute: "cosine_similarity a b = cosine_similarity b a"
  unfolding cosine_similarity_def cosine_fold_swap [of b a]
  by (auto split: prod.splits simp: fl_mul_commute)

interpretation cosine: neighbourhood "neighbours points t" "length points" for points t
  by unfold_locales (auto simp: neighbours_def cosine_similarity_commute)

subsection \<open>From labels to clusters\<close>

lemma push_points:
  assumes "\<forall>(i, x) \<in> set (enumerate k ps). L ! i < int (length cs)"
  shows "fold (push_point L) (enumerate k ps) cs =
    map (\<lambda>l. cs ! l @ map (\<lambda>(i, x). fst x) (filter (\<lambda>(i, x). L ! i = int l) (enumerate k ps)))
      [0..<length cs]"
  using assms
proof (induction ps arbitrary: k cs)
  case Nil
  show ?case by (simp add: map_nth)
next
  case (Cons x ps)
  let ?cs = "push_point L (k, x) cs"
  have len: "length ?cs = length cs" by (simp add: push_point_def Let_def split: prod.splits)
  have nth: "?cs ! l = (if L ! k = int l then cs ! l @ [fst x] else cs ! l)" if "l < length cs" for l
    using that Cons.prems by (auto simp: push_point_def Let_def nth_list_update split: prod.splits)
  show ?case
    using Cons len nth by (auto simp: enumerate_simps(2))
qed

lemma enumerate_filter:
  "map (\<lambda>(i, x). fst x) (filter (\<lambda>(i, x). P i) (enumerate 0 ps)) =
    map (\<lambda>i. fst (ps ! i)) (filter P [0..<length ps])"
proof -
  have "enumerate 0 ps = map (\<lambda>i. (i, ps ! i)) [0..<length ps]"
    by (rule nth_equalityI) (auto simp: nth_enumerate_eq)
  then show ?thesis by (simp add: filter_map o_def)
qed

lemma dbscan_by_label:
  assumes "0 < m" "length points \<le> max_dbscan_points"
    and L: "dbscan_labels (neighbours points (fl_sub (Fin 1) eps)) m (length points) = (L, c)"
  shows "dbscan points eps m = map (\<lambda>k. map (\<lambda>i. fst (points ! i))
    (filter (\<lambda>i. L ! i = int k) [0..<length points])) [0..<nat c]"
proof (cases "points = []")
  case True
  with L show ?thesis by (simp add: dbscan_def dbscan_labels_def)
next
  case False
  from cosine.dbscan_labels_ok [OF L] have c: "0 \<le> c" by simp
  have "\<forall>(i, x) \<in> set (enumerate 0 points). L ! i < int (nat c)"
    using cosine.clustering(1) [OF L] c by (fastforce simp: in_set_enumerate_eq NOISE_def)
  from push_points [of 0 points L "replicate (nat c) []"] this
  show ?thesis
    using assms False by (simp add: dbscan_def enumerate_filter)
qed

lemma distinct_concat_map:
  assumes "distinct ks" "\<And>k. k \<in> set ks \<Longrightarrow> distinct (g k)"
    and "\<And>k l. k \<in> set ks \<Longrightarrow> l \<in> set ks \<Longrightarrow> k \<noteq> l \<Longrightarrow> set (g k) \<inter> set (g l) = {}"
  shows "distinct (concat (map g ks))"
  using assms by (induction ks) fastforce+

lemma dbscan_members:
  assumes "distinct (map fst points)"
  shows "distinct (concat (dbscan points eps m))" "set (concat (dbscan points eps m)) \<subseteq> fst ` set points"
proof -
  have "distinct (concat (dbscan points eps m)) \<and> set (concat (dbscan points eps m)) \<subseteq> fst ` set points"
  proof (cases "points = [] \<or> m = 0 \<or> max_dbscan_points < length points")
    case True
    then have "dbscan points eps m = []" by (auto simp: dbscan_def Let_def)
    then show ?thesis by simp
  next
    case False
    let ?n = "length points"
    let ?id = "\<lambda>i. fst (points ! i)"
    obtain L c where L: "dbscan_labels (neighbours points (fl_sub (Fin 1) eps)) m ?n = (L, c)" by fastforce
    have inj: "inj_on ?id {0..<?n}"
      using assms by (auto simp: inj_on_def distinct_conv_nth) metis
    have "distinct (concat (map (\<lambda>k. map ?id (filter (\<lambda>i. L ! i = int k) [0..<?n])) [0..<nat c]))"
    proof (rule distinct_concat_map)
      fix k l :: nat assume "k \<noteq> l"
      then show "set (map ?id (filter (\<lambda>i. L ! i = int k) [0..<?n])) \<inter>
          set (map ?id (filter (\<lambda>i. L ! i = int l) [0..<?n])) = {}"
        using inj by (auto dest!: inj_onD)
    qed (use inj in \<open>auto simp: distinct_map inj_on_def\<close>)
    with dbscan_by_label [OF _ _ L] False show ?thesis by auto
  qed
  then show "distinct (concat (dbscan points eps m))"
    "set (concat (dbscan points eps m)) \<subseteq> fst ` set points" by auto
qed

lemma dbscan_clusters:
  fixes points :: "(fact_id \<times> fl list) list" and eps :: fl and m :: nat
  assumes m: "0 < m" and len: "length points \<le> max_dbscan_points" and ids: "distinct (map fst points)"
  defines "nbs \<equiv> neighbours points (fl_sub (Fin 1) eps)" and "n \<equiv> length points"
    and "pid \<equiv> (\<lambda>i. fst (points ! i))" and "C \<equiv> dbscan points eps m"
  shows "i < n \<Longrightarrow> pid i \<in> set (concat C) \<longleftrightarrow> core nbs m i \<or> (\<exists>j<n. core nbs m j \<and> i \<in> set (nbs j))"
    and "i < n \<Longrightarrow> j < n \<Longrightarrow> core nbs m i \<Longrightarrow> core nbs m j \<Longrightarrow>
      (\<exists>K \<in> set C. pid i \<in> set K \<and> pid j \<in> set K) \<longleftrightarrow> (core_step nbs m)\<^sup>*\<^sup>* i j"
    and "K \<in> set C \<Longrightarrow> \<exists>i<n. core nbs m i \<and> pid i \<in> set K"
    and "K \<in> set C \<Longrightarrow> i < n \<Longrightarrow> pid i \<in> set K \<Longrightarrow> \<not> core nbs m i \<Longrightarrow>
      \<exists>j<n. core nbs m j \<and> i \<in> set (nbs j) \<and> pid j \<in> set K"
    and "K \<in> set C \<Longrightarrow> \<exists>P. K = map pid (filter P [0..<n])"
proof -
  obtain L c where L: "dbscan_labels nbs m n = (L, c)" by fastforce
  have C: "C = map (\<lambda>k. map pid (filter (\<lambda>i. L ! i = int k) [0..<n])) [0..<nat c]"
    using dbscan_by_label [OF m len] L by (simp add: C_def nbs_def n_def pid_def)
  note cl = cosine.clustering [OF L [unfolded nbs_def n_def], folded nbs_def n_def]
  have inj: "pid i = pid j \<longleftrightarrow> i = j" if "i < n" "j < n" for i j
    using ids that by (auto simp: distinct_conv_nth n_def pid_def)
  have in_k: "pid i \<in> set (map pid (filter (\<lambda>i. L ! i = int k) [0..<n])) \<longleftrightarrow> L ! i = int k"
    if "i < n" for i k using inj [OF that] that by auto
  have in_C: "(\<exists>K \<in> set C. P K) \<longleftrightarrow> (\<exists>k < nat c. P (map pid (filter (\<lambda>i. L ! i = int k) [0..<n])))" for P
    by (auto simp: C)
  show "pid i \<in> set (concat C) \<longleftrightarrow> core nbs m i \<or> (\<exists>j<n. core nbs m j \<and> i \<in> set (nbs j))" if i: "i < n" for i
  proof -
    have "pid i \<in> set (concat C) \<longleftrightarrow> (\<exists>K \<in> set C. pid i \<in> set K)" by simp
    also have "\<dots> \<longleftrightarrow> (\<exists>k < nat c. L ! i = int k)" by (simp only: in_C in_k [OF i])
    also have "\<dots> \<longleftrightarrow> 0 \<le> L ! i"
      using cl(1) [OF i] by (auto simp: NOISE_def intro!: exI [of _ "nat (L ! i)"])
    finally show ?thesis using cl(2) [OF i] by simp
  qed
  show "(\<exists>K \<in> set C. pid i \<in> set K \<and> pid j \<in> set K) \<longleftrightarrow> (core_step nbs m)\<^sup>*\<^sup>* i j"
    if *: "i < n" "j < n" "core nbs m i" "core nbs m j" for i j
  proof -
    have "0 \<le> L ! i" using cl(2) [OF *(1)] *(3) by blast
    then have "(\<exists>k < nat c. L ! i = int k \<and> L ! j = int k) \<longleftrightarrow> L ! i = L ! j"
      using cl(1) [OF *(1)] by (auto simp: NOISE_def intro!: exI [of _ "nat (L ! i)"])
    then show ?thesis using cl(3) [OF *] by (simp only: in_C in_k [OF *(1)] in_k [OF *(2)])
  qed
  show "\<exists>i<n. core nbs m i \<and> pid i \<in> set K" if K: "K \<in> set C" for K
  proof -
    from K obtain k where k: "k < nat c" "K = map pid (filter (\<lambda>i. L ! i = int k) [0..<n])" by (auto simp: C)
    with cl(4) [of "int k"] obtain i where "i < n" "core nbs m i" "L ! i = int k"
      by (metis of_nat_0_le_iff zless_nat_eq_int_zless)
    with k(2) in_k show ?thesis by blast
  qed
  show "\<exists>j<n. core nbs m j \<and> i \<in> set (nbs j) \<and> pid j \<in> set K"
    if K: "K \<in> set C" "i < n" "pid i \<in> set K" "\<not> core nbs m i" for K i
  proof -
    from K(1) obtain k where k: "k < nat c" "K = map pid (filter (\<lambda>i. L ! i = int k) [0..<n])" by (auto simp: C)
    with K(3) in_k [OF K(2)] have "L ! i = int k" by blast
    with cl(5) [OF K(2) _ K(4)] in_k k(2) show ?thesis by (metis of_nat_0_le_iff)
  qed
  show "\<exists>P. K = map pid (filter P [0..<n])" if "K \<in> set C" for K
    using that by (auto simp: C)
qed

end
