(* ===== verification/Outcome_Log.thy ===== *)
theory Outcome_Log
  imports Cycle
begin

text \<open>
  Outcome signals: the operations \<open>record_outcome\<close>, \<open>get_outcome_counts\<close> and
  \<open>get_outcome_counts_batch\<close> of the engine (\<open>memory-engine/src/engine/outcome.rs\<close>) and the two
  aggregations they read (\<open>me-backend-sqlite/src/sqlite/event_log.rs\<close>).

  A value taken out of a payload is what \<open>json_extract\<close> gives: null, a number (a Boolean is 0 or 1),
  a text, or the text of an array or object, which never is the name of an outcome. A group whose
  outcome is not a text, or whose count does not fit 32 bits, fails the read. Payload numbers that
  are integers are read as such.
\<close>

record outcome_counts =
  oc_positive :: nat
  oc_negative :: nat
  oc_neutral :: nat

definition no_outcomes :: outcome_counts where
  "no_outcomes = \<lparr>oc_positive = 0, oc_negative = 0, oc_neutral = 0\<rparr>"

datatype payload_value = PayNull | PayNum fl | PayText string | PayJson json

fun payload_value_of :: "json \<Rightarrow> payload_value" where
  "payload_value_of JNull = PayNull"
| "payload_value_of (JBool b) = PayNum (Fin (if b then 1 else 0))"
| "payload_value_of (JNum x) = PayNum x"
| "payload_value_of (JStr s) = PayText s"
| "payload_value_of j = PayJson j"

definition payload_extract :: "json \<Rightarrow> string \<Rightarrow> payload_value" where
  "payload_extract payload key = (case json_get key payload of None \<Rightarrow> PayNull | Some v \<Rightarrow> payload_value_of v)"

definition outcome_signal_of :: "fact_id \<Rightarrow> event \<Rightarrow> bool" where
  \<comment> \<open>the \<open>WHERE\<close> clause for one fact\<close>
  "outcome_signal_of i e \<longleftrightarrow> event_type_to_str (ev_event_type e) = ''OutcomeSignal'' \<and>
     payload_extract (ev_payload e) ''fact_id'' = PayNum (Fin (real_of_int i))"

definition outcome_of_event :: "event \<Rightarrow> payload_value" where
  "outcome_of_event e = payload_extract (ev_payload e) ''outcome''"

definition count_of :: "event list \<Rightarrow> payload_value \<Rightarrow> nat" where
  \<comment> \<open>the \<open>COUNT(*)\<close> of a group\<close>
  "count_of es v = length (filter (\<lambda>e. outcome_of_event e = v) es)"

definition group_ok :: "event list \<Rightarrow> event \<Rightarrow> bool" where
  \<comment> \<open>the columns of the row of the event's group can be read\<close>
  "group_ok es e \<longleftrightarrow>
     (case outcome_of_event e of PayText _ \<Rightarrow> True | PayJson _ \<Rightarrow> True | _ \<Rightarrow> False) \<and>
     count_of es (outcome_of_event e) \<le> u32_max"

definition tally :: "event list \<Rightarrow> outcome_counts" where
  "tally es = \<lparr>oc_positive = count_of es (PayText ''Positive''),
     oc_negative = count_of es (PayText ''Negative''), oc_neutral = count_of es (PayText ''Neutral'')\<rparr>"

definition count_outcome_signals :: "log_store \<Rightarrow> fact_id \<Rightarrow> outcome_counts result" where
  "count_outcome_signals L i =
     (let es = filter (outcome_signal_of i) (lg_events L) in
      if list_all (group_ok es) es then Inr (tally es)
      else Inl (backend_error ''Invalid column type''))"

definition count_outcome_signals_batch ::
    "log_store \<Rightarrow> fact_id list \<Rightarrow> (fact_id \<rightharpoonup> outcome_counts) result" where
  "count_outcome_signals_batch L ids =
     (if ids = [] then Inr Map.empty
      else let signals = (\<lambda>i. filter (outcome_signal_of i) (lg_events L)) in
        if list_all (\<lambda>i. list_all (group_ok (signals i)) (signals i)) ids
        then Inr (\<lambda>i. if i \<in> set ids \<and> signals i \<noteq> [] then Some (tally (signals i)) else None)
        else Inl (backend_error ''Invalid column type''))"

subsection \<open>The engine's operations\<close>

definition record_outcome ::
    "upcaster_registry \<Rightarrow> memory_ctx \<Rightarrow> fact_id \<Rightarrow> outcome \<Rightarrow> time \<Rightarrow> (log_store, int) op" where
  "record_outcome R ctx i oc now =
     op_bind (op_of (ensure_writable ctx)) (\<lambda>_.
     op_bind (op_reads (\<lambda>L. fact_get (ctx_embed_dim ctx) (lg_db L) i)) (\<lambda>_.
     event_insert R \<lparr>nv_timestamp = now, nv_event_type = OutcomeSignal,
       nv_payload = JObj [(''fact_id'', json_int i), (''outcome'', JStr (outcome_variant oc))],
       nv_source = ''outcome_tracking'', nv_session_id = None, nv_scope_id = 1,
       nv_origin_node_id = ''local'', nv_sequence_id = 0, nv_created_at = None\<rparr>))"

definition get_outcome_counts :: "memory_ctx \<Rightarrow> log_store \<Rightarrow> fact_id \<Rightarrow> outcome_counts result" where
  "get_outcome_counts ctx L i =
     and_then (fact_get (ctx_embed_dim ctx) (lg_db L) i) (\<lambda>_. count_outcome_signals L i)"

definition get_outcome_counts_batch ::
    "log_store \<Rightarrow> fact_id list \<Rightarrow> (fact_id \<rightharpoonup> outcome_counts) result" where
  "get_outcome_counts_batch L ids = count_outcome_signals_batch L ids"

subsection \<open>Lemmas\<close>

lemma tally_Nil [simp]: "tally [] = no_outcomes"
  by (simp add: tally_def no_outcomes_def count_of_def)

lemma batch_single:
  assumes "count_outcome_signals_batch L ids = Inr m" "i \<in> set ids"
  shows "count_outcome_signals L i = Inr (case m i of None \<Rightarrow> no_outcomes | Some c \<Rightarrow> c)"
proof -
  from assms(2) have "ids \<noteq> []" by auto
  with assms show ?thesis
    by (auto simp: count_outcome_signals_batch_def count_outcome_signals_def Let_def list_all_iff
        split: if_splits)
qed

lemma batch_ok:
  "(\<exists>m. count_outcome_signals_batch L ids = Inr m) \<longleftrightarrow>
     (\<forall>i \<in> set ids. \<exists>c. count_outcome_signals L i = Inr c)"
  by (auto simp: count_outcome_signals_batch_def count_outcome_signals_def Let_def list_all_iff)

lemma count_of_append [simp]:
  "count_of (es @ [e]) v = count_of es v + (if outcome_of_event e = v then 1 else 0)"
  by (simp add: count_of_def)

definition add_outcome :: "outcome \<Rightarrow> outcome_counts \<Rightarrow> outcome_counts" where
  "add_outcome oc c = (case oc of
      Positive \<Rightarrow> c\<lparr>oc_positive := oc_positive c + 1\<rparr>
    | Negative \<Rightarrow> c\<lparr>oc_negative := oc_negative c + 1\<rparr>
    | Neutral \<Rightarrow> c\<lparr>oc_neutral := oc_neutral c + 1\<rparr>)"

definition counts_below :: "nat \<Rightarrow> outcome_counts \<Rightarrow> bool" where
  "counts_below n c \<longleftrightarrow> oc_positive c < n \<and> oc_negative c < n \<and> oc_neutral c < n"

lemma record_outcome_Inr:
  assumes "record_outcome R ctx i oc now L = (Inr k, L')"
  shows "\<exists>e f. lg_events L' = lg_events L @ [e] \<and> fact_get (ctx_embed_dim ctx) (lg_db L) i = Inr f \<and>
    ev_event_type e = OutcomeSignal \<and>
    ev_payload e = JObj [(''fact_id'', json_int i), (''outcome'', JStr (outcome_variant oc))] \<and>
    d_facts (lg_db L') = d_facts (lg_db L)"
  using assms
  by (auto simp: record_outcome_def op_bind_Inr event_insert_def Let_def new_event_row_def
      split: if_splits)

lemma recorded_signal:
  assumes "ev_event_type e = OutcomeSignal"
    and "ev_payload e = JObj [(''fact_id'', json_int i), (''outcome'', JStr (outcome_variant oc))]"
  shows "outcome_signal_of j e \<longleftrightarrow> j = i" "outcome_of_event e = PayText (outcome_variant oc)"
  using assms
  by (auto simp: outcome_signal_of_def outcome_of_event_def payload_extract_def json_get_def json_int_def)

lemma tally_append:
  assumes "outcome_of_event e = PayText (outcome_variant oc)"
  shows "tally (es @ [e]) = add_outcome oc (tally es)"
  using assms by (cases oc) (simp_all add: tally_def add_outcome_def)

lemma group_ok_append:
  assumes "list_all (group_ok es) es" and e: "outcome_of_event e = PayText (outcome_variant oc)"
    and "counts_below u32_max (tally es)"
  shows "list_all (group_ok (es @ [e])) (es @ [e])"
proof -
  have "count_of es (PayText (outcome_variant oc)) < u32_max"
    using assms(3) by (cases oc) (simp_all add: counts_below_def tally_def)
  with assms(1) e show ?thesis
    by (auto simp: list_all_iff group_ok_def split: payload_value.splits)
qed

lemma record_outcome_counts:
  assumes r: "record_outcome R ctx i oc now L = (Inr k, L')"
    and c: "count_outcome_signals L i = Inr c" "counts_below u32_max c"
  shows "count_outcome_signals L' i = Inr (add_outcome oc c)"
    and "j \<noteq> i \<Longrightarrow> count_outcome_signals L' j = count_outcome_signals L j"
proof -
  from record_outcome_Inr [OF r] obtain e where e: "lg_events L' = lg_events L @ [e]"
    "ev_event_type e = OutcomeSignal"
    "ev_payload e = JObj [(''fact_id'', json_int i), (''outcome'', JStr (outcome_variant oc))]" by blast
  note s = recorded_signal [OF e(2,3)]
  show "j \<noteq> i \<Longrightarrow> count_outcome_signals L' j = count_outcome_signals L j"
    by (simp add: count_outcome_signals_def e(1) s)
  from c group_ok_append [OF _ s(2), of "filter (outcome_signal_of i) (lg_events L)"]
  show "count_outcome_signals L' i = Inr (add_outcome oc c)"
    by (auto simp: count_outcome_signals_def e(1) s Let_def tally_append [OF s(2)] split: if_splits)
qed

end
