(* ===== verification/Dream_Cycle.thy ===== *)
theory Dream_Cycle
  imports Cycle_Apply Dbscan Outcome_Log
begin

text \<open>
  The producers of cycle reports and the calls that run them (crate \<open>me-cognitive\<close>): the default
  cycle (\<open>default_impl.rs\<close>), the cycle whose merges a proposer chooses (\<open>llm_impl.rs\<close>), the context
  they read (\<open>context.rs\<close>), the runs with and without the guard on caller writes (\<open>cognitive.rs\<close>), and
  the promotion of a fact with its lineage (\<open>memory-engine/src/engine/cognitive.rs\<close>,
  \<open>promote_atomic\<close> in \<open>me-backend-sqlite/src/sqlite/consolidation.rs\<close>).

  A \<open>DreamCycle\<close> is a function of the context it is handed; \<open>cycle_ctx\<close> holds what it can read. The
  proposer, the embedder and the reader of timestamps are parameters.
\<close>

subsection \<open>Configuration and context\<close>

record dream_config =
  dc_compression_ratios :: "(fact_type \<times> fl) list"
  dc_promotion_percentile :: fl

definition default_dream_config :: dream_config where
  "default_dream_config =
     \<lparr>dc_compression_ratios = [(Episodic, Fin (2/10)), (Semantic, Fin (8/10)), (Procedural, Fin (8/10))],
      dc_promotion_percentile = Fin (75/100)\<rparr>"

definition dream_config_validate :: "dream_config \<Rightarrow> unit result" where
  "dream_config_validate cfg =
     and_then (check_all (\<lambda>(ft, ratio).
       if \<not> fl_is_finite ratio \<or> \<not> fl_in_range (Fin 0) (Fin 1) ratio
       then Inl (Conflict (PolicyParameter (Fmt
         ''compression ratio for {:?} must be in [0.0, 1.0], got {}'' [AType ft, AFl ratio])))
       else Inr ()) (dc_compression_ratios cfg)) (\<lambda>_.
     if \<not> fl_is_finite (dc_promotion_percentile cfg) \<or>
        \<not> fl_in_range (Fin 0) (Fin 1) (dc_promotion_percentile cfg)
     then Inl (Conflict (PolicyParameter (Fmt
       ''promotion_percentile must be in [0.0, 1.0], got {}'' [AFl (dc_promotion_percentile cfg)])))
     else Inr ())"

record cycle_ctx =
  cx_list_undreamt :: "time_window \<Rightarrow> fact list result"
  cx_outcome_counts_batch :: "fact_id list \<Rightarrow> (fact_id \<rightharpoonup> outcome_counts) result"
  cx_prior_wisdom :: "fact list"
  cx_prior_reports :: "cycle_metadata list"
  cx_time_window :: time_window

type_synonym dream_cycle = "cycle_ctx \<Rightarrow> time \<Rightarrow> cycle_report result"

definition by_id :: "fact list \<Rightarrow> fact_id \<Rightarrow> fact option" where
  \<comment> \<open>the map from ids to the facts of the window; a later fact replaces an earlier one\<close>
  "by_id facts i = map_of (rev (map (\<lambda>f. (f_id f, f)) facts)) i"

definition fact_at :: "fact list \<Rightarrow> fact_id \<Rightarrow> fact" where
  \<comment> \<open>\<open>by_id[&id]\<close>, only used on ids of the window\<close>
  "fact_at facts i = the (by_id facts i)"

definition empty_identity :: identity_output where
  "empty_identity = \<lparr>io_anchors = [], io_core = [], io_predictions = []\<rparr>"

definition next_cycle_id :: "cycle_metadata list \<Rightarrow> nat" where
  "next_cycle_id prior = (case map cm_cycle_id prior of
      [] \<Rightarrow> 0 | k # ks \<Rightarrow> (fold max ks k + 1) mod 2 ^ 64)"

subsection \<open>The default cycle\<close>

definition dbscan_eps :: fl where "dbscan_eps = Fin (15/100)"
definition dbscan_min_pts :: nat where "dbscan_min_pts = 3"
definition quarantine_negative_threshold :: nat where "quarantine_negative_threshold = 3"
definition dbscan_method :: string where "dbscan_method = ''dbscan-v1''"

fun fl_round_index :: "fl \<Rightarrow> nat" where
  \<comment> \<open>\<open>x.round() as usize\<close>: half away from zero, saturating, NaN to 0\<close>
  "fl_round_index (Fin x) = min (nat \<lfloor>x + 1/2\<rfloor>) usize_max"
| "fl_round_index PInf = usize_max"
| "fl_round_index _ = 0"

definition percentile :: "fl list \<Rightarrow> fl \<Rightarrow> fl" where
  "percentile values p =
     (if values = [] then Fin 0
      else
        let p = fl_clamp (Fin 0) (Fin 1) p;
            v = sort_by fl_cmp_or_equal values;
            idx = min (fl_round_index (fl_mul p (Fin (real (length v - 1))))) (length v - 1)
        in v ! idx)"

fun min_time :: "time list \<Rightarrow> time option" where
  "min_time [] = None" | "min_time (t # ts) = Some (fold min ts t)"

fun max_time :: "time list \<Rightarrow> time option" where
  "max_time [] = None" | "max_time (t # ts) = Some (fold max ts t)"

definition cluster_provenance :: "fact_id list \<Rightarrow> fact list \<Rightarrow> time \<Rightarrow> promotion_provenance" where
  "cluster_provenance cluster facts now =
     (let members = List.map_filter (by_id facts) cluster;
          created = map f_t_created members in
      \<lparr>pp_source_count = length cluster mod 2 ^ 32, pp_session_count = 1,
       pp_date_range_start = (case min_time created of Some t \<Rightarrow> t | None \<Rightarrow> now),
       pp_date_range_end = (case max_time created of Some t \<Rightarrow> t | None \<Rightarrow> now),
       pp_confidence = fl_sub (Fin 1) (fl_div (Fin 1) (Fin (real (length cluster)))),
       pp_method_version = dbscan_method, pp_representative_ids = take 5 cluster\<rparr>)"

definition medoid_cmp :: "fact list \<Rightarrow> fact_id \<Rightarrow> fact_id \<Rightarrow> ord3" where
  \<comment> \<open>by importance; the smaller id wins a tie\<close>
  "medoid_cmp facts a b =
     (case fl_cmp_or_equal (f_base_importance (fact_at facts a)) (f_base_importance (fact_at facts b)) of
        OEqual \<Rightarrow> (if b < a then OLess else if b = a then OEqual else OGreater)
      | c \<Rightarrow> c)"

definition promote_cluster ::
    "fact list \<Rightarrow> time \<Rightarrow> fl \<Rightarrow> fact_id list \<Rightarrow> cycle_delta list \<times> fact_id set \<Rightarrow> cycle_delta list \<times> fact_id set" where
  "promote_cluster facts now p75 cluster = (\<lambda>(deltas, promoted).
     case max_by (medoid_cmp facts) cluster of
       None \<Rightarrow> (deltas, promoted)
     | Some medoid \<Rightarrow>
         if fl_le p75 (f_base_importance (fact_at facts medoid))
         then (deltas @ [Promote medoid (cluster_provenance cluster facts now)], insert medoid promoted)
         else (deltas, promoted))"

definition bucket_of :: "fact list \<Rightarrow> fact_type \<Rightarrow> fact list" where
  "bucket_of facts ft = filter (\<lambda>f. f_fact_type f = ft) facts"

definition promote_type ::
    "dream_config \<Rightarrow> fact list \<Rightarrow> time \<Rightarrow> fact_type \<Rightarrow> cycle_delta list \<times> fact_id set \<Rightarrow> cycle_delta list \<times> fact_id set" where
  "promote_type cfg facts now ft acc =
     (let bucket = bucket_of facts ft in
      if length bucket < dbscan_min_pts then acc
      else
        let p75 = percentile (map f_base_importance bucket) (dc_promotion_percentile cfg);
            points = map (\<lambda>f. (f_id f, f_embedding f)) bucket
        in fold (promote_cluster facts now p75) (dbscan points dbscan_eps dbscan_min_pts) acc)"

definition rescore ::
    "(fact_id \<rightharpoonup> outcome_counts) \<Rightarrow> fact_id set \<Rightarrow> fact \<Rightarrow> cycle_delta list \<Rightarrow> cycle_delta list" where
  "rescore outcome_counts promoted f deltas =
     (if f_id f \<in> promoted then deltas
      else
        let counts = (case outcome_counts (f_id f) of None \<Rightarrow> no_outcomes | Some c \<Rightarrow> c) in
        if oc_positive counts = 0 \<and> quarantine_negative_threshold \<le> oc_negative counts
        then deltas @ [Quarantine (f_id f) ''consistent negative outcomes'']
        else
          let net = int (oc_positive counts) - int (oc_negative counts) in
          if net \<noteq> 0 then deltas @ [AdjustScore (f_id f) (word_of_int (max (-2) (min 2 net)))]
          else deltas)"

definition default_run :: "dream_config \<Rightarrow> dream_cycle" where
  "default_run cfg ctx now =
     (let window = cx_time_window ctx in
      and_then (cx_list_undreamt ctx window) (\<lambda>facts.
      case fold (promote_type cfg facts now) [Episodic, Semantic, Procedural] ([], {}) of
        (deltas, promoted) \<Rightarrow>
          and_then (cx_outcome_counts_batch ctx (filter (\<lambda>i. i \<notin> promoted) (map f_id facts)))
            (\<lambda>outcome_counts.
          Inr \<lparr>rp_deltas = fold (rescore outcome_counts promoted) facts deltas,
               rp_identity = empty_identity,
               rp_metadata = \<lparr>cm_cycle_id = next_cycle_id (cx_prior_reports ctx), cm_ran_at = now,
                 cm_time_window = window, cm_facts_selected = length facts,
                 cm_method_version = dbscan_method, cm_processed_ids = map f_id facts\<rparr>\<rparr>)))"

subsection \<open>The cycle with a proposer\<close>

record merge_group =
  mg_source_ids :: "fact_id list"
  mg_summary :: string

type_synonym delta_proposer = "fact list \<Rightarrow> fact list \<Rightarrow> merge_group list result"

fun clamp_sources :: "(fact_id \<Rightarrow> bool) \<Rightarrow> fact_id set \<Rightarrow> fact_id list \<Rightarrow> fact_id list" where
  \<comment> \<open>the set is \<open>local_seen\<close>; it only grows for ids that pass the other tests\<close>
  "clamp_sources ok seen [] = []"
| "clamp_sources ok seen (i # is) =
     (if ok i \<and> i \<notin> seen then i # clamp_sources ok (insert i seen) is
      else clamp_sources ok seen is)"

definition merge_fact :: "fact list \<Rightarrow> time \<Rightarrow> fact_id list \<Rightarrow> int \<Rightarrow> string \<Rightarrow> fl list \<Rightarrow> new_fact" where
  "merge_fact facts now sources scope_id summary embedding =
     builder_build now ((builder_new summary embedding Semantic)
       \<lparr>b_t_created := Some now,
        b_base_importance := fold (\<lambda>i m. fl_max m (f_base_importance (fact_at facts i))) sources (Fin 0),
        b_scope_id := scope_id\<rparr>)"

definition propose_group ::
    "(string \<Rightarrow> fl list result) \<Rightarrow> fact list \<Rightarrow> time \<Rightarrow> merge_group
      \<Rightarrow> cycle_delta list \<times> fact_id set \<Rightarrow> (cycle_delta list \<times> fact_id set) result" where
  "propose_group embedder facts now mgroup = (\<lambda>(deltas, consumed).
     case clamp_sources (\<lambda>i. by_id facts i \<noteq> None \<and> i \<notin> consumed) {} (mg_source_ids mgroup) of
       [] \<Rightarrow> Inr (deltas, consumed)
     | src # srcs \<Rightarrow>
         let sources = src # srcs; scope_id = f_scope_id (fact_at facts src) in
         if list_ex (\<lambda>i. f_scope_id (fact_at facts i) \<noteq> scope_id) sources then Inr (deltas, consumed)
         else and_then (embedder (mg_summary mgroup)) (\<lambda>embedding.
           Inr (deltas @ [Synthesize sources (merge_fact facts now sources scope_id (mg_summary mgroup) embedding)],
                consumed \<union> set sources)))"

fun propose_groups ::
    "(string \<Rightarrow> fl list result) \<Rightarrow> fact list \<Rightarrow> time \<Rightarrow> merge_group list
      \<Rightarrow> cycle_delta list \<times> fact_id set \<Rightarrow> (cycle_delta list \<times> fact_id set) result" where
  "propose_groups embedder facts now [] acc = Inr acc"
| "propose_groups embedder facts now (g # gs) acc =
     and_then (propose_group embedder facts now g acc) (propose_groups embedder facts now gs)"

definition llm_method :: string where "llm_method = ''llm-proposer-v1''"

definition llm_run :: "delta_proposer \<Rightarrow> (string \<Rightarrow> fl list result) \<Rightarrow> dream_cycle" where
  "llm_run propose embedder ctx now =
     (let window = cx_time_window ctx in
      and_then (cx_list_undreamt ctx window) (\<lambda>facts.
      and_then (propose facts (cx_prior_wisdom ctx)) (\<lambda>merges.
      and_then (propose_groups embedder facts now merges ([], {})) (\<lambda>(deltas, _).
      Inr \<lparr>rp_deltas = deltas, rp_identity = empty_identity,
           rp_metadata = \<lparr>cm_cycle_id = next_cycle_id (cx_prior_reports ctx), cm_ran_at = now,
             cm_time_window = window, cm_facts_selected = length facts,
             cm_method_version = llm_method, cm_processed_ids = map f_id facts\<rparr>\<rparr>))))"

subsection \<open>Integers as text\<close>

fun show_nat :: "nat \<Rightarrow> string" where
  "show_nat n = (if n < 10 then [char_of (48 + n)] else show_nat (n div 10) @ [char_of (48 + n mod 10)])"

declare show_nat.simps [simp del]

definition show_int :: "int \<Rightarrow> string" where
  \<comment> \<open>\<open>i64::to_string\<close>\<close>
  "show_int i = (if i < 0 then CHR ''-'' # show_nat (nat (- i)) else show_nat (nat i))"

definition in_i64 :: "int \<Rightarrow> bool" where
  "in_i64 i \<longleftrightarrow> - 9223372036854775808 \<le> i \<and> i \<le> 9223372036854775807"

definition digit_of :: "char \<Rightarrow> int option" where
  "digit_of c = (let n = of_char c :: nat in if 48 \<le> n \<and> n \<le> 57 then Some (int n - 48) else None)"

fun parse_digits :: "int \<Rightarrow> string \<Rightarrow> int \<Rightarrow> string + int" where
  \<comment> \<open>the sign of the digits, the digits, the value so far\<close>
  "parse_digits sg [] r = Inr r"
| "parse_digits sg (c # cs) r =
     (case digit_of c of
        None \<Rightarrow> Inl ''invalid digit found in string''
      | Some d \<Rightarrow>
          if in_i64 (r * 10) \<and> in_i64 (r * 10 + sg * d) then parse_digits sg cs (r * 10 + sg * d)
          else Inl (if sg < 0 then ''number too small to fit in target type''
                    else ''number too large to fit in target type''))"

definition parse_i64 :: "string \<Rightarrow> string + int" where
  "parse_i64 s = (case s of
      [] \<Rightarrow> Inl ''cannot parse integer from empty string''
    | c # cs \<Rightarrow>
        if (c = CHR ''+'' \<or> c = CHR ''-'') \<and> cs = [] then Inl ''invalid digit found in string''
        else if c = CHR ''-'' then parse_digits (-1) cs 0
        else if c = CHR ''+'' then parse_digits 1 cs 0
        else parse_digits 1 s 0)"

subsection \<open>Running a cycle\<close>

definition caller_write_cursor :: string where "caller_write_cursor = ''last_caller_write_fact_id''"

definition parse_caller_write_cursor :: "string option \<Rightarrow> int result" where
  "parse_caller_write_cursor raw = (case raw of
      None \<Rightarrow> Inr 0
    | Some s \<Rightarrow> (case parse_i64 s of
          Inr i \<Rightarrow> Inr i
        | Inl e \<Rightarrow> Inl (Migration (Incompatible (Fmt ''invalid last_caller_write_fact_id: {}'' [AStr e])))))"

definition engine_dream_ctx ::
    "nat \<Rightarrow> log_store \<Rightarrow> fact list \<Rightarrow> cycle_metadata list \<Rightarrow> time_window \<Rightarrow> cycle_ctx" where
  \<comment> \<open>the reads of the engine's adapter, over the store\<close>
  "engine_dream_ctx edim L prior_wisdom prior_reports window =
     \<lparr>cx_list_undreamt = (\<lambda>w. list_undreamt_in_period edim (lg_db L) (tw_start w) (tw_end w) [] None),
      cx_outcome_counts_batch = get_outcome_counts_batch L,
      cx_prior_wisdom = prior_wisdom, cx_prior_reports = prior_reports, cx_time_window = window\<rparr>"

definition build_cycle_context ::
    "cycle_env \<Rightarrow> (string \<Rightarrow> string + time) \<Rightarrow> nat \<Rightarrow> log_store \<Rightarrow> time \<Rightarrow> cycle_ctx result" where
  "build_cycle_context E read_time edim L now =
     and_then (list_pinned edim (lg_db L) [] usize_max) (\<lambda>prior_wisdom.
     and_then (case get_config L last_dream_cycle_at of
         Some s \<Rightarrow> (case read_time s of
             Inr t \<Rightarrow> Inr t
           | Inl e \<Rightarrow> Inl (Migration (Incompatible (Fmt ''invalid last_dream_cycle_at: {}'' [AStr e]))))
       | None \<Rightarrow> Inr 0) (\<lambda>start.
     and_then (read_history E L) (\<lambda>prior_reports.
     Inr (engine_dream_ctx edim L prior_wisdom prior_reports \<lparr>tw_start = start, tw_end = now\<rparr>))))"

definition run_dream_cycle ::
    "cycle_env \<Rightarrow> (string \<Rightarrow> string + time) \<Rightarrow> memory_ctx \<Rightarrow> dream_cycle \<Rightarrow> time \<Rightarrow> (log_store, cycle_report) op" where
  "run_dream_cycle E read_time ctx cycle now =
     op_bind (op_of (ensure_open ctx)) (\<lambda>_.
     op_bind (op_of (ensure_writable ctx)) (\<lambda>_.
     op_bind (op_reads (\<lambda>L. build_cycle_context E read_time (ctx_embed_dim ctx) L now)) (\<lambda>cx.
     op_of (cycle cx now))))"

datatype skip_reason = CallerWroteFacts fact_id fact_id   \<comment> \<open>since, new greatest\<close>

datatype cycle_outcome = CycleRan cycle_report | CycleSkipped skip_reason

definition guard_decision :: "log_store \<Rightarrow> int \<Rightarrow> skip_reason option" where
  "guard_decision L cursor = (case max_caller_written_fact_id (lg_db L) of
      Some max_id \<Rightarrow> if cursor < max_id then Some (CallerWroteFacts cursor max_id) else None
    | None \<Rightarrow> None)"

definition run_dream_cycle_guarded ::
    "cycle_env \<Rightarrow> (string \<Rightarrow> string + time) \<Rightarrow> memory_ctx \<Rightarrow> dream_cycle \<Rightarrow> time \<Rightarrow> (log_store, cycle_outcome) op" where
  "run_dream_cycle_guarded E read_time ctx cycle now =
     op_bind (op_of (ensure_open ctx)) (\<lambda>_.
     op_bind (op_of (ensure_writable ctx)) (\<lambda>_.
     op_bind (op_reads (\<lambda>L. parse_caller_write_cursor (get_config L caller_write_cursor))) (\<lambda>cursor.
     op_bind (op_reads (\<lambda>L. Inr (guard_decision L cursor))) (\<lambda>decision.
     case decision of
       Some (CallerWroteFacts since max_id) \<Rightarrow>
         op_bind (set_config caller_write_cursor (show_int max_id)) (\<lambda>_.
         op_return (CycleSkipped (CallerWroteFacts since max_id)))
     | None \<Rightarrow>
         op_bind (run_dream_cycle E read_time ctx cycle now) (\<lambda>report.
         if 0 < cm_facts_selected (rp_metadata report) \<and> cm_processed_ids (rp_metadata report) = []
         then op_fail (Cycle (MalformedReport (cm_facts_selected (rp_metadata report))))
         else op_return (CycleRan report))))))"

subsection \<open>Promotion\<close>

record promote_request =
  pr_content :: string
  pr_fact_type :: fact_type
  pr_embedding :: "fl list"
  pr_importance :: fl
  pr_metadata :: json
  pr_scope :: "string option"
  pr_source_fact_ids :: "fact_id list"
  pr_provenance :: promotion_provenance

definition promote_atomic ::
    "cycle_env \<Rightarrow> nat \<Rightarrow> new_fact \<Rightarrow> string option \<Rightarrow> fact_id list \<Rightarrow> promotion_provenance
      \<Rightarrow> (log_store, (fact_id \<times> int) \<times> int list) op" where
  \<comment> \<open>the ids of the fact and of its lineage, and the scope to cache\<close>
  "promote_atomic E edim nf scope_path sources prov =
     transaction (
       op_bind (op_reads (\<lambda>L. require_present (lg_db L))) (\<lambda>_.
       op_bind (case scope_path of
           Some path \<Rightarrow> op_bind (on_tables (on_scopes (\<lambda>s. ensure_path s path))) (\<lambda>i. op_return (i, [i]))
         | None \<Rightarrow> op_return (1, [])) (\<lambda>(scope_id, to_cache).
       op_bind (on_tables (fact_insert (ce_hash E) edim (nf\<lparr>nf_scope_id := scope_id\<rparr>))) (\<lambda>i.
       op_bind (lineage_insert i sources prov) (\<lambda>lineage_id.
       op_return ((i, lineage_id), to_cache))))))"

definition promote_request_fact :: "cycle_env \<Rightarrow> promote_request \<Rightarrow> time \<Rightarrow> new_fact" where
  "promote_request_fact E req now =
     \<lparr>nf_content = pr_content req, nf_content_hash = [], nf_embedding = pr_embedding req,
      nf_fact_type = pr_fact_type req, nf_t_created = now, nf_t_expired = None, nf_t_valid = None,
      nf_t_invalid = None, nf_source_event_id = None, nf_base_importance = pr_importance req,
      nf_access_count = 0, nf_last_accessed = now,
      nf_metadata = promotion_metadata E (pr_metadata req) (pr_provenance req), nf_scope_id = 1,
      nf_is_pinned = True\<rparr>"

definition cache_new_scopes ::
    "scopes_table \<Rightarrow> int list \<Rightarrow> scope_tree \<Rightarrow> scope_tree result option" where
  \<comment> \<open>the loop over the ids to cache; \<open>None\<close> when hydration does not end\<close>
  "cache_new_scopes s ids t = fold (\<lambda>i acc. case acc of
      Some (Inr t') \<Rightarrow> cache_scope_chain (scope_get s) t' i | stop \<Rightarrow> stop) ids (Some (Inr t))"

definition promote_with_lineage ::
    "cycle_env \<Rightarrow> nat \<Rightarrow> promote_request \<Rightarrow> time \<Rightarrow> log_store \<times> scope_tree
      \<Rightarrow> ((fact_id \<times> int) result \<times> (log_store \<times> scope_tree)) option" where
  "promote_with_lineage E edim req now = (\<lambda>(L, t).
     if length (pr_embedding req) \<noteq> edim
     then Some (Inl (EmbeddingDimension edim (length (pr_embedding req))), (L, t))
     else
       (case promote_atomic E edim (promote_request_fact E req now) (pr_scope req)
               (pr_source_fact_ids req) (pr_provenance req) L of
          (Inl e, L1) \<Rightarrow> Some (Inl e, (L1, t))
        | (Inr (ids, to_cache), L1) \<Rightarrow>
            (case cache_new_scopes (d_scopes (lg_db L1)) to_cache t of
               None \<Rightarrow> None
             | Some (Inl e) \<Rightarrow> Some (Inl e, (L1, t))
             | Some (Inr t1) \<Rightarrow> Some (Inr ids, (L1, t1)))))"

end
