(* ===== verification/Dream_Reports.thy ===== *)
theory Dream_Reports
  imports Dream_Cycle
begin

text \<open>
  What the two cycles put in their reports, and why it is applied: the facts of a window are active
  rows of the store, each delta of a report is about facts no other delta is about, and a report
  of that shape passes the validation and is applied.
\<close>

subsection \<open>The facts of a window\<close>

definition in_window :: "time \<Rightarrow> time \<Rightarrow> fact \<Rightarrow> bool" where
  "in_window start end_time f \<longleftrightarrow> is_active_row f \<and>
     (case f_t_valid f of None \<Rightarrow> True | Some tv \<Rightarrow> tv < end_time) \<and>
     (case f_t_invalid f of None \<Rightarrow> True | Some ti \<Rightarrow> start < ti) \<and>
     json_get ''dream_cycle'' (f_metadata f) = None"

lemma undreamt_facts:
  assumes inv: "db_inv edim D"
  shows "\<exists>facts. list_undreamt_in_period edim D start end_time [] None = Inr facts \<and>
    set facts = {f \<in> set (d_facts D). in_window start end_time f} \<and> distinct (map f_id facts)"
proof -
  let ?p = "\<lambda>f. is_active_row f \<and> (case f_t_valid f of None \<Rightarrow> True | Some tv \<Rightarrow> tv < end_time) \<and>
    (case f_t_invalid f of None \<Rightarrow> True | Some ti \<Rightarrow> start < ti) \<and> in_scopes [] f \<and>
    (case None of None \<Rightarrow> True | Some t \<Rightarrow> f_fact_type f = t) \<and> json_get ''dream_cycle'' (f_metadata f) = None"
  let ?fs = "sort_by importance_then_id (filter ?p (d_facts D))"
  have "select_facts edim ?fs = Inr ?fs"
    by (rule select_facts_ok [OF inv]) auto
  moreover have "distinct (map f_id (filter ?p (d_facts D)))"
    using db_inv_distinct [OF inv] by (simp add: distinct_map_filter)
  then have "distinct (map f_id ?fs)"
    using mset_eq_imp_distinct_iff [of "map f_id ?fs" "map f_id (filter ?p (d_facts D))"] by simp
  ultimately show ?thesis
    by (auto simp: list_undreamt_in_period_def list_active_in_period_inner_def in_window_def in_scopes_def)
qed

lemma undreamt_facts_Inr:
  assumes "db_inv edim D" "list_undreamt_in_period edim D start end_time [] None = Inr facts"
  shows "set facts = {f \<in> set (d_facts D). in_window start end_time f}" "distinct (map f_id facts)"
  using undreamt_facts [OF assms(1), of start end_time] assms(2) by auto

lemma by_id_iff:
  assumes "distinct (map f_id facts)"
  shows "by_id facts i = Some f \<longleftrightarrow> f \<in> set facts \<and> f_id f = i"
proof -
  have "distinct (map fst (rev (map (\<lambda>f. (f_id f, f)) facts)))"
    using assms by (simp add: rev_map [symmetric] o_def)
  then show ?thesis by (auto simp: by_id_def map_of_eq_Some_iff)
qed

lemma by_id_None: "by_id facts i = None \<longleftrightarrow> i \<notin> f_id ` set facts"
  by (auto simp: by_id_def map_of_eq_None_iff image_image)

lemma fact_at_id: "distinct (map f_id facts) \<Longrightarrow> f \<in> set facts \<Longrightarrow> fact_at facts (f_id f) = f"
  by (simp add: fact_at_def by_id_iff [THEN iffD2])

lemma fact_at_in: "distinct (map f_id facts) \<Longrightarrow> i \<in> f_id ` set facts \<Longrightarrow>
    fact_at facts i \<in> set facts \<and> f_id (fact_at facts i) = i"
  using fact_at_id by fastforce

subsection \<open>Reports that pass the validation\<close>

fun delta_ids :: "cycle_delta \<Rightarrow> fact_id list" where
  \<comment> \<open>the active facts a delta needs\<close>
  "delta_ids (AdjustScore i _) = [i]"
| "delta_ids (Quarantine i _) = [i]"
| "delta_ids (Promote i _) = [i]"
| "delta_ids (Synthesize sources _) = sources"
| "delta_ids _ = []"

fun delta_expires :: "cycle_delta \<Rightarrow> fact_id set" where
  "delta_expires (Quarantine i _) = {i}"
| "delta_expires (Synthesize sources _) = set sources"
| "delta_expires _ = {}"

fun produced_delta :: "cycle_env \<Rightarrow> nat \<Rightarrow> cycle_delta \<Rightarrow> bool" where
  \<comment> \<open>the deltas the cycles make\<close>
  "produced_delta E edim (AdjustScore i adj) = (- 2 \<le> sint adj \<and> sint adj \<le> 2)"
| "produced_delta E edim (Quarantine i r) = True"
| "produced_delta E edim (Promote i p) = True"
| "produced_delta E edim (Synthesize sources nf) =
     (sources \<noteq> [] \<and> validate_new_fact E edim nf = Inr ())"
| "produced_delta E edim _ = False"

lemma small_adjustment: "- 2 \<le> sint (w :: 16 word) \<Longrightarrow> sint w \<le> 2 \<Longrightarrow> \<not> max_adjustment <s abs_i16 w"
proof -
  assume w: "- 2 \<le> sint w" "sint w \<le> 2"
  then have "w \<in> {word_of_int (-2), word_of_int (-1), 0, 1, 2}"
  proof -
    have "sint w \<in> {-2, -1, 0, 1, 2}" using w by auto
    moreover have "w = word_of_int (sint w)" by simp
    ultimately show ?thesis by (metis insert_iff empty_iff of_int_0 of_int_1 of_int_numeral)
  qed
  then show ?thesis by (auto simp: max_adjustment_def abs_i16_def word_sless_alt)
qed

lemma validate_sources_ok:
  assumes "db_inv edim D" "distinct srcs" "\<forall>i \<in> set srcs. is_active D i \<and> i \<notin> ex"
  shows "validate_sources edim D srcs ex = Inr (ex \<union> set srcs)"
  using assms(2,3)
proof (induction srcs arbitrary: ex)
  case (Cons src srcs)
  then have "require_active edim D src (UnknownFact src) ex = Inr ()"
    by (simp add: require_active_ok [OF assms(1)])
  with Cons.IH [of "insert src ex"] Cons.prems show ?case by auto
qed simp

lemma validate_produced:
  assumes "db_inv edim D" "produced_delta E edim d" "distinct (delta_ids d)"
    and "\<forall>i \<in> set (delta_ids d). is_active D i \<and> i \<notin> ex"
  shows "validate_delta E edim D d ex = Inr (ex \<union> delta_expires d)"
  using assms(2-4)
  by (cases d) (auto simp: require_active_ok [OF assms(1), THEN iffD2] small_adjustment
      validate_sources_ok [OF assms(1)])

lemma delta_expires_ids: "delta_expires d \<subseteq> set (delta_ids d)"
  by (cases d) auto

lemma validate_produced_all:
  assumes "db_inv edim D" "\<forall>d \<in> set ds. produced_delta E edim d"
    and "distinct (concat (map delta_ids ds))"
    and "\<forall>i \<in> set (concat (map delta_ids ds)). is_active D i \<and> i \<notin> ex"
  shows "validate_deltas E edim D ds ex = Inr (ex \<union> (\<Union>d \<in> set ds. delta_expires d))"
  using assms(2-4)
proof (induction ds arbitrary: ex)
  case (Cons d ds)
  have v: "validate_delta E edim D d ex = Inr (ex \<union> delta_expires d)"
    using Cons.prems by (intro validate_produced [OF assms(1)]) auto
  have "validate_deltas E edim D ds (ex \<union> delta_expires d) =
      Inr (ex \<union> delta_expires d \<union> (\<Union>d \<in> set ds. delta_expires d))"
    using Cons.prems delta_expires_ids [of d] by (intro Cons.IH) auto
  with v show ?case by (simp add: Un_assoc)
qed simp

text \<open>A report about distinct active facts, whose processed facts exist, is applied.\<close>

lemma produced_report_applies:
  assumes inv: "log_inv edim L"
    and prod: "\<forall>d \<in> set (rp_deltas report). produced_delta E edim d \<and> delta_ready (lg_db L) d"
    and dist: "distinct (concat (map delta_ids (rp_deltas report)))"
    and act: "\<forall>i \<in> set (concat (map delta_ids (rp_deltas report))). is_active (lg_db L) i"
    and proc: "set (cm_processed_ids (rp_metadata report)) \<subseteq> fact_ids_of (lg_db L)"
    and ident: "list_ex carries_embedding (rp_deltas report) \<Longrightarrow> d_identity (lg_db L) \<noteq> None"
    and hist: "read_history E L = Inr history"
  shows "\<exists>x L'. apply_cycle_deltas_atomic E edim report now L = (Inr x, L') \<and>
    (\<forall>i \<in> fact_ids_of (lg_db L). is_active (lg_db L') i \<longleftrightarrow>
       is_active (lg_db L) i \<and> (\<forall>d \<in> set (rp_deltas report). i \<notin> delta_expires d))"
proof -
  have db: "db_inv edim (lg_db L)" using inv by (simp add: log_inv_def)
  have v: "validate_deltas E edim (lg_db L) (rp_deltas report) {} =
      Inr (\<Union>d \<in> set (rp_deltas report). delta_expires d)"
    using validate_produced_all [OF db, of "rp_deltas report" E "{}"] prod dist act by simp
  have "check_all (\<lambda>i. and_then (require_fact edim (lg_db L) i (UnknownFact i)) (\<lambda>_. Inr ()))
      (cm_processed_ids (rp_metadata report)) = Inr ()"
    using proc require_fact_ok [OF db] by (auto simp: check_all_ok and_then_eq_Inr)
  with v have "validate_report E edim (lg_db L) report = Inr ()"
    by (simp add: validate_report_def)
  from cycle_applies [OF inv this _ ident hist, of now] prod v show ?thesis by auto
qed

subsection \<open>The report of the default cycle\<close>

definition promotion_of :: "fact list \<Rightarrow> time \<Rightarrow> fl \<Rightarrow> fact_id list \<Rightarrow> cycle_delta list" where
  "promotion_of facts now p75 cluster = (case max_by (medoid_cmp facts) cluster of
      None \<Rightarrow> []
    | Some medoid \<Rightarrow> if fl_le p75 (f_base_importance (fact_at facts medoid))
        then [Promote medoid (cluster_provenance cluster facts now)] else [])"

definition promotions_of_type :: "dream_config \<Rightarrow> fact list \<Rightarrow> time \<Rightarrow> fact_type \<Rightarrow> cycle_delta list" where
  "promotions_of_type cfg facts now ft =
     (let bucket = bucket_of facts ft in
      if length bucket < dbscan_min_pts then []
      else concat (map (promotion_of facts now
             (percentile (map f_base_importance bucket) (dc_promotion_percentile cfg)))
           (dbscan (map (\<lambda>f. (f_id f, f_embedding f)) bucket) dbscan_eps dbscan_min_pts)))"

definition ids_of :: "cycle_delta list \<Rightarrow> fact_id list" where
  "ids_of ds = concat (map delta_ids ds)"

lemma ids_of_simps [simp]: "ids_of [] = []" "ids_of (d # ds) = delta_ids d @ ids_of ds"
    "ids_of (ds @ es) = ids_of ds @ ids_of es"
  by (simp_all add: ids_of_def)

lemma promote_cluster_eq:
  "promote_cluster facts now p75 K (ds, pr) =
     (ds @ promotion_of facts now p75 K, pr \<union> set (ids_of (promotion_of facts now p75 K)))"
  by (auto simp: promote_cluster_def promotion_of_def split: option.split)

lemma promote_clusters_eq:
  "fold (promote_cluster facts now p75) Ks (ds, pr) =
     (ds @ concat (map (promotion_of facts now p75) Ks),
      pr \<union> set (ids_of (concat (map (promotion_of facts now p75) Ks))))"
  by (induction Ks arbitrary: ds pr) (auto simp: promote_cluster_eq)

lemma promote_type_eq:
  "promote_type cfg facts now ft (ds, pr) =
     (ds @ promotions_of_type cfg facts now ft, pr \<union> set (ids_of (promotions_of_type cfg facts now ft)))"
  by (simp add: promote_type_def promotions_of_type_def promote_clusters_eq Let_def)

lemma max_by_in: "max_by cmp xs = Some x \<Longrightarrow> x \<in> set xs"
proof -
  have "fold (\<lambda>y best. if cmp best y = OGreater then best else y) ys x \<in> insert x (set ys)" for ys x
    by (induction ys arbitrary: x) auto
  then show "max_by cmp xs = Some x \<Longrightarrow> x \<in> set xs" by (cases xs) auto
qed

lemma promotion_of_ids:
  "set (ids_of (promotion_of facts now p75 K)) \<subseteq> set K" "distinct (ids_of (promotion_of facts now p75 K))"
  by (auto simp: promotion_of_def dest: max_by_in split: option.splits if_splits)

lemma distinct_concat_sub:
  assumes "distinct (concat Ks)" "\<And>K. set (g K) \<subseteq> set K" "\<And>K. distinct (g K)"
  shows "distinct (concat (map g Ks))" "set (concat (map g Ks)) \<subseteq> set (concat Ks)"
proof -
  have sub: "set (concat (map g Ks)) \<subseteq> set (concat Ks)" for Ks
    using assms(2) by auto
  show "distinct (concat (map g Ks))"
    using assms(1)
  proof (induction Ks)
    case (Cons K Ks)
    then have "set (g K) \<inter> set (concat (map g Ks)) = {}"
      using assms(2) [of K] sub [of Ks] by fastforce
    with Cons assms(3) show ?case by simp
  qed simp
  show "set (concat (map g Ks)) \<subseteq> set (concat Ks)" by (rule sub)
qed

lemma ids_of_concat: "ids_of (concat (map g Ks)) = concat (map (\<lambda>K. ids_of (g K)) Ks)"
  by (induction Ks) auto

lemma promotions_of_type_ids:
  assumes "distinct (map f_id facts)"
  shows "distinct (ids_of (promotions_of_type cfg facts now ft))"
    "set (ids_of (promotions_of_type cfg facts now ft)) \<subseteq> f_id ` {f \<in> set facts. f_fact_type f = ft}"
proof -
  let ?b = "bucket_of facts ft"
  let ?pts = "map (\<lambda>f. (f_id f, f_embedding f)) ?b"
  let ?g = "promotion_of facts now (percentile (map f_base_importance ?b) (dc_promotion_percentile cfg))"
  let ?Ks = "dbscan ?pts dbscan_eps dbscan_min_pts"
  have d: "distinct (map fst ?pts)"
    using assms by (simp add: o_def bucket_of_def distinct_map_filter)
  note sub = distinct_concat_sub [OF dbscan_members(1) [OF d], of "\<lambda>K. ids_of (?g K)"]
  have "distinct (ids_of (concat (map ?g ?Ks)))" "set (ids_of (concat (map ?g ?Ks))) \<subseteq> set (concat ?Ks)"
    unfolding ids_of_concat by (intro sub promotion_of_ids)+
  moreover have "set (concat ?Ks) \<subseteq> f_id ` {f \<in> set facts. f_fact_type f = ft}"
  proof -
    have "fst ` set ?pts = f_id ` {f \<in> set facts. f_fact_type f = ft}"
      by (auto simp: bucket_of_def image_image)
    with dbscan_members(2) [OF d] show ?thesis by (simp only:)
  qed
  moreover have "promotions_of_type cfg facts now ft = [] \<or>
      promotions_of_type cfg facts now ft = concat (map ?g ?Ks)"
    unfolding promotions_of_type_def Let_def by (rule if_split [THEN iffD2]) iprover
  ultimately show "distinct (ids_of (promotions_of_type cfg facts now ft))"
    "set (ids_of (promotions_of_type cfg facts now ft)) \<subseteq> f_id ` {f \<in> set facts. f_fact_type f = ft}"
    by (auto simp only: ids_of_simps list.set distinct.simps)
qed

definition promotions :: "dream_config \<Rightarrow> fact list \<Rightarrow> time \<Rightarrow> cycle_delta list" where
  "promotions cfg facts now = concat (map (promotions_of_type cfg facts now) [Episodic, Semantic, Procedural])"

lemma promote_types_eq:
  "fold (promote_type cfg facts now) [Episodic, Semantic, Procedural] ([], {}) =
     (promotions cfg facts now, set (ids_of (promotions cfg facts now)))"
  by (simp add: promote_type_eq promotions_def Un_assoc)

lemma promotions_ids:
  assumes "distinct (map f_id facts)"
  shows "distinct (ids_of (promotions cfg facts now))" "set (ids_of (promotions cfg facts now)) \<subseteq> f_id ` set facts"
proof -
  note t = promotions_of_type_ids [OF assms, of cfg now]
  have disj: "set (ids_of (promotions_of_type cfg facts now ft)) \<inter>
      set (ids_of (promotions_of_type cfg facts now ft')) = {}" if "ft \<noteq> ft'" for ft ft'
    using t(2) [of ft] t(2) [of ft'] that assms by (fastforce simp: distinct_map inj_on_def)
  show "distinct (ids_of (promotions cfg facts now))"
    unfolding promotions_def ids_of_concat
    by (rule distinct_concat_map) (use t(1) disj in auto)
  show "set (ids_of (promotions cfg facts now)) \<subseteq> f_id ` set facts"
    unfolding promotions_def ids_of_concat using t(2) by fastforce
qed

lemma promotions_shape: "d \<in> set (promotions cfg facts now) \<Longrightarrow> \<exists>i p. d = Promote i p"
  by (auto simp: promotions_def promotions_of_type_def promotion_of_def Let_def
      split: if_splits option.splits)

lemma rescore_eq: "rescore oc pr f ds = ds @ rescore oc pr f []"
  by (simp add: rescore_def Let_def)

lemma rescores_eq: "fold (rescore oc pr) fs ds = ds @ concat (map (\<lambda>f. rescore oc pr f []) fs)"
proof (induction fs arbitrary: ds)
  case (Cons f fs)
  show ?case using Cons [of "rescore oc pr f ds"] rescore_eq [of oc pr f ds] by simp
qed simp

lemma clamped_sint: "sint (word_of_int (max (-2) (min 2 k)) :: 16 word) = max (-2) (min 2 k)"
proof -
  have "signed_take_bit 15 (max (-2) (min 2 k)) = max (-2) (min 2 k)"
    by (rule signed_take_bit_int_eq_self) auto
  then show ?thesis by (simp add: sint_sbintrunc')
qed

lemma rescore_shape:
  assumes "d \<in> set (rescore oc pr f [])"
  shows "f_id f \<notin> pr" "ids_of (rescore oc pr f []) = [f_id f]" "produced_delta E edim d"
    "(\<exists>r. d = Quarantine (f_id f) r) \<or> (\<exists>a. d = AdjustScore (f_id f) a)"
  using assms by (auto simp: rescore_def Let_def clamped_sint split: if_splits)

lemma rescores_ids:
  assumes "distinct (map f_id fs)"
  shows "distinct (ids_of (concat (map (\<lambda>f. rescore oc pr f []) fs)))"
    "set (ids_of (concat (map (\<lambda>f. rescore oc pr f []) fs))) \<subseteq> f_id ` set fs - pr"
proof -
  have "distinct (ids_of (concat (map (\<lambda>f. rescore oc pr f []) fs))) \<and>
      set (ids_of (concat (map (\<lambda>f. rescore oc pr f []) fs))) \<subseteq> f_id ` set fs - pr"
    using assms
  proof (induction fs)
    case (Cons f fs)
    have "ids_of (rescore oc pr f []) = [] \<or> (ids_of (rescore oc pr f []) = [f_id f] \<and> f_id f \<notin> pr)"
      using rescore_shape(1,2) [of _ oc pr f] by (cases "rescore oc pr f []") auto
    with Cons show ?case by auto
  qed simp
  then show "distinct (ids_of (concat (map (\<lambda>f. rescore oc pr f []) fs)))"
    "set (ids_of (concat (map (\<lambda>f. rescore oc pr f []) fs))) \<subseteq> f_id ` set fs - pr" by auto
qed

definition default_deltas :: "dream_config \<Rightarrow> fact list \<Rightarrow> (fact_id \<rightharpoonup> outcome_counts) \<Rightarrow> time \<Rightarrow> cycle_delta list" where
  "default_deltas cfg facts oc now =
     promotions cfg facts now @
     concat (map (\<lambda>f. rescore oc (set (ids_of (promotions cfg facts now))) f []) facts)"

lemma default_run_Inr:
  "default_run cfg ctx now = Inr report \<longleftrightarrow>
     (\<exists>facts oc. cx_list_undreamt ctx (cx_time_window ctx) = Inr facts \<and>
        cx_outcome_counts_batch ctx (filter (\<lambda>i. i \<notin> set (ids_of (promotions cfg facts now))) (map f_id facts)) = Inr oc \<and>
        report = \<lparr>rp_deltas = default_deltas cfg facts oc now, rp_identity = empty_identity,
          rp_metadata = \<lparr>cm_cycle_id = next_cycle_id (cx_prior_reports ctx), cm_ran_at = now,
            cm_time_window = cx_time_window ctx, cm_facts_selected = length facts,
            cm_method_version = dbscan_method, cm_processed_ids = map f_id facts\<rparr>\<rparr>)"
  unfolding default_run_def Let_def and_then_eq_Inr promote_types_eq
  by (auto simp: rescores_eq default_deltas_def and_then_eq_Inr)

lemma default_deltas_ok:
  assumes "distinct (map f_id facts)"
  shows "distinct (ids_of (default_deltas cfg facts oc now))"
    "set (ids_of (default_deltas cfg facts oc now)) \<subseteq> f_id ` set facts"
    "d \<in> set (default_deltas cfg facts oc now) \<Longrightarrow> produced_delta E edim d"
    "\<not> list_ex carries_embedding (default_deltas cfg facts oc now)"
    "d_identity D \<noteq> None \<Longrightarrow> d \<in> set (default_deltas cfg facts oc now) \<Longrightarrow> delta_ready D d"
proof -
  let ?pr = "set (ids_of (promotions cfg facts now))"
  note p = promotions_ids [OF assms, of cfg now] and r = rescores_ids [OF assms, of oc ?pr]
  show "distinct (ids_of (default_deltas cfg facts oc now))"
    "set (ids_of (default_deltas cfg facts oc now)) \<subseteq> f_id ` set facts"
    using p r by (auto simp: default_deltas_def)
  have cases: "(\<exists>i q. d = Promote i q) \<or> (\<exists>f. d \<in> set (rescore oc ?pr f []))"
    if "d \<in> set (default_deltas cfg facts oc now)" for d
    using that promotions_shape by (auto simp: default_deltas_def)
  show "d \<in> set (default_deltas cfg facts oc now) \<Longrightarrow> produced_delta E edim d"
    using cases rescore_shape(3) by fastforce
  have "\<not> carries_embedding d" if "d \<in> set (default_deltas cfg facts oc now)" for d
    using cases [OF that] rescore_shape(4) [of d oc ?pr] by (fastforce simp: carries_embedding_def)
  then show "\<not> list_ex carries_embedding (default_deltas cfg facts oc now)"
    by (auto simp: list_ex_iff)
  show "d_identity D \<noteq> None \<Longrightarrow> d \<in> set (default_deltas cfg facts oc now) \<Longrightarrow> delta_ready D d"
    using cases [of d] rescore_shape(4) [of d oc ?pr] by (fastforce simp: delta_ready_def)
qed

subsection \<open>The report of the cycle with a proposer\<close>

lemma clamp_sources_ok:
  "distinct (clamp_sources ok seen ids)" "set (clamp_sources ok seen ids) = {i \<in> set ids. ok i} - seen"
proof -
  have "distinct (clamp_sources ok seen ids) \<and> set (clamp_sources ok seen ids) = {i \<in> set ids. ok i} - seen"
    by (induction ids arbitrary: seen) auto
  then show "distinct (clamp_sources ok seen ids)"
    "set (clamp_sources ok seen ids) = {i \<in> set ids. ok i} - seen" by auto
qed

definition merge_of :: "fact list \<Rightarrow> time \<Rightarrow> cycle_delta \<Rightarrow> bool" where
  \<comment> \<open>a merge of facts of the window, all of one scope, into a fact of that scope\<close>
  "merge_of facts now d \<longleftrightarrow> (\<exists>sources sid summary emb.
     d = Synthesize sources (merge_fact facts now sources sid summary emb) \<and> sources \<noteq> [] \<and>
     distinct sources \<and> set sources \<subseteq> f_id ` set facts \<and>
     (\<forall>i \<in> set sources. f_scope_id (fact_at facts i) = sid))"

lemma propose_group_new:
  assumes "propose_group embedder facts now mgroup (ds, used) = Inr (ds', used')"
  shows "\<exists>new. ds' = ds @ new \<and> (\<forall>d \<in> set new. merge_of facts now d) \<and> distinct (ids_of new) \<and>
    set (ids_of new) \<inter> used = {} \<and> used' = used \<union> set (ids_of new)"
proof -
  let ?ss = "clamp_sources (\<lambda>i. by_id facts i \<noteq> None \<and> i \<notin> used) {} (mg_source_ids mgroup)"
  have ss: "distinct ?ss" "set ?ss \<subseteq> f_id ` set facts" "set ?ss \<inter> used = {}"
    using by_id_None [of facts] by (auto simp: clamp_sources_ok)
  show ?thesis
  proof (cases ?ss)
    case Nil
    with assms have "ds' = ds @ []" "used' = used" by (simp_all add: propose_group_def)
    then show ?thesis by (intro exI [of _ "[]"]) auto
  next
    case (Cons src srcs)
    let ?sid = "f_scope_id (fact_at facts src)"
    show ?thesis
    proof (cases "list_ex (\<lambda>i. f_scope_id (fact_at facts i) \<noteq> ?sid) (src # srcs)")
      case True
      with assms Cons have "ds' = ds" "used' = used" by (simp_all add: propose_group_def)
      then show ?thesis by (intro exI [of _ "[]"]) auto
    next
      case False
      with assms Cons obtain emb where
        new: "ds' = ds @ [Synthesize ?ss (merge_fact facts now ?ss ?sid (mg_summary mgroup) emb)]"
        and used': "used' = used \<union> set ?ss"
        by (auto simp: propose_group_def and_then_eq_Inr Let_def)
      have "\<forall>i \<in> set ?ss. f_scope_id (fact_at facts i) = ?sid"
        unfolding Cons using False by (simp add: list_ex_iff)
      moreover have "?ss \<noteq> []" using Cons by simp
      ultimately have "merge_of facts now (Synthesize ?ss (merge_fact facts now ?ss ?sid (mg_summary mgroup) emb))"
        unfolding merge_of_def using ss(1,2) by (intro exI conjI) (rule refl | assumption)+
      with new used' ss show ?thesis
        by (intro exI [of _ "[Synthesize ?ss (merge_fact facts now ?ss ?sid (mg_summary mgroup) emb)]"]) simp
    qed
  qed
qed

lemma propose_groups_new:
  assumes "propose_groups embedder facts now gs (ds, used) = Inr (ds', used')"
  shows "\<exists>new. ds' = ds @ new \<and> (\<forall>d \<in> set new. merge_of facts now d) \<and> distinct (ids_of new) \<and>
    set (ids_of new) \<inter> used = {} \<and> used' = used \<union> set (ids_of new)"
  using assms
proof (induction gs arbitrary: ds used)
  case (Cons g gs)
  from Cons.prems obtain ds1 used1 where
    1: "propose_group embedder facts now g (ds, used) = Inr (ds1, used1)"
    and 2: "propose_groups embedder facts now gs (ds1, used1) = Inr (ds', used')"
    by (auto simp: and_then_eq_Inr)
  from propose_group_new [OF 1] obtain new1 where n1: "ds1 = ds @ new1" "\<forall>d \<in> set new1. merge_of facts now d"
    "distinct (ids_of new1)" "set (ids_of new1) \<inter> used = {}" "used1 = used \<union> set (ids_of new1)" by blast
  from Cons.IH [OF 2] obtain new2 where n2: "ds' = ds1 @ new2" "\<forall>d \<in> set new2. merge_of facts now d"
    "distinct (ids_of new2)" "set (ids_of new2) \<inter> used1 = {}" "used' = used1 \<union> set (ids_of new2)" by blast
  from n1 n2 show ?case by (intro exI [of _ "new1 @ new2"]) auto
qed simp

lemma llm_run_Inr:
  assumes "llm_run propose embedder ctx now = Inr report"
  shows "\<exists>facts merges. cx_list_undreamt ctx (cx_time_window ctx) = Inr facts \<and>
    propose facts (cx_prior_wisdom ctx) = Inr merges \<and>
    (\<forall>d \<in> set (rp_deltas report). merge_of facts now d) \<and> distinct (ids_of (rp_deltas report)) \<and>
    cm_processed_ids (rp_metadata report) = map f_id facts \<and>
    cm_facts_selected (rp_metadata report) = length facts"
proof -
  from assms obtain facts merges ds used where
    "cx_list_undreamt ctx (cx_time_window ctx) = Inr facts"
    "propose facts (cx_prior_wisdom ctx) = Inr merges"
    and p: "propose_groups embedder facts now merges ([], {}) = Inr (ds, used)"
    and r: "report = \<lparr>rp_deltas = ds, rp_identity = empty_identity,
           rp_metadata = \<lparr>cm_cycle_id = next_cycle_id (cx_prior_reports ctx), cm_ran_at = now,
             cm_time_window = cx_time_window ctx, cm_facts_selected = length facts,
             cm_method_version = llm_method, cm_processed_ids = map f_id facts\<rparr>\<rparr>"
    by (auto simp: llm_run_def Let_def and_then_eq_Inr)
  moreover from propose_groups_new [OF p] r have
    "(\<forall>d \<in> set (rp_deltas report). merge_of facts now d) \<and> distinct (ids_of (rp_deltas report))" by auto
  ultimately show ?thesis by auto
qed

text \<open>The merged fact: what the store asks of it.\<close>

lemma merge_fact_simps [simp]:
  "nf_embedding (merge_fact facts now ss sid summary emb) = emb"
  "nf_content (merge_fact facts now ss sid summary emb) = summary"
  "nf_scope_id (merge_fact facts now ss sid summary emb) = sid"
  "nf_t_expired (merge_fact facts now ss sid summary emb) = None"
  "nf_source_event_id (merge_fact facts now ss sid summary emb) = None"
  "nf_metadata (merge_fact facts now ss sid summary emb) = JObj []"
  "nf_base_importance (merge_fact facts now ss sid summary emb) =
     fold (\<lambda>i m. fl_max m (f_base_importance (fact_at facts i))) ss (Fin 0)"
  by (simp_all add: merge_fact_def builder_build_def builder_new_def Let_def)

lemma fold_max_unit:
  "unit_float m \<Longrightarrow> \<forall>i \<in> set ss. unit_float (f_base_importance (fact_at facts i)) \<Longrightarrow>
    unit_float (fold (\<lambda>i m. fl_max m (f_base_importance (fact_at facts i))) ss m)"
proof (induction ss arbitrary: m)
  case (Cons i ss)
  then have "unit_float (fl_max m (f_base_importance (fact_at facts i)))"
    by (auto simp: unit_float_iff max_def)
  with Cons show ?case by simp
qed simp

subsection \<open>Both reports are applied\<close>

lemma window_rows:
  assumes inv: "log_inv edim L"
    and w: "list_undreamt_in_period edim (lg_db L) start end_time [] None = Inr facts"
  shows "distinct (map f_id facts)" "f_id ` set facts \<subseteq> fact_ids_of (lg_db L)"
    "i \<in> f_id ` set facts \<Longrightarrow> is_active (lg_db L) i"
    "f \<in> set facts \<Longrightarrow> f \<in> set (d_facts (lg_db L)) \<and> fact_row_ok edim (lg_db L) f"
proof -
  have db: "db_inv edim (lg_db L)" using inv by (simp add: log_inv_def)
  note u = undreamt_facts_Inr [OF db w]
  show "distinct (map f_id facts)" by (rule u)
  show "f_id ` set facts \<subseteq> fact_ids_of (lg_db L)"
    "i \<in> f_id ` set facts \<Longrightarrow> is_active (lg_db L) i"
    using u(1) by (auto simp: fact_ids_of_def is_active_def in_window_def)
  show "f \<in> set facts \<Longrightarrow> f \<in> set (d_facts (lg_db L)) \<and> fact_row_ok edim (lg_db L) f"
    using u(1) db_invD(4) [OF db] by auto
qed

text \<open>A fact that carries the mark of a cycle is in no later window.\<close>

lemma marked_not_listed:
  assumes "db_inv edim D" "dream_marked D i"
    and "list_undreamt_in_period edim D start end_time [] None = Inr facts"
  shows "i \<notin> f_id ` set facts"
proof
  assume "i \<in> f_id ` set facts"
  then obtain f where f: "f \<in> set (d_facts D)" "f_id f = i" "json_get ''dream_cycle'' (f_metadata f) = None"
    using undreamt_facts_Inr(1) [OF assms(1,3)] by (auto simp: in_window_def)
  from assms(2) obtain g where g: "g \<in> set (d_facts D)" "f_id g = i"
    "json_get ''dream_cycle'' (f_metadata g) \<noteq> None" by (auto simp: dream_marked_def)
  from f g db_inv_distinct [OF assms(1)] have "f = g" by (auto simp: distinct_map inj_on_def)
  with f g show False by simp
qed

definition consumed_window :: "nat \<Rightarrow> log_store \<Rightarrow> fact_id list \<Rightarrow> bool" where
  \<comment> \<open>no window lists one of the facts\<close>
  "consumed_window edim L ids \<longleftrightarrow> (\<forall>start end_time facts.
     list_undreamt_in_period edim (lg_db L) start end_time [] None = Inr facts \<longrightarrow>
       set ids \<inter> f_id ` set facts = {})"

lemma applied_consumes:
  assumes inv: "log_inv edim L" and hist: "read_history E L = Inr h"
    and codec: "ce_read_history E (ce_write_history E (append_history (rp_metadata report) h)) =
      Inr (append_history (rp_metadata report) h)"
    and r: "apply_cycle_deltas_atomic E edim report now L = (Inr (res, edges, expired), L')"
  shows "consumed_window edim L' (cm_processed_ids (rp_metadata report))"
proof -
  have db: "db_inv edim (lg_db L')"
    using keepsD [OF cycle_keeps_log_inv inv r] by (simp add: log_inv_def)
  have "dream_marked (lg_db L') i" if "i \<in> set (cm_processed_ids (rp_metadata report))" for i
    using cycle_bookkeeping [OF _ r] hist codec that by auto
  with marked_not_listed [OF db] show ?thesis unfolding consumed_window_def by blast
qed

lemma default_report_applies:
  assumes inv: "log_inv edim L" and ident: "d_identity (lg_db L) \<noteq> None"
    and hist: "read_history E L = Inr h"
    and run: "default_run cfg (engine_dream_ctx edim L wisdom prior window) now = Inr report"
  shows "\<exists>x L'. apply_cycle_deltas_atomic E edim report later L = (Inr x, L') \<and>
    (\<forall>i \<in> fact_ids_of (lg_db L). is_active (lg_db L') i \<longleftrightarrow>
       is_active (lg_db L) i \<and> (\<forall>d \<in> set (rp_deltas report). i \<notin> delta_expires d))"
proof -
  from run obtain facts oc where
    w: "list_undreamt_in_period edim (lg_db L) (tw_start window) (tw_end window) [] None = Inr facts"
    and ds: "rp_deltas report = default_deltas cfg facts oc now"
    and ids: "cm_processed_ids (rp_metadata report) = map f_id facts"
    by (auto simp: default_run_Inr engine_dream_ctx_def)
  note rows = window_rows [OF inv w]
  note ok = default_deltas_ok [OF rows(1), where cfg = cfg and oc = oc and now = now]
  show ?thesis
  proof (rule produced_report_applies [OF inv _ _ _ _ _ hist])
    show "\<forall>d \<in> set (rp_deltas report). produced_delta E edim d \<and> delta_ready (lg_db L) d"
      using ok(3) ok(5) [OF ident] by (auto simp: ds)
    show "distinct (concat (map delta_ids (rp_deltas report)))"
      using ok(1) by (simp add: ds ids_of_def)
    show "\<forall>i \<in> set (concat (map delta_ids (rp_deltas report))). is_active (lg_db L) i"
      using ok(2) rows(3) by (auto simp: ds ids_of_def)
    show "set (cm_processed_ids (rp_metadata report)) \<subseteq> fact_ids_of (lg_db L)"
      using rows(2) by (simp add: ids)
  qed (use ident in simp)
qed

lemma llm_report_applies:
  assumes inv: "log_inv edim L" and imp: "importances_ok (lg_db L)" and ident: "d_identity (lg_db L) \<noteq> None"
    and hist: "read_history E L = Inr h"
    and run: "llm_run propose embedder (engine_dream_ctx edim L wisdom prior window) now = Inr report"
    and small: "\<forall>d \<in> set (rp_deltas report). \<forall>nf. delta_fact d = Some nf \<longrightarrow>
      length (nf_embedding nf) = edim \<and> check_new_fact (ce_chunks E) nf = Inr ()"
  shows "\<exists>x L'. apply_cycle_deltas_atomic E edim report later L = (Inr x, L') \<and>
    (\<forall>i \<in> fact_ids_of (lg_db L). is_active (lg_db L') i \<longleftrightarrow>
       is_active (lg_db L) i \<and> (\<forall>d \<in> set (rp_deltas report). i \<notin> delta_expires d))"
proof -
  from llm_run_Inr [OF run] obtain facts where
    w: "list_undreamt_in_period edim (lg_db L) (tw_start window) (tw_end window) [] None = Inr facts"
    and ds: "\<And>d. d \<in> set (rp_deltas report) \<Longrightarrow> merge_of facts now d" "distinct (ids_of (rp_deltas report))"
    and ids: "cm_processed_ids (rp_metadata report) = map f_id facts"
    by (auto simp: engine_dream_ctx_def)
  note rows = window_rows [OF inv w]
  have good: "produced_delta E edim d \<and> delta_ready (lg_db L) d \<and> set (delta_ids d) \<subseteq> f_id ` set facts"
    if d: "d \<in> set (rp_deltas report)" for d
  proof -
    from ds(1) [OF d] obtain ss sid summary emb where
      dd: "d = Synthesize ss (merge_fact facts now ss sid summary emb)" and ss: "ss \<noteq> []"
      "set ss \<subseteq> f_id ` set facts" "\<forall>i \<in> set ss. f_scope_id (fact_at facts i) = sid"
      by (auto simp: merge_of_def)
    let ?nf = "merge_fact facts now ss sid summary emb"
    have at: "fact_at facts i \<in> set (d_facts (lg_db L)) \<and> fact_row_ok edim (lg_db L) (fact_at facts i)"
      if "i \<in> set ss" for i
      using fact_at_in [OF rows(1)] ss(2) that rows(4) by blast
    have "unit_float (nf_base_importance ?nf)"
      unfolding merge_fact_simps
      by (rule fold_max_unit) (use at imp in \<open>auto simp: importances_ok_def unit_float_iff\<close>)
    then have "validate_new_fact E edim ?nf = Inr ()" "nf_base_importance ?nf \<noteq> NaN"
      using small d unit_not_NaN by (auto simp: dd validate_new_fact_ok)
    moreover from ss obtain i where "i \<in> set ss" "f_scope_id (fact_at facts i) = sid" by (cases ss) auto
    then have "sid \<in> scope_ids_of (lg_db L)" using at by (auto simp: fact_row_ok_def)
    ultimately show ?thesis
      using ss(1,2) by (simp add: dd delta_ready_def fact_constraint_def)
  qed
  show ?thesis
  proof (rule produced_report_applies [OF inv _ _ _ _ _ hist])
    show "\<forall>d \<in> set (rp_deltas report). produced_delta E edim d \<and> delta_ready (lg_db L) d"
      using good by blast
    show "distinct (concat (map delta_ids (rp_deltas report)))"
      using ds(2) by (simp add: ids_of_def)
    show "\<forall>i \<in> set (concat (map delta_ids (rp_deltas report))). is_active (lg_db L) i"
    proof
      fix i assume "i \<in> set (concat (map delta_ids (rp_deltas report)))"
      then obtain d where "d \<in> set (rp_deltas report)" "i \<in> set (delta_ids d)" by auto
      with good rows(3) show "is_active (lg_db L) i" by blast
    qed
    show "set (cm_processed_ids (rp_metadata report)) \<subseteq> fact_ids_of (lg_db L)"
      using rows(2) by (simp add: ids)
  qed (use ident in simp)
qed

subsection \<open>The guard on caller writes\<close>

lemma digit_of_char: "k < 10 \<Longrightarrow> digit_of (char_of (48 + k :: nat)) = Some (int k)"
  by (simp add: digit_of_def Let_def take_bit_eq_mod)

lemma parse_digits_append:
  "parse_digits sg (xs @ ys) r = (case parse_digits sg xs r of Inl e \<Rightarrow> Inl e | Inr v \<Rightarrow> parse_digits sg ys v)"
  by (induction xs arbitrary: r) (auto split: option.split)

lemma in_i64_div: "sg = 1 \<or> sg = - 1 \<Longrightarrow> in_i64 (sg * int n) \<Longrightarrow> in_i64 (sg * int (n div 10))
    \<and> in_i64 (sg * int (n div 10) * 10)"
  unfolding in_i64_def by (auto simp: zdiv_int)

lemma parse_show_digits:
  assumes "sg = 1 \<or> sg = - 1" "in_i64 (sg * int n)"
  shows "parse_digits sg (show_nat n) 0 = Inr (sg * int n)"
  using assms(2)
proof (induction n rule: show_nat.induct)
  case (1 n)
  show ?case
  proof (cases "n < 10")
    case True
    with 1(2) show ?thesis by (simp add: show_nat.simps [of n] digit_of_char in_i64_def)
  next
    case False
    note b = in_i64_div [OF assms(1) 1(2)]
    have "int n = int (n div 10) * 10 + int (n mod 10)"
      by (metis div_mult_mod_eq of_nat_add of_nat_mult of_nat_numeral)
    then have "sg * int (n div 10) * 10 + sg * int (n mod 10) = sg * int n"
      using assms(1) by auto
    then show ?thesis
      using False 1 b by (simp add: show_nat.simps [of n] parse_digits_append digit_of_char)
  qed
qed

lemma show_nat_first: "\<exists>k<(10::nat). \<exists>cs. show_nat n = char_of (48 + k) # cs"
proof (induction n rule: show_nat.induct)
  case (1 n)
  show ?case by (cases "n < 10") (use 1 in \<open>auto simp: show_nat.simps [of n]\<close>)
qed

lemma parse_show_int:
  assumes "in_i64 i"
  shows "parse_i64 (show_int i) = Inr i"
proof (cases "i < 0")
  case True
  obtain k :: nat and cs where k: "show_nat (nat (- i)) = char_of (48 + k) # cs" using show_nat_first by blast
  have "parse_digits (-1) (show_nat (nat (- i))) 0 = Inr i"
    using parse_show_digits [of "-1" "nat (- i)"] assms True by simp
  then show ?thesis using True k by (simp add: show_int_def parse_i64_def)
next
  case False
  obtain k :: nat and cs where k: "k < 10" "show_nat (nat i) = char_of (48 + k) # cs" using show_nat_first by blast
  have "parse_digits 1 (show_nat (nat i)) 0 = Inr i"
    using parse_show_digits [of 1 "nat i"] assms False by simp
  moreover have "char_of (48 + k) \<noteq> CHR ''+''" "char_of (48 + k) \<noteq> CHR ''-''"
    using k(1) by (auto simp: take_bit_eq_mod dest!: arg_cong [where f = "of_char :: char \<Rightarrow> nat"])
  ultimately show ?thesis using False k(2) by (simp add: show_int_def parse_i64_def)
qed

lemma llm_sources:
  assumes inv: "log_inv edim L"
    and run: "llm_run propose embedder (engine_dream_ctx edim L wisdom prior window) now = Inr report"
  shows "distinct (concat (map delta_ids (rp_deltas report)))"
    and "\<forall>d \<in> set (rp_deltas report). \<exists>sources nf. d = Synthesize sources nf \<and>
       set sources \<subseteq> set (cm_processed_ids (rp_metadata report)) \<and>
       (\<forall>i \<in> set sources. \<exists>f \<in> set (d_facts (lg_db L)). f_id f = i \<and> f_scope_id f = nf_scope_id nf)"
proof -
  from llm_run_Inr [OF run] obtain facts where
    w: "list_undreamt_in_period edim (lg_db L) (tw_start window) (tw_end window) [] None = Inr facts"
    and ds: "\<And>d. d \<in> set (rp_deltas report) \<Longrightarrow> merge_of facts now d" "distinct (ids_of (rp_deltas report))"
    and ids: "cm_processed_ids (rp_metadata report) = map f_id facts"
    by (auto simp: engine_dream_ctx_def)
  note rows = window_rows [OF inv w]
  show "distinct (concat (map delta_ids (rp_deltas report)))" using ds(2) by (simp add: ids_of_def)
  have "\<exists>f \<in> set (d_facts (lg_db L)). f_id f = i \<and> f_scope_id f = sid"
    if "i \<in> f_id ` set facts" "f_scope_id (fact_at facts i) = sid" for i sid
    using fact_at_in [OF rows(1) that(1)] rows(4) that(2) by blast
  note row = this
  show "\<forall>d \<in> set (rp_deltas report). \<exists>sources nf. d = Synthesize sources nf \<and>
       set sources \<subseteq> set (cm_processed_ids (rp_metadata report)) \<and>
       (\<forall>i \<in> set sources. \<exists>f \<in> set (d_facts (lg_db L)). f_id f = i \<and> f_scope_id f = nf_scope_id nf)"
  proof
    fix d assume "d \<in> set (rp_deltas report)"
    from ds(1) [OF this] obtain ss sid summary emb where
      d: "d = Synthesize ss (merge_fact facts now ss sid summary emb)" and ss: "set ss \<subseteq> f_id ` set facts"
      "\<forall>i \<in> set ss. f_scope_id (fact_at facts i) = sid" unfolding merge_of_def by blast
    have "\<forall>i \<in> set ss. \<exists>f \<in> set (d_facts (lg_db L)). f_id f = i \<and> f_scope_id f = sid"
      using row ss by blast
    with d ss(1) show "\<exists>sources nf. d = Synthesize sources nf \<and>
       set sources \<subseteq> set (cm_processed_ids (rp_metadata report)) \<and>
       (\<forall>i \<in> set sources. \<exists>f \<in> set (d_facts (lg_db L)). f_id f = i \<and> f_scope_id f = nf_scope_id nf)"
      by (intro exI [of _ ss] exI [of _ "merge_fact facts now ss sid summary emb"]) (simp add: ids)
  qed
qed

text \<open>One decision of the guard.\<close>

lemma guarded_step:
  assumes "ensure_open ctx = Inr ()" "ensure_writable ctx = Inr ()"
    and "parse_caller_write_cursor (get_config L caller_write_cursor) = Inr cur"
  shows "guard_decision L cur = Some (CallerWroteFacts since m) \<Longrightarrow>
      run_dream_cycle_guarded E read_time ctx cycle now L =
        (Inr (CycleSkipped (CallerWroteFacts since m)),
         L\<lparr>lg_config := AList.update caller_write_cursor (show_int m) (lg_config L)\<rparr>)"
    and "guard_decision L cur = None \<Longrightarrow>
      run_dream_cycle_guarded E read_time ctx cycle now L = (res, L') \<Longrightarrow>
      L' = L \<and> (\<forall>reason. res \<noteq> Inr (CycleSkipped reason)) \<and>
      (\<forall>report. res = Inr (CycleRan report) \<longrightarrow>
         cm_facts_selected (rp_metadata report) = 0 \<or> cm_processed_ids (rp_metadata report) \<noteq> [])"
proof -
  show "run_dream_cycle_guarded E read_time ctx cycle now L =
        (Inr (CycleSkipped (CallerWroteFacts since m)),
         L\<lparr>lg_config := AList.update caller_write_cursor (show_int m) (lg_config L)\<rparr>)"
    if "guard_decision L cur = Some (CallerWroteFacts since m)"
    using assms that by (simp add: run_dream_cycle_guarded_def op_bind_def set_config_def)
  have same: "run_dream_cycle E read_time ctx cycle now L = (r, L2) \<Longrightarrow> L2 = L" for r L2
    by (auto simp: run_dream_cycle_def op_bind_def split: prod.splits sum.splits)
  show "L' = L \<and> (\<forall>reason. res \<noteq> Inr (CycleSkipped reason)) \<and>
      (\<forall>report. res = Inr (CycleRan report) \<longrightarrow>
         cm_facts_selected (rp_metadata report) = 0 \<or> cm_processed_ids (rp_metadata report) \<noteq> [])"
    if "guard_decision L cur = None" "run_dream_cycle_guarded E read_time ctx cycle now L = (res, L')"
  proof -
    obtain r L2 where r: "run_dream_cycle E read_time ctx cycle now L = (r, L2)" by fastforce
    from same [OF r] that assms r show ?thesis
      by (cases r) (auto simp: run_dream_cycle_guarded_def op_bind_def split: if_splits)
  qed
qed

lemma guard_after_skip:
  assumes "guard_decision L cur = Some (CallerWroteFacts since m)" "in_i64 m"
  defines "L' \<equiv> L\<lparr>lg_config := AList.update caller_write_cursor (show_int m) (lg_config L)\<rparr>"
  shows "parse_caller_write_cursor (get_config L' caller_write_cursor) = Inr m" "guard_decision L' m = None"
  using assms(1) parse_show_int [OF assms(2)]
  by (auto simp: L'_def get_config_def update_conv' parse_caller_write_cursor_def guard_decision_def
      split: option.splits if_splits)

lemma fold_max_in: "fold max xs (x :: int) \<in> insert x (set xs)"
proof (induction xs arbitrary: x)
  case (Cons y xs)
  from Cons [of "max y x"] show ?case by (cases "y \<le> x") (auto simp: max_def)
qed simp

lemma caller_written_in:
  assumes "max_caller_written_fact_id D = Some m"
  shows "\<exists>f \<in> set (d_facts D). f_id f = m"
proof -
  let ?ids = "map f_id (filter (\<lambda>f. is_active_row f \<and> \<not> f_is_pinned f \<and>
    json_get ''dream_cycle'' (f_metadata f) = None) (d_facts D))"
  from assms obtain i ids where "?ids = i # ids" "m = fold max ids i"
    by (auto simp: max_caller_written_fact_id_def split: list.splits)
  with fold_max_in [of ids i] have "m \<in> set ?ids" by simp
  then show ?thesis by auto
qed

end
