(* ===== verification/Dream_Properties.thy ===== *)
theory Dream_Properties
  imports Dream_Reports Cycle_Properties
begin

text \<open>
  The properties of the dream cycles: the clustering, the reports of both cycles, the guard on caller
  writes and the outcome counts, with the concrete states their witnesses use.
\<close>

subsection \<open>Clustering\<close>

text \<open>C15: on at most ten thousand points with distinct ids, \<open>dbscan\<close> ends and returns the density
  clustering: the clusters are disjoint, in the order of the input; a point is in one exactly when it is a core
  point or a neighbour of one; two core points share a cluster exactly when a chain of neighbouring
  core points connects them; every cluster has a core point, and each other member has a core
  neighbour in it.\<close>

theorem dbscan_is_density_clustering:
  fixes points :: "(fact_id \<times> fl list) list"
  assumes "0 < m" and "length points \<le> max_dbscan_points" and "distinct (map fst points)"
    and "nbs = neighbours points (fl_sub (Fin 1) eps)" and "pid = (\<lambda>i. fst (points ! i))"
    and "n = length points"
  shows "distinct (concat (dbscan points eps m)) \<and>
    (\<forall>K \<in> set (dbscan points eps m). \<exists>P. K = map pid (filter P [0..<n])) \<and>
    (\<forall>i<n. pid i \<in> set (concat (dbscan points eps m)) \<longleftrightarrow>
       core nbs m i \<or> (\<exists>j<n. core nbs m j \<and> i \<in> set (nbs j))) \<and>
    (\<forall>i<n. \<forall>j<n. core nbs m i \<and> core nbs m j \<longrightarrow>
       ((\<exists>K \<in> set (dbscan points eps m). pid i \<in> set K \<and> pid j \<in> set K) \<longleftrightarrow> (core_step nbs m)\<^sup>*\<^sup>* i j)) \<and>
    (\<forall>K \<in> set (dbscan points eps m). (\<exists>i<n. core nbs m i \<and> pid i \<in> set K) \<and>
       (\<forall>i<n. pid i \<in> set K \<and> \<not> core nbs m i \<longrightarrow>
          (\<exists>j<n. core nbs m j \<and> i \<in> set (nbs j) \<and> pid j \<in> set K)))"
  unfolding assms(4-6)
  using dbscan_clusters [OF assms(1-3), where eps = eps] dbscan_members(1) [OF assms(3)] by blast

theorem dbscan_is_density_clustering_witness:
  "\<exists>K \<in> set (dbscan [(1, [Fin 1]), (2, [Fin 1]), (3, [Fin 1])] dbscan_eps 3). 1 \<in> set K \<and> 3 \<in> set K"
proof -
  let ?pts = "[(1, [Fin 1]), (2, [Fin 1]), (3, [Fin 1])] :: (fact_id \<times> fl list) list"
  let ?nbs = "neighbours ?pts (fl_sub (Fin 1) dbscan_eps)"
  have sim: "cosine_similarity [Fin 1] [Fin 1] = Fin 1"
    by (simp add: cosine_similarity_def cosine_step_def fl_mul_add_def Let_def)
  have n: "?nbs 0 = [1, 2]" "?nbs 2 = [0, 1]"
    by (simp_all add: neighbours_def sim upt_rec fl_sub_def dbscan_eps_def)
  then have c: "core ?nbs 3 0 \<and> core ?nbs 3 2" and step: "core_step ?nbs 3 0 2"
    by (simp_all add: core_def core_step_def)
  have all: "\<forall>i<3. \<forall>j<3. core ?nbs 3 i \<and> core ?nbs 3 j \<longrightarrow>
      ((\<exists>K \<in> set (dbscan ?pts dbscan_eps 3). fst (?pts ! i) \<in> set K \<and> fst (?pts ! j) \<in> set K) \<longleftrightarrow>
        (core_step ?nbs 3)\<^sup>*\<^sup>* i j)"
    using dbscan_is_density_clustering [of 3 ?pts ?nbs dbscan_eps "\<lambda>i. fst (?pts ! i)" 3]
    by (simp add: max_dbscan_points_def)
  from all [rule_format, OF _ _ c] step show ?thesis by auto
qed

subsection \<open>The cycles\<close>

lemma run_dream_cycle_Inr:
  assumes "run_dream_cycle E read_time ctx cycle now L = (Inr report, L')"
  shows "L' = L \<and> (\<exists>wisdom prior start. read_history E L = Inr prior \<and>
    cycle (engine_dream_ctx (ctx_embed_dim ctx) L wisdom prior \<lparr>tw_start = start, tw_end = now\<rparr>) now = Inr report)"
  using assms by (auto simp: run_dream_cycle_def build_cycle_context_def op_bind_Inr and_then_eq_Inr)

text \<open>C13: the report of the default cycle is always applied: run on a sound store with an embedding
  identity, the cycle changes nothing, and applying its report succeeds, expires exactly the facts it
  quarantines and leaves no processed fact in any later window.\<close>

theorem default_cycle_applies:
  assumes "log_inv (ctx_embed_dim ctx) L" and "d_identity (lg_db L) \<noteq> None"
    and "run_dream_cycle E read_time ctx (default_run cfg) now L = (Inr report, L1)"
    and "\<forall>h. read_history E L = Inr h \<longrightarrow>
      ce_read_history E (ce_write_history E (append_history (rp_metadata report) h)) =
        Inr (append_history (rp_metadata report) h)"
  shows "L1 = L \<and> (\<exists>x L'. apply_cycle_deltas_atomic E (ctx_embed_dim ctx) report later L = (Inr x, L') \<and>
    (\<forall>i \<in> fact_ids_of (lg_db L). is_active (lg_db L') i \<longleftrightarrow>
       is_active (lg_db L) i \<and> (\<forall>d \<in> set (rp_deltas report). i \<notin> delta_expires d)) \<and>
    consumed_window (ctx_embed_dim ctx) L' (cm_processed_ids (rp_metadata report)))"
proof -
  from run_dream_cycle_Inr [OF assms(3)] obtain wisdom prior start where
    L1: "L1 = L" and h: "read_history E L = Inr prior" and
    run: "default_run cfg (engine_dream_ctx (ctx_embed_dim ctx) L wisdom prior \<lparr>tw_start = start, tw_end = now\<rparr>) now
      = Inr report" by blast
  from default_report_applies [OF assms(1,2) h run, where later = later] obtain x L' where
    a: "apply_cycle_deltas_atomic E (ctx_embed_dim ctx) report later L = (Inr x, L')"
    "\<forall>i \<in> fact_ids_of (lg_db L). is_active (lg_db L') i \<longleftrightarrow>
       is_active (lg_db L) i \<and> (\<forall>d \<in> set (rp_deltas report). i \<notin> delta_expires d)" by blast
  from assms(4) h have "ce_read_history E (ce_write_history E (append_history (rp_metadata report) prior)) =
      Inr (append_history (rp_metadata report) prior)" by blast
  from applied_consumes [OF assms(1) h this] a L1 show ?thesis by (cases x) blast
qed

definition ex_stamped :: log_store where
  "ex_stamped = ex_log\<lparr>lg_db := ex_db\<lparr>d_identity := Some (em_fingerprint ex_embedder)\<rparr>\<rparr>"

lemma ex_stamped_inv: "log_inv 1 ex_stamped"
proof -
  have "db_inv 1 (ex_db\<lparr>d_identity := x\<rparr>)" for x
    using ex_db_inv by (auto simp: db_inv_def list_all_iff fact_row_ok_def edge_row_ok_def
        scope_ids_of_def fact_ids_of_def)
  then show ?thesis by (simp add: ex_stamped_def log_inv_def ex_log_def ex_db_def)
qed

lemma ex_stamped_undreamt:
  "list_undreamt_in_period (Suc 0) (lg_db ex_stamped) s e [] None = Inr [ex_fact 1 ''a'', ex_fact 2 ''b'']"
  by (simp add: list_undreamt_in_period_def list_active_in_period_inner_def ex_stamped_def ex_log_def
      ex_db_def ex_fact_def is_active_row_def in_scopes_def json_get_def sort_by_def importance_then_id_def
      desc_by_def select_facts_def row_to_fact_def)

lemma ex_stamped_run:
  assumes "cycle (engine_dream_ctx 1 ex_stamped [] [] \<lparr>tw_start = 0, tw_end = 9\<rparr>) 9 = Inr report"
  shows "run_dream_cycle E rt ex_ctx cycle 9 ex_stamped = (Inr report, ex_stamped)"
  using assms
  by (simp add: run_dream_cycle_def build_cycle_context_def op_bind_def ex_ctx_def ensure_open_def
      ensure_writable_def list_pinned_def select_facts_def sort_by_def sql_limit_def read_history_def get_config_def
      ex_stamped_def ex_log_def ex_db_def ex_fact_def)

lemma ex_no_outcomes: "get_outcome_counts_batch ex_stamped ids = Inr Map.empty"
  by (simp add: get_outcome_counts_batch_def count_outcome_signals_batch_def ex_stamped_def ex_log_def
      Let_def list_all_iff)

lemma ex_default_run:
  "\<exists>report. default_run default_dream_config
      (engine_dream_ctx 1 ex_stamped [] [] \<lparr>tw_start = 0, tw_end = 9\<rparr>) 9 = Inr report \<and>
    cm_processed_ids (rp_metadata report) = [1, 2]"
  unfolding default_run_Inr
  by (simp add: engine_dream_ctx_def ex_stamped_undreamt ex_no_outcomes) (simp add: ex_fact_def)

theorem default_cycle_applies_witness:
  "\<exists>E report x L'. run_dream_cycle E Inl ex_ctx (default_run default_dream_config) 9 ex_stamped =
      (Inr report, ex_stamped) \<and> cm_processed_ids (rp_metadata report) = [1, 2] \<and>
    apply_cycle_deltas_atomic E 1 report 10 ex_stamped = (Inr x, L') \<and> consumed_window 1 L' [1, 2]"
proof -
  let ?cx = "engine_dream_ctx 1 ex_stamped [] [] \<lparr>tw_start = 0, tw_end = 9\<rparr>"
  obtain report where r: "default_run default_dream_config ?cx 9 = Inr report"
    and ids: "cm_processed_ids (rp_metadata report) = [1, 2]"
    using ex_default_run by blast
  let ?E = "ex_env\<lparr>ce_read_history := (\<lambda>_. Inr [rp_metadata report])\<rparr>"
  have run: "run_dream_cycle ?E Inl ex_ctx (default_run default_dream_config) 9 ex_stamped = (Inr report, ex_stamped)"
    by (rule ex_stamped_run [where cycle = "default_run default_dream_config", OF r])
  have codec: "\<forall>h. read_history ?E ex_stamped = Inr h \<longrightarrow>
      ce_read_history ?E (ce_write_history ?E (append_history (rp_metadata report) h)) =
        Inr (append_history (rp_metadata report) h)"
    by (simp add: read_history_def get_config_def ex_stamped_def ex_log_def append_history_def
        dream_cycle_history_max_def)
  have "log_inv (ctx_embed_dim ex_ctx) ex_stamped" "d_identity (lg_db ex_stamped) \<noteq> None"
    using ex_stamped_inv by (simp_all add: ex_ctx_def ex_stamped_def)
  from default_cycle_applies [OF this run codec, of 10] obtain x L' where
    "apply_cycle_deltas_atomic ?E (ctx_embed_dim ex_ctx) report 10 ex_stamped = (Inr x, L')"
    "consumed_window (ctx_embed_dim ex_ctx) L' (cm_processed_ids (rp_metadata report))" by blast
  moreover have "ctx_embed_dim ex_ctx = 1" by (simp add: ex_ctx_def)
  ultimately show ?thesis using run ids by metis
qed






subsection \<open>The guard\<close>

text \<open>The guarded run stands down exactly when a caller wrote a fact above the cursor; then it only
  moves the cursor to that fact, and the next guarded run, without writes in between, is not deferred
  again. Otherwise it changes nothing, and a report it hands over that selected facts also lists
  processed ones.\<close>

theorem guarded_cycle_defers_once:
  assumes "ensure_open ctx = Inr ()" and "ensure_writable ctx = Inr ()"
    and "parse_caller_write_cursor (get_config L caller_write_cursor) = Inr cur"
    and "\<forall>f \<in> set (d_facts (lg_db L)). in_i64 (f_id f)"
    and "run_dream_cycle_guarded E read_time ctx cycle now L = (res, L')"
  shows "(\<forall>m. max_caller_written_fact_id (lg_db L) = Some m \<and> cur < m \<longrightarrow>
      res = Inr (CycleSkipped (CallerWroteFacts cur m)) \<and> lg_db L' = lg_db L \<and>
      (\<forall>k. k \<noteq> caller_write_cursor \<longrightarrow> get_config L' k = get_config L k) \<and>
      (\<forall>cycle2 now2 reason. fst (run_dream_cycle_guarded E read_time ctx cycle2 now2 L') \<noteq> Inr (CycleSkipped reason))) \<and>
    ((\<forall>m. max_caller_written_fact_id (lg_db L) = Some m \<longrightarrow> m \<le> cur) \<longrightarrow>
      L' = L \<and> (\<forall>reason. res \<noteq> Inr (CycleSkipped reason)) \<and>
      (\<forall>report. res = Inr (CycleRan report) \<longrightarrow>
         cm_facts_selected (rp_metadata report) = 0 \<or> cm_processed_ids (rp_metadata report) \<noteq> []))"
proof (intro conjI allI impI, goal_cases)
  case (1 m)
  then have "guard_decision L cur = Some (CallerWroteFacts cur m)" by (simp add: guard_decision_def)
  from guarded_step(1) [OF assms(1-3) this] assms(5) show ?case by simp
next
  case (2 m)
  then have "guard_decision L cur = Some (CallerWroteFacts cur m)" by (simp add: guard_decision_def)
  from guarded_step(1) [OF assms(1-3) this] assms(5) show ?case by auto
next
  case (3 m k)
  then have "guard_decision L cur = Some (CallerWroteFacts cur m)" by (simp add: guard_decision_def)
  from guarded_step(1) [OF assms(1-3) this] assms(5) 3(2) show ?case
    by (auto simp: get_config_def update_conv')
next
  case (4 m cycle2 now2 reason)
  then have d: "guard_decision L cur = Some (CallerWroteFacts cur m)" by (simp add: guard_decision_def)
  have L': "L' = L\<lparr>lg_config := AList.update caller_write_cursor (show_int m) (lg_config L)\<rparr>"
    using guarded_step(1) [OF assms(1-3) d] assms(5) by simp
  have "in_i64 m" using 4 caller_written_in assms(4) by blast
  note next_run = guard_after_skip [OF d this, folded L']
  show ?case using guarded_step(2) [OF assms(1,2) next_run] by (metis prod.collapse)
next
  case 5
  then have "guard_decision L cur = None" by (auto simp: guard_decision_def split: option.split)
  from guarded_step(2) [OF assms(1-3) this assms(5)] show ?case by blast
next
  case (6 reason)
  then have "guard_decision L cur = None" by (auto simp: guard_decision_def split: option.split)
  from guarded_step(2) [OF assms(1-3) this assms(5)] show ?case by blast
next
  case (7 report)
  then have "guard_decision L cur = None" by (auto simp: guard_decision_def split: option.split)
  from guarded_step(2) [OF assms(1-3) this assms(5)] 7 show ?case by blast
qed

theorem guarded_cycle_defers_once_witness:
  "\<exists>L'. run_dream_cycle_guarded ex_env Inl ex_ctx (default_run default_dream_config) 9 ex_stamped =
      (Inr (CycleSkipped (CallerWroteFacts 0 2)), L') \<and> get_config L' caller_write_cursor = Some ''2'' \<and>
    (\<forall>reason. fst (run_dream_cycle_guarded ex_env Inl ex_ctx (default_run default_dream_config) 9 L') \<noteq>
      Inr (CycleSkipped reason))"
proof -
  let ?run = "run_dream_cycle_guarded ex_env Inl ex_ctx (default_run default_dream_config) 9"
  have pre: "parse_caller_write_cursor (get_config ex_stamped caller_write_cursor) = Inr 0"
    "\<forall>f \<in> set (d_facts (lg_db ex_stamped)). in_i64 (f_id f)"
    by (simp_all add: parse_caller_write_cursor_def get_config_def ex_stamped_def ex_log_def ex_db_def
        ex_fact_def in_i64_def)
  have m: "max_caller_written_fact_id (lg_db ex_stamped) = Some 2"
    by (simp add: max_caller_written_fact_id_def ex_stamped_def ex_log_def ex_db_def ex_fact_def
        is_active_row_def json_get_def)
  have d: "guard_decision ex_stamped 0 = Some (CallerWroteFacts 0 2)" by (simp add: guard_decision_def m)
  have run: "?run ex_stamped = (Inr (CycleSkipped (CallerWroteFacts 0 2)),
      ex_stamped\<lparr>lg_config := AList.update caller_write_cursor (show_int 2) (lg_config ex_stamped)\<rparr>)"
    using guarded_step(1) [OF ex_ctx_open pre(1) d] by simp
  have "show_int 2 = ''2''" by code_simp
  moreover have "get_config (ex_stamped\<lparr>lg_config := AList.update caller_write_cursor (show_int 2) (lg_config ex_stamped)\<rparr>)
      caller_write_cursor = Some (show_int 2)" by (simp add: get_config_def update_conv')
  moreover note guarded_cycle_defers_once [OF ex_ctx_open pre run]
  ultimately show ?thesis using run m by (metis less_numeral_extra(1) zero_less_numeral)
qed

subsection \<open>Outcome signals\<close>

text \<open>C16: recording an outcome of a stored fact succeeds in the sense of the next read: the count of
  that outcome has grown by one, the counts of all other facts are unchanged, and the batched read
  gives for each requested fact what the single read gives, with no entry standing for no signal.\<close>

theorem recorded_outcome_is_counted:
  assumes r: "record_outcome R ctx i oc now L = (Inr k, L')"
    and c: "get_outcome_counts ctx L i = Inr c" and b: "counts_below u32_max c"
  shows "get_outcome_counts ctx L' i = Inr (add_outcome oc c) \<and>
    (\<forall>j. j \<noteq> i \<longrightarrow> get_outcome_counts ctx L' j = get_outcome_counts ctx L j) \<and>
    (\<forall>ids m. get_outcome_counts_batch L' ids = Inr m \<longrightarrow> i \<in> set ids \<longrightarrow> m i = Some (add_outcome oc c))"
proof -
  have "count_outcome_signals L i = Inr c" using c by (auto simp: get_outcome_counts_def and_then_eq_Inr)
  note n = record_outcome_counts [OF r this b]
  from record_outcome_Inr [OF r] have f: "fact_get n (lg_db L') j = fact_get n (lg_db L) j" for n j
    by (auto simp: fact_get_def)
  have pos: "add_outcome oc c \<noteq> no_outcomes"
    by (cases c; cases oc) (simp_all add: add_outcome_def no_outcomes_def)
  have "m i = Some (add_outcome oc c)"
    if "get_outcome_counts_batch L' ids = Inr m" "i \<in> set ids" for ids m
    using batch_single [of L' ids m i] that n(1) pos
    by (auto simp: get_outcome_counts_batch_def split: option.splits)
  moreover have "get_outcome_counts ctx L' i = Inr (add_outcome oc c)"
    using c n(1) f by (auto simp: get_outcome_counts_def and_then_eq_Inr)
  moreover have "get_outcome_counts ctx L' j = get_outcome_counts ctx L j" if "j \<noteq> i" for j
    using n(2) [OF that] f by (simp add: get_outcome_counts_def)
  ultimately show ?thesis by blast
qed

theorem recorded_outcome_is_counted_witness:
  "\<exists>k L'. record_outcome registry_new ex_ctx 1 Positive 5 ex_stamped = (Inr k, L') \<and>
    get_outcome_counts ex_ctx L' 1 = Inr \<lparr>oc_positive = 1, oc_negative = 0, oc_neutral = 0\<rparr> \<and>
    get_outcome_counts ex_ctx L' 2 = Inr no_outcomes"
proof -
  have none: "get_outcome_counts ex_ctx ex_stamped 1 = Inr no_outcomes"
    "get_outcome_counts ex_ctx ex_stamped 2 = Inr no_outcomes"
    by (simp_all add: get_outcome_counts_def fact_get_def ex_stamped_def ex_log_def ex_db_def ex_fact_def
        ex_ctx_def row_to_fact_def count_outcome_signals_def)
  obtain k L' where r: "record_outcome registry_new ex_ctx 1 Positive 5 ex_stamped = (Inr k, L')"
    by (simp add: record_outcome_def op_bind_def event_insert_def fact_get_def ex_stamped_def ex_log_def ex_db_def ex_fact_def
        ex_ctx_def row_to_fact_def ensure_writable_def Let_def scope_ids_of_def init_scopes_def)
  from recorded_outcome_is_counted [OF r none(1)] show ?thesis
    using r none(2) by (auto simp: counts_below_def no_outcomes_def u32_max_def add_outcome_def)
qed

end
