(* ===== verification/Summary_Store.thy ===== *)
theory Summary_Store
  imports Log_Store
begin

text \<open>
  The table of consolidation summaries (\<open>me-backend-sqlite/src/store/summaries.rs\<close>). \<open>summary_store\<close>
  is a connection with this table beside those of \<open>log_store\<close>.

  The source ids are stored as a JSON array of integers and the embedding as a BLOB of the
  dimension, which both read back as they were written; a row whose BLOB has another length than the
  configured dimension cannot be read. Rows are in the order of their ids.
\<close>

record summary_store =
  su_log :: log_store
  su_summaries :: "summary list"
  su_summary_seq :: int

definition on_log :: "(log_store, 'a) op \<Rightarrow> (summary_store, 'a) op" where
  \<comment> \<open>an operation on the other tables, on the same connection\<close>
  "on_log m S = (case m (su_log S) of (r, L) \<Rightarrow> (r, S\<lparr>su_log := L\<rparr>))"

definition on_facts :: "(db, 'a) op \<Rightarrow> (summary_store, 'a) op" where
  "on_facts m = on_log (on_tables m)"

abbreviation su_db :: "summary_store \<Rightarrow> db" where "su_db S \<equiv> lg_db (su_log S)"

subsection \<open>The operations\<close>

fun level_to_str :: "consolidation_level \<Rightarrow> string" where
  "level_to_str LocalLevel = ''local''"
| "level_to_str ClusterLevel = ''cluster''"
| "level_to_str GlobalLevel = ''global''"

definition str_to_level :: "string \<Rightarrow> consolidation_level result" where
  "str_to_level s =
     (if s = ''local'' then Inr LocalLevel else if s = ''cluster'' then Inr ClusterLevel
      else if s = ''global'' then Inr GlobalLevel
      else Inl (Storage (Backend (Fmt ''unknown consolidation level: {}'' [AStr s]))))"

definition new_summary_row :: "int \<Rightarrow> new_summary \<Rightarrow> summary" where
  "new_summary_row i ns =
     \<lparr>s_id = i, s_content = ns_content ns, s_embedding = ns_embedding ns, s_level = ns_level ns,
      s_source_fact_ids = ns_source_fact_ids ns, s_created_at = ns_created_at ns,
      s_scope_id = ns_scope_id ns\<rparr>"

definition summary_insert :: "nat \<Rightarrow> new_summary \<Rightarrow> (summary_store, int) op" where
  "summary_insert edim ns S =
     (if length (ns_embedding ns) \<noteq> edim
      then (Inl (EmbeddingDimension edim (length (ns_embedding ns))), S)
      else if ns_scope_id ns \<notin> scope_ids_of (su_db S) then (Inl foreign_key_error, S)
      else let i = su_summary_seq S + 1 in
        (Inr i, S\<lparr>su_summaries := su_summaries S @ [new_summary_row i ns], su_summary_seq := i\<rparr>))"

definition row_to_summary :: "nat \<Rightarrow> summary \<Rightarrow> summary result" where
  "row_to_summary edim s =
     (if length (s_embedding s) \<noteq> edim
      then Inl (Storage (Backend (Fmt ''embedding dimension mismatch: expected {}, got {}''
        [ANat edim, ANat (length (s_embedding s))])))
      else Inr s)"

definition summary_get :: "nat \<Rightarrow> summary_store \<Rightarrow> int \<Rightarrow> summary result" where
  "summary_get edim S i =
     (case List.find (\<lambda>s. s_id s = i) (su_summaries S) of
        None \<Rightarrow> Inl (NotFound (Fmt ''summary {}'' [AInt i]))
      | Some s \<Rightarrow> row_to_summary edim s)"

definition list_by_level :: "nat \<Rightarrow> summary_store \<Rightarrow> consolidation_level \<Rightarrow> summary list result" where
  "list_by_level edim S level =
     map_res (row_to_summary edim)
       (filter (\<lambda>s. level_to_str (s_level s) = level_to_str level) (su_summaries S))"

definition list_all_summaries :: "nat \<Rightarrow> summary_store \<Rightarrow> summary list result" where
  "list_all_summaries edim S = map_res (row_to_summary edim) (sort_key s_id (su_summaries S))"

fun summary_rows :: "nat \<Rightarrow> (summary \<Rightarrow> ('s, unit) op) \<Rightarrow> summary list \<Rightarrow> ('s, unit) op" where
  \<comment> \<open>the loop over the rows; the callback acts on a state of its own\<close>
  "summary_rows edim f [] = op_return ()"
| "summary_rows edim f (s # rest) =
     op_bind (op_of (row_to_summary edim s)) (\<lambda>x. op_bind (f x) (\<lambda>_. summary_rows edim f rest))"

definition summary_for_each :: "nat \<Rightarrow> summary_store \<Rightarrow> (summary \<Rightarrow> ('s, unit) op) \<Rightarrow> ('s, unit) op" where
  "summary_for_each edim S f = summary_rows edim f (sort_key s_id (su_summaries S))"

definition delete_by_level :: "consolidation_level \<Rightarrow> (summary_store, nat) op" where
  "delete_by_level level S =
     (let p = (\<lambda>s. level_to_str (s_level s) = level_to_str level) in
      (Inr (length (filter p (su_summaries S))),
       S\<lparr>su_summaries := filter (\<lambda>s. \<not> p s) (su_summaries S)\<rparr>))"

subsection \<open>The invariant\<close>

definition summary_row_ok :: "nat \<Rightarrow> summary_store \<Rightarrow> summary \<Rightarrow> bool" where
  "summary_row_ok edim S s \<longleftrightarrow> s_id s \<le> su_summary_seq S \<and> length (s_embedding s) = edim \<and>
     s_scope_id s \<in> scope_ids_of (su_db S)"

definition summary_inv :: "nat \<Rightarrow> summary_store \<Rightarrow> bool" where
  "summary_inv edim S \<longleftrightarrow> log_inv edim (su_log S) \<and>
     sorted_wrt (<) (map s_id (su_summaries S)) \<and> list_all (summary_row_ok edim S) (su_summaries S)"

lemma level_round_trip: "str_to_level (level_to_str l) = Inr l"
  by (cases l) (simp_all add: str_to_level_def)

lemma level_to_str_eq [simp]: "level_to_str a = level_to_str b \<longleftrightarrow> a = b"
  by (metis level_round_trip sum.inject(2))

lemma keeps_summary_insert [keeps_intros]: "keeps (summary_inv edim) (summary_insert edim ns)"
  by (rule keepsI)
    (fastforce simp: summary_insert_def summary_inv_def Let_def sorted_wrt_append list_all_iff
      summary_row_ok_def new_summary_row_def split: if_splits)

lemma keeps_delete_by_level [keeps_intros]: "keeps (summary_inv edim) (delete_by_level level)"
proof (rule keepsI)
  fix S r S' assume "summary_inv edim S" "delete_by_level level S = (r, S')"
  then show "summary_inv edim S'"
    using sorted_wrt_filter [of "\<lambda>a b. s_id a < s_id b" "su_summaries S" "\<lambda>s. s_level s \<noteq> level"]
    by (auto simp: delete_by_level_def Let_def summary_inv_def list_all_iff summary_row_ok_def sorted_wrt_map)
qed

lemma summaries_readable:
  assumes "summary_inv edim S"
  shows "list_all_summaries edim S = Inr (su_summaries S)"
    and "list_by_level edim S level = Inr (filter (\<lambda>s. s_level s = level) (su_summaries S))"
proof -
  have "row_to_summary edim s = Inr s" if "s \<in> set (su_summaries S)" for s
    using assms that by (auto simp: summary_inv_def list_all_iff summary_row_ok_def row_to_summary_def)
  moreover have "sort_key s_id (su_summaries S) = su_summaries S"
    using assms by (intro sort_key_id_if_sorted)
      (auto simp: summary_inv_def strict_sorted_iff)
  ultimately show "list_all_summaries edim S = Inr (su_summaries S)"
    "list_by_level edim S level = Inr (filter (\<lambda>s. s_level s = level) (su_summaries S))"
    by (auto simp: list_all_summaries_def list_by_level_def intro!: map_res_Inr_id)
qed

lemma on_log_simps [simp]:
  "su_summaries (snd (on_log m S)) = su_summaries S"
  "su_summary_seq (snd (on_log m S)) = su_summary_seq S"
  "su_log (snd (on_log m S)) = snd (m (su_log S))"
  "fst (on_log m S) = fst (m (su_log S))"
  by (simp_all add: on_log_def split: prod.splits)

end
