(* ===== verification/Consolidation.thy ===== *)
theory Consolidation
  imports Summary_Store Dbscan Engine
begin

text \<open>
  Consolidation in three phases: the snapshot (\<open>load_snapshot\<close>), the plan (\<open>compute_plan\<close>) with
  its passes dedup, cluster and global, and the transaction that applies the plan
  (\<open>me-consolidate/src\<close> and \<open>me-backend-sqlite/src/consolidation\<close>). The generator of summaries and
  the embedder are parameters.

  No lock is held between the phases, so that other calls may run there. \<open>consolidate\<close> takes what
  they do as two arguments: one between the snapshot and the transaction, one between reading the
  active edges and replacing the graph.
\<close>

subsection \<open>Configuration and data\<close>

record consolidation_config =
  cc_dedup_threshold :: fl
  cc_cluster_threshold :: fl
  cc_min_cluster_size :: nat

definition default_consolidation_config :: consolidation_config where
  "default_consolidation_config =
     \<lparr>cc_dedup_threshold = Fin (90/100), cc_cluster_threshold = Fin (85/100), cc_min_cluster_size = 2\<rparr>"

definition consolidation_config_validate :: "consolidation_config \<Rightarrow> unit result" where
  "consolidation_config_validate c =
     (if \<not> fl_is_finite (cc_dedup_threshold c) \<or> \<not> fl_in_range (Fin 0) (Fin 1) (cc_dedup_threshold c)
      then Inl (Conflict (PolicyParameter (Fmt
        ''dedup_threshold must be a finite value in [0.0, 1.0], got {}'' [AFl (cc_dedup_threshold c)])))
      else if \<not> fl_is_finite (cc_cluster_threshold c) \<or>
        \<not> fl_in_range (Fin 0) (Fin 1) (cc_cluster_threshold c)
      then Inl (Conflict (PolicyParameter (Fmt
        ''cluster_threshold must be a finite value in [0.0, 1.0], got {}'' [AFl (cc_cluster_threshold c)])))
      else if cc_min_cluster_size c < 2
      then Inl (Conflict (PolicyParameter (Fmt
        ''min_cluster_size must be >= 2 (a cluster requires at least two members), got {}''
        [ANat (cc_min_cluster_size c)])))
      else Inr ())"

record consolidation_stats =
  ct_duplicates_removed :: nat
  ct_clusters_created :: nat
  ct_global_summaries :: nat

record snapshot =
  sn_active_facts :: "fact list"
  sn_last :: "time option"
  sn_now :: time
  sn_over_both_caps :: bool

record expiry =
  ex_loser :: fact_id
  ex_survivor :: fact_id

record dedup_computed =
  dc_skipped :: bool
  dc_expirations :: "expiry list"
  dc_importance_updates :: "(fact_id \<times> fl) list"
  dc_score_updates :: "(fact_id \<times> fl) list"

definition dedup_skipped :: dedup_computed where
  "dedup_skipped = \<lparr>dc_skipped = True, dc_expirations = [], dc_importance_updates = [],
     dc_score_updates = []\<rparr>"

record consolidation_plan =
  pl_dedup :: dedup_computed
  pl_cluster_ran :: bool
  pl_cluster_summaries :: "new_summary list"
  pl_global_summary :: "new_summary option"
  pl_embedding_fingerprint :: "fingerprint option"
  pl_now :: time

record summarizable_content =
  sz_text :: string
  sz_embedding :: "fl list"

type_synonym summary_generator = "summarizable_content list \<Rightarrow> string result"

subsection \<open>Deduplication\<close>

definition dedup_similarity_epsilon :: fl where "dedup_similarity_epsilon = Fin (1/1000000)"

definition choose_expiry :: "fl \<Rightarrow> fact_id \<Rightarrow> fl \<Rightarrow> fact_id \<Rightarrow> fact_id" where
  "choose_expiry a_importance a_id b_importance b_id =
     (if fl_lt a_importance b_importance then a_id
      else if fl_lt b_importance a_importance then b_id
      else max a_id b_id)"

record dedup_state =
  ds_expired_ids :: "fact_id set"
  ds_expiries :: "expiry list"
  ds_importance_updates :: "(fact_id \<times> fl) list"
  ds_running_scores :: "(fact_id \<times> fl) list"

definition empty_dedup_state :: dedup_state where
  "empty_dedup_state = \<lparr>ds_expired_ids = {}, ds_expiries = [], ds_importance_updates = [],
     ds_running_scores = []\<rparr>"

definition live_score :: "(fact_id \<times> fl) list \<Rightarrow> fact \<Rightarrow> fl" where
  "live_score running f = (case map_of running (f_id f) of Some v \<Rightarrow> v | None \<Rightarrow> f_importance_score f)"

definition inherit_max_importance :: "fact \<Rightarrow> fact \<Rightarrow> dedup_state \<Rightarrow> dedup_state" where
  "inherit_max_importance survivor loser st =
     (let st = (if fl_lt (f_base_importance survivor) (f_base_importance loser)
                then st\<lparr>ds_importance_updates :=
                  ds_importance_updates st @ [(f_id survivor, f_base_importance loser)]\<rparr> else st);
          survivor_score = live_score (ds_running_scores st) survivor;
          loser_score = live_score (ds_running_scores st) loser in
      if fl_lt survivor_score loser_score
      then st\<lparr>ds_running_scores := AList.update (f_id survivor) loser_score (ds_running_scores st)\<rparr>
      else st)"

definition duplicates :: "fl \<Rightarrow> fact \<Rightarrow> fact \<Rightarrow> bool" where
  "duplicates threshold a b \<longleftrightarrow>
     fl_le (fl_sub threshold dedup_similarity_epsilon) (cosine_similarity (f_embedding a) (f_embedding b))"

definition merge_pair :: "fact \<Rightarrow> fact \<Rightarrow> dedup_state \<Rightarrow> fact_id \<times> dedup_state" where
  \<comment> \<open>expire the less important of the two; the other inherits\<close>
  "merge_pair new_fact candidate st =
     (let expire_id = choose_expiry (f_base_importance new_fact) (f_id new_fact)
            (f_base_importance candidate) (f_id candidate);
          (survivor, loser) = (if expire_id = f_id new_fact then (candidate, new_fact)
                               else (new_fact, candidate));
          st = st\<lparr>ds_expired_ids := insert expire_id (ds_expired_ids st),
            ds_expiries := ds_expiries st @ [\<lparr>ex_loser = expire_id, ex_survivor = f_id survivor\<rparr>]\<rparr> in
      (expire_id, inherit_max_importance survivor loser st))"

fun compare_candidates :: "fl \<Rightarrow> fact \<Rightarrow> fact list \<Rightarrow> dedup_state \<Rightarrow> dedup_state" where
  \<comment> \<open>the inner loop; a new fact that was expired leaves it\<close>
  "compare_candidates threshold new_fact [] st = st"
| "compare_candidates threshold new_fact (candidate # rest) st =
     (if f_id candidate = f_id new_fact \<or> f_id candidate \<in> ds_expired_ids st \<or> f_is_pinned candidate
      then compare_candidates threshold new_fact rest st
      else if duplicates threshold new_fact candidate
      then (case merge_pair new_fact candidate st of (expire_id, st') \<Rightarrow>
              if expire_id = f_id new_fact then st' else compare_candidates threshold new_fact rest st')
      else compare_candidates threshold new_fact rest st)"

definition dedup_new_fact :: "fl \<Rightarrow> fact list \<Rightarrow> fact \<Rightarrow> dedup_state \<Rightarrow> dedup_state" where
  "dedup_new_fact threshold active_facts new_fact st =
     (if f_id new_fact \<in> ds_expired_ids st \<or> f_is_pinned new_fact then st
      else compare_candidates threshold new_fact active_facts st)"

definition new_facts_since :: "time option \<Rightarrow> fact list \<Rightarrow> fact list" where
  "new_facts_since since active_facts =
     (case since of None \<Rightarrow> active_facts
      | Some since_dt \<Rightarrow> filter (\<lambda>f. since_dt < f_t_created f) active_facts)"

definition compute_dedup :: "fact list \<Rightarrow> fl \<Rightarrow> nat \<Rightarrow> time option \<Rightarrow> dedup_computed" where
  "compute_dedup active_facts threshold max_facts since =
     (if max_facts < length active_facts then dedup_skipped
      else
        let st = fold (dedup_new_fact threshold active_facts) (new_facts_since since active_facts)
                   empty_dedup_state in
        \<lparr>dc_skipped = False, dc_expirations = ds_expiries st,
         dc_importance_updates = ds_importance_updates st, dc_score_updates = ds_running_scores st\<rparr>)"

subsection \<open>Clusters and their summaries\<close>

function grow_cluster ::
    "(nat \<Rightarrow> nat list) \<Rightarrow> nat list \<Rightarrow> nat list \<Rightarrow> bool list \<Rightarrow> nat list \<times> bool list" where
  \<comment> \<open>the loop over \<open>cluster[j..]\<close>: the members before \<open>j\<close>, those from \<open>j\<close> on, the marks\<close>
  "grow_cluster similar seen [] assigned = (seen, assigned)"
| "grow_cluster similar seen (anchor # rest) assigned =
     (case push_unqueued (similar anchor) assigned of (new, assigned') \<Rightarrow>
        grow_cluster similar (seen @ [anchor]) (rest @ new) assigned')"
  by pat_completeness auto

termination
  by (relation "measure (\<lambda>(_, _, pending, assigned). length pending + unmarked assigned)")
    (auto dest!: push_unqueued_unmarked [OF sym])

definition similar_to :: "fact list \<Rightarrow> fl \<Rightarrow> nat \<Rightarrow> nat list" where
  "similar_to facts threshold i =
     filter (\<lambda>k. fl_lt threshold (cosine_similarity (f_embedding (facts ! i)) (f_embedding (facts ! k))))
       [0..<length facts]"

definition start_cluster ::
    "(nat \<Rightarrow> nat list) \<Rightarrow> nat \<Rightarrow> bool list \<times> nat list list \<Rightarrow> bool list \<times> nat list list" where
  "start_cluster similar i = (\<lambda>(assigned, clusters).
     if assigned ! i then (assigned, clusters)
     else (case grow_cluster similar [] [i] (assigned[i := True]) of
             (cluster, assigned') \<Rightarrow> (assigned', clusters @ [cluster])))"

definition greedy_cluster :: "fact list \<Rightarrow> fl \<Rightarrow> nat list list" where
  "greedy_cluster facts threshold =
     snd (fold (start_cluster (similar_to facts threshold)) [0..<length facts]
       (replicate (length facts) False, []))"

definition summarize_and_embed ::
    "summary_generator \<Rightarrow> embedder \<Rightarrow> summarizable_content list \<Rightarrow> nat \<Rightarrow> (string \<times> fl list) result" where
  "summarize_and_embed generator emb items embed_dim =
     and_then (generator items) (\<lambda>summary_text.
     and_then (em_embed emb summary_text) (\<lambda>embedding.
     if length embedding \<noteq> embed_dim then Inl (EmbeddingDimension embed_dim (length embedding))
     else Inr (summary_text, embedding)))"

definition count_scope :: "int \<Rightarrow> (int \<times> nat) list \<Rightarrow> (int \<times> nat) list" where
  "count_scope s counts =
     AList.update s ((case map_of counts s of None \<Rightarrow> 0 | Some c \<Rightarrow> c) + 1) counts"

definition scope_vote_cmp :: "int \<times> nat \<Rightarrow> int \<times> nat \<Rightarrow> ord3" where
  \<comment> \<open>by count; the lower scope wins a tie\<close>
  "scope_vote_cmp a b =
     (case ord_cmp (snd a) (snd b) of OEqual \<Rightarrow> ord_cmp (fst b) (fst a) | c \<Rightarrow> c)"

definition majority_scope :: "int list \<Rightarrow> int" where
  "majority_scope scopes =
     (case max_by scope_vote_cmp (fold count_scope scopes []) of None \<Rightarrow> 1 | Some (i, _) \<Rightarrow> i)"

record cluster_params =
  cp_embed_dim :: nat
  cp_min_cluster_size :: nat
  cp_cluster_threshold :: fl
  cp_max_facts :: nat
  cp_now :: time

record cluster_computed =
  cl_ran :: bool
  cl_summaries :: "new_summary list"

definition summarize_cluster ::
    "fact list \<Rightarrow> summary_generator \<Rightarrow> embedder \<Rightarrow> cluster_params \<Rightarrow> nat list \<Rightarrow> new_summary result" where
  "summarize_cluster facts generator emb params cluster =
     (let source_ids = map (\<lambda>idx. f_id (facts ! idx)) cluster;
          items = map (\<lambda>idx. \<lparr>sz_text = f_content (facts ! idx), sz_embedding = f_embedding (facts ! idx)\<rparr>)
                    cluster in
      and_then (summarize_and_embed generator emb items (cp_embed_dim params))
        (\<lambda>(summary_text, summary_embedding).
      Inr \<lparr>ns_content = summary_text, ns_embedding = summary_embedding, ns_level = ClusterLevel,
           ns_source_fact_ids = source_ids, ns_created_at = cp_now params,
           ns_scope_id = majority_scope (map (\<lambda>idx. f_scope_id (facts ! idx)) cluster)\<rparr>))"

definition compute_clusters ::
    "fact list \<Rightarrow> summary_generator \<Rightarrow> embedder \<Rightarrow> cluster_params \<Rightarrow> cluster_computed result" where
  "compute_clusters facts generator emb params =
     (if cp_max_facts params < length facts then Inr \<lparr>cl_ran = False, cl_summaries = []\<rparr>
      else
        and_then (map_res (summarize_cluster facts generator emb params)
          (filter (\<lambda>cluster. \<not> length cluster < cp_min_cluster_size params)
            (greedy_cluster facts (cp_cluster_threshold params))))
        (\<lambda>summaries. Inr \<lparr>cl_ran = True, cl_summaries = summaries\<rparr>))"

definition compute_global ::
    "new_summary list \<Rightarrow> summary_generator \<Rightarrow> embedder \<Rightarrow> nat \<Rightarrow> time \<Rightarrow> new_summary option result" where
  "compute_global cluster_summaries generator emb embed_dim now =
     (if cluster_summaries = [] then Inr None
      else
        and_then (summarize_and_embed generator emb
          (map (\<lambda>s. \<lparr>sz_text = ns_content s, sz_embedding = ns_embedding s\<rparr>) cluster_summaries) embed_dim)
        (\<lambda>(global_text, global_embedding).
        Inr (Some \<lparr>ns_content = global_text, ns_embedding = global_embedding, ns_level = GlobalLevel,
          ns_source_fact_ids = concat (map ns_source_fact_ids cluster_summaries), ns_created_at = now,
          ns_scope_id = 1\<rparr>)))"

subsection \<open>The plan\<close>

definition compute_plan_capped ::
    "snapshot \<Rightarrow> summary_generator \<Rightarrow> embedder \<Rightarrow> nat \<Rightarrow> consolidation_config \<Rightarrow> nat \<Rightarrow> nat
      \<Rightarrow> consolidation_plan result" where
  "compute_plan_capped sn generator emb embed_dim config max_dedup_facts max_cluster_facts =
     (if sn_over_both_caps sn
      then Inr \<lparr>pl_dedup = dedup_skipped, pl_cluster_ran = False, pl_cluster_summaries = [],
        pl_global_summary = None, pl_embedding_fingerprint = None, pl_now = sn_now sn\<rparr>
      else
        let dedup = compute_dedup (sn_active_facts sn) (cc_dedup_threshold config) max_dedup_facts (sn_last sn);
            expired_set = ex_loser ` set (dc_expirations dedup);
            survivors = filter (\<lambda>f. f_id f \<notin> expired_set) (sn_active_facts sn);
            params = \<lparr>cp_embed_dim = embed_dim, cp_min_cluster_size = cc_min_cluster_size config,
              cp_cluster_threshold = cc_cluster_threshold config, cp_max_facts = max_cluster_facts,
              cp_now = sn_now sn\<rparr> in
        and_then (compute_clusters survivors generator emb params) (\<lambda>cluster.
        and_then (if cl_ran cluster
                  then compute_global (cl_summaries cluster) generator emb embed_dim (sn_now sn)
                  else Inr None) (\<lambda>global_summary.
        let stamp = (cl_summaries cluster \<noteq> [] \<or> global_summary \<noteq> None) in
        Inr \<lparr>pl_dedup = dedup, pl_cluster_ran = cl_ran cluster,
          pl_cluster_summaries = cl_summaries cluster, pl_global_summary = global_summary,
          pl_embedding_fingerprint = (if stamp then Some (em_fingerprint emb) else None),
          pl_now = sn_now sn\<rparr>)))"

definition compute_plan ::
    "snapshot \<Rightarrow> summary_generator \<Rightarrow> embedder \<Rightarrow> nat \<Rightarrow> consolidation_config
      \<Rightarrow> consolidation_plan result" where
  "compute_plan sn generator emb embed_dim config =
     compute_plan_capped sn generator emb embed_dim config max_facts_for_dedup max_facts_for_clustering"

subsection \<open>The backend's phases\<close>

definition last_consolidated_at :: string where "last_consolidated_at = ''last_consolidated_at''"

definition load_snapshot_capped ::
    "(string \<Rightarrow> string + time) \<Rightarrow> nat \<Rightarrow> consolidation_config \<Rightarrow> nat \<Rightarrow> nat \<Rightarrow> time
      \<Rightarrow> summary_store \<Rightarrow> snapshot result" where
  "load_snapshot_capped read_time embed_dim config max_dedup_facts max_cluster_facts now S =
     and_then (consolidation_config_validate config) (\<lambda>_.
     and_then (case get_config (su_log S) last_consolidated_at of
         None \<Rightarrow> Inr None
       | Some s \<Rightarrow> (case read_time s of
             Inl e \<Rightarrow> Inl (Migration (Incompatible (Fmt ''invalid last_consolidated_at: {}'' [AStr e])))
           | Inr t \<Rightarrow> Inr (Some t))) (\<lambda>last_at.
     let active_count = count_active (su_db S) in
     if max_dedup_facts < active_count \<and> max_cluster_facts < active_count
     then Inr \<lparr>sn_active_facts = [], sn_last = last_at, sn_now = now, sn_over_both_caps = True\<rparr>
     else
       and_then (list_active embed_dim (su_db S) None) (\<lambda>active_facts.
       Inr \<lparr>sn_active_facts = active_facts, sn_last = last_at, sn_now = now,
            sn_over_both_caps = False\<rparr>)))"

definition load_snapshot ::
    "(string \<Rightarrow> string + time) \<Rightarrow> nat \<Rightarrow> consolidation_config \<Rightarrow> time \<Rightarrow> summary_store \<Rightarrow> snapshot result" where
  "load_snapshot read_time embed_dim config now S =
     load_snapshot_capped read_time embed_dim config max_facts_for_dedup max_facts_for_clustering now S"

record dedup_applied =
  da_expired :: "fact_id list"
  da_survivor_lost :: bool

definition expire_loser :: "(fact_id \<rightharpoonup> bool) \<Rightarrow> time \<Rightarrow> expiry \<Rightarrow> dedup_applied \<Rightarrow> (db, dedup_applied) op" where
  \<comment> \<open>the body of the loop over the expirations\<close>
  "expire_loser survivor_live now e applied D =
     (if survivor_live (ex_survivor e) \<noteq> Some True
      then (Inr (applied\<lparr>da_survivor_lost := True\<rparr>), D)
      else case fact_expire (ex_loser e) now D of
          (Inr _, D') \<Rightarrow>
            op_bind (expire_by_fact (ex_loser e) now) (\<lambda>_.
              op_return (applied\<lparr>da_expired := da_expired applied @ [ex_loser e]\<rparr>)) D'
        | (Inl (NotFound _), D') \<Rightarrow> (Inr applied, D')
        | (Inl err, D') \<Rightarrow> (Inl err, D'))"

definition survivor_liveness :: "expiry list \<Rightarrow> db \<Rightarrow> (fact_id \<rightharpoonup> bool)" where
  \<comment> \<open>one entry per survivor, all read before the first expiry\<close>
  "survivor_liveness es D =
     (\<lambda>i. if i \<in> ex_survivor ` set es then Some (is_active D i) else None)"

definition apply_dedup :: "dedup_computed \<Rightarrow> time \<Rightarrow> (db, dedup_applied) op" where
  "apply_dedup computed now =
     op_bind (op_each (\<lambda>(i, importance). update_base_importance i importance)
       (dc_importance_updates computed)) (\<lambda>_.
     op_bind (update_importance_scores_bulk (dc_score_updates computed)) (\<lambda>_.
     op_bind (op_reads (\<lambda>D. Inr (survivor_liveness (dc_expirations computed) D))) (\<lambda>survivor_live.
     op_fold (expire_loser survivor_live now) (dc_expirations computed)
       \<lparr>da_expired = [], da_survivor_lost = False\<rparr>)))"

definition insert_summary :: "nat \<Rightarrow> new_summary \<Rightarrow> (summary_store, unit) op" where
  \<comment> \<open>the insert whose row id is not used\<close>
  "insert_summary embed_dim s = op_bind (summary_insert embed_dim s) (\<lambda>_. op_return ())"

definition apply_clusters :: "nat \<Rightarrow> new_summary list \<Rightarrow> (summary_store, unit) op" where
  "apply_clusters embed_dim summaries =
     op_bind (delete_by_level ClusterLevel) (\<lambda>_.
     op_each (insert_summary embed_dim) summaries)"

definition apply_global :: "nat \<Rightarrow> new_summary option \<Rightarrow> (summary_store, unit) op" where
  "apply_global embed_dim summary_opt =
     op_bind (delete_by_level GlobalLevel) (\<lambda>_.
     case summary_opt of
       None \<Rightarrow> op_return ()
     | Some s \<Rightarrow> insert_summary embed_dim s)"

definition plan_stats :: "consolidation_plan \<Rightarrow> dedup_applied \<Rightarrow> bool \<Rightarrow> consolidation_stats" where
  "plan_stats plan applied wrote_summaries =
     \<lparr>ct_duplicates_removed = length (da_expired applied),
      ct_clusters_created = (if wrote_summaries then length (pl_cluster_summaries plan) else 0),
      ct_global_summaries = (if wrote_summaries \<and> pl_global_summary plan \<noteq> None then 1 else 0)\<rparr>"

definition apply_plan ::
    "(time \<Rightarrow> string) \<Rightarrow> nat \<Rightarrow> consolidation_plan
      \<Rightarrow> (summary_store, consolidation_stats \<times> fact_id list) op" where
  "apply_plan rfc3339 embed_dim plan =
     transaction (
       op_bind (on_facts (apply_dedup (pl_dedup plan) (pl_now plan))) (\<lambda>applied.
       let wrote_summaries = pl_cluster_ran plan \<and> \<not> da_survivor_lost applied in
       op_bind (if wrote_summaries
           then op_bind (apply_clusters embed_dim (pl_cluster_summaries plan)) (\<lambda>_.
                op_bind (apply_global embed_dim (pl_global_summary plan)) (\<lambda>_.
                case pl_embedding_fingerprint plan of
                  None \<Rightarrow> op_return ()
                | Some fp \<Rightarrow> op_bind (on_facts (record_if_absent fp embed_dim)) (\<lambda>_. op_return ())))
           else op_return ()) (\<lambda>_.
       op_bind (if \<not> dc_skipped (pl_dedup plan)
           then on_log (set_config last_consolidated_at (rfc3339 (pl_now plan)))
           else op_return ()) (\<lambda>_.
       op_return (plan_stats plan applied wrote_summaries, da_expired applied)))))"

subsection \<open>The primitive\<close>

record consolidate_env =
  ne_read_time :: "string \<Rightarrow> string + time"
  ne_rfc3339 :: "time \<Rightarrow> string"
  ne_generator :: summary_generator
  ne_embedder :: embedder

definition on_both :: "('s \<Rightarrow> 's) \<Rightarrow> ('s, unit) op" where
  \<comment> \<open>what other calls do while no lock is held\<close>
  "on_both others s = (Inr (), others s)"

definition consolidate ::
    "consolidate_env \<Rightarrow> 'g petgraph \<Rightarrow> memory_ctx \<Rightarrow> consolidation_config \<Rightarrow> time
      \<Rightarrow> (summary_store \<times> 'g memory_graph \<Rightarrow> summary_store \<times> 'g memory_graph)
      \<Rightarrow> (summary_store \<times> 'g memory_graph \<Rightarrow> summary_store \<times> 'g memory_graph)
      \<Rightarrow> (summary_store \<times> 'g memory_graph, consolidation_stats) op" where
  "consolidate E P ctx config now while_computing while_reading =
     op_bind (op_of (ensure_open ctx)) (\<lambda>_.
     op_bind (op_of (ensure_writable ctx)) (\<lambda>_.
     op_bind (op_reads (\<lambda>(S, g). load_snapshot (ne_read_time E) (ctx_embed_dim ctx) config now S)) (\<lambda>sn.
     op_bind (on_both while_computing) (\<lambda>_.
     op_bind (op_of (compute_plan sn (ne_generator E) (ne_embedder E) (ctx_embed_dim ctx) config)) (\<lambda>plan.
     op_bind (on_store (apply_plan (ne_rfc3339 E) (ctx_embed_dim ctx) plan)) (\<lambda>(stats, expired_ids).
     if expired_ids = [] then op_return stats
     else
       op_bind (op_reads (\<lambda>(S, g). Inr (list_active_edges (su_db S)))) (\<lambda>edges.
       op_bind (on_both while_reading) (\<lambda>_.
       op_bind (on_index (\<lambda>_. from_active_edges P edges)) (\<lambda>_.
       op_return stats)))))))))"

end
