(* ===== verification/Dedup.thy ===== *)
theory Dedup
  imports Consolidation
begin

text \<open>
  What the deduplication pass computes, and what applying it does. The pass is correct for every list of
  facts with distinct ids and scores that are numbers: no pinned fact is touched, every loser is
  absorbed, over a chain, by a fact that stays and is at least as important, with a score at least
  as high, and no new fact that stays has a duplicate that stays. Applying the plan to a store that changed
  in between expires only facts that are absorbed by one that stays active.
\<close>

subsection \<open>The plan\<close>

definition absorbed :: "expiry list \<Rightarrow> (fact_id \<times> fact_id) set" where
  "absorbed es = (\<lambda>e. (ex_loser e, ex_survivor e)) ` set es"

definition losers :: "expiry list \<Rightarrow> fact_id set" where
  "losers es = ex_loser ` set es"

lemma absorbed_simps [simp]:
  "absorbed [] = {}" "absorbed (es @ [e]) = insert (ex_loser e, ex_survivor e) (absorbed es)"
  "losers [] = {}" "losers (es @ [e]) = insert (ex_loser e) (losers es)"
  by (auto simp: absorbed_def losers_def)

lemma absorbed_mono: "p \<in> (absorbed es)\<^sup>+ \<Longrightarrow> p \<in> (insert q (absorbed es))\<^sup>+"
  by (meson subset_insertI trancl_mono)

definition facts_ok :: "fact list \<Rightarrow> bool" where
  "facts_ok F \<longleftrightarrow> distinct (map f_id F) \<and>
     (\<forall>f \<in> set F. f_base_importance f \<noteq> NaN \<and> f_importance_score f \<noteq> NaN)"

lemma facts_ok_unique: "facts_ok F \<Longrightarrow> f \<in> set F \<Longrightarrow> g \<in> set F \<Longrightarrow> f_id f = f_id g \<Longrightarrow> f = g"
  by (auto simp: facts_ok_def distinct_map inj_on_def)

text \<open>\<open>pair_ok\<close>: the loser may be folded into the survivor.\<close>

definition pair_ok :: "fl \<Rightarrow> fact \<Rightarrow> fact \<Rightarrow> bool" where
  "pair_ok threshold l s \<longleftrightarrow> f_id l \<noteq> f_id s \<and> \<not> f_is_pinned l \<and> \<not> f_is_pinned s \<and>
     duplicates threshold l s \<and> fl_le (f_base_importance l) (f_base_importance s)"

definition represented :: "fact list \<Rightarrow> expiry list \<Rightarrow> (fact_id \<times> fl) list \<Rightarrow> fact \<Rightarrow> fact \<Rightarrow> bool" where
  \<comment> \<open>\<open>r\<close> stays and stands for the loser \<open>l\<close>\<close>
  "represented F es running l r \<longleftrightarrow> r \<in> set F \<and> (f_id l, f_id r) \<in> (absorbed es)\<^sup>+ \<and> f_id r \<notin> losers es \<and>
     \<not> f_is_pinned r \<and> fl_le (f_base_importance l) (f_base_importance r) \<and>
     fl_le (f_importance_score l) (live_score running r)"

definition dedup_state_inv :: "fact list \<Rightarrow> fl \<Rightarrow> dedup_state \<Rightarrow> bool" where
  "dedup_state_inv F threshold st \<longleftrightarrow>
     ds_expired_ids st = losers (ds_expiries st) \<and> distinct (map ex_loser (ds_expiries st)) \<and>
     ds_importance_updates st = [] \<and>
     distinct (map fst (ds_running_scores st)) \<and>
     fst ` set (ds_running_scores st) \<subseteq> ex_survivor ` set (ds_expiries st) \<and>
     (\<forall>e \<in> set (ds_expiries st). \<exists>l \<in> set F. \<exists>s \<in> set F. f_id l = ex_loser e \<and> f_id s = ex_survivor e \<and>
        pair_ok threshold l s) \<and>
     (\<forall>l \<in> set F. f_id l \<in> losers (ds_expiries st) \<longrightarrow>
        (\<exists>r. represented F (ds_expiries st) (ds_running_scores st) l r)) \<and>
     (\<forall>f \<in> set F. fl_le (f_importance_score f) (live_score (ds_running_scores st) f)) \<and>
     (\<forall>f \<in> set F. \<exists>g \<in> set F. live_score (ds_running_scores st) f = f_importance_score g \<and>
        (g = f \<or> (f_id g, f_id f) \<in> (absorbed (ds_expiries st))\<^sup>+))"

lemma dedup_state_invI:
  assumes "ds_expired_ids st = losers (ds_expiries st)" "distinct (map ex_loser (ds_expiries st))"
    and "ds_importance_updates st = []" "distinct (map fst (ds_running_scores st))"
    and "fst ` set (ds_running_scores st) \<subseteq> ex_survivor ` set (ds_expiries st)"
    and "\<And>e. e \<in> set (ds_expiries st) \<Longrightarrow> \<exists>l \<in> set F. \<exists>s \<in> set F. f_id l = ex_loser e \<and>
        f_id s = ex_survivor e \<and> pair_ok threshold l s"
    and "\<And>l. l \<in> set F \<Longrightarrow> f_id l \<in> losers (ds_expiries st) \<Longrightarrow>
        \<exists>r. represented F (ds_expiries st) (ds_running_scores st) l r"
    and "\<And>f. f \<in> set F \<Longrightarrow> fl_le (f_importance_score f) (live_score (ds_running_scores st) f)"
    and "\<And>f. f \<in> set F \<Longrightarrow> \<exists>g \<in> set F. live_score (ds_running_scores st) f = f_importance_score g \<and>
        (g = f \<or> (f_id g, f_id f) \<in> (absorbed (ds_expiries st))\<^sup>+)"
  shows "dedup_state_inv F threshold st"
  unfolding dedup_state_inv_def by (intro conjI ballI impI; (rule assms; assumption?)+)

lemma dedup_state_invD:
  assumes "dedup_state_inv F threshold st"
  shows "ds_expired_ids st = losers (ds_expiries st)" "distinct (map ex_loser (ds_expiries st))"
    and "ds_importance_updates st = []" "distinct (map fst (ds_running_scores st))"
    and "fst ` set (ds_running_scores st) \<subseteq> ex_survivor ` set (ds_expiries st)"
    and "e \<in> set (ds_expiries st) \<Longrightarrow> \<exists>l \<in> set F. \<exists>s \<in> set F. f_id l = ex_loser e \<and>
        f_id s = ex_survivor e \<and> pair_ok threshold l s"
    and "l \<in> set F \<Longrightarrow> f_id l \<in> losers (ds_expiries st) \<Longrightarrow>
        \<exists>r. represented F (ds_expiries st) (ds_running_scores st) l r"
    and "f \<in> set F \<Longrightarrow> fl_le (f_importance_score f) (live_score (ds_running_scores st) f)"
    and "f \<in> set F \<Longrightarrow> \<exists>g \<in> set F. live_score (ds_running_scores st) f = f_importance_score g \<and>
        (g = f \<or> (f_id g, f_id f) \<in> (absorbed (ds_expiries st))\<^sup>+)"
  using assms unfolding dedup_state_inv_def by - (elim conjE, (blast | assumption))+

lemma live_score_update:
  "live_score (AList.update i v running) f = (if f_id f = i then v else live_score running f)"
  by (simp add: live_score_def update_conv')

lemma duplicates_sym: "duplicates t a b \<longleftrightarrow> duplicates t b a"
  by (simp add: duplicates_def cosine_similarity_commute)

definition record_expiry :: "fact \<Rightarrow> fact \<Rightarrow> dedup_state \<Rightarrow> dedup_state" where
  "record_expiry l s st = inherit_max_importance s l
     (st\<lparr>ds_expired_ids := insert (f_id l) (ds_expired_ids st),
         ds_expiries := ds_expiries st @ [\<lparr>ex_loser = f_id l, ex_survivor = f_id s\<rparr>]\<rparr>)"

lemma merge_pair_cases:
  assumes "f_id n \<noteq> f_id c" "duplicates t n c" "\<not> f_is_pinned n" "\<not> f_is_pinned c"
    and "f_base_importance n \<noteq> NaN" "f_base_importance c \<noteq> NaN"
  shows "\<exists>l s. {l, s} = {n, c} \<and> pair_ok t l s \<and> merge_pair n c st = (f_id l, record_expiry l s st)"
proof -
  let ?e = "choose_expiry (f_base_importance n) (f_id n) (f_base_importance c) (f_id c)"
  consider "?e = f_id n" "fl_le (f_base_importance n) (f_base_importance c)"
    | "?e = f_id c" "fl_le (f_base_importance c) (f_base_importance n)"
    using fl_lt_imp_le fl_lt_le [OF assms(5,6)] fl_lt_le [OF assms(6,5)]
    unfolding choose_expiry_def max_def by metis
  then show ?thesis
  proof cases
    case 1
    then have "pair_ok t n c" "merge_pair n c st = (f_id n, record_expiry n c st)"
      using assms by (simp_all add: pair_ok_def merge_pair_def record_expiry_def Let_def)
    then show ?thesis by blast
  next
    case 2
    then have "pair_ok t c n" "merge_pair n c st = (f_id c, record_expiry c n st)"
      using assms by (simp_all add: pair_ok_def merge_pair_def record_expiry_def Let_def duplicates_sym)
    then show ?thesis by blast
  qed
qed

lemma record_expiry_fields:
  assumes "fl_le (f_base_importance l) (f_base_importance s)"
  shows "ds_expired_ids (record_expiry l s st) = insert (f_id l) (ds_expired_ids st)"
    and "ds_expiries (record_expiry l s st) = ds_expiries st @ [\<lparr>ex_loser = f_id l, ex_survivor = f_id s\<rparr>]"
    and "ds_importance_updates (record_expiry l s st) = ds_importance_updates st"
    and "ds_running_scores (record_expiry l s st) =
      (if fl_lt (live_score (ds_running_scores st) s) (live_score (ds_running_scores st) l)
       then AList.update (f_id s) (live_score (ds_running_scores st) l) (ds_running_scores st)
       else ds_running_scores st)"
proof -
  have "\<not> fl_lt (f_base_importance s) (f_base_importance l)"
    using assms by (cases "f_base_importance s"; cases "f_base_importance l"; auto simp: fl_le_def)
  then show "ds_expired_ids (record_expiry l s st) = insert (f_id l) (ds_expired_ids st)"
    "ds_expiries (record_expiry l s st) = ds_expiries st @ [\<lparr>ex_loser = f_id l, ex_survivor = f_id s\<rparr>]"
    "ds_importance_updates (record_expiry l s st) = ds_importance_updates st"
    "ds_running_scores (record_expiry l s st) =
      (if fl_lt (live_score (ds_running_scores st) s) (live_score (ds_running_scores st) l)
       then AList.update (f_id s) (live_score (ds_running_scores st) l) (ds_running_scores st)
       else ds_running_scores st)"
    by (simp_all add: record_expiry_def inherit_max_importance_def Let_def)
qed

lemma record_expiry_inv:
  assumes F: "facts_ok F" and inv: "dedup_state_inv F t st" and l: "l \<in> set F" and s: "s \<in> set F"
    and p: "pair_ok t l s" and fresh: "f_id l \<notin> ds_expired_ids st" "f_id s \<notin> ds_expired_ids st"
  shows "dedup_state_inv F t (record_expiry l s st)"
proof -
  let ?st = "record_expiry l s st" and ?es = "ds_expiries st" and ?run = "ds_running_scores st"
  have le: "fl_le (f_base_importance l) (f_base_importance s)" and ne: "f_id l \<noteq> f_id s"
    using p by (simp_all add: pair_ok_def)
  note fields = record_expiry_fields [OF le, of st]
  note D = dedup_state_invD [OF inv]
  have nonan: "live_score ?run f \<noteq> NaN" if "f \<in> set F" for f
    using D(8) [OF that] by (metis fl_le_NaN(2))
  have live: "live_score (ds_running_scores ?st) f = (if f_id f = f_id s \<and>
      fl_lt (live_score ?run s) (live_score ?run l) then live_score ?run l else live_score ?run f)" for f
    by (simp add: fields live_score_update)
  have up: "fl_le (live_score ?run f) (live_score (ds_running_scores ?st) f)" if "f \<in> set F" for f
  proof (cases "f_id f = f_id s")
    case True
    then have "f = s" using facts_ok_unique [OF F that s] by simp
    then show ?thesis using nonan [OF s] fl_lt_imp_le by (simp add: live fl_le_refl)
  next
    case False
    then show ?thesis using nonan [OF that] by (simp add: live fl_le_refl)
  qed
  have taken: "fl_le (live_score ?run l) (live_score (ds_running_scores ?st) s)"
    using nonan [OF l] nonan [OF s] fl_lt_le by (simp add: live fl_le_refl)
  have fresh': "f_id l \<notin> losers ?es" "f_id s \<notin> losers ?es" using fresh D(1) by simp_all
  have step: "(f_id l, f_id s) \<in> (insert (f_id l, f_id s) (absorbed ?es))\<^sup>+" by blast
  show ?thesis
  proof (rule dedup_state_invI)
    show "distinct (map ex_loser (ds_expiries ?st))"
      using D(2) fresh' by (simp add: fields losers_def)
    show "distinct (map fst (ds_running_scores ?st))"
      using D(4) by (simp add: fields distinct_update)
    show "fst ` set (ds_running_scores ?st) \<subseteq> ex_survivor ` set (ds_expiries ?st)"
      using D(5) by (auto simp: fields dom_update)
  next
    fix e assume "e \<in> set (ds_expiries ?st)"
    then consider "e \<in> set ?es" | "e = \<lparr>ex_loser = f_id l, ex_survivor = f_id s\<rparr>"
      by (auto simp: fields(2))
    then show "\<exists>l \<in> set F. \<exists>s \<in> set F. f_id l = ex_loser e \<and> f_id s = ex_survivor e \<and> pair_ok t l s"
    proof cases
      case 1
      then show ?thesis by (rule D(6))
    next
      case 2
      with p show ?thesis by (intro bexI [OF bexI [OF _ s] l]) simp
    qed
  next
    fix x assume x: "x \<in> set F" "f_id x \<in> losers (ds_expiries ?st)"
    show "\<exists>r. represented F (ds_expiries ?st) (ds_running_scores ?st) x r"
    proof (cases "f_id x = f_id l")
      case True
      then have "x = l" using facts_ok_unique [OF F x(1) l] by simp
      then have "represented F (ds_expiries ?st) (ds_running_scores ?st) x s"
        using s p le ne fresh' step taken D(8) [OF l] fl_le_trans
        by (auto simp: represented_def fields(2) pair_ok_def)
      then show ?thesis by blast
    next
      case False
      then have "f_id x \<in> losers ?es" using x(2) by (simp add: fields)
      then obtain r where r: "represented F ?es ?run x r" using D(7) [OF x(1)] by blast
      then have rF: "r \<in> set F" and path: "(f_id x, f_id r) \<in> (insert (f_id l, f_id s) (absorbed ?es))\<^sup>+"
        by (auto simp: represented_def intro: absorbed_mono)
      show ?thesis
      proof (cases "f_id r = f_id l")
        case True
        then have "r = l" using facts_ok_unique [OF F rF l] by simp
        with r have "represented F (ds_expiries ?st) (ds_running_scores ?st) x s"
          using s p le ne fresh' step taken path fl_le_trans
          by (auto simp: represented_def fields(2) pair_ok_def intro: trancl_trans)
        then show ?thesis by blast
      next
        case False
        with r have "represented F (ds_expiries ?st) (ds_running_scores ?st) x r"
          using path up [OF rF] fl_le_trans by (auto simp: represented_def fields(2))
        then show ?thesis by blast
      qed
    qed
  next
    fix f assume f: "f \<in> set F"
    show "fl_le (f_importance_score f) (live_score (ds_running_scores ?st) f)"
      using D(8) [OF f] up [OF f] by (rule fl_le_trans)
    show "\<exists>g \<in> set F. live_score (ds_running_scores ?st) f = f_importance_score g \<and>
        (g = f \<or> (f_id g, f_id f) \<in> (absorbed (ds_expiries ?st))\<^sup>+)"
    proof (cases "f_id f = f_id s \<and> fl_lt (live_score ?run s) (live_score ?run l)")
      case True
      obtain g where "g \<in> set F" "live_score ?run l = f_importance_score g"
        "g = l \<or> (f_id g, f_id l) \<in> (absorbed ?es)\<^sup>+" using D(9) [OF l] by blast
      then show ?thesis
        using True step by (auto simp: live fields(2) intro: trancl_trans absorbed_mono intro!: bexI [of _ g])
    next
      case False
      then show ?thesis using D(9) [OF f] by (auto simp: live fields(2) intro: absorbed_mono)
    qed
  qed (simp_all add: fields D(1,3))
qed

lemma compare_candidates_inv:
  assumes F: "facts_ok F" and inv: "dedup_state_inv F t st" and n: "n \<in> set F" "\<not> f_is_pinned n"
    and "f_id n \<notin> ds_expired_ids st" and "set cs \<subseteq> set F"
  shows "dedup_state_inv F t (compare_candidates t n cs st) \<and>
    ds_expired_ids st \<subseteq> ds_expired_ids (compare_candidates t n cs st) \<and>
    (f_id n \<notin> ds_expired_ids (compare_candidates t n cs st) \<longrightarrow>
       (\<forall>c \<in> set cs. f_id c \<noteq> f_id n \<longrightarrow> \<not> f_is_pinned c \<longrightarrow>
          f_id c \<notin> ds_expired_ids (compare_candidates t n cs st) \<longrightarrow> \<not> duplicates t n c))"
  using inv assms(5,6)
proof (induction cs arbitrary: st)
  case (Cons c cs)
  let ?skip = "f_id c = f_id n \<or> f_id c \<in> ds_expired_ids st \<or> f_is_pinned c"
  show ?case
  proof (cases "?skip \<or> \<not> duplicates t n c")
    case True
    then have "compare_candidates t n (c # cs) st = compare_candidates t n cs st" by auto
    with True Cons show ?thesis by auto
  next
    case False
    then obtain l s where ls: "{l, s} = {n, c}" "pair_ok t l s" "merge_pair n c st = (f_id l, record_expiry l s st)"
      using merge_pair_cases [of n c t st] n F Cons.prems(3) by (auto simp: facts_ok_def)
    let ?st = "record_expiry l s st"
    have mem: "l \<in> set F" "s \<in> set F" and fresh: "f_id l \<notin> ds_expired_ids st" "f_id s \<notin> ds_expired_ids st"
      using ls(1) n(1) Cons.prems(2,3) False by (auto simp: doubleton_eq_iff)
    have inv': "dedup_state_inv F t ?st"
      by (rule record_expiry_inv [OF F Cons.prems(1) mem ls(2) fresh])
    have ex: "ds_expired_ids ?st = insert (f_id l) (ds_expired_ids st)"
      using ls(2) by (simp add: record_expiry_fields pair_ok_def)
    show ?thesis
    proof (cases "f_id l = f_id n")
      case True
      then have "compare_candidates t n (c # cs) st = ?st" using False ls(3) by simp
      with inv' ex True show ?thesis by auto
    next
      case other: False
      then have e: "compare_candidates t n (c # cs) st = compare_candidates t n cs ?st" and lc: "l = c"
        using False ls by (auto simp: doubleton_eq_iff)
      have "f_id n \<notin> ds_expired_ids ?st" using ex other Cons.prems(2) by simp
      from Cons.IH [OF inv' this] Cons.prems(3) show ?thesis unfolding e using ex lc by auto
    qed
  qed
qed simp

lemma dedup_fold_ok:
  assumes F: "facts_ok F" and "set ns \<subseteq> set F" and "dedup_state_inv F t st"
  shows "dedup_state_inv F t (fold (dedup_new_fact t F) ns st) \<and>
    ds_expired_ids st \<subseteq> ds_expired_ids (fold (dedup_new_fact t F) ns st) \<and>
    (\<forall>n \<in> set ns. \<forall>c \<in> set F. f_id c \<noteq> f_id n \<longrightarrow> \<not> f_is_pinned n \<longrightarrow> \<not> f_is_pinned c \<longrightarrow>
       f_id n \<notin> ds_expired_ids (fold (dedup_new_fact t F) ns st) \<longrightarrow>
       f_id c \<notin> ds_expired_ids (fold (dedup_new_fact t F) ns st) \<longrightarrow> \<not> duplicates t n c)"
  using assms(2,3)
proof (induction ns arbitrary: st)
  case (Cons n ns)
  let ?st = "dedup_new_fact t F n st"
  have one: "dedup_state_inv F t ?st \<and> ds_expired_ids st \<subseteq> ds_expired_ids ?st \<and>
    (\<not> f_is_pinned n \<and> f_id n \<notin> ds_expired_ids ?st \<longrightarrow> (\<forall>c \<in> set F. f_id c \<noteq> f_id n \<longrightarrow>
       \<not> f_is_pinned c \<longrightarrow> f_id c \<notin> ds_expired_ids ?st \<longrightarrow> \<not> duplicates t n c))"
    using compare_candidates_inv [OF F Cons.prems(2), of n F] Cons.prems by (auto simp: dedup_new_fact_def)
  from Cons.IH [of ?st] Cons.prems(1) one show ?case by auto
qed simp

lemma empty_dedup_state_inv: "facts_ok F \<Longrightarrow> dedup_state_inv F t empty_dedup_state"
  by (auto simp: dedup_state_inv_def empty_dedup_state_def live_score_def facts_ok_def intro: fl_le_refl)

lemma compute_dedup_correct:
  assumes F: "facts_ok F" and len: "length F \<le> max_facts"
    and dc_def: "dc = compute_dedup F t max_facts since"
  shows "\<not> dc_skipped dc" "dc_importance_updates dc = []"
    and "distinct (map ex_loser (dc_expirations dc))"
    and "distinct (map fst (dc_score_updates dc))"
    and "fst ` set (dc_score_updates dc) \<subseteq> ex_survivor ` set (dc_expirations dc)"
    and "e \<in> set (dc_expirations dc) \<Longrightarrow> \<exists>l \<in> set F. \<exists>s \<in> set F. f_id l = ex_loser e \<and>
        f_id s = ex_survivor e \<and> pair_ok t l s"
    and "l \<in> set F \<Longrightarrow> f_id l \<in> losers (dc_expirations dc) \<Longrightarrow>
        \<exists>r. represented F (dc_expirations dc) (dc_score_updates dc) l r"
    and "f \<in> set F \<Longrightarrow> \<exists>g \<in> set F. live_score (dc_score_updates dc) f = f_importance_score g \<and>
        (g = f \<or> (f_id g, f_id f) \<in> (absorbed (dc_expirations dc))\<^sup>+)"
    and "n \<in> set (new_facts_since since F) \<Longrightarrow> c \<in> set F \<Longrightarrow> f_id c \<noteq> f_id n \<Longrightarrow>
        \<not> f_is_pinned n \<Longrightarrow> \<not> f_is_pinned c \<Longrightarrow> f_id n \<notin> losers (dc_expirations dc) \<Longrightarrow>
        f_id c \<notin> losers (dc_expirations dc) \<Longrightarrow> \<not> duplicates t n c"
proof -
  let ?st = "fold (dedup_new_fact t F) (new_facts_since since F) empty_dedup_state"
  have "set (new_facts_since since F) \<subseteq> set F" by (auto simp: new_facts_since_def split: option.splits)
  note all = dedup_fold_ok [OF F this empty_dedup_state_inv [OF F, of t]]
  have dc: "dc = \<lparr>dc_skipped = False, dc_expirations = ds_expiries ?st,
      dc_importance_updates = ds_importance_updates ?st, dc_score_updates = ds_running_scores ?st\<rparr>"
    using len by (simp add: dc_def compute_dedup_def Let_def)
  note D = dedup_state_invD [OF conjunct1 [OF all]]
  show "\<not> dc_skipped dc" "dc_importance_updates dc = []"
    "distinct (map ex_loser (dc_expirations dc))" "distinct (map fst (dc_score_updates dc))"
    "fst ` set (dc_score_updates dc) \<subseteq> ex_survivor ` set (dc_expirations dc)"
    using D(2-5) by (simp_all add: dc)
  show "e \<in> set (dc_expirations dc) \<Longrightarrow> \<exists>l \<in> set F. \<exists>s \<in> set F. f_id l = ex_loser e \<and>
        f_id s = ex_survivor e \<and> pair_ok t l s" using D(6) by (simp add: dc)
  show "l \<in> set F \<Longrightarrow> f_id l \<in> losers (dc_expirations dc) \<Longrightarrow>
        \<exists>r. represented F (dc_expirations dc) (dc_score_updates dc) l r" using D(7) by (simp add: dc)
  show "f \<in> set F \<Longrightarrow> \<exists>g \<in> set F. live_score (dc_score_updates dc) f = f_importance_score g \<and>
        (g = f \<or> (f_id g, f_id f) \<in> (absorbed (dc_expirations dc))\<^sup>+)" using D(9) by (simp add: dc)
  show "n \<in> set (new_facts_since since F) \<Longrightarrow> c \<in> set F \<Longrightarrow> f_id c \<noteq> f_id n \<Longrightarrow>
        \<not> f_is_pinned n \<Longrightarrow> \<not> f_is_pinned c \<Longrightarrow> f_id n \<notin> losers (dc_expirations dc) \<Longrightarrow>
        f_id c \<notin> losers (dc_expirations dc) \<Longrightarrow> \<not> duplicates t n c"
    using all D(1) by (simp add: dc)
qed

end
