(* ===== verification/Greedy_Cluster.thy ===== *)
theory Greedy_Cluster
  imports Consolidation
begin

text \<open>
  The clustering pass: \<open>greedy_cluster\<close> ends and returns the connected components of the similarity
  relation, each fact in exactly one of them, and a cluster's summary gets the scope most of its members
  have. The argument is made in the locale \<open>neighbourhood\<close>, which the similarity of embeddings
  satisfies.
\<close>

lemma push_unqueued_distinct:
  "push_unqueued rs Q = (new, Q') \<Longrightarrow> distinct new \<and> (\<forall>r \<in> set new. r < length Q \<and> \<not> Q ! r)"
proof (induction rs Q arbitrary: new Q' rule: push_unqueued.induct)
  case (2 r rs Q)
  show ?case
  proof (cases "r < length Q \<and> \<not> Q ! r")
    case True
    with "2.prems" obtain new' where n: "push_unqueued rs (Q[r := True]) = (new', Q')" "new = r # new'"
      by (auto split: prod.splits)
    from "2.IH"(1) [OF True n(1)] have "distinct new'" "\<forall>x \<in> set new'. x < length Q \<and> \<not> Q[r := True] ! x"
      by simp_all
    moreover have "x < length Q \<and> \<not> Q ! x \<and> x \<noteq> r" if "x \<in> set new'" for x
    proof -
      have "x < length Q" "\<not> Q[r := True] ! x" using calculation(2) that by simp_all
      then show ?thesis using True by (cases "x = r") simp_all
    qed
    ultimately show ?thesis using True n(2) by auto
  next
    case False
    then have "push_unqueued (r # rs) Q = push_unqueued rs Q" by (simp only: push_unqueued.simps if_False)
    with "2.IH"(2) [OF False] "2.prems" show ?thesis by metis
  qed
qed simp

context neighbourhood
begin

definition linked :: "nat \<Rightarrow> nat \<Rightarrow> bool" where
  "linked i j \<longleftrightarrow> i < n \<and> j \<in> set (nbs i)"

lemma linked_sym: "linked i j \<Longrightarrow> linked j i"
  by (auto simp: linked_def intro: nbs_sym nbs_less)

lemma linked_rtranclp_sym: "linked\<^sup>*\<^sup>* i j \<Longrightarrow> linked\<^sup>*\<^sup>* j i"
  by (induction rule: rtranclp_induct) (auto intro: converse_rtranclp_into_rtranclp dest: linked_sym)

lemma closed_reach:
  assumes "s \<in> K" "K \<subseteq> {k. linked\<^sup>*\<^sup>* s k}" "\<And>i j. i \<in> K \<Longrightarrow> linked i j \<Longrightarrow> j \<in> K"
  shows "K = {k. linked\<^sup>*\<^sup>* s k}"
proof -
  have "j \<in> K" if "linked\<^sup>*\<^sup>* s j" for j using that assms(1,3) by induction auto
  with assms(2) show ?thesis by auto
qed

text \<open>The loop that grows one cluster: \<open>A\<close> holds the members of the earlier clusters.\<close>

definition grow_ok :: "nat set \<Rightarrow> nat \<Rightarrow> nat list \<Rightarrow> nat list \<Rightarrow> bool list \<Rightarrow> bool" where
  "grow_ok A s seen pending assigned \<longleftrightarrow>
     length assigned = n \<and> distinct (seen @ pending) \<and> set (seen @ pending) \<subseteq> {..<n} \<and>
     A \<inter> set (seen @ pending) = {} \<and> s \<in> set (seen @ pending) \<and>
     (\<forall>i<n. assigned ! i \<longleftrightarrow> i \<in> A \<or> i \<in> set (seen @ pending)) \<and>
     (\<forall>i \<in> set (seen @ pending). linked\<^sup>*\<^sup>* s i) \<and>
     (\<forall>i \<in> set seen. \<forall>j. linked i j \<longrightarrow> j \<in> set (seen @ pending))"

lemma grow_ok_step:
  assumes ok: "grow_ok A s seen (a # rest) assigned" and A: "\<forall>i \<in> A. \<forall>j. linked i j \<longrightarrow> j \<in> A"
    and push: "push_unqueued (nbs a) assigned = (new, assigned')"
  shows "grow_ok A s (seen @ [a]) (rest @ new) assigned'"
proof -
  have a: "a < n" and len: "length assigned = n" and aA: "a \<notin> A"
    and marks: "\<And>i. i < n \<Longrightarrow> assigned ! i \<longleftrightarrow> i \<in> A \<or> i \<in> set (seen @ a # rest)"
    using ok by (auto simp: grow_ok_def)
  from push_unqueued_effect [OF push] nbs_range [OF a] len
  have eff: "length assigned' = n" "set new = {r \<in> set (nbs a). \<not> assigned ! r}"
    "\<And>i. i < n \<Longrightarrow> assigned' ! i \<longleftrightarrow> assigned ! i \<or> i \<in> set (nbs a)" by auto
  have out: "j \<notin> A" if "j \<in> set (nbs a)" for j
    using that A linked_sym [of a j] a aA by (auto simp: linked_def)
  have new: "distinct new" "set new \<subseteq> {..<n}" "set new \<inter> set (seen @ a # rest) = {}" "A \<inter> set new = {}"
    using push_unqueued_distinct [OF push] len marks eff(2) out by auto
  have all: "set (nbs a) \<subseteq> set (seen @ a # rest) \<union> set new"
    using eff(2) marks out nbs_less [OF a] by auto
  have "linked\<^sup>*\<^sup>* s a" using ok by (simp add: grow_ok_def)
  then have "linked\<^sup>*\<^sup>* s i" if "i \<in> set new" for i
    using that eff(2) a by (elim rtranclp.rtrancl_into_rtrancl) (simp add: linked_def)
  moreover have "assigned' ! i \<longleftrightarrow> i \<in> A \<or> i \<in> set ((seen @ [a]) @ rest @ new)" if "i < n" for i
    using eff(2) eff(3) [OF that] marks [OF that] all by auto
  ultimately show ?thesis
    using ok new all eff(1) by (auto simp: grow_ok_def linked_def)
qed

lemma grow_cluster_ok:
  assumes "grow_ok A s seen pending assigned" and A: "\<forall>i \<in> A. \<forall>j. linked i j \<longrightarrow> j \<in> A"
    and "grow_cluster nbs seen pending assigned = (K, assigned')"
  shows "distinct K \<and> set K = {k. linked\<^sup>*\<^sup>* s k} \<and> set K \<subseteq> {..<n} \<and> A \<inter> set K = {} \<and>
    length assigned' = n \<and> (\<forall>i<n. assigned' ! i \<longleftrightarrow> i \<in> A \<or> i \<in> set K)"
  using assms(1,3)
proof (induction similar \<equiv> nbs seen pending assigned rule: grow_cluster.induct)
  case (1 seen assigned)
  have "set seen = {k. linked\<^sup>*\<^sup>* s k}" by (rule closed_reach) (use 1(1) in \<open>auto simp: grow_ok_def\<close>)
  moreover have "seen = K" "assigned = assigned'" using 1 by simp_all
  ultimately show ?case using 1(1) by (simp add: grow_ok_def)
next
  case (2 seen anchor rest assigned)
  obtain new marks where p: "push_unqueued (nbs anchor) assigned = (new, marks)" by fastforce
  have "grow_ok A s (seen @ [anchor]) (rest @ new) marks" by (rule grow_ok_step [OF 2(2) A p])
  note IH = 2(1) [OF p [symmetric] this]
  have "grow_cluster nbs (seen @ [anchor]) (rest @ new) marks = (K, assigned')"
    using 2(3) by (simp only: grow_cluster.simps p prod.case)
  then show ?case by (rule IH)
qed

definition clusters_ok :: "nat \<Rightarrow> bool list \<times> nat list list \<Rightarrow> bool" where
  "clusters_ok m = (\<lambda>(assigned, cs). length assigned = n \<and> distinct (concat cs) \<and>
     set (concat cs) \<subseteq> {..<n} \<and> (\<forall>i<n. assigned ! i \<longleftrightarrow> i \<in> set (concat cs)) \<and>
     (\<forall>K \<in> set cs. \<exists>s<n. set K = {k. linked\<^sup>*\<^sup>* s k}) \<and> (\<forall>i<m. assigned ! i))"

lemma start_cluster_ok:
  assumes ok: "clusters_ok m st" and m: "m < n"
  shows "clusters_ok (Suc m) (start_cluster nbs m st)"
proof (cases st)
  case (Pair assigned cs)
  show ?thesis
  proof (cases "assigned ! m")
    case True
    then show ?thesis using ok by (auto simp: clusters_ok_def start_cluster_def Pair less_Suc_eq)
  next
    case False
    let ?A = "set (concat cs)"
    have A: "\<forall>i \<in> ?A. \<forall>j. linked i j \<longrightarrow> j \<in> ?A"
    proof (intro ballI allI impI)
      fix i j assume i: "i \<in> ?A" and l: "linked i j"
      from i obtain K where K: "K \<in> set cs" "i \<in> set K" by auto
      with ok obtain s where "set K = {k. linked\<^sup>*\<^sup>* s k}" by (auto simp: clusters_ok_def Pair)
      with K l have "j \<in> set K" by auto
      with K(1) show "j \<in> ?A" by auto
    qed
    have "grow_ok ?A m [] [m] (assigned[m := True])"
      using ok m False by (auto simp: clusters_ok_def grow_ok_def Pair nth_list_update)
    moreover obtain K assigned' where g: "grow_cluster nbs [] [m] (assigned[m := True]) = (K, assigned')"
      by fastforce
    ultimately have K: "distinct K" "set K = {k. linked\<^sup>*\<^sup>* m k}" "set K \<subseteq> {..<n}" "?A \<inter> set K = {}"
      "length assigned' = n" "\<forall>i<n. assigned' ! i \<longleftrightarrow> i \<in> ?A \<or> i \<in> set K"
      using grow_cluster_ok [OF _ A g, of m] by blast+
    have e: "start_cluster nbs m st = (assigned', cs @ [K])"
      using False g by (simp add: start_cluster_def Pair)
    have "\<forall>i < Suc m. assigned' ! i"
    proof (intro allI impI)
      fix i assume i: "i < Suc m"
      show "assigned' ! i"
      proof (cases "i = m")
        case True
        then show ?thesis using K(2,6) m by auto
      next
        case other: False
        then have "i < m" "i < n" using i m by simp_all
        then show ?thesis using ok K(6) by (auto simp: clusters_ok_def Pair)
      qed
    qed
    then have c5: "\<forall>i < Suc m. assigned' ! i" .
    have c1: "distinct (concat (cs @ [K]))" and s: "set (concat (cs @ [K])) = ?A \<union> set K"
      using ok K(1,4) by (auto simp: clusters_ok_def Pair)
    have c2: "set (concat (cs @ [K])) \<subseteq> {..<n}"
      unfolding s using ok K(3) by (simp add: clusters_ok_def Pair)
    have c3: "\<forall>i<n. assigned' ! i \<longleftrightarrow> i \<in> set (concat (cs @ [K]))"
      using K(6) unfolding s by blast
    have c4: "\<forall>M \<in> set (cs @ [K]). \<exists>s<n. set M = {k. linked\<^sup>*\<^sup>* s k}"
      using ok K(2) m by (auto simp: clusters_ok_def Pair)
    show ?thesis unfolding e clusters_ok_def prod.case by (intro conjI K(5) c1 c2 c3 c4 c5)
  qed
qed

lemma all_clusters_ok:
  "m \<le> n \<Longrightarrow> clusters_ok m (fold (start_cluster nbs) [0..<m] (replicate n False, []))"
proof (induction m)
  case 0
  then show ?case by (simp add: clusters_ok_def)
next
  case (Suc m)
  then show ?case by (simp add: start_cluster_ok)
qed

lemma components:
  assumes "fold (start_cluster nbs) [0..<n] (replicate n False, []) = (assigned, cs)"
  shows "distinct (concat cs)" "set (concat cs) = {..<n}" "[] \<notin> set cs"
    and "i < n \<Longrightarrow> j < n \<Longrightarrow> (\<exists>K \<in> set cs. i \<in> set K \<and> j \<in> set K) \<longleftrightarrow> linked\<^sup>*\<^sup>* i j"
proof -
  have ok: "clusters_ok n (assigned, cs)" using all_clusters_ok [of n] assms by simp
  then show "distinct (concat cs)" "set (concat cs) = {..<n}" by (auto simp: clusters_ok_def)
  have K: "\<exists>s<n. set K = {k. linked\<^sup>*\<^sup>* s k}" if "K \<in> set cs" for K using ok that by (auto simp: clusters_ok_def)
  then show "[] \<notin> set cs" by fastforce
  assume ij: "i < n" "j < n"
  show "(\<exists>K \<in> set cs. i \<in> set K \<and> j \<in> set K) \<longleftrightarrow> linked\<^sup>*\<^sup>* i j"
  proof
    assume "\<exists>K \<in> set cs. i \<in> set K \<and> j \<in> set K"
    then obtain K s where "i \<in> set K" "j \<in> set K" "set K = {k. linked\<^sup>*\<^sup>* s k}" using K by blast
    then show "linked\<^sup>*\<^sup>* i j" using linked_rtranclp_sym [of s i] by auto
  next
    assume l: "linked\<^sup>*\<^sup>* i j"
    from ij ok have "i \<in> set (concat cs)" by (auto simp: clusters_ok_def)
    then obtain M where M: "M \<in> set cs" "i \<in> set M" by auto
    with K obtain s where "set M = {k. linked\<^sup>*\<^sup>* s k}" by blast
    with M l have "j \<in> set M" by auto
    with M show "\<exists>K \<in> set cs. i \<in> set K \<and> j \<in> set K" by blast
  qed
qed

end

interpretation similar: neighbourhood "similar_to facts t" "length facts" for facts t
  by unfold_locales (auto simp: similar_to_def cosine_similarity_commute)

text \<open>The relation the clusters are the components of.\<close>

definition more_similar :: "fact list \<Rightarrow> fl \<Rightarrow> nat \<Rightarrow> nat \<Rightarrow> bool" where
  "more_similar facts t i j \<longleftrightarrow> i < length facts \<and> j < length facts \<and>
     fl_lt t (cosine_similarity (f_embedding (facts ! i)) (f_embedding (facts ! j)))"

lemma linked_similar: "similar.linked facts t = more_similar facts t"
  by (intro ext) (auto simp: similar.linked_def more_similar_def similar_to_def)

lemma greedy_cluster_components:
  shows "distinct (concat (greedy_cluster facts t))"
    and "set (concat (greedy_cluster facts t)) = {..<length facts}" and "[] \<notin> set (greedy_cluster facts t)"
    and "i < length facts \<Longrightarrow> j < length facts \<Longrightarrow>
      (\<exists>K \<in> set (greedy_cluster facts t). i \<in> set K \<and> j \<in> set K) \<longleftrightarrow> (more_similar facts t)\<^sup>*\<^sup>* i j"
proof -
  obtain assigned cs where f: "fold (start_cluster (similar_to facts t)) [0..<length facts]
      (replicate (length facts) False, []) = (assigned, cs)" by fastforce
  then have "greedy_cluster facts t = cs" by (simp add: greedy_cluster_def)
  with similar.components [OF f, unfolded linked_similar]
  show "distinct (concat (greedy_cluster facts t))"
    "set (concat (greedy_cluster facts t)) = {..<length facts}" "[] \<notin> set (greedy_cluster facts t)"
    "i < length facts \<Longrightarrow> j < length facts \<Longrightarrow>
      (\<exists>K \<in> set (greedy_cluster facts t). i \<in> set K \<and> j \<in> set K) \<longleftrightarrow> (more_similar facts t)\<^sup>*\<^sup>* i j"
    by simp_all
qed

subsection \<open>The vote on the scope\<close>

definition vote_le :: "int \<times> nat \<Rightarrow> int \<times> nat \<Rightarrow> bool" where
  "vote_le a b \<longleftrightarrow> snd a < snd b \<or> (snd a = snd b \<and> fst b \<le> fst a)"

lemma vote_cmp: "scope_vote_cmp a b = OGreater \<longleftrightarrow> \<not> vote_le a b"
  by (auto simp: scope_vote_cmp_def vote_le_def ord_cmp_def)

definition better_vote :: "int \<times> nat \<Rightarrow> int \<times> nat \<Rightarrow> int \<times> nat" where
  "better_vote y best = (if scope_vote_cmp best y = OGreater then best else y)"

lemma vote_max:
  "fold better_vote xs x \<in> set (x # xs) \<and> (\<forall>y \<in> set (x # xs). vote_le y (fold better_vote xs x))"
proof (induction xs arbitrary: x)
  case Nil
  then show ?case by (simp add: vote_le_def)
next
  case (Cons y ys)
  have b: "vote_le x (better_vote y x)" "vote_le y (better_vote y x)" "better_vote y x \<in> {x, y}"
    by (auto simp: better_vote_def vote_cmp vote_le_def)
  have tr: "vote_le p q \<Longrightarrow> vote_le q r \<Longrightarrow> vote_le p r" for p q r by (auto simp: vote_le_def)
  let ?m = "fold better_vote ys (better_vote y x)"
  from Cons.IH [of "better_vote y x"] have m: "?m \<in> set (better_vote y x # ys)"
    "vote_le (better_vote y x) ?m" "\<forall>z \<in> set ys. vote_le z ?m" by simp_all
  then have "vote_le x ?m" "vote_le y ?m" using b(1,2) tr by blast+
  moreover have "?m \<in> set (x # y # ys)" using m(1) b(3) by auto
  ultimately show ?case using m(3) by simp
qed

lemma count_scopes:
  "map_of (fold count_scope ss counts) s =
     (if count_list ss s = 0 then map_of counts s
      else Some ((case map_of counts s of None \<Rightarrow> 0 | Some c \<Rightarrow> c) + count_list ss s))"
  by (induction ss arbitrary: counts) (auto simp: count_scope_def update_conv')

lemma count_scopes_set:
  "distinct (map fst counts) \<Longrightarrow> distinct (map fst (fold count_scope ss counts))"
  by (induction ss arbitrary: counts) (auto simp: count_scope_def distinct_update)

lemma majority_scope_correct:
  assumes "scopes \<noteq> []"
  shows "majority_scope scopes \<in> set scopes"
    and "s \<in> set scopes \<Longrightarrow> count_list scopes s < count_list scopes (majority_scope scopes) \<or>
      (count_list scopes s = count_list scopes (majority_scope scopes) \<and> majority_scope scopes \<le> s)"
proof -
  let ?counts = "fold count_scope scopes []"
  have d: "distinct (map fst ?counts)" by (rule count_scopes_set) simp
  have mem: "(i, c) \<in> set ?counts \<longleftrightarrow> i \<in> set scopes \<and> c = count_list scopes i" for i c
    using map_of_eq_Some_iff [OF d, of i c] count_scopes [of scopes "[]" i]
    by (auto simp: count_list_0_iff split: if_splits)
  from assms have "(hd scopes, count_list scopes (hd scopes)) \<in> set ?counts" by (simp add: mem)
  then obtain x xs where xs: "?counts = x # xs" by (cases ?counts) auto
  obtain i c where m: "fold better_vote xs x = (i, c)" by fastforce
  then have mm: "majority_scope scopes = i"
    by (simp add: majority_scope_def xs better_vote_def [abs_def])
  from vote_max [of xs x] m xs have w: "(i, c) \<in> set ?counts" "\<forall>y \<in> set ?counts. vote_le y (i, c)"
    by simp_all
  from w(1) have ic: "i \<in> set scopes" "c = count_list scopes i" by (simp_all add: mem)
  show "majority_scope scopes \<in> set scopes" using ic mm by simp
  assume "s \<in> set scopes"
  then have "(s, count_list scopes s) \<in> set ?counts" by (simp add: mem)
  with w(2) show "count_list scopes s < count_list scopes (majority_scope scopes) \<or>
      (count_list scopes s = count_list scopes (majority_scope scopes) \<and> majority_scope scopes \<le> s)"
    unfolding mm using ic(2) by (auto simp: vote_le_def)
qed

end
