(* ===== verification/Consolidation_Apply.thy ===== *)
theory Consolidation_Apply
  imports Dedup Greedy_Cluster
begin

text \<open>
  Applying a plan: what the transaction does to the tables, also when they changed since the
  snapshot; the invariants it keeps; and the primitive with its rebuilt graph.
\<close>

subsection \<open>Expiring the losers\<close>

definition effective :: "(fact_id \<rightharpoonup> bool) \<Rightarrow> db \<Rightarrow> expiry \<Rightarrow> bool" where
  \<comment> \<open>the survivor was active when the transaction began, and the loser still is\<close>
  "effective live D e \<longleftrightarrow> live (ex_survivor e) = Some True \<and> is_active D (ex_loser e)"

lemma expire_loser_ok:
  obtains D' where
    "expire_loser live now e a D = (Inr
       (if live (ex_survivor e) \<noteq> Some True then a\<lparr>da_survivor_lost := True\<rparr>
        else if is_active D (ex_loser e) then a\<lparr>da_expired := da_expired a @ [ex_loser e]\<rparr> else a), D')"
    "\<And>j. is_active D' j \<longleftrightarrow> is_active D j \<and> \<not> (effective live D e \<and> j = ex_loser e)"
    "active_edges D' = (if effective live D e then filter (\<lambda>x. \<not> edge_touches (ex_loser e) x) (active_edges D)
       else active_edges D)"
    "map f_id (d_facts D') = map f_id (d_facts D)"
    "map f_importance_score (d_facts D') = map f_importance_score (d_facts D)"
proof (cases "effective live D e")
  case True
  then have act: "is_active D (ex_loser e)" and lv: "live (ex_survivor e) = Some True"
    by (simp_all add: effective_def)
  obtain D' where D': "expire_with_edges now (ex_loser e) D = (Inr (), D')"
    "\<And>j. is_active D' j \<longleftrightarrow> is_active D j \<and> j \<noteq> ex_loser e"
    "active_edges D' = filter (\<lambda>x. \<not> edge_touches (ex_loser e) x) (active_edges D)"
    "map f_id (d_facts D') = map f_id (d_facts D)"
    "map f_importance_score (d_facts D') = map f_importance_score (d_facts D)"
    using expire_with_edges_ok [OF act, of now] by blast
  obtain r1 D1 where e1: "fact_expire (ex_loser e) now D = (r1, D1)" by fastforce
  have r1: "r1 = Inr ()" using fact_expire_ok(1) [OF e1] act by simp
  obtain r2 D2 where e2: "expire_by_fact (ex_loser e) now D1 = (r2, D2)" by fastforce
  obtain n where r2: "r2 = Inr n" using expire_by_fact_ok(3) [OF e2] by blast
  have "D' = D2" using D'(1) e1 e2 r1 r2 by (simp add: expire_with_edges_def op_bind_def)
  then have "expire_loser live now e a D = (Inr (a\<lparr>da_expired := da_expired a @ [ex_loser e]\<rparr>), D')"
    using e1 e2 r1 r2 lv by (simp add: expire_loser_def op_bind_def)
  with D' True act lv show ?thesis by (intro that [of D']) simp_all
next
  case False
  show ?thesis
  proof (cases "live (ex_survivor e) = Some True")
    case True
    with False have na: "\<not> is_active D (ex_loser e)" by (simp add: effective_def)
    obtain r1 D1 where e1: "fact_expire (ex_loser e) now D = (r1, D1)" by fastforce
    then have "r1 = Inl (fact_not_found (ex_loser e))" "D1 = D" using fact_expire_ok [OF e1] na by simp_all
    with True na e1 False show ?thesis
      by (intro that [of D]) (simp_all add: expire_loser_def fact_not_found_def)
  next
    case dead: False
    with False show ?thesis by (intro that [of D]) (simp_all add: expire_loser_def)
  qed
qed

lemma expire_losers_ok:
  assumes "distinct (map ex_loser es)"
  shows "\<exists>a' D'. op_fold (expire_loser live now) es a D = (Inr a', D') \<and>
    da_expired a' = da_expired a @ map ex_loser (filter (effective live D) es) \<and>
    (da_survivor_lost a' \<longleftrightarrow> da_survivor_lost a \<or> (\<exists>e \<in> set es. live (ex_survivor e) \<noteq> Some True)) \<and>
    (\<forall>j. is_active D' j \<longleftrightarrow> is_active D j \<and> j \<notin> ex_loser ` set (filter (effective live D) es)) \<and>
    active_edges D' = filter (\<lambda>x. \<forall>i \<in> ex_loser ` set (filter (effective live D) es). \<not> edge_touches i x)
      (active_edges D) \<and>
    map f_id (d_facts D') = map f_id (d_facts D) \<and>
    map f_importance_score (d_facts D') = map f_importance_score (d_facts D)"
  using assms
proof (induction es arbitrary: a D)
  case (Cons e es)
  define a1 where "a1 = (if live (ex_survivor e) \<noteq> Some True then a\<lparr>da_survivor_lost := True\<rparr>
        else if is_active D (ex_loser e) then a\<lparr>da_expired := da_expired a @ [ex_loser e]\<rparr> else a)"
  obtain D1 where s: "expire_loser live now e a D = (Inr a1, D1)"
    and act: "\<And>j. is_active D1 j \<longleftrightarrow> is_active D j \<and> \<not> (effective live D e \<and> j = ex_loser e)"
    and ed: "active_edges D1 = (if effective live D e
      then filter (\<lambda>x. \<not> edge_touches (ex_loser e) x) (active_edges D) else active_edges D)"
    and fr: "map f_id (d_facts D1) = map f_id (d_facts D)"
      "map f_importance_score (d_facts D1) = map f_importance_score (d_facts D)"
    using expire_loser_ok [of live now e a D] unfolding a1_def by blast
  have eff: "filter (effective live D1) es = filter (effective live D) es"
    using Cons.prems act by (intro filter_cong refl) (auto simp: effective_def image_iff)
  from Cons.IH [of a1 D1] Cons.prems obtain a' D' where IH: "op_fold (expire_loser live now) es a1 D1 = (Inr a', D')"
    "da_expired a' = da_expired a1 @ map ex_loser (filter (effective live D) es)"
    "da_survivor_lost a' \<longleftrightarrow> da_survivor_lost a1 \<or> (\<exists>e \<in> set es. live (ex_survivor e) \<noteq> Some True)"
    "\<And>j. is_active D' j \<longleftrightarrow> is_active D1 j \<and> j \<notin> ex_loser ` set (filter (effective live D) es)"
    "active_edges D' = filter (\<lambda>x. \<forall>i \<in> ex_loser ` set (filter (effective live D) es). \<not> edge_touches i x)
      (active_edges D1)"
    "map f_id (d_facts D') = map f_id (d_facts D1)"
    "map f_importance_score (d_facts D') = map f_importance_score (d_facts D1)"
    unfolding eff by auto
  have "op_fold (expire_loser live now) (e # es) a D = (Inr a', D')"
    using s IH(1) by (simp add: op_bind_def)
  moreover have "da_expired a' = da_expired a @ map ex_loser (filter (effective live D) (e # es))"
    using IH(2) by (auto simp: a1_def effective_def)
  moreover have "da_survivor_lost a' \<longleftrightarrow> da_survivor_lost a \<or> (\<exists>x \<in> set (e # es). live (ex_survivor x) \<noteq> Some True)"
    using IH(3) by (auto simp: a1_def)
  moreover have "is_active D' j \<longleftrightarrow> is_active D j \<and> j \<notin> ex_loser ` set (filter (effective live D) (e # es))" for j
    using IH(4) [of j] act [of j] by auto
  moreover have "active_edges D' = filter (\<lambda>x. \<forall>i \<in> ex_loser ` set (filter (effective live D) (e # es)).
      \<not> edge_touches i x) (active_edges D)"
    using IH(5) ed by (auto simp: ball_Un intro: filter_cong)
  moreover have "map f_id (d_facts D') = map f_id (d_facts D)"
    "map f_importance_score (d_facts D') = map f_importance_score (d_facts D)"
    by (simp_all only: IH(6,7) fr)
  ultimately show ?case by (intro exI [of _ a'] exI [of _ D'] conjI allI)
qed simp

subsection \<open>The deduplication of the store\<close>

definition dedup_plan_ok :: "dedup_computed \<Rightarrow> bool" where
  "dedup_plan_ok dc \<longleftrightarrow> dc_importance_updates dc = [] \<and> distinct (map ex_loser (dc_expirations dc)) \<and>
     distinct (map fst (dc_score_updates dc)) \<and> (\<forall>(i, v) \<in> set (dc_score_updates dc). fl_is_finite v)"

definition folded :: "expiry list \<Rightarrow> db \<Rightarrow> fact_id set" where
  \<comment> \<open>what applying the expirations to a store expires\<close>
  "folded es D = {ex_loser e |e. e \<in> set es \<and> is_active D (ex_survivor e) \<and> is_active D (ex_loser e)}"

lemma apply_dedup_ok:
  assumes ok: "dedup_plan_ok dc"
  shows "\<exists>a D'. apply_dedup dc now D = (Inr a, D') \<and>
    set (da_expired a) = folded (dc_expirations dc) D \<and> distinct (da_expired a) \<and>
    (da_survivor_lost a \<longleftrightarrow> (\<exists>e \<in> set (dc_expirations dc). \<not> is_active D (ex_survivor e))) \<and>
    (\<forall>j. is_active D' j \<longleftrightarrow> is_active D j \<and> j \<notin> folded (dc_expirations dc) D) \<and>
    active_edges D' = filter (\<lambda>x. \<forall>i \<in> folded (dc_expirations dc) D. \<not> edge_touches i x) (active_edges D) \<and>
    map f_id (d_facts D') = map f_id (d_facts D) \<and>
    map f_importance_score (d_facts D') = map (live_score (dc_score_updates dc)) (d_facts D)"
proof -
  let ?es = "dc_expirations dc"
  obtain D1 where b: "update_importance_scores_bulk (dc_score_updates dc) D = (Inr (), D1)"
    "\<And>j. is_active D1 j = is_active D j" "active_edges D1 = active_edges D"
    "map f_id (d_facts D1) = map f_id (d_facts D)"
    "map f_importance_score (d_facts D1) = map (live_score (dc_score_updates dc)) (d_facts D)"
  proof (cases "dc_score_updates dc = []")
    case True
    then show ?thesis by (intro that [of D])
        (simp_all add: update_importance_scores_bulk_def live_score_def)
  next
    case False
    let ?m = "map_of (dc_score_updates dc)"
    let ?D = "update_facts (\<lambda>f. ?m (f_id f) \<noteq> None) (\<lambda>f. f\<lparr>f_importance_score := the (?m (f_id f))\<rparr>) D"
    have "nonfinite_score (dc_score_updates dc) = None"
      using ok by (simp add: nonfinite_score_None dedup_plan_ok_def)
    then have "update_importance_scores_bulk (dc_score_updates dc) D = (Inr (), ?D)"
      using False ok map_of_rev_distinct [of "dc_score_updates dc"]
      by (simp add: update_importance_scores_bulk_def dedup_plan_ok_def)
    moreover have "is_active ?D j = is_active D j" for j
      by (rule is_active_update) (simp add: is_active_row_def)
    ultimately show ?thesis
      by (intro that [of ?D]) (simp_all add: update_facts_ids,
          auto simp: update_facts_def live_score_def split: option.splits)
  qed
  let ?live = "survivor_liveness ?es D1"
  have live: "?live (ex_survivor e) = Some (is_active D (ex_survivor e))" if "e \<in> set ?es" for e
    using that b(2) by (simp add: survivor_liveness_def)
  from ok have "distinct (map ex_loser ?es)" by (simp add: dedup_plan_ok_def)
  from expire_losers_ok [OF this, of ?live now "\<lparr>da_expired = [], da_survivor_lost = False\<rparr>" D1] obtain a D'
    where f: "op_fold (expire_loser ?live now) ?es \<lparr>da_expired = [], da_survivor_lost = False\<rparr> D1 = (Inr a, D')"
      "da_expired a = map ex_loser (filter (effective ?live D1) ?es)"
      "da_survivor_lost a \<longleftrightarrow> (\<exists>e \<in> set ?es. ?live (ex_survivor e) \<noteq> Some True)"
      "\<And>j. is_active D' j \<longleftrightarrow> is_active D1 j \<and> j \<notin> ex_loser ` set (filter (effective ?live D1) ?es)"
      "active_edges D' = filter (\<lambda>x. \<forall>i \<in> ex_loser ` set (filter (effective ?live D1) ?es).
         \<not> edge_touches i x) (active_edges D1)"
      "map f_id (d_facts D') = map f_id (d_facts D1)"
      "map f_importance_score (d_facts D') = map f_importance_score (d_facts D1)"
    by auto
  have F: "ex_loser ` set (filter (effective ?live D1) ?es) = folded ?es D"
    using live b(2) by (auto simp: folded_def effective_def)
  have "apply_dedup dc now D = (Inr a, D')"
    using ok b(1) f(1) by (simp add: apply_dedup_def dedup_plan_ok_def op_bind_def)
  moreover have "set (da_expired a) = folded ?es D" using F by (simp add: f(2))
  moreover have "distinct (da_expired a)" using ok by (simp add: f(2) dedup_plan_ok_def distinct_map_filter)
  moreover have "da_survivor_lost a \<longleftrightarrow> (\<exists>e \<in> set ?es. \<not> is_active D (ex_survivor e))"
    using live by (auto simp: f(3))
  ultimately show ?thesis using f(4-7) b(2-5) unfolding F by (intro exI [of _ a] exI [of _ D'] conjI) auto
qed

lemma plan_has_representatives:
  assumes d: "distinct (map ex_loser es)"
    and ends: "\<forall>i \<in> losers es. \<exists>r. (i, r) \<in> (absorbed es)\<^sup>+ \<and> r \<notin> losers es"
    and i: "i \<in> folded es D"
  shows "\<exists>r. (i, r) \<in> (absorbed es)\<^sup>+ \<and> is_active D r \<and> r \<notin> folded es D"
proof -
  have fd: "folded es D \<subseteq> losers es" by (auto simp: folded_def losers_def)
  have next_active: "is_active D s" if "(i, s) \<in> absorbed es" "i \<in> folded es D" for i s
    using that d by (auto simp: absorbed_def folded_def distinct_map inj_on_def)
  from i fd ends obtain r where r: "(i, r) \<in> (absorbed es)\<^sup>+" "r \<notin> losers es" by blast
  from r(1) i show ?thesis
  proof (induction rule: converse_trancl_induct)
    case (base y)
    then have "is_active D r" using next_active by blast
    with base r(2) fd show ?case by blast
  next
    case (step y s)
    have "is_active D s" using next_active step.hyps(1) step.prems by blast
    show ?case
    proof (cases "s \<in> folded es D")
      case True
      from step.IH [OF True] step.hyps(1) show ?thesis by (blast intro: trancl_into_trancl2)
    next
      case False
      with \<open>is_active D s\<close> step.hyps(1) show ?thesis by blast
    qed
  qed
qed

subsection \<open>Preserved invariants\<close>

lemma keeps_expire_loser:
  assumes "keeps I (fact_expire (ex_loser e) now)" "keeps I (expire_by_fact (ex_loser e) now)"
  shows "keeps I (expire_loser live now e a)"
proof (rule keepsI)
  fix D r D' assume I: "I D" and r: "expire_loser live now e a D = (r, D')"
  obtain r1 D1 where e: "fact_expire (ex_loser e) now D = (r1, D1)" by fastforce
  note I1 = keepsD [OF assms(1) I e]
  obtain r2 D2 where e2: "expire_by_fact (ex_loser e) now D1 = (r2, D2)" by fastforce
  note I2 = keepsD [OF assms(2) I1 e2]
  have "D' = D \<or> D' = D1 \<or> D' = D2"
    using r e e2 by (auto simp: expire_loser_def op_bind_def split: if_splits sum.splits memory_error.splits)
  with I I1 I2 show "I D'" by blast
qed

lemma keeps_apply_dedup:
  assumes "\<And>i. keeps I (fact_expire i now)" "\<And>i. keeps I (expire_by_fact i now)"
    and "\<And>i v. keeps I (update_base_importance i v)" "\<And>s. keeps I (update_importance_scores_bulk s)"
  shows "keeps I (apply_dedup dc now)"
  unfolding apply_dedup_def split_def by (intro keeps_intros keeps_expire_loser assms)

lemma log_frame_bulk [keeps_intros]: "keeps (log_frame evs n F G) (update_importance_scores_bulk scores)"
  by (rule keepsI) (auto simp: update_importance_scores_bulk_def Let_def split: if_splits option.splits
      intro!: log_frame_update_facts)

lemma log_frame_identity [keeps_intros]: "keeps (log_frame evs n F G) (record_if_absent fp k)"
  by (rule keepsI) (auto simp: record_if_absent_def log_frame_def fact_ids_of_def scope_ids_of_def
      split: option.splits if_splits sum.splits)

lemma keeps_on_log:
  assumes "keeps (log_inv edim) m" "\<And>S. keeps (\<lambda>L. scope_ids_of (lg_db L) \<supseteq> S) m"
  shows "keeps (summary_inv edim) (on_log m)"
proof (rule keepsI)
  fix S r S' assume inv: "summary_inv edim S" and r: "on_log m S = (r, S')"
  then obtain L where L: "m (su_log S) = (r, L)" and S': "S' = S\<lparr>su_log := L\<rparr>"
    by (auto simp: on_log_def split: prod.splits)
  have "log_inv edim L" using keepsD [OF assms(1) _ L] inv by (simp add: summary_inv_def)
  moreover have "scope_ids_of (lg_db L) \<supseteq> scope_ids_of (su_db S)"
    by (rule keepsD [OF assms(2) _ L]) simp
  ultimately show "summary_inv edim S'"
    using inv by (auto simp: summary_inv_def list_all_iff summary_row_ok_def S')
qed

lemma keeps_on_facts:
  assumes "keeps (db_inv edim) m" "\<And>evs n F G. keeps (log_frame evs n F G) m"
  shows "keeps (summary_inv edim) (on_facts m)"
  unfolding on_facts_def
proof (rule keeps_on_log)
  show "keeps (log_inv edim) (on_tables m)" by (rule keeps_on_tables [OF assms])
  show "keeps (\<lambda>L. scope_ids_of (lg_db L) \<supseteq> S) (on_tables m)" for S
  proof (rule keepsI)
    fix L r L' assume s: "scope_ids_of (lg_db L) \<supseteq> S" and r: "on_tables m L = (r, L')"
    then obtain D where D: "m (lg_db L) = (r, D)" "L' = L\<lparr>lg_db := D\<rparr>"
      by (auto simp: on_tables_def split: prod.splits)
    from keepsD [OF assms(2) log_frame_self D(1)] s D(2) show "scope_ids_of (lg_db L') \<supseteq> S"
      by (auto simp: log_frame_def)
  qed
qed

lemma keeps_apply_plan: "keeps (summary_inv edim) (apply_plan rfc edim plan)"
proof -
  have a: "keeps (summary_inv edim) (on_facts (apply_dedup dc now))" for dc now
    by (intro keeps_on_facts keeps_apply_dedup keeps_intros)
  have b: "keeps (summary_inv edim) (on_facts (record_if_absent fp edim))" for fp
    by (intro keeps_on_facts keeps_intros)
  have c: "keeps (summary_inv edim) (on_log (set_config k v))" for k v
    by (rule keeps_on_log, rule keeps_set_config) (rule keepsI, auto simp: set_config_def)
  show ?thesis
    unfolding apply_plan_def apply_clusters_def apply_global_def insert_summary_def Let_def
    by (intro keeps_intros a b c)
qed

subsection \<open>The transaction\<close>

definition summary_fits :: "nat \<Rightarrow> db \<Rightarrow> new_summary \<Rightarrow> bool" where
  "summary_fits edim D s \<longleftrightarrow> length (ns_embedding s) = edim \<and> ns_scope_id s \<in> scope_ids_of D"

definition identity_fits :: "nat \<Rightarrow> db \<Rightarrow> fingerprint \<Rightarrow> bool" where
  "identity_fits edim D fp \<longleftrightarrow> (case d_identity D of
      None \<Rightarrow> fp_dim fp = edim | Some stored \<Rightarrow> ensure_match stored fp = Inr ())"

definition plan_fits :: "nat \<Rightarrow> db \<Rightarrow> consolidation_plan \<Rightarrow> bool" where
  "plan_fits edim D plan \<longleftrightarrow> dedup_plan_ok (pl_dedup plan) \<and>
     (\<forall>s \<in> set (pl_cluster_summaries plan). summary_fits edim D s \<and> ns_level s = ClusterLevel) \<and>
     (\<forall>s. pl_global_summary plan = Some s \<longrightarrow> summary_fits edim D s \<and> ns_level s = GlobalLevel) \<and>
     (\<forall>fp. pl_embedding_fingerprint plan = Some fp \<longrightarrow> identity_fits edim D fp)"

definition content_of :: "summary \<Rightarrow> new_summary" where
  "content_of s = \<lparr>ns_content = s_content s, ns_embedding = s_embedding s, ns_level = s_level s,
     ns_source_fact_ids = s_source_fact_ids s, ns_created_at = s_created_at s, ns_scope_id = s_scope_id s\<rparr>"

lemma content_of_new [simp]: "content_of (new_summary_row i ns) = ns"
  by (simp add: content_of_def new_summary_row_def)

lemma insert_summaries:
  assumes "\<forall>s \<in> set ss. summary_fits edim (su_db S) s"
  shows "\<exists>rows S'. op_each (insert_summary edim) ss S = (Inr (), S') \<and>
    su_log S' = su_log S \<and> su_summaries S' = su_summaries S @ rows \<and> map content_of rows = ss"
  using assms
proof (induction ss arbitrary: S)
  case (Cons s ss)
  let ?S = "S\<lparr>su_summaries := su_summaries S @ [new_summary_row (su_summary_seq S + 1) s],
    su_summary_seq := su_summary_seq S + 1\<rparr>"
  have i: "insert_summary edim s S = (Inr (), ?S)"
    using Cons.prems by (simp add: insert_summary_def op_bind_def summary_insert_def summary_fits_def Let_def)
  from Cons.IH [of ?S] Cons.prems obtain rows S' where
    "op_each (insert_summary edim) ss ?S = (Inr (), S')"
    "su_log S' = su_log S" "su_summaries S' = su_summaries ?S @ rows" "map content_of rows = ss"
    by auto
  then show ?case
    by (intro exI [of _ "new_summary_row (su_summary_seq S + 1) s # rows"] exI [of _ S'])
      (simp add: op_bind_def i)
qed simp

lemma delete_by_level_eq: "delete_by_level l S = (Inr (length (filter (\<lambda>s. s_level s = l) (su_summaries S))),
    S\<lparr>su_summaries := filter (\<lambda>s. s_level s \<noteq> l) (su_summaries S)\<rparr>)"
  by (simp add: delete_by_level_def Let_def)

definition at_level :: "consolidation_level \<Rightarrow> summary_store \<Rightarrow> new_summary list" where
  "at_level l S = map content_of (filter (\<lambda>s. s_level s = l) (su_summaries S))"

lemma at_level_content: "at_level l S = filter (\<lambda>s. ns_level s = l) (map content_of (su_summaries S))"
  by (simp add: at_level_def filter_map o_def content_of_def)

lemma apply_clusters_ok:
  assumes "\<forall>s \<in> set ss. summary_fits edim (su_db S) s \<and> ns_level s = ClusterLevel"
  shows "\<exists>S'. apply_clusters edim ss S = (Inr (), S') \<and> su_log S' = su_log S \<and>
    at_level ClusterLevel S' = ss \<and> (\<forall>l. l \<noteq> ClusterLevel \<longrightarrow> at_level l S' = at_level l S)"
proof -
  let ?S = "S\<lparr>su_summaries := filter (\<lambda>s. s_level s \<noteq> ClusterLevel) (su_summaries S)\<rparr>"
  note d = delete_by_level_eq [of ClusterLevel S]
  from insert_summaries [of ss edim ?S] assms obtain rows S' where
    i: "op_each (insert_summary edim) ss ?S = (Inr (), S')"
    "su_log S' = su_log S" "su_summaries S' = su_summaries ?S @ rows" "map content_of rows = ss" by auto
  have "filter (\<lambda>s. ns_level s = l) ss = (if l = ClusterLevel then ss else [])" for l
    using assms by (auto simp: filter_empty_conv intro: filter_True)
  then have "at_level l S' = (if l = ClusterLevel then ss else at_level l S)" for l
    by (auto simp: at_level_content i filter_map o_def content_of_def filter_empty_conv
        intro!: arg_cong [where f = "map content_of"] filter_cong)
  then show ?thesis using d i(1,2) by (intro exI [of _ S']) (simp add: apply_clusters_def op_bind_def)
qed

lemma apply_global_ok:
  assumes "\<forall>s. so = Some s \<longrightarrow> summary_fits edim (su_db S) s \<and> ns_level s = GlobalLevel"
  shows "\<exists>S'. apply_global edim so S = (Inr (), S') \<and> su_log S' = su_log S \<and>
    at_level GlobalLevel S' = (case so of None \<Rightarrow> [] | Some s \<Rightarrow> [s]) \<and>
    (\<forall>l. l \<noteq> GlobalLevel \<longrightarrow> at_level l S' = at_level l S)"
proof -
  let ?S = "S\<lparr>su_summaries := filter (\<lambda>s. s_level s \<noteq> GlobalLevel) (su_summaries S)\<rparr>"
  let ?ss = "case so of None \<Rightarrow> [] | Some s \<Rightarrow> [s]"
  note d = delete_by_level_eq [of GlobalLevel S]
  have e: "apply_global edim so S =
      op_each (insert_summary edim) ?ss ?S"
    using d by (cases so) (auto simp: apply_global_def op_bind_def split: prod.splits sum.splits)
  from insert_summaries [of ?ss edim ?S] assms obtain rows S' where
    i: "op_each (insert_summary edim) ?ss ?S = (Inr (), S')"
    "su_log S' = su_log S" "su_summaries S' = su_summaries ?S @ rows" "map content_of rows = ?ss"
    by (auto split: option.splits)
  have "filter (\<lambda>s. ns_level s = l) ?ss = (if l = GlobalLevel then ?ss else [])" for l
    using assms by (auto split: option.splits)
  then have "at_level l S' = (if l = GlobalLevel then ?ss else at_level l S)" for l
    by (auto simp: at_level_content i filter_map o_def content_of_def filter_empty_conv
        intro!: arg_cong [where f = "map content_of"] filter_cong)
  then show ?thesis using e i(1,2) by (intro exI [of _ S']) simp
qed

lemma record_if_absent_ok:
  assumes "identity_fits edim D fp"
  shows "\<exists>r D'. record_if_absent fp edim D = (Inr r, D') \<and> d_facts D' = d_facts D \<and> d_edges D' = d_edges D"
  using assms by (auto simp: identity_fits_def record_if_absent_def split: option.splits)

lemma is_active_of_facts: "d_facts D' = d_facts D \<Longrightarrow> is_active D' = is_active D"
  by (rule ext) (rule is_active_cong)

text \<open>What a plan does to a store, whatever happened since its snapshot.\<close>

definition applied_plan :: "consolidation_plan \<Rightarrow> summary_store \<Rightarrow> summary_store \<Rightarrow> bool" where
  "applied_plan plan S S' \<longleftrightarrow>
     (let X = folded (dc_expirations (pl_dedup plan)) (su_db S) in
     (\<forall>j. is_active (su_db S') j \<longleftrightarrow> is_active (su_db S) j \<and> j \<notin> X) \<and>
     active_edges (su_db S') = filter (\<lambda>x. \<forall>i \<in> X. \<not> edge_touches i x) (active_edges (su_db S)) \<and>
     map f_id (d_facts (su_db S')) = map f_id (d_facts (su_db S)) \<and>
     map f_importance_score (d_facts (su_db S')) =
       map (live_score (dc_score_updates (pl_dedup plan))) (d_facts (su_db S))) \<and>
     (if pl_cluster_ran plan \<and> (\<forall>e \<in> set (dc_expirations (pl_dedup plan)). is_active (su_db S) (ex_survivor e))
      then at_level ClusterLevel S' = pl_cluster_summaries plan \<and>
        at_level GlobalLevel S' = (case pl_global_summary plan of None \<Rightarrow> [] | Some s \<Rightarrow> [s]) \<and>
        at_level LocalLevel S' = at_level LocalLevel S
      else su_summaries S' = su_summaries S)"

lemma apply_dedup_frame:
  assumes "apply_dedup dc now D = (r, D')"
  shows "scope_ids_of D' \<supseteq> scope_ids_of D" "d_identity D' = d_identity D"
proof -
  have "keeps (log_frame evs n F G) (apply_dedup dc now)" for evs n F G
    by (intro keeps_apply_dedup keeps_intros)
  from keepsD [OF this log_frame_self assms] show "scope_ids_of D' \<supseteq> scope_ids_of D"
    by (simp add: log_frame_def)
  have "keeps (\<lambda>X. d_identity X = d_identity D) (apply_dedup dc now)"
  proof (rule keeps_apply_dedup)
    have u: "keeps (\<lambda>X. d_identity X = d_identity D) (update_or_not_found i p g)" for i p g
      by (rule keepsI) (auto simp: update_or_not_found_def update_facts_def split: if_splits)
    show "keeps (\<lambda>X. d_identity X = d_identity D) (fact_expire i now)" for i
      unfolding fact_expire_def by (rule u)
    show "keeps (\<lambda>X. d_identity X = d_identity D) (expire_by_fact i now)" for i
      by (rule keepsI) (auto simp: expire_by_fact_def update_edges_def Let_def)
    show "keeps (\<lambda>X. d_identity X = d_identity D) (update_base_importance i v)" for i v
      by (rule keepsI) (auto simp: update_base_importance_def update_or_not_found_def update_facts_def
          split: if_splits)
    show "keeps (\<lambda>X. d_identity X = d_identity D) (update_importance_scores_bulk s)" for s
      by (rule keepsI) (auto simp: update_importance_scores_bulk_def update_facts_def Let_def
          split: if_splits option.splits)
  qed
  from keepsD [OF this _ assms] show "d_identity D' = d_identity D" by simp
qed

lemma apply_plan_ok:
  assumes fits: "plan_fits edim (su_db S) plan"
  shows "\<exists>stats ids S'. apply_plan rfc edim plan S = (Inr (stats, ids), S') \<and>
    set ids = folded (dc_expirations (pl_dedup plan)) (su_db S) \<and> distinct ids \<and>
    ct_duplicates_removed stats = length ids \<and> applied_plan plan S S' \<and>
    (\<forall>k. get_config (su_log S') k =
       (if k = last_consolidated_at \<and> \<not> dc_skipped (pl_dedup plan) then Some (rfc (pl_now plan))
        else get_config (su_log S) k))"
proof -
  let ?dc = "pl_dedup plan"
  let ?X = "folded (dc_expirations ?dc) (su_db S)"
  have "dedup_plan_ok ?dc" using fits by (simp add: plan_fits_def)
  from apply_dedup_ok [OF this, of "pl_now plan" "su_db S"] obtain a D1 where
    dd: "apply_dedup ?dc (pl_now plan) (su_db S) = (Inr a, D1)"
    and a: "set (da_expired a) = ?X" "distinct (da_expired a)"
      "da_survivor_lost a \<longleftrightarrow> (\<exists>e \<in> set (dc_expirations ?dc). \<not> is_active (su_db S) (ex_survivor e))"
    and D1: "\<forall>j. is_active D1 j \<longleftrightarrow> is_active (su_db S) j \<and> j \<notin> ?X"
      "active_edges D1 = filter (\<lambda>x. \<forall>i \<in> ?X. \<not> edge_touches i x) (active_edges (su_db S))"
      "map f_id (d_facts D1) = map f_id (d_facts (su_db S))"
      "map f_importance_score (d_facts D1) = map (live_score (dc_score_updates ?dc)) (d_facts (su_db S))"
    by blast
  let ?S1 = "S\<lparr>su_log := (su_log S)\<lparr>lg_db := D1\<rparr>\<rparr>"
  have S1: "on_facts (apply_dedup ?dc (pl_now plan)) S = (Inr a, ?S1)" using dd by (simp add: on_facts_def on_log_def on_tables_def)
  note frame = apply_dedup_frame [OF dd]
  define w where "w \<longleftrightarrow> pl_cluster_ran plan \<and> \<not> da_survivor_lost a"
  let ?put = "if w
           then op_bind (apply_clusters edim (pl_cluster_summaries plan)) (\<lambda>_.
                op_bind (apply_global edim (pl_global_summary plan)) (\<lambda>_.
                case pl_embedding_fingerprint plan of
                  None \<Rightarrow> op_return ()
                | Some fp \<Rightarrow> op_bind (on_facts (record_if_absent fp edim)) (\<lambda>_. op_return ())))
           else op_return ()"
  obtain S2 where S2: "?put ?S1 = (Inr (), S2)" "d_facts (su_db S2) = d_facts D1"
    "d_edges (su_db S2) = d_edges D1" "lg_config (su_log S2) = lg_config (su_log S)"
    "if w then at_level ClusterLevel S2 = pl_cluster_summaries plan \<and>
        at_level GlobalLevel S2 = (case pl_global_summary plan of None \<Rightarrow> [] | Some s \<Rightarrow> [s]) \<and>
        at_level LocalLevel S2 = at_level LocalLevel S
      else su_summaries S2 = su_summaries S"
  proof (cases w)
    case False
    then show ?thesis by (intro that [of ?S1]) simp_all
  next
    case True
    have up: "summary_fits edim D1 s" if "summary_fits edim (su_db S) s" for s
      using that frame(1) by (auto simp: summary_fits_def)
    have "\<forall>s \<in> set (pl_cluster_summaries plan). summary_fits edim (su_db ?S1) s \<and> ns_level s = ClusterLevel"
      using fits up by (simp add: plan_fits_def)
    from apply_clusters_ok [OF this] obtain T where T: "apply_clusters edim (pl_cluster_summaries plan) ?S1 = (Inr (), T)"
      "su_log T = su_log ?S1" "at_level ClusterLevel T = pl_cluster_summaries plan"
      "\<forall>l. l \<noteq> ClusterLevel \<longrightarrow> at_level l T = at_level l ?S1" by blast
    have "\<forall>s. pl_global_summary plan = Some s \<longrightarrow> summary_fits edim (su_db T) s \<and> ns_level s = GlobalLevel"
      using fits up T(2) by (simp add: plan_fits_def)
    from apply_global_ok [OF this] obtain U where U: "apply_global edim (pl_global_summary plan) T = (Inr (), U)"
      "su_log U = su_log T" "at_level GlobalLevel U = (case pl_global_summary plan of None \<Rightarrow> [] | Some s \<Rightarrow> [s])"
      "\<forall>l. l \<noteq> GlobalLevel \<longrightarrow> at_level l U = at_level l T" by blast
    have same: "at_level l (V\<lparr>su_log := L\<rparr>) = at_level l V" for l V L by (simp add: at_level_def)
    have lv: "at_level ClusterLevel U = pl_cluster_summaries plan"
      "at_level GlobalLevel U = (case pl_global_summary plan of None \<Rightarrow> [] | Some s \<Rightarrow> [s])"
      "at_level LocalLevel U = at_level LocalLevel S"
      using T(3,4) U(3,4) by (simp_all add: same)
    show ?thesis
    proof (cases "pl_embedding_fingerprint plan")
      case None
      with True T(1,2) U(1,2) lv show ?thesis by (intro that [of U]) (simp_all add: op_bind_def)
    next
      case (Some fp)
      have "identity_fits edim (su_db U) fp"
        using fits Some U(2) T(2) frame(2) by (simp add: plan_fits_def identity_fits_def)
      from record_if_absent_ok [OF this] obtain r D2 where r: "record_if_absent fp edim (su_db U) = (Inr r, D2)"
        "d_facts D2 = d_facts (su_db U)" "d_edges D2 = d_edges (su_db U)" by blast
      let ?U = "U\<lparr>su_log := (su_log U)\<lparr>lg_db := D2\<rparr>\<rparr>"
      have "on_facts (record_if_absent fp edim) U = (Inr r, ?U)" using r(1) by (simp add: on_facts_def on_log_def on_tables_def)
      with True Some T(1,2) U(1,2) r(2,3) lv show ?thesis
        by (intro that [of ?U]) (simp_all add: op_bind_def same)
    qed
  qed
  let ?L3 = "if dc_skipped ?dc then S2
    else S2\<lparr>su_log := (su_log S2)\<lparr>lg_config := AList.update last_consolidated_at (rfc (pl_now plan)) (lg_config (su_log S2))\<rparr>\<rparr>"
  have cfg: "(if \<not> dc_skipped ?dc then on_log (set_config last_consolidated_at (rfc (pl_now plan)))
      else op_return ()) S2 = (Inr (), ?L3)"
    by (simp add: on_log_def set_config_def)
  have run: "apply_plan rfc edim plan S = (Inr (plan_stats plan a w, da_expired a), ?L3)"
    using S1 S2(1) cfg by (simp only: apply_plan_def transaction_Inr Let_def op_bind_step op_simps w_def [symmetric])
  have db: "d_facts (su_db ?L3) = d_facts D1" "active_edges (su_db ?L3) = active_edges D1"
    "is_active (su_db ?L3) = is_active D1"
    using S2(2,3) by (auto simp: active_edges_def intro: is_active_of_facts)
  have "at_level l ?L3 = at_level l S2" "su_summaries ?L3 = su_summaries S2" for l
    by (simp_all add: at_level_def)
  then have "applied_plan plan S ?L3"
    using S2(5) a(3) D1 db by (simp add: applied_plan_def Let_def w_def)
  moreover have "get_config (su_log ?L3) k =
       (if k = last_consolidated_at \<and> \<not> dc_skipped ?dc then Some (rfc (pl_now plan))
        else get_config (su_log S) k)" for k
    using S2(4) by (simp add: get_config_def update_conv')
  ultimately show ?thesis using run a(1,2) by (auto simp: plan_stats_def)
qed

subsection \<open>The snapshot and the plan made from it\<close>

lemma facts_ok_active:
  assumes "db_inv edim D"
  shows "facts_ok (filter is_active_row (d_facts D))"
proof -
  have "distinct (map f_id (filter is_active_row (d_facts D)))"
    using db_inv_distinct(1) [OF assms] by (simp add: distinct_map_filter)
  with assms show ?thesis by (auto simp: facts_ok_def db_inv_def list_all_iff fact_row_ok_def)
qed

lemma snapshot_ok:
  assumes inv: "summary_inv edim S" and r: "load_snapshot read_time edim config now S = Inr sn"
  shows "sn_now sn = now" "facts_ok (sn_active_facts sn)"
    and "set (sn_active_facts sn) \<subseteq> set (d_facts (su_db S))"
    and "sn_over_both_caps sn \<longleftrightarrow> max_facts_for_dedup < count_active (su_db S)"
    and "\<not> sn_over_both_caps sn \<Longrightarrow> sn_active_facts sn = filter is_active_row (d_facts (su_db S))"
    and "(get_config (su_log S) last_consolidated_at = None \<and> sn_last sn = None) \<or>
      (\<exists>s t. get_config (su_log S) last_consolidated_at = Some s \<and> read_time s = Inr t \<and> sn_last sn = Some t)"
proof -
  have i: "db_inv edim (su_db S)" using inv by (simp add: summary_inv_def log_inv_def)
  note l = list_active_ok(1) [OF i]
  show "sn_now sn = now" "facts_ok (sn_active_facts sn)"
    "set (sn_active_facts sn) \<subseteq> set (d_facts (su_db S))"
    "sn_over_both_caps sn \<longleftrightarrow> max_facts_for_dedup < count_active (su_db S)"
    "\<not> sn_over_both_caps sn \<Longrightarrow> sn_active_facts sn = filter is_active_row (d_facts (su_db S))"
    "(get_config (su_log S) last_consolidated_at = None \<and> sn_last sn = None) \<or>
      (\<exists>s t. get_config (su_log S) last_consolidated_at = Some s \<and> read_time s = Inr t \<and> sn_last sn = Some t)"
    using r facts_ok_active [OF i]
    by (auto simp: load_snapshot_def load_snapshot_capped_def and_then_eq_Inr l Let_def facts_ok_def
        max_facts_for_dedup_def max_facts_for_clustering_def split: if_splits option.splits sum.splits)
qed

lemma summarize_and_embed_dim:
  "summarize_and_embed gen emb items n = Inr (txt1, v) \<Longrightarrow> length v = n"
  by (auto simp: summarize_and_embed_def and_then_eq_Inr split: if_splits)

lemma map_res_Inr: "map_res f xs = Inr ys \<Longrightarrow> length ys = length xs \<and> (\<forall>i < length xs. f (xs ! i) = Inr (ys ! i))"
proof (induction xs arbitrary: ys)
  case (Cons x xs)
  then obtain y zs where y: "f x = Inr y" "map_res f xs = Inr zs" "ys = y # zs" by (auto simp: and_then_eq_Inr)
  from Cons.IH [OF y(2)] y show ?case by (auto simp: nth_Cons')
qed simp

lemma summarize_cluster_ok:
  assumes "summarize_cluster facts gen emb params K = Inr s"
  shows "ns_level s = ClusterLevel" "ns_source_fact_ids s = map (\<lambda>i. f_id (facts ! i)) K"
    "length (ns_embedding s) = cp_embed_dim params" "ns_created_at s = cp_now params"
    "ns_scope_id s = majority_scope (map (\<lambda>i. f_scope_id (facts ! i)) K)"
  using assms by (auto simp: summarize_cluster_def Let_def and_then_eq_Inr dest: summarize_and_embed_dim)

definition big_clusters :: "fact list \<Rightarrow> cluster_params \<Rightarrow> nat list list" where
  "big_clusters facts params =
     filter (\<lambda>K. \<not> length K < cp_min_cluster_size params) (greedy_cluster facts (cp_cluster_threshold params))"

lemma compute_clusters_ok:
  assumes "compute_clusters facts gen emb params = Inr c"
  shows "cl_ran c \<longleftrightarrow> length facts \<le> cp_max_facts params" "\<not> cl_ran c \<Longrightarrow> cl_summaries c = []"
    and "cl_ran c \<Longrightarrow> map ns_source_fact_ids (cl_summaries c) =
      map (map (\<lambda>i. f_id (facts ! i))) (big_clusters facts params)"
    and "s \<in> set (cl_summaries c) \<Longrightarrow> \<exists>K \<in> set (big_clusters facts params).
      summarize_cluster facts gen emb params K = Inr s"
proof -
  show "cl_ran c \<longleftrightarrow> length facts \<le> cp_max_facts params" "\<not> cl_ran c \<Longrightarrow> cl_summaries c = []"
    using assms by (auto simp: compute_clusters_def and_then_eq_Inr split: if_splits)
  have ran: "map_res (summarize_cluster facts gen emb params) (big_clusters facts params) = Inr (cl_summaries c)"
    if "cl_ran c"
    using assms that by (auto simp: compute_clusters_def big_clusters_def and_then_eq_Inr split: if_splits)
  show "map ns_source_fact_ids (cl_summaries c) = map (map (\<lambda>i. f_id (facts ! i))) (big_clusters facts params)"
    if "cl_ran c"
    using map_res_Inr [OF ran [OF that]] summarize_cluster_ok(2) by (intro nth_equalityI) auto
  show "\<exists>K \<in> set (big_clusters facts params). summarize_cluster facts gen emb params K = Inr s"
    if "s \<in> set (cl_summaries c)"
  proof -
    from that \<open>\<not> cl_ran c \<Longrightarrow> cl_summaries c = []\<close> have "cl_ran c" by (cases "cl_ran c") auto
    from map_res_Inr [OF ran [OF this]] that show ?thesis by (metis in_set_conv_nth nth_mem)
  qed
qed

lemma big_cluster_members:
  assumes "K \<in> set (big_clusters facts params)"
  shows "K \<noteq> []" "set K \<subseteq> {..<length facts}"
  using assms greedy_cluster_components(2,3) [of facts "cp_cluster_threshold params"]
  by (auto simp: big_clusters_def)

lemma cluster_scope_of_member:
  assumes "summarize_cluster facts gen emb params K = Inr s" "K \<in> set (big_clusters facts params)"
  shows "\<exists>f \<in> set facts. ns_scope_id s = f_scope_id f"
proof -
  note m = big_cluster_members [OF assms(2)]
  from m(1) have "majority_scope (map (\<lambda>i. f_scope_id (facts ! i)) K) \<in> set (map (\<lambda>i. f_scope_id (facts ! i)) K)"
    by (intro majority_scope_correct(1)) simp
  then obtain i where "i \<in> set K" "ns_scope_id s = f_scope_id (facts ! i)"
    unfolding summarize_cluster_ok(5) [OF assms(1)] by auto
  with m(2) show ?thesis by (intro bexI [of _ "facts ! i"]) auto
qed

lemma no_big_clusters:
  assumes "length facts < cp_min_cluster_size params"
  shows "big_clusters facts params = []"
proof -
  have "length K \<le> length facts" if "K \<in> set (greedy_cluster facts t)" for K t
  proof -
    note g = greedy_cluster_components(1,2) [of facts t]
    have "distinct K" "set K \<subseteq> {..<length facts}" using g that by (auto simp: distinct_concat_iff)
    then show ?thesis by (metis card_lessThan card_mono distinct_card finite_lessThan)
  qed
  then show ?thesis using assms by (fastforce simp: big_clusters_def filter_empty_conv)
qed

lemma compute_dedup_plan_ok:
  assumes F: "facts_ok F" and fin: "\<forall>f \<in> set F. fl_is_finite (f_importance_score f)"
  shows "dedup_plan_ok (compute_dedup F t max_facts since)"
proof (cases "length F \<le> max_facts")
  case False
  then show ?thesis by (simp add: compute_dedup_def dedup_plan_ok_def dedup_skipped_def)
next
  case True
  let ?dc = "compute_dedup F t max_facts since"
  note C = compute_dedup_correct [OF F True refl, where t = t and since = since]
  have "fl_is_finite v" if iv: "(i, v) \<in> set (dc_score_updates ?dc)" for i v
  proof -
    from iv C(5) obtain e where "e \<in> set (dc_expirations ?dc)" "ex_survivor e = i" by force
    with C(6) obtain s where s: "s \<in> set F" "f_id s = i" by blast
    have "live_score (dc_score_updates ?dc) s = v"
      using s(2) iv C(4) by (simp add: live_score_def)
    with C(8) [OF s(1)] fin show ?thesis by auto
  qed
  then show ?thesis using C(2-4) by (auto simp: dedup_plan_ok_def)
qed

lemma compute_plan_parts:
  assumes "compute_plan sn gen emb edim config = Inr plan"
  shows "pl_now plan = sn_now sn"
    and "pl_dedup plan = (if sn_over_both_caps sn then dedup_skipped
      else compute_dedup (sn_active_facts sn) (cc_dedup_threshold config) max_facts_for_dedup (sn_last sn))"
    and "sn_over_both_caps sn \<Longrightarrow> \<not> pl_cluster_ran plan \<and> pl_cluster_summaries plan = [] \<and>
      pl_global_summary plan = None \<and> pl_embedding_fingerprint plan = None"
    and "pl_embedding_fingerprint plan = Some fp \<Longrightarrow> fp = em_fingerprint emb"
  using assms by (auto simp: compute_plan_def compute_plan_capped_def Let_def and_then_eq_Inr split: if_splits)

definition survivors_of :: "snapshot \<Rightarrow> consolidation_plan \<Rightarrow> fact list" where
  "survivors_of sn plan = filter (\<lambda>f. f_id f \<notin> losers (dc_expirations (pl_dedup plan))) (sn_active_facts sn)"

definition params_of :: "nat \<Rightarrow> consolidation_config \<Rightarrow> snapshot \<Rightarrow> cluster_params" where
  "params_of edim config sn = \<lparr>cp_embed_dim = edim, cp_min_cluster_size = cc_min_cluster_size config,
     cp_cluster_threshold = cc_cluster_threshold config, cp_max_facts = max_facts_for_clustering,
     cp_now = sn_now sn\<rparr>"

lemma compute_plan_clusters:
  assumes p: "compute_plan sn gen emb edim config = Inr plan" and "\<not> sn_over_both_caps sn"
  shows "\<exists>c. compute_clusters (survivors_of sn plan) gen emb (params_of edim config sn) = Inr c \<and>
    pl_cluster_ran plan = cl_ran c \<and> pl_cluster_summaries plan = cl_summaries c \<and>
    (if cl_ran c then compute_global (cl_summaries c) gen emb edim (sn_now sn) else Inr None) =
      Inr (pl_global_summary plan)"
  using assms by (auto simp: compute_plan_def compute_plan_capped_def Let_def and_then_eq_Inr survivors_of_def
      losers_def params_of_def)

lemma compute_global_ok:
  assumes "compute_global ss gen emb edim now = Inr (Some g)"
  shows "ns_level g = GlobalLevel" "ns_scope_id g = 1" "length (ns_embedding g) = edim"
    "ns_source_fact_ids g = concat (map ns_source_fact_ids ss)"
  using assms by (auto simp: compute_global_def and_then_eq_Inr split: if_splits dest: summarize_and_embed_dim)

lemma compute_plan_fits:
  assumes p: "compute_plan sn gen emb edim config = Inr plan" and F: "facts_ok (sn_active_facts sn)"
    and fin: "\<forall>f \<in> set (sn_active_facts sn). fl_is_finite (f_importance_score f)"
    and sc: "\<forall>f \<in> set (sn_active_facts sn). f_scope_id f \<in> scope_ids_of D" "1 \<in> scope_ids_of D"
    and idn: "identity_fits edim D (em_fingerprint emb)"
  shows "plan_fits edim D plan"
proof (cases "sn_over_both_caps sn")
  case True
  with compute_plan_parts [OF p] show ?thesis by (simp add: plan_fits_def dedup_plan_ok_def dedup_skipped_def)
next
  case False
  from compute_plan_clusters [OF p False] obtain c where
    c: "compute_clusters (survivors_of sn plan) gen emb (params_of edim config sn) = Inr c"
      "pl_cluster_summaries plan = cl_summaries c"
    and g: "(if cl_ran c then compute_global (cl_summaries c) gen emb edim (sn_now sn) else Inr None) =
      Inr (pl_global_summary plan)" by blast
  have "dedup_plan_ok (pl_dedup plan)"
    using compute_dedup_plan_ok [OF F fin] compute_plan_parts(2) [OF p] False by simp
  moreover have "summary_fits edim D s \<and> ns_level s = ClusterLevel" if "s \<in> set (pl_cluster_summaries plan)" for s
  proof -
    from compute_clusters_ok(4) [OF c(1)] that c(2) obtain K where
      K: "K \<in> set (big_clusters (survivors_of sn plan) (params_of edim config sn))"
      "summarize_cluster (survivors_of sn plan) gen emb (params_of edim config sn) K = Inr s" by auto
    from cluster_scope_of_member [OF K(2,1)] sc(1) have "ns_scope_id s \<in> scope_ids_of D"
      by (auto simp: survivors_of_def)
    with summarize_cluster_ok(1,3) [OF K(2)] show ?thesis by (simp add: summary_fits_def params_of_def)
  qed
  moreover have "summary_fits edim D s \<and> ns_level s = GlobalLevel" if "pl_global_summary plan = Some s" for s
    using g that compute_global_ok [of "cl_summaries c" gen emb edim "sn_now sn" s] sc(2)
    by (auto simp: summary_fits_def split: if_splits)
  ultimately show ?thesis using idn compute_plan_parts(4) [OF p] by (auto simp: plan_fits_def)
qed

subsection \<open>The primitive\<close>

lemma expire_losers_edges:
  assumes "op_fold (expire_loser live now) es a D = (r, D')"
  shows "\<exists>a' new. r = Inr a' \<and> da_expired a' = da_expired a @ new \<and>
    active_edges D' = filter (\<lambda>x. \<forall>i \<in> set new. \<not> edge_touches i x) (active_edges D)"
  using assms
proof (induction es arbitrary: a D)
  case (Cons e es)
  define a1 where "a1 = (if live (ex_survivor e) \<noteq> Some True then a\<lparr>da_survivor_lost := True\<rparr>
        else if is_active D (ex_loser e) then a\<lparr>da_expired := da_expired a @ [ex_loser e]\<rparr> else a)"
  obtain D1 where s: "expire_loser live now e a D = (Inr a1, D1)"
    and ed: "active_edges D1 = (if effective live D e
      then filter (\<lambda>x. \<not> edge_touches (ex_loser e) x) (active_edges D) else active_edges D)"
    using expire_loser_ok [of live now e a D] unfolding a1_def by blast
  have "op_fold (expire_loser live now) es a1 D1 = (r, D')" using Cons.prems s by (simp add: op_bind_def)
  from Cons.IH [OF this] obtain a' new where IH: "r = Inr a'" "da_expired a' = da_expired a1 @ new"
    "active_edges D' = filter (\<lambda>x. \<forall>i \<in> set new. \<not> edge_touches i x) (active_edges D1)" by blast
  show ?case
  proof (cases "effective live D e")
    case True
    then have "da_expired a1 = da_expired a @ [ex_loser e]" by (simp add: a1_def effective_def)
    moreover have "active_edges D' = filter (\<lambda>x. \<forall>i \<in> set (ex_loser e # new). \<not> edge_touches i x) (active_edges D)"
      unfolding IH(3) ed using True by (auto intro!: filter_cong)
    ultimately show ?thesis using IH(1,2) by (intro exI [of _ a'] exI [of _ "ex_loser e # new"]) simp
  next
    case False
    then have "da_expired a1 = da_expired a" by (simp add: a1_def effective_def)
    then show ?thesis using IH ed False by (intro exI [of _ a'] exI [of _ new]) simp
  qed
next
  case Nil
  then show ?case by (intro exI [of _ a] exI [of _ "[]"]) simp
qed

lemma apply_dedup_edges:
  assumes "apply_dedup dc now D = (Inr a, D')"
  shows "active_edges D' = filter (\<lambda>x. \<forall>i \<in> set (da_expired a). \<not> edge_touches i x) (active_edges D)"
proof -
  let ?I = "\<lambda>X. active_edges X = active_edges D"
  have b: "keeps ?I (update_base_importance i v)" for i v
    by (rule keepsI) (auto simp: update_base_importance_def update_or_not_found_def split: if_splits)
  have c: "keeps ?I (op_each (\<lambda>(i, importance). update_base_importance i importance) xs)" for xs
    unfolding split_def by (intro keeps_intros b)
  have e: "keeps ?I (update_importance_scores_bulk s)" for s
    by (rule keepsI) (auto simp: update_importance_scores_bulk_def Let_def split: if_splits option.splits)
  from assms obtain D1 D2 where d: "op_each (\<lambda>(i, importance). update_base_importance i importance)
      (dc_importance_updates dc) D = (Inr (), D1)"
    "update_importance_scores_bulk (dc_score_updates dc) D1 = (Inr (), D2)"
    "op_fold (expire_loser (survivor_liveness (dc_expirations dc) D2) now) (dc_expirations dc)
       \<lparr>da_expired = [], da_survivor_lost = False\<rparr> D2 = (Inr a, D')"
    by (auto simp: apply_dedup_def op_bind_Inr)
  have "active_edges D2 = active_edges D" by (rule keepsD [OF e keepsD [OF c refl d(1)] d(2)])
  with expire_losers_edges [OF d(3)] show ?thesis by auto
qed

lemma apply_plan_edges:
  assumes "apply_plan rfc edim plan S = (Inr (stats, ids), S')"
  shows "active_edges (su_db S') = filter (\<lambda>x. \<forall>i \<in> set ids. \<not> edge_touches i x) (active_edges (su_db S))"
    and "ct_duplicates_removed stats = length ids"
proof -
  from assms obtain a S1 w where d: "on_facts (apply_dedup (pl_dedup plan) (pl_now plan)) S = (Inr a, S1)"
    and rest: "op_bind (if w then op_bind (apply_clusters edim (pl_cluster_summaries plan)) (\<lambda>_.
                op_bind (apply_global edim (pl_global_summary plan)) (\<lambda>_.
                case pl_embedding_fingerprint plan of
                  None \<Rightarrow> op_return ()
                | Some fp \<Rightarrow> op_bind (on_facts (record_if_absent fp edim)) (\<lambda>_. op_return ())))
           else op_return ()) (\<lambda>_.
       op_bind (if \<not> dc_skipped (pl_dedup plan)
           then on_log (set_config last_consolidated_at (rfc (pl_now plan)))
           else op_return ()) (\<lambda>_.
       op_return (plan_stats plan a w, da_expired a))) S1 = (Inr (stats, ids), S')"
    unfolding apply_plan_def transaction_Inr op_bind_Inr [of "on_facts _"] Let_def by blast
  define m where "m = op_bind (if w then op_bind (apply_clusters edim (pl_cluster_summaries plan)) (\<lambda>_.
                op_bind (apply_global edim (pl_global_summary plan)) (\<lambda>_.
                case pl_embedding_fingerprint plan of
                  None \<Rightarrow> op_return ()
                | Some fp \<Rightarrow> op_bind (on_facts (record_if_absent fp edim)) (\<lambda>_. op_return ())))
           else op_return ()) (\<lambda>_.
       op_bind (if \<not> dc_skipped (pl_dedup plan)
           then on_log (set_config last_consolidated_at (rfc (pl_now plan)))
           else op_return ()) (\<lambda>_.
       op_return (plan_stats plan a w, da_expired a)))"
  have m: "m S1 = (Inr (stats, ids), S')" using rest by (simp only: m_def)
  let ?I = "\<lambda>X. active_edges (su_db X) = active_edges (su_db S1)"
  have k1: "keeps ?I (summary_insert edim s)" for s
    by (rule keepsI) (auto simp: summary_insert_def Let_def split: if_splits)
  have k2: "keeps ?I (delete_by_level l)" for l
    by (rule keepsI) (auto simp: delete_by_level_def Let_def)
  have k3: "keeps ?I (on_facts (record_if_absent fp edim))" for fp
    by (rule keepsI) (auto simp: on_facts_def on_log_def on_tables_def record_if_absent_def active_edges_def
        split: prod.splits option.splits if_splits sum.splits)
  have k4: "keeps ?I (on_log (set_config k v))" for k v
    by (rule keepsI) (auto simp: on_log_def set_config_def)
  have "keeps ?I m"
    unfolding m_def apply_clusters_def apply_global_def insert_summary_def by (intro keeps_intros k1 k2 k3 k4)
  from keepsD [OF this refl m] have "?I S'" .
  moreover have ids: "ids = da_expired a" "stats = plan_stats plan a w"
    using rest by (auto simp: op_bind_Inr)
  moreover have "apply_dedup (pl_dedup plan) (pl_now plan) (su_db S) = (Inr a, su_db S1)"
    using d by (auto simp: on_facts_def on_log_def on_tables_def split: prod.splits)
  ultimately show "active_edges (su_db S') =
      filter (\<lambda>x. \<forall>i \<in> set ids. \<not> edge_touches i x) (active_edges (su_db S))"
    using apply_dedup_edges by metis
  show "ct_duplicates_removed stats = length ids" by (simp add: ids plan_stats_def)
qed

end
