(* ===== verification/Consolidation_Graph.thy ===== *)
theory Consolidation_Graph
  imports Consolidation_Apply Cycle_Properties
begin

text \<open>
  The graph across a consolidation: the transaction and the replacement of the graph keep \<open>in_step\<close>.
  The calls that may run in the gaps (\<open>link_ids\<close>, \<open>expire_one\<close>), and a store on which the
  properties are evaluated.
\<close>

subsection \<open>The graph\<close>

lemma keeps_canonical_plan: "keeps (\<lambda>S. canonical_edges (su_db S)) (apply_plan rfc edim plan)"
proof -
  have f: "keeps (\<lambda>S. canonical_edges (su_db S)) (on_facts m)" if "keeps canonical_edges m"
    for m :: "(db, 'a) op"
    by (rule keepsI) (auto simp: on_facts_def on_log_def on_tables_def split: prod.splits dest: keepsD [OF that])
  have a: "keeps (\<lambda>S. canonical_edges (su_db S)) (on_facts (apply_dedup dc now))" for dc now
    by (intro f keeps_apply_dedup keeps_intros) (rule keepsI, auto simp: update_base_importance_def
      update_or_not_found_def canonical_edges_def split: if_splits)
  have b: "keeps (\<lambda>S. canonical_edges (su_db S)) (on_facts (record_if_absent fp edim))" for fp
    by (intro f keeps_intros)
  have c: "keeps (\<lambda>S. canonical_edges (su_db S)) (on_log (set_config k v))" for k v
    by (rule keepsI) (auto simp: on_log_def set_config_def)
  have d: "keeps (\<lambda>S. canonical_edges (su_db S)) (summary_insert edim s)"
    "keeps (\<lambda>S. canonical_edges (su_db S)) (delete_by_level l)" for s l
    by (rule keepsI; auto simp: summary_insert_def delete_by_level_def Let_def split: if_splits)+
  show ?thesis
    unfolding apply_plan_def apply_clusters_def apply_global_def insert_summary_def Let_def
    by (intro keeps_intros a b c d)
qed

definition in_step :: "nat \<Rightarrow> 'g petgraph \<Rightarrow> summary_store \<times> 'g memory_graph \<Rightarrow> bool" where
  "in_step edim P = (\<lambda>(S, g). summary_inv edim S \<and> canonical_edges (su_db S) \<and>
     mirrors P g (active_edges (su_db S)))"

text \<open>The transaction and the replacement of the graph after it, with nothing in between.\<close>

lemma apply_and_replace:
  assumes P: "petgraph_laws P" and I: "in_step edim P s"
  shows "in_step edim P (snd (op_bind (on_store (apply_plan rfc edim plan)) (\<lambda>(stats, expired_ids).
      if expired_ids = [] then op_return stats
      else op_bind (op_reads (\<lambda>(S, g). Inr (list_active_edges (su_db S)))) (\<lambda>edges.
           op_bind (on_both (\<lambda>s. s)) (\<lambda>_. op_bind (on_index (\<lambda>_. from_active_edges P edges)) (\<lambda>_.
           op_return stats)))) s))"
proof -
  obtain S g where s: "s = (S, g)" by fastforce
  with I have i: "summary_inv edim S" "canonical_edges (su_db S)" "mirrors P g (active_edges (su_db S))"
    by (simp_all add: in_step_def)
  obtain r S' where a: "apply_plan rfc edim plan S = (r, S')" by fastforce
  have i': "summary_inv edim S'" "canonical_edges (su_db S')"
    using keepsD [OF keeps_apply_plan i(1) a] keepsD [OF keeps_canonical_plan i(2) a] by simp_all
  note replaced = petgraph_laws.mirrors_from_active_edges [OF P, of "active_edges (su_db S')"]
  show ?thesis
  proof (cases r)
    case (Inl e)
    with a have "S' = S" unfolding apply_plan_def by (auto dest: transaction_rolled_back)
    with Inl a I show ?thesis by (simp add: s op_bind_def on_store_def)
  next
    case (Inr q)
    then obtain stats ids where r: "r = Inr (stats, ids)" by (cases q) simp
    have "ids = [] \<Longrightarrow> active_edges (su_db S') = active_edges (su_db S)"
      using apply_plan_edges(1) [of rfc edim plan S stats ids S'] a r by simp
    with a r i i' replaced show ?thesis
      by (cases "ids = []") (simp_all add: s op_bind_def on_store_def on_both_def in_step_def canonical_active)
  qed
qed

subsection \<open>A store with duplicates\<close>

definition ex_opposite :: fact where
  "ex_opposite = (ex_fact 4 ''d'')\<lparr>f_embedding := [Fin (-1)]\<rparr>"

definition ex_quartet :: "fact list" where
  \<comment> \<open>three duplicates and a fact unlike them\<close>
  "ex_quartet = [ex_fact 1 ''a'', ex_fact 2 ''b'', ex_fact 3 ''c'', ex_opposite]"

definition ex_summaries :: summary_store where
  "ex_summaries = \<lparr>su_log = ex_log\<lparr>lg_db := ex_db\<lparr>d_facts := ex_quartet, d_fact_seq := 4,
     d_edges := []\<rparr>\<rparr>, su_summaries = [], su_summary_seq = 0\<rparr>"

definition ex_consolidation :: consolidation_config where
  "ex_consolidation = default_consolidation_config\<lparr>cc_min_cluster_size := 5\<rparr>"

definition ex_cenv :: consolidate_env where
  "ex_cenv = \<lparr>ne_read_time = (\<lambda>_. Inr 3), ne_rfc3339 = (\<lambda>_. ''t''), ne_generator = (\<lambda>_. Inr ''s''),
     ne_embedder = ex_embedder\<rparr>"

lemma ex_fact_simps [simp]:
  "f_id (ex_fact i c) = i" "f_is_pinned (ex_fact i c) = False" "f_base_importance (ex_fact i c) = Fin (1/2)"
  "f_importance_score (ex_fact i c) = Fin (1/2)" "f_content (ex_fact i c) = c" "f_scope_id (ex_fact i c) = 1"
  "f_embedding (ex_fact i c) = [Fin 1]" "f_t_created (ex_fact i c) = 0" "f_t_expired (ex_fact i c) = None"
  "f_access_count (ex_fact i c) = 0" "f_source_event_id (ex_fact i c) = None"
  by (simp_all add: ex_fact_def)

lemma ex_opposite_simps [simp]:
  "f_id ex_opposite = 4" "f_is_pinned ex_opposite = False" "f_base_importance ex_opposite = Fin (1/2)"
  "f_importance_score ex_opposite = Fin (1/2)" "f_content ex_opposite = ''d''" "f_scope_id ex_opposite = 1"
  "f_embedding ex_opposite = [Fin (-1)]" "f_t_created ex_opposite = 0" "f_t_expired ex_opposite = None"
  "f_access_count ex_opposite = 0" "f_source_event_id ex_opposite = None"
  by (simp_all add: ex_opposite_def)

lemma ex_dup: "duplicates (Fin (9/10)) (ex_fact i a) (ex_fact j b)"
  "\<not> duplicates (Fin (9/10)) (ex_fact i a) ex_opposite"
  "\<not> duplicates (Fin (9/10)) ex_opposite (ex_fact i a)"
  by (simp_all add: duplicates_def cosine_similarity_def cosine_step_def fl_mul_add_def
      dedup_similarity_epsilon_def fl_sub_def)

lemma ex_merge: "i < j \<Longrightarrow> merge_pair (ex_fact i a) (ex_fact j b)
    \<lparr>ds_expired_ids = X, ds_expiries = es, ds_importance_updates = [], ds_running_scores = []\<rparr> =
    (j, \<lparr>ds_expired_ids = insert j X, ds_expiries = es @ [\<lparr>ex_loser = j, ex_survivor = i\<rparr>],
      ds_importance_updates = [], ds_running_scores = []\<rparr>)"
  by (simp add: merge_pair_def choose_expiry_def inherit_max_importance_def live_score_def Let_def max_def)

lemma ex_quartet_dedup:
  "compute_dedup ex_quartet (Fin (9/10)) max_facts_for_dedup None =
    \<lparr>dc_skipped = False, dc_expirations = [\<lparr>ex_loser = 2, ex_survivor = 1\<rparr>, \<lparr>ex_loser = 3, ex_survivor = 1\<rparr>],
     dc_importance_updates = [], dc_score_updates = []\<rparr>"
  by (simp add: compute_dedup_def ex_quartet_def max_facts_for_dedup_def new_facts_since_def
      dedup_new_fact_def empty_dedup_state_def ex_dup ex_merge Let_def)

lemma ex_summaries_inv: "summary_inv 1 ex_summaries"
  unfolding summary_inv_def log_inv_def
  using ex_log_inv ex_db_inv
  by (simp add: summary_inv_def log_inv_def ex_summaries_def ex_quartet_def db_inv_def ex_log_def
      ex_db_def fact_row_ok_def scope_ids_of_def)

lemma ex_in_step: "in_step 1 list_petgraph (ex_summaries, from_active_edges list_petgraph [])"
  using ex_summaries_inv lpg.mirrors_from_active_edges [of "[]"]
  by (simp add: in_step_def canonical_edges_def active_edges_def) (simp add: ex_summaries_def)

definition ex_snapshot :: snapshot where
  "ex_snapshot = \<lparr>sn_active_facts = ex_quartet, sn_last = None, sn_now = 3, sn_over_both_caps = False\<rparr>"

lemma ex_load: "load_snapshot (\<lambda>_. Inr 3) 1 ex_consolidation 3 ex_summaries = Inr ex_snapshot"
proof -
  have v: "consolidation_config_validate ex_consolidation = Inr ()"
    by (simp add: consolidation_config_validate_def ex_consolidation_def default_consolidation_config_def
        fl_in_range_def)
  show ?thesis
    by (simp add: load_snapshot_def load_snapshot_capped_def v and_then_def Let_def)
      (simp add: ex_summaries_def ex_log_def get_config_def count_active_def is_active_row_def ex_quartet_def
        max_facts_for_dedup_def ex_snapshot_def list_active_def select_facts_def row_to_fact_def ex_db_def and_then_def)
qed


definition ex_plan :: consolidation_plan where
  "ex_plan = \<lparr>pl_dedup = compute_dedup ex_quartet (Fin (9/10)) max_facts_for_dedup None, pl_cluster_ran = True,
     pl_cluster_summaries = [], pl_global_summary = None, pl_embedding_fingerprint = None, pl_now = 3\<rparr>"

lemma ex_compute_plan: "compute_plan ex_snapshot gen emb 1 ex_consolidation = Inr ex_plan"
proof -
  let ?fs = "filter (\<lambda>f. f_id f \<notin> ex_loser ` set (dc_expirations
      (compute_dedup ex_quartet (Fin (9/10)) max_facts_for_dedup None))) ex_quartet"
  let ?ps = "\<lparr>cp_embed_dim = 1, cp_min_cluster_size = 5, cp_cluster_threshold = Fin (85/100),
      cp_max_facts = max_facts_for_clustering, cp_now = 3\<rparr>"
  have l: "length ?fs \<le> 4" using length_filter_le [of _ ex_quartet] by (simp add: ex_quartet_def)
  then have "big_clusters ?fs ?ps = []" by (intro no_big_clusters) simp
  with l have "compute_clusters ?fs gen emb ?ps = Inr \<lparr>cl_ran = True, cl_summaries = []\<rparr>"
    by (simp add: compute_clusters_def big_clusters_def max_facts_for_clustering_def and_then_def)
  then show ?thesis
    by (simp add: compute_plan_def compute_plan_capped_def ex_snapshot_def ex_consolidation_def
        default_consolidation_config_def Let_def compute_global_def ex_plan_def and_then_def)
qed

lemma ex_plan_dedup: "pl_dedup ex_plan =
    \<lparr>dc_skipped = False, dc_expirations = [\<lparr>ex_loser = 2, ex_survivor = 1\<rparr>, \<lparr>ex_loser = 3, ex_survivor = 1\<rparr>],
     dc_importance_updates = [], dc_score_updates = []\<rparr>"
  by (simp add: ex_plan_def ex_quartet_dedup)

lemma ex_plan_fits: "plan_fits 1 D ex_plan"
  by (simp add: plan_fits_def dedup_plan_ok_def ex_plan_dedup) (simp add: ex_plan_def)

lemma ex_run:
  "consolidate ex_cenv P ex_ctx ex_consolidation 3 f h (ex_summaries, g) =
    (case f (ex_summaries, g) of (S, g1) \<Rightarrow>
       op_bind (on_store (apply_plan (\<lambda>_. ''t'') 1 ex_plan)) (\<lambda>(stats, expired_ids).
         if expired_ids = [] then op_return stats
         else op_bind (op_reads (\<lambda>(S, g). Inr (list_active_edges (su_db S)))) (\<lambda>edges.
           op_bind (on_both h) (\<lambda>_. op_bind (on_index (\<lambda>_. from_active_edges P edges)) (\<lambda>_.
           op_return stats)))) (S, g1))"
proof -
  have c: "ctx_embed_dim ex_ctx = 1" "ne_read_time ex_cenv = (\<lambda>_. Inr 3)" "ne_rfc3339 ex_cenv = (\<lambda>_. ''t'')"
    by (simp_all add: ex_ctx_def ex_cenv_def)
  show ?thesis
    unfolding consolidate_def op_bind_def [of "op_of _"] op_bind_def [of "op_reads _"]
      op_bind_def [of "on_both f"]
    by (simp add: ex_ctx_open c ex_load [unfolded One_nat_def] ex_compute_plan [unfolded One_nat_def] on_both_def
      split: prod.splits)
qed

subsection \<open>Other calls in the gaps\<close>

definition link_ids :: "fact_id list \<Rightarrow> 'g petgraph \<Rightarrow> time \<Rightarrow> summary_store \<times> 'g memory_graph
    \<Rightarrow> summary_store \<times> 'g memory_graph" where
  \<comment> \<open>what \<open>link_session_facts\<close> does with the facts of the session\<close>
  "link_ids ids P now = (\<lambda>(S, g).
     case on_facts (insert_cosession_edges_atomic ids co_session_relation co_session_weight
            co_session_scope_id now) S of
       (Inr new_edges, S') \<Rightarrow> (S', mirror_cosession P new_edges g)
     | (Inl _, S') \<Rightarrow> (S', g))"

lemma link_ids_in_step:
  assumes P: "petgraph_laws P" and s: "in_step edim P s"
  shows "in_step edim P (link_ids ids P now s)"
proof -
  obtain S g where sg: "s = (S, g)" by fastforce
  with s have i: "summary_inv edim S" "canonical_edges (su_db S)" "mirrors P g (active_edges (su_db S))"
    by (simp_all add: in_step_def)
  let ?m = "insert_cosession_edges_atomic ids co_session_relation co_session_weight co_session_scope_id now"
  obtain r D' where D': "?m (su_db S) = (r, D')" by fastforce
  then have S': "on_facts ?m S = (r, S\<lparr>su_log := (su_log S)\<lparr>lg_db := D'\<rparr>\<rparr>)"
    by (simp add: on_facts_def on_log_def on_tables_def)
  have frame: "keeps (log_frame evs n F G) ?m" for evs n F G
    by (rule keeps_cosession_frame) (rule log_frame_keeps)
  have "keeps (summary_inv edim) (on_facts ?m)" by (rule keeps_on_facts) (intro keeps_intros, rule frame)
  from keepsD [OF this i(1) S'] have inv: "summary_inv edim (S\<lparr>su_log := (su_log S)\<lparr>lg_db := D'\<rparr>\<rparr>)" .
  have "keeps canonical_edges ?m" by (rule methods_keep_canonical)
  with i(2) D' have can: "canonical_edges D'" by (metis keepsD)
  show ?thesis
  proof (cases r)
    case (Inl e)
    with D' have "D' = su_db S"
      unfolding insert_cosession_edges_atomic_def by (auto dest: transaction_rolled_back)
    with Inl S' inv can i show ?thesis by (simp add: sg link_ids_def in_step_def)
  next
    case (Inr new_edges)
    from cosession_inserted [OF D' [unfolded Inr]] obtain new where
      n: "active_edges D' = active_edges (su_db S) @ new"
        "map edge_triple new = map (cosession_triple (relation_from co_session_relation) co_session_weight) new_edges"
      by blast
    moreover have "relation_from co_session_relation = CoSession"
      by (simp add: co_session_relation_def relation_from_def)
    ultimately have "mirrors P (mirror_cosession P new_edges g) (active_edges D')"
      using petgraph_laws.mirrors_cosession [OF P i(3), of new new_edges] by simp
    with Inr S' inv can show ?thesis by (simp add: sg link_ids_def in_step_def)
  qed
qed


lemma ex_plan_applied:
  assumes "is_active (su_db S) 1" "is_active (su_db S) 2" "is_active (su_db S) 3"
  shows "\<exists>stats ids S'. apply_plan rfc 1 ex_plan S = (Inr (stats, ids), S') \<and> ids \<noteq> [] \<and>
    (\<forall>j. is_active (su_db S') j \<longleftrightarrow> is_active (su_db S) j \<and> j \<notin> {2, 3}) \<and>
    map f_id (d_facts (su_db S')) = map f_id (d_facts (su_db S)) \<and>
    active_edges (su_db S') = filter (\<lambda>x. \<not> edge_touches 2 x \<and> \<not> edge_touches 3 x) (active_edges (su_db S))"
proof -
  have X: "folded (dc_expirations (pl_dedup ex_plan)) (su_db S) = {2, 3}"
    using assms unfolding folded_def ex_plan_dedup
    by (auto intro: exI [of _ "\<lparr>ex_loser = 2, ex_survivor = 1\<rparr>"] exI [of _ "\<lparr>ex_loser = 3, ex_survivor = 1\<rparr>"])
  from apply_plan_ok [OF ex_plan_fits, where S = S and rfc = rfc] obtain stats ids S' where
    "apply_plan rfc 1 ex_plan S = (Inr (stats, ids), S')" "set ids = {2, 3}" "applied_plan ex_plan S S'"
    unfolding X by blast
  then show ?thesis by (fastforce simp: applied_plan_def X Let_def)
qed

lemma ex_link_two:
  assumes "active_edges (su_db S) = []" "fact_ids_of (su_db S) = {1, 2, 3, 4}" "1 \<in> scope_ids_of (su_db S)"
  shows "length (active_edges (su_db (fst (link_ids [1, 4] P 3 (S, g))))) = 2"
proof -
  let ?rel = "relation_from co_session_relation"
  have "list_active_pairs_by_facts (su_db S) [1, 4] co_session_relation = {}"
    using assms(1) by (auto simp: list_active_pairs_by_facts_def active_edges_def filter_empty_conv)
  moreover have "pairs_both_ways [1, 4] = [(1, 4), (4, 1)]" by (simp add: pairs_both_ways_def)
  ultimately obtain new D' where n:
      "insert_cosession_edges_atomic [1, 4] co_session_relation co_session_weight co_session_scope_id 3 (su_db S) =
        (Inr new, D')" and m: "map snd new = [(1, 4), (4, 1)]"
    using assms(2,3)
    by (simp add: insert_cosession_edges_atomic_def transaction_def op_bind_def edge_insert_def Let_def
        co_session_weight_def co_session_scope_id_def fact_ids_of_def scope_ids_of_def)
  from cosession_inserted(1) [OF n] obtain es where e: "active_edges D' = active_edges (su_db S) @ es"
    "map edge_triple es = map (cosession_triple ?rel co_session_weight) new" by blast
  have "length es = length new" using arg_cong [OF e(2), of length] by simp
  moreover have "length new = 2" using arg_cong [OF m, of length] by simp
  ultimately show ?thesis
    using n e(1) assms(1) by (simp add: link_ids_def on_facts_def on_log_def on_tables_def)
qed

definition expire_one :: "fact_id \<Rightarrow> time \<Rightarrow> summary_store \<times> 'g memory_graph \<Rightarrow> summary_store \<times> 'g memory_graph" where
  \<comment> \<open>another call expires a fact without edges\<close>
  "expire_one i now = (\<lambda>(S, g). (snd (on_facts (fact_expire i now) S), g))"

lemma older_facts_never_merged:
  \<comment> \<open>when no active fact was created after the last run, the plan folds nothing\<close>
  assumes "load_snapshot read_time edim config now S = Inr sn" "summary_inv edim S"
    and "get_config (su_log S) last_consolidated_at = Some s" "read_time s = Inr t"
    and "\<forall>f \<in> set (d_facts (su_db S)). \<not> t < f_t_created f"
    and "compute_plan sn gen emb edim config = Inr plan"
  shows "dc_expirations (pl_dedup plan) = []"
proof -
  note sn = snapshot_ok [OF assms(2,1)]
  have "sn_last sn = Some t" using sn(6) assms(3,4) by auto
  then have "new_facts_since (sn_last sn) (sn_active_facts sn) = []"
    using assms(5) sn(3) by (auto simp: new_facts_since_def filter_empty_conv)
  with compute_plan_parts(2) [OF assms(6)] show ?thesis
    by (auto simp: compute_dedup_def dedup_skipped_def empty_dedup_state_def Let_def split: if_splits)
qed

lemma ex_expired:
  "is_active (su_db (fst (expire_one 1 2 (ex_summaries, g)))) i \<longleftrightarrow> i \<in> {2, 3, 4}"
  "get_config (su_log (fst (expire_one 1 2 (ex_summaries, g)))) = Map.empty"
  "d_facts (su_db (fst (expire_one 1 2 (ex_summaries, g)))) =
    [(ex_fact 1 ''a'')\<lparr>f_t_expired := Some 2\<rparr>, ex_fact 2 ''b'', ex_fact 3 ''c'', ex_opposite]"
  by (auto simp: expire_one_def on_facts_def on_log_def on_tables_def fact_expire_def update_or_not_found_def
      ex_summaries_def ex_quartet_def ex_log_def get_config_def is_active_def is_active_row_def update_facts_def)

lemma ex_nothing_applied:
  assumes "\<not> is_active (su_db S) 1"
  shows "apply_plan rfc 1 ex_plan S =
    (Inr (\<lparr>ct_duplicates_removed = 0, ct_clusters_created = 0, ct_global_summaries = 0\<rparr>, []),
     S\<lparr>su_log := (su_log S)\<lparr>lg_config := AList.update last_consolidated_at (rfc 3) (lg_config (su_log S))\<rparr>\<rparr>)"
proof -
  have d: "apply_dedup (pl_dedup ex_plan) 3 (su_db S) =
      (Inr \<lparr>da_expired = [], da_survivor_lost = True\<rparr>, su_db S)"
    using assms by (simp add: ex_plan_dedup apply_dedup_def op_bind_def update_importance_scores_bulk_def
        expire_loser_def survivor_liveness_def Let_def)
  have p: "pl_now ex_plan = 3" "dc_skipped (pl_dedup ex_plan) = False" by (simp_all add: ex_plan_dedup) (simp add: ex_plan_def)
  have f: "on_facts (apply_dedup (pl_dedup ex_plan) 3) S = (Inr \<lparr>da_expired = [], da_survivor_lost = True\<rparr>, S)"
    using d by (simp add: on_facts_def on_log_def on_tables_def)
  show ?thesis
    unfolding apply_plan_def transaction_def op_bind_def p f
    by (simp add: Let_def on_log_def set_config_def plan_stats_def op_bind_def f)
qed

end
