(* ===== verification/Consolidation_Properties.thy ===== *)
theory Consolidation_Properties
  imports Consolidation_Graph
begin

text \<open>
  The properties of consolidation: what deduplication keeps, what the clusters are, that a plan may be
  applied to a store that has changed, that the graph stays in step, and where it does not.
\<close>

subsection \<open>Deduplication\<close>

text \<open>C33: on active facts with distinct ids and importances that are numbers, deduplication folds only
  unpinned duplicates, the less important into the more important; over a chain every loser has a
  representative that stays, is at least as important and ends with at least its score, and no score is
  made up; the base importances need no update; and of the facts that stay, no unpinned new one has an
  unpinned duplicate.\<close>

theorem dedup_is_sound:
  assumes "facts_ok F" and "length F \<le> max_facts" and "dc = compute_dedup F threshold max_facts since"
  shows "\<not> dc_skipped dc \<and> dc_importance_updates dc = [] \<and> distinct (map ex_loser (dc_expirations dc)) \<and>
    (\<forall>e \<in> set (dc_expirations dc). \<exists>l \<in> set F. \<exists>s \<in> set F. f_id l = ex_loser e \<and> f_id s = ex_survivor e \<and>
       f_id l \<noteq> f_id s \<and> \<not> f_is_pinned l \<and> \<not> f_is_pinned s \<and> duplicates threshold l s \<and>
       fl_le (f_base_importance l) (f_base_importance s)) \<and>
    (\<forall>l \<in> set F. f_id l \<in> losers (dc_expirations dc) \<longrightarrow> (\<exists>r \<in> set F. f_id r \<notin> losers (dc_expirations dc) \<and>
       (f_id l, f_id r) \<in> (absorbed (dc_expirations dc))\<^sup>+ \<and>
       fl_le (f_base_importance l) (f_base_importance r) \<and>
       fl_le (f_importance_score l) (live_score (dc_score_updates dc) r))) \<and>
    (\<forall>f \<in> set F. \<exists>g \<in> set F. live_score (dc_score_updates dc) f = f_importance_score g \<and>
       (g = f \<or> (f_id g, f_id f) \<in> (absorbed (dc_expirations dc))\<^sup>+)) \<and>
    (\<forall>n \<in> set (new_facts_since since F). \<forall>c \<in> set F. f_id c \<noteq> f_id n \<and> \<not> f_is_pinned n \<and> \<not> f_is_pinned c \<and>
       f_id n \<notin> losers (dc_expirations dc) \<and> f_id c \<notin> losers (dc_expirations dc) \<longrightarrow>
       \<not> duplicates threshold n c)"
proof -
  note C = compute_dedup_correct [OF assms]
  show ?thesis
  proof (intro conjI ballI impI, goal_cases)
    case (4 e)
    from C(6) [OF 4] show ?case by (auto simp: pair_ok_def)
  next
    case (5 l)
    from C(7) [OF 5] show ?case by (auto simp: represented_def)
  next
    case (7 n c)
    then show ?case using C(9) [of n c] by blast
  qed (use C(1-3) C(8) in auto)
qed

definition ex_pair :: "fact list" where "ex_pair = [ex_fact 1 ''a'', ex_fact 2 ''b'']"

lemma ex_pair_dedup:
  "compute_dedup ex_pair (Fin (9/10)) max_facts_for_dedup None =
    \<lparr>dc_skipped = False, dc_expirations = [\<lparr>ex_loser = 2, ex_survivor = 1\<rparr>], dc_importance_updates = [],
     dc_score_updates = []\<rparr>"
  by (simp add: compute_dedup_def ex_pair_def max_facts_for_dedup_def new_facts_since_def dedup_new_fact_def
      empty_dedup_state_def ex_dup ex_merge Let_def)

lemma ex_pair_ok: "facts_ok ex_pair"
  by (simp add: facts_ok_def ex_pair_def ex_fact_def)

theorem dedup_is_sound_witness:
  "losers (dc_expirations (compute_dedup ex_pair (Fin (9/10)) max_facts_for_dedup None)) = {2} \<and>
   (\<exists>r \<in> set ex_pair. f_id r = 1 \<and> fl_le (Fin (1/2)) (f_base_importance r))"
proof -
  have "length ex_pair \<le> max_facts_for_dedup" by (simp add: ex_pair_def max_facts_for_dedup_def)
  from dedup_is_sound [OF ex_pair_ok this refl, of "Fin (9/10)" None]
  have "\<exists>r \<in> set ex_pair. f_id r \<notin> {2} \<and> fl_le (f_base_importance (ex_fact 2 ''b'')) (f_base_importance r)"
    unfolding ex_pair_dedup by (auto simp: ex_pair_def losers_def ex_fact_def)
  then show ?thesis unfolding ex_pair_dedup by (auto simp: losers_def ex_pair_def ex_fact_def)
qed

subsection \<open>Clusters\<close>

text \<open>C34: a clustering run summarises exactly the connected components of the relation "more similar than
  the threshold" that have the minimum size, each fact is in one component, and a summary is stored
  under the scope most members of its component have, the lowest such scope on a tie.\<close>

theorem clusters_are_components:
  assumes "compute_clusters facts gen emb params = Inr c" and "cl_ran c"
    and "t = cp_cluster_threshold params"
  shows "(\<forall>i < length facts. \<forall>j < length facts. (\<exists>K \<in> set (greedy_cluster facts t). i \<in> set K \<and> j \<in> set K) \<longleftrightarrow>
       (more_similar facts t)\<^sup>*\<^sup>* i j) \<and>
    distinct (concat (greedy_cluster facts t)) \<and> set (concat (greedy_cluster facts t)) = {..<length facts} \<and>
    map ns_source_fact_ids (cl_summaries c) = map (map (\<lambda>i. f_id (facts ! i)))
      (filter (\<lambda>K. cp_min_cluster_size params \<le> length K) (greedy_cluster facts t)) \<and>
    (\<forall>s \<in> set (cl_summaries c). \<exists>K \<in> set (greedy_cluster facts t).
       ns_source_fact_ids s = map (\<lambda>i. f_id (facts ! i)) K \<and>
       (let scopes = map (\<lambda>i. f_scope_id (facts ! i)) K in ns_scope_id s \<in> set scopes \<and>
         (\<forall>x \<in> set scopes. count_list scopes x < count_list scopes (ns_scope_id s) \<or>
            (count_list scopes x = count_list scopes (ns_scope_id s) \<and> ns_scope_id s \<le> x))))"
proof -
  note C = compute_clusters_ok [OF assms(1)] and G = greedy_cluster_components [where facts = facts and t = t]
  have big: "big_clusters facts params =
      filter (\<lambda>K. cp_min_cluster_size params \<le> length K) (greedy_cluster facts t)"
    by (simp add: big_clusters_def assms(3) not_less)
  have "\<exists>K \<in> set (greedy_cluster facts t). ns_source_fact_ids s = map (\<lambda>i. f_id (facts ! i)) K \<and>
      (let scopes = map (\<lambda>i. f_scope_id (facts ! i)) K in ns_scope_id s \<in> set scopes \<and>
         (\<forall>x \<in> set scopes. count_list scopes x < count_list scopes (ns_scope_id s) \<or>
            (count_list scopes x = count_list scopes (ns_scope_id s) \<and> ns_scope_id s \<le> x)))"
    if s: "s \<in> set (cl_summaries c)" for s
  proof -
    from C(4) [OF s] obtain K where K: "K \<in> set (big_clusters facts params)"
      "summarize_cluster facts gen emb params K = Inr s" by blast
    note sc = summarize_cluster_ok [OF K(2)]
    have "map (\<lambda>i. f_scope_id (facts ! i)) K \<noteq> []" using big_cluster_members(1) [OF K(1)] by simp
    note maj = majority_scope_correct [OF this]
    show ?thesis
    proof (intro bexI conjI)
      show "K \<in> set (greedy_cluster facts t)" using K(1) big by simp
      show "ns_source_fact_ids s = map (\<lambda>i. f_id (facts ! i)) K" by (rule sc(2))
      show "let scopes = map (\<lambda>i. f_scope_id (facts ! i)) K in ns_scope_id s \<in> set scopes \<and>
         (\<forall>x \<in> set scopes. count_list scopes x < count_list scopes (ns_scope_id s) \<or>
            (count_list scopes x = count_list scopes (ns_scope_id s) \<and> ns_scope_id s \<le> x))"
        unfolding sc(5) Let_def using maj by blast
    qed
  qed
  then show ?thesis using G C(3) [OF assms(2)] unfolding big by blast
qed

definition ex_cluster_params :: cluster_params where
  "ex_cluster_params = \<lparr>cp_embed_dim = 1, cp_min_cluster_size = 2, cp_cluster_threshold = Fin (85/100),
     cp_max_facts = max_facts_for_clustering, cp_now = 3\<rparr>"

lemma ex_similar: "fl_lt (Fin (85/100)) (cosine_similarity [Fin 1] [Fin 1])"
  by (simp add: cosine_similarity_def cosine_step_def fl_mul_add_def)

lemma ex_pair_cluster [simplified]: "greedy_cluster ex_pair (Fin (85/100)) = [[0, 1]]"
proof -
  have s [simplified]: "similar_to ex_pair (Fin (85/100)) 0 = [0, 1]" "similar_to ex_pair (Fin (85/100)) 1 = [0, 1]"
    using ex_similar by (auto simp: similar_to_def ex_pair_def less_Suc_eq numeral_2_eq_2)
  have l: "length ex_pair = 2" by (simp add: ex_pair_def)
  show ?thesis
    by (simp add: greedy_cluster_def l start_cluster_def s numeral_2_eq_2)
qed

lemma ex_pair_computed:
  "compute_clusters ex_pair (\<lambda>_. Inr ''s'') ex_embedder ex_cluster_params =
     Inr \<lparr>cl_ran = True, cl_summaries = [\<lparr>ns_content = ''s'', ns_embedding = [Fin 1], ns_level = ClusterLevel,
       ns_source_fact_ids = [1, 2], ns_created_at = 3, ns_scope_id = 1\<rparr>]\<rparr>"
proof -
  have v: "majority_scope [1, 1] = 1"
    using majority_scope_correct(1) [of "[1, 1]"] by simp
  have l: "length ex_pair = 2" by (simp add: ex_pair_def)
  show ?thesis
    by (simp add: compute_clusters_def l ex_cluster_params_def ex_pair_cluster and_then_def
        summarize_cluster_def summarize_and_embed_def ex_embedder_def Let_def max_facts_for_clustering_def)
      (simp add: ex_pair_def v)
qed

theorem clusters_are_components_witness:
  "(more_similar ex_pair (Fin (85/100)))\<^sup>*\<^sup>* 0 1 \<and>
   (\<exists>K \<in> set (greedy_cluster ex_pair (Fin (85/100))). 0 \<in> set K \<and> 1 \<in> set K)"
proof -
  have t: "Fin (85/100) = cp_cluster_threshold ex_cluster_params" by (simp add: ex_cluster_params_def)
  from clusters_are_components [OF ex_pair_computed _ t, THEN conjunct1]
  have "(\<exists>K \<in> set (greedy_cluster ex_pair (Fin (85/100))). 0 \<in> set K \<and> 1 \<in> set K) \<longleftrightarrow>
      (more_similar ex_pair (Fin (85/100)))\<^sup>*\<^sup>* 0 1"
    by (simp add: ex_pair_def [THEN arg_cong, of length])
  then show ?thesis by (simp add: ex_pair_cluster)
qed

subsection \<open>Applying a plan to a store that changed\<close>

text \<open>C18: a plan made from a snapshot can be applied to any later state of the store that has the
  scopes and fits the embedding identity, whatever facts were expired or changed in between: the transaction
  succeeds, exactly the losers that were still active and whose survivor was still active are expired,
  and each of them has, over the chain of absorptions, a representative that is active afterwards.\<close>

theorem plan_applies_after_changes:
  assumes inv: "summary_inv edim S0" and snap: "load_snapshot read_time edim config now S0 = Inr sn"
    and fin: "\<forall>f \<in> set (d_facts (su_db S0)). fl_is_finite (f_importance_score f)"
    and plan: "compute_plan sn gen emb edim config = Inr plan"
    and later: "scope_ids_of (su_db S0) \<subseteq> scope_ids_of (su_db S)" "identity_fits edim (su_db S) (em_fingerprint emb)"
  shows "\<exists>stats ids S'. apply_plan rfc edim plan S = (Inr (stats, ids), S') \<and> applied_plan plan S S' \<and>
    set ids = {ex_loser e |e. e \<in> set (dc_expirations (pl_dedup plan)) \<and>
      is_active (su_db S) (ex_survivor e) \<and> is_active (su_db S) (ex_loser e)} \<and>
    (\<forall>i \<in> set ids. \<exists>r. (i, r) \<in> (absorbed (dc_expirations (pl_dedup plan)))\<^sup>+ \<and> is_active (su_db S') r)"
proof -
  note sn = snapshot_ok [OF inv snap]
  have D: "db_inv edim (su_db S0)" using inv by (simp add: summary_inv_def log_inv_def)
  have sc: "\<forall>f \<in> set (sn_active_facts sn). f_scope_id f \<in> scope_ids_of (su_db S)" "1 \<in> scope_ids_of (su_db S)"
    using sn(3) D later(1) root_scope [OF D] by (auto simp: db_inv_def list_all_iff fact_row_ok_def)
  have "plan_fits edim (su_db S) plan"
    by (rule compute_plan_fits [OF plan sn(2) _ sc later(2)]) (use fin sn(3) in auto)
  from apply_plan_ok [OF this, of rfc] obtain stats ids S' where
    a: "apply_plan rfc edim plan S = (Inr (stats, ids), S')" "applied_plan plan S S'"
      "set ids = folded (dc_expirations (pl_dedup plan)) (su_db S)" by blast
  let ?es = "dc_expirations (pl_dedup plan)"
  have dd: "distinct (map ex_loser ?es) \<and> (\<forall>i \<in> losers ?es. \<exists>r. (i, r) \<in> (absorbed ?es)\<^sup>+ \<and> r \<notin> losers ?es)"
  proof (cases "?es = []")
    case False
    with compute_plan_parts(2) [OF plan] have dc: "pl_dedup plan =
        compute_dedup (sn_active_facts sn) (cc_dedup_threshold config) max_facts_for_dedup (sn_last sn)"
      by (auto simp: dedup_skipped_def split: if_splits)
    then have "length (sn_active_facts sn) \<le> max_facts_for_dedup"
      using False by (auto simp: compute_dedup_def dedup_skipped_def split: if_splits)
    note C = compute_dedup_correct [OF sn(2) this dc]
    have "\<exists>r. (i, r) \<in> (absorbed ?es)\<^sup>+ \<and> r \<notin> losers ?es" if i: "i \<in> losers ?es" for i
    proof -
      from i obtain e where "e \<in> set ?es" "ex_loser e = i" by (auto simp: losers_def)
      with C(6) obtain l where "l \<in> set (sn_active_facts sn)" "f_id l = i" by blast
      with C(7) [of l] i show ?thesis by (auto simp: represented_def)
    qed
    with C(3) show ?thesis by blast
  qed simp
  have "\<exists>r. (i, r) \<in> (absorbed ?es)\<^sup>+ \<and> is_active (su_db S') r" if "i \<in> set ids" for i
  proof -
    from plan_has_representatives [OF conjunct1 [OF dd] conjunct2 [OF dd], of i "su_db S"] that a(3)
    obtain r where "(i, r) \<in> (absorbed ?es)\<^sup>+" "is_active (su_db S) r" "r \<notin> folded ?es (su_db S)" by blast
    moreover then have "is_active (su_db S') r" using a(2) by (simp add: applied_plan_def Let_def)
    ultimately show ?thesis by blast
  qed
  with a show ?thesis unfolding folded_def by blast
qed

theorem plan_applies_after_changes_witness:
  "\<exists>stats ids S'. apply_plan (\<lambda>_. ''t'') 1 ex_plan
       (fst (expire_one 2 2 (ex_summaries, from_active_edges list_petgraph []))) = (Inr (stats, ids), S') \<and>
     set ids = {3} \<and> is_active (su_db S') 1"
proof -
  define S where "S = fst (expire_one 2 2 (ex_summaries, from_active_edges list_petgraph []))"
  have S: "is_active (su_db S) i \<longleftrightarrow> i \<in> {1, 3, 4}" "scope_ids_of (su_db S) = scope_ids_of (su_db ex_summaries)"
    "d_identity (su_db S) = None" for i
    by (auto simp: S_def expire_one_def on_facts_def on_log_def on_tables_def fact_expire_def
      update_or_not_found_def ex_summaries_def ex_quartet_def ex_log_def ex_db_def is_active_def is_active_row_def
      update_facts_def scope_ids_of_def)
  have fin: "\<forall>f \<in> set (d_facts (su_db ex_summaries)). fl_is_finite (f_importance_score f)"
    by (simp add: ex_summaries_def ex_quartet_def)
  have id: "identity_fits 1 (su_db S) (em_fingerprint ex_embedder)"
    by (simp add: identity_fits_def S(3)) (simp add: ex_embedder_def)
  from plan_applies_after_changes [OF ex_summaries_inv ex_load fin ex_compute_plan _ id, of "\<lambda>_. ''t''"]
  obtain stats ids S' where a: "apply_plan (\<lambda>_. ''t'') 1 ex_plan S = (Inr (stats, ids), S')"
    "set ids = {ex_loser e |e. e \<in> set (dc_expirations (pl_dedup ex_plan)) \<and>
      is_active (su_db S) (ex_survivor e) \<and> is_active (su_db S) (ex_loser e)}"
    "\<forall>i \<in> set ids. \<exists>r. (i, r) \<in> (absorbed (dc_expirations (pl_dedup ex_plan)))\<^sup>+ \<and> is_active (su_db S') r"
    by (auto simp: S(2))
  have ids: "set ids = {3}" using a(2)
    by (auto simp: ex_plan_dedup S(1) intro: exI [of _ "\<lparr>ex_loser = 3, ex_survivor = 1\<rparr>"])
  have "absorbed (dc_expirations (pl_dedup ex_plan)) = {(2, 1), (3, 1)}"
    by (auto simp: absorbed_def ex_plan_dedup)
  then have "r = 1" if "(3, r) \<in> (absorbed (dc_expirations (pl_dedup ex_plan)))\<^sup>+" for r
  proof -
    from that obtain y where y: "(3 :: fact_id, y) \<in> {(2, 1), (3, 1)}" "(y, r) \<in> {(2, 1), (3, 1)}\<^sup>*"
      unfolding \<open>absorbed _ = _\<close> using tranclD by metis
    then have "y = 1" by simp
    with y(2) show ?thesis by (cases rule: converse_rtranclE) auto
  qed
  with a(3) ids have "is_active (su_db S') 1" by auto
  with a(1) ids show ?thesis unfolding S_def by blast
qed

subsection \<open>The graph\<close>

text \<open>C35: when the other calls that run while no lock is held keep the store and the graph in step, and
  none runs between the read of the active edges and the replacement of the graph, consolidation keeps them
  in step on every outcome, a failed transaction included: the graph has exactly the active edges.\<close>

theorem consolidate_graph_in_step:
  assumes "petgraph_laws P" and "in_step (ctx_embed_dim ctx) P s"
    and "\<And>s. in_step (ctx_embed_dim ctx) P s \<Longrightarrow> in_step (ctx_embed_dim ctx) P (while_computing s)"
    and "consolidate E P ctx config now while_computing (\<lambda>s. s) s = (r, s')"
  shows "in_step (ctx_embed_dim ctx) P s'"
proof -
  let ?I = "in_step (ctx_embed_dim ctx) P"
  have a: "keeps ?I (on_both while_computing)" using assms(3) by (auto simp: keeps_def on_both_def)
  have b: "keeps ?I (op_bind (on_store (apply_plan rfc (ctx_embed_dim ctx) plan)) (\<lambda>(stats, expired_ids).
      if expired_ids = [] then op_return stats
      else op_bind (op_reads (\<lambda>(S, g). Inr (list_active_edges (su_db S)))) (\<lambda>edges.
           op_bind (on_both (\<lambda>s. s)) (\<lambda>_. op_bind (on_index (\<lambda>_. from_active_edges P edges)) (\<lambda>_.
           op_return stats)))))" for rfc plan
    using apply_and_replace [OF assms(1)] by (auto simp: keeps_def)
  have "keeps ?I (consolidate E P ctx config now while_computing (\<lambda>s. s))"
    unfolding consolidate_def by (intro keeps_bind keeps_of keeps_reads a b)
  from keepsD [OF this assms(2,4)] show ?thesis .
qed

theorem consolidate_graph_in_step_witness:
  "in_step 1 list_petgraph (snd (consolidate ex_cenv list_petgraph ex_ctx ex_consolidation 3 (\<lambda>s. s) (\<lambda>s. s)
     (ex_summaries, from_active_edges list_petgraph [])))"
proof -
  let ?c = "consolidate ex_cenv list_petgraph ex_ctx ex_consolidation 3 (\<lambda>s. s) (\<lambda>s. s)
     (ex_summaries, from_active_edges list_petgraph [])"
  have c: "ctx_embed_dim ex_ctx = 1" by (simp add: ex_ctx_def)
  from consolidate_graph_in_step [of list_petgraph ex_ctx _ "\<lambda>s. s", unfolded c, OF lpg.petgraph_laws_axioms
    ex_in_step _ surjective_pairing] show ?thesis by simp
qed


subsection \<open>The watermark\<close>


end
