(* ===== verification/Space_Store.thy ===== *)
theory Space_Store
  imports Summary_Store "HOL-Library.Char_ord" "HOL-Library.List_Lexorder" "HOL-Library.Product_Lexorder"
begin

text \<open>
  The registry of embedding spaces (\<open>me-backend-sqlite/src/store/embedding_spaces.rs\<close>) and the vectors
  of the spaces that are not active (\<open>store/fact_vectors.rs\<close>), beside the other tables in
  \<open>space_store\<close>. The vectors of the active space are the embeddings of the facts.

  A row of the registry carries its time of creation, which the list is ordered by. The other
  stores see of the registry the fingerprint of the active row, \<open>d_identity\<close>; \<open>set_spaces\<close> writes the
  rows and keeps the two in agreement. The partial unique index allows one active row.
\<close>

subsection \<open>The registry\<close>

datatype space_status = SpaceActive | SpacePopulating | SpaceDeprecated

fun as_sql :: "space_status \<Rightarrow> string" where
  "as_sql SpaceActive = ''active''"
| "as_sql SpacePopulating = ''populating''"
| "as_sql SpaceDeprecated = ''deprecated''"

fun status_debug :: "space_status \<Rightarrow> string" where
  \<comment> \<open>the derived \<open>Debug\<close>\<close>
  "status_debug SpaceActive = ''Active''"
| "status_debug SpacePopulating = ''Populating''"
| "status_debug SpaceDeprecated = ''Deprecated''"

definition from_sql :: "string \<Rightarrow> space_status result" where
  "from_sql s =
     (if s = ''active'' then Inr SpaceActive else if s = ''populating'' then Inr SpacePopulating
      else if s = ''deprecated'' then Inr SpaceDeprecated
      else Inl (Migration (Incompatible (Fmt ''corrupt embedding_spaces.status: {}'' [AStr s]))))"

record embedding_space =
  es_name :: string
  es_fingerprint :: fingerprint
  es_status :: space_status

record fact_vector =
  fv_fact_id :: fact_id
  fv_space_id :: string
  fv_embedding :: "fl list"

record space_store =
  sp_tables :: summary_store
  sp_spaces :: "(embedding_space \<times> time) list"
  sp_vectors :: "fact_vector list"

abbreviation sp_db :: "space_store \<Rightarrow> db" where "sp_db S \<equiv> su_db (sp_tables S)"

definition default_name :: string where "default_name = ''default''"

definition is_active_space :: "embedding_space \<times> time \<Rightarrow> bool" where
  "is_active_space r \<longleftrightarrow> es_status (fst r) = SpaceActive"

definition space_names :: "space_store \<Rightarrow> string set" where
  "space_names S = (es_name \<circ> fst) ` set (sp_spaces S)"

definition active_fingerprint :: "(embedding_space \<times> time) list \<Rightarrow> fingerprint option" where
  "active_fingerprint rows = map_option (es_fingerprint \<circ> fst) (List.find is_active_space rows)"

definition map_db :: "(db \<Rightarrow> db) \<Rightarrow> space_store \<Rightarrow> space_store" where
  "map_db g S = S\<lparr>sp_tables := (sp_tables S)\<lparr>su_log := (su_log (sp_tables S))\<lparr>lg_db := g (sp_db S)\<rparr>\<rparr>\<rparr>"

definition set_spaces :: "(embedding_space \<times> time) list \<Rightarrow> space_store \<Rightarrow> space_store" where
  "set_spaces rows S = map_db (\<lambda>D. D\<lparr>d_identity := active_fingerprint rows\<rparr>) (S\<lparr>sp_spaces := rows\<rparr>)"

definition find_active :: "space_store \<Rightarrow> embedding_space option result" where
  "find_active S =
     (case filter is_active_space (sp_spaces S) of
        [] \<Rightarrow> Inr None
      | [r] \<Rightarrow> Inr (Some (fst r))
      | _ \<Rightarrow> Inl (Internal (Lit
          ''multiple active embedding spaces - single-active invariant corrupted'')))"

definition find_by_name :: "space_store \<Rightarrow> string \<Rightarrow> embedding_space option" where
  "find_by_name S name = map_option fst (List.find (\<lambda>r. es_name (fst r) = name) (sp_spaces S))"

definition list_spaces :: "space_store \<Rightarrow> embedding_space list" where
  "list_spaces S = map fst (sort_key (\<lambda>(s, t). (t, es_name s)) (sp_spaces S))"

definition dims_to_sql :: "fingerprint \<Rightarrow> unit result" where
  "dims_to_sql fp =
     (if i64_max < fp_dim fp then Inl (Internal (Lit ''embedding dim exceeds i64''))
      else case fp_matryoshka_base_dim fp of
          None \<Rightarrow> Inr ()
        | Some b \<Rightarrow> if i64_max < b then Inl (Internal (Lit ''matryoshka_base_dim exceeds i64'')) else Inr ())"

definition single_active_violation :: memory_error where
  "single_active_violation = Internal (Lit
     ''embedding_spaces single-active invariant violated: attempted a second active space (#622 partial unique index)'')"

definition insert_space_row :: "time \<Rightarrow> embedding_space \<Rightarrow> (space_store, unit) op" where
  "insert_space_row created s S =
     (if es_name s \<in> space_names S
      then (Inl (backend_error ''UNIQUE constraint failed: embedding_spaces.name''), S)
      else if es_status s = SpaceActive \<and> filter is_active_space (sp_spaces S) \<noteq> []
      then (Inl single_active_violation, S)
      else (Inr (), set_spaces (sp_spaces S @ [(s, created)]) S))"

definition insert_active :: "time \<Rightarrow> embedding_space \<Rightarrow> (space_store, unit) op" where
  "insert_active created s =
     op_bind (op_of (dims_to_sql (es_fingerprint s))) (\<lambda>_. insert_space_row created s)"

definition insert_populating :: "time \<Rightarrow> embedding_space \<Rightarrow> (space_store, unit) op" where
  "insert_populating created s =
     op_bind (op_of (dims_to_sql (es_fingerprint s))) (\<lambda>_.
       insert_space_row created (s\<lparr>es_status := SpacePopulating\<rparr>))"

definition begin_populating :: "time \<Rightarrow> embedding_space \<Rightarrow> (space_store, unit) op" where
  "begin_populating created s S =
     (case find_by_name S (es_name s) of
        None \<Rightarrow> insert_populating created s S
      | Some existing \<Rightarrow>
          if es_status existing = SpacePopulating \<and> es_fingerprint existing = es_fingerprint s
          then (Inr (), S)
          else (Inl (Internal (Fmt
            ''begin_populating: space {:?} already exists with status {}; cannot reopen as populating''
            [AStr (es_name s), AStr (status_debug (es_status existing))])), S))"

definition set_status :: "string \<Rightarrow> space_status \<Rightarrow> (embedding_space \<times> time) list \<Rightarrow> (embedding_space \<times> time) list" where
  "set_status name st rows =
     map (\<lambda>(s, t). (if es_name s = name then s\<lparr>es_status := st\<rparr> else s, t)) rows"

definition deprecate :: "string \<Rightarrow> (space_store, unit) op" where
  "deprecate name S = (Inr (), set_spaces (set_status name SpaceDeprecated (sp_spaces S)) S)"

definition activate :: "string \<Rightarrow> (space_store, unit) op" where
  "activate name S =
     (if name \<in> space_names S \<and> (\<exists>r \<in> set (sp_spaces S). is_active_space r \<and> es_name (fst r) \<noteq> name)
      then (Inl single_active_violation, S)
      else (Inr (), set_spaces (set_status name SpaceActive (sp_spaces S)) S))"

definition upsert_active_fingerprint :: "time \<Rightarrow> fingerprint \<Rightarrow> (space_store, unit) op" where
  "upsert_active_fingerprint created fp =
     op_bind (op_of (dims_to_sql fp)) (\<lambda>_ S.
       if filter is_active_space (sp_spaces S) \<noteq> []
       then (Inr (), set_spaces (map (\<lambda>(s, t). (if es_status s = SpaceActive
               then s\<lparr>es_fingerprint := fp\<rparr> else s, t)) (sp_spaces S)) S)
       else if default_name \<in> space_names S
       then (Inl (backend_error ''UNIQUE constraint failed: embedding_spaces.name''), S)
       else (Inr (), set_spaces (sp_spaces S @ [(\<lparr>es_name = default_name, es_fingerprint = fp,
               es_status = SpaceActive\<rparr>, created)]) S))"

subsection \<open>The vectors of the other spaces\<close>

definition has_vector :: "space_store \<Rightarrow> string \<Rightarrow> fact_id \<Rightarrow> bool" where
  "has_vector S space i \<longleftrightarrow> (\<exists>v \<in> set (sp_vectors S). fv_fact_id v = i \<and> fv_space_id v = space)"

definition vector_of :: "space_store \<Rightarrow> string \<Rightarrow> fact_id \<Rightarrow> fl list option" where
  "vector_of S space i =
     map_option fv_embedding (List.find (\<lambda>v. fv_fact_id v = i \<and> fv_space_id v = space) (sp_vectors S))"

definition next_backfill_window ::
    "space_store \<Rightarrow> string \<Rightarrow> fact_id \<Rightarrow> nat \<Rightarrow> (fact_id \<times> string) list result" where
  "next_backfill_window S space after_id limit =
     (if i64_max < limit then Inl (Internal (Lit ''backfill window limit exceeds i64''))
      else Inr (take limit (map (\<lambda>f. (f_id f, f_content f))
        (filter (\<lambda>f. \<not> has_vector S space (f_id f) \<and> after_id < f_id f)
          (sort_key f_id (d_facts (sp_db S)))))))"

definition insert_vector :: "string \<Rightarrow> fact_id \<times> fl list \<Rightarrow> nat \<Rightarrow> (space_store, nat) op" where
  \<comment> \<open>\<open>ON CONFLICT DO NOTHING\<close>; the number of rows inserted so far\<close>
  "insert_vector space new_row inserted S =
     (if has_vector S space (fst new_row) then (Inr inserted, S)
      else if fst new_row \<notin> fact_ids_of (sp_db S) \<or> space \<notin> space_names S then (Inl foreign_key_error, S)
      else (Inr (inserted + 1), S\<lparr>sp_vectors := sp_vectors S @
              [\<lparr>fv_fact_id = fst new_row, fv_space_id = space, fv_embedding = snd new_row\<rparr>]\<rparr>))"

definition write_backfill_batch :: "string \<Rightarrow> (fact_id \<times> fl list) list \<Rightarrow> (space_store, nat) op" where
  "write_backfill_batch space rows = transaction (op_fold (insert_vector space) rows 0)"

definition count_unbackfilled :: "space_store \<Rightarrow> string \<Rightarrow> nat" where
  "count_unbackfilled S space =
     length (filter (\<lambda>f. \<not> has_vector S space (f_id f)) (d_facts (sp_db S)))"

subsection \<open>The promotion\<close>

record promote_outcome =
  po_promoted :: nat
  po_deprecated_space :: string
  po_new_fingerprint :: fingerprint
  po_stragglers_caught :: nat
  po_rebuild_index :: bool

definition retain_vectors :: "string \<Rightarrow> (space_store, unit) op" where
  \<comment> \<open>the old vectors, kept for a rollback\<close>
  "retain_vectors space S =
     (if \<exists>f \<in> set (d_facts (sp_db S)). has_vector S space (f_id f)
      then (Inl (backend_error ''UNIQUE constraint failed: fact_vectors.fact_id, fact_vectors.space_id''), S)
      else (Inr (), S\<lparr>sp_vectors := sp_vectors S @ map (\<lambda>f. \<lparr>fv_fact_id = f_id f, fv_space_id = space,
              fv_embedding = f_embedding f\<rparr>) (d_facts (sp_db S))\<rparr>))"

definition copy_swap :: "string \<Rightarrow> (space_store, nat) op" where
  "copy_swap space S =
     (if \<exists>f \<in> set (d_facts (sp_db S)). vector_of S space (f_id f) = None then (Inl not_null_error, S)
      else (Inr (length (d_facts (sp_db S))),
            map_db (\<lambda>D. D\<lparr>d_facts := map (\<lambda>f. case vector_of S space (f_id f) of
                None \<Rightarrow> f | Some e \<Rightarrow> f\<lparr>f_embedding := e\<rparr>) (d_facts D)\<rparr>) S))"

definition drop_vectors :: "string \<Rightarrow> (space_store, unit) op" where
  "drop_vectors space S =
     (Inr (), S\<lparr>sp_vectors := filter (\<lambda>v. fv_space_id v \<noteq> space) (sp_vectors S)\<rparr>)"

definition space_to_swap_over :: "space_store \<Rightarrow> embedding_space result" where
  "space_to_swap_over S = and_then (find_active S) (\<lambda>a. case a of
       None \<Rightarrow> Inl (Internal (Lit ''promote: no active embedding space to swap over''))
     | Some s \<Rightarrow> Inr s)"

definition space_to_promote :: "string \<Rightarrow> space_store \<Rightarrow> embedding_space result" where
  "space_to_promote populating S = (case find_by_name S populating of
       None \<Rightarrow> Inl (Internal (Fmt ''promote: populating space {:?} not found'' [AStr populating]))
     | Some new \<Rightarrow>
         if es_status new \<noteq> SpacePopulating
         then Inl (Internal (Fmt ''promote: space {:?} is {}, expected populating''
           [AStr populating, AStr (status_debug (es_status new))]))
         else Inr new)"

definition completeness_gate :: "string \<Rightarrow> space_store \<Rightarrow> unit result" where
  "completeness_gate populating S =
     (let missing = count_unbackfilled S populating in
      if missing \<noteq> 0
      then Inl (Internal (Fmt ''promote: {} fact(s) un-backfilled in {:?} - backfill before promote''
        [ANat missing, AStr populating]))
      else Inr ())"

definition promote_space :: "string \<Rightarrow> (space_store, promote_outcome) op" where
  "promote_space populating =
     transaction (
       op_bind (op_reads space_to_swap_over) (\<lambda>active.
       op_bind (op_reads (space_to_promote populating)) (\<lambda>new.
       op_bind (op_reads (completeness_gate populating)) (\<lambda>_.
       op_bind (retain_vectors (es_name active)) (\<lambda>_.
       op_bind (copy_swap populating) (\<lambda>promoted.
       op_bind (deprecate (es_name active)) (\<lambda>_.
       op_bind (activate populating) (\<lambda>_.
       op_bind (drop_vectors populating) (\<lambda>_.
       op_return \<lparr>po_promoted = promoted, po_deprecated_space = es_name active,
         po_new_fingerprint = es_fingerprint new, po_stragglers_caught = 0,
         po_rebuild_index = True\<rparr>)))))))))"

subsection \<open>Reading the vectors for the dump\<close>

definition deserialize_vector :: "nat \<Rightarrow> fact_vector \<Rightarrow> fact_vector result" where
  "deserialize_vector width v =
     (if length (fv_embedding v) \<noteq> width then Inl (EmbeddingDimension width (length (fv_embedding v)))
      else Inr v)"

definition list_vectors :: "nat \<Rightarrow> space_store \<Rightarrow> fact_vector list result" where
  \<comment> \<open>the rows \<open>for_each\<close> gives its callback, each at the dimension of its space\<close>
  "list_vectors edim S =
     (let dims = map_of (map (\<lambda>s. (es_name s, fp_dim (es_fingerprint s))) (list_spaces S)) in
      map_res (\<lambda>v. deserialize_vector (case dims (fv_space_id v) of None \<Rightarrow> edim | Some d \<Rightarrow> d) v)
        (sort_key (\<lambda>v. (fv_space_id v, fv_fact_id v)) (sp_vectors S)))"

subsection \<open>The invariant\<close>

definition spaces_inv :: "(embedding_space \<times> time) list \<Rightarrow> bool" where
  "spaces_inv rows \<longleftrightarrow> distinct (map (es_name \<circ> fst) rows) \<and> length (filter is_active_space rows) \<le> 1"

definition vector_ok :: "space_store \<Rightarrow> fact_vector \<Rightarrow> bool" where
  \<comment> \<open>the foreign keys, and no vectors of the active space\<close>
  "vector_ok S v \<longleftrightarrow> fv_fact_id v \<in> fact_ids_of (sp_db S) \<and> fv_space_id v \<in> space_names S \<and>
     (\<forall>r \<in> set (sp_spaces S). is_active_space r \<longrightarrow> es_name (fst r) \<noteq> fv_space_id v)"

definition vectors_inv :: "space_store \<Rightarrow> bool" where
  "vectors_inv S \<longleftrightarrow> spaces_inv (sp_spaces S) \<and>
     d_identity (sp_db S) = active_fingerprint (sp_spaces S) \<and>
     distinct (map (\<lambda>v. (fv_fact_id v, fv_space_id v)) (sp_vectors S)) \<and>
     list_all (vector_ok S) (sp_vectors S)"

definition space_inv :: "nat \<Rightarrow> space_store \<Rightarrow> bool" where
  "space_inv edim S \<longleftrightarrow> log_inv edim (su_log (sp_tables S)) \<and> vectors_inv S"

lemma map_db_simps [simp]:
  "sp_db (map_db g S) = g (sp_db S)" "sp_spaces (map_db g S) = sp_spaces S"
  "sp_vectors (map_db g S) = sp_vectors S" "space_names (map_db g S) = space_names S"
  "su_summaries (sp_tables (map_db g S)) = su_summaries (sp_tables S)"
  "lg_events (su_log (sp_tables (map_db g S))) = lg_events (su_log (sp_tables S))"
  "lg_lineage (su_log (sp_tables (map_db g S))) = lg_lineage (su_log (sp_tables S))"
  "lg_lineage_seq (su_log (sp_tables (map_db g S))) = lg_lineage_seq (su_log (sp_tables S))"
  "lg_config (su_log (sp_tables (map_db g S))) = lg_config (su_log (sp_tables S))"
  by (simp_all add: map_db_def space_names_def)

lemma set_spaces_simps [simp]:
  "sp_spaces (set_spaces rows S) = rows" "sp_vectors (set_spaces rows S) = sp_vectors S"
  "sp_db (set_spaces rows S) = (sp_db S)\<lparr>d_identity := active_fingerprint rows\<rparr>"
  "space_names (set_spaces rows S) = (es_name \<circ> fst) ` set rows"
  "su_summaries (sp_tables (set_spaces rows S)) = su_summaries (sp_tables S)"
  by (simp_all add: set_spaces_def space_names_def)

lemma fact_ids_set_spaces [simp]: "fact_ids_of (sp_db (set_spaces rows S)) = fact_ids_of (sp_db S)"
  by (simp add: fact_ids_of_def)

lemma log_inv_map_db:
  assumes "log_inv edim (su_log (sp_tables S))" and "db_inv edim' (g (sp_db S))"
    and "d_events (g (sp_db S)) = d_events (sp_db S)" "d_event_seq (g (sp_db S)) = d_event_seq (sp_db S)"
    and "scope_ids_of (g (sp_db S)) = scope_ids_of (sp_db S)" "fact_ids_of (g (sp_db S)) = fact_ids_of (sp_db S)"
  shows "log_inv edim' (su_log (sp_tables (map_db g S)))"
  using assms unfolding log_inv_def map_db_simps by simp

lemma db_inv_identity [simp]: "db_inv edim (D\<lparr>d_identity := x\<rparr>) = db_inv edim D"
  by (simp add: db_inv_def list_all_iff fact_row_ok_def edge_row_ok_def scope_ids_of_def fact_ids_of_def)

lemma log_inv_set_spaces:
  "log_inv edim (su_log (sp_tables S)) \<Longrightarrow> log_inv edim (su_log (sp_tables (set_spaces rows S)))"
  unfolding set_spaces_def
  by (rule log_inv_map_db [of edim "S\<lparr>sp_spaces := rows\<rparr>"])
    (simp_all add: scope_ids_of_def fact_ids_of_def log_inv_def)

lemma spaces_inv_Cons:
  assumes "spaces_inv rows" "is_active_space r" "r \<in> set rows" "is_active_space q" "q \<in> set rows"
  shows "r = q"
proof -
  have "\<exists>x. filter is_active_space rows = [x]"
    using assms by (cases "filter is_active_space rows"; auto simp: spaces_inv_def filter_empty_conv)
  then obtain x where x: "filter is_active_space rows = [x]" by blast
  have "r \<in> set (filter is_active_space rows)" "q \<in> set (filter is_active_space rows)" using assms by auto
  then show ?thesis unfolding x by simp
qed

lemma find_filter: "List.find P xs = (case filter P xs of [] \<Rightarrow> None | x # _ \<Rightarrow> Some x)"
  by (induction xs) auto

lemma find_active_ok:
  assumes "spaces_inv (sp_spaces S)"
  shows "find_active S = Inr (map_option fst (List.find is_active_space (sp_spaces S)))"
  using assms unfolding find_filter find_active_def spaces_inv_def
  by (auto split: list.splits)

subsection \<open>What keeps the invariant\<close>

lemma vectors_invI:
  assumes "spaces_inv (sp_spaces S)" "d_identity (sp_db S) = active_fingerprint (sp_spaces S)"
    and "distinct (map (\<lambda>v. (fv_fact_id v, fv_space_id v)) (sp_vectors S))"
    and "\<And>v. v \<in> set (sp_vectors S) \<Longrightarrow> vector_ok S v"
  shows "vectors_inv S"
  using assms by (simp add: vectors_inv_def list_all_iff)

lemma spaces_inv_append:
  assumes "spaces_inv rows" "es_name s \<notin> (es_name \<circ> fst) ` set rows"
    and "es_status s = SpaceActive \<Longrightarrow> filter is_active_space rows = []"
  shows "spaces_inv (rows @ [(s, t)])"
  using assms by (auto simp: spaces_inv_def is_active_space_def)

lemma vectors_have_space:
  "vectors_inv S \<Longrightarrow> v \<in> set (sp_vectors S) \<Longrightarrow> fv_space_id v \<in> space_names S"
  by (simp add: vectors_inv_def list_all_iff vector_ok_def)

lemma keeps_insert_space [keeps_intros]: "keeps (space_inv edim) (insert_space_row created s)"
proof (rule keepsI)
  fix S r S' assume inv: "space_inv edim S" and r: "insert_space_row created s S = (r, S')"
  have v: "vectors_inv S" using inv by (simp add: space_inv_def)
  show "space_inv edim S'"
  proof (cases "S' = S")
    case False
    then have new: "es_name s \<notin> space_names S" "S' = set_spaces (sp_spaces S @ [(s, created)]) S"
      "es_status s = SpaceActive \<Longrightarrow> filter is_active_space (sp_spaces S) = []"
      using r by (auto simp: insert_space_row_def split: if_splits)
    have "vector_ok S' v" if vv: "v \<in> set (sp_vectors S)" for v
    proof -
      have ok: "vector_ok S v" using v vv by (simp add: vectors_inv_def list_all_iff)
      have "es_name s \<noteq> fv_space_id v" using vectors_have_space [OF v vv] new(1) by auto
      moreover have "space_names S' = insert (es_name s) (space_names S)" by (simp add: new space_names_def)
      moreover have "fact_ids_of (sp_db S') = fact_ids_of (sp_db S)" by (simp add: new fact_ids_of_def)
      ultimately show ?thesis using ok unfolding vector_ok_def new(2) set_spaces_simps(1) by simp
    qed
    moreover have "spaces_inv (sp_spaces S @ [(s, created)])"
      using v new by (intro spaces_inv_append) (auto simp: vectors_inv_def space_names_def)
    ultimately have "vectors_inv S'"
      using v by (intro vectors_invI) (auto simp: new vectors_inv_def)
    then show ?thesis using inv log_inv_set_spaces by (simp add: space_inv_def new)
  qed (use inv in simp)
qed

lemma keeps_inserts [keeps_intros]:
  "keeps (space_inv edim) (insert_active created s)" "keeps (space_inv edim) (insert_populating created s)"
  unfolding insert_active_def insert_populating_def by (intro keeps_intros)+

lemma keeps_begin_populating [keeps_intros]: "keeps (space_inv edim) (begin_populating created s)"
  using keeps_inserts(2) by (auto simp: keeps_def begin_populating_def split: option.splits)

lemma keeps_insert_vector:
  assumes "\<And>r. r \<in> set rows \<Longrightarrow> is_active_space r \<Longrightarrow> es_name (fst r) \<noteq> space"
  shows "keeps (\<lambda>S. space_inv edim S \<and> sp_spaces S = rows \<and> sp_db S = D) (insert_vector space x n)"
proof (rule keepsI)
  fix S r S' assume i: "space_inv edim S \<and> sp_spaces S = rows \<and> sp_db S = D"
    and r: "insert_vector space x n S = (r, S')"
  show "space_inv edim S' \<and> sp_spaces S' = rows \<and> sp_db S' = D"
  proof (cases "S' = S")
    case False
    then have S': "S' = S\<lparr>sp_vectors := sp_vectors S @ [\<lparr>fv_fact_id = fst x, fv_space_id = space,
        fv_embedding = snd x\<rparr>]\<rparr>" "\<not> has_vector S space (fst x)" "fst x \<in> fact_ids_of (sp_db S)"
        "space \<in> space_names S"
      using r by (auto simp: insert_vector_def split: if_splits)
    have v: "vectors_inv S" using i by (simp add: space_inv_def)
    have "vectors_inv S'"
    proof (rule vectors_invI)
      fix v assume "v \<in> set (sp_vectors S')"
      then have "v \<in> set (sp_vectors S) \<or> v = \<lparr>fv_fact_id = fst x, fv_space_id = space, fv_embedding = snd x\<rparr>"
        by (auto simp: S')
      moreover have "space_names S' = space_names S" by (simp add: S' space_names_def)
      ultimately show "vector_ok S' v"
        using v S'(3,4) assms i by (auto simp: S'(1) vectors_inv_def list_all_iff vector_ok_def)
    qed (use v S' in \<open>auto simp: vectors_inv_def has_vector_def\<close>)
    with i S' show ?thesis by (simp add: space_inv_def)
  qed (use i in simp)
qed

lemma keeps_write_backfill:
  assumes "\<And>r. r \<in> set rows \<Longrightarrow> is_active_space r \<Longrightarrow> es_name (fst r) \<noteq> space"
  shows "keeps (\<lambda>S. space_inv edim S \<and> sp_spaces S = rows \<and> sp_db S = D) (write_backfill_batch space xs)"
  unfolding write_backfill_batch_def
  by (intro keeps_transaction keeps_fold keeps_insert_vector assms)

subsection \<open>Writing a batch\<close>

definition new_vectors :: "string \<Rightarrow> (fact_id \<times> fl list) list \<Rightarrow> fact_vector list" where
  "new_vectors space rows =
     map (\<lambda>(i, e). \<lparr>fv_fact_id = i, fv_space_id = space, fv_embedding = e\<rparr>) rows"

lemma op_fold_insert_vector:
  assumes "space \<in> space_names S" "fst ` set rows \<subseteq> fact_ids_of (sp_db S)" "distinct (map fst rows)"
  shows "op_fold (insert_vector space) rows n S =
    (let fresh = filter (\<lambda>r. \<not> has_vector S space (fst r)) rows in
     (Inr (n + length fresh), S\<lparr>sp_vectors := sp_vectors S @ new_vectors space fresh\<rparr>))"
  using assms
proof (induction rows arbitrary: n S)
  case (Cons r rows)
  show ?case
  proof (cases "has_vector S space (fst r)")
    case True
    then show ?thesis using Cons.IH [of S n] Cons.prems by (simp add: op_bind_def insert_vector_def)
  next
    case False
    let ?S = "S\<lparr>sp_vectors := sp_vectors S @ [\<lparr>fv_fact_id = fst r, fv_space_id = space, fv_embedding = snd r\<rparr>]\<rparr>"
    have "filter (\<lambda>x. \<not> has_vector ?S space (fst x)) rows = filter (\<lambda>x. \<not> has_vector S space (fst x)) rows"
      using Cons.prems(3) by (intro filter_cong) (auto simp: has_vector_def)
    moreover have "space_names ?S = space_names S" by (simp add: space_names_def)
    ultimately show ?thesis
      using Cons.IH [of ?S "n + 1"] Cons.prems False
      by (simp add: op_bind_def insert_vector_def Let_def new_vectors_def split_def)
  qed
qed (simp add: new_vectors_def)

lemma write_backfill_ok:
  assumes "space \<in> space_names S" "fst ` set rows \<subseteq> fact_ids_of (sp_db S)" "distinct (map fst rows)"
    and "\<forall>r \<in> set rows. \<not> has_vector S space (fst r)"
  shows "write_backfill_batch space rows S =
    (Inr (length rows), S\<lparr>sp_vectors := sp_vectors S @ new_vectors space rows\<rparr>)"
proof -
  have "filter (\<lambda>r. \<not> has_vector S space (fst r)) rows = rows" using assms(4) by simp
  then show ?thesis
    using op_fold_insert_vector [OF assms(1-3), of 0] by (simp add: write_backfill_batch_def transaction_def)
qed

subsection \<open>The promotion\<close>

lemma find_status:
  "List.find (\<lambda>r. es_name (fst r) = x) (set_status name st rows) =
     map_option (\<lambda>(s, t). (if es_name s = name then s\<lparr>es_status := st\<rparr> else s, t))
       (List.find (\<lambda>r. es_name (fst r) = x) rows)"
  by (induction rows) (auto simp: set_status_def)

lemma names_status [simp]: "map (es_name \<circ> fst) (set_status name st rows) = map (es_name \<circ> fst) rows"
  by (auto simp: set_status_def)

lemma name_unique:
  assumes "distinct (map (es_name \<circ> fst) rows)" "r \<in> set rows" "q \<in> set rows" "es_name (fst r) = es_name (fst q)"
  shows "r = q"
  using assms by (induction rows) (auto simp: image_iff)

definition promoted_spaces :: "string \<Rightarrow> string \<Rightarrow> (embedding_space \<times> time) list \<Rightarrow> (embedding_space \<times> time) list" where
  "promoted_spaces old new rows = set_status new SpaceActive (set_status old SpaceDeprecated rows)"

lemma promoted_spaces_inv:
  assumes inv: "spaces_inv rows" and a: "(a, t) \<in> set rows" "es_status a = SpaceActive"
    and n: "(n, u) \<in> set rows" "es_name n \<noteq> es_name a"
  shows "filter is_active_space (set_status (es_name a) SpaceDeprecated rows) = []"
    and "spaces_inv (promoted_spaces (es_name a) (es_name n) rows)"
    and "active_fingerprint (promoted_spaces (es_name a) (es_name n) rows) = Some (es_fingerprint n)"
    and "r \<in> set (promoted_spaces (es_name a) (es_name n) rows) \<Longrightarrow> is_active_space r \<Longrightarrow> es_name (fst r) = es_name n"
proof -
  have d: "distinct (map (es_name \<circ> fst) rows)" using inv by (simp add: spaces_inv_def)
  have "\<not> is_active_space x" if x: "x \<in> set (set_status (es_name a) SpaceDeprecated rows)" for x
  proof -
    obtain s v where sv: "(s, v) \<in> set rows"
      "x = (if es_name s = es_name a then s\<lparr>es_status := SpaceDeprecated\<rparr> else s, v)"
      using x by (auto simp: set_status_def)
    have "(s, v) = (a, t)" if "is_active_space (s, v)"
      by (rule spaces_inv_Cons [OF inv that sv(1)]) (use a in \<open>auto simp: is_active_space_def\<close>)
    then show ?thesis using sv(2) by (auto simp: is_active_space_def)
  qed
  then show none: "filter is_active_space (set_status (es_name a) SpaceDeprecated rows) = []"
    by (simp add: filter_empty_conv)
  let ?rows = "set_status (es_name a) SpaceDeprecated rows"
  have d': "distinct (map (es_name \<circ> fst) ?rows)" using d by simp
  have n': "(n, u) \<in> set ?rows" using n by (force simp: set_status_def)
  have act: "is_active_space x \<longleftrightarrow> es_name (fst x) = es_name n"
    if "x \<in> set (promoted_spaces (es_name a) (es_name n) rows)" for x
    using that none by (auto simp: promoted_spaces_def set_status_def [of "es_name n"] is_active_space_def
        filter_empty_conv split: if_splits)
  have f: "filter is_active_space (promoted_spaces (es_name a) (es_name n) rows) =
      filter (\<lambda>x. es_name (fst x) = es_name n) (promoted_spaces (es_name a) (es_name n) rows)"
    by (rule filter_cong) (use act in auto)
  have d2: "distinct (map (es_name \<circ> fst) (promoted_spaces (es_name a) (es_name n) rows))"
    using d by (simp add: promoted_spaces_def)
  have n2: "(n\<lparr>es_status := SpaceActive\<rparr>, u) \<in> set (promoted_spaces (es_name a) (es_name n) rows)"
    using n' by (force simp: promoted_spaces_def set_status_def [of "es_name n"])
  have "filter (\<lambda>x. es_name (fst x) = es_name n) xs = [x]"
    if "distinct (map (es_name \<circ> fst) xs)" "x \<in> set xs" "es_name (fst x) = es_name n"
    for xs :: "(embedding_space \<times> time) list" and x
    using that by (induction xs) (auto simp: filter_empty_conv image_iff)
  from this [OF d2 n2] f have one: "filter is_active_space (promoted_spaces (es_name a) (es_name n) rows) =
      [(n\<lparr>es_status := SpaceActive\<rparr>, u)]" by simp
  then show "spaces_inv (promoted_spaces (es_name a) (es_name n) rows)"
    using d2 by (simp add: spaces_inv_def)
  show "active_fingerprint (promoted_spaces (es_name a) (es_name n) rows) = Some (es_fingerprint n)"
    by (simp add: active_fingerprint_def find_filter one)
  show "r \<in> set (promoted_spaces (es_name a) (es_name n) rows) \<Longrightarrow> is_active_space r \<Longrightarrow> es_name (fst r) = es_name n"
    using act by blast
qed

definition with_vectors :: "(fact_id \<Rightarrow> fl list option) \<Rightarrow> fact \<Rightarrow> fact" where
  "with_vectors vec f = (case vec (f_id f) of None \<Rightarrow> f | Some e \<Rightarrow> f\<lparr>f_embedding := e\<rparr>)"

lemma with_vectors_simps [simp]:
  "f_id (with_vectors vec f) = f_id f" "f_content (with_vectors vec f) = f_content f"
  "f_base_importance (with_vectors vec f) = f_base_importance f"
  "f_importance_score (with_vectors vec f) = f_importance_score f"
  "f_scope_id (with_vectors vec f) = f_scope_id f" "f_source_event_id (with_vectors vec f) = f_source_event_id f"
  by (simp_all add: with_vectors_def split: option.splits)

lemma vector_of_None: "vector_of S space i = None \<longleftrightarrow> \<not> has_vector S space i"
  by (auto simp: vector_of_def has_vector_def find_None_iff)

lemma vector_of_Some:
  assumes "vectors_inv S"
  shows "vector_of S space i = Some e \<longleftrightarrow>
    \<lparr>fv_fact_id = i, fv_space_id = space, fv_embedding = e\<rparr> \<in> set (sp_vectors S)"
proof -
  let ?v = "\<lparr>fv_fact_id = i, fv_space_id = space, fv_embedding = e\<rparr>"
  have d: "distinct (map (\<lambda>v. (fv_fact_id v, fv_space_id v)) (sp_vectors S))"
    using assms by (simp add: vectors_inv_def)
  have u: "v = w" if "v \<in> set (sp_vectors S)" "w \<in> set (sp_vectors S)" "fv_fact_id v = fv_fact_id w"
    "fv_space_id v = fv_space_id w" for v w
    using inj_onD [OF conjunct2 [OF d [unfolded distinct_map]], of v w] that by simp
  show ?thesis
  proof
    assume "vector_of S space i = Some e"
    then obtain v where "List.find (\<lambda>v. fv_fact_id v = i \<and> fv_space_id v = space) (sp_vectors S) = Some v"
      "fv_embedding v = e" by (auto simp: vector_of_def)
    with find_eq_Some_in [OF this(1)] show "?v \<in> set (sp_vectors S)" by (cases v) auto
  next
    assume v: "?v \<in> set (sp_vectors S)"
    have "List.find (\<lambda>v. fv_fact_id v = i \<and> fv_space_id v = space) (sp_vectors S) = Some ?v"
      by (rule find_unique [OF v]) (use u v in auto)
    then show "vector_of S space i = Some e" by (simp add: vector_of_def)
  qed
qed

definition promoted_store :: "string \<Rightarrow> string \<Rightarrow> space_store \<Rightarrow> space_store" where
  \<comment> \<open>what a promotion of \<open>new\<close> over \<open>old\<close> leaves\<close>
  "promoted_store old new S =
     (let T = map_db (\<lambda>D. D\<lparr>d_facts := map (with_vectors (vector_of S new)) (d_facts D)\<rparr>)
        (S\<lparr>sp_vectors := filter (\<lambda>v. fv_space_id v \<noteq> new)
           (sp_vectors S @ map (\<lambda>f. \<lparr>fv_fact_id = f_id f, fv_space_id = old, fv_embedding = f_embedding f\<rparr>)
              (d_facts (sp_db S)))\<rparr>) in
      set_spaces (promoted_spaces old new (sp_spaces S)) T)"

lemma promote_space_ok:
  assumes inv: "vectors_inv S" and a: "List.find is_active_space (sp_spaces S) = Some (a, t)"
    and n: "find_by_name S populating = Some n" "es_status n = SpacePopulating"
    and all: "\<forall>f \<in> set (d_facts (sp_db S)). has_vector S populating (f_id f)"
  shows "promote_space populating S =
    (Inr \<lparr>po_promoted = length (d_facts (sp_db S)), po_deprecated_space = es_name a,
       po_new_fingerprint = es_fingerprint n, po_stragglers_caught = 0, po_rebuild_index = True\<rparr>,
     promoted_store (es_name a) populating S)"
proof -
  have sp: "spaces_inv (sp_spaces S)" using inv by (simp add: vectors_inv_def)
  from find_eq_Some_in [OF a] have aa: "(a, t) \<in> set (sp_spaces S)" "es_status a = SpaceActive"
    by (auto simp: is_active_space_def)
  from n(1) obtain u where "List.find (\<lambda>r. es_name (fst r) = populating) (sp_spaces S) = Some (n, u)"
    by (auto simp: find_by_name_def)
  from find_eq_Some_in [OF this] have nn: "(n, u) \<in> set (sp_spaces S)" "es_name n = populating" by auto
  have ne: "es_name n \<noteq> es_name a"
    using name_unique [of "sp_spaces S" "(n, u)" "(a, t)"] sp nn aa n(2) by (auto simp: spaces_inv_def)
  have 1: "space_to_swap_over S = Inr a" using find_active_ok [OF sp] a by (simp add: space_to_swap_over_def)
  have 2: "space_to_promote populating S = Inr n" using n by (simp add: space_to_promote_def)
  have 3: "completeness_gate populating S = Inr ()"
    using all by (simp add: completeness_gate_def count_unbackfilled_def)
  let ?S4 = "S\<lparr>sp_vectors := sp_vectors S @ map (\<lambda>f. \<lparr>fv_fact_id = f_id f, fv_space_id = es_name a,
      fv_embedding = f_embedding f\<rparr>) (d_facts (sp_db S))\<rparr>"
  have "\<not> has_vector S (es_name a) i" for i
    using inv aa by (force simp: has_vector_def vectors_inv_def list_all_iff vector_ok_def is_active_space_def)
  then have 4: "retain_vectors (es_name a) S = (Inr (), ?S4)" by (simp add: retain_vectors_def)
  have "List.find (\<lambda>v. fv_fact_id v = i \<and> fv_space_id v = populating) (map (\<lambda>f. \<lparr>fv_fact_id = f_id f,
      fv_space_id = es_name a, fv_embedding = f_embedding f\<rparr>) (d_facts (sp_db S))) = None" for i
    using ne nn(2) by (auto simp: find_None_iff)
  then have vec: "vector_of ?S4 populating i = vector_of S populating i" for i
    by (simp add: vector_of_def find_append split: option.splits)
  let ?S5 = "map_db (\<lambda>D. D\<lparr>d_facts := map (with_vectors (vector_of S populating)) (d_facts D)\<rparr>) ?S4"
  have 5: "copy_swap populating ?S4 = (Inr (length (d_facts (sp_db S))), ?S5)"
    using all by (auto simp: copy_swap_def vec vector_of_None with_vectors_def [abs_def])
  let ?S6 = "set_spaces (set_status (es_name a) SpaceDeprecated (sp_spaces S)) ?S5"
  have 6: "deprecate (es_name a) ?S5 = (Inr (), ?S6)" by (simp add: deprecate_def)
  let ?S7 = "set_spaces (promoted_spaces (es_name a) populating (sp_spaces S)) ?S6"
  have "\<not> (\<exists>r \<in> set (sp_spaces ?S6). is_active_space r)"
    using promoted_spaces_inv(1) [OF sp aa nn(1) ne] by (auto simp: filter_empty_conv)
  then have 7: "activate populating ?S6 = (Inr (), ?S7)" by (auto simp: activate_def promoted_spaces_def)
  have 8: "snd (drop_vectors populating ?S7) = promoted_store (es_name a) populating S"
    by (simp add: drop_vectors_def promoted_store_def set_spaces_def map_db_def Let_def)
  have "drop_vectors populating ?S7 = (Inr (), promoted_store (es_name a) populating S)"
    using 8 by (simp add: drop_vectors_def)
  then show ?thesis
    unfolding promote_space_def transaction_def op_bind_def op_reads_def 1
    using 1 2 3 4 5 6 7 by simp
qed

lemma promote_failed:
  "promote_space populating S = (Inl e, S') \<Longrightarrow> S' = S"
  unfolding promote_space_def by (rule transaction_rolled_back)


lemma promoted_store_simps:
  "sp_spaces (promoted_store old new S) = promoted_spaces old new (sp_spaces S)"
  "d_facts (sp_db (promoted_store old new S)) = map (with_vectors (vector_of S new)) (d_facts (sp_db S))"
  "d_identity (sp_db (promoted_store old new S)) = active_fingerprint (promoted_spaces old new (sp_spaces S))"
  "su_summaries (sp_tables (promoted_store old new S)) = su_summaries (sp_tables S)"
  "fact_ids_of (sp_db (promoted_store old new S)) = fact_ids_of (sp_db S)"
  "scope_ids_of (sp_db (promoted_store old new S)) = scope_ids_of (sp_db S)"
  by (simp_all add: promoted_store_def Let_def fact_ids_of_def scope_ids_of_def image_image)

lemma promoted_db:
  "sp_db (promoted_store old new S) = (sp_db S)\<lparr>d_facts := map (with_vectors (vector_of S new)) (d_facts (sp_db S)),
     d_identity := active_fingerprint (promoted_spaces old new (sp_spaces S))\<rparr>"
  by (simp add: promoted_store_def Let_def)

lemma vectors_of_promoted:
  "sp_vectors (promoted_store old new S) = filter (\<lambda>v. fv_space_id v \<noteq> new)
     (sp_vectors S @ map (\<lambda>f. \<lparr>fv_fact_id = f_id f, fv_space_id = old, fv_embedding = f_embedding f\<rparr>)
        (d_facts (sp_db S)))"
  by (simp add: promoted_store_def Let_def)

lemma promoted_store_inv:
  assumes inv: "space_inv edim S" and a: "(a, t) \<in> set (sp_spaces S)" "es_status a = SpaceActive"
    and n: "(n, u) \<in> set (sp_spaces S)" "es_name n \<noteq> es_name a"
    and width: "\<forall>f \<in> set (d_facts (sp_db S)). \<exists>e. vector_of S (es_name n) (f_id f) = Some e \<and> length e = d"
  shows "space_inv d (promoted_store (es_name a) (es_name n) S)"
proof -
  let ?S = "promoted_store (es_name a) (es_name n) S"
  have v: "vectors_inv S" and l: "log_inv edim (su_log (sp_tables S))" using inv by (simp_all add: space_inv_def)
  have sp: "spaces_inv (sp_spaces S)" using v by (simp add: vectors_inv_def)
  note P = promoted_spaces_inv [OF sp a n]
  have D: "db_inv edim (sp_db S)" using l by (simp add: log_inv_def)
  have F: "fact_row_ok d (sp_db ?S) (with_vectors (vector_of S (es_name n)) f)" if f: "f \<in> set (d_facts (sp_db S))" for f
  proof -
    from width f obtain e where "vector_of S (es_name n) (f_id f) = Some e" "length e = d" by blast
    moreover have "fact_row_ok edim (sp_db S) f" using D f by (simp add: db_inv_def list_all_iff)
    ultimately show ?thesis
      by (simp add: fact_row_ok_def with_vectors_def promoted_db scope_ids_of_def)
  qed
  have E: "edge_row_ok (sp_db ?S) x = edge_row_ok (sp_db S) x" for x
    by (simp add: edge_row_ok_def promoted_db fact_ids_of_def scope_ids_of_def image_image)
  have dbi: "db_inv d (sp_db ?S)"
    using D F unfolding db_inv_def promoted_db by (simp add: list_all_iff comp_def E [unfolded promoted_db])
  have "log_inv d (su_log (sp_tables ?S))"
  proof -
    let ?T = "S\<lparr>sp_vectors := filter (\<lambda>v. fv_space_id v \<noteq> es_name n) (sp_vectors S @ map (\<lambda>f. \<lparr>fv_fact_id = f_id f,
        fv_space_id = es_name a, fv_embedding = f_embedding f\<rparr>) (d_facts (sp_db S)))\<rparr>"
    let ?g = "\<lambda>D. D\<lparr>d_facts := map (with_vectors (vector_of S (es_name n))) (d_facts D)\<rparr>"
    have "db_inv d (?g (sp_db ?T))"
      using dbi db_inv_identity [where edim = d and D = "?g (sp_db S)"] unfolding promoted_db by simp
    then have "log_inv d (su_log (sp_tables (map_db ?g ?T)))"
      by (intro log_inv_map_db [of edim ?T]) (use l in \<open>simp_all add: scope_ids_of_def fact_ids_of_def image_image\<close>)
    from log_inv_set_spaces [OF this] show ?thesis by (simp add: promoted_store_def Let_def)
  qed
  moreover have "vectors_inv ?S"
  proof (rule vectors_invI)
    show "spaces_inv (sp_spaces ?S)" using P(2) by (simp add: promoted_store_simps)
    show "d_identity (sp_db ?S) = active_fingerprint (sp_spaces ?S)" by (simp add: promoted_store_simps)
    have "sorted_wrt (<) (map f_id (d_facts (sp_db S)))" using D by (simp add: db_inv_def)
    then have df: "distinct (map f_id (d_facts (sp_db S)))" by (simp add: strict_sorted_iff)
    have "\<forall>v \<in> set (sp_vectors S). fv_space_id v \<noteq> es_name a"
      using v a by (fastforce simp: vectors_inv_def list_all_iff vector_ok_def is_active_space_def)
    then have "distinct (map (\<lambda>v. (fv_fact_id v, fv_space_id v)) (sp_vectors S @ map (\<lambda>f. \<lparr>fv_fact_id = f_id f,
        fv_space_id = es_name a, fv_embedding = f_embedding f\<rparr>) (d_facts (sp_db S))))"
      using v df by (auto simp: vectors_inv_def distinct_map inj_on_def comp_def)
    then show "distinct (map (\<lambda>v. (fv_fact_id v, fv_space_id v)) (sp_vectors ?S))"
      unfolding vectors_of_promoted by (rule distinct_map_filter)
  next
    fix w assume w: "w \<in> set (sp_vectors ?S)"
    have names: "space_names ?S = space_names S"
      using names_status [of "es_name n" SpaceActive "set_status (es_name a) SpaceDeprecated (sp_spaces S)"]
        names_status [of "es_name a" SpaceDeprecated "sp_spaces S"]
      unfolding space_names_def promoted_store_simps promoted_spaces_def by (metis list.set_map)
    from w have ne: "fv_space_id w \<noteq> es_name n"
      and "w \<in> set (sp_vectors S) \<or> (\<exists>f \<in> set (d_facts (sp_db S)). fv_fact_id w = f_id f \<and> fv_space_id w = es_name a)"
      by (auto simp: vectors_of_promoted)
    then have "fv_fact_id w \<in> fact_ids_of (sp_db S)" "fv_space_id w \<in> space_names S"
      using v a(1) by (auto simp: vectors_inv_def list_all_iff vector_ok_def fact_ids_of_def space_names_def
          intro: rev_image_eqI)
    moreover have "es_name (fst r) \<noteq> fv_space_id w" if "r \<in> set (sp_spaces ?S)" "is_active_space r" for r
      using P(4) [of r] that ne unfolding promoted_store_simps by auto
    ultimately show "vector_ok ?S w" unfolding vector_ok_def names promoted_store_simps(5) by blast
  qed
  ultimately show ?thesis by (simp add: space_inv_def)
qed

end
