(* ===== verification/Reconstruct.thy ===== *)
theory Reconstruct
  imports Space_Store Dream_Cycle
begin

text \<open>
  Reconstruction of the embeddings under another identity
  (\<open>memory-engine/src/engine/reconstruct.rs\<close>): a shadow space is opened, every fact is embedded again
  in windows, what was added in between is caught up, and the promotion swaps the vectors.

  The state is the store and the context of the handle, whose field \<open>ctx_reopen_required\<close> is the fence.
  The embedder and the rebuilding of the vector index are parameters. No lock is held between the
  passes; \<open>while_backfilling\<close> and \<open>while_catching_up\<close> are what other calls do to the store there.
\<close>

definition default_backfill_batch :: nat where "default_backfill_batch = 128"

definition utf8_continuation :: "char \<Rightarrow> bool" where
  "utf8_continuation c \<longleftrightarrow> 128 \<le> (of_char c :: nat) \<and> (of_char c :: nat) < 192"

definition ascii_alphanumeric :: "char \<Rightarrow> bool" where
  "ascii_alphanumeric c \<longleftrightarrow>
     (let n = (of_char c :: nat) in (48 \<le> n \<and> n \<le> 57) \<or> (65 \<le> n \<and> n \<le> 90) \<or> (97 \<le> n \<and> n \<le> 122))"

definition space_name_for :: "fingerprint \<Rightarrow> string" where
  \<comment> \<open>one underscore per character, so that the later bytes of a character are skipped\<close>
  "space_name_for fp =
     map (\<lambda>c. if ascii_alphanumeric c then c else CHR ''_'')
       (filter (\<lambda>c. \<not> utf8_continuation c) (fp_model fp @ ''_'' @ fp_provider fp @ ''_'')) @
     show_nat (fp_dim fp)"

definition embed_window ::
    "embedder \<Rightarrow> nat \<Rightarrow> (fact_id \<times> string) list \<Rightarrow> (fact_id \<times> fl list) list result" where
  "embed_window emb target_dim window =
     and_then (em_embed_batch emb (map snd window)) (\<lambda>embeddings.
     if length embeddings \<noteq> length window
     then Inl (Internal (Fmt ''embed_batch returned {} vectors for {} texts (provider contract violation)''
       [ANat (length embeddings), ANat (length window)]))
     else case List.find (\<lambda>e. length e \<noteq> target_dim) embeddings of
         Some e \<Rightarrow> Inl (EmbeddingDimension target_dim (length e))
       | None \<Rightarrow> Inr (zip (map fst window) embeddings))"

definition backfill_window ::
    "string \<Rightarrow> embedder \<Rightarrow> nat \<Rightarrow> (fact_id \<times> string) list \<Rightarrow> (space_store, nat) op" where
  "backfill_window space emb target_dim window =
     op_bind (op_of (embed_window emb target_dim window)) (write_backfill_batch space)"

lemma insert_vector_tables: "insert_vector space x n S = (r, S') \<Longrightarrow> sp_tables S' = sp_tables S \<and> sp_spaces S' = sp_spaces S"
  by (auto simp: insert_vector_def split: if_splits)

lemma backfill_window_tables:
  assumes "backfill_window space emb d window S = (r, S')"
  shows "sp_tables S' = sp_tables S" "sp_spaces S' = sp_spaces S"
proof -
  have "keeps (\<lambda>T. sp_tables T = sp_tables S \<and> sp_spaces T = sp_spaces S) (backfill_window space emb d window)"
    unfolding backfill_window_def write_backfill_batch_def
    by (intro keeps_intros) (rule keepsI, auto dest: insert_vector_tables)
  from keepsD [OF this _ assms] show "sp_tables S' = sp_tables S" "sp_spaces S' = sp_spaces S" by simp_all
qed

lemma window_progress:
  assumes "next_backfill_window S space after_id batch = Inr window" "window \<noteq> []"
  shows "\<exists>f \<in> set (d_facts (sp_db S)). f_id f = fst (last window) \<and> after_id < f_id f"
proof -
  have "last window \<in> set window" using assms(2) by simp
  with assms(1) obtain f where "last window = (f_id f, f_content f)" "f \<in> set (d_facts (sp_db S))" "after_id < f_id f"
    by (auto simp: next_backfill_window_def split: if_splits dest!: in_set_takeD)
  then show ?thesis by auto
qed

lemma filter_fewer:
  assumes "x \<in> set xs" "q x" "\<not> p x" "\<And>y. p y \<Longrightarrow> q y"
  shows "length (filter p xs) < length (filter q xs)"
proof -
  have "length (filter p xs) \<le> length (filter q xs)" for xs :: "'a list"
    using assms(4) by (induction xs) auto
  with assms show ?thesis by (induction xs) (auto simp: less_Suc_eq_le)
qed

function backfill_from ::
    "string \<Rightarrow> embedder \<Rightarrow> nat \<Rightarrow> nat \<Rightarrow> fact_id \<Rightarrow> nat \<Rightarrow> (space_store, nat) op" where
  \<comment> \<open>the loop, from \<open>after_id\<close> with \<open>written\<close> vectors so far\<close>
  "backfill_from space emb target_dim batch after_id written S =
     (case next_backfill_window S space after_id batch of
        Inl e \<Rightarrow> (Inl e, S)
      | Inr window \<Rightarrow>
          if window = [] then (Inr written, S)
          else (case backfill_window space emb target_dim window S of
              (Inl e, S') \<Rightarrow> (Inl e, S')
            | (Inr n, S') \<Rightarrow> backfill_from space emb target_dim batch (fst (last window)) (written + n) S'))"
  by pat_completeness auto

termination
proof (relation "measure (\<lambda>(_, _, _, _, after_id, _, S). length (filter (\<lambda>f. after_id < f_id f) (d_facts (sp_db S))))",
    goal_cases)
  case (2 space emb target_dim batch after_id written S window x S' n)
  from window_progress [OF 2(1,2)] obtain f where f: "f \<in> set (d_facts (sp_db S))"
    "f_id f = fst (last window)" "after_id < f_id f" by blast
  have "backfill_window space emb target_dim window S = (Inr n, S')" using 2(3,4) by simp
  then have "sp_tables S' = sp_tables S" by (rule backfill_window_tables)
  moreover have "length (filter (\<lambda>f. fst (last window) < f_id f) (d_facts (sp_db S))) <
      length (filter (\<lambda>f. after_id < f_id f) (d_facts (sp_db S)))"
    by (rule filter_fewer [OF f(1)]) (use f in auto)
  ultimately show ?case by simp
qed simp

declare backfill_from.simps [simp del]

definition backfill_space :: "string \<Rightarrow> embedder \<Rightarrow> nat \<Rightarrow> nat \<Rightarrow> (space_store, nat) op" where
  "backfill_space space emb target_dim batch = backfill_from space emb target_dim batch 0 0"

definition on_space :: "(space_store, 'a) op \<Rightarrow> (space_store \<times> memory_ctx, 'a) op" where
  "on_space m = (\<lambda>(S, ctx). case m S of (r, S') \<Rightarrow> (r, (S', ctx)))"

definition others :: "(space_store \<Rightarrow> space_store) \<Rightarrow> (space_store, unit) op" where
  "others g S = (Inr (), g S)"

definition refresh_index ::
    "(space_store \<Rightarrow> unit result) \<Rightarrow> fingerprint \<Rightarrow> (space_store \<times> memory_ctx, unit) op" where
  \<comment> \<open>rebuild the index at the dimension of the handle, or fence the handle\<close>
  "refresh_index rebuild fp = (\<lambda>(S, ctx).
     if fp_dim fp = ctx_embed_dim ctx then (rebuild S, (S, ctx))
     else (Inr (), (S, ctx\<lparr>ctx_reopen_required := fp_dim fp\<rparr>)))"

definition stage_and_promote ::
    "string \<Rightarrow> fingerprint \<Rightarrow> embedder \<Rightarrow> time \<Rightarrow> (space_store \<Rightarrow> space_store) \<Rightarrow> (space_store \<Rightarrow> space_store)
      \<Rightarrow> (space_store, promote_outcome) op" where
  \<comment> \<open>steps 1 to 4\<close>
  "stage_and_promote space new_fingerprint emb created while_backfilling while_catching_up =
     op_bind (begin_populating created \<lparr>es_name = space, es_fingerprint = new_fingerprint,
       es_status = SpacePopulating\<rparr>) (\<lambda>_.
     op_bind (backfill_space space emb (fp_dim new_fingerprint) default_backfill_batch) (\<lambda>_.
     op_bind (others while_backfilling) (\<lambda>_.
     op_bind (backfill_space space emb (fp_dim new_fingerprint) default_backfill_batch) (\<lambda>stragglers.
     op_bind (others while_catching_up) (\<lambda>_.
     op_bind (promote_space space) (\<lambda>outcome.
     op_return (outcome\<lparr>po_stragglers_caught := stragglers\<rparr>)))))))"

definition reconstruct ::
    "(space_store \<Rightarrow> unit result) \<Rightarrow> fingerprint \<Rightarrow> embedder \<Rightarrow> time \<Rightarrow> (space_store \<Rightarrow> space_store)
      \<Rightarrow> (space_store \<Rightarrow> space_store) \<Rightarrow> (space_store \<times> memory_ctx, promote_outcome) op" where
  "reconstruct rebuild new_fingerprint emb created while_backfilling while_catching_up =
     op_bind (op_reads (\<lambda>(S, ctx). ensure_writable ctx)) (\<lambda>_.
     if fp_dim new_fingerprint \<noteq> fp_dim (em_fingerprint emb)
     then op_fail (EmbeddingDimension (fp_dim new_fingerprint) (fp_dim (em_fingerprint emb)))
     else
       op_bind (on_space (stage_and_promote (space_name_for new_fingerprint) new_fingerprint emb created
         while_backfilling while_catching_up)) (\<lambda>outcome.
       op_bind (refresh_index rebuild (po_new_fingerprint outcome)) (\<lambda>_.
       op_return outcome)))"

subsection \<open>A backfill\<close>

definition unfilled :: "space_store \<Rightarrow> string \<Rightarrow> fact_id \<Rightarrow> fact list" where
  "unfilled S space after_id = filter (\<lambda>f. \<not> has_vector S space (f_id f) \<and> after_id < f_id f) (d_facts (sp_db S))"

definition embeds :: "embedder \<Rightarrow> (string \<Rightarrow> fl list) \<Rightarrow> nat \<Rightarrow> bool" where
  \<comment> \<open>the embedder answers, with vectors of the dimension\<close>
  "embeds emb vec d \<longleftrightarrow> (\<forall>cs. em_embed_batch emb cs = Inr (map vec cs)) \<and> (\<forall>c. length (vec c) = d)"

definition vectors_for :: "string \<Rightarrow> (string \<Rightarrow> fl list) \<Rightarrow> fact list \<Rightarrow> fact_vector list" where
  "vectors_for space vec fs = new_vectors space (map (\<lambda>f. (f_id f, vec (f_content f))) fs)"

lemma drop_filter:
  assumes "sorted_wrt (<) (map g xs)" "take k xs \<noteq> []"
  shows "filter (\<lambda>x. g (last (take k xs)) < (g x :: 'b :: linorder)) xs = drop k xs"
proof -
  let ?l = "g (last (take k xs))"
  have s: "sorted_wrt (<) (map g (take k xs) @ map g (drop k xs))"
    using assms(1) by (simp flip: map_append)
  have "?l < g y" if "y \<in> set (drop k xs)" for y
    using s assms(2) that by (auto simp: sorted_wrt_append)
  moreover have "\<not> ?l < g y" if "y \<in> set (take k xs)" for y
  proof -
    have "take k xs = butlast (take k xs) @ [last (take k xs)]" using assms(2) by simp
    then have "sorted_wrt (<) (map g (butlast (take k xs)) @ [?l])"
      using s by (metis map_append list.simps(8,9) sorted_wrt_append)
    moreover have "y \<in> set (butlast (take k xs)) \<or> y = last (take k xs)"
      using that assms(2) by (metis append_butlast_last_id in_set_conv_decomp_last rotate1.simps(2) set_ConsD set_rotate1)
    ultimately show ?thesis by (auto simp: sorted_wrt_append dest: less_imp_not_less)
  qed
  ultimately have "filter (\<lambda>x. ?l < g x) (take k xs @ drop k xs) = drop k xs"
    unfolding filter_append by (simp add: filter_empty_conv filter_id_conv)
  then show ?thesis by simp
qed

lemma embed_window_ok:
  "embeds emb vec d \<Longrightarrow> embed_window emb d window = Inr (map (\<lambda>(i, c). (i, vec c)) window)"
proof -
  assume e: "embeds emb vec d"
  then have "List.find (\<lambda>v. length v \<noteq> d) (map (\<lambda>w. vec (snd w)) window) = None"
    by (auto simp: find_None_iff embeds_def)
  moreover have "zip (map fst window) (map (\<lambda>w. vec (snd w)) window) = map (\<lambda>(i, c). (i, vec c)) window"
    by (induction window) auto
  ultimately show ?thesis using e by (simp add: embed_window_def embeds_def comp_def)
qed

lemma has_new_vectors:
  "has_vector (S\<lparr>sp_vectors := sp_vectors S @ vectors_for space vec fs\<rparr>) space i \<longleftrightarrow>
     has_vector S space i \<or> i \<in> f_id ` set fs"
  by (simp add: has_vector_def vectors_for_def new_vectors_def bex_Un image_iff split_def) (auto simp: eq_commute)

lemma backfill_from_ok:
  assumes "embeds emb vec d" "space \<in> space_names S" "sorted_wrt (<) (map f_id (d_facts (sp_db S)))"
    and "0 < batch" "batch \<le> i64_max"
  shows "backfill_from space emb d batch after_id written S =
    (Inr (written + length (unfilled S space after_id)),
     S\<lparr>sp_vectors := sp_vectors S @ vectors_for space vec (unfilled S space after_id)\<rparr>)"
  using assms
proof (induction space emb d batch after_id written S rule: backfill_from.induct)
  case (1 space emb d batch after_id written S)
  let ?fs = "unfilled S space after_id"
  let ?w = "map (\<lambda>f. (f_id f, f_content f)) (take batch ?fs)"
  have sorted: "sort_key f_id (d_facts (sp_db S)) = d_facts (sp_db S)"
    using 1(4) by (intro sort_key_id_if_sorted) (simp add: strict_sorted_iff)
  have w: "next_backfill_window S space after_id batch = Inr ?w"
    using 1(6) by (simp add: next_backfill_window_def sorted take_map unfilled_def)
  show ?case
  proof (cases "?fs = []")
    case True
    then have "?w = []" by simp
    with w True show ?thesis
      by (subst backfill_from.simps) (simp add: vectors_for_def new_vectors_def)
  next
    case False
    let ?S = "S\<lparr>sp_vectors := sp_vectors S @ vectors_for space vec (take batch ?fs)\<rparr>"
    have ne: "take batch ?fs \<noteq> []" using False 1(5) by simp
    have sf: "sorted_wrt (<) (map f_id ?fs)"
      using 1(4) unfolding unfilled_def sorted_wrt_map by (rule sorted_wrt_filter)
    have d: "distinct (map f_id (take batch ?fs))"
      using sf by (metis distinct_take strict_sorted_iff take_map)
    have "write_backfill_batch space (map (\<lambda>(i, c). (i, vec c)) ?w) S = (Inr (length ?w), ?S)"
      using d 1(3) by (subst write_backfill_ok)
        (auto simp: comp_def split_def fact_ids_of_def unfilled_def vectors_for_def dest!: in_set_takeD)
    then have b: "backfill_window space emb d ?w S = (Inr (length ?w), ?S)"
      unfolding backfill_window_def op_bind_def op_of_def embed_window_ok [OF 1(2)] by simp
    let ?l = "fst (last ?w)"
    have l: "?l = f_id (last (take batch ?fs))" using ne by (simp add: last_map)
    have rest: "unfilled ?S space ?l = drop batch ?fs"
    proof -
      have after: "after_id < ?l"
        using last_in_set [OF ne] unfolding l by (auto simp: unfilled_def dest!: in_set_takeD)
      have "unfilled ?S space ?l = filter (\<lambda>f. f_id f \<notin> f_id ` set (take batch ?fs)) (filter (\<lambda>f. ?l < f_id f) ?fs)"
        using after unfolding unfilled_def has_new_vectors by (auto simp: intro!: filter_cong)
      also have "filter (\<lambda>f. ?l < f_id f) ?fs = drop batch ?fs"
        unfolding l by (rule drop_filter [OF sf ne])
      also have "filter (\<lambda>f. f_id f \<notin> f_id ` set (take batch ?fs)) (drop batch ?fs) = drop batch ?fs"
      proof -
        have "distinct (map f_id (take batch ?fs) @ map f_id (drop batch ?fs))"
          using sf unfolding strict_sorted_iff by (simp flip: map_append)
        then show ?thesis by (auto simp: filter_id_conv)
      qed
      finally show ?thesis .
    qed
    have "space \<in> space_names ?S" using 1(3) by (simp add: space_names_def)
    then have "backfill_from space emb d batch ?l (written + length ?w) ?S =
        (Inr (written + length ?w + length (drop batch ?fs)),
         ?S\<lparr>sp_vectors := sp_vectors ?S @ vectors_for space vec (drop batch ?fs)\<rparr>)"
      using 1(1) [OF w _ b [symmetric] refl] 1(2-6) ne unfolding rest by simp
    moreover have "vectors_for space vec (take batch ?fs) @ vectors_for space vec (drop batch ?fs) =
        vectors_for space vec ?fs"
      by (simp add: vectors_for_def new_vectors_def flip: map_append)
    ultimately show ?thesis
      using w b ne by (subst backfill_from.simps) simp
  qed
qed


lemma backfill_window_inv:
  assumes "space_inv edim S" and "\<forall>r \<in> set (sp_spaces S). is_active_space r \<longrightarrow> es_name (fst r) \<noteq> space"
    and "backfill_window space emb d window S = (r, S')"
  shows "space_inv edim S'"
proof (cases "embed_window emb d window")
  case (Inl e)
  with assms show ?thesis by (simp add: backfill_window_def op_bind_def)
next
  case (Inr xs)
  with assms(3) have w: "write_backfill_batch space xs S = (r, S')"
    by (simp add: backfill_window_def op_bind_def)
  have "keeps (\<lambda>T. space_inv edim T \<and> sp_spaces T = sp_spaces S \<and> sp_db T = sp_db S) (write_backfill_batch space xs)"
    using assms(2) by (intro keeps_write_backfill) blast
  from keepsD [OF this _ w] assms(1) show ?thesis by simp
qed

lemma backfill_from_inv:
  assumes "space_inv edim S \<and> sp_spaces S = rows \<and> sp_tables S = T"
    and "\<forall>r \<in> set rows. is_active_space r \<longrightarrow> es_name (fst r) \<noteq> space"
    and "backfill_from space emb d batch after_id written S = (r, S')"
  shows "space_inv edim S' \<and> sp_spaces S' = rows \<and> sp_tables S' = T"
  using assms
proof (induction space emb d batch after_id written S rule: backfill_from.induct)
  case (1 space emb d batch after_id written S)
  show ?case
  proof (cases "next_backfill_window S space after_id batch")
    case (Inl e)
    with 1(2,4) show ?thesis by (simp add: backfill_from.simps [of space])
  next
    case (Inr window)
    show ?thesis
    proof (cases "window = []")
      case True
      with Inr 1(2,4) show ?thesis by (simp add: backfill_from.simps [of space])
    next
      case False
      obtain r1 S1 where b: "backfill_window space emb d window S = (r1, S1)" by fastforce
      have I: "space_inv edim S1 \<and> sp_spaces S1 = rows \<and> sp_tables S1 = T"
        using backfill_window_inv [of edim S space] b 1(2,3) backfill_window_tables [OF b] by simp
      show ?thesis
      proof (cases r1)
        case (Inl e)
        with b I Inr False 1(4) show ?thesis by (simp add: backfill_from.simps [of space])
      next
        case (Inr n)
        from 1(1) [OF \<open>next_backfill_window S space after_id batch = Inr window\<close> False b [symmetric] Inr I 1(3)]
          b Inr \<open>next_backfill_window S space after_id batch = Inr window\<close> False 1(4)
        show ?thesis by (simp add: backfill_from.simps [of space])
      qed
    qed
  qed
qed

subsection \<open>Opening the space\<close>

lemma set_spaces_same_identity:
  assumes "d_identity (sp_db S) = active_fingerprint rows"
  shows "sp_tables (set_spaces rows S) = sp_tables S"
  using assms by (simp add: set_spaces_def map_db_def)

lemma begin_populating_ok:
  assumes inv: "space_inv edim S" and d: "find_by_name S (es_name s) = None \<Longrightarrow> dims_to_sql (es_fingerprint s) = Inr ()" "es_status s = SpacePopulating"
    and name: "\<forall>x. find_by_name S (es_name s) = Some x \<longrightarrow> es_status x = SpacePopulating \<and> es_fingerprint x = es_fingerprint s"
  shows "\<exists>T. begin_populating created s S = (Inr (), T) \<and> space_inv edim T \<and> sp_tables T = sp_tables S \<and>
    sp_vectors T = sp_vectors S \<and> find_by_name T (es_name s) = Some s \<and>
    List.find is_active_space (sp_spaces T) = List.find is_active_space (sp_spaces S)"
proof (cases "find_by_name S (es_name s)")
  case (Some x)
  then obtain u where "List.find (\<lambda>r. es_name (fst r) = es_name s) (sp_spaces S) = Some (x, u)"
    by (auto simp: find_by_name_def)
  from find_eq_Some_in [OF this] have "es_name x = es_name s" by simp
  with name Some d(2) have "x = s" by (auto intro: embedding_space.equality)
  with Some d(2) inv show ?thesis by (auto simp: begin_populating_def)
next
  case None
  let ?rows = "sp_spaces S @ [(s, created)]"
  let ?T = "set_spaces ?rows S"
  have v: "vectors_inv S" using inv by (simp add: space_inv_def)
  have new: "es_name s \<notin> space_names S"
    using None by (auto simp: find_by_name_def find_None_iff space_names_def)
  have act: "List.find is_active_space ?rows = List.find is_active_space (sp_spaces S)"
    using d(2) by (simp add: find_append is_active_space_def split: option.splits)
  then have "active_fingerprint ?rows = active_fingerprint (sp_spaces S)"
    by (simp add: active_fingerprint_def)
  then have t: "sp_tables ?T = sp_tables S"
    using v by (intro set_spaces_same_identity) (simp add: vectors_inv_def)
  have same: "s\<lparr>es_status := SpacePopulating\<rparr> = s" using d(2) by simp
  have b: "begin_populating created s S = (Inr (), ?T)"
    using None new d(1) [OF None] d(2) by (simp add: begin_populating_def insert_populating_def insert_space_row_def op_bind_def same)
  have "find_by_name ?T (es_name s) = Some s"
    using None by (simp add: find_by_name_def find_append split: option.splits)
  with b t act keepsD [OF keeps_begin_populating inv b] show ?thesis by auto
qed

subsection \<open>The whole run\<close>

definition live_writes :: "nat \<Rightarrow> (space_store \<Rightarrow> space_store) \<Rightarrow> bool" where
  \<comment> \<open>calls that may add and expire facts, but leave the spaces and the contents alone\<close>
  "live_writes edim g \<longleftrightarrow> (\<forall>T. space_inv edim T \<longrightarrow> space_inv edim (g T) \<and> sp_spaces (g T) = sp_spaces T \<and>
     sp_vectors (g T) = sp_vectors T \<and>
     (\<forall>f \<in> set (d_facts (sp_db T)). \<forall>h \<in> set (d_facts (sp_db (g T))). f_id h = f_id f \<longrightarrow> f_content h = f_content f))"

definition new_vector :: "space_store \<Rightarrow> string \<Rightarrow> (string \<Rightarrow> fl list) \<Rightarrow> fact \<Rightarrow> fl list" where
  \<comment> \<open>a vector staged before, or the embedding of the content\<close>
  "new_vector S space vec f = (case vector_of S space (f_id f) of Some e \<Rightarrow> e | None \<Rightarrow> vec (f_content f))"

lemma space_inv_parts:
  assumes "space_inv edim S"
  shows "vectors_inv S" "db_inv edim (sp_db S)" "spaces_inv (sp_spaces S)"
    "sorted_wrt (<) (map f_id (d_facts (sp_db S)))" "f \<in> set (d_facts (sp_db S)) \<Longrightarrow> 0 < f_id f"
  using assms by (auto simp: space_inv_def log_inv_def vectors_inv_def db_inv_def list_all_iff fact_row_ok_def)

lemma find_in_names: "find_by_name S x = Some s \<Longrightarrow> x \<in> space_names S \<and> es_name s = x"
  by (force simp: find_by_name_def space_names_def dest: find_eq_Some_in)

lemma populating_not_active:
  assumes "spaces_inv (sp_spaces S)" "find_by_name S x = Some s" "es_status s = SpacePopulating"
  shows "\<forall>r \<in> set (sp_spaces S). is_active_space r \<longrightarrow> es_name (fst r) \<noteq> x"
proof (intro ballI impI notI)
  fix r assume r: "r \<in> set (sp_spaces S)" "is_active_space r" "es_name (fst r) = x"
  from assms(2) obtain u where "List.find (\<lambda>r. es_name (fst r) = x) (sp_spaces S) = Some (s, u)"
    by (auto simp: find_by_name_def)
  from find_eq_Some_in [OF this] have "(s, u) \<in> set (sp_spaces S)" "es_name s = x" by auto
  with name_unique [of "sp_spaces S" r "(s, u)"] assms(1) r have "r = (s, u)" by (simp add: spaces_inv_def)
  with r assms(3) show False by (simp add: is_active_space_def)
qed

lemma backfill_space_ok:
  assumes inv: "space_inv edim S" and e: "embeds emb vec d"
    and s: "find_by_name S space = Some s" "es_status s = SpacePopulating"
  shows "\<exists>S'. backfill_space space emb d default_backfill_batch S = (Inr (length (unfilled S space 0)), S') \<and>
    S' = S\<lparr>sp_vectors := sp_vectors S @ vectors_for space vec (unfilled S space 0)\<rparr> \<and> space_inv edim S'"
proof -
  let ?S = "S\<lparr>sp_vectors := sp_vectors S @ vectors_for space vec (unfilled S space 0)\<rparr>"
  have b: "backfill_space space emb d default_backfill_batch S = (Inr (length (unfilled S space 0)), ?S)"
    using backfill_from_ok [OF e, of space S default_backfill_batch 0 0] find_in_names [OF s(1)]
      space_inv_parts(4) [OF inv]
    by (simp add: backfill_space_def default_backfill_batch_def i64_max_def)
  have "space_inv edim ?S"
    using backfill_from_inv [where space = space and rows = "sp_spaces S" and T = "sp_tables S",
        OF _ populating_not_active [OF space_inv_parts(3) [OF inv] s] b [unfolded backfill_space_def]] inv
    by blast
  with b show ?thesis by blast
qed

lemma vectors_for_mem: "\<lparr>fv_fact_id = i, fv_space_id = space, fv_embedding = v\<rparr> \<in> set (vectors_for space vec fs) \<longleftrightarrow>
    (\<exists>f \<in> set fs. f_id f = i \<and> v = vec (f_content f))"
  by (auto simp: vectors_for_def new_vectors_def)

lemma two_passes:
  \<comment> \<open>after the catch-up every fact has its vector\<close>
  assumes T: "space_inv edim T" and g: "live_writes edim g"
    and T1: "T1 = T\<lparr>sp_vectors := sp_vectors T @ vectors_for space vec (unfilled T space 0)\<rparr>" "space_inv edim T1"
    and T2: "T2 = (g T1)\<lparr>sp_vectors := sp_vectors (g T1) @ vectors_for space vec (unfilled (g T1) space 0)\<rparr>"
      "space_inv edim T2"
    and f: "f \<in> set (d_facts (sp_db T2))"
  shows "vector_of T2 space (f_id f) = Some (new_vector T space vec f)"
proof -
  have G: "space_inv edim (g T1)" "sp_vectors (g T1) = sp_vectors T1"
    "\<forall>f \<in> set (d_facts (sp_db T1)). \<forall>h \<in> set (d_facts (sp_db (g T1))). f_id h = f_id f \<longrightarrow> f_content h = f_content f"
    using g T1(2) by (simp_all add: live_writes_def)
  have fG: "f \<in> set (d_facts (sp_db (g T1)))" using f by (simp add: T2)
  have pos: "0 < f_id f" by (rule space_inv_parts(5) [OF G(1) fG])
  let ?v = "\<lambda>e. \<lparr>fv_fact_id = f_id f, fv_space_id = space, fv_embedding = e\<rparr>"
  have T2v: "set (sp_vectors T2) = set (sp_vectors T) \<union> set (vectors_for space vec (unfilled T space 0)) \<union>
      set (vectors_for space vec (unfilled (g T1) space 0))"
    using G(2) by (simp add: T2(1)) (simp add: T1(1))
  note in_T2 = vector_of_Some [OF space_inv_parts(1) [OF T2(2)], of space "f_id f"]
  show ?thesis
  proof (cases "vector_of T space (f_id f)")
    case (Some e)
    then have "?v e \<in> set (sp_vectors T)" using vector_of_Some [OF space_inv_parts(1) [OF T]] by simp
    then show ?thesis unfolding in_T2 new_vector_def Some T2v by simp
  next
    case None
    then have no: "\<not> has_vector T space (f_id f)" by (simp add: vector_of_None)
    show ?thesis
    proof (cases "\<exists>h \<in> set (d_facts (sp_db T)). f_id h = f_id f")
      case True
      then obtain h where h: "h \<in> set (d_facts (sp_db T))" "f_id h = f_id f" by blast
      then have "f_content f = f_content h" using G(3) fG by (simp add: T1)
      moreover have "h \<in> set (unfilled T space 0)" using h no pos by (simp add: unfilled_def)
      ultimately have "?v (vec (f_content f)) \<in> set (vectors_for space vec (unfilled T space 0))"
        unfolding vectors_for_mem using h(2) by metis
      then show ?thesis unfolding in_T2 new_vector_def None T2v by simp
    next
      case False
      have "\<not> has_vector (g T1) space (f_id f)"
      proof -
        have "has_vector (g T1) space (f_id f) = has_vector T1 space (f_id f)" by (simp add: has_vector_def G)
        also have "\<dots> \<longleftrightarrow> has_vector T space (f_id f) \<or> f_id f \<in> f_id ` set (unfilled T space 0)"
          unfolding T1 by (rule has_new_vectors)
        finally show ?thesis using no False by (auto simp: unfilled_def)
      qed
      then have "f \<in> set (unfilled (g T1) space 0)" using fG pos by (simp add: unfilled_def)
      then have "?v (vec (f_content f)) \<in> set (vectors_for space vec (unfilled (g T1) space 0))"
        unfolding vectors_for_mem by blast
      then show ?thesis unfolding in_T2 new_vector_def None T2v by simp
    qed
  qed
qed

definition can_open :: "space_store \<Rightarrow> fingerprint \<Rightarrow> bool" where
  \<comment> \<open>the name of the identity is free, or its reconstruction was left unfinished\<close>
  "can_open S fp \<longleftrightarrow> (\<forall>x. find_by_name S (space_name_for fp) = Some x \<longrightarrow>
     es_status x = SpacePopulating \<and> es_fingerprint x = fp)"

definition staged_width :: "space_store \<Rightarrow> string \<Rightarrow> nat \<Rightarrow> bool" where
  "staged_width S space d \<longleftrightarrow> (\<forall>v \<in> set (sp_vectors S). fv_space_id v = space \<longrightarrow> length (fv_embedding v) = d)"

lemma new_vector_width:
  assumes "vectors_inv S" "staged_width S space d" "\<forall>c. length (vec c) = d"
  shows "length (new_vector S space vec f) = d"
proof (cases "vector_of S space (f_id f)")
  case (Some e)
  then have "\<lparr>fv_fact_id = f_id f, fv_space_id = space, fv_embedding = e\<rparr> \<in> set (sp_vectors S)"
    using vector_of_Some [OF assms(1)] by simp
  with assms(2) have "length e = d" unfolding staged_width_def by (metis fact_vector.select_convs(2,3))
  then show ?thesis by (simp add: new_vector_def Some)
qed (use assms(3) in \<open>simp add: new_vector_def\<close>)

lemma begin_populating_names:
  assumes "begin_populating created s S = (Inr (), T)"
  shows "space_names T = insert (es_name s) (space_names S)"
proof (cases "find_by_name S (es_name s)")
  case None
  then have "insert_populating created s S = (Inr (), T)" using assms by (simp add: begin_populating_def)
  then have "T = set_spaces (sp_spaces S @ [(s\<lparr>es_status := SpacePopulating\<rparr>, created)]) S"
    by (simp add: insert_populating_def insert_space_row_def op_bind_def op_of_def split: sum.splits if_splits)
  then show ?thesis by (simp add: space_names_def)
next
  case (Some x)
  then have "T = S" using assms by (simp add: begin_populating_def split: if_splits)
  moreover have "es_name s \<in> space_names S"
    using Some by (auto simp: find_by_name_def space_names_def intro!: rev_image_eqI dest!: find_eq_Some_in)
  ultimately show ?thesis by (simp add: insert_absorb)
qed

lemma stage_and_promote_ok:
  assumes inv: "space_inv edim S" and e: "embeds emb vec (fp_dim fp)" and d: "dims_to_sql fp = Inr ()"
    and open_ok: "can_open S fp" and a: "find_active S = Inr (Some a)"
    and staged: "staged_width S (space_name_for fp) (fp_dim fp)" and g: "live_writes edim g"
  shows "\<exists>T S'. stage_and_promote (space_name_for fp) fp emb created g (\<lambda>S. S) S =
      (Inr \<lparr>po_promoted = length (d_facts (sp_db S')), po_deprecated_space = es_name a, po_new_fingerprint = fp,
         po_stragglers_caught = length (unfilled (g T) (space_name_for fp) 0), po_rebuild_index = True\<rparr>, S') \<and>
    sp_tables T = sp_tables S \<and> space_inv (fp_dim fp) S' \<and> su_summaries (sp_tables S') = su_summaries (sp_tables (g T)) \<and>
    d_identity (sp_db S') = Some fp \<and>
    d_facts (sp_db S') = map (\<lambda>f. f\<lparr>f_embedding := new_vector S (space_name_for fp) vec f\<rparr>) (d_facts (sp_db (g T))) \<and>
    (\<forall>f \<in> set (d_facts (sp_db (g T))). vector_of S' (es_name a) (f_id f) = Some (f_embedding f)) \<and>
    find_by_name S' (space_name_for fp) = Some \<lparr>es_name = space_name_for fp, es_fingerprint = fp, es_status = SpaceActive\<rparr> \<and>
    find_active S' = Inr (Some \<lparr>es_name = space_name_for fp, es_fingerprint = fp, es_status = SpaceActive\<rparr>) \<and>
    space_names S' = insert (space_name_for fp) (space_names S)"
proof -
  let ?name = "space_name_for fp"
  let ?s = "\<lparr>es_name = ?name, es_fingerprint = fp, es_status = SpacePopulating\<rparr>"
  obtain T where T: "begin_populating created ?s S = (Inr (), T)" "space_inv edim T" "sp_tables T = sp_tables S"
    "sp_vectors T = sp_vectors S" "find_by_name T ?name = Some ?s"
    "List.find is_active_space (sp_spaces T) = List.find is_active_space (sp_spaces S)"
    using begin_populating_ok [OF inv, of ?s created] d open_ok by (auto simp: can_open_def)
  from backfill_space_ok [OF T(2) e T(5)] obtain T1 where T1:
    "backfill_space ?name emb (fp_dim fp) default_backfill_batch T = (Inr (length (unfilled T ?name 0)), T1)"
    "T1 = T\<lparr>sp_vectors := sp_vectors T @ vectors_for ?name vec (unfilled T ?name 0)\<rparr>" "space_inv edim T1" by auto
  have G: "space_inv edim (g T1)" "sp_spaces (g T1) = sp_spaces T" using g T1 by (auto simp: live_writes_def)
  have nG: "find_by_name (g T1) ?name = Some ?s" using T(5) by (simp add: find_by_name_def G(2))
  from backfill_space_ok [OF G(1) e nG] obtain T2 where T2:
    "backfill_space ?name emb (fp_dim fp) default_backfill_batch (g T1) = (Inr (length (unfilled (g T1) ?name 0)), T2)"
    "T2 = (g T1)\<lparr>sp_vectors := sp_vectors (g T1) @ vectors_for ?name vec (unfilled (g T1) ?name 0)\<rparr>" "space_inv edim T2"
    by auto
  have sp2: "sp_spaces T2 = sp_spaces T" "sp_tables T2 = sp_tables (g T1)" by (simp_all add: T2(2) G(2))
  have vec2: "vector_of T2 ?name (f_id f) = Some (new_vector S ?name vec f)" if "f \<in> set (d_facts (sp_db T2))" for f
  proof -
    have "vector_of T ?name i = vector_of S ?name i" for i by (simp add: vector_of_def T(4))
    then show ?thesis
      using two_passes [OF T(2) g T1(2,3) T2(2,3) that] by (simp add: new_vector_def)
  qed
  obtain t where act: "List.find is_active_space (sp_spaces T2) = Some (a, t)"
    using a find_active_ok [OF space_inv_parts(3) [OF inv]] T(6) sp2(1) by auto
  from find_eq_Some_in [OF act] have aa: "(a, t) \<in> set (sp_spaces T2)" "es_status a = SpaceActive"
    by (auto simp: is_active_space_def)
  have n2: "find_by_name T2 ?name = Some ?s" using T(5) by (simp add: find_by_name_def sp2(1))
  then obtain u where nn: "(?s, u) \<in> set (sp_spaces T2)" by (auto simp: find_by_name_def dest: find_eq_Some_in)
  have ne: "?name \<noteq> es_name a"
    using populating_not_active [OF space_inv_parts(3) [OF T2(3)] n2] aa by (auto simp: is_active_space_def)
  have filled: "\<forall>f \<in> set (d_facts (sp_db T2)). has_vector T2 ?name (f_id f)"
  proof
    fix f assume "f \<in> set (d_facts (sp_db T2))"
    from vec2 [OF this] have "vector_of T2 ?name (f_id f) \<noteq> None" by simp
    then show "has_vector T2 ?name (f_id f)" unfolding vector_of_None by simp
  qed
  let ?S' = "promoted_store (es_name a) ?name T2"
  have p: "promote_space ?name T2 = (Inr \<lparr>po_promoted = length (d_facts (sp_db T2)), po_deprecated_space = es_name a,
      po_new_fingerprint = fp, po_stragglers_caught = 0, po_rebuild_index = True\<rparr>, ?S')"
    using promote_space_ok [OF space_inv_parts(1) [OF T2(3)] act n2 _ filled] by simp
  have facts: "d_facts (sp_db ?S') = map (\<lambda>f. f\<lparr>f_embedding := new_vector S ?name vec f\<rparr>) (d_facts (sp_db T2))"
    using vec2 by (simp add: promoted_store_simps with_vectors_def)
  have run: "stage_and_promote ?name fp emb created g (\<lambda>S. S) S =
      (Inr \<lparr>po_promoted = length (d_facts (sp_db ?S')), po_deprecated_space = es_name a, po_new_fingerprint = fp,
         po_stragglers_caught = length (unfilled (g T1) ?name 0), po_rebuild_index = True\<rparr>, ?S')"
    unfolding stage_and_promote_def
    using T(1) T1(1) T2(1) p by (simp add: op_bind_def others_def facts)
  have "\<forall>f \<in> set (d_facts (sp_db T2)). \<exists>e. vector_of T2 (es_name ?s) (f_id f) = Some e \<and> length e = fp_dim fp"
    using vec2 new_vector_width [OF space_inv_parts(1) [OF inv] staged] e by (simp add: embeds_def)
  from promoted_store_inv [OF T2(3) aa nn _ this] ne have i: "space_inv (fp_dim fp) ?S'" by simp
  have ident: "d_identity (sp_db ?S') = Some fp"
    using promoted_spaces_inv(3) [OF space_inv_parts(3) [OF T2(3)] aa nn] ne by (simp add: promoted_store_simps)
  have old: "vector_of ?S' (es_name a) (f_id f) = Some (f_embedding f)" if "f \<in> set (d_facts (sp_db (g T1)))" for f
    unfolding vector_of_Some [OF space_inv_parts(1) [OF i]] vectors_of_promoted using that ne sp2(2) by auto
  let ?new = "\<lparr>es_name = ?name, es_fingerprint = fp, es_status = SpaceActive\<rparr>"
  have byname: "find_by_name ?S' ?name = Some ?new"
  proof -
    obtain b where "List.find (\<lambda>r. es_name (fst r) = ?name) (sp_spaces T2) = Some (?s, b)"
      using n2 by (auto simp: find_by_name_def)
    then show ?thesis using ne by (simp add: find_by_name_def promoted_store_simps promoted_spaces_def find_status)
  qed
  then obtain u' where new: "(?new, u') \<in> set (sp_spaces ?S')" by (auto simp: find_by_name_def dest: find_eq_Some_in)
  have "List.find is_active_space (sp_spaces ?S') = Some (?new, u')"
    by (rule find_unique [OF new])
      (use spaces_inv_Cons [OF space_inv_parts(3) [OF i] _ _ _ new] in \<open>auto simp: is_active_space_def\<close>)
  then have active: "find_active ?S' = Inr (Some ?new)"
    using find_active_ok [OF space_inv_parts(3) [OF i]] by simp
  have "space_names ?S' = space_names T2"
    unfolding space_names_def promoted_store_simps promoted_spaces_def by (metis names_status list.set_map)
  moreover have "space_names T2 = insert ?name (space_names S)"
    using begin_populating_names [OF T(1)] by (simp add: space_names_def sp2(1))
  ultimately have names: "space_names ?S' = insert ?name (space_names S)" by simp
  have "sp_tables T1 = sp_tables S" by (simp add: T1(2) T(3))
  with run i ident facts old byname active names show ?thesis
    by (intro exI [of _ T1] exI [of _ ?S']) (simp add: sp2(2) promoted_store_simps)
qed

lemma stage_failed_keeps:
  \<comment> \<open>a run that fails before or in the promotion changes only the staging\<close>
  assumes inv: "space_inv edim S" and r: "stage_and_promote space fp emb created (\<lambda>S. S) (\<lambda>S. S) S = (Inl e, S')"
  shows "sp_tables S' = sp_tables S" "find_active S' = find_active S"
proof -
  let ?I = "\<lambda>T. space_inv edim T \<and> sp_tables T = sp_tables S \<and>
      List.find is_active_space (sp_spaces T) = List.find is_active_space (sp_spaces S)"
  let ?s = "\<lparr>es_name = space, es_fingerprint = fp, es_status = SpacePopulating\<rparr>"
  have b: "?I T \<and> (r = Inr () \<longrightarrow> find_by_name T space = Some ?s)" if "begin_populating created ?s S = (r, T)" for r T
  proof (cases "(find_by_name S space = None \<longrightarrow> dims_to_sql fp = Inr ()) \<and>
      (\<forall>x. find_by_name S space = Some x \<longrightarrow> es_status x = SpacePopulating \<and> es_fingerprint x = fp)")
    case True
    with begin_populating_ok [OF inv, of ?s created] that show ?thesis by auto
  next
    case False
    then have "r \<noteq> Inr () \<and> T = S"
      using that by (auto simp: begin_populating_def insert_populating_def op_bind_def split: option.splits if_splits sum.splits)
    with inv show ?thesis by simp
  qed
  have p: "?I T' \<and> find_by_name T' space = Some ?s" if "?I T" "find_by_name T space = Some ?s" "backfill_space space emb k n T = (r, T')" for T T' k n r
  proof -
    from backfill_from_inv [where rows = "sp_spaces T" and T = "sp_tables T", OF _ populating_not_active that(3) [unfolded backfill_space_def]]
      that(1,2) space_inv_parts(3)
    have "space_inv edim T' \<and> sp_spaces T' = sp_spaces T \<and> sp_tables T' = sp_tables T" by fastforce
    with that(1,2) show ?thesis by (simp add: find_by_name_def)
  qed
  obtain r0 T where T: "begin_populating created ?s S = (r0, T)" by fastforce
  note b0 = b [OF T]
  obtain r1 T1 where T1: "backfill_space space emb (fp_dim fp) default_backfill_batch T = (r1, T1)" by fastforce
  obtain r2 T2 where T2: "backfill_space space emb (fp_dim fp) default_backfill_batch T1 = (r2, T2)" by fastforce
  obtain r3 T3 where T3: "promote_space space T2 = (r3, T3)" by fastforce
  have "?I S'"
  proof (cases r0)
    case (Inl x)
    then have "S' = T" using r T by (simp add: stage_and_promote_def op_bind_def)
    with b0 show ?thesis by simp
  next
    case r0: (Inr x)
    then have n: "find_by_name T space = Some ?s" using b0 by simp
    note p1 = p [OF conjunct1 [OF b0] n T1]
    show ?thesis
    proof (cases r1)
      case (Inl y)
      then have "S' = T1" using r T T1 r0 by (simp add: stage_and_promote_def op_bind_def)
      with p1 show ?thesis by simp
    next
      case r1: (Inr y)
      note p2 = p [OF conjunct1 [OF p1] conjunct2 [OF p1] T2]
      show ?thesis
      proof (cases r2)
        case (Inl z)
        then have "S' = T2" using r T T1 T2 r0 r1 by (simp add: stage_and_promote_def op_bind_def others_def)
        with p2 show ?thesis by simp
      next
        case r2: (Inr z)
        with r T T1 T2 T3 r0 r1 have "r3 = Inl e" "S' = T3"
          by (auto simp: stage_and_promote_def op_bind_def others_def split: sum.splits)
        with T3 have "S' = T2" using promote_failed by blast
        with p2 show ?thesis by simp
      qed
    qed
  qed
  then show "sp_tables S' = sp_tables S" "find_active S' = find_active S"
    using find_active_ok [OF space_inv_parts(3)] inv by auto
qed

end
