(* ===== verification/Space_Properties.thy ===== *)
theory Space_Properties
  imports Reconstruct Consolidation_Graph
begin

text \<open>
  The properties of the embedding spaces and of the reconstruction, after the predicate that says what
  a run leaves, its lemma, and a store with two facts and one summary on which the closed ones run.
\<close>

definition reconstructed :: "space_store \<Rightarrow> fingerprint \<Rightarrow> (string \<Rightarrow> fl list) \<Rightarrow> embedding_space \<Rightarrow> space_store
    \<Rightarrow> space_store \<Rightarrow> bool" where
  \<comment> \<open>\<open>S'\<close> is what the run from \<open>S\<close> leaves, where other calls had led to \<open>G\<close> before the catch-up\<close>
  "reconstructed S fp vec old G S' \<longleftrightarrow>
     space_inv (fp_dim fp) S' \<and> d_identity (sp_db S') = Some fp \<and>
     su_summaries (sp_tables S') = su_summaries (sp_tables G) \<and>
     d_facts (sp_db S') = map (\<lambda>f. f\<lparr>f_embedding := new_vector S (space_name_for fp) vec f\<rparr>) (d_facts (sp_db G)) \<and>
     (\<forall>f \<in> set (d_facts (sp_db G)). vector_of S' (es_name old) (f_id f) = Some (f_embedding f)) \<and>
     find_by_name S' (space_name_for fp) = Some \<lparr>es_name = space_name_for fp, es_fingerprint = fp, es_status = SpaceActive\<rparr> \<and>
     find_active S' = Inr (Some \<lparr>es_name = space_name_for fp, es_fingerprint = fp, es_status = SpaceActive\<rparr>) \<and>
     space_names S' = insert (space_name_for fp) (space_names S)"

lemma reconstruct_run:
  assumes "space_inv edim S" "embeds emb vec (fp_dim fp)" "dims_to_sql fp = Inr ()" "can_open S fp"
    "find_active S = Inr (Some a)" "staged_width S (space_name_for fp) (fp_dim fp)" "live_writes edim g"
    and w: "ensure_writable ctx = Inr ()" "fp_dim (em_fingerprint emb) = fp_dim fp"
  shows "\<exists>T S' n. reconstruct (\<lambda>_. Inr ()) fp emb created g (\<lambda>S. S) (S, ctx) =
      (Inr \<lparr>po_promoted = length (d_facts (sp_db S')), po_deprecated_space = es_name a, po_new_fingerprint = fp,
         po_stragglers_caught = n, po_rebuild_index = True\<rparr>,
       (S', if fp_dim fp = ctx_embed_dim ctx then ctx else ctx\<lparr>ctx_reopen_required := fp_dim fp\<rparr>)) \<and>
    sp_tables T = sp_tables S \<and> n = length (unfilled (g T) (space_name_for fp) 0) \<and> reconstructed S fp vec a (g T) S'"
proof -
  from stage_and_promote_ok [OF assms(1-7), of created] obtain T S' where
    r: "stage_and_promote (space_name_for fp) fp emb created g (\<lambda>S. S) S =
      (Inr \<lparr>po_promoted = length (d_facts (sp_db S')), po_deprecated_space = es_name a, po_new_fingerprint = fp,
         po_stragglers_caught = length (unfilled (g T) (space_name_for fp) 0), po_rebuild_index = True\<rparr>, S')"
    and p: "sp_tables T = sp_tables S" "reconstructed S fp vec a (g T) S'"
    unfolding reconstructed_def by blast
  from r w have "reconstruct (\<lambda>_. Inr ()) fp emb created g (\<lambda>S. S) (S, ctx) =
      (Inr \<lparr>po_promoted = length (d_facts (sp_db S')), po_deprecated_space = es_name a, po_new_fingerprint = fp,
         po_stragglers_caught = length (unfilled (g T) (space_name_for fp) 0), po_rebuild_index = True\<rparr>,
       (S', if fp_dim fp = ctx_embed_dim ctx then ctx else ctx\<lparr>ctx_reopen_required := fp_dim fp\<rparr>))"
    by (simp add: reconstruct_def op_bind_def on_space_def refresh_index_def)
  with p show ?thesis by blast
qed

subsection \<open>A store with a summary\<close>

definition ex_identity :: fingerprint where "ex_identity = em_fingerprint ex_embedder"

definition ex_default_space :: embedding_space where
  "ex_default_space = \<lparr>es_name = default_name, es_fingerprint = ex_identity, es_status = SpaceActive\<rparr>"

definition ex_spaces :: space_store where
  "ex_spaces = \<lparr>sp_tables = \<lparr>su_log = ex_log\<lparr>lg_db := ex_db\<lparr>d_identity := Some ex_identity\<rparr>\<rparr>,
     su_summaries = [\<lparr>s_id = 1, s_content = ''s'', s_embedding = [Fin 1], s_level = GlobalLevel,
       s_source_fact_ids = [1, 2], s_created_at = 0, s_scope_id = 1\<rparr>], su_summary_seq = 1\<rparr>,
     sp_spaces = [(ex_default_space, 0)], sp_vectors = []\<rparr>"

definition ex_wide :: "string \<Rightarrow> string \<Rightarrow> nat \<Rightarrow> fingerprint" where
  "ex_wide model provider width = \<lparr>fp_model = model, fp_provider = provider, fp_dim = width,
     fp_matryoshka_base_dim = None, fp_element_type = ''f32''\<rparr>"

definition ex_embeds :: "fingerprint \<Rightarrow> embedder" where
  "ex_embeds fp = \<lparr>em_embed = (\<lambda>_. Inr (replicate (fp_dim fp) (Fin 1))),
     em_embed_batch = (\<lambda>cs. Inr (map (\<lambda>_. replicate (fp_dim fp) (Fin 1)) cs)), em_fingerprint = fp\<rparr>"

lemma ex_embeds_ok:
  "embeds (ex_embeds fp) (\<lambda>_. replicate (fp_dim fp) (Fin 1)) (fp_dim fp)"
  "em_fingerprint (ex_embeds fp) = fp"
  by (simp_all add: embeds_def ex_embeds_def)

lemma ex_spaces_inv: "space_inv 1 ex_spaces" "summary_inv 1 (sp_tables ex_spaces)"
proof -
  have l: "log_inv 1 (su_log (sp_tables ex_spaces))"
    using ex_log_inv unfolding log_inv_def by (simp add: ex_spaces_def ex_log_def scope_ids_of_def)
  moreover have "vectors_inv ex_spaces"
    by (simp add: vectors_inv_def ex_spaces_def spaces_inv_def active_fingerprint_def is_active_space_def
        ex_default_space_def)
  ultimately show "space_inv 1 ex_spaces" by (simp add: space_inv_def)
  have "1 \<in> scope_ids_of (su_db (sp_tables ex_spaces))"
    using root_scope [of 1 ex_db] ex_db_inv by (simp add: ex_spaces_def scope_ids_of_def)
  with l show "summary_inv 1 (sp_tables ex_spaces)"
    by (simp add: summary_inv_def summary_row_ok_def) (simp add: ex_spaces_def summary_row_ok_def)
qed

lemma ex_spaces_active: "find_active ex_spaces = Inr (Some ex_default_space)"
  by (simp add: find_active_def ex_spaces_def is_active_space_def ex_default_space_def)

lemma live_writes_none: "live_writes edim (\<lambda>T. T)"
  unfolding live_writes_def
proof (intro allI impI conjI ballI)
  fix T f h
  assume "space_inv edim T" "f \<in> set (d_facts (sp_db T))" "h \<in> set (d_facts (sp_db T))" "f_id h = f_id f"
  then have "h = f"
    using space_inv_parts(4) by (metis distinct_map inj_onD strict_sorted_iff)
  then show "f_content h = f_content f" by simp
qed simp_all

lemma quiet_run:
  \<comment> \<open>a run that no other call interrupts, with any provider that answers\<close>
  assumes "space_inv edim S" "fp_dim fp \<le> i64_max" "fp_matryoshka_base_dim fp = None" "find_by_name S (space_name_for fp) = None"
    "find_active S = Inr (Some a)" "staged_width S (space_name_for fp) (fp_dim fp)" "ensure_writable ctx = Inr ()"
  shows "\<exists>S' out. reconstruct (\<lambda>_. Inr ()) fp (ex_embeds fp) created (\<lambda>T. T) (\<lambda>T. T) (S, ctx) =
      (Inr out, (S', if fp_dim fp = ctx_embed_dim ctx then ctx else ctx\<lparr>ctx_reopen_required := fp_dim fp\<rparr>)) \<and>
    reconstructed S fp (\<lambda>_. replicate (fp_dim fp) (Fin 1)) a S S'"
proof -
  have "can_open S fp" "dims_to_sql fp = Inr ()"
    using assms(2-4) by (simp_all add: can_open_def dims_to_sql_def)
  from reconstruct_run [OF assms(1) ex_embeds_ok(1) this(2,1) assms(5,6) live_writes_none assms(7)] ex_embeds_ok(2)
  obtain T S' n where *: "reconstruct (\<lambda>_. Inr ()) fp (ex_embeds fp) created (\<lambda>T. T) (\<lambda>T. T) (S, ctx) =
      (Inr \<lparr>po_promoted = length (d_facts (sp_db S')), po_deprecated_space = es_name a, po_new_fingerprint = fp,
         po_stragglers_caught = n, po_rebuild_index = True\<rparr>,
       (S', if fp_dim fp = ctx_embed_dim ctx then ctx else ctx\<lparr>ctx_reopen_required := fp_dim fp\<rparr>))"
    "sp_tables T = sp_tables S" "reconstructed S fp (\<lambda>_. replicate (fp_dim fp) (Fin 1)) a T S'"
    by metis
  then have "reconstructed S fp (\<lambda>_. replicate (fp_dim fp) (Fin 1)) a S S'" by (simp add: reconstructed_def)
  with *(1) show ?thesis by blast
qed


lemma ex_spaces_run:
  assumes "fp_dim fp \<le> i64_max" "fp_matryoshka_base_dim fp = None" "space_name_for fp \<noteq> default_name"
  shows "\<exists>S' out. reconstruct (\<lambda>_. Inr ()) fp (ex_embeds fp) 1 (\<lambda>T. T) (\<lambda>T. T) (ex_spaces, ex_ctx) =
      (Inr out, (S', if fp_dim fp = 1 then ex_ctx else ex_ctx\<lparr>ctx_reopen_required := fp_dim fp\<rparr>)) \<and>
    reconstructed ex_spaces fp (\<lambda>_. replicate (fp_dim fp) (Fin 1)) ex_default_space ex_spaces S'"
proof -
  have "find_by_name ex_spaces (space_name_for fp) = None" "staged_width ex_spaces (space_name_for fp) (fp_dim fp)"
    using assms(3) by (simp_all add: find_by_name_def ex_spaces_def ex_default_space_def staged_width_def)
  from quiet_run [OF ex_spaces_inv(1) assms(1,2) this(1) ex_spaces_active this(2) ex_ctx_open(2), of 1]
  show ?thesis by (simp add: ex_ctx_def)
qed

subsection \<open>The properties\<close>

text \<open>C19: a reconstruction from a sound store, with a provider that answers and a name that is free or left
  over by a run for the same identity, succeeds: whatever facts other calls add or expire before the catch-up,
  afterwards every fact carries the vector of its content under the new identity (or the one an earlier run
  staged), the vectors served so far are kept under the old space, the new space is the only active one and
  the store keeps its invariant at the new dimension; the report counts the facts and the stragglers, and
  the handle is fenced exactly when the dimension differs from its own.\<close>

theorem reconstruct_reembeds:
  assumes "space_inv edim S" "embeds emb vec (fp_dim fp)" "dims_to_sql fp = Inr ()" "can_open S fp"
    and "find_active S = Inr (Some old)" "staged_width S (space_name_for fp) (fp_dim fp)" "live_writes edim g"
    and "ensure_writable ctx = Inr ()" "fp_dim (em_fingerprint emb) = fp_dim fp"
  shows "\<exists>T S'. sp_tables T = sp_tables S \<and>
    reconstruct (\<lambda>_. Inr ()) fp emb created g (\<lambda>T. T) (S, ctx) =
      (Inr \<lparr>po_promoted = length (d_facts (sp_db (g T))), po_deprecated_space = es_name old, po_new_fingerprint = fp,
         po_stragglers_caught = length (unfilled (g T) (space_name_for fp) 0), po_rebuild_index = True\<rparr>,
       (S', if fp_dim fp = ctx_embed_dim ctx then ctx else ctx\<lparr>ctx_reopen_required := fp_dim fp\<rparr>)) \<and>
    reconstructed S fp vec old (g T) S'"
proof -
  from reconstruct_run [OF assms, of created] obtain T S' where
    "reconstruct (\<lambda>_. Inr ()) fp emb created g (\<lambda>S. S) (S, ctx) =
      (Inr \<lparr>po_promoted = length (d_facts (sp_db S')), po_deprecated_space = es_name old, po_new_fingerprint = fp,
         po_stragglers_caught = length (unfilled (g T) (space_name_for fp) 0), po_rebuild_index = True\<rparr>,
       (S', if fp_dim fp = ctx_embed_dim ctx then ctx else ctx\<lparr>ctx_reopen_required := fp_dim fp\<rparr>))"
    "sp_tables T = sp_tables S" "reconstructed S fp vec old (g T) S'" by blast
  moreover from this(3) have "length (d_facts (sp_db S')) = length (d_facts (sp_db (g T)))"
    by (simp add: reconstructed_def)
  ultimately show ?thesis by (intro exI [of _ T] exI [of _ S']) simp
qed

lemma ex_wide_parts [simp]:
  "fp_dim (ex_wide m p d) = d" "fp_matryoshka_base_dim (ex_wide m p d) = None"
  by (simp_all add: ex_wide_def)

lemma ex_names:
  "space_name_for (ex_wide ''m'' ''p'' 2) = ''m_p_2''"
  "space_name_for (ex_wide ''n'' ''p'' 1) = ''n_p_1''"
  "space_name_for (ex_wide ''a/b'' ''p'' 1) = ''a_b_p_1''"
  "space_name_for (ex_wide ''a.b'' ''p'' 1) = ''a_b_p_1''"
  "default_name = ''default''"
  by code_simp+

theorem reconstruct_reembeds_witness:
  "\<exists>T S' caught. sp_tables T = sp_tables ex_spaces \<and>
    reconstruct (\<lambda>_. Inr ()) (ex_wide ''m'' ''p'' 2) (ex_embeds (ex_wide ''m'' ''p'' 2)) 1 (\<lambda>T. T) (\<lambda>T. T) (ex_spaces, ex_ctx) =
      (Inr \<lparr>po_promoted = 2, po_deprecated_space = default_name, po_new_fingerprint = ex_wide ''m'' ''p'' 2,
         po_stragglers_caught = caught, po_rebuild_index = True\<rparr>, (S', ex_ctx\<lparr>ctx_reopen_required := 2\<rparr>)) \<and>
    reconstructed ex_spaces (ex_wide ''m'' ''p'' 2) (\<lambda>_. [Fin 1, Fin 1]) ex_default_space T S'"
proof -
  let ?fp = "ex_wide ''m'' ''p'' 2"
  have d: "dims_to_sql ?fp = Inr ()" by (simp add: dims_to_sql_def i64_max_def)
  have n: "can_open ex_spaces ?fp" "staged_width ex_spaces (space_name_for ?fp) (fp_dim ?fp)"
    by (simp_all add: can_open_def find_by_name_def ex_spaces_def ex_default_space_def staged_width_def ex_names)
  have two: "replicate (fp_dim ?fp) (Fin 1) = [Fin 1, Fin (1 :: real)]" by (simp add: numeral_2_eq_2)
  from reconstruct_reembeds [OF ex_spaces_inv(1) ex_embeds_ok(1) d n(1) ex_spaces_active n(2) live_writes_none ex_ctx_open(2), of 1]
    ex_embeds_ok(2)
  obtain T S' where *: "sp_tables T = sp_tables ex_spaces"
    "reconstruct (\<lambda>_. Inr ()) ?fp (ex_embeds ?fp) 1 (\<lambda>T. T) (\<lambda>T. T) (ex_spaces, ex_ctx) =
      (Inr \<lparr>po_promoted = length (d_facts (sp_db T)), po_deprecated_space = es_name ex_default_space, po_new_fingerprint = ?fp,
         po_stragglers_caught = length (unfilled T (space_name_for ?fp) 0), po_rebuild_index = True\<rparr>,
       (S', if fp_dim ?fp = ctx_embed_dim ex_ctx then ex_ctx else ex_ctx\<lparr>ctx_reopen_required := fp_dim ?fp\<rparr>))"
    "reconstructed ex_spaces ?fp (\<lambda>_. replicate (fp_dim ?fp) (Fin 1)) ex_default_space T S'" by metis
  then show ?thesis
    unfolding two by (intro exI [of _ T] exI [of _ S'])
      (simp add: ex_ctx_def ex_spaces_def ex_log_def ex_db_def ex_default_space_def)
qed



text \<open>Two identities can have the same space name: the models a/b and a.b do. After a reconstruction to the
  first, a reconstruction to the second is refused, because the space of that name is active.\<close>

theorem space_names_collide:
  "\<exists>S' T out. ex_wide ''a/b'' ''p'' 1 \<noteq> ex_wide ''a.b'' ''p'' 1 \<and>
    space_name_for (ex_wide ''a/b'' ''p'' 1) = space_name_for (ex_wide ''a.b'' ''p'' 1) \<and>
    reconstruct (\<lambda>_. Inr ()) (ex_wide ''a/b'' ''p'' 1) (ex_embeds (ex_wide ''a/b'' ''p'' 1)) 1 (\<lambda>T. T) (\<lambda>T. T) (ex_spaces, ex_ctx) =
      (Inr out, (S', ex_ctx)) \<and>
    reconstruct (\<lambda>_. Inr ()) (ex_wide ''a.b'' ''p'' 1) (ex_embeds (ex_wide ''a.b'' ''p'' 1)) 2 (\<lambda>T. T) (\<lambda>T. T) (S', ex_ctx) =
      (Inl (Internal (Fmt ''begin_populating: space {:?} already exists with status {}; cannot reopen as populating''
         [AStr ''a_b_p_1'', AStr ''Active''])), (S', ex_ctx))"
proof -
  let ?a = "ex_wide ''a/b'' ''p'' 1" and ?b = "ex_wide ''a.b'' ''p'' 1"
  from ex_spaces_run [of ?a] obtain S' out where
    r: "reconstruct (\<lambda>_. Inr ()) ?a (ex_embeds ?a) 1 (\<lambda>T. T) (\<lambda>T. T) (ex_spaces, ex_ctx) = (Inr out, (S', ex_ctx))"
    "reconstructed ex_spaces ?a (\<lambda>_. replicate (fp_dim ?a) (Fin 1)) ex_default_space ex_spaces S'"
    by (auto simp: ex_names i64_max_def simp del: One_nat_def)
  then have "find_by_name S' ''a_b_p_1'' = Some \<lparr>es_name = ''a_b_p_1'', es_fingerprint = ?a, es_status = SpaceActive\<rparr>"
    unfolding reconstructed_def ex_names by blast
  then have "reconstruct (\<lambda>_. Inr ()) ?b (ex_embeds ?b) 2 (\<lambda>T. T) (\<lambda>T. T) (S', ex_ctx) =
      (Inl (Internal (Fmt ''begin_populating: space {:?} already exists with status {}; cannot reopen as populating''
         [AStr ''a_b_p_1'', AStr ''Active''])), (S', ex_ctx))"
    by (simp add: reconstruct_def op_bind_def op_reads_def on_space_def stage_and_promote_def ex_ctx_open ex_embeds_ok
        ex_names begin_populating_def del: One_nat_def)
  moreover have "?a \<noteq> ?b" by (simp add: ex_wide_def)
  ultimately show ?thesis using r(1) by (auto simp: ex_names simp del: One_nat_def)
qed



end
