(* ===== verification/Dump.thy ===== *)
theory Dump
  imports Reconstruct
begin

text \<open>
  The JSON dump of a store (\<open>me-backend-sqlite/src/inspect/dump.rs\<close>), as the document
  \<open>engine_snapshot\<close> (\<open>me-types/src/types/inspect.rs\<close>). The text of a document and the compressors
  are parameters.

  The tables are read one after the other and not in one transaction; \<open>g i\<close> is what other calls commit
  after the \<open>i\<close>-th read. Files are a map from paths to contents.
\<close>

record space_snapshot =
  ss_name :: string
  ss_status :: string
  ss_fingerprint :: fingerprint

record engine_snapshot =
  en_schema_version :: nat
  en_storage_epoch :: nat
  en_embed_dim :: nat
  en_facts :: "fact list"
  en_edges :: "edge list"
  en_summaries :: "summary list"
  en_scopes :: "scope_node list"
  en_events :: "event list"
  en_lineage :: "lineage_row list"
  en_spaces :: "space_snapshot list"
  en_vectors :: "fact_vector list"
  en_config :: "(string \<times> string) list"

definition parse_unsigned :: "nat \<Rightarrow> string \<Rightarrow> nat option" where
  \<comment> \<open>\<open>from_str\<close> of an unsigned integer type with the given largest value\<close>
  "parse_unsigned bound s =
     (case s of [] \<Rightarrow> None
      | c # _ \<Rightarrow> if c = CHR ''-'' then None
          else case parse_i64 s of Inl _ \<Rightarrow> None
            | Inr i \<Rightarrow> if i \<le> int bound then Some (nat i) else None)"

definition u16_max :: nat where "u16_max = 65535"

definition config_number :: "nat \<Rightarrow> string \<Rightarrow> space_store \<Rightarrow> nat result" where
  "config_number bound key S =
     Inr (case get_config (su_log (sp_tables S)) key of None \<Rightarrow> 0
        | Some v \<Rightarrow> (case parse_unsigned bound v of None \<Rightarrow> 0 | Some n \<Rightarrow> n))"

definition space_to_snapshot :: "embedding_space \<Rightarrow> space_snapshot" where
  "space_to_snapshot s =
     \<lparr>ss_name = es_name s, ss_status = as_sql (es_status s), ss_fingerprint = es_fingerprint s\<rparr>"

definition config_entries :: "log_store \<Rightarrow> (string \<times> string) list" where
  \<comment> \<open>the entries of the \<open>BTreeMap\<close> that \<open>list_config\<close> gives\<close>
  "config_entries L = sort_key fst (lg_config L)"

definition read_then ::
    "('s \<Rightarrow> 's) \<Rightarrow> ('s \<Rightarrow> 'a result) \<Rightarrow> ('a \<Rightarrow> ('s, 'b) op) \<Rightarrow> ('s, 'b) op" where
  \<comment> \<open>a read of its own, after which other calls may commit\<close>
  "read_then h f k = op_bind (op_reads f) (\<lambda>x S. k x (h S))"

definition stream_snapshot ::
    "nat \<Rightarrow> (nat \<Rightarrow> space_store \<Rightarrow> space_store) \<Rightarrow> (space_store, engine_snapshot) op" where
  "stream_snapshot edim g =
     read_then (g 0) (config_number u32_max ''schema_version'') (\<lambda>version.
     read_then (g 1) (config_number u16_max ''storage_epoch'') (\<lambda>epoch.
     read_then (g 2) (\<lambda>S. Inr (map space_to_snapshot (list_spaces S))) (\<lambda>spaces.
     read_then (g 3) (\<lambda>S. Inr (config_entries (su_log (sp_tables S)))) (\<lambda>config.
     read_then (g 4) (\<lambda>S. list_all_facts edim (sp_db S)) (\<lambda>facts.
     read_then (g 5) (\<lambda>S. Inr (list_all_edges (sp_db S))) (\<lambda>edges.
     read_then (g 6) (\<lambda>S. list_all_summaries edim (sp_tables S)) (\<lambda>summaries.
     read_then (g 7) (\<lambda>S. Inr (list_all_scopes (d_scopes (sp_db S)))) (\<lambda>scopes.
     read_then (g 8) (\<lambda>S. Inr (sort_key ev_timestamp (lg_events (su_log (sp_tables S))))) (\<lambda>events.
     read_then (g 9) (\<lambda>S. map_res read_provenance (sort_key li_lineage_id (lg_lineage (su_log (sp_tables S))))) (\<lambda>lineage.
     read_then (g 10) (list_vectors edim) (\<lambda>vectors.
     op_return \<lparr>en_schema_version = version, en_storage_epoch = epoch, en_embed_dim = edim,
       en_facts = facts, en_edges = edges, en_summaries = summaries, en_scopes = scopes,
       en_events = events, en_lineage = lineage, en_spaces = spaces, en_vectors = vectors,
       en_config = config\<rparr>)))))))))))"

subsection \<open>Writing the file\<close>

type_synonym files = "string \<rightharpoonup> string"

definition dump_stream ::
    "(string \<Rightarrow> string) \<Rightarrow> (string \<Rightarrow> string option) \<Rightarrow> (engine_snapshot \<Rightarrow> string) \<Rightarrow> nat
      \<Rightarrow> (nat \<Rightarrow> space_store \<Rightarrow> space_store) \<Rightarrow> string \<Rightarrow> (space_store \<times> files, unit) op" where
  \<comment> \<open>to a sibling file, which is then renamed or removed\<close>
  "dump_stream encode sibling to_json edim g path = (\<lambda>(S, fs).
     case sibling path of
       None \<Rightarrow> (Inl (Internal (Fmt ''dump path has no file name: {}'' [AStr path])), (S, fs))
     | Some tmp \<Rightarrow>
         (case stream_snapshot edim g S of
            (Inl e, S') \<Rightarrow> (Inl e, (S', fs(tmp := None)))
          | (Inr snapshot, S') \<Rightarrow> (Inr (), (S', (fs(tmp := None))(path \<mapsto> encode (to_json snapshot))))))"

definition dump_json ::
    "(string \<Rightarrow> string option) \<Rightarrow> (engine_snapshot \<Rightarrow> string) \<Rightarrow> nat
      \<Rightarrow> (nat \<Rightarrow> space_store \<Rightarrow> space_store) \<Rightarrow> string \<Rightarrow> (space_store \<times> files, unit) op" where
  "dump_json = dump_stream (\<lambda>s. s)"

definition dump_sqlite ::
    "string option \<Rightarrow> (string \<Rightarrow> string option) \<Rightarrow> (string \<Rightarrow> bool) \<Rightarrow> (space_store \<Rightarrow> string) \<Rightarrow> string
      \<Rightarrow> (space_store \<times> files, unit) op" where
  \<comment> \<open>\<open>live\<close> is the file of the store, when it has one; \<open>backup\<close> gives the bytes \<open>VACUUM INTO\<close> writes\<close>
  "dump_sqlite live canonical is_dir backup path = (\<lambda>(S, fs).
     let guard = (case live of
           None \<Rightarrow> Inr ()
         | Some db_path \<Rightarrow> (case canonical db_path of
               None \<Rightarrow> Inl (Io (Lit ''No such file or directory''))
             | Some source \<Rightarrow>
                 if canonical path = Some source then Inl (Conflict DumpTargetIsLiveDatabase) else Inr ()))
     in case guard of
          Inl e \<Rightarrow> (Inl e, (S, fs))
        | Inr _ \<Rightarrow>
            if is_dir path then (Inl (Conflict DumpTargetIsDirectory), (S, fs))
            else (Inr (), (S, fs(path \<mapsto> backup S))))"

datatype dump_format = DumpJson string | DumpJsonGzip string | DumpJsonZstd string | DumpSqlite string

record codecs =
  \<comment> \<open>the compressors that are built in, and the decompressors of a byte stream\<close>
  cd_gzip :: "((string \<Rightarrow> string) \<times> (string \<Rightarrow> string)) option"
  cd_zstd :: "((string \<Rightarrow> string) \<times> (string \<Rightarrow> message + string)) option"

definition dump_state ::
    "codecs \<Rightarrow> string option \<Rightarrow> (string \<Rightarrow> string option) \<Rightarrow> (string \<Rightarrow> bool) \<Rightarrow> (space_store \<Rightarrow> string)
      \<Rightarrow> (string \<Rightarrow> string option) \<Rightarrow> (engine_snapshot \<Rightarrow> string) \<Rightarrow> nat
      \<Rightarrow> (nat \<Rightarrow> space_store \<Rightarrow> space_store) \<Rightarrow> dump_format \<Rightarrow> (space_store \<times> files, unit) op" where
  "dump_state C live canonical is_dir backup sibling to_json edim g format =
     (case format of
        DumpJson path \<Rightarrow> dump_json sibling to_json edim g path
      | DumpJsonGzip path \<Rightarrow> (case cd_gzip C of
            None \<Rightarrow> op_fail (NotImplemented (Lit ''gzip compression requires the `compress-gzip` feature''))
          | Some (encode, _) \<Rightarrow> dump_stream encode sibling to_json edim g path)
      | DumpJsonZstd path \<Rightarrow> (case cd_zstd C of
            None \<Rightarrow> op_fail (NotImplemented (Lit ''zstd compression requires the `compress-zstd` feature''))
          | Some (encode, _) \<Rightarrow> dump_stream encode sibling to_json edim g path)
      | DumpSqlite path \<Rightarrow> dump_sqlite live canonical is_dir backup path)"

end
