(* ===== verification/Restore.thy ===== *)
theory Restore
  imports Dump
begin

text \<open>
  Restoring a store from a dump (\<open>memory-engine/src/inspect/restore.rs\<close>, \<open>engine/restore.rs\<close>): reading
  the file with a cap, validating the document, and inserting its rows, with their ids, into an empty
  store in one transaction.

  The JSON parser is a parameter. It is given the bytes the reader can deliver and says what it made of
  them and how many it consumed. A table is kept in the order of its row ids, whatever the order of
  the inserts; the sequence of a table is the larger of its entry in \<open>sqlite_sequence\<close> and its row ids.
\<close>

subsection \<open>Reading the file\<close>

datatype compression = NoCompression | Gzip | Zstd

definition detect_compression :: "string \<Rightarrow> compression" where
  "detect_compression bytes =
     (let magic = map of_char (take 4 bytes) :: nat list in
      if take 2 magic = [31, 139] then Gzip
      else if magic = [40, 181, 47, 253] then Zstd
      else NoCompression)"

type_synonym json_parser = "string \<Rightarrow> engine_snapshot result \<times> nat"

definition u64_max :: nat where "u64_max = 2 ^ 64 - 1"

definition read_capped :: "json_parser \<Rightarrow> string \<Rightarrow> nat \<Rightarrow> engine_snapshot result" where
  "read_capped parse reader cap =
     (let allowed = min (cap + 1) u64_max in
      case parse (take allowed reader) of (parsed, consumed) \<Rightarrow>
        if allowed - consumed = 0 then Inl (SnapshotTooLarge cap) else parsed)"

definition max_snapshot_size :: nat where "max_snapshot_size = 4 * 1024 * 1024 * 1024"

definition read_gzip :: "codecs \<Rightarrow> json_parser \<Rightarrow> string \<Rightarrow> nat \<Rightarrow> engine_snapshot result" where
  "read_gzip C parse reader cap = (case cd_gzip C of
      None \<Rightarrow> Inl (NotImplemented (Lit
        ''gzip-compressed snapshot detected but `compress-gzip` feature is not enabled''))
    | Some (_, decode) \<Rightarrow> read_capped parse (decode reader) cap)"

definition read_zstd :: "codecs \<Rightarrow> json_parser \<Rightarrow> string \<Rightarrow> nat \<Rightarrow> engine_snapshot result" where
  "read_zstd C parse reader cap = (case cd_zstd C of
      None \<Rightarrow> Inl (NotImplemented (Lit
        ''zstd-compressed snapshot detected but `compress-zstd` feature is not enabled''))
    | Some (_, decode) \<Rightarrow> (case decode reader of
          Inl e \<Rightarrow> Inl (Internal e)
        | Inr stream \<Rightarrow> read_capped parse stream cap))"

definition read_snapshot_capped :: "codecs \<Rightarrow> json_parser \<Rightarrow> files \<Rightarrow> string \<Rightarrow> nat \<Rightarrow> engine_snapshot result" where
  "read_snapshot_capped C parse fs path cap =
     (case fs path of
        None \<Rightarrow> Inl (Io (Lit ''No such file or directory''))
      | Some bytes \<Rightarrow>
          if cap < length bytes then Inl (SnapshotTooLarge cap)
          else (case detect_compression bytes of
              NoCompression \<Rightarrow> read_capped parse bytes cap
            | Gzip \<Rightarrow> read_gzip C parse bytes cap
            | Zstd \<Rightarrow> read_zstd C parse bytes cap))"

definition read_snapshot :: "codecs \<Rightarrow> json_parser \<Rightarrow> files \<Rightarrow> string \<Rightarrow> engine_snapshot result" where
  "read_snapshot C parse fs path = read_snapshot_capped C parse fs path max_snapshot_size"

subsection \<open>Validating the document\<close>

definition current_schema_version :: nat where "current_schema_version = 14"
definition storage_epoch :: nat where "storage_epoch = 1"

definition check_width :: "nat \<Rightarrow> fl list \<Rightarrow> unit result" where
  "check_width expected e =
     (if length e \<noteq> expected then Inl (EmbeddingDimension expected (length e)) else Inr ())"

definition check_vector :: "engine_snapshot \<Rightarrow> fact_vector \<Rightarrow> unit result" where
  "check_vector snap fv =
     (case List.find (\<lambda>s. ss_name s = fv_space_id fv) (en_spaces snap) of
        None \<Rightarrow> Inl (Internal (Fmt
          ''snapshot fact_vectors row references unknown embedding space '{}' '' [AStr (fv_space_id fv)]))
      | Some s \<Rightarrow> check_width (fp_dim (ss_fingerprint s)) (fv_embedding fv))"

definition is_root_row :: "scope_node \<Rightarrow> bool" where
  "is_root_row s \<longleftrightarrow> sn_id s = 1 \<and> sn_parent_id s = None \<and> sn_label s = ''root'' \<and> sn_depth s = 0"

definition check_root :: "engine_snapshot \<Rightarrow> unit result" where
  "check_root snap =
     (if \<not> list_ex is_root_row (en_scopes snap) \<and> en_scopes snap \<noteq> []
      then Inl (Internal (Lit
        ''snapshot scopes missing required root node (id=1, parent_id=None, label='root', depth=0)''))
      else Inr ())"

definition validate_snapshot :: "engine_snapshot \<Rightarrow> unit result" where
  "validate_snapshot snap =
     (if current_schema_version < en_schema_version snap
      then Inl (Migration (Incompatible (Fmt ''snapshot schema_version {} is newer than supported {}''
        [ANat (en_schema_version snap), ANat current_schema_version])))
      else if storage_epoch < en_storage_epoch snap
      then Inl (UnsupportedEpoch (en_storage_epoch snap) storage_epoch)
      else if en_embed_dim snap = 0 then Inl (Internal (Lit ''snapshot embed_dim is 0''))
      else and_then (check_all (\<lambda>f. check_width (en_embed_dim snap) (f_embedding f)) (en_facts snap)) (\<lambda>_.
        and_then (check_all (\<lambda>s. check_width (en_embed_dim snap) (s_embedding s)) (en_summaries snap)) (\<lambda>_.
        and_then (check_all (check_vector snap) (en_vectors snap)) (\<lambda>_.
        check_root snap))))"

definition assert_empty_db :: "space_store \<Rightarrow> unit result" where
  "assert_empty_db S =
     (let D = sp_db S; L = su_log (sp_tables S);
          total = length (lg_events L) + length (d_facts D) + length (d_edges D) +
            length (su_summaries (sp_tables S)) + length (filter (\<lambda>n. 1 < sn_id n) (sc_rows (d_scopes D))) +
            length (lg_lineage L) + length (sp_vectors S)
      in if 0 < total then Inl (Conflict TargetNotEmpty) else Inr ())"

subsection \<open>Inserting the rows\<close>

definition put_row :: "('r \<Rightarrow> int) \<Rightarrow> 'r \<Rightarrow> 'r list \<Rightarrow> 'r list" where
  "put_row key x rows = sort_key key (rows @ [x])"

definition id_taken :: "string \<Rightarrow> memory_error" where
  "id_taken table = Storage (Backend (Fmt ''UNIQUE constraint failed: {}.id'' [AStr table]))"

definition on_summaries :: "(summary_store, 'a) op \<Rightarrow> (space_store, 'a) op" where
  "on_summaries m S = (case m (sp_tables S) of (r, T) \<Rightarrow> (r, S\<lparr>sp_tables := T\<rparr>))"

definition restore_scope :: "scope_node \<Rightarrow> (db, unit) op" where
  "restore_scope n D =
     (let rows = sc_rows (d_scopes D) in
      if sn_id n \<in> sn_id ` set rows then (Inl (id_taken ''scopes''), D)
      else if sn_parent_id n \<noteq> None \<and>
        list_ex (\<lambda>m. sn_parent_id m = sn_parent_id n \<and> sn_label m = sn_label n) rows
      then (Inl (backend_error ''UNIQUE constraint failed: scopes.parent_id, scopes.label''), D)
      else if (case sn_parent_id n of None \<Rightarrow> False | Some p \<Rightarrow> p \<noteq> sn_id n \<and> p \<notin> sn_id ` set rows)
      then (Inl foreign_key_error, D)
      else (Inr (), D\<lparr>d_scopes := \<lparr>sc_rows = put_row sn_id n rows, sc_seq = max (sc_seq (d_scopes D)) (sn_id n)\<rparr>\<rparr>))"

definition delete_scopes :: "(db, unit) op" where
  "delete_scopes D = (Inr (), D\<lparr>d_scopes := (d_scopes D)\<lparr>sc_rows := []\<rparr>\<rparr>)"

definition restore_scopes :: "engine_snapshot \<Rightarrow> (db, unit) op" where
  "restore_scopes snap =
     (if en_scopes snap = [] then op_return ()
      else op_bind delete_scopes (\<lambda>_.
        op_each restore_scope (sort_key (\<lambda>s. (sn_depth s, sn_id s)) (en_scopes snap))))"

definition restore_event :: "event \<Rightarrow> (log_store, unit) op" where
  "restore_event e L =
     (let D = lg_db L in
      if ev_id e \<in> ev_id ` set (lg_events L) then (Inl (id_taken ''events''), L)
      else if ev_scope_id e \<notin> scope_ids_of D then (Inl foreign_key_error, L)
      else (Inr (), L\<lparr>lg_db := D\<lparr>d_events := put_row fst (ev_id e, ev_session_id e) (d_events D),
              d_event_seq := max (d_event_seq D) (ev_id e)\<rparr>,
            lg_events := put_row ev_id e (lg_events L)\<rparr>))"

definition restore_fact :: "fact \<Rightarrow> (db, unit) op" where
  "restore_fact f D =
     (if f_base_importance f = NaN \<or> f_importance_score f = NaN then (Inl not_null_error, D)
      else if f_id f \<in> fact_ids_of D then (Inl (id_taken ''facts''), D)
      else if f_scope_id f \<notin> scope_ids_of D \<or>
        (case f_source_event_id f of None \<Rightarrow> False | Some ev \<Rightarrow> ev \<notin> fst ` set (d_events D))
      then (Inl foreign_key_error, D)
      else (Inr (), D\<lparr>d_facts := put_row f_id f (d_facts D), d_fact_seq := max (d_fact_seq D) (f_id f)\<rparr>))"

definition restore_edge :: "edge \<Rightarrow> (db, unit) op" where
  "restore_edge e D =
     (if e_weight e = NaN then (Inl not_null_error, D)
      else if e_id e \<in> e_id ` set (d_edges D) then (Inl (id_taken ''edges''), D)
      else if e_source_fact_id e \<notin> fact_ids_of D \<or> e_target_fact_id e \<notin> fact_ids_of D \<or>
        e_scope_id e \<notin> scope_ids_of D
      then (Inl foreign_key_error, D)
      else (Inr (), D\<lparr>d_edges := put_row e_id e (d_edges D), d_edge_seq := max (d_edge_seq D) (e_id e)\<rparr>))"

definition restore_summary :: "summary \<Rightarrow> (summary_store, unit) op" where
  "restore_summary s T =
     (if s_id s \<in> s_id ` set (su_summaries T) then (Inl (id_taken ''summaries''), T)
      else if s_scope_id s \<notin> scope_ids_of (su_db T) then (Inl foreign_key_error, T)
      else (Inr (), T\<lparr>su_summaries := put_row s_id s (su_summaries T),
             su_summary_seq := max (su_summary_seq T) (s_id s)\<rparr>))"

definition managed_config_keys :: "string list" where
  "managed_config_keys = [''schema_version'', ''storage_epoch'', ''embedding_meta'']"

definition restore_config :: "string \<times> string \<Rightarrow> (log_store, unit) op" where
  "restore_config kv =
     (if fst kv \<notin> set managed_config_keys then set_config (fst kv) (snd kv) else op_return ())"

definition restore_space :: "time \<Rightarrow> space_snapshot \<Rightarrow> (space_store, unit) op" where
  "restore_space created s =
     op_bind (op_of (from_sql (ss_status s))) (\<lambda>status.
       insert_active created \<lparr>es_name = ss_name s, es_fingerprint = ss_fingerprint s, es_status = status\<rparr>)"

definition restore_embedding_spaces ::
    "(string \<Rightarrow> string + fingerprint) \<Rightarrow> time \<Rightarrow> engine_snapshot \<Rightarrow> (space_store, unit) op" where
  "restore_embedding_spaces read_fp created snap =
     (if en_spaces snap = [] then
        (case map_of (en_config snap) ''embedding_meta'' of
           None \<Rightarrow> op_return ()
         | Some raw \<Rightarrow> (case read_fp raw of
             Inl e \<Rightarrow> op_fail (Migration (Incompatible (Fmt
               ''corrupt legacy embedding_meta in snapshot: {}'' [AStr e])))
           | Inr fp \<Rightarrow> upsert_active_fingerprint created fp))
      else op_each (restore_space created) (en_spaces snap))"

definition restore_fact_vector :: "fact_vector \<Rightarrow> (space_store, unit) op" where
  "restore_fact_vector v S =
     (if has_vector S (fv_space_id v) (fv_fact_id v)
      then (Inl (backend_error ''UNIQUE constraint failed: fact_vectors.fact_id, fact_vectors.space_id''), S)
      else if fv_fact_id v \<notin> fact_ids_of (sp_db S) \<or> fv_space_id v \<notin> space_names S
      then (Inl foreign_key_error, S)
      else (Inr (), S\<lparr>sp_vectors := sp_vectors S @ [v]\<rparr>))"

definition largest_id :: "int list \<Rightarrow> int" where
  "largest_id xs = (case xs of [] \<Rightarrow> 0 | x # rest \<Rightarrow> fold max rest x)"

definition reset_autoincrement :: "int \<Rightarrow> int list \<Rightarrow> int" where
  "reset_autoincrement stored rowids = fold max rowids stored"

definition reset_sequences :: "engine_snapshot \<Rightarrow> (space_store, unit) op" where
  "reset_sequences snap S =
     (let T = sp_tables S; L = su_log T; D = lg_db L in
      (Inr (), S\<lparr>sp_tables := T\<lparr>
         su_log := L\<lparr>
           lg_db := D\<lparr>
             d_scopes := (d_scopes D)\<lparr>sc_seq := reset_autoincrement (largest_id (map sn_id (en_scopes snap)))
               (map sn_id (sc_rows (d_scopes D)))\<rparr>,
             d_event_seq := reset_autoincrement (largest_id (map ev_id (en_events snap))) (map ev_id (lg_events L)),
             d_fact_seq := reset_autoincrement (largest_id (map f_id (en_facts snap))) (map f_id (d_facts D)),
             d_edge_seq := reset_autoincrement (largest_id (map e_id (en_edges snap))) (map e_id (d_edges D))\<rparr>,
           lg_lineage_seq := reset_autoincrement (largest_id (map li_lineage_id (en_lineage snap)))
             (map li_lineage_id (lg_lineage L))\<rparr>,
         su_summary_seq := reset_autoincrement (largest_id (map s_id (en_summaries snap))) (map s_id (su_summaries T))\<rparr>\<rparr>))"

definition restore_tables :: "engine_snapshot \<Rightarrow> (summary_store, unit) op" where
  \<comment> \<open>steps 1 to 8\<close>
  "restore_tables snap =
     op_bind (on_facts (restore_scopes snap)) (\<lambda>_.
     op_bind (on_log (op_each restore_event (en_events snap))) (\<lambda>_.
     op_bind (on_facts (op_each restore_fact (en_facts snap))) (\<lambda>_.
     op_bind (on_facts (op_each restore_edge (en_edges snap))) (\<lambda>_.
     op_bind (op_each restore_summary (en_summaries snap)) (\<lambda>_.
     op_bind (on_log (op_each lineage_insert_raw (en_lineage snap))) (\<lambda>_.
     on_log (op_each restore_config (en_config snap))))))))"

definition restore_rows ::
    "(string \<Rightarrow> string + fingerprint) \<Rightarrow> time \<Rightarrow> engine_snapshot \<Rightarrow> (space_store, unit) op" where
  "restore_rows read_fp created snap =
     op_bind (on_summaries (restore_tables snap)) (\<lambda>_.
     op_bind (restore_embedding_spaces read_fp created snap) (\<lambda>_.
     op_bind (op_each restore_fact_vector (en_vectors snap)) (\<lambda>_.
     reset_sequences snap)))"

definition restore_snapshot_into ::
    "(string \<Rightarrow> string + fingerprint) \<Rightarrow> time \<Rightarrow> engine_snapshot \<Rightarrow> (space_store, unit) op" where
  "restore_snapshot_into read_fp created snap =
     op_bind (op_of (validate_snapshot snap)) (\<lambda>_.
     op_bind (op_reads assert_empty_db) (\<lambda>_.
     transaction (restore_rows read_fp created snap)))"

subsection \<open>Opening the restored store\<close>

definition fresh_store :: space_store where
  \<comment> \<open>what \<open>init_schema\<close> creates\<close>
  "fresh_store = \<lparr>sp_tables = \<lparr>su_log = \<lparr>
       lg_db = \<lparr>d_scopes = init_scopes, d_events = [], d_event_seq = 0, d_facts = [], d_fact_seq = 0,
         d_edges = [], d_edge_seq = 0, d_identity = None\<rparr>,
       lg_events = [], lg_lineage = [], lg_lineage_seq = 0,
       lg_config = [(''schema_version'', show_nat current_schema_version), (''storage_epoch'', show_nat storage_epoch)]\<rparr>,
     su_summaries = [], su_summary_seq = 0\<rparr>, sp_spaces = [], sp_vectors = []\<rparr>"

definition validate_embed_dim_against_meta :: "nat \<Rightarrow> space_store \<Rightarrow> unit result" where
  "validate_embed_dim_against_meta edim S =
     (case d_identity (sp_db S) of
        None \<Rightarrow> Inr ()
      | Some fp \<Rightarrow> if fp_dim fp \<noteq> edim then Inl (Migration (EmbedDimMismatch (fp_dim fp) edim)) else Inr ())"

definition restore_json ::
    "codecs \<Rightarrow> json_parser \<Rightarrow> (string \<Rightarrow> string + fingerprint) \<Rightarrow> time \<Rightarrow> (space_store \<Rightarrow> unit result) \<Rightarrow> files \<Rightarrow> string
      \<Rightarrow> nat \<Rightarrow> (space_store option, unit) op" where
  \<comment> \<open>the state is the database file at the path of the configuration; \<open>load\<close> is the loading of the
      projections, after the check of the dimension\<close>
  "restore_json C parse read_fp created load fs snapshot_path edim target =
     (if target \<noteq> None then (Inl (Conflict TargetExists), target)
      else case read_snapshot C parse fs snapshot_path of
          Inl e \<Rightarrow> (Inl e, None)
        | Inr snap \<Rightarrow>
            if edim \<noteq> en_embed_dim snap then (Inl (EmbeddingDimension edim (en_embed_dim snap)), None)
            else (case restore_snapshot_into read_fp created snap fresh_store of
                (Inl e, _) \<Rightarrow> (Inl e, None)
              | (Inr _, S) \<Rightarrow> (and_then (validate_embed_dim_against_meta edim S) (\<lambda>_. load S), Some S)))"

definition restore_json_memory ::
    "codecs \<Rightarrow> json_parser \<Rightarrow> (string \<Rightarrow> string + fingerprint) \<Rightarrow> time \<Rightarrow> (space_store \<Rightarrow> unit result) \<Rightarrow> files \<Rightarrow> string
      \<Rightarrow> space_store result" where
  "restore_json_memory C parse read_fp created load fs snapshot_path =
     and_then (read_snapshot C parse fs snapshot_path) (\<lambda>snap.
     case restore_snapshot_into read_fp created snap fresh_store of
       (Inl e, _) \<Rightarrow> Inl e
     | (Inr _, S) \<Rightarrow> and_then (validate_embed_dim_against_meta (en_embed_dim snap) S) (\<lambda>_.
         and_then (load S) (\<lambda>_. Inr S)))"

definition restore_sqlite ::
    "(string \<Rightarrow> space_store result) \<Rightarrow> (space_store \<Rightarrow> unit result) \<Rightarrow> files \<Rightarrow> string \<Rightarrow> nat
      \<Rightarrow> (space_store option, unit) op" where
  \<comment> \<open>\<open>open_db\<close> opens the copied bytes as a database; \<open>load\<close> is the opening of the store, which checks the
      dimension again and loads the projections\<close>
  "restore_sqlite open_db load fs backup_path edim target =
     (if target \<noteq> None then (Inl (Conflict TargetExists), target)
      else case fs backup_path of
          None \<Rightarrow> (Inl (NotFound (Fmt ''backup file is not a regular file: {}'' [AStr backup_path])), None)
        | Some bytes \<Rightarrow> (case open_db bytes of
            Inl e \<Rightarrow> (Inl e, None)
          | Inr S \<Rightarrow>
              (if (case d_identity (sp_db S) of Some fp \<Rightarrow> edim \<noteq> fp_dim fp | None \<Rightarrow> False)
               then (Inl (EmbeddingDimension edim (fp_dim (the (d_identity (sp_db S))))), None)
               else (case load S of Inl e \<Rightarrow> (Inl e, None) | Inr _ \<Rightarrow> (Inr (), Some S)))))"

lemma backup_restore:
  assumes "dump_sqlite live canonical is_dir backup path (S, fs) = (Inr (), (S, fs'))" "open_db (backup S) = Inr S"
    and "validate_embed_dim_against_meta edim S = Inr ()" "load S = Inr ()"
  shows "restore_sqlite open_db load fs' path edim None = (Inr (), Some S)"
  using assms by (auto simp: dump_sqlite_def restore_sqlite_def validate_embed_dim_against_meta_def Let_def
      split: option.splits sum.splits if_splits)

end
