(* ===== verification/Restore_Rows.thy ===== *)
theory Restore_Rows
  imports Restore
begin

text \<open>
  What the inserts of a restore leave. The tables with an integer key share the contract
  \<open>keyed_table\<close>: a row goes in exactly when its key is free and its other constraints hold, and a
  list of rows goes in exactly when this holds for each and the keys differ; then the table holds the old
  rows and the new ones, in the order of the keys.
\<close>

subsection \<open>Sorting\<close>

lemma sort_sort_append: "sort_key k (sort_key k xs @ ys) = sort_key k (xs @ ys)"
proof -
  have "sort_key k (xs @ ys) = sort_key k (sort_key k xs @ ys)"
  proof (rule properties_for_sort_key)
    fix x
    show "filter (\<lambda>y. k x = k y) (sort_key k (sort_key k xs @ ys)) = filter (\<lambda>y. k x = k y) (xs @ ys)"
      using sort_key_stable [of k "k x"] by (simp add: eq_commute [of "k x"])
  qed simp_all
  then show ?thesis by simp
qed

lemma sort_to_sorted:
  assumes "sorted_wrt (<) (map (k :: 'a \<Rightarrow> 'k :: linorder) xs)" "mset ys = mset xs"
  shows "sort_key k ys = xs"
proof -
  have s: "set ys = set xs" using assms(2) by (metis set_mset_mset)
  have d: "distinct (map k xs)" and so: "sorted (map k xs)" using assms(1) by (simp_all add: strict_sorted_iff)
  have "inj_on k (set xs)" using d by (simp add: distinct_map)
  moreover have "mset (map k (sort_key k ys)) = mset (map k xs)" using assms(2) by simp
  then have "distinct (map k (sort_key k ys))" using d by (metis mset_eq_imp_distinct_iff)
  ultimately show ?thesis
    using d so s by (intro map_sorted_distinct_set_unique [of k]) (auto simp: inj_on_def)
qed

lemma fold_max: "fold max xs (n :: int) = Max (insert n (set xs))"
  using Max.set_eq_fold [of n xs] by simp

subsection \<open>Tables with an integer key\<close>

locale keyed_table =
  fixes key :: "'r \<Rightarrow> int" and rows :: "'s \<Rightarrow> 'r list" and put :: "'r \<Rightarrow> 's \<Rightarrow> 's"
    and ok :: "'r \<Rightarrow> 's \<Rightarrow> bool" and apart :: "'r \<Rightarrow> 'r \<Rightarrow> bool" and insert_row :: "'r \<Rightarrow> ('s, unit) op"
  assumes insert_iff: "insert_row x S = (Inr (), S') \<longleftrightarrow> key x \<notin> key ` set (rows S) \<and> ok x S \<and> S' = put x S"
    and rows_put: "rows (put x S) = put_row key x (rows S)"
    and ok_put: "ok y (put x S) \<longleftrightarrow> ok y S \<and> apart x y"
begin

lemma insert_all:
  "op_each insert_row xs S = (Inr (), S') \<longleftrightarrow>
     distinct (map key xs) \<and> key ` set xs \<inter> key ` set (rows S) = {} \<and> (\<forall>x \<in> set xs. ok x S) \<and>
     sorted_wrt apart xs \<and> S' = fold put xs S"
proof (induction xs arbitrary: S)
  case (Cons x xs)
  have "op_each insert_row (x # xs) S = (Inr (), S') \<longleftrightarrow>
      key x \<notin> key ` set (rows S) \<and> ok x S \<and> op_each insert_row xs (put x S) = (Inr (), S')"
    by (auto simp: op_bind_Inr insert_iff)
  then show ?case
    unfolding Cons.IH by (auto simp: rows_put put_row_def ok_put)
qed auto

lemma rows_all: "rows (fold put xs S) = (if xs = [] then rows S else sort_key key (rows S @ xs))"
proof (induction xs arbitrary: S)
  case (Cons x xs)
  then show ?case by (cases "xs = []") (simp_all add: rows_put put_row_def sort_sort_append)
qed simp

lemma rows_into_empty: "rows S = [] \<Longrightarrow> rows (fold put xs S) = sort_key key xs"
  by (simp add: rows_all)

end

definition put_fact :: "fact \<Rightarrow> db \<Rightarrow> db" where
  "put_fact f D = D\<lparr>d_facts := put_row f_id f (d_facts D), d_fact_seq := max (d_fact_seq D) (f_id f)\<rparr>"

definition fact_fits :: "fact \<Rightarrow> db \<Rightarrow> bool" where
  "fact_fits f D \<longleftrightarrow> f_base_importance f \<noteq> NaN \<and> f_importance_score f \<noteq> NaN \<and> f_scope_id f \<in> scope_ids_of D \<and>
     (\<forall>ev. f_source_event_id f = Some ev \<longrightarrow> ev \<in> fst ` set (d_events D))"

definition put_edge :: "edge \<Rightarrow> db \<Rightarrow> db" where
  "put_edge e D = D\<lparr>d_edges := put_row e_id e (d_edges D), d_edge_seq := max (d_edge_seq D) (e_id e)\<rparr>"

definition edge_fits :: "edge \<Rightarrow> db \<Rightarrow> bool" where
  "edge_fits e D \<longleftrightarrow> e_weight e \<noteq> NaN \<and> e_source_fact_id e \<in> fact_ids_of D \<and> e_target_fact_id e \<in> fact_ids_of D \<and>
     e_scope_id e \<in> scope_ids_of D"

definition put_event :: "event \<Rightarrow> log_store \<Rightarrow> log_store" where
  "put_event e L = L\<lparr>lg_db := (lg_db L)\<lparr>d_events := put_row fst (ev_id e, ev_session_id e) (d_events (lg_db L)),
      d_event_seq := max (d_event_seq (lg_db L)) (ev_id e)\<rparr>, lg_events := put_row ev_id e (lg_events L)\<rparr>"

definition put_summary :: "summary \<Rightarrow> summary_store \<Rightarrow> summary_store" where
  "put_summary s T = T\<lparr>su_summaries := put_row s_id s (su_summaries T), su_summary_seq := max (su_summary_seq T) (s_id s)\<rparr>"

definition put_lineage :: "lineage_row \<Rightarrow> log_store \<Rightarrow> log_store" where
  "put_lineage r L = L\<lparr>lg_lineage := put_row li_lineage_id r (lg_lineage L),
      lg_lineage_seq := max (lg_lineage_seq L) (li_lineage_id r)\<rparr>"

definition lineage_fits :: "lineage_row \<Rightarrow> log_store \<Rightarrow> bool" where
  "lineage_fits r L \<longleftrightarrow> li_wisdom_fact_id r \<notin> li_wisdom_fact_id ` set (lg_lineage L) \<and>
     li_wisdom_fact_id r \<in> fact_ids_of (lg_db L)"

interpretation facts: keyed_table f_id d_facts put_fact fact_fits "\<lambda>_ _. True" restore_fact
  by unfold_locales
    (auto simp: restore_fact_def put_fact_def fact_fits_def fact_ids_of_def scope_ids_of_def split: option.splits if_splits)

interpretation edges: keyed_table e_id d_edges put_edge edge_fits "\<lambda>_ _. True" restore_edge
  by unfold_locales
    (auto simp: restore_edge_def put_edge_def edge_fits_def fact_ids_of_def scope_ids_of_def split: if_splits)

interpretation events: keyed_table ev_id lg_events put_event "\<lambda>e L. ev_scope_id e \<in> scope_ids_of (lg_db L)" "\<lambda>_ _. True" restore_event
  by unfold_locales (auto simp: restore_event_def put_event_def Let_def scope_ids_of_def split: if_splits)

interpretation summaries: keyed_table s_id su_summaries put_summary "\<lambda>s T. s_scope_id s \<in> scope_ids_of (su_db T)" "\<lambda>_ _. True" restore_summary
  by unfold_locales (auto simp: restore_summary_def put_summary_def scope_ids_of_def split: if_splits)

interpretation lineage: keyed_table li_lineage_id lg_lineage put_lineage lineage_fits
    "\<lambda>r q. li_wisdom_fact_id r \<noteq> li_wisdom_fact_id q" lineage_insert_raw
  by unfold_locales
    (auto simp: lineage_insert_raw_def put_lineage_def lineage_fits_def put_row_def split: if_splits)


lemma sort_key_map: "sort_key f (map g xs) = map g (sort_key (f \<circ> g) xs)"
proof -
  have "insort_key f (g x) (map g ys) = map g (insort_key (f \<circ> g) x ys)" for x ys
    by (induction ys) auto
  then show ?thesis by (induction xs) simp_all
qed

lemma fold_put_fact:
  assumes "d_facts D = []"
  shows "fold put_fact xs D = D\<lparr>d_facts := sort_key f_id xs, d_fact_seq := fold max (map f_id xs) (d_fact_seq D)\<rparr>"
proof -
  have "fold put_fact xs D = D\<lparr>d_facts := (if xs = [] then d_facts D else sort_key f_id (d_facts D @ xs)),
      d_fact_seq := fold max (map f_id xs) (d_fact_seq D)\<rparr>" for D
  proof (induction xs arbitrary: D)
    case (Cons x xs)
    then show ?case by (cases "xs = []") (simp_all add: put_fact_def put_row_def sort_sort_append max.commute)
  qed simp
  then show ?thesis using assms by (cases "xs = []") simp_all
qed

lemma fold_put_edge:
  assumes "d_edges D = []"
  shows "fold put_edge xs D = D\<lparr>d_edges := sort_key e_id xs, d_edge_seq := fold max (map e_id xs) (d_edge_seq D)\<rparr>"
proof -
  have "fold put_edge xs D = D\<lparr>d_edges := (if xs = [] then d_edges D else sort_key e_id (d_edges D @ xs)),
      d_edge_seq := fold max (map e_id xs) (d_edge_seq D)\<rparr>" for D
  proof (induction xs arbitrary: D)
    case (Cons x xs)
    then show ?case by (cases "xs = []") (simp_all add: put_edge_def put_row_def sort_sort_append max.commute)
  qed simp
  then show ?thesis using assms by (cases "xs = []") simp_all
qed

lemma fold_put_summary:
  assumes "su_summaries T = []"
  shows "fold put_summary xs T = T\<lparr>su_summaries := sort_key s_id xs, su_summary_seq := fold max (map s_id xs) (su_summary_seq T)\<rparr>"
proof -
  have "fold put_summary xs T = T\<lparr>su_summaries := (if xs = [] then su_summaries T else sort_key s_id (su_summaries T @ xs)),
      su_summary_seq := fold max (map s_id xs) (su_summary_seq T)\<rparr>" for T
  proof (induction xs arbitrary: T)
    case (Cons x xs)
    then show ?case by (cases "xs = []") (simp_all add: put_summary_def put_row_def sort_sort_append max.commute)
  qed simp
  then show ?thesis using assms by (cases "xs = []") simp_all
qed

lemma fold_put_lineage:
  assumes "lg_lineage L = []"
  shows "fold put_lineage xs L = L\<lparr>lg_lineage := sort_key li_lineage_id xs, lg_lineage_seq := fold max (map li_lineage_id xs) (lg_lineage_seq L)\<rparr>"
proof -
  have "fold put_lineage xs L = L\<lparr>lg_lineage := (if xs = [] then lg_lineage L else sort_key li_lineage_id (lg_lineage L @ xs)),
      lg_lineage_seq := fold max (map li_lineage_id xs) (lg_lineage_seq L)\<rparr>" for L
  proof (induction xs arbitrary: L)
    case (Cons x xs)
    then show ?case by (cases "xs = []") (simp_all add: put_lineage_def put_row_def sort_sort_append max.commute)
  qed simp
  then show ?thesis using assms by (cases "xs = []") simp_all
qed

definition event_key :: "event \<Rightarrow> int \<times> string option" where "event_key e = (ev_id e, ev_session_id e)"

lemma sort_event_keys: "sort_key fst (map event_key es) = map event_key (sort_key ev_id es)"
proof -
  have "fst \<circ> event_key = ev_id" by (rule ext) (simp add: event_key_def)
  then show ?thesis by (simp add: sort_key_map)
qed

lemma fold_put_event:
  assumes "lg_events L = []" "d_events (lg_db L) = []"
  shows "fold put_event es L = L\<lparr>lg_db := (lg_db L)\<lparr>d_events := map event_key (sort_key ev_id es),
      d_event_seq := fold max (map ev_id es) (d_event_seq (lg_db L))\<rparr>, lg_events := sort_key ev_id es\<rparr>"
proof -
  have "fold put_event es L = L\<lparr>
      lg_db := (lg_db L)\<lparr>d_events := (if es = [] then d_events (lg_db L) else sort_key fst (d_events (lg_db L) @ map event_key es)),
        d_event_seq := fold max (map ev_id es) (d_event_seq (lg_db L))\<rparr>,
      lg_events := (if es = [] then lg_events L else sort_key ev_id (lg_events L @ es))\<rparr>" for L
  proof (induction es arbitrary: L)
    case (Cons e es)
    then show ?case
      by (cases "es = []") (simp_all add: put_event_def put_row_def sort_sort_append max.commute event_key_def)
  qed simp
  then show ?thesis using assms sort_event_keys [of es] by (cases "es = []") simp_all
qed

subsection \<open>The scopes\<close>

definition put_scope :: "scope_node \<Rightarrow> db \<Rightarrow> db" where
  "put_scope n D = D\<lparr>d_scopes := \<lparr>sc_rows = put_row sn_id n (sc_rows (d_scopes D)), sc_seq = max (sc_seq (d_scopes D)) (sn_id n)\<rparr>\<rparr>"

fun scopes_fit :: "scope_node list \<Rightarrow> scope_node set \<Rightarrow> bool" where
  "scopes_fit [] seen \<longleftrightarrow> True"
| "scopes_fit (n # ns) seen \<longleftrightarrow> sn_id n \<notin> sn_id ` seen \<and>
     (\<forall>p. sn_parent_id n = Some p \<longrightarrow> (p = sn_id n \<or> p \<in> sn_id ` seen) \<and>
        (\<forall>m \<in> seen. sn_parent_id m = Some p \<longrightarrow> sn_label m \<noteq> sn_label n)) \<and>
     scopes_fit ns (insert n seen)"

lemma restore_scope_iff:
  "restore_scope n D = (Inr (), D') \<longleftrightarrow> sn_id n \<notin> sn_id ` set (sc_rows (d_scopes D)) \<and>
     (\<forall>p. sn_parent_id n = Some p \<longrightarrow> (p = sn_id n \<or> p \<in> sn_id ` set (sc_rows (d_scopes D))) \<and>
        (\<forall>m \<in> set (sc_rows (d_scopes D)). sn_parent_id m = Some p \<longrightarrow> sn_label m \<noteq> sn_label n)) \<and>
     D' = put_scope n D"
  by (cases "sn_parent_id n") (auto simp: restore_scope_def put_scope_def Let_def list_ex_iff)

lemma restore_scopes_iff:
  "op_each restore_scope ns D = (Inr (), D') \<longleftrightarrow>
     scopes_fit ns (set (sc_rows (d_scopes D))) \<and> D' = fold put_scope ns D"
proof (induction ns arbitrary: D)
  case (Cons n ns)
  have "set (sc_rows (d_scopes (put_scope n D))) = insert n (set (sc_rows (d_scopes D)))"
    by (simp add: put_scope_def put_row_def)
  then show ?case using Cons.IH by (auto simp: op_bind_Inr restore_scope_iff)
qed auto

lemma fold_put_scope:
  assumes "sc_rows (d_scopes D) = []"
  shows "fold put_scope ns D = D\<lparr>d_scopes := \<lparr>sc_rows = sort_key sn_id ns, sc_seq = fold max (map sn_id ns) (sc_seq (d_scopes D))\<rparr>\<rparr>"
proof -
  have "fold put_scope ns D = D\<lparr>d_scopes := \<lparr>sc_rows = (if ns = [] then sc_rows (d_scopes D) else sort_key sn_id (sc_rows (d_scopes D) @ ns)),
      sc_seq = fold max (map sn_id ns) (sc_seq (d_scopes D))\<rparr>\<rparr>" for D
  proof (induction ns arbitrary: D)
    case (Cons n ns)
    then show ?case by (cases "ns = []") (simp_all add: put_scope_def put_row_def sort_sort_append max.commute)
  qed simp
  then show ?thesis using assms by (cases "ns = []") auto
qed

subsection \<open>The tables of a document\<close>

definition import_config :: "(string \<times> string) list \<Rightarrow> (string \<times> string) list \<Rightarrow> (string \<times> string) list" where
  "import_config kvs c = fold (\<lambda>(k, v) c. if k \<in> set managed_config_keys then c else AList.update k v c) kvs c"

lemma restore_config_all:
  "op_each restore_config kvs L = (Inr (), L\<lparr>lg_config := import_config kvs (lg_config L)\<rparr>)"
  by (induction kvs arbitrary: L)
    (auto simp: restore_config_def set_config_def import_config_def op_bind_def split: prod.splits)

lemma import_config_get:
  assumes "distinct (map fst kvs)"
  shows "map_of (import_config kvs c) k =
    (if k \<notin> set managed_config_keys \<and> k \<in> fst ` set kvs then map_of kvs k else map_of c k)"
  using assms unfolding import_config_def
  by (induction kvs arbitrary: c) (auto simp: update_conv' image_iff split: if_splits)

definition scopes_in_order :: "engine_snapshot \<Rightarrow> scope_node list" where
  "scopes_in_order snap = sort_key (\<lambda>s. (sn_depth s, sn_id s)) (en_scopes snap)"

definition loaded_scopes :: "engine_snapshot \<Rightarrow> scopes_table" where
  "loaded_scopes snap = (if en_scopes snap = [] then init_scopes
     else \<lparr>sc_rows = sort_key sn_id (scopes_in_order snap), sc_seq = fold max (map sn_id (scopes_in_order snap)) 1\<rparr>)"

definition loaded :: "engine_snapshot \<Rightarrow> summary_store" where
  "loaded snap = \<lparr>su_log = \<lparr>
     lg_db = \<lparr>d_scopes = loaded_scopes snap, d_events = map event_key (sort_key ev_id (en_events snap)),
       d_event_seq = fold max (map ev_id (en_events snap)) 0, d_facts = sort_key f_id (en_facts snap),
       d_fact_seq = fold max (map f_id (en_facts snap)) 0, d_edges = sort_key e_id (en_edges snap),
       d_edge_seq = fold max (map e_id (en_edges snap)) 0, d_identity = None\<rparr>,
     lg_events = sort_key ev_id (en_events snap), lg_lineage = sort_key li_lineage_id (en_lineage snap),
     lg_lineage_seq = fold max (map li_lineage_id (en_lineage snap)) 0,
     lg_config = import_config (en_config snap) (lg_config (su_log (sp_tables fresh_store)))\<rparr>,
   su_summaries = sort_key s_id (en_summaries snap), su_summary_seq = fold max (map s_id (en_summaries snap)) 0\<rparr>"

definition document_scopes :: "engine_snapshot \<Rightarrow> int set" where
  "document_scopes snap = (if en_scopes snap = [] then {1} else sn_id ` set (en_scopes snap))"

definition document_fits :: "engine_snapshot \<Rightarrow> bool" where
  \<comment> \<open>the keys and the foreign keys\<close>
  "document_fits snap \<longleftrightarrow>
     scopes_fit (scopes_in_order snap) {} \<and>
     distinct (map ev_id (en_events snap)) \<and> (\<forall>e \<in> set (en_events snap). ev_scope_id e \<in> document_scopes snap) \<and>
     distinct (map f_id (en_facts snap)) \<and>
     (\<forall>f \<in> set (en_facts snap). f_base_importance f \<noteq> NaN \<and> f_importance_score f \<noteq> NaN \<and>
        f_scope_id f \<in> document_scopes snap \<and>
        (\<forall>ev. f_source_event_id f = Some ev \<longrightarrow> ev \<in> ev_id ` set (en_events snap))) \<and>
     distinct (map e_id (en_edges snap)) \<and>
     (\<forall>e \<in> set (en_edges snap). e_weight e \<noteq> NaN \<and> e_source_fact_id e \<in> f_id ` set (en_facts snap) \<and>
        e_target_fact_id e \<in> f_id ` set (en_facts snap) \<and> e_scope_id e \<in> document_scopes snap) \<and>
     distinct (map s_id (en_summaries snap)) \<and>
     (\<forall>s \<in> set (en_summaries snap). s_scope_id s \<in> document_scopes snap) \<and>
     distinct (map li_lineage_id (en_lineage snap)) \<and> distinct (map li_wisdom_fact_id (en_lineage snap)) \<and>
     (\<forall>r \<in> set (en_lineage snap). li_wisdom_fact_id r \<in> f_id ` set (en_facts snap))"

lemma on_log_iff: "on_log m T = (Inr x, T') \<longleftrightarrow> (\<exists>L. m (su_log T) = (Inr x, L) \<and> T' = T\<lparr>su_log := L\<rparr>)"
  by (auto simp: on_log_def split: prod.splits)

lemma on_facts_iff:
  "on_facts m T = (Inr x, T') \<longleftrightarrow> (\<exists>D. m (su_db T) = (Inr x, D) \<and> T' = T\<lparr>su_log := (su_log T)\<lparr>lg_db := D\<rparr>\<rparr>)"
  by (auto simp: on_facts_def on_log_iff on_tables_def split: prod.splits)

lemma restore_scopes_fresh:
  assumes "d_scopes D = init_scopes"
  shows "restore_scopes snap D = (Inr (), D') \<longleftrightarrow>
    scopes_fit (scopes_in_order snap) {} \<and> D' = D\<lparr>d_scopes := loaded_scopes snap\<rparr>"
proof (cases "en_scopes snap = []")
  case True
  then show ?thesis using assms by (auto simp: restore_scopes_def loaded_scopes_def scopes_in_order_def)
next
  case False
  have "d_scopes (fold put_scope ns (D\<lparr>d_scopes := \<lparr>sc_rows = [], sc_seq = 1\<rparr>\<rparr>)) =
      \<lparr>sc_rows = sort_key sn_id ns, sc_seq = fold max (map sn_id ns) 1\<rparr>" for ns
    by (simp add: fold_put_scope)
  then show ?thesis
    using False assms
    by (simp add: restore_scopes_def delete_scopes_def op_bind_def restore_scopes_iff fold_put_scope init_scopes_def
        loaded_scopes_def flip: scopes_in_order_def)
qed

lemma document_scopes_loaded: "sn_id ` set (sc_rows (loaded_scopes snap)) = document_scopes snap"
  by (simp add: loaded_scopes_def document_scopes_def init_scopes_def scopes_in_order_def)

lemma restore_tables_iff:
  "restore_tables snap (sp_tables fresh_store) = (Inr (), T') \<longleftrightarrow> document_fits snap \<and> T' = loaded snap"
proof -
  have w: "sorted_wrt (\<lambda>r q. li_wisdom_fact_id r \<noteq> li_wisdom_fact_id q) rs \<longleftrightarrow> distinct (map li_wisdom_fact_id rs)" for rs
    by (induction rs) auto
  have k: "fst ` event_key ` E = ev_id ` E" for E by (auto simp: event_key_def image_iff)
  show ?thesis
    unfolding restore_tables_def op_bind_Inr on_log_iff on_facts_iff
    by (simp add: fresh_store_def restore_scopes_fresh events.insert_all facts.insert_all edges.insert_all
        summaries.insert_all lineage.insert_all restore_config_all fold_put_event fold_put_fact fold_put_edge fold_put_summary
        fold_put_lineage fact_fits_def edge_fits_def lineage_fits_def scope_ids_of_def fact_ids_of_def
        document_scopes_loaded k w)
      (auto simp: document_fits_def loaded_def fresh_store_def)
qed

end
