(* ===== verification/Restore_Sound.thy ===== *)
theory Restore_Sound
  imports Restore_Rows
begin

text \<open>
  The store a restore leaves: what the registry and the vectors add, the sequences, the invariant of the
  restored store, and the restore of a dump, which gives back the store that was dumped.
\<close>

subsection \<open>The registry and the vectors\<close>

definition restored_space :: "space_snapshot \<Rightarrow> embedding_space" where
  "restored_space s = \<lparr>es_name = ss_name s, es_fingerprint = ss_fingerprint s,
     es_status = (case from_sql (ss_status s) of Inr st \<Rightarrow> st | Inl _ \<Rightarrow> SpaceActive)\<rparr>"

lemma set_spaces_again [simp]: "set_spaces rows (set_spaces rows' S) = set_spaces rows S"
  by (simp add: set_spaces_def map_db_def)

lemma restore_space_iff:
  assumes "spaces_inv (sp_spaces S)"
  shows "restore_space created s S = (Inr (), S') \<longleftrightarrow>
    (\<exists>st. from_sql (ss_status s) = Inr st) \<and> dims_to_sql (ss_fingerprint s) = Inr () \<and>
    spaces_inv (sp_spaces S @ [(restored_space s, created)]) \<and>
    S' = set_spaces (sp_spaces S @ [(restored_space s, created)]) S"
proof -
  have 1: "spaces_inv (sp_spaces S @ [(x, created)]) \<longleftrightarrow>
      es_name x \<notin> space_names S \<and> (es_status x = SpaceActive \<longrightarrow> filter is_active_space (sp_spaces S) = [])" for x
    using assms by (auto simp: spaces_inv_def space_names_def is_active_space_def)
  show ?thesis
    by (cases "from_sql (ss_status s)"; cases "dims_to_sql (ss_fingerprint s)")
      (auto simp: restore_space_def insert_active_def op_bind_def insert_space_row_def 1 restored_space_def)
qed

lemma spaces_inv_prefix: "spaces_inv (xs @ ys) \<Longrightarrow> spaces_inv xs"
  by (auto simp: spaces_inv_def)

lemma restore_spaces_iff:
  assumes "spaces_inv (sp_spaces S)" "d_identity (sp_db S) = active_fingerprint (sp_spaces S)"
  shows "op_each (restore_space created) ss S = (Inr (), S') \<longleftrightarrow>
    (\<forall>s \<in> set ss. (\<exists>st. from_sql (ss_status s) = Inr st) \<and> dims_to_sql (ss_fingerprint s) = Inr ()) \<and>
    spaces_inv (sp_spaces S @ map (\<lambda>s. (restored_space s, created)) ss) \<and>
    S' = set_spaces (sp_spaces S @ map (\<lambda>s. (restored_space s, created)) ss) S"
  using assms
proof (induction ss arbitrary: S)
  case Nil
  have "set_spaces (sp_spaces S) S = S" using Nil(2) by (simp add: set_spaces_def map_db_def)
  with Nil(1) show ?case by auto
next
  case (Cons s ss)
  let ?S = "set_spaces (sp_spaces S @ [(restored_space s, created)]) S"
  have "op_each (restore_space created) (s # ss) S = (Inr (), S') \<longleftrightarrow>
      restore_space created s S = (Inr (), ?S) \<and> op_each (restore_space created) ss ?S = (Inr (), S')"
    by (auto simp: op_bind_Inr restore_space_iff [OF Cons.prems(1)])
  moreover have "spaces_inv (sp_spaces S @ map (\<lambda>s. (restored_space s, created)) (s # ss)) \<Longrightarrow>
      spaces_inv (sp_spaces S @ [(restored_space s, created)])"
    by (rule spaces_inv_prefix [where ys = "map (\<lambda>s. (restored_space s, created)) ss"]) simp
  ultimately show ?case
    using Cons.IH [of ?S] by (auto simp: restore_space_iff [OF Cons.prems(1)])
qed

lemma restore_vectors_iff:
  "op_each restore_fact_vector vs S = (Inr (), S') \<longleftrightarrow>
     distinct (map (\<lambda>v. (fv_fact_id v, fv_space_id v)) vs) \<and>
     (\<forall>v \<in> set vs. \<not> has_vector S (fv_space_id v) (fv_fact_id v) \<and> fv_fact_id v \<in> fact_ids_of (sp_db S) \<and>
        fv_space_id v \<in> space_names S) \<and>
     S' = S\<lparr>sp_vectors := sp_vectors S @ vs\<rparr>"
proof (induction vs arbitrary: S)
  case (Cons v vs)
  let ?S = "S\<lparr>sp_vectors := sp_vectors S @ [v]\<rparr>"
  have "op_each restore_fact_vector (v # vs) S = (Inr (), S') \<longleftrightarrow>
      \<not> has_vector S (fv_space_id v) (fv_fact_id v) \<and> fv_fact_id v \<in> fact_ids_of (sp_db S) \<and>
      fv_space_id v \<in> space_names S \<and> op_each restore_fact_vector vs ?S = (Inr (), S')"
    by (auto simp: op_bind_def restore_fact_vector_def)
  moreover have "has_vector ?S a b \<longleftrightarrow> has_vector S a b \<or> fv_space_id v = a \<and> fv_fact_id v = b" for a b
    by (auto simp: has_vector_def)
  moreover have "space_names ?S = space_names S" by (simp add: space_names_def)
  ultimately show ?case unfolding Cons.IH by (auto simp: image_iff)
qed auto

text \<open>What the registry is after the restore of a document.\<close>

lemma restore_embedding_spaces_rows:
  assumes "sp_spaces S = []" "d_identity (sp_db S) = None"
    and "restore_embedding_spaces read_fp created snap S = (Inr (), S')"
  shows "\<exists>rows. S' = set_spaces rows S \<and> spaces_inv rows \<and>
    (en_spaces snap \<noteq> [] \<longrightarrow> rows = map (\<lambda>s. (restored_space s, created)) (en_spaces snap) \<and>
       (\<forall>s \<in> set (en_spaces snap). \<exists>st. from_sql (ss_status s) = Inr st))"
proof (cases "en_spaces snap = []")
  case True
  have "S = set_spaces [] S" using assms(1,2) by (simp add: set_spaces_def map_db_def active_fingerprint_def)
  moreover have "spaces_inv []" "spaces_inv [(x, created)]" for x
    by (simp_all add: spaces_inv_def)
  ultimately show ?thesis
    using True assms by (fastforce simp: restore_embedding_spaces_def upsert_active_fingerprint_def op_bind_Inr space_names_def
        split: option.splits sum.splits)
next
  case False
  have i: "spaces_inv (sp_spaces S)" "d_identity (sp_db S) = active_fingerprint (sp_spaces S)"
    using assms(1,2) by (simp_all add: spaces_inv_def active_fingerprint_def)
  have "op_each (restore_space created) (en_spaces snap) S = (Inr (), S')"
    using False assms(3) by (simp add: restore_embedding_spaces_def)
  from this [unfolded restore_spaces_iff [OF i]] assms(1) show ?thesis by auto
qed

subsection \<open>The sequences\<close>

lemma reset_autoincrement_covers: "x \<in> set rowids \<Longrightarrow> x \<le> reset_autoincrement n rowids"
  by (simp add: reset_autoincrement_def fold_max)

lemma largest_id_nonneg: "\<forall>x \<in> set xs. 0 < x \<Longrightarrow> 0 \<le> largest_id xs"
proof (cases xs)
  case (Cons x rest)
  moreover assume "\<forall>x \<in> set xs. 0 < x"
  ultimately show ?thesis by (simp add: largest_id_def fold_max) (metis Max_ge List.finite_set finite_insert insertI1 less_le_not_le order.trans linorder_linear)
qed (simp add: largest_id_def)

lemma reset_autoincrement_ge: "n \<le> reset_autoincrement n rowids"
  by (simp add: reset_autoincrement_def fold_max)

lemma reset_autoincrement_same:
  assumes "set rowids = set ids"
  shows "reset_autoincrement (largest_id ids) rowids = largest_id ids"
proof (cases ids)
  case (Cons x rest)
  have "largest_id ids = Max (set ids)" by (simp add: largest_id_def Cons fold_max)
  moreover have "reset_autoincrement (Max (set ids)) rowids = Max (insert (Max (set ids)) (set ids))"
    by (simp add: reset_autoincrement_def fold_max assms)
  moreover have "Max (set ids) \<in> set ids" using Cons by (intro Max_in) auto
  then have "insert (Max (set ids)) (set ids) = set ids" by (rule insert_absorb)
  ultimately show ?thesis by simp
qed (use assms in \<open>simp add: largest_id_def reset_autoincrement_def\<close>)

subsection \<open>Every restored store is sound\<close>

definition document_sound :: "engine_snapshot \<Rightarrow> bool" where
  \<comment> \<open>what neither the validation nor a constraint of the schema checks\<close>
  "document_sound snap \<longleftrightarrow>
     (en_scopes snap \<noteq> [] \<longrightarrow> scope_wf (from_nodes (sort_key sn_id (scopes_in_order snap)))) \<and>
     (\<forall>e \<in> set (en_events snap). 0 < ev_id e) \<and> (\<forall>f \<in> set (en_facts snap). 0 < f_id f) \<and>
     (\<forall>e \<in> set (en_edges snap). 0 < e_id e) \<and>
     (\<forall>v \<in> set (en_vectors snap). \<forall>s \<in> set (en_spaces snap).
        from_sql (ss_status s) = Inr SpaceActive \<longrightarrow> ss_name s \<noteq> fv_space_id v)"

lemma validate_snapshot_ok:
  "validate_snapshot snap = Inr () \<longleftrightarrow>
     en_schema_version snap \<le> current_schema_version \<and> en_storage_epoch snap \<le> storage_epoch \<and> en_embed_dim snap \<noteq> 0 \<and>
     (\<forall>f \<in> set (en_facts snap). length (f_embedding f) = en_embed_dim snap) \<and>
     (\<forall>s \<in> set (en_summaries snap). length (s_embedding s) = en_embed_dim snap) \<and>
     (\<forall>v \<in> set (en_vectors snap). check_vector snap v = Inr ()) \<and>
     (en_scopes snap = [] \<or> (\<exists>s \<in> set (en_scopes snap). is_root_row s))"
proof -
  have "check_width n e = Inr () \<longleftrightarrow> length e = n" for n e by (simp add: check_width_def)
  moreover have "check_root snap = Inr () \<longleftrightarrow> en_scopes snap = [] \<or> (\<exists>s \<in> set (en_scopes snap). is_root_row s)"
    by (auto simp: check_root_def list_ex_iff)
  ultimately show ?thesis by (auto simp: validate_snapshot_def and_then_eq_Inr not_less check_all_ok)
qed

lemma scopes_fit_distinct: "scopes_fit ns seen \<Longrightarrow> distinct (map sn_id ns) \<and> sn_id ` set ns \<inter> sn_id ` seen = {}"
  by (induction ns arbitrary: seen) (auto simp: image_iff)

lemma strict_sort: "distinct (map (k :: 'a \<Rightarrow> int) xs) \<Longrightarrow> sorted_wrt (<) (map k (sort_key k xs))"
proof -
  assume "distinct (map k xs)"
  moreover have "mset (map k (sort_key k xs)) = mset (map k xs)" by simp
  ultimately show ?thesis unfolding strict_sorted_iff by (metis mset_eq_imp_distinct_iff sorted_sort_key)
qed

lemma covered: "x \<in> set xs \<Longrightarrow> x \<le> fold max xs (n :: int)"
  by (simp add: fold_max)

lemma loaded_scopes_inv:
  assumes "scopes_fit (scopes_in_order snap) {}" "document_sound snap"
  shows "scopes_inv (loaded_scopes snap)"
proof (cases "en_scopes snap = []")
  case True
  then show ?thesis using init_scopes_inv by (simp add: loaded_scopes_def)
next
  case False
  have "distinct (map sn_id (scopes_in_order snap))" using scopes_fit_distinct [OF assms(1)] by simp
  from strict_sort [OF this] show ?thesis
    using False assms(2) by (simp add: scopes_inv_def loaded_scopes_def document_sound_def covered) (simp add: fold_max)
qed

lemma fold_max_nonneg: "0 \<le> fold max xs (0 :: int)"
  by (simp add: fold_max)

lemma loaded_simps [simp]:
  "d_scopes (su_db (loaded snap)) = loaded_scopes snap" "d_facts (su_db (loaded snap)) = sort_key f_id (en_facts snap)"
  "d_edges (su_db (loaded snap)) = sort_key e_id (en_edges snap)"
  "d_events (su_db (loaded snap)) = map event_key (sort_key ev_id (en_events snap))"
  "lg_events (su_log (loaded snap)) = sort_key ev_id (en_events snap)"
  "lg_lineage (su_log (loaded snap)) = sort_key li_lineage_id (en_lineage snap)"
  "su_summaries (loaded snap) = sort_key s_id (en_summaries snap)"
  "d_fact_seq (su_db (loaded snap)) = fold max (map f_id (en_facts snap)) 0"
  "d_edge_seq (su_db (loaded snap)) = fold max (map e_id (en_edges snap)) 0"
  "d_event_seq (su_db (loaded snap)) = fold max (map ev_id (en_events snap)) 0"
  "lg_lineage_seq (su_log (loaded snap)) = fold max (map li_lineage_id (en_lineage snap)) 0"
  "su_summary_seq (loaded snap) = fold max (map s_id (en_summaries snap)) 0"
  "d_identity (su_db (loaded snap)) = None"
  by (simp_all add: loaded_def)

lemma loaded_ids [simp]:
  "scope_ids_of (su_db (loaded snap)) = document_scopes snap" "fact_ids_of (su_db (loaded snap)) = f_id ` set (en_facts snap)"
  by (simp_all add: scope_ids_of_def fact_ids_of_def document_scopes_loaded)

lemma loaded_inv:
  assumes f: "document_fits snap" and v: "validate_snapshot snap = Inr ()" and s: "document_sound snap"
  shows "summary_inv (en_embed_dim snap) (loaded snap)"
proof -
  have "fact_row_ok (en_embed_dim snap) (su_db (loaded snap)) r" if "r \<in> set (en_facts snap)" for r
    using f v s that unfolding fact_row_ok_def
    by (simp add: document_fits_def validate_snapshot_ok document_sound_def covered event_key_def image_image)
  moreover have "edge_row_ok (su_db (loaded snap)) e" if "e \<in> set (en_edges snap)" for e
    using f s that unfolding edge_row_ok_def by (simp add: document_fits_def document_sound_def covered)
  moreover have "sorted_wrt (<) (map f_id (d_facts (su_db (loaded snap))))" "sorted_wrt (<) (map e_id (d_edges (su_db (loaded snap))))"
    using f by (simp_all add: document_fits_def strict_sort)
  moreover have "scopes_inv (loaded_scopes snap)" using f s by (simp add: document_fits_def loaded_scopes_inv)
  ultimately have d: "db_inv (en_embed_dim snap) (su_db (loaded snap))"
    by (simp add: db_inv_def list_all_iff fold_max_nonneg)
  have "sorted_wrt (<) (map ev_id (sort_key ev_id (en_events snap)))" "sorted_wrt (<) (map li_lineage_id (sort_key li_lineage_id (en_lineage snap)))"
    "sorted_wrt (<) (map s_id (sort_key s_id (en_summaries snap)))"
    using f by (simp_all add: document_fits_def strict_sort)
  moreover have "distinct (map li_wisdom_fact_id (sort_key li_lineage_id (en_lineage snap)))"
    using f by (simp add: document_fits_def distinct_map)
  moreover have "map event_key es = map (\<lambda>e. (ev_id e, ev_session_id e)) es" for es by (simp add: event_key_def)
  ultimately have "log_inv (en_embed_dim snap) (su_log (loaded snap))"
    using d f s unfolding log_inv_def by (simp add: fold_max_nonneg covered document_fits_def document_sound_def)
  with \<open>sorted_wrt (<) (map s_id (sort_key s_id (en_summaries snap)))\<close> show ?thesis
    using f v by (simp add: summary_inv_def list_all_iff summary_row_ok_def covered document_fits_def validate_snapshot_ok)
qed

lemma reset_simps:
  "fst (reset_sequences snap S) = Inr ()"
  "d_facts (sp_db (snd (reset_sequences snap S))) = d_facts (sp_db S)"
  "d_edges (sp_db (snd (reset_sequences snap S))) = d_edges (sp_db S)"
  "d_events (sp_db (snd (reset_sequences snap S))) = d_events (sp_db S)"
  "sc_rows (d_scopes (sp_db (snd (reset_sequences snap S)))) = sc_rows (d_scopes (sp_db S))"
  "d_identity (sp_db (snd (reset_sequences snap S))) = d_identity (sp_db S)"
  "lg_events (su_log (sp_tables (snd (reset_sequences snap S)))) = lg_events (su_log (sp_tables S))"
  "lg_lineage (su_log (sp_tables (snd (reset_sequences snap S)))) = lg_lineage (su_log (sp_tables S))"
  "lg_config (su_log (sp_tables (snd (reset_sequences snap S)))) = lg_config (su_log (sp_tables S))"
  "su_summaries (sp_tables (snd (reset_sequences snap S))) = su_summaries (sp_tables S)"
  "sp_spaces (snd (reset_sequences snap S)) = sp_spaces S" "sp_vectors (snd (reset_sequences snap S)) = sp_vectors S"
  "d_fact_seq (sp_db (snd (reset_sequences snap S))) = reset_autoincrement (largest_id (map f_id (en_facts snap))) (map f_id (d_facts (sp_db S)))"
  "d_edge_seq (sp_db (snd (reset_sequences snap S))) = reset_autoincrement (largest_id (map e_id (en_edges snap))) (map e_id (d_edges (sp_db S)))"
  "d_event_seq (sp_db (snd (reset_sequences snap S))) =
     reset_autoincrement (largest_id (map ev_id (en_events snap))) (map ev_id (lg_events (su_log (sp_tables S))))"
  "sc_seq (d_scopes (sp_db (snd (reset_sequences snap S)))) =
     reset_autoincrement (largest_id (map sn_id (en_scopes snap))) (map sn_id (sc_rows (d_scopes (sp_db S))))"
  "lg_lineage_seq (su_log (sp_tables (snd (reset_sequences snap S)))) =
     reset_autoincrement (largest_id (map li_lineage_id (en_lineage snap))) (map li_lineage_id (lg_lineage (su_log (sp_tables S))))"
  "su_summary_seq (sp_tables (snd (reset_sequences snap S))) =
     reset_autoincrement (largest_id (map s_id (en_summaries snap))) (map s_id (su_summaries (sp_tables S)))"
  by (simp_all add: reset_sequences_def Let_def)

lemma fact_ids_identity [simp]: "fact_ids_of (D\<lparr>d_identity := x\<rparr>) = fact_ids_of D"
  by (simp add: fact_ids_of_def)

lemma reset_inv:
  assumes v: "vectors_inv S" and s: "summary_inv edim (sp_tables S)" and d: "document_sound snap"
  shows "vectors_inv (snd (reset_sequences snap S))" "summary_inv edim (sp_tables (snd (reset_sequences snap S)))"
proof -
  let ?S = "snd (reset_sequences snap S)"
  have l: "log_inv edim (su_log (sp_tables S))" and db: "db_inv edim (sp_db S)"
    using s by (simp_all add: summary_inv_def log_inv_def)
  have ids: "fact_ids_of (sp_db ?S) = fact_ids_of (sp_db S)" "scope_ids_of (sp_db ?S) = scope_ids_of (sp_db S)"
    by (simp_all add: fact_ids_of_def scope_ids_of_def reset_simps)
  have pos: "0 \<le> largest_id (map f_id (en_facts snap))" "0 \<le> largest_id (map e_id (en_edges snap))" "0 \<le> largest_id (map ev_id (en_events snap))"
    using d by (auto simp: document_sound_def intro!: largest_id_nonneg)
  note nonneg = pos [THEN order.trans [OF _ reset_autoincrement_ge]]
  have names: "space_names ?S = space_names S" by (simp add: space_names_def reset_simps)
  have "vector_ok ?S w" if "vector_ok S w" for w
    using that unfolding vector_ok_def ids names reset_simps by simp
  then show "vectors_inv ?S" using v unfolding vectors_inv_def list_all_iff reset_simps by blast
  have one: "1 \<in> sn_id ` set (sc_rows (d_scopes (sp_db S)))"
    using root_scope [OF db] by (simp add: scope_ids_of_def)
  have "scopes_inv (d_scopes (sp_db ?S))"
    using db one unfolding db_inv_def scopes_inv_def reset_simps by (auto intro!: reset_autoincrement_covers)
  moreover have "fact_row_ok edim (sp_db ?S) f" if "f \<in> set (d_facts (sp_db S))" for f
    using db_invD(4) [OF db that] that unfolding fact_row_ok_def ids reset_simps
    by (auto intro!: reset_autoincrement_covers)
  moreover have "edge_row_ok (sp_db ?S) e" if "e \<in> set (d_edges (sp_db S))" for e
    using db_invD(5) [OF db that] that unfolding edge_row_ok_def ids reset_simps
    by (auto intro!: reset_autoincrement_covers)
  ultimately have "db_inv edim (sp_db ?S)"
    using db nonneg unfolding db_inv_def list_all_iff reset_simps by simp
  then have "log_inv edim (su_log (sp_tables ?S))"
    using l nonneg unfolding log_inv_def reset_simps ids by (simp add: reset_autoincrement_covers)
  moreover have "summary_row_ok edim (sp_tables ?S) x" if "x \<in> set (su_summaries (sp_tables S))" for x
    using s that unfolding summary_inv_def list_all_iff summary_row_ok_def ids reset_simps
    by (auto intro!: reset_autoincrement_covers)
  ultimately show "summary_inv edim (sp_tables ?S)"
    using s unfolding summary_inv_def list_all_iff reset_simps by blast
qed

definition filled :: "engine_snapshot \<Rightarrow> (embedding_space \<times> time) list \<Rightarrow> space_store" where
  \<comment> \<open>the store before its sequences are reset\<close>
  "filled snap rows = (set_spaces rows (fresh_store\<lparr>sp_tables := loaded snap\<rparr>))\<lparr>sp_vectors := en_vectors snap\<rparr>"

lemma restored_is_filled:
  assumes "restore_snapshot_into read_fp created snap fresh_store = (Inr (), S')"
  shows "\<exists>rows. validate_snapshot snap = Inr () \<and> document_fits snap \<and> spaces_inv rows \<and>
    (en_spaces snap \<noteq> [] \<longrightarrow> rows = map (\<lambda>s. (restored_space s, created)) (en_spaces snap) \<and>
       (\<forall>s \<in> set (en_spaces snap). \<exists>st. from_sql (ss_status s) = Inr st)) \<and>
    distinct (map (\<lambda>v. (fv_fact_id v, fv_space_id v)) (en_vectors snap)) \<and>
    (\<forall>v \<in> set (en_vectors snap). fv_fact_id v \<in> f_id ` set (en_facts snap) \<and> fv_space_id v \<in> (es_name \<circ> fst) ` set rows) \<and>
    S' = snd (reset_sequences snap (filled snap rows))"
proof -
  let ?S1 = "fresh_store\<lparr>sp_tables := loaded snap\<rparr>"
  from assms have v: "validate_snapshot snap = Inr ()" and "restore_rows read_fp created snap fresh_store = (Inr (), S')"
    by (auto simp: restore_snapshot_into_def op_bind_Inr)
  then obtain S2 S3 where t: "document_fits snap" and
    2: "restore_embedding_spaces read_fp created snap ?S1 = (Inr (), S2)" and
    3: "op_each restore_fact_vector (en_vectors snap) S2 = (Inr (), S3)" "reset_sequences snap S3 = (Inr (), S')"
    unfolding restore_rows_def op_bind_Inr
    by (auto simp: on_summaries_def restore_tables_iff split: prod.splits)
  have e: "sp_spaces ?S1 = []" "d_identity (sp_db ?S1) = None" by (simp_all add: fresh_store_def)
  from restore_embedding_spaces_rows [OF e 2] obtain rows where r: "S2 = set_spaces rows ?S1" "spaces_inv rows"
    "en_spaces snap \<noteq> [] \<longrightarrow> rows = map (\<lambda>s. (restored_space s, created)) (en_spaces snap) \<and>
       (\<forall>s \<in> set (en_spaces snap). \<exists>st. from_sql (ss_status s) = Inr st)" by blast
  have "sp_vectors ?S1 = []" by (simp add: fresh_store_def)
  with 3(1) r(1) have "S3 = filled snap rows" "distinct (map (\<lambda>v. (fv_fact_id v, fv_space_id v)) (en_vectors snap))"
    "\<forall>v \<in> set (en_vectors snap). fv_fact_id v \<in> f_id ` set (en_facts snap) \<and> fv_space_id v \<in> (es_name \<circ> fst) ` set rows"
    unfolding restore_vectors_iff by (simp_all add: filled_def fresh_store_def)
  moreover have "S' = snd (reset_sequences snap S3)" using 3(2) by simp
  ultimately show ?thesis using v t r(2,3) by (intro exI [of _ rows] conjI) simp_all
qed

lemma restored_sound:
  assumes r: "restore_snapshot_into read_fp created snap fresh_store = (Inr (), S')" and s: "document_sound snap"
  shows "space_inv (en_embed_dim snap) S'" "summary_inv (en_embed_dim snap) (sp_tables S')"
proof -
  from restored_is_filled [OF r] obtain rows where *: "validate_snapshot snap = Inr ()" "document_fits snap" "spaces_inv rows"
    "en_spaces snap \<noteq> [] \<longrightarrow> rows = map (\<lambda>s. (restored_space s, created)) (en_spaces snap) \<and>
       (\<forall>s \<in> set (en_spaces snap). \<exists>st. from_sql (ss_status s) = Inr st)"
    "distinct (map (\<lambda>v. (fv_fact_id v, fv_space_id v)) (en_vectors snap))"
    "\<forall>v \<in> set (en_vectors snap). fv_fact_id v \<in> f_id ` set (en_facts snap) \<and> fv_space_id v \<in> (es_name \<circ> fst) ` set rows"
    "S' = snd (reset_sequences snap (filled snap rows))" by blast
  let ?F = "filled snap rows"
  have tables: "sp_tables ?F = sp_tables (set_spaces rows (fresh_store\<lparr>sp_tables := loaded snap\<rparr>))"
    by (simp add: filled_def)
  have l: "summary_inv (en_embed_dim snap) (loaded snap)" by (rule loaded_inv [OF *(2,1) s])
  then have "log_inv (en_embed_dim snap) (su_log (sp_tables ?F))"
    unfolding tables by (intro log_inv_set_spaces) (simp add: summary_inv_def)
  moreover have "summary_row_ok (en_embed_dim snap) (sp_tables ?F) x" if "summary_row_ok (en_embed_dim snap) (loaded snap) x" for x
    using that unfolding summary_row_ok_def tables by (simp add: set_spaces_def map_db_def scope_ids_of_def)
  ultimately have "summary_inv (en_embed_dim snap) (sp_tables ?F)"
    using l unfolding summary_inv_def list_all_iff by (simp add: tables)
  moreover have "vectors_inv ?F"
  proof (rule vectors_invI)
    fix w assume w: "w \<in> set (sp_vectors ?F)"
    then have w': "w \<in> set (en_vectors snap)" by (simp add: filled_def)
    have "check_vector snap w = Inr ()" using *(1) w' by (simp add: validate_snapshot_ok)
    then have ne: "en_spaces snap \<noteq> []" by (auto simp: check_vector_def)
    have "es_name (fst x) \<noteq> fv_space_id w" if "x \<in> set rows" "is_active_space x" for x
      using that *(4) ne s w' by (auto simp: document_sound_def restored_space_def is_active_space_def)
    then show "vector_ok ?F w"
      using *(6) w' by (simp add: vector_ok_def filled_def space_names_def fact_ids_of_def image_comp)
  qed (use *(3,5) in \<open>simp_all add: filled_def\<close>)
  ultimately have "vectors_inv S'" and i: "summary_inv (en_embed_dim snap) (sp_tables S')"
    using reset_inv [OF _ _ s] unfolding *(7) by blast+
  then show "space_inv (en_embed_dim snap) S'" by (simp add: space_inv_def summary_inv_def)
  show "summary_inv (en_embed_dim snap) (sp_tables S')" by (rule i)
qed

end
