(* ===== verification/Restore_Dump.thy ===== *)
theory Restore_Dump
  imports Restore_Sound
begin

text \<open>
  The dump of a store that no other call changes meanwhile, and its restore into an empty store.
\<close>

subsection \<open>The document of a store\<close>

definition document :: "nat \<Rightarrow> space_store \<Rightarrow> engine_snapshot" where
  "document edim S = \<lparr>
     en_schema_version = (case config_number u32_max ''schema_version'' S of Inr n \<Rightarrow> n | Inl _ \<Rightarrow> 0),
     en_storage_epoch = (case config_number u16_max ''storage_epoch'' S of Inr n \<Rightarrow> n | Inl _ \<Rightarrow> 0),
     en_embed_dim = edim, en_facts = d_facts (sp_db S), en_edges = map row_to_edge (d_edges (sp_db S)),
     en_summaries = su_summaries (sp_tables S), en_scopes = sc_rows (d_scopes (sp_db S)),
     en_events = sort_key ev_timestamp (lg_events (su_log (sp_tables S))),
     en_lineage = lg_lineage (su_log (sp_tables S)), en_spaces = map space_to_snapshot (list_spaces S),
     en_vectors = sort_key (\<lambda>v. (fv_space_id v, fv_fact_id v)) (sp_vectors S),
     en_config = config_entries (su_log (sp_tables S))\<rparr>"

definition dumpable :: "nat \<Rightarrow> space_store \<Rightarrow> bool" where
  \<comment> \<open>a store of this version of the code, at the dimension\<close>
  "dumpable edim S \<longleftrightarrow> space_inv edim S \<and> summary_inv edim (sp_tables S) \<and> edim \<noteq> 0 \<and>
     en_schema_version (document edim S) \<le> current_schema_version \<and> en_storage_epoch (document edim S) \<le> storage_epoch \<and>
     (\<exists>n \<in> set (sc_rows (d_scopes (sp_db S))). is_root_row n) \<and>
     distinct (map fst (lg_config (su_log (sp_tables S)))) \<and> ''embedding_meta'' \<notin> fst ` set (lg_config (su_log (sp_tables S))) \<and>
     (\<forall>r \<in> set (lg_lineage (su_log (sp_tables S))). fl_is_finite (pp_confidence (li_provenance r))) \<and>
     (\<forall>(s, t) \<in> set (sp_spaces S). dims_to_sql (es_fingerprint s) = Inr () \<and>
        (\<forall>v \<in> set (sp_vectors S). fv_space_id v = es_name s \<longrightarrow> length (fv_embedding v) = fp_dim (es_fingerprint s)))"

lemma dumpable_parts:
  assumes "dumpable edim S"
  shows "db_inv edim (sp_db S)" "log_inv edim (su_log (sp_tables S))" "scopes_inv (d_scopes (sp_db S))"
    "vectors_inv S" "spaces_inv (sp_spaces S)" "summary_inv edim (sp_tables S)"
  using assms by (auto simp: dumpable_def space_inv_def log_inv_def db_inv_def vectors_inv_def)

lemma list_spaces_set: "set (list_spaces S) = fst ` set (sp_spaces S)"
  by (simp add: list_spaces_def)

lemma list_vectors_ok:
  assumes d: "dumpable edim S"
  shows "list_vectors edim S = Inr (en_vectors (document edim S))"
proof -
  let ?dims = "map_of (map (\<lambda>s. (es_name s, fp_dim (es_fingerprint s))) (list_spaces S))"
  have "deserialize_vector (case ?dims (fv_space_id v) of None \<Rightarrow> edim | Some n \<Rightarrow> n) v = Inr v" if "v \<in> set (sp_vectors S)" for v
  proof -
    have "fv_space_id v \<in> es_name ` set (list_spaces S)"
      using vectors_have_space [OF dumpable_parts(4) [OF d] that] by (simp add: list_spaces_set space_names_def image_comp)
    then obtain n where n: "?dims (fv_space_id v) = Some n"
      by (cases "?dims (fv_space_id v)") (auto simp: map_of_eq_None_iff image_image)
    from map_of_SomeD [OF this] obtain s where "s \<in> set (list_spaces S)" "es_name s = fv_space_id v" "n = fp_dim (es_fingerprint s)"
      by auto
    then have "length (fv_embedding v) = n" using d that by (force simp: dumpable_def list_spaces_set)
    with n show ?thesis by (simp add: deserialize_vector_def)
  qed
  then show ?thesis
    unfolding list_vectors_def Let_def document_def engine_snapshot.simps by (intro map_res_Inr_id) simp
qed

lemma dump_reads:
  assumes d: "dumpable edim S"
  shows "list_all_facts edim (sp_db S) = Inr (d_facts (sp_db S))" "list_all_edges (sp_db S) = map row_to_edge (d_edges (sp_db S))"
    "list_all_summaries edim (sp_tables S) = Inr (su_summaries (sp_tables S))"
    "list_all_scopes (d_scopes (sp_db S)) = sc_rows (d_scopes (sp_db S))"
    "map_res read_provenance (sort_key li_lineage_id (lg_lineage (su_log (sp_tables S)))) = Inr (lg_lineage (su_log (sp_tables S)))"
    "list_vectors edim S = Inr (en_vectors (document edim S))"
proof -
  note p = dumpable_parts [OF d]
  show "list_all_facts edim (sp_db S) = Inr (d_facts (sp_db S))"
    using db_invD(2) [OF p(1)] select_facts_ok [OF p(1)]
    by (simp add: list_all_facts_def sort_key_id_if_sorted strict_sorted_iff)
  show "list_all_edges (sp_db S) = map row_to_edge (d_edges (sp_db S))"
    using db_invD(3) [OF p(1)] by (simp add: list_all_edges_def sort_key_id_if_sorted strict_sorted_iff)
  show "list_all_scopes (d_scopes (sp_db S)) = sc_rows (d_scopes (sp_db S))"
    by (rule list_all_scopes_rows [OF p(3)])
  have "sort_key li_lineage_id (lg_lineage (su_log (sp_tables S))) = lg_lineage (su_log (sp_tables S))"
    using p(2) by (intro sort_key_id_if_sorted) (simp add: log_inv_def strict_sorted_iff)
  moreover have "map_res read_provenance (lg_lineage (su_log (sp_tables S))) = Inr (lg_lineage (su_log (sp_tables S)))"
    by (rule map_res_Inr_id) (use d in \<open>simp add: dumpable_def read_provenance_def\<close>)
  ultimately show "map_res read_provenance (sort_key li_lineage_id (lg_lineage (su_log (sp_tables S)))) =
      Inr (lg_lineage (su_log (sp_tables S)))" by simp
qed (rule summaries_readable(1) [OF dumpable_parts(6) [OF d]] list_vectors_ok [OF d])+

lemma stream_snapshot_quiet:
  assumes d: "dumpable edim S"
  shows "stream_snapshot edim (\<lambda>_ T. T) S = (Inr (document edim S), S)"
  unfolding stream_snapshot_def read_then_def
  by (simp add: op_bind_def dump_reads [OF d] config_number_def) (simp add: document_def config_number_def)

subsection \<open>The document fits an empty store\<close>

lemma scopes_fit_sorted:
  assumes "sorted_wrt (\<lambda>m n. sn_depth m \<le> sn_depth n) ns" "distinct (map sn_id ns)" "sn_id ` set ns \<inter> sn_id ` seen = {}"
    and "\<And>n p. n \<in> set ns \<Longrightarrow> sn_parent_id n = Some p \<Longrightarrow> \<exists>m \<in> seen \<union> set ns. sn_id m = p \<and> sn_depth m < sn_depth n"
    and "\<And>n m. n \<in> set ns \<Longrightarrow> m \<in> seen \<union> set ns \<Longrightarrow> m \<noteq> n \<Longrightarrow> sn_parent_id n \<noteq> None \<Longrightarrow> sn_parent_id m = sn_parent_id n \<Longrightarrow>
      sn_label m \<noteq> sn_label n"
  shows "scopes_fit ns seen"
  using assms
proof (induction ns arbitrary: seen)
  case (Cons n ns)
  have "p \<in> sn_id ` seen" if p: "sn_parent_id n = Some p" for p
  proof -
    from Cons.prems(4) [OF _ p] obtain m where m: "m \<in> seen \<union> set (n # ns)" "sn_id m = p" "sn_depth m < sn_depth n" by auto
    with Cons.prems(1) have "m \<in> seen" by auto
    with m show ?thesis by blast
  qed
  moreover have "sn_label m \<noteq> sn_label n" if "sn_parent_id n = Some p" "m \<in> seen" "sn_parent_id m = Some p" for p m
    using Cons.prems(3) that by (intro Cons.prems(5)) auto
  moreover have "scopes_fit ns (insert n seen)"
    by (rule Cons.IH) (use Cons.prems in auto)
  ultimately show ?case using Cons.prems(3) by auto
qed simp

lemma scope_rows:
  assumes inv: "scopes_inv s" and n: "n \<in> set (sc_rows s)"
  shows "sn_parent_id n = Some p \<Longrightarrow> \<exists>m \<in> set (sc_rows s). sn_id m = p \<and> sn_depth m < sn_depth n"
    and "m \<in> set (sc_rows s) \<Longrightarrow> m \<noteq> n \<Longrightarrow> sn_parent_id n = Some p \<Longrightarrow> sn_parent_id m = Some p \<Longrightarrow> sn_label m \<noteq> sn_label n"
proof -
  note wf = scopes_inv_wf [OF inv] and nodes = tree_of_nodes [OF inv]
  have ok: "node_ok (tree_of s) (sn_id n) n" using scope_wfD(3) [OF wf] n nodes by blast
  {
    assume p: "sn_parent_id n = Some p"
    then have "sn_id n \<noteq> root_id" using ok by (auto simp: node_ok_def)
    from node_ok_child [OF ok this] p show "\<exists>m \<in> set (sc_rows s). sn_id m = p \<and> sn_depth m < sn_depth n"
      by (metis nodes option.sel zless_add1_eq)
  next
    assume m: "m \<in> set (sc_rows s)" "m \<noteq> n" and p: "sn_parent_id n = Some p" "sn_parent_id m = Some p"
    have "map_of (st_nodes (tree_of s)) (sn_id n) = Some n" "map_of (st_nodes (tree_of s)) (sn_id m) = Some m"
      using n m nodes by blast+
    moreover have "sn_id m \<noteq> sn_id n" using m n scopes_inv_distinct [OF inv] by (auto simp: distinct_map inj_on_def)
    ultimately show "sn_label m \<noteq> sn_label n"
      using scope_wfD(2) [OF wf] p unfolding siblings_ok_def parent_of_def has_label_def by fastforce
  }
qed

lemma document_scopes_fit:
  assumes "scopes_inv (d_scopes (sp_db S))"
  shows "scopes_fit (scopes_in_order (document edim S)) {}"
proof (rule scopes_fit_sorted)
  let ?rows = "sc_rows (d_scopes (sp_db S))"
  have ns: "scopes_in_order (document edim S) = sort_key (\<lambda>s. (sn_depth s, sn_id s)) ?rows"
    by (simp add: scopes_in_order_def document_def)
  have "sorted (map (\<lambda>s. (sn_depth s, sn_id s)) (scopes_in_order (document edim S)))" unfolding ns by simp
  then show "sorted_wrt (\<lambda>m n. sn_depth m \<le> sn_depth n) (scopes_in_order (document edim S))"
    unfolding sorted_map by (rule sorted_wrt_mono_rel [rotated]) auto
  have "mset (map sn_id (scopes_in_order (document edim S))) = mset (map sn_id ?rows)" unfolding ns by simp
  then show "distinct (map sn_id (scopes_in_order (document edim S)))"
    using scopes_inv_distinct [OF assms] by (metis mset_eq_imp_distinct_iff)
  have set: "set (scopes_in_order (document edim S)) = set ?rows" unfolding ns by simp
  show "\<exists>m \<in> {} \<union> set (scopes_in_order (document edim S)). sn_id m = p \<and> sn_depth m < sn_depth n"
    if "n \<in> set (scopes_in_order (document edim S))" "sn_parent_id n = Some p" for n p
    using scope_rows(1) [OF assms] that unfolding set by simp
  show "sn_label m \<noteq> sn_label n" if "n \<in> set (scopes_in_order (document edim S))" "m \<in> {} \<union> set (scopes_in_order (document edim S))"
    "m \<noteq> n" "sn_parent_id n \<noteq> None" "sn_parent_id m = sn_parent_id n" for n m
    using scope_rows(2) [OF assms, of n m] that unfolding set by auto
qed simp

lemma set_document [simp]:
  "set (en_events (document edim S)) = set (lg_events (su_log (sp_tables S)))"
  "set (en_vectors (document edim S)) = set (sp_vectors S)"
  "set (en_config (document edim S)) = set (lg_config (su_log (sp_tables S)))"
  "en_facts (document edim S) = d_facts (sp_db S)" "en_edges (document edim S) = map row_to_edge (d_edges (sp_db S))"
  "en_summaries (document edim S) = su_summaries (sp_tables S)" "en_scopes (document edim S) = sc_rows (d_scopes (sp_db S))"
  "en_lineage (document edim S) = lg_lineage (su_log (sp_tables S))"
  "en_spaces (document edim S) = map space_to_snapshot (list_spaces S)" "en_embed_dim (document edim S) = edim"
  by (simp_all add: document_def config_entries_def)

lemma row_to_edge_simps [simp]:
  "e_id (row_to_edge e) = e_id e" "e_source_fact_id (row_to_edge e) = e_source_fact_id e"
  "e_target_fact_id (row_to_edge e) = e_target_fact_id e" "e_scope_id (row_to_edge e) = e_scope_id e"
  "e_weight (row_to_edge e) = e_weight e"
  by (simp_all add: row_to_edge_def)

lemma as_sql_round_trip: "from_sql (as_sql st) = Inr st"
  by (cases st) (simp_all add: from_sql_def)

lemma restored_space_snapshot: "restored_space (space_to_snapshot s) = s"
  by (simp add: restored_space_def space_to_snapshot_def as_sql_round_trip)

lemma document_validates:
  assumes d: "dumpable edim S"
  shows "validate_snapshot (document edim S) = Inr ()"
proof -
  note p = dumpable_parts [OF d]
  have "check_vector (document edim S) v = Inr ()" if v: "v \<in> set (sp_vectors S)" for v
  proof -
    have "fv_space_id v \<in> es_name ` set (list_spaces S)"
      using vectors_have_space [OF p(4) v] by (simp add: list_spaces_set space_names_def image_comp)
    then obtain s where "List.find (\<lambda>s. ss_name s = fv_space_id v) (map space_to_snapshot (list_spaces S)) = Some s"
      by (cases "List.find (\<lambda>s. ss_name s = fv_space_id v) (map space_to_snapshot (list_spaces S))")
        (auto simp: find_None_iff space_to_snapshot_def)
    moreover from find_eq_Some_in [OF this] obtain x t where "(x, t) \<in> set (sp_spaces S)" "s = space_to_snapshot x"
      "es_name x = fv_space_id v"
      by (auto simp: list_spaces_set space_to_snapshot_def)
    moreover have "length (fv_embedding v) = fp_dim (es_fingerprint x)"
      using d v calculation(2,4) unfolding dumpable_def by fastforce
    ultimately show ?thesis by (simp add: check_vector_def check_width_def space_to_snapshot_def)
  qed
  moreover have "length (f_embedding f) = edim" if "f \<in> set (d_facts (sp_db S))" for f
    using db_invD(4) [OF p(1) that] by (simp add: fact_row_ok_def)
  moreover have "length (s_embedding x) = edim" if "x \<in> set (su_summaries (sp_tables S))" for x
    using p(6) that by (simp add: summary_inv_def list_all_iff summary_row_ok_def)
  ultimately show ?thesis
    using d by (auto simp: validate_snapshot_ok dumpable_def)
qed

lemma document_fits_empty:
  assumes d: "dumpable edim S"
  shows "document_fits (document edim S)"
proof -
  note p = dumpable_parts [OF d]
  have ne: "en_scopes (document edim S) \<noteq> []" using d by (auto simp: dumpable_def)
  then have ids: "document_scopes (document edim S) = scope_ids_of (sp_db S)"
    by (simp add: document_scopes_def scope_ids_of_def)
  have ev: "fst ` set (d_events (sp_db S)) = ev_id ` set (lg_events (su_log (sp_tables S)))"
    using p(2) by (simp add: log_inv_def image_image)
  have "mset (map ev_id (en_events (document edim S))) = mset (map ev_id (lg_events (su_log (sp_tables S))))"
    by (simp add: document_def)
  moreover have "distinct (map ev_id (lg_events (su_log (sp_tables S))))"
    using p(2) by (simp add: log_inv_def strict_sorted_iff)
  ultimately have "distinct (map ev_id (en_events (document edim S)))" by (metis mset_eq_imp_distinct_iff)
  moreover have "distinct (map li_lineage_id (lg_lineage (su_log (sp_tables S))))" "distinct (map s_id (su_summaries (sp_tables S)))"
    using p(2,6) by (simp_all add: log_inv_def summary_inv_def strict_sorted_iff)
  moreover have "distinct (map e_id (map row_to_edge (d_edges (sp_db S))))"
    using db_inv_distinct(2) [OF p(1)] by (simp add: comp_def)
  moreover have "f_base_importance f \<noteq> NaN \<and> f_importance_score f \<noteq> NaN \<and> f_scope_id f \<in> scope_ids_of (sp_db S) \<and>
      (\<forall>ev. f_source_event_id f = Some ev \<longrightarrow> ev \<in> ev_id ` set (lg_events (su_log (sp_tables S))))" if "f \<in> set (d_facts (sp_db S))" for f
    using db_invD(4) [OF p(1) that] by (simp add: fact_row_ok_def ev)
  moreover have "e_weight e \<noteq> NaN \<and> e_source_fact_id e \<in> f_id ` set (d_facts (sp_db S)) \<and> e_target_fact_id e \<in> f_id ` set (d_facts (sp_db S)) \<and>
      e_scope_id e \<in> scope_ids_of (sp_db S)" if "e \<in> set (d_edges (sp_db S))" for e
    using db_invD(5) [OF p(1) that] by (simp add: edge_row_ok_def fact_ids_of_def)
  moreover have "s_scope_id x \<in> scope_ids_of (sp_db S)" if "x \<in> set (su_summaries (sp_tables S))" for x
    using p(6) that by (simp add: summary_inv_def list_all_iff summary_row_ok_def)
  moreover have "ev_scope_id e \<in> scope_ids_of (sp_db S)" if "e \<in> set (lg_events (su_log (sp_tables S)))" for e
    using p(2) that by (simp add: log_inv_def)
  moreover have "distinct (map li_wisdom_fact_id (lg_lineage (su_log (sp_tables S))))"
    "\<forall>r \<in> set (lg_lineage (su_log (sp_tables S))). li_wisdom_fact_id r \<in> f_id ` set (d_facts (sp_db S))"
    using p(2) by (simp_all add: log_inv_def fact_ids_of_def)
  ultimately show ?thesis
    using document_scopes_fit [OF p(3)] db_inv_distinct(1) [OF p(1)]
    unfolding document_fits_def ids by simp
qed

lemma document_is_sound:
  assumes d: "dumpable edim S"
  shows "document_sound (document edim S)"
proof -
  note p = dumpable_parts [OF d]
  have "sort_key sn_id (scopes_in_order (document edim S)) = sc_rows (d_scopes (sp_db S))"
    using p(3) by (intro sort_to_sorted) (simp_all add: scopes_inv_def scopes_in_order_def)
  then have "scope_wf (from_nodes (sort_key sn_id (scopes_in_order (document edim S))))"
    using scopes_inv_wf [OF p(3)] by simp
  moreover have "0 < ev_id e" if "e \<in> set (lg_events (su_log (sp_tables S)))" for e using p(2) that by (simp add: log_inv_def)
  moreover have "0 < f_id f" if "f \<in> set (d_facts (sp_db S))" for f using db_invD(4) [OF p(1) that] by (simp add: fact_row_ok_def)
  moreover have "0 < e_id e" if "e \<in> set (d_edges (sp_db S))" for e using db_invD(5) [OF p(1) that] by (simp add: edge_row_ok_def)
  moreover have "ss_name s \<noteq> fv_space_id v" if "v \<in> set (sp_vectors S)" "s \<in> space_to_snapshot ` set (list_spaces S)"
    "from_sql (ss_status s) = Inr SpaceActive" for v s
  proof -
    from that(2) obtain r where r: "r \<in> set (sp_spaces S)" "s = space_to_snapshot (fst r)" by (auto simp: list_spaces_set)
    with that(3) have "is_active_space r" by (simp add: space_to_snapshot_def as_sql_round_trip is_active_space_def)
    moreover have "vector_ok S v" using p(4) that(1) by (simp add: vectors_inv_def list_all_iff)
    ultimately show ?thesis using r by (auto simp: vector_ok_def space_to_snapshot_def)
  qed
  ultimately show ?thesis by (simp add: document_sound_def)
qed

subsection \<open>The round trip\<close>

definition registry_of :: "space_store \<Rightarrow> time \<Rightarrow> (embedding_space \<times> time) list" where
  "registry_of S created = map (\<lambda>s. (s, created)) (list_spaces S)"

lemma registry_inv:
  assumes "spaces_inv (sp_spaces S)"
  shows "spaces_inv (registry_of S created)" "active_fingerprint (registry_of S created) = active_fingerprint (sp_spaces S)"
proof -
  let ?act = "\<lambda>s. es_status s = SpaceActive"
  have m: "mset (list_spaces S) = mset (map fst (sp_spaces S))" by (simp add: list_spaces_def)
  have names: "map (es_name \<circ> fst) (registry_of S created) = map es_name (list_spaces S)"
    by (simp add: registry_of_def comp_def)
  have "mset (map es_name (list_spaces S)) = mset (map es_name (map fst (sp_spaces S)))" unfolding mset_map m ..
  moreover have "distinct (map es_name (map fst (sp_spaces S)))" using assms by (simp add: spaces_inv_def comp_def)
  ultimately have "distinct (map es_name (list_spaces S))" by (metis mset_eq_imp_distinct_iff)
  moreover have af: "map fst (filter is_active_space rows) = filter ?act (map fst rows)" for rows
    by (induction rows) (auto simp: is_active_space_def)
  have fm: "mset (map fst (filter is_active_space (registry_of S created))) = mset (map fst (filter is_active_space (sp_spaces S)))"
  proof -
    have "map fst (registry_of S created) = list_spaces S" by (simp add: registry_of_def comp_def)
    then show ?thesis unfolding af mset_filter by (simp add: m)
  qed
  then have "length (filter is_active_space (registry_of S created)) = length (filter is_active_space (sp_spaces S))"
    by (metis length_map size_mset)
  ultimately show i: "spaces_inv (registry_of S created)"
    using assms by (simp add: spaces_inv_def names)
  have hd_find: "List.find p xs = (case filter p xs of [] \<Rightarrow> None | x # _ \<Rightarrow> Some x)" for p :: "'z \<Rightarrow> bool" and xs
    by (induction xs) auto
  have "length (filter is_active_space (sp_spaces S)) \<le> 1" "length (filter is_active_space (registry_of S created)) \<le> 1"
    using assms i by (simp_all add: spaces_inv_def)
  with fm have "map fst (filter is_active_space (registry_of S created)) = map fst (filter is_active_space (sp_spaces S))"
    by (cases "filter is_active_space (registry_of S created)"; cases "filter is_active_space (sp_spaces S)") auto
  then show "active_fingerprint (registry_of S created) = active_fingerprint (sp_spaces S)"
    unfolding active_fingerprint_def hd_find by (auto split: list.splits)
qed

lemma restore_document:
  assumes d: "dumpable edim S"
  shows "restore_snapshot_into read_fp created (document edim S) fresh_store =
    (Inr (), snd (reset_sequences (document edim S) (filled (document edim S) (registry_of S created))))"
proof -
  note p = dumpable_parts [OF d]
  let ?doc = "document edim S" and ?rows = "registry_of S created"
  let ?S1 = "fresh_store\<lparr>sp_tables := loaded ?doc\<rparr>"
  have tables: "on_summaries (restore_tables ?doc) fresh_store = (Inr (), ?S1)"
    using document_fits_empty [OF d] by (simp add: on_summaries_def restore_tables_iff [THEN iffD2])
  have rows: "map (\<lambda>s. (restored_space s, created)) (en_spaces ?doc) = ?rows"
    by (simp add: registry_of_def restored_space_snapshot)
  have e: "spaces_inv (sp_spaces ?S1)" "d_identity (sp_db ?S1) = active_fingerprint (sp_spaces ?S1)"
    by (simp_all add: fresh_store_def spaces_inv_def active_fingerprint_def)
  have seq: "reset_sequences ?doc T = (Inr (), snd (reset_sequences ?doc T))" for T
    by (simp add: prod_eq_iff reset_simps)
  have "restore_embedding_spaces read_fp created ?doc ?S1 = (Inr (), set_spaces ?rows ?S1)"
  proof (cases "list_spaces S = []")
    case True
    have "map_of (en_config ?doc) ''embedding_meta'' = None"
      using d by (simp add: map_of_eq_None_iff dumpable_def)
    moreover have "set_spaces [] ?S1 = ?S1" by (simp add: set_spaces_def map_db_def active_fingerprint_def fresh_store_def loaded_def)
    ultimately show ?thesis using True by (simp add: restore_embedding_spaces_def registry_of_def)
  next
    case False
    have "op_each (restore_space created) (en_spaces ?doc) ?S1 = (Inr (), set_spaces ?rows ?S1)"
      unfolding restore_spaces_iff [OF e] rows
      using registry_inv(1) [OF p(5)] d
      by (auto simp: fresh_store_def space_to_snapshot_def as_sql_round_trip list_spaces_set dumpable_def)
    with False show ?thesis by (simp add: restore_embedding_spaces_def)
  qed
  moreover have "op_each restore_fact_vector (en_vectors ?doc) (set_spaces ?rows ?S1) = (Inr (), filled ?doc ?rows)"
  proof -
    have "mset (map (\<lambda>v. (fv_fact_id v, fv_space_id v)) (en_vectors ?doc)) = mset (map (\<lambda>v. (fv_fact_id v, fv_space_id v)) (sp_vectors S))"
      by (simp add: document_def)
    moreover have "distinct (map (\<lambda>v. (fv_fact_id v, fv_space_id v)) (sp_vectors S))" using p(4) by (simp add: vectors_inv_def)
    ultimately have "distinct (map (\<lambda>v. (fv_fact_id v, fv_space_id v)) (en_vectors ?doc))" by (metis mset_eq_imp_distinct_iff)
    moreover have "fv_fact_id v \<in> f_id ` set (d_facts (sp_db S)) \<and> fv_space_id v \<in> es_name ` set (list_spaces S)" if "v \<in> set (sp_vectors S)" for v
      using p(4) that by (simp add: vectors_inv_def list_all_iff vector_ok_def fact_ids_of_def space_names_def list_spaces_set image_comp)
    ultimately show ?thesis
      unfolding restore_vectors_iff
      by (simp add: filled_def has_vector_def fresh_store_def registry_of_def image_image)
  qed
  ultimately have "restore_rows read_fp created ?doc fresh_store = (Inr (), snd (reset_sequences ?doc (filled ?doc ?rows)))"
    using tables seq by (simp add: restore_rows_def op_bind_def)
  moreover have "assert_empty_db fresh_store = Inr ()" by (simp add: assert_empty_db_def fresh_store_def init_scopes_def)
  ultimately show ?thesis
    by (simp add: restore_snapshot_into_def op_bind_def transaction_def document_validates [OF d])
qed

definition restored_copy :: "space_store \<Rightarrow> space_store \<Rightarrow> bool" where
  \<comment> \<open>the rows of all tables; the times at which the spaces were created and the managed keys are new\<close>
  "restored_copy S S' \<longleftrightarrow>
     sc_rows (d_scopes (sp_db S')) = sc_rows (d_scopes (sp_db S)) \<and>
     lg_events (su_log (sp_tables S')) = lg_events (su_log (sp_tables S)) \<and>
     d_facts (sp_db S') = d_facts (sp_db S) \<and> list_all_edges (sp_db S') = list_all_edges (sp_db S) \<and>
     su_summaries (sp_tables S') = su_summaries (sp_tables S) \<and>
     lg_lineage (su_log (sp_tables S')) = lg_lineage (su_log (sp_tables S)) \<and>
     map fst (sp_spaces S') = list_spaces S \<and> d_identity (sp_db S') = d_identity (sp_db S) \<and>
     set (sp_vectors S') = set (sp_vectors S) \<and>
     (\<forall>k. k \<notin> set managed_config_keys \<longrightarrow> get_config (su_log (sp_tables S')) k = get_config (su_log (sp_tables S)) k)"

lemma row_to_edge_twice: "row_to_edge (row_to_edge e) = row_to_edge e"
  by (simp add: row_to_edge_def as_str_relation_from)

lemma set_spaces_logs [simp]:
  "lg_config (su_log (sp_tables (set_spaces rows S))) = lg_config (su_log (sp_tables S))"
  "lg_events (su_log (sp_tables (set_spaces rows S))) = lg_events (su_log (sp_tables S))"
  "lg_lineage (su_log (sp_tables (set_spaces rows S))) = lg_lineage (su_log (sp_tables S))"
  by (simp_all add: set_spaces_def)

lemma restored_document_copy:
  assumes d: "dumpable edim S"
  shows "restored_copy S (snd (reset_sequences (document edim S) (filled (document edim S) (registry_of S created))))"
proof -
  note p = dumpable_parts [OF d]
  let ?doc = "document edim S"
  have sorts: "sort_key f_id (d_facts (sp_db S)) = d_facts (sp_db S)"
    "sort_key s_id (su_summaries (sp_tables S)) = su_summaries (sp_tables S)"
    "sort_key li_lineage_id (lg_lineage (su_log (sp_tables S))) = lg_lineage (su_log (sp_tables S))"
    "sort_key ev_id (en_events ?doc) = lg_events (su_log (sp_tables S))"
    "sort_key sn_id (scopes_in_order ?doc) = sc_rows (d_scopes (sp_db S))"
    using db_invD(2) [OF p(1)] p(2,3,6)
    by (simp_all add: sort_to_sorted summary_inv_def log_inv_def scopes_inv_def scopes_in_order_def document_def)
  have es: "sort_key e_id (d_edges (sp_db S)) = d_edges (sp_db S)"
    using db_invD(3) [OF p(1)] by (simp add: sort_to_sorted)
  have "e_id \<circ> row_to_edge = e_id" by (rule ext) simp
  then have es2: "sort_key e_id (map row_to_edge (d_edges (sp_db S))) = map row_to_edge (d_edges (sp_db S))"
    unfolding sort_key_map by (simp add: es)
  have edges: "list_all_edges (sp_db S') = list_all_edges (sp_db S)" if "d_edges (sp_db S') = map row_to_edge (d_edges (sp_db S))" for S'
    using that es2 by (simp add: list_all_edges_def es row_to_edge_twice comp_def)
  have ne: "en_scopes ?doc \<noteq> []" using d by (auto simp: dumpable_def)
  have dist: "distinct (map fst (lg_config (su_log (sp_tables S))))" using d by (simp add: dumpable_def)
  have "map_of (config_entries (su_log (sp_tables S))) = map_of (lg_config (su_log (sp_tables S)))"
    by (rule map_of_inject_set [THEN iffD2]) (use dist in \<open>simp_all add: config_entries_def distinct_map\<close>)
  moreover have "distinct (map fst (en_config ?doc))" using dist by (simp add: document_def config_entries_def distinct_map)
  moreover have "en_config ?doc = config_entries (su_log (sp_tables S))" by (simp add: document_def)
  ultimately have config: "map_of (import_config (en_config ?doc) (lg_config (su_log (sp_tables fresh_store)))) k = map_of (lg_config (su_log (sp_tables S))) k"
    if "k \<notin> set managed_config_keys" for k
    using that by (auto simp: import_config_get fresh_store_def managed_config_keys_def map_of_eq_None_iff [symmetric])
  have lc: "lg_config (su_log (loaded ?doc)) = import_config (en_config ?doc) (lg_config (su_log (sp_tables fresh_store)))"
    by (simp add: loaded_def)
  have "loaded_scopes ?doc = \<lparr>sc_rows = sc_rows (d_scopes (sp_db S)), sc_seq = fold max (map sn_id (scopes_in_order ?doc)) 1\<rparr>"
    using ne by (simp add: loaded_scopes_def sorts)
  then show ?thesis
    unfolding restored_copy_def reset_simps
    using registry_inv(2) [OF p(5)] p(4) config
    by (auto simp: filled_def sorts lc es2 vectors_inv_def registry_of_def comp_def get_config_def reset_simps intro!: edges)
qed

end
