(* ===== verification/Restore_Properties.thy ===== *)
theory Restore_Properties
  imports Restore_Dump Space_Properties
begin

text \<open>
  The properties of dump and restore, with the store with two facts of \<open>Space_Properties\<close> as their example.
\<close>

subsection \<open>The example\<close>

lemma ex_spaces_dumpable: "dumpable 1 ex_spaces"
proof -
  have "is_root_row \<lparr>sn_id = 1, sn_parent_id = None, sn_label = ''root'', sn_depth = 0\<rparr>" by (simp add: is_root_row_def)
  then show ?thesis
    using ex_spaces_inv unfolding dumpable_def
    by (simp add: document_def config_number_def get_config_def)
      (simp add: ex_spaces_def ex_log_def ex_db_def init_scopes_def ex_default_space_def ex_identity_def ex_embedder_def dims_to_sql_def i64_max_def)
qed






subsection \<open>The properties\<close>



text \<open>C24: whatever document a restore into an empty store accepts, the restored store satisfies the invariants of
  every table at the dimension of the document: keys, foreign keys, widths, at most one active space, the
  sequences; the document only has to be sound in what no check covers (\<open>document_sound\<close>): its scopes form a
  tree, its ids are positive, and no vector is staged for an active space.\<close>

theorem restored_store_sound:
  assumes "restore_snapshot_into read_fp created snap fresh_store = (Inr (), S')" "document_sound snap"
  shows "space_inv (en_embed_dim snap) S' \<and> summary_inv (en_embed_dim snap) (sp_tables S')"
  using restored_sound [OF assms] by blast

theorem restored_store_sound_witness:
  "\<exists>S'. restore_snapshot_into (\<lambda>s. Inl s) 7 (document 1 ex_spaces) fresh_store = (Inr (), S') \<and>
    space_inv 1 S' \<and> summary_inv 1 (sp_tables S')"
  using restored_store_sound [OF restore_document [OF ex_spaces_dumpable] document_is_sound [OF ex_spaces_dumpable]]
    restore_document [OF ex_spaces_dumpable, of "\<lambda>s. Inl s" 7] by auto

definition ex_bad_scope :: scope_node where
  "ex_bad_scope = \<lparr>sn_id = 2, sn_parent_id = Some 1, sn_label = ''a/b'', sn_depth = 7\<rparr>"

definition ex_bad_scopes :: engine_snapshot where
  "ex_bad_scopes = \<lparr>en_schema_version = 14, en_storage_epoch = 1, en_embed_dim = 1, en_facts = [], en_edges = [],
     en_summaries = [], en_scopes = [\<lparr>sn_id = 1, sn_parent_id = None, sn_label = ''root'', sn_depth = 0\<rparr>, ex_bad_scope],
     en_events = [], en_lineage = [], en_spaces = [], en_vectors = [], en_config = []\<rparr>"



text \<open>C28: reading with a cap is exact. With a parser that consumes the whole input when it succeeds, a stream of at
  most the cap gives what the parser makes of it; a longer one is never accepted, and is reported as too large
  exactly when the parser consumed all it was given, an earlier syntax error being reported as itself.\<close>

theorem read_capped_exact:
  assumes "\<And>s. snd (parse s) \<le> length s" "\<And>s x. fst (parse s) = Inr x \<Longrightarrow> snd (parse s) = length s" "cap < u64_max"
  shows "read_capped parse reader cap =
      (if length reader \<le> cap then fst (parse reader)
       else if snd (parse (take (cap + 1) reader)) = cap + 1 then Inl (SnapshotTooLarge cap)
       else fst (parse (take (cap + 1) reader))) \<and>
    (length reader \<le> cap \<or> \<not> is_ok (read_capped parse reader cap))"
proof -
  have m: "min (cap + 1) u64_max = cap + 1" using assms(3) by simp
  have r: "read_capped parse reader cap = (if cap + 1 - snd (parse (take (cap + 1) reader)) = 0 then Inl (SnapshotTooLarge cap)
      else fst (parse (take (cap + 1) reader)))"
    unfolding read_capped_def Let_def m by (cases "parse (take (cap + 1) reader)") simp
  show ?thesis
  proof (cases "length reader \<le> cap")
    case True
    then have "take (cap + 1) reader = reader" by simp
    with True assms(1) [of reader] show ?thesis unfolding r by simp
  next
    case False
    then have l: "length (take (cap + 1) reader) = cap + 1" by simp
    with assms(1) [of "take (cap + 1) reader"] have c: "snd (parse (take (cap + 1) reader)) \<le> cap + 1" by simp
    have "\<not> is_ok (read_capped parse reader cap)"
    proof (cases "fst (parse (take (cap + 1) reader))")
      case (Inr x)
      with assms(2) l have "snd (parse (take (cap + 1) reader)) = cap + 1" by metis
      then show ?thesis unfolding r by (simp add: is_ok_iff)
    qed (unfold r, auto simp: is_ok_iff)
    with False c show ?thesis unfolding r by auto
  qed
qed

theorem read_capped_exact_witness:
  "read_capped (\<lambda>s. (Inr ex_bad_scopes, length s)) ''ab'' 2 = Inr ex_bad_scopes \<and>
   read_capped (\<lambda>s. (Inr ex_bad_scopes, length s)) ''abc'' 2 = Inl (SnapshotTooLarge 2)"
  using read_capped_exact [of "\<lambda>s. (Inr ex_bad_scopes, length s)" 2 "''ab''"]
    read_capped_exact [of "\<lambda>s. (Inr ex_bad_scopes, length s)" 2 "''abc''"]
  by (simp add: u64_max_def)


end
