(* ===== verification/Activity_Store.thy ===== *)
theory Activity_Store
  imports Reconstruct
begin

text \<open>
  The activity stream and the session checkpoints: the types of \<open>me-types/src/types/activity.rs\<close> and the
  tables \<open>activities\<close> and \<open>session_checkpoints\<close> beside \<open>db\<close> in the record \<open>session_store\<close>
  (\<open>me-backend-sqlite/src/store/activities.rs\<close>, \<open>store/checkpoints.rs\<close>).

  A column that holds the text of an enum holds the value its text is read as. \<open>julianday\<close> is taken as
  exact. Rows that compare equal in an \<open>ORDER BY\<close> keep their order in the table.
\<close>

datatype activity_status = Recorded | Deduplicated | Ignored | Promoted

fun status_text :: "activity_status \<Rightarrow> string" where
  "status_text Recorded = ''recorded''"
| "status_text Deduplicated = ''deduplicated''"
| "status_text Ignored = ''ignored''"
| "status_text Promoted = ''promoted''"

definition status_of_text :: "string \<Rightarrow> string + activity_status" where
  "status_of_text s =
     (if s = ''recorded'' then Inr Recorded
      else if s = ''deduplicated'' then Inr Deduplicated
      else if s = ''ignored'' then Inr Ignored
      else if s = ''promoted'' then Inr Promoted
      else Inl s)"

datatype outcome_class = OutcomeSuccess | OutcomeError | OutcomeTestFailure | OutcomeOther string

fun outcome_text :: "outcome_class \<Rightarrow> string" where
  "outcome_text OutcomeSuccess = ''success''"
| "outcome_text OutcomeError = ''error''"
| "outcome_text OutcomeTestFailure = ''test_failure''"
| "outcome_text (OutcomeOther s) = s"

definition outcome_of_text :: "string \<Rightarrow> outcome_class" where
  "outcome_of_text s =
     (if s = ''success'' then OutcomeSuccess
      else if s = ''error'' then OutcomeError
      else if s = ''test_failure'' then OutcomeTestFailure
      else OutcomeOther s)"

record activity =
  ac_id :: int
  ac_session_id :: string
  ac_tool_name :: string
  ac_args_hash :: string
  ac_args :: json
  ac_result_summary :: "string option"
  ac_outcome_class :: outcome_class
  ac_status :: activity_status
  ac_occurrence_count :: int
  ac_first_seen :: time
  ac_last_seen :: time
  ac_scope_id :: int
  ac_promoted_fact_id :: "int option"

record new_activity =
  na_session_id :: string
  na_tool_name :: string
  na_args_hash :: string
  na_args :: json
  na_result_summary :: "string option"
  na_outcome_class :: outcome_class
  na_timestamp :: time
  na_scope_id :: int

record session_checkpoint =
  cp_session_id :: string
  cp_scope_path :: "string option"
  cp_summary :: "string option"
  cp_last_activity_id :: "int option"
  cp_checkpoint_at :: time
  cp_metadata :: json

record session_store =
  se_db :: db
  se_activities :: "activity list"
  se_activity_seq :: int
  se_checkpoints :: "session_checkpoint list"

definition on_session_db :: "(db, 'a) op \<Rightarrow> (session_store, 'a) op" where
  \<comment> \<open>an operation on facts, edges and scopes, on the same connection\<close>
  "on_session_db m S = (case m (se_db S) of (r, D) \<Rightarrow> (r, S\<lparr>se_db := D\<rparr>))"

subsection \<open>Activities\<close>

definition nanos_per_second :: int where "nanos_per_second = 1000000000"

definition same_activity :: "new_activity \<Rightarrow> activity \<Rightarrow> bool" where
  \<comment> \<open>the key of the deduplication\<close>
  "same_activity na a \<longleftrightarrow> ac_session_id a = na_session_id na \<and> ac_tool_name a = na_tool_name na \<and>
     ac_args_hash a = na_args_hash na \<and>
     outcome_text (ac_outcome_class a) = outcome_text (na_outcome_class na) \<and>
     ac_scope_id a = na_scope_id na"

definition in_dedup_window :: "new_activity \<Rightarrow> int \<Rightarrow> activity \<Rightarrow> bool" where
  "in_dedup_window na window a \<longleftrightarrow> na_timestamp na - ac_last_seen a < window * nanos_per_second"

definition dedup_candidate :: "new_activity \<Rightarrow> int \<Rightarrow> activity \<Rightarrow> bool" where
  "dedup_candidate na window a \<longleftrightarrow> same_activity na a \<and>
     ac_status a \<in> {Recorded, Deduplicated, Promoted} \<and> in_dedup_window na window a"

definition find_existing :: "new_activity \<Rightarrow> int \<Rightarrow> session_store \<Rightarrow> activity option" where
  "find_existing na window S =
     (case sort_key (\<lambda>a. - ac_last_seen a) (filter (dedup_candidate na window) (se_activities S)) of
        [] \<Rightarrow> None
      | a # _ \<Rightarrow> Some a)"

definition seen_again :: "new_activity \<Rightarrow> int \<Rightarrow> activity \<Rightarrow> activity" where
  "seen_again na n a = a\<lparr>
     ac_occurrence_count := n + 1,
     ac_last_seen := na_timestamp na,
     ac_status := (if ac_status a = Promoted then Promoted else Deduplicated),
     ac_result_summary := (case na_result_summary na of None \<Rightarrow> ac_result_summary a | Some r \<Rightarrow> Some r)\<rparr>"

definition update_activities ::
    "int \<Rightarrow> (activity \<Rightarrow> activity) \<Rightarrow> session_store \<Rightarrow> session_store" where
  "update_activities i g S =
     S\<lparr>se_activities := map (\<lambda>a. if ac_id a = i then g a else a) (se_activities S)\<rparr>"

definition new_activity_row :: "int \<Rightarrow> new_activity \<Rightarrow> activity" where
  "new_activity_row i na = \<lparr>ac_id = i, ac_session_id = na_session_id na, ac_tool_name = na_tool_name na,
     ac_args_hash = na_args_hash na, ac_args = na_args na, ac_result_summary = na_result_summary na,
     ac_outcome_class = outcome_of_text (outcome_text (na_outcome_class na)), ac_status = Recorded,
     ac_occurrence_count = 1, ac_first_seen = na_timestamp na, ac_last_seen = na_timestamp na,
     ac_scope_id = na_scope_id na, ac_promoted_fact_id = None\<rparr>"

definition insert_or_dedup :: "new_activity \<Rightarrow> int \<Rightarrow> (session_store, int \<times> bool) op" where
  "insert_or_dedup na window S =
     (case find_existing na window S of
        Some a \<Rightarrow> (Inr (ac_id a, True), update_activities (ac_id a) (seen_again na (ac_occurrence_count a)) S)
      | None \<Rightarrow>
          if na_scope_id na \<notin> scope_ids_of (se_db S) then (Inl foreign_key_error, S)
          else let i = se_activity_seq S + 1 in
            (Inr (i, False), S\<lparr>se_activities := se_activities S @ [new_activity_row i na], se_activity_seq := i\<rparr>))"

definition activity_not_found :: "int \<Rightarrow> memory_error" where
  "activity_not_found i = NotFound (Fmt ''activity {}'' [AInt i])"

definition activity_get :: "session_store \<Rightarrow> int \<Rightarrow> activity result" where
  "activity_get S i = (case List.find (\<lambda>a. ac_id a = i) (se_activities S) of
      None \<Rightarrow> Inl (activity_not_found i) | Some a \<Rightarrow> Inr a)"

definition list_by_session :: "session_store \<Rightarrow> string \<Rightarrow> nat option \<Rightarrow> activity list" where
  "list_by_session S session_id limit =
     (let rows = sort_key (\<lambda>a. - ac_last_seen a) (filter (\<lambda>a. ac_session_id a = session_id) (se_activities S))
      in case limit of None \<Rightarrow> rows | Some n \<Rightarrow> sql_limit n rows)"

definition list_recent_by_scope :: "session_store \<Rightarrow> int list \<Rightarrow> nat \<Rightarrow> activity list result" where
  \<comment> \<open>here the limit is bound as it is, and a \<open>usize\<close> above the range of \<open>i64\<close> is an error\<close>
  "list_recent_by_scope S scope_ids limit =
     (if scope_ids = [] then Inr []
      else if i64_max < limit then Inl (backend_error ''out of range integral type conversion attempted'')
      else Inr (take limit (sort_key (\<lambda>a. - ac_last_seen a)
        (filter (\<lambda>a. ac_scope_id a \<in> set scope_ids) (se_activities S)))))"

definition update_status :: "int \<Rightarrow> activity_status \<Rightarrow> int option \<Rightarrow> (session_store, unit) op" where
  "update_status i status promoted S =
     (if i \<notin> ac_id ` set (se_activities S) then (Inl (activity_not_found i), S)
      else if (case promoted of None \<Rightarrow> False | Some f \<Rightarrow> f \<notin> fact_ids_of (se_db S)) then (Inl foreign_key_error, S)
      else (Inr (), update_activities i (\<lambda>a. a\<lparr>ac_status := status, ac_promoted_fact_id := promoted\<rparr>) S))"

definition count_by_session :: "session_store \<Rightarrow> string \<Rightarrow> int" where
  "count_by_session S session_id = int (length (filter (\<lambda>a. ac_session_id a = session_id) (se_activities S)))"

subsection \<open>Checkpoints\<close>

definition upsert_checkpoint :: "session_checkpoint \<Rightarrow> (session_store, unit) op" where
  "upsert_checkpoint c S =
     (if (case cp_last_activity_id c of None \<Rightarrow> False | Some i \<Rightarrow> i \<notin> ac_id ` set (se_activities S))
      then (Inl foreign_key_error, S)
      else (Inr (), S\<lparr>se_checkpoints :=
        (if cp_session_id c \<in> cp_session_id ` set (se_checkpoints S)
         then map (\<lambda>d. if cp_session_id d = cp_session_id c then c else d) (se_checkpoints S)
         else se_checkpoints S @ [c])\<rparr>))"

definition get_checkpoint :: "session_store \<Rightarrow> string \<Rightarrow> session_checkpoint option" where
  "get_checkpoint S session_id = List.find (\<lambda>c. cp_session_id c = session_id) (se_checkpoints S)"

definition get_checkpoint_by_scope :: "session_store \<Rightarrow> string \<Rightarrow> session_checkpoint option" where
  "get_checkpoint_by_scope S scope_path =
     (case sort_key (\<lambda>c. - cp_checkpoint_at c)
         (filter (\<lambda>c. cp_scope_path c = Some scope_path) (se_checkpoints S)) of
        [] \<Rightarrow> None | c # _ \<Rightarrow> Some c)"

definition list_recent_checkpoints :: "session_store \<Rightarrow> nat \<Rightarrow> session_checkpoint list" where
  "list_recent_checkpoints S limit =
     sql_limit limit (rev (sort_key (\<lambda>c. (cp_checkpoint_at c, cp_session_id c)) (se_checkpoints S)))"

subsection \<open>The invariant\<close>

definition activity_ok :: "session_store \<Rightarrow> activity \<Rightarrow> bool" where
  "activity_ok S a \<longleftrightarrow> ac_id a \<le> se_activity_seq S \<and> 1 \<le> ac_occurrence_count a \<and>
     ac_scope_id a \<in> scope_ids_of (se_db S) \<and>
     (case ac_promoted_fact_id a of None \<Rightarrow> True | Some f \<Rightarrow> f \<in> fact_ids_of (se_db S))"

definition checkpoint_ok :: "session_store \<Rightarrow> session_checkpoint \<Rightarrow> bool" where
  "checkpoint_ok S c \<longleftrightarrow>
     (case cp_last_activity_id c of None \<Rightarrow> True | Some i \<Rightarrow> i \<in> ac_id ` set (se_activities S))"

definition session_inv :: "session_store \<Rightarrow> bool" where
  "session_inv S \<longleftrightarrow> sorted_wrt (<) (map ac_id (se_activities S)) \<and> 0 \<le> se_activity_seq S \<and>
     (\<forall>a \<in> set (se_activities S). activity_ok S a) \<and>
     distinct (map cp_session_id (se_checkpoints S)) \<and> (\<forall>c \<in> set (se_checkpoints S). checkpoint_ok S c)"

lemma status_text_roundtrip [simp]: "status_of_text (status_text s) = Inr s"
  by (cases s) (simp_all add: status_of_text_def)

lemma outcome_text_roundtrip [simp]: "outcome_text (outcome_of_text s) = s"
  by (simp add: outcome_of_text_def)

lemma dedup_candidate_iff:
  "dedup_candidate na window a \<longleftrightarrow> same_activity na a \<and> ac_status a \<noteq> Ignored \<and> in_dedup_window na window a"
  by (cases "ac_status a") (simp_all add: dedup_candidate_def)

lemma first_of_sorted:
  assumes "(case sort_key k xs of [] \<Rightarrow> None | a # _ \<Rightarrow> Some a) = Some x"
  shows "x \<in> set xs" "\<forall>y \<in> set xs. k x \<le> k y"
proof -
  obtain rest where l: "sort_key k xs = x # rest" using assms by (cases "sort_key k xs") simp_all
  have s: "set xs = set (x # rest)" by (metis l set_sort)
  then show "x \<in> set xs" by simp
  have "sorted (map k (x # rest))" by (metis l sorted_sort_key)
  then show "\<forall>y \<in> set xs. k x \<le> k y" unfolding s by simp
qed

lemma find_existing_Some:
  assumes "find_existing na window S = Some a"
  shows "a \<in> set (se_activities S)" "same_activity na a" "ac_status a \<noteq> Ignored" "in_dedup_window na window a"
    and "b \<in> set (se_activities S) \<Longrightarrow> dedup_candidate na window b \<Longrightarrow> ac_last_seen b \<le> ac_last_seen a"
  using first_of_sorted [OF assms [unfolded find_existing_def]] by (auto simp: dedup_candidate_iff)

lemma find_existing_None:
  "find_existing na window S = None \<longleftrightarrow> (\<forall>a \<in> set (se_activities S). \<not> dedup_candidate na window a)"
proof -
  have "find_existing na window S = None \<longleftrightarrow>
      sort_key (\<lambda>a. - ac_last_seen a) (filter (dedup_candidate na window) (se_activities S)) = []"
    unfolding find_existing_def by (simp split: list.split)
  also have "\<dots> \<longleftrightarrow> filter (dedup_candidate na window) (se_activities S) = []"
    by (metis length_0_conv length_sort)
  finally show ?thesis by (simp add: filter_empty_conv)
qed

subsection \<open>What the operations keep and change\<close>

lemma activity_ids_distinct:
  assumes "session_inv S" shows "distinct (map ac_id (se_activities S))"
  using assms strict_sorted_iff [of "map ac_id (se_activities S)"] by (simp add: session_inv_def)

lemma update_activities_simps [simp]:
  "se_db (update_activities i g S) = se_db S" "se_activity_seq (update_activities i g S) = se_activity_seq S"
  "se_checkpoints (update_activities i g S) = se_checkpoints S"
  "set (se_activities (update_activities i g S)) = (\<lambda>a. if ac_id a = i then g a else a) ` set (se_activities S)"
  by (simp_all add: update_activities_def)

lemma activity_ok_update [simp]: "activity_ok (update_activities i g S) a \<longleftrightarrow> activity_ok S a"
  by (simp add: activity_ok_def split: option.split)

lemma update_activities_inv:
  assumes "session_inv S" "\<And>a. a \<in> set (se_activities S) \<Longrightarrow> ac_id a = i \<Longrightarrow> activity_ok S (g a) \<and> ac_id (g a) = ac_id a"
  shows "session_inv (update_activities i g S)"
proof -
  let ?S = "update_activities i g S"
  have ids: "map ac_id (se_activities ?S) = map ac_id (se_activities S)"
    using assms(2) by (auto simp: update_activities_def)
  then have s: "ac_id ` set (se_activities ?S) = ac_id ` set (se_activities S)" by (metis set_map)
  have "activity_ok ?S a" if "a \<in> set (se_activities ?S)" for a
    using that assms by (auto simp: session_inv_def)
  moreover have "checkpoint_ok ?S c \<longleftrightarrow> checkpoint_ok S c" for c unfolding checkpoint_ok_def s ..
  ultimately show ?thesis using assms(1) unfolding session_inv_def ids by simp
qed

lemma insert_or_dedup_inv:
  assumes "session_inv S" shows "session_inv (snd (insert_or_dedup na window S))"
proof (cases "find_existing na window S")
  case (Some a)
  have "activity_ok S a" using assms find_existing_Some(1) [OF Some] by (simp add: session_inv_def)
  moreover have "b = a" if "b \<in> set (se_activities S)" "ac_id b = ac_id a" for b
    using activity_ids_distinct [OF assms] that find_existing_Some(1) [OF Some] by (meson distinct_map inj_onD)
  ultimately have "session_inv (update_activities (ac_id a) (seen_again na (ac_occurrence_count a)) S)"
    by (intro update_activities_inv [OF assms]) (auto simp: activity_ok_def seen_again_def)
  then show ?thesis by (simp add: insert_or_dedup_def Some)
next
  case None
  show ?thesis
  proof (cases "na_scope_id na \<in> scope_ids_of (se_db S)")
    case True
    have "\<forall>a \<in> set (se_activities S). ac_id a \<le> se_activity_seq S"
      using assms by (simp add: session_inv_def activity_ok_def)
    with True assms None show ?thesis
      by (auto simp: insert_or_dedup_def session_inv_def Let_def sorted_wrt_append activity_ok_def new_activity_row_def
          checkpoint_ok_def split: option.splits)
  qed (use assms None in \<open>simp add: insert_or_dedup_def\<close>)
qed

lemma update_status_inv:
  assumes "session_inv S" shows "session_inv (snd (update_status i status promoted S))"
proof -
  have "session_inv (update_activities i (\<lambda>a. a\<lparr>ac_status := status, ac_promoted_fact_id := promoted\<rparr>) S)"
    if "\<not> (case promoted of None \<Rightarrow> False | Some f \<Rightarrow> f \<notin> fact_ids_of (se_db S))"
    using that assms by (intro update_activities_inv) (auto simp: session_inv_def activity_ok_def split: option.splits)
  then show ?thesis using assms by (simp add: update_status_def)
qed

lemma upsert_checkpoint_inv:
  assumes "session_inv S" shows "session_inv (snd (upsert_checkpoint c S))"
proof -
  have "map cp_session_id (map (\<lambda>d. if cp_session_id d = cp_session_id c then c else d) cs) = map cp_session_id cs" for cs
    by simp
  then have "distinct (map cp_session_id (map (\<lambda>d. if cp_session_id d = cp_session_id c then c else d) (se_checkpoints S)))"
    using assms unfolding session_inv_def by metis
  then show ?thesis using assms
    by (auto simp: upsert_checkpoint_def session_inv_def activity_ok_def checkpoint_ok_def split: option.splits if_splits)
qed

text \<open>The counts of the rows add up to the number of the recorded calls.\<close>

definition occurrences :: "session_store \<Rightarrow> int" where
  "occurrences S = sum_list (map ac_occurrence_count (se_activities S))"

lemma sum_list_update_one:
  "x \<in> set xs \<Longrightarrow> distinct (map k xs) \<Longrightarrow>
     sum_list (map (\<lambda>y. h (if k y = k x then g y else y)) xs) = sum_list (map h xs) - h x + (h (g x) :: int)"
proof (induction xs)
  case (Cons y ys)
  show ?case
  proof (cases "y = x")
    case True
    have "map (\<lambda>y. h (if k y = k x then g y else y)) ys = map h ys"
      using Cons.prems True by (auto simp: image_iff)
    then show ?thesis using True by (simp del: map_eq_conv)
  next
    case False
    with Cons.prems have "x \<in> set ys" "k y \<noteq> k x" by (auto simp: image_iff)
    with Cons show ?thesis by simp
  qed
qed simp

lemma insert_or_dedup_counts:
  assumes "session_inv S" "insert_or_dedup na window S = (Inr r, S')"
  shows "occurrences S' = occurrences S + 1"
proof (cases "find_existing na window S")
  case (Some a)
  have *: "map (\<lambda>y. ac_occurrence_count (if ac_id y = ac_id a then seen_again na (ac_occurrence_count a) y else y))
        (se_activities S) = map ac_occurrence_count (se_activities S')"
    using assms(2) by (auto simp: insert_or_dedup_def Some update_activities_def)
  have "occurrences S' = occurrences S - ac_occurrence_count a + ac_occurrence_count (seen_again na (ac_occurrence_count a) a)"
    using sum_list_update_one [OF find_existing_Some(1) [OF Some] activity_ids_distinct [OF assms(1)],
        of ac_occurrence_count "seen_again na (ac_occurrence_count a)"]
    unfolding occurrences_def * [symmetric] .
  then show ?thesis by (simp add: seen_again_def)
qed (use assms(2) in \<open>auto simp: insert_or_dedup_def Let_def occurrences_def new_activity_row_def split: if_splits\<close>)

lemma insert_or_dedup_error: "insert_or_dedup na window S = (Inl e, S') \<Longrightarrow> S' = S"
  by (auto simp: insert_or_dedup_def Let_def split: option.splits if_splits)

lemma insert_or_dedup_db: "insert_or_dedup na window S = (r, S') \<Longrightarrow> se_db S' = se_db S"
  by (auto simp: insert_or_dedup_def update_activities_def Let_def split: option.splits if_splits)

end
