(* ===== verification/Activity.thy ===== *)
theory Activity
  imports Activity_Store Dump
begin

text \<open>
  Recording tool activities, session checkpoints and the context of a project
  (\<open>memory-engine/src/engine/activity.rs\<close>, \<open>activity_filter.rs\<close>). The state of a call is the store, the
  graph and the scope tree of the handle.

  Parameters: \<open>lower\<close> is \<open>str::to_lowercase\<close>, \<open>hash\<close> BLAKE3 in hexadecimal, \<open>to_text\<close> the text of a JSON
  value, and the embedder. \<open>load_context\<close> makes three reads of its own; \<open>g i\<close> is what other calls commit
  after the \<open>i\<close>-th.
\<close>

subsection \<open>The filter\<close>

record activity_filter_config =
  af_dedup_window_secs :: int
  af_ignore_patterns :: "string list"
  af_promote_patterns :: "string list"

definition default_filter_config :: activity_filter_config where
  "default_filter_config =
     \<lparr>af_dedup_window_secs = 300, af_ignore_patterns = [], af_promote_patterns = []\<rparr>"

definition new_filter_config ::
    "(string \<Rightarrow> string) \<Rightarrow> int \<Rightarrow> string list \<Rightarrow> string list \<Rightarrow> activity_filter_config" where
  "new_filter_config lower window ignores promotes =
     \<lparr>af_dedup_window_secs = window, af_ignore_patterns = map lower ignores,
      af_promote_patterns = map lower promotes\<rparr>"

record promote_action =
  pa_fact_content :: string
  pa_fact_type :: fact_type
  pa_importance :: fl

datatype filter_decision = DecideIgnore | DecideRecord | DecidePromote promote_action

fun contains :: "string \<Rightarrow> string \<Rightarrow> bool" where
  "contains [] p = (p = [])"
| "contains (c # s) p = (take (length p) (c # s) = p \<or> contains s p)"

definition is_char_boundary :: "string \<Rightarrow> nat \<Rightarrow> bool" where
  "is_char_boundary s i \<longleftrightarrow> i = 0 \<or> i = length s \<or> (i < length s \<and> \<not> utf8_continuation (s ! i))"

primrec boundary_before :: "string \<Rightarrow> nat \<Rightarrow> nat" where
  \<comment> \<open>\<open>while !s.is_char_boundary(end) { end -= 1; }\<close>\<close>
  "boundary_before s 0 = 0"
| "boundary_before s (Suc i) = (if is_char_boundary s (Suc i) then Suc i else boundary_before s i)"

definition truncate_text :: "string \<Rightarrow> nat \<Rightarrow> string" where
  "truncate_text s max_len =
     (if length s \<le> max_len then s else take (boundary_before s max_len) s)"

definition format_promote_content :: "string \<Rightarrow> string option \<Rightarrow> string" where
  "format_promote_content tool_name result =
     (case result of
        Some r \<Rightarrow>
          if r \<noteq> [] then
            let truncated = (if 200 < length r then take (boundary_before r 200) r else r)
            in ''['' @ tool_name @ ''] '' @ truncated
          else ''['' @ tool_name @ ''] (no result summary)''
      | None \<Rightarrow> ''['' @ tool_name @ ''] (no result summary)'')"

definition apply_filter ::
    "(string \<Rightarrow> string) \<Rightarrow> string \<Rightarrow> string option \<Rightarrow> activity_filter_config \<Rightarrow> filter_decision" where
  "apply_filter lower tool_name result config =
     (let tool_lower = lower tool_name in
      if list_ex (contains tool_lower) (af_ignore_patterns config) then DecideIgnore
      else if list_ex (contains tool_lower) (af_promote_patterns config)
      then DecidePromote \<lparr>pa_fact_content = format_promote_content tool_name result,
        pa_fact_type = Episodic, pa_importance = Fin (7/10)\<rparr>
      else DecideRecord)"

subsection \<open>Recording\<close>

record record_activity_request =
  ra_tool_name :: string
  ra_args :: json
  ra_result :: "string option"
  ra_session_id :: string
  ra_timestamp :: time
  ra_scope_path :: "string option"
  ra_outcome_class :: "outcome_class option"

record record_activity_result =
  rr_activity_id :: "int option"
  rr_was_deduplicated :: bool
  rr_promoted_fact_id :: "int option"
  rr_status :: activity_status

type_synonym 'g activity_state = "session_store \<times> 'g memory_graph \<times> scope_tree"

definition args_hash :: "(string \<Rightarrow> string) \<Rightarrow> (json \<Rightarrow> string) \<Rightarrow> json \<Rightarrow> string" where
  "args_hash hash to_text args = take 32 (hash (to_text args))"

definition activity_scope ::
    "memory_ctx \<Rightarrow> string option \<Rightarrow> 'g activity_state \<Rightarrow> (int result \<times> 'g activity_state) option" where
  "activity_scope ctx path = (\<lambda>(S, g, t). case path of
     None \<Rightarrow> Some (Inr 1, (S, g, t))
   | Some p \<Rightarrow> map_option (\<lambda>(r, (D, g, t)). (r, (S\<lparr>se_db := D\<rparr>, g, t)))
       (engine_ensure_scope_path ctx p (se_db S, g, t)))"

definition new_activity_of ::
    "(string \<Rightarrow> string) \<Rightarrow> (json \<Rightarrow> string) \<Rightarrow> record_activity_request \<Rightarrow> int \<Rightarrow> new_activity" where
  "new_activity_of hash to_text req scope_id =
     \<lparr>na_session_id = ra_session_id req, na_tool_name = ra_tool_name req,
      na_args_hash = args_hash hash to_text (ra_args req), na_args = ra_args req,
      na_result_summary = map_option (\<lambda>r. truncate_text r 512) (ra_result req),
      na_outcome_class = or_else (ra_outcome_class req) OutcomeSuccess,
      na_timestamp = ra_timestamp req, na_scope_id = scope_id\<rparr>"

definition promotion_request :: "record_activity_request \<Rightarrow> promote_action \<Rightarrow> add_fact_request" where
  "promotion_request req action =
     \<lparr>q_content = pa_fact_content action, q_fact_type = pa_fact_type action, q_source_event_id = None,
      q_scope = ra_scope_path req,
      q_opts = Some (default_add_fact_options\<lparr>o_base_importance := Some (pa_importance action)\<rparr>)\<rparr>"

definition recorded_result :: "int \<Rightarrow> record_activity_result" where
  "recorded_result i = \<lparr>rr_activity_id = Some i, rr_was_deduplicated = False,
     rr_promoted_fact_id = None, rr_status = Recorded\<rparr>"

definition promote_activity ::
    "(string \<Rightarrow> string) \<Rightarrow> nat \<Rightarrow> (json \<Rightarrow> nat list) \<Rightarrow> memory_ctx \<Rightarrow> time \<Rightarrow> record_activity_request
      \<Rightarrow> promote_action \<Rightarrow> embedder \<Rightarrow> int
      \<Rightarrow> 'g activity_state \<Rightarrow> (record_activity_result result \<times> 'g activity_state) option" where
  "promote_activity hash edim chunks ctx now req action em i = (\<lambda>(S, g, t).
     case add_fact (sqlite_storage hash edim) chunks ctx now (promotion_request req action) em None (se_db S, t) of
       None \<Rightarrow> None
     | Some (Inl e, (D, t')) \<Rightarrow> Some (Inr (recorded_result i), (S\<lparr>se_db := D\<rparr>, g, t'))
     | Some (Inr f, (D, t')) \<Rightarrow>
         (case update_status i Promoted (Some f) (S\<lparr>se_db := D\<rparr>) of
            (Inl e, S') \<Rightarrow> Some (Inl e, (S', g, t'))
          | (Inr _, S') \<Rightarrow> Some (Inr \<lparr>rr_activity_id = Some i, rr_was_deduplicated = False,
              rr_promoted_fact_id = Some f, rr_status = Promoted\<rparr>, (S', g, t'))))"

definition store_activity ::
    "(string \<Rightarrow> string) \<Rightarrow> nat \<Rightarrow> (json \<Rightarrow> string) \<Rightarrow> (json \<Rightarrow> nat list) \<Rightarrow> memory_ctx \<Rightarrow> time
      \<Rightarrow> record_activity_request \<Rightarrow> embedder option \<Rightarrow> filter_decision \<Rightarrow> int \<Rightarrow> int
      \<Rightarrow> 'g activity_state \<Rightarrow> (record_activity_result result \<times> 'g activity_state) option" where
  \<comment> \<open>steps 4 and 5\<close>
  "store_activity hash edim to_text chunks ctx now req embedder decision window scope_id = (\<lambda>(S, g, t).
     case insert_or_dedup (new_activity_of hash to_text req scope_id) window S of
       (Inl e, S') \<Rightarrow> Some (Inl e, (S', g, t))
     | (Inr (i, deduplicated), S') \<Rightarrow>
         if deduplicated then Some (Inr \<lparr>rr_activity_id = Some i, rr_was_deduplicated = True,
           rr_promoted_fact_id = None, rr_status = Deduplicated\<rparr>, (S', g, t))
         else (case (decision, embedder) of
             (DecidePromote action, Some em) \<Rightarrow>
               promote_activity hash edim chunks ctx now req action em i (S', g, t)
           | _ \<Rightarrow> Some (Inr (recorded_result i), (S', g, t))))"

definition record_activity ::
    "(string \<Rightarrow> string) \<Rightarrow> nat \<Rightarrow> (string \<Rightarrow> string) \<Rightarrow> (json \<Rightarrow> string) \<Rightarrow> (json \<Rightarrow> nat list) \<Rightarrow> memory_ctx \<Rightarrow> time
      \<Rightarrow> record_activity_request \<Rightarrow> embedder option \<Rightarrow> activity_filter_config
      \<Rightarrow> 'g activity_state \<Rightarrow> (record_activity_result result \<times> 'g activity_state) option" where
  "record_activity hash edim lower to_text chunks ctx now req embedder config st =
     (case ensure_writable ctx of
        Inl e \<Rightarrow> Some (Inl e, st)
      | Inr _ \<Rightarrow>
          let decision = apply_filter lower (ra_tool_name req) (ra_result req) config in
          if decision = DecideIgnore then
            Some (Inr \<lparr>rr_activity_id = None, rr_was_deduplicated = False,
              rr_promoted_fact_id = None, rr_status = Ignored\<rparr>, st)
          else (case activity_scope ctx (ra_scope_path req) st of
              None \<Rightarrow> None
            | Some (Inl e, st1) \<Rightarrow> Some (Inl e, st1)
            | Some (Inr scope_id, st1) \<Rightarrow>
                store_activity hash edim to_text chunks ctx now req embedder decision
                  (af_dedup_window_secs config) scope_id st1))"

subsection \<open>Sessions\<close>

definition checkpoint_session ::
    "memory_ctx \<Rightarrow> time \<Rightarrow> string \<Rightarrow> string option \<Rightarrow> string option \<Rightarrow> json option \<Rightarrow> (session_store, unit) op" where
  "checkpoint_session ctx now session_id scope_path summary metadata =
     op_bind (op_of (ensure_writable ctx)) (\<lambda>_.
     op_bind (op_reads (\<lambda>S. Inr (list_by_session S session_id (Some 1)))) (\<lambda>page.
     upsert_checkpoint \<lparr>cp_session_id = session_id, cp_scope_path = scope_path, cp_summary = summary,
       cp_last_activity_id = (case page of [] \<Rightarrow> None | a # _ \<Rightarrow> Some (ac_id a)),
       cp_checkpoint_at = now, cp_metadata = or_else metadata (JObj [])\<rparr>))"

record project_context =
  pc_scope_path :: string
  pc_recent_activities :: "activity list"
  pc_last_checkpoint :: "session_checkpoint option"
  pc_relevant_facts :: "fact list"

definition load_context ::
    "nat \<Rightarrow> (nat \<Rightarrow> session_store \<Rightarrow> session_store) \<Rightarrow> scope_tree \<Rightarrow> string \<Rightarrow> nat \<Rightarrow> nat
      \<Rightarrow> (session_store, project_context) op" where
  "load_context edim g t scope_path activity_limit fact_limit =
     (case resolve_path t scope_path of
        None \<Rightarrow> op_fail (NotFound (Fmt ''scope path: {}'' [AStr scope_path]))
      | Some i \<Rightarrow>
          let scope_ids = subtree t i in
          read_then (g 0) (\<lambda>S. Inr (get_checkpoint_by_scope S scope_path)) (\<lambda>checkpoint.
          read_then (g 1) (\<lambda>S. list_recent_by_scope S scope_ids activity_limit) (\<lambda>recent.
          read_then (g 2) (\<lambda>S. list_by_scopes_recent edim (se_db S) scope_ids fact_limit {}) (\<lambda>facts.
          op_return \<lparr>pc_scope_path = scope_path, pc_recent_activities = recent,
            pc_last_checkpoint = checkpoint, pc_relevant_facts = facts\<rparr>))))"

subsection \<open>Text is cut at a character\<close>

lemma contains_iff: "contains s p \<longleftrightarrow> (\<exists>us vs. s = us @ p @ vs)"
proof (induction s)
  case (Cons c s)
  have "take (length p) (c # s) = p \<longleftrightarrow> (\<exists>vs. c # s = p @ vs)" by (metis append_eq_conv_conj append_take_drop_id)
  moreover have "(\<exists>us vs. c # s = us @ p @ vs) \<longleftrightarrow> (\<exists>vs. c # s = p @ vs) \<or> (\<exists>us vs. s = us @ p @ vs)"
    by (metis append_Cons append_Nil list.exhaust list.inject)
  ultimately show ?case using Cons.IH by simp
qed auto

lemma boundary_before_ok:
  "boundary_before s n \<le> n" "is_char_boundary s (boundary_before s n)"
  "i \<le> n \<Longrightarrow> is_char_boundary s i \<Longrightarrow> i \<le> boundary_before s n"
  by (induction n) (auto simp: is_char_boundary_def le_Suc_eq)

lemma truncate_text_ok:
  "length (truncate_text s n) \<le> n"
  "\<exists>rest. s = truncate_text s n @ rest \<and> (rest = [] \<or> truncate_text s n = [] \<or> \<not> utf8_continuation (hd rest))"
proof -
  show "length (truncate_text s n) \<le> n"
    using boundary_before_ok(1) [of s n] by (simp add: truncate_text_def)
  let ?k = "boundary_before s n"
  show "\<exists>rest. s = truncate_text s n @ rest \<and> (rest = [] \<or> truncate_text s n = [] \<or> \<not> utf8_continuation (hd rest))"
  proof (cases "length s \<le> n")
    case False
    then have "?k < length s" using boundary_before_ok(1) [of s n] by simp
    moreover have "?k = 0 \<or> \<not> utf8_continuation (s ! ?k)"
      using boundary_before_ok(2) [of s n] calculation by (auto simp: is_char_boundary_def)
    ultimately show ?thesis using False
      by (intro exI [of _ "drop ?k s"]) (auto simp: truncate_text_def hd_drop_conv_nth)
  qed (simp add: truncate_text_def)
qed

end
