(* ===== verification/Activity_Calls.thy ===== *)
theory Activity_Calls
  imports Activity
begin

text \<open>
  What recording an activity does to the tables, the tree and the projections: the invariants it keeps, the
  row it writes or counts up, and the fact a promotion adds.
\<close>

subsection \<open>A path resolves in a larger tree to the same scope\<close>

lemma resolve_mono:
  assumes wf: "scope_wf T" and sub: "subtree_of t T" and r: "resolve_segments t segs i = Some x"
  shows "resolve_segments T segs i = Some x"
  using r
proof (induction segs arbitrary: i)
  case (Cons seg segs)
  from Cons.prems obtain ids c where v: "is_ok (validate_segment (trim seg))"
    and ids: "map_of (st_children t) i = Some ids"
    and f: "List.find (has_label t (trim seg)) ids = Some c" and rest: "resolve_segments t segs c = Some x"
    by (auto simp: Let_def split: if_splits option.splits)
  have ix: "index_ok t" using sub by (simp add: subtree_of_def)
  from find_eq_Some_in [OF f] ids have c: "parent_of t c = Some i" "has_label t (trim seg) c"
    using index_okD(1) [OF ix, of c i] by (auto simp: assoc_nbrs_def)
  have nT: "map_of (st_nodes T) j = Some m" if "map_of (st_nodes t) j = Some m" for j m
    using sub that by (simp add: subtree_of_def)
  have cT: "parent_of T c = Some i" "has_label T (trim seg) c"
    using c nT by (cases "map_of (st_nodes t) c"; auto simp: parent_of_def has_label_def)+
  then have mem: "c \<in> set (assoc_nbrs (st_children T) i)" by (simp add: index_okD(1) [OF scope_wfD(1) [OF wf]])
  have "List.find (has_label T (trim seg)) (assoc_nbrs (st_children T) i) = Some c"
  proof (rule find_unique [where P = "has_label T (trim seg)", OF mem cT(2)])
    fix d assume "d \<in> set (assoc_nbrs (st_children T) i)" "has_label T (trim seg) d"
    then have "parent_of T d = Some i" "has_label T (trim seg) d"
      by (simp_all add: index_okD(1) [OF scope_wfD(1) [OF wf]])
    with cT scope_wfD(2) [OF wf] show "d = c" unfolding siblings_ok_def by blast
  qed
  moreover obtain ids' where "map_of (st_children T) i = Some ids'"
    using mem by (cases "map_of (st_children T) i") (auto simp: assoc_nbrs_def)
  ultimately show ?case using v Cons.IH [OF rest] by (simp add: assoc_nbrs_def)
qed simp

lemma resolve_path_mono:
  "scope_wf T \<Longrightarrow> subtree_of t T \<Longrightarrow> resolve_path t path = Some x \<Longrightarrow> resolve_path T path = Some x"
  using resolve_mono by (auto simp: resolve_path_def split: if_splits)

lemma scopes_ok_resolve_unique:
  assumes "scopes_ok edim D0 (D1, t1)" "scopes_ok edim D1 (D2, t2)"
    and "resolve_path t1 path = Some i" "resolve_path t2 path = Some j"
  shows "i = j"
proof -
  let ?T = "from_nodes (sc_rows (d_scopes D2))"
  have wf: "scope_wf ?T" using assms(2) by (auto simp: scopes_ok_def store_ok_def intro: scopes_inv_wf db_invD(1))
  have "subtree_of t1 ?T"
    using assms(1,2) by (auto simp: scopes_ok_def intro: subtree_lift)
  from resolve_path_mono [OF wf this assms(3)] resolve_path_mono [OF wf _ assms(4)] assms(2)
  show ?thesis by (simp add: scopes_ok_def)
qed

subsection \<open>Fact rows are only added\<close>

definition facts_from :: "fact list \<Rightarrow> db \<Rightarrow> bool" where
  "facts_from rows D \<longleftrightarrow> (\<exists>extra. d_facts D = rows @ extra)"

lemma facts_from_self [simp]: "facts_from (d_facts D) D"
  by (simp add: facts_from_def)

lemma facts_from_ids: "facts_from (d_facts D) D' \<Longrightarrow> fact_ids_of D \<subseteq> fact_ids_of D'"
  by (auto simp: facts_from_def fact_ids_of_def)

lemma keeps_facts_from [keeps_intros]:
  "keeps (facts_from rows) (insert_fact_atomic hash edim nf fp n)" "keeps (facts_from rows) (ensure_scope_path path)"
proof -
  have "keeps (facts_from rows) (record_if_absent fp n)" "keeps (facts_from rows) (fact_insert hash edim nf)"
    by (rule keepsI; auto simp: facts_from_def record_if_absent_def fact_insert_def Let_def
        split: option.splits sum.splits if_splits)+
  then show "keeps (facts_from rows) (insert_fact_atomic hash edim nf fp n)"
    unfolding insert_fact_atomic_def by (intro keeps_transaction keeps_bind)
  show "keeps (facts_from rows) (ensure_scope_path path)"
    unfolding ensure_scope_path_def
    by (intro keeps_transaction keepsI) (auto simp: on_scopes_def facts_from_def split: prod.splits)
qed

lemma insert_fact_atomic_row:
  assumes "db_inv edim D" "insert_fact_atomic hash edim nf fp n D = (Inr i, D')"
  shows "row D' i = Some (new_fact_row hash i nf)" "i \<notin> fact_ids_of D" "i \<in> fact_ids_of D'"
proof -
  from assms(2) obtain x D1 where x: "record_if_absent fp n D = (Inr x, D1)" and ins: "fact_insert hash edim nf D1 = (Inr i, D')"
    by (auto simp: insert_fact_atomic_def op_bind_Inr)
  have inv: "db_inv edim D1" by (rule keepsD [OF keeps_record_if_absent assms(1) x])
  have "d_facts D1 = d_facts D"
    using x by (auto simp: record_if_absent_def split: option.splits sum.splits if_splits)
  then show "i \<notin> fact_ids_of D" using fact_insert_ok(1) [OF inv ins] by (simp add: fact_ids_of_def)
  show "row D' i = Some (new_fact_row hash i nf)" using fact_insert_ok(3) [OF inv ins, of i] by simp
  show "i \<in> fact_ids_of D'" using fact_insert_ok(2) [OF inv ins] by (simp add: fact_ids_of_def new_fact_row_def)
qed

lemma add_fact_frame:
  assumes ok: "scopes_ok edim D0 (D, t)"
    and r: "add_fact (sqlite_storage hash edim) chunks ctx now req em None (D, t) = Some (res, (D', t'))"
  shows "facts_from (d_facts D) D'"
    and "res = Inr i \<Longrightarrow> \<exists>emb sid. em_embed em (q_content req) = Inr emb \<and>
      row D' i = Some (new_fact_row hash i (new_fact_of now req emb (pin_of None req) sid)) \<and>
      i \<notin> fact_ids_of D \<and> i \<in> fact_ids_of D' \<and>
      (case q_scope req of None \<Rightarrow> sid = 1 | Some path \<Rightarrow> resolve_path t' path = Some sid)"
proof -
  have "facts_from (d_facts D) D' \<and> (res = Inr i \<longrightarrow> (\<exists>emb sid. em_embed em (q_content req) = Inr emb \<and>
      row D' i = Some (new_fact_row hash i (new_fact_of now req emb (pin_of None req) sid)) \<and>
      i \<notin> fact_ids_of D \<and> i \<in> fact_ids_of D' \<and>
      (case q_scope req of None \<Rightarrow> sid = 1 | Some path \<Rightarrow> resolve_path t' path = Some sid)))"
  proof (cases "and_then (ingest_gate chunks ctx req) (\<lambda>_. em_embed em (q_content req))")
    case Inl
    with r show ?thesis by (auto simp: add_fact_def)
  next
    case (Inr emb)
    then have emb: "em_embed em (q_content req) = Inr emb" by (simp add: and_then_eq_Inr)
    let ?nf = "\<lambda>sid. new_fact_of now req emb (pin_of None req) sid"
    let ?commit = "\<lambda>sid. insert_fact_atomic hash edim (?nf sid) (em_fingerprint em) (ctx_embed_dim ctx)"
    have db: "db_inv edim D" using ok by (simp add: scopes_ok_def store_ok_def)
    show ?thesis
    proof (cases "q_scope req")
      case None
      then have c: "?commit 1 D = (res, D')"
        using r Inr by (simp add: add_fact_def insert_fact_with_embedding_def Let_def sqlite_storage_def)
      have "facts_from (d_facts D) D'" by (rule keepsD [OF keeps_facts_from(1) _ c]) simp
      moreover have "\<exists>emb sid. em_embed em (q_content req) = Inr emb \<and>
          row D' i = Some (new_fact_row hash i (new_fact_of now req emb (pin_of None req) sid)) \<and>
          i \<notin> fact_ids_of D \<and> i \<in> fact_ids_of D' \<and> sid = 1" if "res = Inr i"
        using insert_fact_atomic_row [OF db] c that emb by blast
      ultimately show ?thesis using None by simp
    next
      case (Some path)
      obtain res1 D1 where e: "ensure_scope_path path D = (res1, D1)" by fastforce
      have f1: "facts_from (d_facts D) D1" by (rule keepsD [OF keeps_facts_from(2) _ e]) simp
      note en = ensured_scopes_ok [OF ok e]
      show ?thesis
      proof (cases res1)
        case (Inl e')
        with r Some e Inr f1 show ?thesis
          by (auto simp: add_fact_def insert_fact_with_embedding_def Let_def sqlite_storage_def)
      next
        case i1: (Inr sid)
        from en(2) [OF i1] obtain t1 where t1: "cache_scope_chain (scope_get (d_scopes D1)) t sid = Some (Inr t1)"
          "scopes_ok edim D0 (D1, t1)" "resolve_path t1 path = Some sid" by blast
        with r Some e i1 Inr have c: "?commit sid D1 = (res, D')" and t': "t' = t1"
          by (simp_all add: add_fact_def insert_fact_with_embedding_def Let_def sqlite_storage_def)
        have "facts_from (d_facts D) D'" by (rule keepsD [OF keeps_facts_from(1) f1 c])
        moreover have db1: "db_inv edim D1" using t1(2) by (simp add: scopes_ok_def store_ok_def)
        moreover have "\<exists>emb sid. em_embed em (q_content req) = Inr emb \<and>
            row D' i = Some (new_fact_row hash i (new_fact_of now req emb (pin_of None req) sid)) \<and>
            i \<notin> fact_ids_of D \<and> i \<in> fact_ids_of D' \<and> resolve_path t' path = Some sid" if "res = Inr i"
        proof -
          from c that have "?commit sid D1 = (Inr i, D')" by simp
          note insert_fact_atomic_row [OF db1 this]
          with emb t1(3) t' facts_from_ids [OF f1] show ?thesis by blast
        qed
        ultimately show ?thesis using Some by simp
      qed
    qed
  qed
  then show "facts_from (d_facts D) D'"
    and "res = Inr i \<Longrightarrow> \<exists>emb sid. em_embed em (q_content req) = Inr emb \<and>
      row D' i = Some (new_fact_row hash i (new_fact_of now req emb (pin_of None req) sid)) \<and>
      i \<notin> fact_ids_of D \<and> i \<in> fact_ids_of D' \<and>
      (case q_scope req of None \<Rightarrow> sid = 1 | Some path \<Rightarrow> resolve_path t' path = Some sid)"
    by blast+
qed

subsection \<open>The calls\<close>

lemma session_inv_grow:
  assumes "session_inv S" "scope_ids_of (se_db S) \<subseteq> scope_ids_of D" "fact_ids_of (se_db S) \<subseteq> fact_ids_of D"
  shows "session_inv (S\<lparr>se_db := D\<rparr>)"
proof -
  have "activity_ok (S\<lparr>se_db := D\<rparr>) a" if "activity_ok S a" for a
    using that assms(2,3) by (auto simp: activity_ok_def split: option.splits)
  moreover have "checkpoint_ok (S\<lparr>se_db := D\<rparr>) c \<longleftrightarrow> checkpoint_ok S c" for c
    by (simp add: checkpoint_ok_def split: option.split)
  ultimately show ?thesis using assms(1) by (simp add: session_inv_def)
qed

lemma scopes_ok_ids: "scopes_ok edim D (D', t) \<Longrightarrow> scope_ids_of D \<subseteq> scope_ids_of D'"
  by (auto simp: scopes_ok_def scopes_from_def scope_ids_of_def)

lemma scopes_ok_self: "scopes_ok edim D0 (D, t) \<Longrightarrow> scopes_ok edim D (D, t)"
  by (simp add: scopes_ok_def)

lemma keeps_facts [keeps_intros]: "keeps (\<lambda>D. d_facts D = rows) (ensure_scope_path path)"
  unfolding ensure_scope_path_def
  by (intro keeps_transaction keepsI) (auto simp: on_scopes_def split: prod.splits)

lemma activity_scope_ok:
  assumes ok: "scopes_ok edim D0 (se_db S, t)" and inv: "session_inv S"
  shows "\<exists>r S1 t1. activity_scope ctx path (S, g, t) = Some (r, (S1, g, t1)) \<and> scopes_ok edim D0 (se_db S1, t1) \<and>
    scopes_ok edim (se_db S) (se_db S1, t1) \<and> session_inv S1 \<and> se_activities S1 = se_activities S \<and> d_facts (se_db S1) = d_facts (se_db S) \<and>
    (\<forall>i. r = Inr i \<longrightarrow> (case path of None \<Rightarrow> i = 1 | Some p \<Rightarrow> resolve_path t1 p = Some i))"
proof (cases path)
  case None
  then show ?thesis using ok inv scopes_ok_self [OF ok] by (simp add: activity_scope_def)
next
  case (Some p)
  obtain r D1 g1 t1 where e: "engine_ensure_scope_path ctx p (se_db S, g, t) = Some (r, (D1, g1, t1))"
    using ensure_scope_returns [OF ok, of ctx p g] by fastforce
  note en = ensure_scope_ok [OF ok e] and en' = ensure_scope_ok [OF scopes_ok_self [OF ok] e]
  obtain r1 D2 where d: "ensure_scope_path p (se_db S) = (r1, D2)" by fastforce
  have "d_facts D2 = d_facts (se_db S)" by (rule keepsD [OF keeps_facts _ d]) simp
  then have f: "d_facts D1 = d_facts (se_db S)"
    using e d by (auto simp: engine_ensure_scope_path_def split: sum.splits option.splits)
  have "session_inv (S\<lparr>se_db := D1\<rparr>)"
    using scopes_ok_ids [of edim "se_db S" D1 t1] en' f by (intro session_inv_grow [OF inv]) (auto simp: fact_ids_of_def)
  with Some e en en' f show ?thesis by (auto simp: activity_scope_def)
qed

lemma promote_activity_ok:
  assumes ok: "scopes_ok edim D0 (se_db S, t)" and inv: "session_inv S" and i: "i \<in> ac_id ` set (se_activities S)"
  shows "\<exists>res S1 t1. promote_activity hash edim chunks ctx now req action em i (S, g, t) = Some (Inr res, (S1, g, t1)) \<and>
    scopes_ok edim D0 (se_db S1, t1) \<and> scopes_ok edim (se_db S) (se_db S1, t1) \<and> session_inv S1 \<and>
    facts_from (d_facts (se_db S)) (se_db S1) \<and>
    (res = recorded_result i \<and> se_activities S1 = se_activities S \<or>
     (\<exists>f emb sid. res = \<lparr>rr_activity_id = Some i, rr_was_deduplicated = False, rr_promoted_fact_id = Some f, rr_status = Promoted\<rparr> \<and>
       se_activities S1 = se_activities (update_activities i (\<lambda>a. a\<lparr>ac_status := Promoted, ac_promoted_fact_id := Some f\<rparr>) S) \<and>
       f \<notin> fact_ids_of (se_db S) \<and> em_embed em (pa_fact_content action) = Inr emb \<and>
       row (se_db S1) f = Some (new_fact_row hash f (new_fact_of now (promotion_request req action) emb False sid)) \<and>
       (case ra_scope_path req of None \<Rightarrow> sid = 1 | Some p \<Rightarrow> resolve_path t1 p = Some sid)))"
proof -
  let ?req = "promotion_request req action"
  have "insert_fact_with_embedding (sqlite_storage hash edim) ctx now ?req emb None fp (se_db S, t) \<noteq> None" for emb fp
    using ok by (intro sqls.insert_fact_returns) (auto simp: scopes_ok_def store_ok_def)
  then have "add_fact (sqlite_storage hash edim) chunks ctx now ?req em None (se_db S, t) \<noteq> None"
    unfolding add_fact_def by (cases "and_then (ingest_gate chunks ctx ?req) (\<lambda>_. em_embed em (q_content ?req))") auto
  then obtain r D1 t1 where r: "add_fact (sqlite_storage hash edim) chunks ctx now ?req em None (se_db S, t) = Some (r, (D1, t1))"
    by fastforce
  note ok1 = add_fact_ok(1) [OF ok r] and ok2 = add_fact_ok(1) [OF scopes_ok_self [OF ok] r]
  note fr = add_fact_frame [OF ok r]
  have inv1: "session_inv (S\<lparr>se_db := D1\<rparr>)"
    by (rule session_inv_grow [OF inv scopes_ok_ids [OF ok2] facts_from_ids [OF fr(1)]])
  show ?thesis
  proof (cases r)
    case Inl
    with r ok1 ok2 inv1 fr(1) show ?thesis by (simp add: promote_activity_def)
  next
    case (Inr f)
    from fr(2) [OF Inr] obtain emb sid where f: "em_embed em (q_content ?req) = Inr emb"
      "row D1 f = Some (new_fact_row hash f (new_fact_of now ?req emb (pin_of None ?req) sid))"
      "f \<notin> fact_ids_of (se_db S)" "f \<in> fact_ids_of D1"
      "case q_scope ?req of None \<Rightarrow> sid = 1 | Some path \<Rightarrow> resolve_path t1 path = Some sid" by blast
    have pin: "pin_of None ?req = False"
      by (simp add: pin_of_def promotion_request_def opts_of_def default_add_fact_options_def)
    let ?S1 = "update_activities i (\<lambda>a. a\<lparr>ac_status := Promoted, ac_promoted_fact_id := Some f\<rparr>) (S\<lparr>se_db := D1\<rparr>)"
    have u: "update_status i Promoted (Some f) (S\<lparr>se_db := D1\<rparr>) = (Inr (), ?S1)"
      using i f(4) by (simp add: update_status_def)
    have "session_inv ?S1" using update_status_inv [OF inv1, of i Promoted "Some f"] by (simp add: u)
    moreover have "se_activities ?S1 = se_activities (update_activities i (\<lambda>a. a\<lparr>ac_status := Promoted, ac_promoted_fact_id := Some f\<rparr>) S)"
      by (simp add: update_activities_def)
    ultimately show ?thesis using r Inr ok1 ok2 f u fr(1) pin
      by (auto simp: promote_activity_def promotion_request_def)
  qed
qed

lemma insert_or_dedup_row:
  assumes inv: "session_inv S" and r: "insert_or_dedup na window S = (Inr (i, dup), S')"
  shows "dup \<longleftrightarrow> (\<exists>a \<in> set (se_activities S). dedup_candidate na window a)"
    and "\<exists>a \<in> set (se_activities S'). ac_id a = i \<and> same_activity na a \<and> ac_last_seen a = na_timestamp na"
    and "dup \<longleftrightarrow> i \<in> ac_id ` set (se_activities S)"
proof -
  have fresh: "se_activity_seq S + 1 \<notin> ac_id ` set (se_activities S)"
    using inv by (force simp: session_inv_def activity_ok_def)
  show "dup \<longleftrightarrow> (\<exists>a \<in> set (se_activities S). dedup_candidate na window a)"
  proof (cases "find_existing na window S")
    case None
    with r find_existing_None [of na window S] show ?thesis
      by (auto simp: insert_or_dedup_def Let_def split: if_splits)
  next
    case (Some a)
    with r find_existing_None [of na window S] show ?thesis by (auto simp: insert_or_dedup_def)
  qed
  show "dup \<longleftrightarrow> i \<in> ac_id ` set (se_activities S)"
    using r fresh find_existing_Some(1) [of na window S]
    by (auto simp: insert_or_dedup_def Let_def split: option.splits if_splits)
  show "\<exists>a \<in> set (se_activities S'). ac_id a = i \<and> same_activity na a \<and> ac_last_seen a = na_timestamp na"
  proof (cases "find_existing na window S")
    case (Some a)
    then have "S' = update_activities (ac_id a) (seen_again na (ac_occurrence_count a)) S" "i = ac_id a"
      using r by (auto simp: insert_or_dedup_def)
    with find_existing_Some(1,2) [OF Some] show ?thesis
      by (intro bexI [of _ "seen_again na (ac_occurrence_count a) a"]) (auto simp: seen_again_def same_activity_def)
  next
    case None
    with r show ?thesis
      by (auto simp: insert_or_dedup_def Let_def new_activity_row_def same_activity_def split: if_splits)
  qed
qed

text \<open>What a recorded call leaves: \<open>i\<close> is the row, \<open>scope_id\<close> the scope of the request.\<close>

definition scope_of_request :: "record_activity_request \<Rightarrow> session_store \<Rightarrow> int \<Rightarrow> bool" where
  "scope_of_request req S scope_id \<longleftrightarrow> (case ra_scope_path req of None \<Rightarrow> scope_id = 1
     | Some p \<Rightarrow> resolve_path (from_nodes (sc_rows (d_scopes (se_db S)))) p = Some scope_id)"

lemma scope_of_request_unique: "scope_of_request req S i \<Longrightarrow> scope_of_request req S j \<Longrightarrow> i = j"
  by (auto simp: scope_of_request_def split: option.splits)

lemma scopes_ok_resolves:
  assumes "scopes_ok edim D0 (D1, t1)" "scopes_ok edim D1 (D2, t2)" "resolve_path t1 p = Some i"
  shows "resolve_path (from_nodes (sc_rows (d_scopes D2))) p = Some i"
proof -
  have "scope_wf (from_nodes (sc_rows (d_scopes D2)))"
    using assms(2) by (auto simp: scopes_ok_def store_ok_def intro: scopes_inv_wf db_invD(1))
  moreover have "subtree_of t1 (from_nodes (sc_rows (d_scopes D2)))"
    using assms(1,2) by (auto simp: scopes_ok_def intro: subtree_lift)
  ultimately show ?thesis using assms(3) by (rule resolve_path_mono)
qed

definition activity_recorded ::
    "(string \<Rightarrow> string) \<Rightarrow> (json \<Rightarrow> string) \<Rightarrow> record_activity_request \<Rightarrow> int \<Rightarrow> session_store
      \<Rightarrow> record_activity_result \<Rightarrow> session_store \<Rightarrow> bool" where
  "activity_recorded hash to_text req window S res S' \<longleftrightarrow> (\<exists>scope_id. scope_of_request req S' scope_id \<and>
     (let na = new_activity_of hash to_text req scope_id in
      rr_was_deduplicated res = (\<exists>a \<in> set (se_activities S). dedup_candidate na window a) \<and>
      (\<exists>a \<in> set (se_activities S'). rr_activity_id res = Some (ac_id a) \<and> same_activity na a \<and>
         ac_last_seen a = ra_timestamp req \<and>
         (rr_was_deduplicated res \<longleftrightarrow> ac_id a \<in> ac_id ` set (se_activities S)))))"

definition fact_promoted ::
    "(string \<Rightarrow> string) \<Rightarrow> time \<Rightarrow> record_activity_request \<Rightarrow> promote_action \<Rightarrow> embedder \<Rightarrow> session_store
      \<Rightarrow> record_activity_result \<Rightarrow> session_store \<Rightarrow> fact_id \<Rightarrow> bool" where
  "fact_promoted hash now req action em S res S' f \<longleftrightarrow>
     rr_status res = Promoted \<and> f \<notin> fact_ids_of (se_db S) \<and>
     (\<exists>a \<in> set (se_activities S'). rr_activity_id res = Some (ac_id a) \<and> ac_status a = Promoted \<and>
        ac_promoted_fact_id a = Some f \<and> scope_of_request req S' (ac_scope_id a) \<and>
        (\<exists>emb. em_embed em (pa_fact_content action) = Inr emb \<and> row (se_db S') f = Some (new_fact_row hash f
           (new_fact_of now (promotion_request req action) emb False (ac_scope_id a)))))"

lemma known_scope:
  assumes "scopes_ok edim D0 (D, t)" "case path of None \<Rightarrow> sid = 1 | Some p \<Rightarrow> resolve_path t p = Some sid"
  shows "sid \<in> scope_ids_of D"
proof (cases path)
  case None
  have "scopes_inv (d_scopes D)" using assms(1) by (auto simp: scopes_ok_def store_ok_def dest: db_invD(1))
  from scopes_inv_root [OF this] obtain m where "m \<in> set (sc_rows (d_scopes D))" "sn_id m = 1" by blast
  with None assms(2) show ?thesis by (force simp: scope_ids_of_def)
next
  case (Some p)
  have i: "scopes_inv (d_scopes D)" using assms(1) by (auto simp: scopes_ok_def store_ok_def dest: db_invD(1))
  have "map_of (st_nodes (from_nodes (sc_rows (d_scopes D)))) sid \<noteq> None"
    using Some assms(2) by (intro resolve_path_known [OF scopes_inv_wf [OF i] scopes_ok_resolves [OF assms(1) scopes_ok_self [OF assms(1)]]]) simp
  then show ?thesis using tree_of_nodes [OF i] by (force simp: scope_ids_of_def)
qed

lemma request_scope:
  assumes "scopes_ok edim D0 (se_db S, t)" "scopes_ok edim (se_db S) (se_db S', t')"
    and "case ra_scope_path req of None \<Rightarrow> sid = 1 | Some p \<Rightarrow> resolve_path t p = Some sid"
  shows "scope_of_request req S' sid"
  using scopes_ok_resolves [OF assms(1,2)] assms(3) by (auto simp: scope_of_request_def split: option.splits)

lemma store_activity_ok:
  assumes ok: "scopes_ok edim D0 (se_db S, t)" and inv: "session_inv S"
    and sid: "case ra_scope_path req of None \<Rightarrow> sid = 1 | Some p \<Rightarrow> resolve_path t p = Some sid"
  shows "\<exists>res S' t'. store_activity hash edim to_text chunks ctx now req embedder decision window sid (S, g, t) =
      Some (Inr res, (S', g, t')) \<and> scopes_ok edim D0 (se_db S', t') \<and> session_inv S' \<and>
    occurrences S' = occurrences S + 1 \<and> rr_status res \<noteq> Ignored \<and> activity_recorded hash to_text req window S res S' \<and>
    (\<forall>f. rr_promoted_fact_id res = Some f \<longrightarrow> (\<exists>action em. decision = DecidePromote action \<and> embedder = Some em \<and>
       fact_promoted hash now req action em S res S' f))"
proof -
  let ?na = "new_activity_of hash to_text req sid"
  have "na_scope_id ?na \<in> scope_ids_of (se_db S)" using known_scope [OF ok sid] by (simp add: new_activity_of_def)
  then obtain i dup S1 where ins: "insert_or_dedup ?na window S = (Inr (i, dup), S1)"
    by (cases "find_existing ?na window S") (auto simp: insert_or_dedup_def Let_def)
  note row = insert_or_dedup_row [OF inv ins] and db1 = insert_or_dedup_db [OF ins]
  have inv1: "session_inv S1" using insert_or_dedup_inv [OF inv, of ?na window] by (simp add: ins)
  have ok1: "scopes_ok edim D0 (se_db S1, t)" using ok db1 by simp
  have n1: "occurrences S1 = occurrences S + 1" by (rule insert_or_dedup_counts [OF inv ins])
  obtain a where a: "a \<in> set (se_activities S1)" "ac_id a = i" "same_activity ?na a" "ac_last_seen a = ra_timestamp req"
    using row(2) by (auto simp: new_activity_of_def)
  have rec1: "activity_recorded hash to_text req window S res S1"
    if "rr_was_deduplicated res = dup" "rr_activity_id res = Some i" for res
    unfolding activity_recorded_def Let_def
    using request_scope [OF ok, of S1 t] scopes_ok_self [OF ok] sid db1 that row(1,3) a
    by (intro exI [of _ sid] conjI bexI [of _ a]) (auto simp: scope_of_request_def)
  show ?thesis
  proof (cases "\<not> dup \<and> (\<exists>action em. decision = DecidePromote action \<and> embedder = Some em)")
    case False
    let ?res = "if dup then \<lparr>rr_activity_id = Some i, rr_was_deduplicated = True, rr_promoted_fact_id = None, rr_status = Deduplicated\<rparr>
      else recorded_result i"
    have "store_activity hash edim to_text chunks ctx now req embedder decision window sid (S, g, t) = Some (Inr ?res, (S1, g, t))"
      using False ins by (auto simp: store_activity_def split: filter_decision.split option.split)
    moreover have "activity_recorded hash to_text req window S ?res S1" by (rule rec1) (auto simp: recorded_result_def)
    ultimately show ?thesis using ok1 inv1 n1 by (auto simp: recorded_result_def)
  next
    case True
    then obtain action em where d: "\<not> dup" "decision = DecidePromote action" "embedder = Some em" by blast
    have i: "i \<in> ac_id ` set (se_activities S1)" using a(1,2) by blast
    from promote_activity_ok [OF ok1 inv1 i, of hash chunks ctx now req action em g] obtain res S2 t2 where p:
      "promote_activity hash edim chunks ctx now req action em i (S1, g, t) = Some (Inr res, (S2, g, t2))"
      "scopes_ok edim D0 (se_db S2, t2)" "scopes_ok edim (se_db S1) (se_db S2, t2)" "session_inv S2"
      and cases: "res = recorded_result i \<and> se_activities S2 = se_activities S1 \<or>
       (\<exists>f emb sid. res = \<lparr>rr_activity_id = Some i, rr_was_deduplicated = False, rr_promoted_fact_id = Some f, rr_status = Promoted\<rparr> \<and>
         se_activities S2 = se_activities (update_activities i (\<lambda>a. a\<lparr>ac_status := Promoted, ac_promoted_fact_id := Some f\<rparr>) S1) \<and>
         f \<notin> fact_ids_of (se_db S1) \<and> em_embed em (pa_fact_content action) = Inr emb \<and>
         row (se_db S2) f = Some (new_fact_row hash f (new_fact_of now (promotion_request req action) emb False sid)) \<and>
         (case ra_scope_path req of None \<Rightarrow> sid = 1 | Some p \<Rightarrow> resolve_path t2 p = Some sid))" by blast
    have s: "store_activity hash edim to_text chunks ctx now req embedder decision window sid (S, g, t) = Some (Inr res, (S2, g, t2))"
      using d ins p(1) by (simp add: store_activity_def)
    have sc: "scope_of_request req S2 sid" using request_scope [OF ok1 p(3) sid] .
    from cases show ?thesis
    proof (elim disjE exE conjE)
      assume r: "res = recorded_result i" "se_activities S2 = se_activities S1"
      have "activity_recorded hash to_text req window S res S2"
        using sc row(1,3) a d(1) r unfolding activity_recorded_def Let_def
        by (intro exI [of _ sid] conjI bexI [of _ a]) (auto simp: recorded_result_def)
      with s p r n1 show ?thesis by (auto simp: recorded_result_def occurrences_def)
    next
      fix f emb sid2
      let ?g = "\<lambda>a. a\<lparr>ac_status := Promoted, ac_promoted_fact_id := Some f\<rparr>"
      assume r: "res = \<lparr>rr_activity_id = Some i, rr_was_deduplicated = False, rr_promoted_fact_id = Some f, rr_status = Promoted\<rparr>"
        and u: "se_activities S2 = se_activities (update_activities i ?g S1)"
        and f: "f \<notin> fact_ids_of (se_db S1)" "em_embed em (pa_fact_content action) = Inr emb"
          "row (se_db S2) f = Some (new_fact_row hash f (new_fact_of now (promotion_request req action) emb False sid2))"
        and s2: "case ra_scope_path req of None \<Rightarrow> sid2 = 1 | Some p \<Rightarrow> resolve_path t2 p = Some sid2"
      have "scope_of_request req S2 sid2" by (rule request_scope [OF p(2) scopes_ok_self [OF p(2)] s2])
      with sc have [simp]: "sid2 = sid" by (rule scope_of_request_unique [symmetric])
      have ga: "?g a \<in> set (se_activities S2)" "same_activity ?na (?g a)" using a u by (auto simp: same_activity_def)
      have as: "ac_scope_id a = sid" using a(3) by (simp add: same_activity_def new_activity_of_def)
      have "activity_recorded hash to_text req window S res S2"
        using sc row(1,3) a d(1) r ga unfolding activity_recorded_def Let_def
        by (intro exI [of _ sid] conjI bexI [of _ "?g a"]) auto
      moreover have "fact_promoted hash now req action em S res S2 f"
        using r f ga a(2) sc as db1 unfolding fact_promoted_def
        by (intro conjI bexI [of _ "?g a"]) auto
      moreover have "occurrences S2 = occurrences S1"
      proof -
        have "map ac_occurrence_count (se_activities S2) = map ac_occurrence_count (se_activities S1)"
          unfolding u by (simp add: update_activities_def)
        then show ?thesis by (simp add: occurrences_def)
      qed
      ultimately show ?thesis using s p n1 r d by auto
    qed
  qed
qed

lemma record_activity_ok:
  assumes ok: "scopes_ok edim D0 (se_db S, t)" and inv: "session_inv S"
  shows "\<exists>r S' t'. record_activity hash edim lower to_text chunks ctx now req embedder config (S, g, t) = Some (r, (S', g, t')) \<and>
    scopes_ok edim D0 (se_db S', t') \<and> session_inv S' \<and>
    (case r of
       Inl e \<Rightarrow> se_activities S' = se_activities S \<and> d_facts (se_db S') = d_facts (se_db S)
     | Inr res \<Rightarrow>
         if apply_filter lower (ra_tool_name req) (ra_result req) config = DecideIgnore
         then rr_status res = Ignored \<and> rr_activity_id res = None \<and> S' = S
         else rr_status res \<noteq> Ignored \<and> occurrences S' = occurrences S + 1 \<and>
           activity_recorded hash to_text req (af_dedup_window_secs config) S res S' \<and>
           (\<forall>f. rr_promoted_fact_id res = Some f \<longrightarrow> (\<exists>action em. embedder = Some em \<and>
              apply_filter lower (ra_tool_name req) (ra_result req) config = DecidePromote action \<and>
              fact_promoted hash now req action em S res S' f)))"
proof (cases "ensure_writable ctx")
  case Inl
  with ok inv show ?thesis by (simp add: record_activity_def)
next
  case w: (Inr u)
  let ?d = "apply_filter lower (ra_tool_name req) (ra_result req) config"
  show ?thesis
  proof (cases "?d = DecideIgnore")
    case True
    with w ok inv show ?thesis by (simp add: record_activity_def Let_def)
  next
    case False
    from activity_scope_ok [OF ok inv, of ctx "ra_scope_path req" g] obtain r S1 t1 where
      sc: "activity_scope ctx (ra_scope_path req) (S, g, t) = Some (r, (S1, g, t1))" "scopes_ok edim D0 (se_db S1, t1)"
        "session_inv S1" "se_activities S1 = se_activities S" "d_facts (se_db S1) = d_facts (se_db S)"
      and i: "\<forall>i. r = Inr i \<longrightarrow> (case ra_scope_path req of None \<Rightarrow> i = 1 | Some p \<Rightarrow> resolve_path t1 p = Some i)"
      by blast
    show ?thesis
    proof (cases r)
      case (Inl e)
      with w False sc show ?thesis by (simp add: record_activity_def Let_def)
    next
      case (Inr sid)
      with i have sid: "case ra_scope_path req of None \<Rightarrow> sid = 1 | Some p \<Rightarrow> resolve_path t1 p = Some sid" by blast
      from store_activity_ok [OF sc(2,3) sid, of hash to_text chunks ctx now embedder ?d "af_dedup_window_secs config" g]
      obtain res S2 t2 where st: "store_activity hash edim to_text chunks ctx now req embedder ?d
          (af_dedup_window_secs config) sid (S1, g, t1) = Some (Inr res, (S2, g, t2))"
        and st': "scopes_ok edim D0 (se_db S2, t2)" "session_inv S2" "occurrences S2 = occurrences S1 + 1" "rr_status res \<noteq> Ignored"
          "activity_recorded hash to_text req (af_dedup_window_secs config) S1 res S2"
        and p: "\<forall>f. rr_promoted_fact_id res = Some f \<longrightarrow> (\<exists>action em. ?d = DecidePromote action \<and> embedder = Some em \<and>
          fact_promoted hash now req action em S1 res S2 f)" by blast
      have "record_activity hash edim lower to_text chunks ctx now req embedder config (S, g, t) = Some (Inr res, (S2, g, t2))"
        using w False sc(1) Inr st by (simp add: record_activity_def Let_def)
      moreover have "activity_recorded hash to_text req (af_dedup_window_secs config) S res S2"
        using st'(5) unfolding activity_recorded_def sc(4) .
      moreover have "fact_promoted hash now req action em S res S2 f" if "fact_promoted hash now req action em S1 res S2 f" for action em f
        using that sc(5) by (simp add: fact_promoted_def fact_ids_of_def)
      moreover have "occurrences S2 = occurrences S + 1" using st'(3) sc(4) by (simp add: occurrences_def)
      ultimately show ?thesis using False st' p by (intro exI [of _ "Inr res"] exI [of _ S2] exI [of _ t2]) auto
    qed
  qed
qed

lemma checkpoint_session_inv: "session_inv S \<Longrightarrow> session_inv (snd (checkpoint_session ctx now sid path summary metadata S))"
  using upsert_checkpoint_inv by (simp add: checkpoint_session_def op_bind_def op_of_def op_reads_def split: sum.split)

end
