(* ===== verification/Resume.thy ===== *)
theory Resume
  imports Activity_Calls
begin

text \<open>
  The tiered context of a resumed session (\<open>memory-engine/src/engine/resume.rs\<close>, \<open>resume/context.rs\<close>),
  the facts that fall due (\<open>engine/scheduling.rs\<close>) and the sampling of dormant facts
  (\<open>engine/dormant.rs\<close>). They read the tables through the port; the stamping of \<open>surfaced_at\<close> is their
  only write, and a pool opened read-only refuses it.
\<close>

record resume_config =
  rc_scope_path :: "string option"
  rc_now :: "time option"
  rc_pinned_cap :: nat
  rc_high_importance_cap :: nat
  rc_high_importance_min :: fl
  rc_due_cap :: nat
  rc_recent_cap :: nat

definition default_resume_config :: resume_config where
  "default_resume_config =
     \<lparr>rc_scope_path = None, rc_now = None, rc_pinned_cap = 50, rc_high_importance_cap = 20,
      rc_high_importance_min = Fin (7/10), rc_due_cap = 10, rc_recent_cap = 10\<rparr>"

definition check_cap :: "string \<times> nat \<Rightarrow> unit result" where
  "check_cap c = (if snd c = 0
     then Inl (Conflict (PolicyParameter (Fmt ''{} must be greater than 0, got 0'' [AStr (fst c)]))) else Inr ())"

definition validate_resume_config :: "resume_config \<Rightarrow> unit result" where
  "validate_resume_config c =
     (if \<not> fl_is_finite (rc_high_importance_min c) \<or> \<not> fl_in_range (Fin 0) (Fin 1) (rc_high_importance_min c)
      then Inl (Conflict (PolicyParameter (Fmt ''high_importance_min must be in [0.0, 1.0], got {}''
        [AFl (rc_high_importance_min c)])))
      else check_all check_cap [(''pinned_cap'', rc_pinned_cap c), (''high_importance_cap'', rc_high_importance_cap c),
        (''due_cap'', rc_due_cap c), (''recent_cap'', rc_recent_cap c)])"

record resume_context =
  rx_pinned :: "fact list"
  rx_high_importance :: "fact list"
  rx_due :: "fact list"
  rx_recent :: "fact list"

definition resolve_scope_ids :: "scope_tree \<Rightarrow> string option \<Rightarrow> int list result" where
  "resolve_scope_ids t scope = (case scope of
      None \<Rightarrow> Inr [root_id]
    | Some path \<Rightarrow> (case resolve_path t path of
          None \<Rightarrow> Inl (NotFound (Fmt ''scope path: {}'' [AStr path]))
        | Some i \<Rightarrow> Inr (ancestors t i)))"

definition stamp_surfaced_facts :: "memory_ctx \<Rightarrow> fact_id list \<Rightarrow> time \<Rightarrow> (db, (fact_id \<times> time) list) op" where
  "stamp_surfaced_facts ctx ids now = (if ctx_read_only ctx then op_fail ReadOnly else stamp_surfaced ids now)"

definition apply_surfaced_stamps :: "(fact_id \<times> time) list \<Rightarrow> fact list \<Rightarrow> fact list" where
  "apply_surfaced_stamps stamped fs =
     map (\<lambda>f. case map_of stamped (f_id f) of None \<Rightarrow> f | Some ts \<Rightarrow> f\<lparr>f_surfaced_at := Some ts\<rparr>) fs"

definition rx_all :: "resume_context \<Rightarrow> fact list" where
  "rx_all rx = rx_pinned rx @ rx_high_importance rx @ rx_due rx @ rx_recent rx"

definition is_unsurfaced_due :: "time \<Rightarrow> fact \<Rightarrow> bool" where
  "is_unsurfaced_due now f \<longleftrightarrow> f_surfaced_at f = None \<and> is_temporally_due f now"

definition assemble_tiers :: "nat \<Rightarrow> int list \<Rightarrow> time \<Rightarrow> resume_config \<Rightarrow> (db, resume_context) op" where
  \<comment> \<open>step 2\<close>
  "assemble_tiers edim scope_ids now c =
     op_bind (op_reads (\<lambda>D. list_pinned edim D [] (rc_pinned_cap c))) (\<lambda>pinned.
     let seen = f_id ` set pinned in
     op_bind (op_reads (\<lambda>D. list_by_importance_score edim D scope_ids (rc_high_importance_min c)
       (rc_high_importance_cap c) seen)) (\<lambda>high.
     let seen = seen \<union> f_id ` set high in
     op_bind (op_reads (\<lambda>D. list_due edim D now scope_ids (map f_id (pinned @ high)) (Some (rc_due_cap c)))) (\<lambda>due.
     let seen = seen \<union> f_id ` set due in
     op_bind (op_reads (\<lambda>D. list_by_scopes_recent edim D scope_ids (rc_recent_cap c) seen)) (\<lambda>recent.
     op_return \<lparr>rx_pinned = pinned, rx_high_importance = high, rx_due = due, rx_recent = recent\<rparr>))))"

definition stamp_tiers :: "memory_ctx \<Rightarrow> time \<Rightarrow> resume_context \<Rightarrow> (db, resume_context) op" where
  \<comment> \<open>step 3\<close>
  "stamp_tiers ctx now rx =
     (let ids = map f_id (filter (is_unsurfaced_due now) (rx_all rx)) in
      if ids = [] then op_return rx
      else op_bind (stamp_surfaced_facts ctx ids now) (\<lambda>stamped.
        op_return \<lparr>rx_pinned = apply_surfaced_stamps stamped (rx_pinned rx),
          rx_high_importance = apply_surfaced_stamps stamped (rx_high_importance rx),
          rx_due = apply_surfaced_stamps stamped (rx_due rx),
          rx_recent = apply_surfaced_stamps stamped (rx_recent rx)\<rparr>))"

definition resume :: "nat \<Rightarrow> memory_ctx \<Rightarrow> scope_tree \<Rightarrow> time \<Rightarrow> resume_config \<Rightarrow> (db, resume_context) op" where
  "resume edim ctx t clock c =
     op_bind (op_of (ensure_open ctx)) (\<lambda>_.
     op_bind (op_of (validate_resume_config c)) (\<lambda>_.
     let now = or_else (rc_now c) clock in
     op_bind (op_of (resolve_scope_ids t (rc_scope_path c))) (\<lambda>scope_ids.
     op_bind (assemble_tiers edim scope_ids now c) (stamp_tiers ctx now))))"

subsection \<open>Scheduling\<close>

definition engine_list_due :: "nat \<Rightarrow> memory_ctx \<Rightarrow> scope_tree \<Rightarrow> time \<Rightarrow> string option \<Rightarrow> (db, fact list) op" where
  "engine_list_due edim ctx t now scope =
     op_bind (op_of (resolve_scope_ids t scope)) (\<lambda>scope_ids.
     op_bind (op_reads (\<lambda>D. list_due edim D now scope_ids [] None)) (\<lambda>facts.
     let ids = map f_id (filter (\<lambda>f. f_surfaced_at f = None) facts) in
     if ids = [] then op_return facts
     else op_bind (stamp_surfaced_facts ctx ids now) (\<lambda>stamped. op_return (apply_surfaced_stamps stamped facts))))"

definition engine_next_due_time :: "scope_tree \<Rightarrow> time \<Rightarrow> string option \<Rightarrow> db \<Rightarrow> time option result" where
  "engine_next_due_time t now scope D =
     and_then (resolve_scope_ids t scope) (\<lambda>scope_ids. Inr (next_due_time D now scope_ids))"

subsection \<open>Dormant facts\<close>

definition dormant_threshold :: fl where "dormant_threshold = Fin (1/2)"

definition sample_dormant ::
    "nat \<Rightarrow> memory_ctx \<Rightarrow> time \<Rightarrow> nat \<Rightarrow> fl list \<Rightarrow> int list option \<Rightarrow> db \<Rightarrow> fact list result" where
  "sample_dormant edim ctx now n context_vec scope_ids D =
     and_then (ensure_open ctx) (\<lambda>_.
     if length context_vec \<noteq> edim then Inl (EmbeddingDimension edim (length context_vec))
     else if n = 0 then Inr []
     else and_then (list_dormant edim D dormant_threshold scope_ids now) (\<lambda>candidates.
       let scored = map (\<lambda>f. (cosine_similarity context_vec (f_embedding f), f)) candidates in
       Inr (map snd (take n (sort_by (desc_by fst) scored)))))"

subsection \<open>The tiers\<close>

lemma tier_rows:
  assumes "mset xs = mset (filter Q fs)" "distinct (map f_id fs)" "r = take m xs"
  shows "set r \<subseteq> {f \<in> set fs. Q f}" "distinct (map f_id r)" "length r \<le> m"
    and "f \<in> set fs \<Longrightarrow> Q f \<Longrightarrow> f \<in> set r \<or> length r = m"
proof -
  have s: "set xs = {f \<in> set fs. Q f}" using mset_eq_setD [OF assms(1)] by auto
  then show "set r \<subseteq> {f \<in> set fs. Q f}" using assms(3) by (auto dest: in_set_takeD)
  have "mset (map f_id xs) = mset (map f_id (filter Q fs))" using assms(1) by simp
  then have "distinct (map f_id xs)" using assms(2) by (metis distinct_map_filter mset_eq_imp_distinct_iff)
  then show "distinct (map f_id r)" using assms(3) by (simp add: take_map [symmetric])
  show "length r \<le> m" using assms(3) by simp
  show "f \<in> set r \<or> length r = m" if "f \<in> set fs" "Q f"
    using that s assms(3) by (cases "length xs \<le> m") auto
qed

definition tiers_exact :: "nat \<Rightarrow> int list \<Rightarrow> time \<Rightarrow> resume_config \<Rightarrow> db \<Rightarrow> resume_context \<Rightarrow> bool" where
  "tiers_exact edim scope_ids now c D rx \<longleftrightarrow>
     distinct (map f_id (rx_all rx)) \<and> set (rx_all rx) \<subseteq> set (d_facts D) \<and> list_all is_active_row (rx_all rx) \<and>
     list_all f_is_pinned (rx_pinned rx) \<and> length (rx_pinned rx) \<le> rc_pinned_cap c \<and>
     list_all (\<lambda>f. in_scopes scope_ids f \<and> fl_le (rc_high_importance_min c) (f_importance_score f)) (rx_high_importance rx) \<and>
     length (rx_high_importance rx) \<le> rc_high_importance_cap c \<and>
     list_all (\<lambda>f. in_scopes scope_ids f \<and> is_temporally_due f now) (rx_due rx) \<and> length (rx_due rx) \<le> rc_due_cap c \<and>
     list_all (\<lambda>f. f_scope_id f \<in> set scope_ids) (rx_recent rx) \<and> length (rx_recent rx) \<le> rc_recent_cap c"

definition tiers_complete :: "int list \<Rightarrow> time \<Rightarrow> resume_config \<Rightarrow> db \<Rightarrow> resume_context \<Rightarrow> bool" where
  \<comment> \<open>a fact that belongs to a tier is left out of the context only when the tier is full\<close>
  "tiers_complete scope_ids now c D rx \<longleftrightarrow> (\<forall>f \<in> set (d_facts D). is_active_row f \<longrightarrow> f \<notin> set (rx_all rx) \<longrightarrow>
     (f_is_pinned f \<longrightarrow> length (rx_pinned rx) = min (rc_pinned_cap c) i64_max) \<and>
     (in_scopes scope_ids f \<and> fl_le (rc_high_importance_min c) (f_importance_score f) \<longrightarrow>
        length (rx_high_importance rx) = min (rc_high_importance_cap c) i64_max) \<and>
     (in_scopes scope_ids f \<and> is_temporally_due f now \<longrightarrow> length (rx_due rx) = min (rc_due_cap c) i64_max) \<and>
     (f_scope_id f \<in> set scope_ids \<longrightarrow> length (rx_recent rx) = min (rc_recent_cap c) i64_max))"

lemma ids_apart:
  assumes "\<And>f. f \<in> set h \<Longrightarrow> f_id f \<notin> I" "f_id ` set p \<subseteq> I"
  shows "f_id ` set p \<inter> f_id ` set h = {}"
  using assms by fastforce

lemma assemble_tiers_ok:
  assumes inv: "db_inv edim D"
  shows "\<exists>rx. assemble_tiers edim scope_ids now c D = (Inr rx, D) \<and> tiers_exact edim scope_ids now c D rx \<and>
    tiers_complete scope_ids now c D rx"
proof -
  let ?fs = "d_facts D"
  have dist: "distinct (map f_id ?fs)" using db_invD(2) [OF inv] by (simp add: strict_sorted_iff)
  have inj: "f = g" if "f \<in> set ?fs" "g \<in> set ?fs" "f_id f = f_id g" for f g
    using that dist by (meson distinct_map inj_onD)
  define Q1 where "Q1 = (\<lambda>f. is_active_row f \<and> f_is_pinned f \<and> in_scopes [] f)"
  define p where "p = sql_limit (rc_pinned_cap c) (sort_by (desc_by f_importance_score) (filter Q1 ?fs))"
  note t1 = tier_rows [of "sort_by (desc_by f_importance_score) (filter Q1 ?fs)" Q1 ?fs p, OF _ dist p_def [unfolded sql_limit_def], simplified]
  define Q2 where "Q2 = (\<lambda>f. is_active_row f \<and> fl_le (rc_high_importance_min c) (f_importance_score f) \<and>
    f_id f \<notin> f_id ` set p \<and> in_scopes scope_ids f)"
  define h where "h = sql_limit (rc_high_importance_cap c) (sort_by (desc_by f_importance_score) (filter Q2 ?fs))"
  note t2 = tier_rows [of "sort_by (desc_by f_importance_score) (filter Q2 ?fs)" Q2 ?fs h, OF _ dist h_def [unfolded sql_limit_def], simplified]
  define Q3 where "Q3 = (\<lambda>f. is_active_row f \<and> (case f_t_valid f of None \<Rightarrow> False | Some tv \<Rightarrow> tv \<le> now) \<and>
    (case f_t_invalid f of None \<Rightarrow> True | Some ti \<Rightarrow> now < ti) \<and> in_scopes scope_ids f \<and>
    (map f_id (p @ h) = [] \<or> f_id f \<notin> set (map f_id (p @ h))))"
  define d where "d = sql_limit (rc_due_cap c) (sort_key (\<lambda>f. the (f_t_valid f)) (filter Q3 ?fs))"
  note t3 = tier_rows [of "sort_key (\<lambda>f. the (f_t_valid f)) (filter Q3 ?fs)" Q3 ?fs d, OF _ dist d_def [unfolded sql_limit_def], simplified]
  define Q4 where "Q4 = (\<lambda>f. is_active_row f \<and> f_scope_id f \<in> set scope_ids \<and>
    f_id f \<notin> f_id ` set p \<union> f_id ` set h \<union> f_id ` set d)"
  define r where "r = sql_limit (rc_recent_cap c) (sort_key (\<lambda>f. - f_t_created f) (filter Q4 ?fs))"
  note t4 = tier_rows [of "sort_key (\<lambda>f. - f_t_created f) (filter Q4 ?fs)" Q4 ?fs r, OF _ dist r_def [unfolded sql_limit_def], simplified]
  let ?rx = "\<lparr>rx_pinned = p, rx_high_importance = h, rx_due = d, rx_recent = r\<rparr>"
  have Q3: "Q3 f \<longleftrightarrow> is_active_row f \<and> is_temporally_due f now \<and> in_scopes scope_ids f \<and> f_id f \<notin> f_id ` set p \<union> f_id ` set h" for f
    by (auto simp: Q3_def is_temporally_due_def)
  have "list_pinned edim D [] (rc_pinned_cap c) = Inr p"
    unfolding list_pinned_def p_def Q1_def by (rule select_facts_ok [OF inv]) (use t1(1) in \<open>auto simp: p_def Q1_def\<close>)
  moreover have "list_by_importance_score edim D scope_ids (rc_high_importance_min c) (rc_high_importance_cap c) (f_id ` set p) = Inr h"
    unfolding list_by_importance_score_def h_def Q2_def by (rule select_facts_ok [OF inv]) (use t2(1) in \<open>auto simp: h_def Q2_def\<close>)
  moreover have "list_due edim D now scope_ids (map f_id (p @ h)) (Some (rc_due_cap c)) = Inr d"
    unfolding list_due_def Let_def d_def Q3_def option.case by (rule select_facts_ok [OF inv]) (use t3(1) in \<open>auto simp: d_def Q3_def\<close>)
  moreover have "list_by_scopes_recent edim D scope_ids (rc_recent_cap c) (f_id ` set p \<union> f_id ` set h \<union> f_id ` set d) = Inr r"
    unfolding list_by_scopes_recent_def r_def Q4_def by (rule select_facts_ok [OF inv]) (use t4(1) in \<open>auto simp: r_def Q4_def\<close>)
  ultimately have "assemble_tiers edim scope_ids now c D = (Inr ?rx, D)"
    by (simp add: assemble_tiers_def op_bind_def op_reads_def op_return_def Let_def)
  moreover have j: "f_id ` set p \<inter> f_id ` set h = {}" by (rule ids_apart [of _ "f_id ` set p"]) (use t2(1) in \<open>auto simp: Q2_def\<close>)
  moreover have "f_id ` set p \<inter> f_id ` set d = {}" by (rule ids_apart [of _ "f_id ` set p \<union> f_id ` set h"]) (use t3(1) in \<open>auto simp: Q3\<close>)
  moreover have "f_id ` set h \<inter> f_id ` set d = {}" by (rule ids_apart [of _ "f_id ` set p \<union> f_id ` set h"]) (use t3(1) in \<open>auto simp: Q3\<close>)
  moreover have "f_id ` set p \<inter> f_id ` set r = {}"
    by (rule ids_apart [of _ "f_id ` set p \<union> f_id ` set h \<union> f_id ` set d"]) (use t4(1) in \<open>auto simp: Q4_def\<close>)
  moreover have "f_id ` set h \<inter> f_id ` set r = {}"
    by (rule ids_apart [of _ "f_id ` set p \<union> f_id ` set h \<union> f_id ` set d"]) (use t4(1) in \<open>auto simp: Q4_def\<close>)
  moreover have "f_id ` set d \<inter> f_id ` set r = {}"
    by (rule ids_apart [of _ "f_id ` set p \<union> f_id ` set h \<union> f_id ` set d"]) (use t4(1) in \<open>auto simp: Q4_def\<close>)
  ultimately have a: "assemble_tiers edim scope_ids now c D = (Inr ?rx, D)" and "distinct (map f_id (rx_all ?rx))"
    using t1(2) t2(2) t3(2) t4(2) by (simp_all add: rx_all_def Int_Un_distrib)
  with t1(1,3) t2(1,3) t3(1,3) t4(1,3) have "tiers_exact edim scope_ids now c D ?rx"
    unfolding tiers_exact_def by (auto simp: rx_all_def list_all_iff Q1_def Q2_def Q3 Q4_def)
  moreover have "tiers_complete scope_ids now c D ?rx"
    unfolding tiers_complete_def
  proof (intro ballI impI)
    fix f assume f: "f \<in> set ?fs" "is_active_row f" "f \<notin> set (rx_all ?rx)"
    have out': "f \<notin> set p" "f \<notin> set h" "f \<notin> set d" "f \<notin> set r" using f(3) by (auto simp: rx_all_def)
    have "f_id f \<notin> f_id ` X" if "X \<subseteq> set ?fs" "f \<notin> X" for X
    proof
      assume "f_id f \<in> f_id ` X"
      then obtain g where "g \<in> X" "f_id f = f_id g" by auto
      with inj [OF f(1), of g] that show False by auto
    qed
    moreover have "set p \<subseteq> set ?fs" "set h \<subseteq> set ?fs" "set d \<subseteq> set ?fs" using t1(1) t2(1) t3(1) by auto
    ultimately have out: "f_id f \<notin> f_id ` set p" "f_id f \<notin> f_id ` set h" "f_id f \<notin> f_id ` set d"
      using out' by simp_all
    show "(f_is_pinned f \<longrightarrow> length (rx_pinned ?rx) = min (rc_pinned_cap c) i64_max) \<and>
     (in_scopes scope_ids f \<and> fl_le (rc_high_importance_min c) (f_importance_score f) \<longrightarrow>
        length (rx_high_importance ?rx) = min (rc_high_importance_cap c) i64_max) \<and>
     (in_scopes scope_ids f \<and> is_temporally_due f now \<longrightarrow> length (rx_due ?rx) = min (rc_due_cap c) i64_max) \<and>
     (f_scope_id f \<in> set scope_ids \<longrightarrow> length (rx_recent ?rx) = min (rc_recent_cap c) i64_max)"
      using t1(4) [OF f(1)] t2(4) [OF f(1)] t3(4) [OF f(1)] t4(4) [OF f(1)] out out' f(2)
      by (simp add: Q1_def Q2_def Q3 Q4_def in_scopes_def)
  qed
  ultimately show ?thesis using a by blast
qed

subsection \<open>Stamping\<close>

definition stamped :: "time \<Rightarrow> fact \<Rightarrow> fact" where
  "stamped now f = (if is_unsurfaced_due now f then f\<lparr>f_surfaced_at := Some now\<rparr> else f)"

definition map_tiers :: "(fact \<Rightarrow> fact) \<Rightarrow> resume_context \<Rightarrow> resume_context" where
  "map_tiers g rx = \<lparr>rx_pinned = map g (rx_pinned rx), rx_high_importance = map g (rx_high_importance rx),
     rx_due = map g (rx_due rx), rx_recent = map g (rx_recent rx)\<rparr>"

lemma stamped_id [simp]: "f_id (stamped now f) = f_id f" by (simp add: stamped_def)

lemma rx_all_map [simp]: "rx_all (map_tiers g rx) = map g (rx_all rx)"
  by (simp add: rx_all_def map_tiers_def)

lemma stamp_surfaced_ok:
  assumes dist: "distinct (map f_id (d_facts D))" and ids: "ids = map f_id (filter (is_unsurfaced_due now) fs)" "ids \<noteq> []"
    and fs: "set fs \<subseteq> set (d_facts D)"
  shows "\<exists>st. stamp_surfaced ids now D = (Inr st, update_facts (\<lambda>f. f \<in> set fs) (stamped now) D) \<and>
    (\<forall>f \<in> set fs. map_of st (f_id f) = (if is_unsurfaced_due now f then Some now else None))"
proof -
  have inj: "f = g" if "f \<in> set (d_facts D)" "g \<in> set (d_facts D)" "f_id f = f_id g" for f g
    using that dist by (meson distinct_map inj_onD)
  have mem: "f_id f \<in> set ids \<longleftrightarrow> f \<in> set fs \<and> is_unsurfaced_due now f" if "f \<in> set (d_facts D)" for f
    using that fs inj [OF that] ids(1) by (auto simp: image_iff)
  let ?D = "update_facts (\<lambda>f. f_id f \<in> set ids \<and> f_surfaced_at f = None) (\<lambda>f. f\<lparr>f_surfaced_at := Some now\<rparr>) D"
  have D: "?D = update_facts (\<lambda>f. f \<in> set fs) (stamped now) D"
    unfolding update_facts_def by (rule arg_cong [where f = "\<lambda>x. D\<lparr>d_facts := x\<rparr>"])
      (auto simp: mem stamped_def is_unsurfaced_due_def)
  let ?st = "map (\<lambda>f. (f_id f, the (f_surfaced_at f))) (filter (\<lambda>f. f_id f \<in> set ids \<and> f_surfaced_at f \<noteq> None) (d_facts ?D))"
  have "map f_id (d_facts ?D) = map f_id (d_facts D)" by (simp add: update_facts_def)
  then have "distinct (map f_id (d_facts ?D))" using dist by argo
  then have dst: "distinct (map fst ?st)" unfolding map_map comp_def fst_conv by (rule distinct_map_filter)
  have "map_of ?st (f_id f) = (if is_unsurfaced_due now f then Some now else None)" if f: "f \<in> set fs" for f
  proof (cases "is_unsurfaced_due now f")
    case True
    let ?g = "f\<lparr>f_surfaced_at := Some now\<rparr>"
    have m: "f_id f \<in> set ids" "f \<in> set (d_facts D)" using True f fs mem [of f] by auto
    then have g: "?g \<in> set (d_facts ?D)" using True unfolding update_facts_def is_unsurfaced_due_def
      by (auto simp: image_iff)
    have "(\<lambda>f. (f_id f, the (f_surfaced_at f))) ?g \<in> set ?st"
      unfolding set_map set_filter by (rule imageI) (use m(1) g in simp)
    then have "(f_id f, now) \<in> set ?st" by simp
    with dst True show ?thesis by (simp only: map_of_eq_Some_iff if_True)
  next
    case False
    with f fs mem [of f] have "f_id f \<notin> fst ` set ?st" by auto
    with False show ?thesis by (simp only: map_of_eq_None_iff if_False not_False_eq_True)
  qed
  moreover have "stamp_surfaced ids now D = (Inr ?st, ?D)" using ids(2) by (simp add: stamp_surfaced_def Let_def)
  ultimately show ?thesis unfolding D by blast
qed

lemma apply_stamps_eq:
  assumes "\<forall>f \<in> set fs. map_of st (f_id f) = (if is_unsurfaced_due now f then Some now else None)"
  shows "apply_surfaced_stamps st fs = map (stamped now) fs"
  using assms by (simp add: apply_surfaced_stamps_def stamped_def)

lemma stamp_tiers_ok:
  assumes "db_inv edim D" "set (rx_all rx) \<subseteq> set (d_facts D)"
  shows "\<not> ctx_read_only ctx \<Longrightarrow> stamp_tiers ctx now rx D =
      (Inr (map_tiers (stamped now) rx), update_facts (\<lambda>f. f \<in> set (rx_all rx)) (stamped now) D)"
    and "ctx_read_only ctx \<Longrightarrow> stamp_tiers ctx now rx D =
      (if list_ex (is_unsurfaced_due now) (rx_all rx) then Inl ReadOnly else Inr rx, D)"
proof -
  let ?ids = "map f_id (filter (is_unsurfaced_due now) (rx_all rx))"
  have dist: "distinct (map f_id (d_facts D))" using db_invD(2) [OF assms(1)] by (simp add: strict_sorted_iff)
  show "ctx_read_only ctx \<Longrightarrow> stamp_tiers ctx now rx D =
      (if list_ex (is_unsurfaced_due now) (rx_all rx) then Inl ReadOnly else Inr rx, D)"
    by (auto simp: stamp_tiers_def Let_def stamp_surfaced_facts_def op_bind_def op_fail_def op_return_def filter_empty_conv list_ex_iff)
  assume w: "\<not> ctx_read_only ctx"
  show "stamp_tiers ctx now rx D = (Inr (map_tiers (stamped now) rx), update_facts (\<lambda>f. f \<in> set (rx_all rx)) (stamped now) D)"
  proof (cases "?ids = []")
    case True
    then have id: "stamped now f = f" if "f \<in> set (rx_all rx)" for f
      using that by (auto simp: stamped_def filter_empty_conv)
    then have "map_tiers (stamped now) rx = rx"
      by (cases rx) (simp add: map_tiers_def rx_all_def map_idI)
    moreover have "update_facts (\<lambda>f. f \<in> set (rx_all rx)) (stamped now) D = D"
      using id by (simp add: update_facts_def map_idI)
    ultimately show ?thesis using True by (simp add: stamp_tiers_def Let_def op_return_def)
  next
    case False
    from stamp_surfaced_ok [OF dist refl False assms(2)] obtain st where st:
      "stamp_surfaced ?ids now D = (Inr st, update_facts (\<lambda>f. f \<in> set (rx_all rx)) (stamped now) D)"
      "\<forall>f \<in> set (rx_all rx). map_of st (f_id f) = (if is_unsurfaced_due now f then Some now else None)" by blast
    have ap: "apply_surfaced_stamps st fs = map (stamped now) fs" if "set fs \<subseteq> set (rx_all rx)" for fs
      using st(2) that by (intro apply_stamps_eq) blast
    have "set (rx_pinned rx) \<subseteq> set (rx_all rx)" "set (rx_high_importance rx) \<subseteq> set (rx_all rx)"
      "set (rx_due rx) \<subseteq> set (rx_all rx)" "set (rx_recent rx) \<subseteq> set (rx_all rx)" by (auto simp: rx_all_def)
    note this [THEN ap]
    moreover have "stamp_tiers ctx now rx D = (Inr \<lparr>rx_pinned = apply_surfaced_stamps st (rx_pinned rx),
        rx_high_importance = apply_surfaced_stamps st (rx_high_importance rx), rx_due = apply_surfaced_stamps st (rx_due rx),
        rx_recent = apply_surfaced_stamps st (rx_recent rx)\<rparr>, update_facts (\<lambda>f. f \<in> set (rx_all rx)) (stamped now) D)"
      using False st(1) w by (simp add: stamp_tiers_def Let_def stamp_surfaced_facts_def op_bind_def op_return_def)
    ultimately show ?thesis by (simp add: map_tiers_def)
  qed
qed

lemma keeps_stamped:
  assumes "db_inv edim D" shows "db_inv edim (update_facts p (stamped now) D)"
  by (rule update_facts_inv [OF assms]) (auto simp: row_update_ok_def stamped_def)

lemma resume_ok:
  assumes "db_inv edim D" "ensure_open ctx = Inr ()" "validate_resume_config c = Inr ()"
    and "resolve_scope_ids t (rc_scope_path c) = Inr scope_ids"
    and now: "now = or_else (rc_now c) clock"
  shows "\<exists>rx. tiers_exact edim scope_ids now c D rx \<and> tiers_complete scope_ids now c D rx \<and>
    resume edim ctx t clock c D =
      (if ctx_read_only ctx then (if list_ex (is_unsurfaced_due now) (rx_all rx) then Inl ReadOnly else Inr rx, D)
       else (Inr (map_tiers (stamped now) rx), update_facts (\<lambda>f. f \<in> set (rx_all rx)) (stamped now) D))"
proof -
  from assemble_tiers_ok [OF assms(1), of scope_ids now c] obtain rx where rx:
    "assemble_tiers edim scope_ids now c D = (Inr rx, D)" "tiers_exact edim scope_ids now c D rx" "tiers_complete scope_ids now c D rx"
    by blast
  then have sub: "set (rx_all rx) \<subseteq> set (d_facts D)" by (simp add: tiers_exact_def)
  have "resume edim ctx t clock c D = stamp_tiers ctx now rx D"
    using rx(1) assms(2-4) by (simp add: resume_def op_bind_def op_of_def Let_def now)
  with stamp_tiers_ok [OF assms(1) sub, of ctx now] rx(2,3) show ?thesis by auto
qed

subsection \<open>What is due and what is dormant\<close>

lemma engine_list_due_ok:
  assumes "db_inv edim D" "resolve_scope_ids t scope = Inr scope_ids" "\<not> ctx_read_only ctx"
    and r: "engine_list_due edim ctx t now scope D = (Inr fs, D')"
  shows "db_inv edim D'" "list_all (\<lambda>f. f_surfaced_at f \<noteq> None) fs"
    "set (map f_id fs) = f_id ` {f \<in> set (d_facts D). is_active_row f \<and> is_temporally_due f now \<and> in_scopes scope_ids f}"
proof -
  obtain rows where l: "list_due edim D now scope_ids [] None = Inr rows"
    and rows: "set rows = {f \<in> set (d_facts D). is_active_row f \<and> is_temporally_due f now \<and> in_scopes scope_ids f}"
  proof -
    let ?rows = "sort_key (\<lambda>f. the (f_t_valid f)) (filter (\<lambda>f. is_active_row f \<and>
        (case f_t_valid f of None \<Rightarrow> False | Some tv \<Rightarrow> tv \<le> now) \<and>
        (case f_t_invalid f of None \<Rightarrow> True | Some ti \<Rightarrow> now < ti) \<and> in_scopes scope_ids f) (d_facts D))"
    have "select_facts edim ?rows = Inr ?rows" by (rule select_facts_ok [OF assms(1)]) auto
    then have "list_due edim D now scope_ids [] None = Inr ?rows" by (simp add: list_due_def)
    then show thesis by (rule that) (auto simp: is_temporally_due_def)
  qed
  let ?ids = "map f_id (filter (\<lambda>f. f_surfaced_at f = None) rows)"
  have due: "filter (\<lambda>f. f_surfaced_at f = None) rows = filter (is_unsurfaced_due now) rows"
    by (rule filter_cong) (use rows in \<open>auto simp: is_unsurfaced_due_def\<close>)
  have dist: "distinct (map f_id (d_facts D))" using db_invD(2) [OF assms(1)] by (simp add: strict_sorted_iff)
  have "db_inv edim D' \<and> fs = map (stamped now) rows"
  proof (cases "?ids = []")
    case True
    then have "stamped now f = f" if "f \<in> set rows" for f
      using that unfolding due by (auto simp: stamped_def filter_empty_conv)
    moreover have "fs = rows" "D' = D"
      using r True assms(2) l by (simp_all add: engine_list_due_def op_bind_def op_of_def op_reads_def op_return_def Let_def)
    ultimately show ?thesis using assms(1) by (simp add: map_idI)
  next
    case False
    from stamp_surfaced_ok [OF dist, of ?ids now rows] False rows obtain st where st:
      "stamp_surfaced ?ids now D = (Inr st, update_facts (\<lambda>f. f \<in> set rows) (stamped now) D)"
      "\<forall>f \<in> set rows. map_of st (f_id f) = (if is_unsurfaced_due now f then Some now else None)"
      unfolding due by auto
    have "fs = apply_surfaced_stamps st rows" "D' = update_facts (\<lambda>f. f \<in> set rows) (stamped now) D"
      using r False assms(2,3) l st(1)
      by (simp_all add: engine_list_due_def stamp_surfaced_facts_def op_bind_def op_of_def op_reads_def op_return_def Let_def)
    then show ?thesis using apply_stamps_eq [OF st(2)] keeps_stamped [OF assms(1)] by (simp only: simp_thms)
  qed
  then have fs: "db_inv edim D'" "fs = map (stamped now) rows" by blast+
  show "db_inv edim D'" by (rule fs(1))
  show "list_all (\<lambda>f. f_surfaced_at f \<noteq> None) fs"
    unfolding fs(2) list_all_iff set_map rows by (auto simp: stamped_def is_unsurfaced_due_def)
  show "set (map f_id fs) = f_id ` {f \<in> set (d_facts D). is_active_row f \<and> is_temporally_due f now \<and> in_scopes scope_ids f}"
    unfolding fs(2) map_map comp_def stamped_id set_map rows ..
qed

lemma sample_dormant_ok:
  assumes "db_inv edim D" "ensure_open ctx = Inr ()" "length v = edim"
  shows "\<exists>fs. sample_dormant edim ctx now n v scope_ids D = Inr fs \<and> length fs \<le> n \<and> distinct fs \<and>
    set fs \<subseteq> {f \<in> set (d_facts D). is_active_row f \<and> \<not> f_is_pinned f \<and> fl_lt (f_importance_score f) dormant_threshold \<and>
      valid_at now f}"
proof (cases "n = 0")
  case False
  obtain rows where l: "list_dormant edim D dormant_threshold scope_ids now = Inr rows" and d: "distinct rows"
    and s: "set rows \<subseteq> {f \<in> set (d_facts D). is_active_row f \<and> \<not> f_is_pinned f \<and> fl_lt (f_importance_score f) dormant_threshold \<and>
      valid_at now f}"
  proof -
    let ?Q = "\<lambda>f. is_active_row f \<and> \<not> f_is_pinned f \<and> fl_lt (f_importance_score f) dormant_threshold \<and> valid_at now f \<and>
       (case scope_ids of None \<Rightarrow> True | Some ids \<Rightarrow> in_scopes ids f)"
    have "list_dormant edim D dormant_threshold scope_ids now = Inr (filter ?Q (d_facts D))"
      unfolding list_dormant_def by (rule select_facts_ok [OF assms(1)]) auto
    moreover have "distinct (d_facts D)" using db_invD(2) [OF assms(1)] by (simp add: strict_sorted_iff distinct_map)
    then have "distinct (filter ?Q (d_facts D))" by (rule distinct_filter)
    ultimately show thesis by (rule that) auto
  qed
  define sims where "sims = sort_by (desc_by fst) (map (\<lambda>f. (cosine_similarity v (f_embedding f), f)) rows)"
  have "mset (map snd sims) = mset rows" by (simp add: sims_def multiset.map_comp comp_def)
  then have m: "distinct (map snd sims)" "set (map snd sims) = set rows"
    using d by (metis mset_eq_imp_distinct_iff, metis mset_eq_setD)
  have "sample_dormant edim ctx now n v scope_ids D = Inr (map snd (take n sims))"
    using assms(2,3) False l by (simp add: sample_dormant_def and_then_def Let_def sims_def)
  moreover have "distinct (map snd (take n sims))" using m(1) by (simp add: take_map [symmetric])
  moreover have "set (map snd (take n sims)) \<subseteq> set rows" unfolding m(2) [symmetric] by (auto dest: in_set_takeD)
  ultimately show ?thesis using s by (intro exI [of _ "map snd (take n sims)"] conjI) auto
qed (use assms in \<open>simp add: sample_dormant_def and_then_def\<close>)

end
