(* ===== verification/Session_Properties.thy ===== *)
theory Session_Properties
  imports Resume Store_Properties
begin

text \<open>
  The properties of the activity stream, of the session checkpoints and of the resume context.
\<close>

subsection \<open>The examples\<close>

definition ex_sessions :: session_store where
  "ex_sessions = \<lparr>se_db = ex_db, se_activities = [], se_activity_seq = 0, se_checkpoints = []\<rparr>"

lemma ex_sessions_inv: "session_inv ex_sessions"
  by (simp add: session_inv_def ex_sessions_def)

lemma ex_sessions_engine: "engine_ok 1 list_petgraph (se_db ex_sessions, ex_graph, load_scope_tree ex_db)"
proof -
  have "engine_open list_petgraph ex_db = (ex_db, ex_graph, load_scope_tree ex_db)"
    using ex_store_ok by (simp add: engine_open_def load_graph_from_db_def ex_graph_def canonical_active store_ok_def)
  then show ?thesis using engine_open_ok [OF lpg.petgraph_laws_axioms ex_store_ok] by (simp add: ex_sessions_def)
qed

definition ex_activity_request :: "string \<Rightarrow> time \<Rightarrow> record_activity_request" where
  "ex_activity_request tool at_time = \<lparr>ra_tool_name = tool, ra_args = JObj [], ra_result = Some ''ok'',
     ra_session_id = ''s'', ra_timestamp = at_time, ra_scope_path = None, ra_outcome_class = None\<rparr>"

definition ex_filter_config :: activity_filter_config where
  "ex_filter_config = new_filter_config (\<lambda>s. s) 300 [''read''] [''test'']"

definition ex_record ::
    "string \<Rightarrow> time \<Rightarrow> list_graph activity_state \<Rightarrow> (record_activity_result result \<times> list_graph activity_state) option" where
  "ex_record tool at_time = record_activity (\<lambda>s. s) 1 (\<lambda>s. s) (\<lambda>_. ''{}'') (\<lambda>_. [2]) ex_ctx 5
     (ex_activity_request tool at_time) (Some ex_embedder) ex_filter_config"

lemmas ex_record_simps = ex_record_def record_activity_def ex_activity_request_def ex_filter_config_def new_filter_config_def
  ex_ctx_def ensure_writable_def ensure_open_def apply_filter_def activity_scope_def store_activity_def insert_or_dedup_def
  find_existing_def new_activity_of_def args_hash_def truncate_text_def or_else_def ex_sessions_def ex_db_def scope_ids_of_def
  init_scopes_def new_activity_row_def outcome_of_text_def recorded_result_def

subsection \<open>Recording\<close>

text \<open>C29: recording an activity always returns; whatever it returns, the tables keep their invariants, the
  projections stay in step with the tables, and the occurrence counts of the rows add up to one more
  exactly when the call succeeds and the activity is not ignored.\<close>

theorem activity_calls_safe:
  assumes "engine_ok edim P (se_db S, g, t)" "session_inv S"
  shows "\<exists>r S' t'. record_activity hash edim lower to_text chunks ctx now req embedder config (S, g, t) = Some (r, (S', g, t')) \<and>
    engine_ok edim P (se_db S', g, t') \<and> session_inv S' \<and>
    occurrences S' = occurrences S + (case r of Inl e \<Rightarrow> 0 | Inr res \<Rightarrow> if rr_status res = Ignored then 0 else 1)"
proof -
  have ok: "scopes_ok edim (se_db S) (se_db S, t)" using assms(1) by (simp add: engine_ok_iff)
  from record_activity_ok [OF ok assms(2), of hash lower to_text chunks ctx now req embedder config g]
  obtain r S' t' where r: "record_activity hash edim lower to_text chunks ctx now req embedder config (S, g, t) = Some (r, (S', g, t'))"
    "scopes_ok edim (se_db S) (se_db S', t')" "session_inv S'"
    and spec: "case r of
       Inl e \<Rightarrow> se_activities S' = se_activities S \<and> d_facts (se_db S') = d_facts (se_db S)
     | Inr res \<Rightarrow>
         if apply_filter lower (ra_tool_name req) (ra_result req) config = DecideIgnore
         then rr_status res = Ignored \<and> rr_activity_id res = None \<and> S' = S
         else rr_status res \<noteq> Ignored \<and> occurrences S' = occurrences S + 1 \<and>
           activity_recorded hash to_text req (af_dedup_window_secs config) S res S' \<and>
           (\<forall>f. rr_promoted_fact_id res = Some f \<longrightarrow> (\<exists>action em. embedder = Some em \<and>
              apply_filter lower (ra_tool_name req) (ra_result req) config = DecidePromote action \<and>
              fact_promoted hash now req action em S res S' f))" by blast
  have "engine_ok edim P (se_db S', g, t')" by (rule tree_call_ok [OF assms(1) r(2)])
  moreover have "occurrences S' = occurrences S + (case r of Inl e \<Rightarrow> 0 | Inr res \<Rightarrow> if rr_status res = Ignored then 0 else 1)"
    using spec by (cases r) (auto simp: occurrences_def split: if_splits)
  ultimately show ?thesis using r by blast
qed

theorem activity_calls_safe_witness:
  "\<exists>S' t'. ex_record ''bash'' 7 (ex_sessions, ex_graph, load_scope_tree ex_db) = Some (Inr (recorded_result 1), (S', ex_graph, t')) \<and>
    engine_ok 1 list_petgraph (se_db S', ex_graph, t') \<and> occurrences S' = 1"
proof -
  from activity_calls_safe [OF ex_sessions_engine ex_sessions_inv, of "\<lambda>s. s" "\<lambda>s. s" "\<lambda>_. ''{}''" "\<lambda>_. [2]" ex_ctx 5
      "ex_activity_request ''bash'' 7" "Some ex_embedder" ex_filter_config]
  obtain r S' t' where r: "ex_record ''bash'' 7 (ex_sessions, ex_graph, load_scope_tree ex_db) = Some (r, (S', ex_graph, t'))"
    "engine_ok 1 list_petgraph (se_db S', ex_graph, t')"
    "occurrences S' = occurrences ex_sessions + (case r of Inl e \<Rightarrow> 0 | Inr res \<Rightarrow> if rr_status res = Ignored then 0 else 1)"
    unfolding ex_record_def by blast
  have "r = Inr (recorded_result 1)"
    using r(1) by (simp add: ex_record_simps)
  with r show ?thesis by (simp add: occurrences_def ex_sessions_def recorded_result_def)
qed

text \<open>C30: an activity that is not ignored is found afterwards in one row with its session, tool, arguments,
  outcome and scope, last seen at its time; the row is an older one exactly when one with the same key lies
  in the window. When it is promoted, the fact is new, has the text of the filter and the scope of the
  activity, and the row is linked to it.\<close>

theorem recorded_activity_found:
  assumes "engine_ok edim P (se_db S, g, t)" "session_inv S"
    and "record_activity hash edim lower to_text chunks ctx now req embedder config (S, g, t) = Some (Inr res, (S', g', t'))"
    and "rr_status res \<noteq> Ignored"
  shows "\<exists>scope_id a. scope_of_request req S' scope_id \<and> a \<in> set (se_activities S') \<and> rr_activity_id res = Some (ac_id a) \<and>
      same_activity (new_activity_of hash to_text req scope_id) a \<and> ac_last_seen a = ra_timestamp req \<and>
      rr_was_deduplicated res = (ac_id a \<in> ac_id ` set (se_activities S)) \<and>
      rr_was_deduplicated res = (\<exists>b \<in> set (se_activities S). ac_status b \<noteq> Ignored \<and>
        same_activity (new_activity_of hash to_text req scope_id) b \<and>
        ra_timestamp req - ac_last_seen b < af_dedup_window_secs config * nanos_per_second) \<and>
      (\<forall>f. rr_promoted_fact_id res = Some f \<longrightarrow> f \<notin> fact_ids_of (se_db S) \<and> (\<exists>a' em emb.
         a' \<in> set (se_activities S') \<and> ac_id a' = ac_id a \<and> ac_status a' = Promoted \<and> ac_promoted_fact_id a' = Some f \<and>
         embedder = Some em \<and> em_embed em (format_promote_content (ra_tool_name req) (ra_result req)) = Inr emb \<and>
         (\<exists>row_f. row (se_db S') f = Some row_f \<and> f_scope_id row_f = scope_id \<and> f_embedding row_f = emb \<and>
            f_content row_f = format_promote_content (ra_tool_name req) (ra_result req) \<and> is_active_row row_f)))"
proof -
  have ok: "scopes_ok edim (se_db S) (se_db S, t)" using assms(1) by (simp add: engine_ok_iff)
  from record_activity_ok [OF ok assms(2), of hash lower to_text chunks ctx now req embedder config g] assms(3,4)
  have r: "activity_recorded hash to_text req (af_dedup_window_secs config) S res S'"
    and p: "\<forall>f. rr_promoted_fact_id res = Some f \<longrightarrow> (\<exists>action em. embedder = Some em \<and>
       apply_filter lower (ra_tool_name req) (ra_result req) config = DecidePromote action \<and>
       fact_promoted hash now req action em S res S' f)"
    by (auto split: if_splits)
  from r obtain scope_id a where a: "scope_of_request req S' scope_id" "a \<in> set (se_activities S')"
    "rr_activity_id res = Some (ac_id a)" "same_activity (new_activity_of hash to_text req scope_id) a"
    "ac_last_seen a = ra_timestamp req" "rr_was_deduplicated res = (ac_id a \<in> ac_id ` set (se_activities S))"
    "rr_was_deduplicated res = (\<exists>b \<in> set (se_activities S). dedup_candidate (new_activity_of hash to_text req scope_id) (af_dedup_window_secs config) b)"
    unfolding activity_recorded_def Let_def by blast
  have w: "in_dedup_window (new_activity_of hash to_text req scope_id) n b \<longleftrightarrow> ra_timestamp req - ac_last_seen b < n * nanos_per_second" for n b
    by (simp add: in_dedup_window_def new_activity_of_def)
  have "f \<notin> fact_ids_of (se_db S) \<and> (\<exists>a' em emb. a' \<in> set (se_activities S') \<and> ac_id a' = ac_id a \<and>
      ac_status a' = Promoted \<and> ac_promoted_fact_id a' = Some f \<and>
      embedder = Some em \<and> em_embed em (format_promote_content (ra_tool_name req) (ra_result req)) = Inr emb \<and>
      (\<exists>row_f. row (se_db S') f = Some row_f \<and> f_scope_id row_f = scope_id \<and> f_embedding row_f = emb \<and>
         f_content row_f = format_promote_content (ra_tool_name req) (ra_result req) \<and> is_active_row row_f))"
    if f: "rr_promoted_fact_id res = Some f" for f
  proof -
    from p f obtain action em where act: "embedder = Some em"
      "apply_filter lower (ra_tool_name req) (ra_result req) config = DecidePromote action"
      "fact_promoted hash now req action em S res S' f" by blast
    have c: "pa_fact_content action = format_promote_content (ra_tool_name req) (ra_result req)"
      using act(2) by (auto simp: apply_filter_def Let_def split: if_splits)
    from act(3) obtain a' emb where a': "a' \<in> set (se_activities S')" "rr_activity_id res = Some (ac_id a')" "ac_status a' = Promoted"
      "ac_promoted_fact_id a' = Some f" "scope_of_request req S' (ac_scope_id a')" "em_embed em (pa_fact_content action) = Inr emb"
      "row (se_db S') f = Some (new_fact_row hash f (new_fact_of now (promotion_request req action) emb False (ac_scope_id a')))"
      and n: "f \<notin> fact_ids_of (se_db S)" unfolding fact_promoted_def by blast
    have "ac_scope_id a' = scope_id" by (rule scope_of_request_unique [OF a'(5) a(1)])
    with a' a(3) act(1) c n show ?thesis
      by (intro conjI exI [of _ a'] exI [of _ em] exI [of _ emb])
        (auto simp: new_fact_row_def new_fact_of_def promotion_request_def is_active_row_def)
  qed
  with a show ?thesis
    unfolding dedup_candidate_iff w by (intro exI [of _ scope_id] exI [of _ a]) (auto simp: conj_commute)
qed

theorem recorded_activity_found_witness:
  "\<exists>S' t' res. ex_record ''test'' 7 (ex_sessions, ex_graph, load_scope_tree ex_db) = Some (Inr res, (S', ex_graph, t')) \<and>
    rr_promoted_fact_id res = Some 3 \<and> (\<exists>f. row (se_db S') 3 = Some f \<and> f_content f = ''[test] ok'')"
proof -
  let ?req = "ex_activity_request ''test'' 7"
  let ?action = "\<lparr>pa_fact_content = format_promote_content ''test'' (Some ''ok''), pa_fact_type = Episodic, pa_importance = Fin (7/10)\<rparr>"
  have "\<exists>D. add_fact (sqlite_storage (\<lambda>s. s) 1) (\<lambda>_. [2]) ex_ctx 5 (promotion_request ?req ?action) ex_embedder None
      (ex_db, load_scope_tree ex_db) = Some (Inr 3, (D, load_scope_tree ex_db)) \<and> 3 \<in> fact_ids_of D"
    by (simp add: add_fact_def ingest_gate_def insert_fact_with_embedding_def insert_fact_atomic_def promotion_request_def
        ex_activity_request_def fl_in_range_def fl_le_def new_fact_row_def ex_ingest_simps fact_ids_of_def format_promote_content_def)
  then obtain D where a: "add_fact (sqlite_storage (\<lambda>s. s) 1) (\<lambda>_. [2]) ex_ctx 5 (promotion_request ?req ?action) ex_embedder None
      (ex_db, load_scope_tree ex_db) = Some (Inr 3, (D, load_scope_tree ex_db))" "3 \<in> fact_ids_of D" by blast
  let ?S = "ex_sessions\<lparr>se_activities := [new_activity_row 1 (new_activity_of (\<lambda>s. s) (\<lambda>_. ''{}'') ?req 1)], se_activity_seq := 1\<rparr>"
  have i: "insert_or_dedup (new_activity_of (\<lambda>s. s) (\<lambda>_. ''{}'') ?req 1) 300 ex_sessions = (Inr (1, False), ?S)"
    by (simp add: ex_record_simps)
  have f: "apply_filter (\<lambda>s. s) ''test'' (Some ''ok'') ex_filter_config = DecidePromote ?action"
    by (simp add: apply_filter_def ex_filter_config_def new_filter_config_def)
  have u: "update_status 1 Promoted (Some 3) (?S\<lparr>se_db := D\<rparr>) =
      (Inr (), update_activities 1 (\<lambda>a. a\<lparr>ac_status := Promoted, ac_promoted_fact_id := Some 3\<rparr>) (?S\<lparr>se_db := D\<rparr>))"
    using a(2) by (simp add: update_status_def new_activity_row_def)
  have "ra_tool_name ?req = ''test''" "ra_result ?req = Some ''ok''" "ra_scope_path ?req = None" "af_dedup_window_secs ex_filter_config = 300"
    by (simp_all add: ex_activity_request_def ex_filter_config_def new_filter_config_def)
  then obtain S' where r: "ex_record ''test'' 7 (ex_sessions, ex_graph, load_scope_tree ex_db) =
      Some (Inr \<lparr>rr_activity_id = Some 1, rr_was_deduplicated = False, rr_promoted_fact_id = Some 3, rr_status = Promoted\<rparr>,
        (S', ex_graph, load_scope_tree ex_db))"
    using a(1) i f u ex_ctx_open(2)
    by (simp add: ex_record_def record_activity_def Let_def activity_scope_def store_activity_def promote_activity_def
        ex_sessions_def del: One_nat_def)
  have c: "format_promote_content (ra_tool_name (ex_activity_request ''test'' 7)) (ra_result (ex_activity_request ''test'' 7)) = ''[test] ok''"
    by (simp add: format_promote_content_def ex_activity_request_def)
  from recorded_activity_found [OF ex_sessions_engine ex_sessions_inv r [unfolded ex_record_def]] have
    "\<exists>f. row (se_db S') 3 = Some f \<and> f_content f = ''[test] ok''" unfolding c by auto
  with r show ?thesis by auto
qed


text \<open>A checkpoint is found under the text of its path only: another spelling of the path resolves to the same
  scope, but the context loaded with it has no checkpoint.\<close>

lemma checkpoint_lost_by_spelling:
  fixes S :: session_store
  defines "S \<equiv> ex_sessions\<lparr>se_db := ex_db\<lparr>d_scopes := ex_scopes\<rparr>\<rparr>"
  shows "\<exists>S' c c'. checkpoint_session ex_ctx 5 ''s'' (Some ''a/ b'') None None S = (Inr (), S') \<and>
    resolve_path (from_nodes (sc_rows ex_scopes)) ''a/ b'' = Some 3 \<and> resolve_path (from_nodes (sc_rows ex_scopes)) ''a/b'' = Some 3 \<and>
    load_context 1 (\<lambda>_ T. T) (from_nodes (sc_rows ex_scopes)) ''a/ b'' 5 5 S' = (Inr c, S') \<and> pc_last_checkpoint c \<noteq> None \<and>
    load_context 1 (\<lambda>_ T. T) (from_nodes (sc_rows ex_scopes)) ''a/b'' 5 5 S' = (Inr c', S') \<and> pc_last_checkpoint c' = None"
proof -
  have p: "resolve_path (from_nodes (sc_rows ex_scopes)) ''a/ b'' = Some 3" "resolve_path (from_nodes (sc_rows ex_scopes)) ''a/b'' = Some 3"
    "subtree (from_nodes (sc_rows ex_scopes)) 3 = [3]"
    unfolding ex_scopes_def by code_simp+
  let ?S' = "S\<lparr>se_checkpoints := [\<lparr>cp_session_id = ''s'', cp_scope_path = Some ''a/ b'', cp_summary = None,
    cp_last_activity_id = None, cp_checkpoint_at = 5, cp_metadata = JObj []\<rparr>]\<rparr>"
  have "checkpoint_session ex_ctx 5 ''s'' (Some ''a/ b'') None None S = (Inr (), ?S')"
    by (simp add: checkpoint_session_def op_bind_def op_of_def op_reads_def ex_ctx_open list_by_session_def sql_limit_def
        upsert_checkpoint_def S_def ex_sessions_def or_else_def)
  moreover have "\<exists>c. load_context 1 (\<lambda>_ T. T) (from_nodes (sc_rows ex_scopes)) path 5 5 ?S' = (Inr c, ?S') \<and>
      pc_last_checkpoint c = get_checkpoint_by_scope ?S' path" if "path = ''a/ b'' \<or> path = ''a/b''" for path
    using that p by (auto simp: load_context_def read_then_def op_bind_def op_reads_def op_return_def Let_def S_def ex_sessions_def
        list_recent_by_scope_def i64_max_def list_by_scopes_recent_def select_facts_def ex_db_def ex_fact_def sql_limit_def)
  moreover have "get_checkpoint_by_scope ?S' ''a/ b'' \<noteq> None" "get_checkpoint_by_scope ?S' ''a/b'' = None"
    by (simp_all add: get_checkpoint_by_scope_def)
  ultimately show ?thesis using p by metis
qed

subsection \<open>Resuming\<close>

text \<open>C31: resuming a session on an open handle with a valid configuration and a known scope gives four tiers
  with no fact twice, each within its cap and of its kind, and leaves a fact of a tier out only when the
  tier is full. On a writable handle every returned due fact that was never surfaced is stamped with the
  time of the call, in the tables and in the result alike, and nothing else changes; on a read-only
  handle the call fails exactly when there is such a fact, and changes nothing.\<close>

theorem resume_tiers_exact:
  assumes "db_inv edim D" "ensure_open ctx = Inr ()" "validate_resume_config c = Inr ()"
    and "resolve_scope_ids t (rc_scope_path c) = Inr scope_ids" "now = or_else (rc_now c) clock"
  shows "\<exists>rx. tiers_exact edim scope_ids now c D rx \<and> tiers_complete scope_ids now c D rx \<and>
    (\<not> ctx_read_only ctx \<longrightarrow> (\<exists>D'. resume edim ctx t clock c D = (Inr (map_tiers (stamped now) rx), D') \<and> db_inv edim D' \<and>
       D' = update_facts (\<lambda>f. f \<in> set (rx_all rx)) (stamped now) D \<and>
       set (rx_all (map_tiers (stamped now) rx)) \<subseteq> set (d_facts D'))) \<and>
    (ctx_read_only ctx \<longrightarrow> resume edim ctx t clock c D =
       (if list_ex (is_unsurfaced_due now) (rx_all rx) then Inl ReadOnly else Inr rx, D))"
proof -
  from resume_ok [OF assms] obtain rx where rx: "tiers_exact edim scope_ids now c D rx" "tiers_complete scope_ids now c D rx"
    "resume edim ctx t clock c D =
      (if ctx_read_only ctx then (if list_ex (is_unsurfaced_due now) (rx_all rx) then Inl ReadOnly else Inr rx, D)
       else (Inr (map_tiers (stamped now) rx), update_facts (\<lambda>f. f \<in> set (rx_all rx)) (stamped now) D))" by blast
  have "set (rx_all (map_tiers (stamped now) rx)) \<subseteq> set (d_facts (update_facts (\<lambda>f. f \<in> set (rx_all rx)) (stamped now) D))"
    using rx(1) by (auto simp: tiers_exact_def update_facts_def)
  with rx keeps_stamped [OF assms(1)] show ?thesis by auto
qed

theorem resume_tiers_exact_witness:
  "\<exists>rx. resume 1 ex_ctx (load_scope_tree ex_due_db) 9 (default_resume_config\<lparr>rc_now := Some 5\<rparr>) ex_due_db =
      (Inr (map_tiers (stamped 5) rx), update_facts (\<lambda>f. f \<in> set (rx_all rx)) (stamped 5) ex_due_db) \<and>
    db_inv 1 (update_facts (\<lambda>f. f \<in> set (rx_all rx)) (stamped 5) ex_due_db) \<and>
    map f_id (rx_due rx) = [2, 1] \<and> map f_id (rx_recent rx) = [3] \<and> tiers_exact 1 [1] 5 (default_resume_config\<lparr>rc_now := Some 5\<rparr>) ex_due_db rx"
proof -
  let ?c = "default_resume_config\<lparr>rc_now := Some 5\<rparr>"
  have v: "validate_resume_config ?c = Inr ()"
    by (simp add: validate_resume_config_def default_resume_config_def check_cap_def fl_in_range_def fl_le_def)
  have s: "resolve_scope_ids (load_scope_tree ex_due_db) (rc_scope_path ?c) = Inr [1]"
    by (simp add: resolve_scope_ids_def default_resume_config_def root_id_def)
  have n: "5 = or_else (rc_now ?c) 9" by (simp add: or_else_def)
  from resume_tiers_exact [OF ex_due_inv ex_ctx_open(1) v s n] obtain rx where
    rx: "tiers_exact 1 [1] 5 ?c ex_due_db rx" "resume 1 ex_ctx (load_scope_tree ex_due_db) 9 ?c ex_due_db =
      (Inr (map_tiers (stamped 5) rx), update_facts (\<lambda>f. f \<in> set (rx_all rx)) (stamped 5) ex_due_db)"
    "db_inv 1 (update_facts (\<lambda>f. f \<in> set (rx_all rx)) (stamped 5) ex_due_db)"
    by (auto simp: ex_ctx_def)
  have "\<exists>rx'. assemble_tiers 1 [1] 5 ?c ex_due_db = (Inr rx', ex_due_db) \<and> set (rx_all rx') \<subseteq> set (d_facts ex_due_db) \<and>
      map f_id (rx_due rx') = [2, 1] \<and> map f_id (rx_recent rx') = [3]"
    by (simp add: op_bind_def op_reads_def op_return_def Let_def assemble_tiers_def
        list_pinned_def list_by_importance_score_def list_due_def list_by_scopes_recent_def select_facts_def row_to_fact_def
        default_resume_config_def ex_due_db_def ex_fact_def is_active_row_def in_scopes_def sql_limit_def i64_max_def fl_le_def
        sort_by_def rx_all_def)
  then obtain rx' where rx': "assemble_tiers 1 [1] 5 ?c ex_due_db = (Inr rx', ex_due_db)" "set (rx_all rx') \<subseteq> set (d_facts ex_due_db)"
    "map f_id (rx_due rx') = [2, 1]" "map f_id (rx_recent rx') = [3]" by (elim exE conjE) (rule that)
  have "resume 1 ex_ctx (load_scope_tree ex_due_db) 9 ?c ex_due_db = stamp_tiers ex_ctx 5 rx' ex_due_db"
    using rx'(1) ex_ctx_open(1) v s n [symmetric] by (simp add: resume_def op_bind_def op_of_def Let_def del: One_nat_def)
  also have "fst \<dots> = Inr (map_tiers (stamped 5) rx')"
    using stamp_tiers_ok(1) [OF ex_due_inv rx'(2), of ex_ctx 5] by (simp add: ex_ctx_def)
  finally have "map_tiers (stamped 5) rx = map_tiers (stamped 5) rx'" using rx(2) by simp
  then have "map f_id (map (stamped 5) (rx_due rx)) = map f_id (map (stamped 5) (rx_due rx'))"
    "map f_id (map (stamped 5) (rx_recent rx)) = map f_id (map (stamped 5) (rx_recent rx'))" by (simp_all add: map_tiers_def)
  with rx'(3,4) have "map f_id (map (stamped 5) (rx_due rx)) = [2, 1]" "map f_id (map (stamped 5) (rx_recent rx)) = [3]"
    unfolding map_map comp_def stamped_id by simp_all
  then have "map f_id (rx_due rx) = [2, 1]" "map f_id (rx_recent rx) = [3]" unfolding map_map comp_def stamped_id .
  with rx show ?thesis by (intro exI [of _ rx] conjI)
qed

end
