(* ===== verification/Spec2Isabelle.thy ===== *)
theory Spec2Isabelle
  imports Index_Properties Store_Properties Query_Properties Cycle_Properties Snapshot Dream_Properties Consolidation_Properties Space_Properties Restore_Properties Session_Properties
begin

text \<open>
  A model of memory-engine, an agent memory store written in Rust (\<open>src/crates\<close>), and the
  theorems that make it correct.

  \<^bold>\<open>The program.\<close> Facts, edges between facts, scopes and events live in SQLite tables
  (\<open>me-backend-sqlite\<close>). The primitives of layer 3 (\<open>me-ingest\<close>, \<open>me-query\<close>, \<open>me-forget\<close>,
  \<open>me-resolve\<close>, \<open>me-cognitive\<close>) reach them through the persistence port of \<open>me-storage\<close>. Two
  in-memory projections (\<open>me-index\<close>) answer graph and scope questions: the knowledge graph of the
  active edges and the tree of scopes. The facade (\<open>memory-engine\<close>) owns the store and the
  projections, loads the projections on open, from the tables or from a sidecar snapshot, and
  mirrors every commit in them.

  \<^bold>\<open>Theories.\<close>
  \<^item> \<open>Prelude_ME\<close>, \<open>Float_Model\<close>, \<open>Store_Monad\<close>: results, hash maps, breadth-first search, floats,
    the stable sort, operations on a store with transactions and preserved invariants.
  \<^item> \<open>Domain_Types\<close>: the types of \<open>me-types\<close>, the forgetting policy and its validation, the size
    limits.
  \<^item> \<open>Scope_Tree\<close>, \<open>Memory_Graph\<close>: the projections of \<open>me-index\<close>; petgraph is a parameter with the
    laws of the locale \<open>petgraph_laws\<close>.
  \<^item> \<open>Scope_Store\<close>, \<open>Fact_Store\<close>, \<open>Backend\<close>: the tables with their constraints (\<open>db\<close>), the stores of
    \<open>me-backend-sqlite/src/store\<close> over them, and the transactions of \<open>sqlite/graph.rs\<close>.
  \<^item> \<open>Search_Index\<close>: filters, vector scan and full-text queries of the backend.
  \<^item> \<open>Storage_Port\<close>: the port as the record \<open>storage\<close>, its contracts as the locales
    \<open>fact_graph_port\<close> and \<open>scope_port\<close>, interpreted on \<open>sqlite_storage\<close>.
  \<^item> \<open>Forget\<close>, \<open>Resolve\<close>, \<open>Ingest\<close>, \<open>Query\<close>: the primitives, over the port.
  \<^item> \<open>Engine\<close>: loading, co-session edges, edge expiry, scope creation, and \<open>engine_step\<close>, one call of
    the facade. \<open>Snapshot\<close>: the sidecar file and opening from it.
  \<^item> \<open>Upcaster\<close>, \<open>Log_Store\<close>: the event log with its upcasters, the lineage of promoted facts and the
    configuration, beside \<open>db\<close> in the record \<open>log_store\<close>.
  \<^item> \<open>Cycle\<close>, \<open>Cycle_Apply\<close>: validating and applying the report of a dream cycle
    (\<open>sqlite/consolidation.rs\<close>, \<open>me-cognitive/src/apply.rs\<close>), and what it does to the graph.
  \<^item> \<open>Dbscan\<close>, \<open>Outcome_Log\<close>, \<open>Dream_Cycle\<close>: the cycles that propose reports: density clustering,
    outcome signals, the default cycle, the cycle over a proposer, the guarded run and promotion
    (\<open>me-cognitive\<close>, \<open>memory-engine/src/engine/{cognitive,outcome}.rs\<close>). \<open>Dream_Reports\<close> proves what
    the reports they make hold: the deltas of a report are valid for the store it was made from.
  \<^item> \<open>Summary_Store\<close>, \<open>Consolidation\<close>: the table of summaries beside \<open>log_store\<close> in the record
    \<open>summary_store\<close>, and consolidation in three phases: snapshot, plan, transaction
    (\<open>me-consolidate\<close>, \<open>me-backend-sqlite/src/consolidation\<close>). \<open>Dedup\<close> and \<open>Greedy_Cluster\<close> prove
    what the passes compute, \<open>Consolidation_Apply\<close> what the transaction does, \<open>Consolidation_Graph\<close> what
    becomes of the graph.
  \<^item> \<open>Space_Store\<close>, \<open>Reconstruct\<close>: the embedding spaces and the vectors of the spaces that are not active,
    beside \<open>summary_store\<close> in the record \<open>space_store\<close> (\<open>store/embedding_spaces.rs\<close>,
    \<open>store/fact_vectors.rs\<close>), and the reconstruction under another identity
    (\<open>memory-engine/src/engine/reconstruct.rs\<close>).
  \<^item> \<open>Dump\<close>, \<open>Restore\<close>: the dump of a store as a document, and restoring a store from one
    (\<open>me-backend-sqlite/src/inspect/dump.rs\<close>, \<open>memory-engine/src/inspect/restore.rs\<close>,
    \<open>engine/restore.rs\<close>). \<open>Restore_Rows\<close> proves what inserting the rows needs and gives,
    \<open>Restore_Sound\<close> the invariants of the restored store, \<open>Restore_Dump\<close> that a dump can be restored.
  \<^item> \<open>Activity_Store\<close>, \<open>Activity\<close>, \<open>Resume\<close>: the activities and checkpoints beside \<open>db\<close> in the record
    \<open>session_store\<close> (\<open>store/activities.rs\<close>, \<open>store/checkpoints.rs\<close>), recording an activity and the context
    of a project (\<open>engine/activity.rs\<close>, \<open>engine/activity_filter.rs\<close>), resuming a session and the facts that
    are due or dormant (\<open>engine/{resume,scheduling,dormant}.rs\<close>). \<open>Activity_Calls\<close> proves what a recorded
    call leaves.
  \<^item> \<open>Examples\<close>: concrete stores, graphs and requests. \<open>Index_Properties\<close>, \<open>Store_Properties\<close>,
    \<open>Query_Properties\<close>, \<open>Cycle_Properties\<close>, \<open>Dream_Properties\<close>, \<open>Consolidation_Properties\<close>,
    \<open>Space_Properties\<close>, \<open>Restore_Properties\<close>, \<open>Session_Properties\<close> and this theory hold the properties; each is numbered and has
    a witness when it has a hypothesis.

  \<^bold>\<open>How code and model correspond.\<close> A struct is a record with a field prefix, an enum a datatype
  with the source's variants, \<open>Result\<close> a sum with the source's errors, a table the list of its rows
  in rowid order with its \<open>AUTOINCREMENT\<close> counter. A stateful function takes the state and returns
  its result and the state it leaves, on errors too. A string is its UTF-8 bytes, a timestamp a
  number of nanoseconds, a float a real, an infinity or NaN (rounding is not modelled), an
  \<open>i64\<close> id an integer, a \<open>usize\<close> a natural with saturation written out. Calls are sequential:
  \<open>async\<close> and the locks are not modelled. What may panic or run forever has an option as its
  result, and the properties prove that it is not \<open>None\<close>. No fuel is used: the loops of the model
  are structural, have a measure, or are a \<open>partial_function\<close> (\<open>chain_loop\<close>) with a proof that it
  returns.

  Parameters, with their documented laws where something rests on them: petgraph, BLAKE3, the JSON
  serialiser (sizes and texts), RFC 3339 rendering, FTS5, the MessagePack codec, the embedder, the
  classifier, the arbiter, the reranker, and the clock.

  \<^bold>\<open>What the lemmas show.\<close> Each component theory proves an invariant (\<open>scope_wf\<close>, \<open>graph_ok\<close>,
  \<open>scopes_inv\<close>, \<open>db_inv\<close>, \<open>engine_ok\<close>), that every operation keeps it, and what each operation
  does; \<open>keeps\<close> and its rules compose the invariants along the code. The port's contracts are
  proved once on the SQLite model and used by the primitives. Across components: in every reachable
  state of the engine the graph has exactly the active edges of the tables and the scope tree holds
  only rows of the scope table (\<open>engine_ok\<close>); a snapshot is used only when it is a projection of the
  current store.
  A cycle report that passes validation is applied (\<open>cycle_applies\<close>); it is not a step of
  \<open>engine_step\<close>, because it keeps the graph in step only under the condition \<open>supersede_safe\<close>.
  The reports of both cycles pass it (\<open>default_report_applies\<close>, \<open>llm_report_applies\<close>), and their window
  is consumed (\<open>applied_consumes\<close>).

  Consolidation holds no lock between its phases: \<open>consolidate\<close> takes what other calls do there as
  arguments. A plan fits the store of its snapshot (\<open>compute_plan_fits\<close>) and every later one, where it
  is applied completely (\<open>apply_plan_ok\<close>).

  The spaces and the staged vectors keep \<open>space_inv\<close>: at most one space is active, its identity is the one
  of the store, and no vector is staged under it. A backfill ends with a vector for every fact
  (\<open>backfill_from_ok\<close>), whatever other calls add before the second pass (\<open>two_passes\<close>), so that the
  promotion passes its gate (\<open>promote_space_ok\<close>).

  A document can be restored exactly when its rows fit (\<open>document_fits\<close>, \<open>restore_tables_iff\<close>); the restored
  store then holds them in the order of their ids (\<open>restored_is_filled\<close>) and satisfies \<open>space_inv\<close>
  (\<open>restored_sound\<close>). The dump of a sound store fits (\<open>document_fits_empty\<close>, \<open>restore_document\<close>).

  Activities and checkpoints keep \<open>session_inv\<close>; a path resolves in every later tree to the same scope
  (\<open>resolve_mono\<close>), so that a promoted fact lies in the scope of its activity (\<open>store_activity_ok\<close>). The
  tiers of a resumed session are \<open>assemble_tiers_ok\<close>, their stamps \<open>stamp_tiers_ok\<close>.

  \<^bold>\<open>Not modelled.\<close> The HNSW index, an approximate structure of a third-party crate behind a
  feature; the connection pool, threads and cancellation; schema migrations (DDL executed by
  SQLite) and the PostgreSQL backend (the same port in another dialect); archive
  files, whose content is third-party codecs; the HTTP embedding client, the MCP server and the
  command line, which parse arguments and render output.
\<close>

subsection \<open>The engine and its projections\<close>



text \<open>In every reachable state the degree the engine reports for a fact is the number of active
  edges that leave it plus the number that reach it, and its neighbours are the targets of the
  active edges that leave it, in the tables and not only in the graph.\<close>

theorem engine_degree_is_edge_count:
  assumes "engine_reach hash edim P D0 (D, g, t)" "petgraph_laws P" "store_ok edim D0"
  shows "graph_degree P (D, g, t) i =
      length (filter (\<lambda>e. e_source_fact_id e = i) (active_edges D)) +
      length (filter (\<lambda>e. e_target_fact_id e = i) (active_edges D)) \<and>
    mset (graph_neighbors P (D, g, t) i) =
      mset (map e_target_fact_id (filter (\<lambda>e. e_source_fact_id e = i) (active_edges D)))"
proof -
  from engine_reach_ok [OF assms] have m: "graph_ok P g" "abs_edges P g = image_mset edge_triple (mset (active_edges D))"
    by (auto simp: engine_ok_def mirrors_def)
  show ?thesis
    unfolding graph_degree_def graph_neighbors_def prod.case petgraph_laws.degree_ok [OF assms(2) m(1)]
      petgraph_laws.neighbors_ok [OF assms(2) m(1)] m(2)
    by (simp add: filter_mset_image_mset comp_def edge_triple_def image_mset.compositionality
        flip: size_mset)
qed

theorem engine_degree_is_edge_count_witness:
  "graph_degree list_petgraph (engine_open list_petgraph ex_db) 1 = 1 \<and>
   mset (graph_neighbors list_petgraph (engine_open list_petgraph ex_db) 1) = {#2#}"
  using engine_degree_is_edge_count [OF reach_open [of "\<lambda>s. s" 1 list_petgraph ex_db, unfolded engine_open_def]
    lpg.petgraph_laws_axioms ex_store_ok, of 1]
  by (simp add: engine_open_def active_edges_def ex_db_def ex_edge_def is_active_edge_def)








subsection \<open>The in-memory graph and the store\<close>

text \<open>A successful \<open>prune\<close> on the SQLite backend leaves the in-memory graph with exactly the
  active edges the tables then hold, keeps the tables' invariant, expires precisely the facts it
  reports and counts them right, over any graph library that meets petgraph's documentation.\<close>

theorem prune_keeps_graph_in_step:
  assumes "petgraph_laws P" "db_inv edim D" "mirrors P g (active_edges D)"
    and "prune (sqlite_storage hash edim) P ctx policy now (D, g) = (Inr (stats, expired), (D', g'))"
  shows "db_inv edim D' \<and> mirrors P g' (active_edges D') \<and>
    ps_facts_expired stats = length expired \<and>
    (\<forall>i. is_active D' i \<longleftrightarrow> is_active D i \<and> i \<notin> set expired)"
  using mirrored_store.prune_mirrors [OF mirrored_store.intro [OF assms(1) sql.fact_graph_port_axioms] assms(2-)]
  by blast

text \<open>After a successful \<open>resolve_conflict\<close>, for every decision of the arbiter, the in-memory
  graph again has exactly the active edges of the tables, an updated or deleted fact is no longer
  active, and a new fact is reported just for an added or updated one.\<close>

theorem resolve_keeps_graph_in_step:
  assumes "petgraph_laws P" "db_inv edim D" "mirrors P g (active_edges D)"
    and "resolve_conflict (sqlite_storage hash edim) P chunks ctx arbitrate old_id nf now (D, g) =
      (Inr cr, (D', g'))"
  shows "db_inv edim D' \<and> mirrors P g' (active_edges D') \<and>
    (cr_decision cr \<in> {CrudUpdate, CrudDelete} \<longrightarrow> \<not> is_active D' old_id) \<and>
    (cr_new_fact_id cr \<noteq> None \<longleftrightarrow> cr_decision cr \<in> {CrudAdd, CrudUpdate})"
  by (rule mirrored_store.resolve_conflict_mirrors
      [OF mirrored_store.intro [OF assms(1) sql.fact_graph_port_axioms] assms(2-)])

subsection \<open>Concrete inputs\<close>

theorem prune_keeps_graph_in_step_witness:
  "\<exists>stats expired D' g'. prune (sqlite_storage (\<lambda>s. s) 1) list_petgraph ex_ctx ex_policy 5
      (ex_db, ex_graph) = (Inr (stats, expired), (D', g')) \<and>
    mirrors list_petgraph g' (active_edges D') \<and> ps_facts_expired stats = length expired"
proof -
  obtain stats expired D' g' where r: "prune (sqlite_storage (\<lambda>s. s) 1) list_petgraph ex_ctx ex_policy 5
      (ex_db, ex_graph) = (Inr (stats, expired), (D', g'))"
    using prune_succeeds_ok [OF ex_db_inv ex_ctx_open ex_policy_valid ex_rows,
      of "\<lambda>s. s" list_petgraph 5 ex_graph] by blast
  from prune_keeps_graph_in_step [OF lpg.petgraph_laws_axioms ex_db_inv ex_mirrors r] r
  show ?thesis by blast
qed

theorem resolve_keeps_graph_in_step_witness:
  "\<exists>cr D' g'. resolve_conflict (sqlite_storage (\<lambda>s. s) 1) list_petgraph (\<lambda>_. [2]) ex_ctx
      (\<lambda>_ _. Inr CrudUpdate) 1 (ex_new_fact ''c'') 5 (ex_db, ex_graph) = (Inr cr, (D', g')) \<and>
    mirrors list_petgraph g' (active_edges D') \<and> \<not> is_active D' 1"
proof -
  let ?r = "resolve_conflict (sqlite_storage (\<lambda>s. s) 1) list_petgraph (\<lambda>_. [2]) ex_ctx
      (\<lambda>_ _. Inr CrudUpdate) 1 (ex_new_fact ''c'') 5 (ex_db, ex_graph)"
  have "\<exists>cr D' g'. ?r = (Inr cr, (D', g')) \<and> cr_decision cr = CrudUpdate"
    by (simp add: resolve_conflict_def op_bind_def ex_ctx_def ensure_open_def ensure_writable_def
        check_new_fact_def check_str_size_def check_json_size_def ex_new_fact_def max_payload_bytes_def
        on_store_def sqlite_storage_def ex_db_def fact_get_def ex_fact_def row_to_fact_def
        resolve_conflict_atomic_def transaction_def cascade_expire_def expire_and_invalidate_def
        update_or_not_found_def is_active_row_def expire_by_fact_def Let_def insert_successor_def
        fact_insert_def fact_constraint_def edge_insert_def relation_edge_def conflict_edge_weight_def
        scope_ids_of_def fact_ids_of_def init_scopes_def new_fact_row_def and_then_def)
  then show ?thesis
    using resolve_keeps_graph_in_step [OF lpg.petgraph_laws_axioms ex_db_inv ex_mirrors] by blast
qed

end
